(* ===== verification/Prelude.thy ===== *)
theory Prelude
  imports Main "HOL-Library.Word" "HOL-Library.Sublist"
begin

text \<open>
  What every component of the development shares: the names of the machine
  types, the string predicates of Rust's \<^verbatim>\<open>str\<close> the code uses, and two small
  container vocabularies with their laws. A \<^emph>\<open>table\<close> is a list of rows in
  insertion order, which is how the development reads a sqlite table: a query is a
  \<open>filter\<close> or a \<open>find\<close>, an \<^verbatim>\<open>UPDATE .. WHERE\<close> is \<open>upd_where\<close>. A \<^emph>\<open>book\<close> is a
  \<^verbatim>\<open>HashMap\<close> the code iterates over, as an association list with distinct keys
  (\<open>put\<close>, \<open>del\<close>, \<open>map_of\<close>); a \<^verbatim>\<open>HashMap\<close> that is only looked up is a HOL map.
  The contract of a keyed store is the locale \<open>keyed_store\<close>, interpreted here on the
  books and later on the tables.
\<close>

named_theorems table_simps \<open>queries after updates of a table\<close>
named_theorems frame_simps \<open>fields an operation does not write\<close>

type_synonym u8 = "8 word"
type_synonym u16 = "16 word"
type_synonym u32 = "32 word"

text \<open>Unix seconds (\<^verbatim>\<open>i64\<close>) and \<^verbatim>\<open>Instant\<close>/\<^verbatim>\<open>Duration\<close> in milliseconds.\<close>

type_synonym secs = int
type_synonym instant = nat
type_synonym millis = nat

section \<open>Strings\<close>

definition starts_with :: "string \<Rightarrow> string \<Rightarrow> bool" where
  "starts_with s p \<longleftrightarrow> prefix p s"

definition contains_str :: "string \<Rightarrow> string \<Rightarrow> bool" where
  "contains_str s p \<longleftrightarrow> sublist p s"

definition contains_char :: "string \<Rightarrow> char \<Rightarrow> bool" where
  "contains_char s c \<longleftrightarrow> c \<in> set s"

text \<open>\<^verbatim>\<open>s.split(c).next()\<close>: what comes before the first \<open>c\<close>, all of \<open>s\<close> if there is none.\<close>

definition before_char :: "char \<Rightarrow> string \<Rightarrow> string" where
  "before_char c s = takeWhile (\<lambda>x. x \<noteq> c) s"

text \<open>\<^verbatim>\<open>s.split_once(c)\<close>.\<close>

definition split_once :: "char \<Rightarrow> string \<Rightarrow> (string \<times> string) option" where
  "split_once c s =
     (case dropWhile (\<lambda>x. x \<noteq> c) s of [] \<Rightarrow> None | _ # r \<Rightarrow> Some (before_char c s, r))"

text \<open>\<^verbatim>\<open>char::is_whitespace\<close> on ASCII, and \<^verbatim>\<open>str::trim\<close>.\<close>

definition is_space :: "char \<Rightarrow> bool" where
  "is_space c \<longleftrightarrow> of_char c \<in> {9, 10, 11, 12, 13, 32 :: nat}"

definition trim :: "string \<Rightarrow> string" where
  "trim s = rev (dropWhile is_space (rev (dropWhile is_space s)))"

text \<open>One byte of \<^verbatim>\<open>to_ascii_lowercase\<close>.\<close>

definition ascii_lower :: "char \<Rightarrow> char" where
  "ascii_lower c = (if 65 \<le> (of_char c :: nat) \<and> (of_char c :: nat) \<le> 90 then char_of (of_char c + 32 :: nat) else c)"

lemma before_char_prefix: "prefix (before_char c s) s"
  unfolding before_char_def by (rule takeWhile_is_prefix)

lemma before_char_no_sep [simp]: "c \<notin> set (before_char c s)"
  unfolding before_char_def by (auto dest: set_takeWhileD)

lemma before_char_id: "c \<notin> set s \<Longrightarrow> before_char c s = s"
  unfolding before_char_def by (auto simp: takeWhile_eq_all_conv)

lemma before_char_append [simp]: "c \<notin> set s \<Longrightarrow> before_char c (s @ c # t) = s"
  unfolding before_char_def by (subst takeWhile_append2) auto

lemma starts_with_append [simp]: "starts_with (p @ s) p"
  by (simp add: starts_with_def)

subsection \<open>Decimal numbers\<close>

text \<open>
  \<^verbatim>\<open>format!("{n}")\<close> of an unsigned number, and the value of a run of decimal digits.
\<close>

definition digit_char :: "nat \<Rightarrow> char" where
  "digit_char d = ''0123456789'' ! d"

definition is_digit :: "char \<Rightarrow> bool" where
  "is_digit c \<longleftrightarrow> 48 \<le> (of_char c :: nat) \<and> (of_char c :: nat) \<le> 57"

definition digit_val :: "char \<Rightarrow> nat" where
  "digit_val c = of_char c - 48"

fun dec :: "nat \<Rightarrow> string" where
  "dec n = (if n < 10 then [digit_char n] else dec (n div 10) @ [digit_char (n mod 10)])"

declare dec.simps [simp del]

definition dec_value :: "string \<Rightarrow> nat" where
  "dec_value s = foldl (\<lambda>v c. 10 * v + digit_val c) 0 s"

definition dec_int :: "int \<Rightarrow> string" where
  "dec_int i = (if i < 0 then ''-'' @ dec (nat (- i)) else dec (nat i))"

lemma of_digit_char: "d < 10 \<Longrightarrow> of_char (digit_char d) = 48 + d"
proof -
  assume "d < 10"
  then have "d \<in> {0, 1, 2, 3, 4, 5, 6, 7, 8, 9}" by auto
  then show ?thesis by (elim insertE) (simp_all add: digit_char_def)
qed

lemma is_digit_digit_char [simp]: "d < 10 \<Longrightarrow> is_digit (digit_char d)"
  by (simp add: is_digit_def of_digit_char)

lemma digit_val_digit_char [simp]: "d < 10 \<Longrightarrow> digit_val (digit_char d) = d"
  by (simp add: digit_val_def of_digit_char)

lemma dec_nonempty [simp]: "dec n \<noteq> []"
  by (subst dec.simps) simp

lemma dec_digits: "list_all is_digit (dec n)"
proof (induction n rule: dec.induct)
  case (1 n)
  then show ?case by (subst dec.simps) auto
qed

lemma dec_value_dec [simp]: "dec_value (dec n) = n"
proof (induction n rule: dec.induct)
  case (1 n)
  show ?case
  proof (cases "n < 10")
    case True
    then show ?thesis by (subst dec.simps) (simp add: dec_value_def)
  next
    case False
    with 1 have "foldl (\<lambda>v c. 10 * v + digit_val c) 0 (dec (n div 10)) = n div 10"
      by (simp add: dec_value_def)
    with False show ?thesis by (subst dec.simps) (simp add: dec_value_def)
  qed
qed

lemma dec_inj: "dec m = dec n \<longleftrightarrow> m = n"
  by (metis dec_value_dec)

lemma is_digit_not [simp]: "is_digit c \<Longrightarrow> c \<noteq> CHR ''-''"
  "is_digit c \<Longrightarrow> c \<noteq> CHR ''.''" "is_digit c \<Longrightarrow> c \<noteq> CHR ''/''"
  "is_digit c \<Longrightarrow> c \<noteq> CHR ''+''" "is_digit c \<Longrightarrow> c \<noteq> CHR 0x0A"
  by (auto simp: is_digit_def)

lemma is_digit_not_space [simp]: "is_digit c \<Longrightarrow> \<not> is_space c"
  by (auto simp: is_digit_def is_space_def)

lemma dec_mem: "c \<in> set (dec n) \<Longrightarrow> is_digit c"
  using dec_digits [of n] by (auto simp: list_all_iff)

lemma dec_int_inj: "dec_int i = dec_int j \<longleftrightarrow> i = j"
proof -
  have neg: "dec k \<noteq> CHR ''-'' # s" for k s
    using dec_mem [of "CHR ''-''" k] by (metis is_digit_not(1) list.set_intros(1))
  show ?thesis using neg neg [symmetric]
    by (auto simp: dec_int_def dec_inj nat_eq_iff split: if_splits)
qed

section \<open>Results\<close>

text \<open>The \<^verbatim>\<open>?\<close> of Rust: go on with the value, or return the error.\<close>

definition and_then :: "'e + 'a \<Rightarrow> ('a \<Rightarrow> 'e + 'b) \<Rightarrow> 'e + 'b" where
  "and_then r f = (case r of Inl e \<Rightarrow> Inl e | Inr x \<Rightarrow> f x)"

lemma and_then_simps [simp]: "and_then (Inl e) f = Inl e" "and_then (Inr x) f = f x"
  by (simp_all add: and_then_def)

lemma and_then_Inr: "and_then r f = Inr y \<longleftrightarrow> (\<exists>x. r = Inr x \<and> f x = Inr y)"
  by (cases r) auto

section \<open>Tables\<close>

definition upd_where :: "('a \<Rightarrow> bool) \<Rightarrow> ('a \<Rightarrow> 'a) \<Rightarrow> 'a list \<Rightarrow> 'a list" where
  "upd_where P f rows = map (\<lambda>r. if P r then f r else r) rows"

definition del_where :: "('a \<Rightarrow> bool) \<Rightarrow> 'a list \<Rightarrow> 'a list" where
  "del_where P rows = filter (\<lambda>r. \<not> P r) rows"

definition row_of :: "('a \<Rightarrow> 'k) \<Rightarrow> 'a list \<Rightarrow> 'k \<Rightarrow> 'a option" where
  "row_of key rows k = find (\<lambda>r. key r = k) rows"

text \<open>How many rows an \<^verbatim>\<open>execute\<close> changed.\<close>

definition changed :: "('a \<Rightarrow> bool) \<Rightarrow> 'a list \<Rightarrow> nat" where
  "changed P rows = length (filter P rows)"

lemma length_upd_where [table_simps, simp]: "length (upd_where P f rows) = length rows"
  by (simp add: upd_where_def)

lemma set_upd_where [table_simps]:
  "set (upd_where P f rows) = (\<lambda>r. if P r then f r else r) ` set rows"
  by (simp add: upd_where_def)

lemma map_key_upd_where [table_simps]:
  "(\<And>r. P r \<Longrightarrow> key (f r) = key r) \<Longrightarrow> map key (upd_where P f rows) = map key rows"
  by (simp add: upd_where_def)

lemma set_del_where [table_simps]: "set (del_where P rows) = {r \<in> set rows. \<not> P r}"
  by (auto simp: del_where_def)

lemma upd_where_none: "(\<And>r. r \<in> set rows \<Longrightarrow> \<not> P r) \<Longrightarrow> upd_where P f rows = rows"
  by (induction rows) (auto simp: upd_where_def)

lemma upd_where_noop: "(\<And>r. r \<in> set rows \<Longrightarrow> P r \<Longrightarrow> f r = r) \<Longrightarrow> upd_where P f rows = rows"
  by (induction rows) (auto simp: upd_where_def)

lemma all_upd_where:
  assumes "\<And>r. r \<in> set rows \<Longrightarrow> P r \<Longrightarrow> Q (f r)" "\<And>r. r \<in> set rows \<Longrightarrow> \<not> P r \<Longrightarrow> Q r"
  shows "\<forall>r \<in> set (upd_where P f rows). Q r"
  using assms by (auto simp: upd_where_def)

lemma row_of_key: "row_of key rows k = Some r \<Longrightarrow> key r = k \<and> r \<in> set rows"
  by (auto simp: row_of_def find_Some_iff)

lemma row_of_None: "row_of key rows k = None \<longleftrightarrow> k \<notin> key ` set rows"
  by (auto simp: row_of_def find_None_iff)

lemma row_of_in: "distinct (map key rows) \<Longrightarrow> r \<in> set rows \<Longrightarrow> row_of key rows (key r) = Some r"
  by (induction rows) (auto simp: row_of_def)

lemma row_of_upd_where:
  assumes "\<And>r. key (f r) = key r"
  shows "row_of key (upd_where (\<lambda>r. key r = i) f rows) k =
     (if k = i then map_option f (row_of key rows k) else row_of key rows k)"
  using assms by (induction rows) (auto simp: row_of_def upd_where_def)

lemma row_of_del_where:
  "row_of key (del_where (\<lambda>r. key r = i) rows) k = (if k = i then None else row_of key rows k)"
  by (induction rows) (auto simp: row_of_def del_where_def)

lemma row_of_append:
  "row_of key (rows @ [r]) k =
     (case row_of key rows k of Some x \<Rightarrow> Some x | None \<Rightarrow> if key r = k then Some r else None)"
  by (induction rows) (auto simp: row_of_def)

lemma changed_pos: "0 < changed P rows \<longleftrightarrow> (\<exists>r \<in> set rows. P r)"
  by (auto simp: changed_def filter_empty_conv)

section \<open>Books\<close>

type_synonym ('k, 'v) book = "('k \<times> 'v) list"

definition put :: "'k \<Rightarrow> 'v \<Rightarrow> ('k, 'v) book \<Rightarrow> ('k, 'v) book" where
  "put k v b = (k, v) # filter (\<lambda>e. fst e \<noteq> k) b"

definition del :: "'k \<Rightarrow> ('k, 'v) book \<Rightarrow> ('k, 'v) book" where
  "del k b = filter (\<lambda>e. fst e \<noteq> k) b"

text \<open>\<^verbatim>\<open>retain\<close>.\<close>

definition keep :: "('k \<Rightarrow> 'v \<Rightarrow> bool) \<Rightarrow> ('k, 'v) book \<Rightarrow> ('k, 'v) book" where
  "keep P b = filter (\<lambda>e. P (fst e) (snd e)) b"

definition book_ok :: "('k, 'v) book \<Rightarrow> bool" where
  "book_ok b \<longleftrightarrow> distinct (map fst b)"

lemma map_of_del [simp]: "map_of (del k b) k' = (if k' = k then None else map_of b k')"
  by (induction b) (auto simp: del_def)

lemma map_of_put [simp]: "map_of (put k v b) k' = (if k' = k then Some v else map_of b k')"
  using map_of_del [of k b k'] by (auto simp: put_def del_def)

lemma book_ok_filter: "book_ok b \<Longrightarrow> book_ok (filter P b)"
  by (simp add: book_ok_def distinct_map_filter)

lemma book_ok_empty [simp]: "book_ok []"
  by (simp add: book_ok_def)

lemma book_ok_put [simp]: "book_ok b \<Longrightarrow> book_ok (put k v b)"
  using book_ok_filter [of b] by (auto simp: put_def book_ok_def)

lemma book_ok_del [simp]: "book_ok b \<Longrightarrow> book_ok (del k b)"
  by (simp add: del_def book_ok_filter)

lemma book_ok_keep [simp]: "book_ok b \<Longrightarrow> book_ok (keep P b)"
  by (simp add: keep_def book_ok_filter)

lemma map_of_keep:
  "book_ok b \<Longrightarrow> map_of (keep P b) k =
     (case map_of b k of Some v \<Rightarrow> if P k v then Some v else None | None \<Rightarrow> None)"
proof (induction b)
  case (Cons e b)
  then have "fst e \<notin> fst ` set b" "book_ok b" by (auto simp: book_ok_def)
  then have "map_of b (fst e) = None" by (simp add: map_of_eq_None_iff)
  with Cons.IH [OF \<open>book_ok b\<close>] show ?case
    by (cases e) (auto simp: keep_def split: option.splits)
qed (simp add: keep_def)

section \<open>The contract of a keyed store\<close>

text \<open>
  What the clients of a table or a book rely on: a change of one key is seen at that key
  and at no other. Its consequence for a run of changes is what the report handlers use:
  keys the run does not name keep their value.
\<close>

locale keyed_store =
  fixes look :: "'s \<Rightarrow> 'k \<Rightarrow> 'v option"
    and change :: "'k \<Rightarrow> ('v \<Rightarrow> 'v) \<Rightarrow> 's \<Rightarrow> 's"
    and remove :: "'k \<Rightarrow> 's \<Rightarrow> 's"
    and ok :: "('v \<Rightarrow> 'v) \<Rightarrow> bool"
  assumes look_change: "ok f \<Longrightarrow> look (change k f s) j = (if j = k then map_option f (look s j) else look s j)"
    and look_remove: "look (remove k s) j = (if j = k then None else look s j)"
begin

lemma change_absent: "ok f \<Longrightarrow> look s k = None \<Longrightarrow> look (change k f s) j = look s j"
  by (simp add: look_change)

lemma change_present: "ok f \<Longrightarrow> look s k = Some v \<Longrightarrow> look (change k f s) k = Some (f v)"
  by (simp add: look_change)

lemma change_other: "ok f \<Longrightarrow> j \<noteq> k \<Longrightarrow> look (change k f s) j = look s j"
  by (simp add: look_change)

lemma fold_untouched:
  assumes "\<And>x s. x \<in> set xs \<Longrightarrow> look (step x s) j = look s j"
  shows "look (fold step xs s) j = look s j"
  using assms
proof (induction xs arbitrary: s)
  case (Cons x xs)
  then have "look (fold step xs (step x s)) j = look (step x s) j" by simp
  with Cons.prems show ?case by simp
qed simp

end

definition book_change :: "'k \<Rightarrow> ('v \<Rightarrow> 'v) \<Rightarrow> ('k, 'v) book \<Rightarrow> ('k, 'v) book" where
  "book_change k f b = map (\<lambda>(j, v). (j, if j = k then f v else v)) b"

lemma map_of_book_change:
  "map_of (book_change k f b) j = (if j = k then map_option f (map_of b j) else map_of b j)"
  by (induction b) (auto simp: book_change_def)

interpretation bk: keyed_store map_of book_change del "\<lambda>_. True"
  by unfold_locales (auto simp: map_of_book_change)

end
