(* ===== verification/Tier.thy ===== *)
theory Tier
  imports Prelude
begin

text \<open>
  \<^verbatim>\<open>tier.rs\<close>: the four lifecycle tiers, the order between them, and the idle policy that
  says how cold a sandbox should be. A \<^verbatim>\<open>Duration\<close> is a number of milliseconds.
\<close>

datatype tier = Hot | Frozen | Snapshot | Detached

text \<open>The derived \<^verbatim>\<open>Ord\<close> is the declaration order: coldest last.\<close>

fun tier_rank :: "tier \<Rightarrow> nat" where
  "tier_rank Hot = 0"
| "tier_rank Frozen = 1"
| "tier_rank Snapshot = 2"
| "tier_rank Detached = 3"

lemma tier_rank_inj: "tier_rank a = tier_rank b \<Longrightarrow> a = b"
  by (cases a; cases b) auto

instantiation tier :: linorder
begin

definition less_eq_tier :: "tier \<Rightarrow> tier \<Rightarrow> bool" where
  "less_eq_tier a b \<longleftrightarrow> tier_rank a \<le> tier_rank b"

definition less_tier :: "tier \<Rightarrow> tier \<Rightarrow> bool" where
  "less_tier a b \<longleftrightarrow> tier_rank a < tier_rank b"

instance
  by standard (auto simp: less_eq_tier_def less_tier_def intro: tier_rank_inj)

end

lemmas tier_order = less_eq_tier_def less_tier_def

definition ORDER :: "tier list" where
  "ORDER = [Hot, Frozen, Snapshot, Detached]"

fun as_str :: "tier \<Rightarrow> string" where
  "as_str Hot = ''hot''"
| "as_str Frozen = ''frozen''"
| "as_str Snapshot = ''snapshot''"
| "as_str Detached = ''detached''"

fun colder :: "tier \<Rightarrow> tier option" where
  "colder Hot = Some Frozen"
| "colder Frozen = Some Snapshot"
| "colder Snapshot = Some Detached"
| "colder Detached = None"

fun path_to_hot :: "tier \<Rightarrow> tier list" where
  "path_to_hot Hot = []"
| "path_to_hot Frozen = [Hot]"
| "path_to_hot Snapshot = [Hot]"
| "path_to_hot Detached = [Hot]"

definition holds_memory :: "tier \<Rightarrow> bool" where
  "holds_memory t \<longleftrightarrow> t = Hot \<or> t = Frozen"

definition holds_local_disk :: "tier \<Rightarrow> bool" where
  "holds_local_disk t \<longleftrightarrow> t \<noteq> Detached"

definition is_serving :: "tier \<Rightarrow> bool" where
  "is_serving t \<longleftrightarrow> t = Hot"

text \<open>\<^verbatim>\<open>Tier::from_str\<close>; the error carries the word it did not know.\<close>

definition tier_from_str :: "string \<Rightarrow> string + tier" where
  "tier_from_str s =
     (if s = ''hot'' then Inr Hot
      else if s = ''frozen'' then Inr Frozen
      else if s = ''snapshot'' then Inr Snapshot
      else if s = ''detached'' then Inr Detached
      else Inl s)"

record idle_policy =
  to_frozen :: millis
  to_snapshot :: millis
  to_detached :: millis

definition from_secs :: "nat \<Rightarrow> millis" where
  "from_secs s = 1000 * s"

definition as_secs :: "millis \<Rightarrow> nat" where
  "as_secs d = d div 1000"

definition default_idle_policy :: idle_policy where
  "default_idle_policy =
     \<lparr>to_frozen = from_secs 30, to_snapshot = from_secs (5 * 60), to_detached = from_secs (60 * 60)\<rparr>"

definition tier_for_idle :: "idle_policy \<Rightarrow> millis \<Rightarrow> tier" where
  "tier_for_idle p idle =
     (if idle \<ge> to_detached p then Detached
      else if idle \<ge> to_snapshot p then Snapshot
      else if idle \<ge> to_frozen p then Frozen
      else Hot)"

section \<open>Properties\<close>

lemma tier_from_str_as_str [simp]: "tier_from_str (as_str t) = Inr t"
  by (cases t) (auto simp: tier_from_str_def)

lemma tier_from_str_Inr: "tier_from_str s = Inr t \<longleftrightarrow> s = as_str t"
  by (cases t) (auto simp: tier_from_str_def)

lemma colder_rank: "colder t = Some u \<Longrightarrow> tier_rank u = Suc (tier_rank t)"
  by (cases t) auto

lemma colder_None: "colder t = None \<longleftrightarrow> t = Detached"
  by (cases t) auto

lemma colder_least: "colder t = Some u \<Longrightarrow> t < v \<Longrightarrow> u \<le> v"
  using colder_rank [of t u] by (simp add: tier_order)

lemma Hot_least [simp]: "Hot \<le> t" "\<not> t < Hot"
  by (auto simp: tier_order)

lemma Detached_greatest [simp]: "t \<le> Detached" "\<not> Detached < t"
  by (cases t; simp add: tier_order)+

lemma not_hot: "t \<noteq> Hot \<longleftrightarrow> Hot < t"
  by (cases t) (auto simp: tier_order)

text \<open>The policy is monotone in the idle time whatever its three thresholds are.\<close>

lemma tier_for_idle_mono: "a \<le> b \<Longrightarrow> tier_for_idle p a \<le> tier_for_idle p b"
  by (auto simp: tier_for_idle_def tier_order)

lemma tier_for_idle_hot: "idle < to_frozen p \<Longrightarrow> to_frozen p \<le> to_snapshot p \<Longrightarrow>
   to_snapshot p \<le> to_detached p \<Longrightarrow> tier_for_idle p idle = Hot"
  by (auto simp: tier_for_idle_def)

lemma as_secs_le_idle: "s < as_secs d \<Longrightarrow> from_secs s < d"
  by (auto simp: as_secs_def from_secs_def)

end
