(* ===== verification/Egress.thy ===== *)
theory Egress
  imports Prelude
begin

text \<open>
  The egress policies of \<^verbatim>\<open>proto.rs\<close> and their canonical form. Addresses are parsed the way
  the standard library's \<^verbatim>\<open>Ipv4Addr::from_str\<close> and \<^verbatim>\<open>u32::from_str\<close> do; \<^verbatim>\<open>str::trim\<close>
  is taken on ASCII white space.
\<close>

unbundle bit_operations_syntax

section \<open>IPv4 addresses\<close>

fun split_on :: "char \<Rightarrow> string \<Rightarrow> string list" where
  "split_on c [] = [[]]"
| "split_on c (x # s) =
     (if x = c then [] # split_on c s
      else case split_on c s of [] \<Rightarrow> [[x]] | p # ps \<Rightarrow> (x # p) # ps)"

text \<open>One octet: one to three digits, no leading zero, at most 255.\<close>

definition parse_octet :: "string \<Rightarrow> nat option" where
  "parse_octet s =
     (if s \<noteq> [] \<and> length s \<le> 3 \<and> list_all is_digit s
         \<and> (length s = 1 \<or> hd s \<noteq> CHR ''0'') \<and> dec_value s \<le> 255
      then Some (dec_value s) else None)"

definition addr_of_octets :: "nat \<Rightarrow> nat \<Rightarrow> nat \<Rightarrow> nat \<Rightarrow> u32" where
  "addr_of_octets a b c d = word_of_nat (((a * 256 + b) * 256 + c) * 256 + d)"

definition parse_ipv4 :: "string \<Rightarrow> u32 option" where
  "parse_ipv4 s =
     (case split_on (CHR ''.'') s of
        [a, b, c, d] \<Rightarrow>
          (case (parse_octet a, parse_octet b, parse_octet c, parse_octet d) of
             (Some a, Some b, Some c, Some d) \<Rightarrow> Some (addr_of_octets a b c d)
           | _ \<Rightarrow> None)
      | _ \<Rightarrow> None)"

definition show_ipv4 :: "u32 \<Rightarrow> string" where
  "show_ipv4 w =
     (let n = unat w in
      dec (n div 16777216) @ ''.'' @ dec (n div 65536 mod 256) @ ''.'' @
      dec (n div 256 mod 256) @ ''.'' @ dec (n mod 256))"

text \<open>\<^verbatim>\<open>u32::from_str\<close>: an optional plus sign and at least one digit, within the width.\<close>

definition parse_u32 :: "string \<Rightarrow> nat option" where
  "parse_u32 s =
     (let t = (case s of [] \<Rightarrow> [] | c # r \<Rightarrow> if c = CHR ''+'' then r else s)
      in if t \<noteq> [] \<and> list_all is_digit t \<and> dec_value t < 2 ^ 32 then Some (dec_value t) else None)"

definition parse_u16 :: "string \<Rightarrow> u16 option" where
  "parse_u16 s = (case parse_u32 s of Some n \<Rightarrow> if n < 2 ^ 16 then Some (word_of_nat n) else None | None \<Rightarrow> None)"

section \<open>Egress policies\<close>

record egress =
  internet :: bool
  allow :: "string list"
  deny :: "string list"

definition default_egress_policy :: egress where
  "default_egress_policy = \<lparr>internet = False, allow = [], deny = []\<rparr>"

definition is_closed :: "egress \<Rightarrow> bool" where
  "is_closed e \<longleftrightarrow> \<not> internet e \<and> allow e = []"

definition MAX_EGRESS_ENTRIES :: nat where "MAX_EGRESS_ENTRIES = 64"

datatype egress_error = TooManyEntries nat | NotACidr string

text \<open>\<^verbatim>\<open>u32::MAX.checked_shl(32 - prefix).unwrap_or(0)\<close>: a shift by 32 is the missing case.\<close>

definition prefix_mask :: "nat \<Rightarrow> u32" where
  "prefix_mask p = (if 32 - p < 32 then push_bit (32 - p) (- 1) else 0)"

definition canonical_cidr :: "string \<Rightarrow> egress_error + string" where
  "canonical_cidr entry =
     (case (case split_once (CHR ''/'') (trim entry) of
              Some ap \<Rightarrow> ap | None \<Rightarrow> (trim entry, ''32'')) of
        (addr, pfx) \<Rightarrow>
          (case parse_ipv4 addr of
             None \<Rightarrow> Inl (NotACidr entry)
           | Some a \<Rightarrow>
               (case parse_u32 pfx of
                  None \<Rightarrow> Inl (NotACidr entry)
                | Some p \<Rightarrow>
                    if p \<le> 32 then Inr (show_ipv4 (a AND prefix_mask p) @ ''/'' @ dec p)
                    else Inl (NotACidr entry))))"

fun canonical_list :: "string list \<Rightarrow> string list \<Rightarrow> egress_error + string list" where
  "canonical_list out [] = Inr out"
| "canonical_list out (entry # l) =
     (case canonical_cidr entry of
        Inl e \<Rightarrow> Inl e
      | Inr c \<Rightarrow> canonical_list (if c \<in> set out then out else out @ [c]) l)"

definition canonical :: "egress \<Rightarrow> egress_error + egress" where
  "canonical e =
     (if length (allow e) + length (deny e) > MAX_EGRESS_ENTRIES
      then Inl (TooManyEntries (length (allow e) + length (deny e)))
      else case canonical_list [] (allow e) of
             Inl x \<Rightarrow> Inl x
           | Inr a \<Rightarrow>
               (case canonical_list [] (deny e) of
                  Inl x \<Rightarrow> Inl x
                | Inr d \<Rightarrow> Inr \<lparr>internet = internet e, allow = a, deny = d\<rparr>))"

section \<open>Parsing what is printed\<close>

lemma split_on_nonempty [simp]: "split_on c s \<noteq> []"
  by (induction s) (auto split: list.splits)

lemma split_on_plain: "c \<notin> set s \<Longrightarrow> split_on c s = [s]"
  by (induction s) auto

lemma split_on_append: "c \<notin> set a \<Longrightarrow> split_on c (a @ c # s) = a # split_on c s"
  by (induction a) auto

lemma dec_no [simp]: "\<not> is_digit c \<Longrightarrow> c \<notin> set (dec n)"
  using dec_mem by blast

lemma is_digit_consts [simp]: "\<not> is_digit CHR ''.''" "\<not> is_digit CHR ''/''"
  "\<not> is_digit CHR ''+''" "\<not> is_space CHR ''.''" "\<not> is_space CHR ''/''"
  by (simp_all add: is_digit_def is_space_def)

lemma dec_small: "n < 10 \<Longrightarrow> dec n = [digit_char n]"
  by (subst dec.simps) simp

lemma dec_large: "\<not> n < 10 \<Longrightarrow> dec n = dec (n div 10) @ [digit_char (n mod 10)]"
  by (subst dec.simps) simp

lemma length_dec: "n < 10 ^ k \<Longrightarrow> 0 < k \<Longrightarrow> length (dec n) \<le> k"
proof (induction k arbitrary: n)
  case (Suc k)
  show ?case
  proof (cases "n < 10")
    case False
    with Suc.prems have "n div 10 < 10 ^ k" "0 < k"
      by (auto simp: less_mult_imp_div_less mult.commute intro: gr0I)
    with Suc.IH False show ?thesis by (simp add: dec_large)
  qed (simp add: dec_small)
qed simp

lemma hd_dec: "0 < n \<Longrightarrow> hd (dec n) \<noteq> CHR ''0''"
proof (induction n rule: dec.induct)
  case (1 n)
  show ?case
  proof (cases "n < 10")
    case True
    have "digit_val (digit_char n) = n" using True by simp
    with 1 True show ?thesis by (auto simp: dec_small digit_val_def)
  next
    case False
    with 1 show ?thesis by (simp add: dec_large)
  qed
qed

lemma parse_octet_dec: "n < 256 \<Longrightarrow> parse_octet (dec n) = Some n"
  using length_dec [of n 3] hd_dec [of n] dec_digits [of n] dec_value_dec [of n]
  by (cases "n = 0") (auto simp: parse_octet_def dec_small simp del: dec_value_dec)

lemma parse_u32_dec: "n < 2 ^ 32 \<Longrightarrow> parse_u32 (dec n) = Some n"
proof -
  assume n: "n < 2 ^ 32"
  obtain c r where cr: "dec n = c # r" by (cases "dec n") auto
  have "c \<noteq> CHR ''+''" using dec_mem [of c n] cr by auto
  then have "(case dec n of [] \<Rightarrow> [] | c # r \<Rightarrow> if c = CHR ''+'' then r else dec n) = dec n"
    by (simp add: cr)
  then show ?thesis using n dec_digits [of n] by (simp add: parse_u32_def Let_def)
qed

lemma octets_of_addr:
  "n < 2 ^ 32 \<Longrightarrow>
   ((n div 16777216 * 256 + n div 65536 mod 256) * 256 + n div 256 mod 256) * 256 + n mod 256 = n"
  for n :: nat
  using div_mult_mod_eq [of n 256] div_mult_mod_eq [of "n div 256" 256]
    div_mult_mod_eq [of "n div 65536" 256]
  by (simp add: div_mult2_eq [of n 256 256, simplified, symmetric]
      div_mult2_eq [of n 65536 256, simplified, symmetric])

lemma parse_show_ipv4 [simp]: "parse_ipv4 (show_ipv4 w) = Some w"
proof -
  have n: "unat w < 2 ^ 32" using unsigned_less [of w] by simp
  then have "unat w div 16777216 < 256" by (simp add: less_mult_imp_div_less)
  then show ?thesis
    using octets_of_addr [OF n]
    by (simp add: parse_ipv4_def show_ipv4_def Let_def split_on_append split_on_plain
        parse_octet_dec addr_of_octets_def)
qed

lemma show_ipv4_chars: "c \<in> set (show_ipv4 w) \<Longrightarrow> is_digit c \<or> c = CHR ''.''"
  by (auto simp: show_ipv4_def Let_def dest: dec_mem)

section \<open>Canonical entries\<close>

lemma trim_id: "list_all (\<lambda>c. \<not> is_space c) s \<Longrightarrow> trim s = s"
proof -
  assume s: "list_all (\<lambda>c. \<not> is_space c) s"
  have *: "dropWhile is_space t = t" if "list_all (\<lambda>c. \<not> is_space c) t" for t
    using that by (cases t) auto
  have "list_all (\<lambda>c. \<not> is_space c) (rev s)" using s by (simp add: list_all_iff)
  with s * show ?thesis by (simp add: trim_def)
qed

lemma split_once_append: "c \<notin> set a \<Longrightarrow> split_once c (a @ c # b) = Some (a, b)"
proof -
  assume a: "c \<notin> set a"
  then have "dropWhile (\<lambda>x. x \<noteq> c) (a @ c # b) = c # b"
    by (subst dropWhile_append2) auto
  with a show ?thesis by (simp add: split_once_def)
qed

text \<open>Every canonical entry is a masked address and a prefix length, and is its own canonical form.\<close>

lemma canonical_cidr_shape:
  "canonical_cidr e = Inr c \<Longrightarrow> \<exists>a p. p \<le> 32 \<and> c = show_ipv4 (a AND prefix_mask p) @ ''/'' @ dec p"
  by (auto simp: canonical_cidr_def split: prod.splits option.splits if_splits)

lemma canonical_cidr_of_shape:
  assumes "p \<le> 32"
  shows "canonical_cidr (show_ipv4 (a AND prefix_mask p) @ ''/'' @ dec p)
     = Inr (show_ipv4 (a AND prefix_mask p) @ ''/'' @ dec p)"
proof -
  let ?s = "show_ipv4 (a AND prefix_mask p)"
  have chars: "c \<in> set ?s \<Longrightarrow> \<not> is_space c \<and> c \<noteq> CHR ''/''" for c
    using show_ipv4_chars [of c "a AND prefix_mask p"] by auto
  have "list_all (\<lambda>c. \<not> is_space c) (?s @ ''/'' @ dec p)"
    using chars dec_mem by (auto simp: list_all_iff)
  then have "trim (?s @ ''/'' @ dec p) = ?s @ ''/'' @ dec p" by (rule trim_id)
  moreover have "split_once (CHR ''/'') (?s @ ''/'' @ dec p) = Some (?s, dec p)"
    using split_once_append [of "CHR ''/''" ?s "dec p"] chars by auto
  moreover have "parse_u32 (dec p) = Some p"
    using assms by (intro parse_u32_dec) simp
  ultimately show ?thesis
    using assms by (simp add: canonical_cidr_def and.assoc)
qed

lemma canonical_cidr_idem: "canonical_cidr e = Inr c \<Longrightarrow> canonical_cidr c = Inr c"
  using canonical_cidr_shape [of e c] canonical_cidr_of_shape by blast

definition canonical_entry :: "string \<Rightarrow> bool" where
  "canonical_entry c \<longleftrightarrow> canonical_cidr c = Inr c"

lemma canonical_list_Inr:
  assumes "canonical_list out l = Inr r"
    and "distinct out" "list_all canonical_entry out"
  shows "distinct r \<and> list_all canonical_entry r \<and> length r \<le> length out + length l"
  using assms
proof (induction out l rule: canonical_list.induct)
  case (2 out entry l)
  then obtain c where c: "canonical_cidr entry = Inr c"
    by (auto split: sum.splits)
  then have "canonical_entry c" by (simp add: canonical_entry_def canonical_cidr_idem)
  with 2 c show ?case by (fastforce split: if_splits)
qed auto

lemma canonical_list_id:
  "distinct (out @ l) \<Longrightarrow> list_all canonical_entry l \<Longrightarrow> canonical_list out l = Inr (out @ l)"
  by (induction l arbitrary: out) (auto simp: canonical_entry_def)

text \<open>
  A policy the master accepts is canonical: every entry is an address with its host bits
  cleared and a prefix length, the lists hold no duplicate and together no more than 64
  entries, and canonicalising again changes nothing, so what the master stores compares equal to
  what a node reports.
\<close>

theorem canonical_idempotent:
  assumes "canonical e = Inr c"
  shows "canonical c = Inr c \<and> internet c = internet e
     \<and> distinct (allow c) \<and> distinct (deny c) \<and> length (allow c) + length (deny c) \<le> MAX_EGRESS_ENTRIES
     \<and> (\<forall>s \<in> set (allow c) \<union> set (deny c). \<exists>a p. p \<le> 32 \<and> s = show_ipv4 (a AND prefix_mask p) @ ''/'' @ dec p)"
proof -
  from assms obtain a d where
    a: "canonical_list [] (allow e) = Inr a" and d: "canonical_list [] (deny e) = Inr d"
    and n: "length (allow e) + length (deny e) \<le> MAX_EGRESS_ENTRIES"
    and c: "c = \<lparr>internet = internet e, allow = a, deny = d\<rparr>"
    by (auto simp: canonical_def split: if_splits sum.splits)
  have a': "distinct a" "list_all canonical_entry a" "length a \<le> length (allow e)"
    using canonical_list_Inr [OF a] by auto
  have d': "distinct d" "list_all canonical_entry d" "length d \<le> length (deny e)"
    using canonical_list_Inr [OF d] by auto
  have "canonical_list [] a = Inr a" "canonical_list [] d = Inr d"
    using canonical_list_id [of "[]" a] canonical_list_id [of "[]" d] a' d' by simp_all
  moreover have "\<exists>a p. p \<le> 32 \<and> s = show_ipv4 (a AND prefix_mask p) @ ''/'' @ dec p"
    if "s \<in> set a \<union> set d" for s
    using that a'(2) d'(2) canonical_cidr_shape [of s s]
    by (auto simp: list_all_iff canonical_entry_def)
  ultimately show ?thesis
    using a' d' n by (auto simp: c canonical_def)
qed

theorem canonical_idempotent_witness:
  "canonical \<lparr>internet = True, allow = [''0.0.0.0/0''], deny = [''10.1.2.3/32'']\<rparr>
     = Inr \<lparr>internet = True, allow = [''0.0.0.0/0''], deny = [''10.1.2.3/32'']\<rparr>"
proof -
  have a: "parse_ipv4 ''10.1.2.3'' = Some 167838211"
    by (simp add: parse_ipv4_def parse_octet_def is_digit_def dec_value_def digit_val_def addr_of_octets_def)
  have "canonical \<lparr>internet = True, allow = [''10.1.2.3/0'', ''10.1.2.3/00''], deny = ['' 10.1.2.3'']\<rparr>
     = Inr \<lparr>internet = True, allow = [''0.0.0.0/0''], deny = [''10.1.2.3/32'']\<rparr>"
    by (simp add: canonical_def canonical_cidr_def MAX_EGRESS_ENTRIES_def a split_once_def
        before_char_def trim_def is_space_def parse_u32_def is_digit_def dec_value_def digit_val_def
        prefix_mask_def show_ipv4_def dec.simps digit_char_def)
  from canonical_idempotent [OF this] show ?thesis by blast
qed

end
