(* ===== verification/Proto.thy ===== *)
theory Proto
  imports Tier Egress Complex_Main
begin

text \<open>
  \<^verbatim>\<open>proto.rs\<close>: what the master and a node say to each other.
\<close>

section \<open>Messages\<close>

record host_info =
  engine :: string
  kernel :: string
  cpu_vendor :: string
  cpu_model :: string
  cpu_flags :: string

record image_config =
  ic_args :: "string list"
  ic_env :: "string list"
  ic_cwd :: "string option"
  ic_port :: "u16 option"

record template_pull =
  tp_name :: string
  tp_image :: string
  tp_attempt :: nat
  tp_done :: bool
  tp_error :: "string option"
  tp_config :: "image_config option"

definition pull_running :: "string \<Rightarrow> string \<Rightarrow> nat \<Rightarrow> template_pull" where
  "pull_running name img attempt =
     \<lparr>tp_name = name, tp_image = img, tp_attempt = attempt,
      tp_done = False, tp_error = None, tp_config = None\<rparr>"

definition pull_done :: "string \<Rightarrow> string \<Rightarrow> nat \<Rightarrow> image_config \<Rightarrow> template_pull" where
  "pull_done name img attempt config =
     (pull_running name img attempt)\<lparr>tp_done := True, tp_config := Some config\<rparr>"

definition pull_failed :: "string \<Rightarrow> string \<Rightarrow> nat \<Rightarrow> string \<Rightarrow> template_pull" where
  "pull_failed name img attempt error =
     (pull_running name img attempt)\<lparr>tp_done := True, tp_error := Some error\<rparr>"

record deferred =
  df_id :: string
  retry_in_ms :: nat

record command_failure =
  cf_id :: string
  cf_error :: string
  cf_attempts :: nat
  cf_held_back :: bool

record observed_sandbox =
  ob_id :: string
  ob_tier :: tier
  ob_serving :: bool
  ob_ip :: "string option"
  ob_net_index :: "u32 option"
  ob_egress :: "egress option"

record fetch_from =
  ff_node_id :: string
  ff_address :: string
  ff_cert_sha256 :: string
  ff_for_node :: string
  ff_expires :: int
  ff_token :: string

record poll_request =
  pr_node_id :: string
  pr_observed :: "observed_sandbox list"
  free_memory_mib :: nat
  pressure_some_avg10 :: real
  hold_ms :: "nat option"
  failures :: "command_failure list"
  pr_deferred :: "deferred list"
  traffic :: "string list"
  evicted :: "string list"
  features :: "string list"
  pr_tags :: "string list"
  pr_host :: "host_info option"
  pr_fingerprint :: "string option"
  pr_templates :: "string list option"
  pulls :: "template_pull list"

text \<open>
  \<^verbatim>\<open>serde_json::Value\<close>, which carries template specs. Numbers are the integers the code
  reads out of them.
\<close>

datatype json =
    JNull
  | JBool bool
  | JNum int
  | JStr string
  | JArr "json list"
  | JObj "(string \<times> json) list"

record create_cmd =
  cr_id :: string
  cr_template :: string
  cr_spec :: json
  cr_port :: u16
  cr_volume :: "string option"
  cr_net_index :: "u32 option"
  cr_from_tag :: "string option"
  cr_gateway_port :: "u16 option"
  cr_token :: string
  cr_fetch :: "fetch_from option"
  cr_egress :: egress

datatype command =
    Create create_cmd
  | PullTemplate string string nat
  | SetEgress string egress
  | SetTier string tier
  | Destroy string "u32 option"
  | Branch string string string
  | DropTag string
  | Exec string string "string list" nat
  | SetBackend string string

text \<open>\<^verbatim>\<open>node::command_id\<close>.\<close>

fun command_id :: "command \<Rightarrow> string" where
  "command_id (Create c) = cr_id c"
| "command_id (SetEgress i _) = i"
| "command_id (SetTier i _) = i"
| "command_id (Destroy i _) = i"
| "command_id (Branch i _ _) = i"
| "command_id (Exec _ i _ _) = i"
| "command_id (DropTag t) = t"
| "command_id (PullTemplate n _ _) = n"
| "command_id (SetBackend _ r) = r"

record command_result =
  result_id :: string
  stdout :: string
  stderr :: string
  exit_code :: int
  size_bytes :: nat

text \<open>The ids a node keeps for the seeds of its warm images (\<^verbatim>\<open>node/runtime.rs\<close>).\<close>

definition WARM_SEED_PREFIX :: string where "WARM_SEED_PREFIX = ''sandstorm-warm-''"

end
