(* ===== verification/StoreTypes.thy ===== *)
theory StoreTypes
  imports Proto "HOL-Library.Char_ord" "HOL-Library.List_Lexorder" "HOL-Library.Product_Lexorder"
begin

text \<open>
  The rows and tables of \<^verbatim>\<open>state.rs\<close>. A table is the list of its rows in insertion order; a
  text column that holds an enum or a serialised struct (\<^verbatim>\<open>tier\<close>, \<^verbatim>\<open>egress\<close>, \<^verbatim>\<open>host\<close>) holds
  the value itself, since the code writes and reads it with the derived serialiser and the tier
  names round-trip (\<open>tier_from_str_as_str\<close>). A column that may be NULL is an option.
  The only failure of a statement that is modelled is the violated primary key of an
  \<^verbatim>\<open>INSERT\<close>; I/O errors of sqlite are not.
\<close>

section \<open>Rows\<close>

record sandbox =
  sb_id :: string
  sb_node_id :: string
  sb_pool :: string
  sb_template :: string
  sb_tier :: tier
  sb_token :: string
  sb_volume :: "string option"
  sb_port :: "u16 option"
  sb_gateway_port :: "u16 option"
  sb_created_at :: secs
  sb_last_active_at :: secs
  sb_last_error :: "string option"
  sb_error_attempts :: nat
  sb_net_index :: "u32 option"
  sb_ip :: "string option"
  sb_from_tag :: "string option"
  sb_memory_limit_mib :: "nat option"
  sb_egress :: egress

record node =
  nd_id :: string
  nd_pool :: string
  nd_fingerprint :: string
  nd_max_sandboxes :: nat
  nd_last_seen_at :: secs
  nd_connected :: bool
  nd_free_mib :: nat
  nd_psi_some_avg10 :: real

text \<open>A row of \<^verbatim>\<open>nodes\<close> has columns the struct does not carry.\<close>

record node_row = node +
  nd_cert_sha256 :: "string option"
  nd_revoked :: bool
  nd_agent_address :: "string option"
  nd_agent_cert_sha256 :: "string option"
  nd_agent_secret :: "string option"
  nd_host :: "host_info option"

record agent_node =
  an_id :: string
  an_address :: string
  an_cert_sha256 :: string
  an_secret :: string

record pool_stretch =
  ps_node :: string
  ps_pool :: string
  ps_since :: secs
  ps_until :: "secs option"

record snapshot_tag =
  st_tag :: string
  st_node_id :: string
  st_template :: string
  st_from_sandbox :: "string option"
  st_created_at :: secs
  st_size_bytes :: nat
  st_port :: "u16 option"

record snapshot_row = snapshot_tag +
  st_fingerprint :: "string option"

record template_row =
  tm_name :: string
  tm_rootfs :: string
  tm_spec :: string
  tm_created_at :: secs
  tm_image :: "string option"
  tm_attempt :: nat

record image_template =
  it_name :: string
  it_image :: string
  it_attempt :: nat
  it_spec :: string

record pull_row =
  pl_template :: string
  pl_node_id :: string
  pl_attempt :: nat
  pl_done :: bool
  pl_error :: "string option"

record token_row =
  tk_token :: string
  tk_pool :: string
  tk_expires_at :: secs
  tk_consumed_at :: "secs option"
  tk_node_id :: "string option"

record e2b_sandbox =
  e2_id :: string
  e2_client_id :: string
  e2_template_id :: string
  e2_access_token :: string
  e2_envd_version :: string
  e2_env_vars :: string
  e2_metadata :: string
  e2_auto_pause :: bool
  e2_end_at :: secs

datatype cert_owner = NodeCert string | RevokedCert string | UnknownCert

section \<open>The database\<close>

record store =
  nodes :: "node_row list"
  sandboxes :: "sandbox list"
  node_pools :: "pool_stretch list"
  snapshots :: "snapshot_row list"
  templates :: "template_row list"
  template_pulls :: "pull_row list"
  node_tokens :: "token_row list"
  e2b_sandboxes :: "e2b_sandbox list"
  default_egress_setting :: "egress option"

definition empty_store :: store where
  "empty_store = \<lparr>nodes = [], sandboxes = [], node_pools = [], snapshots = [], templates = [],
     template_pulls = [], node_tokens = [], e2b_sandboxes = [], default_egress_setting = None\<rparr>"

datatype store_error = PrimaryKey string

text \<open>The primary keys hold: what sqlite enforces on every reachable database.\<close>

definition keys_ok :: "store \<Rightarrow> bool" where
  "keys_ok st \<longleftrightarrow>
     distinct (map nd_id (nodes st)) \<and> distinct (map sb_id (sandboxes st)) \<and>
     distinct (map st_tag (snapshots st)) \<and> distinct (map tm_name (templates st)) \<and>
     distinct (map tk_token (node_tokens st)) \<and> distinct (map e2_id (e2b_sandboxes st)) \<and>
     distinct (map (\<lambda>p. (pl_template p, pl_node_id p)) (template_pulls st))"

definition eight :: "string \<Rightarrow> string" where
  "eight fp = take (min 8 (length fp)) fp"

lemma eight_eq: "eight fp = take 8 fp"
  by (simp add: eight_def min_def)

end
