(* ===== verification/StoreNodes.thy ===== *)
theory StoreNodes
  imports StoreTypes
begin

text \<open>
  The node half of \<^verbatim>\<open>state.rs\<close>: registration, the pool a node is in and the history of it,
  the change of a node's fingerprint, certificates, and what a node last reported. Every
  operation takes the time \<open>now\<close> where the code calls \<^verbatim>\<open>now_secs()\<close>.
\<close>

section \<open>Operations\<close>

definition upd_node :: "string \<Rightarrow> (node_row \<Rightarrow> node_row) \<Rightarrow> store \<Rightarrow> store" where
  "upd_node i f st = st\<lparr>nodes := upd_where (\<lambda>n. nd_id n = i) f (nodes st)\<rparr>"

definition node_of :: "store \<Rightarrow> string \<Rightarrow> node_row option" where
  "node_of st i = row_of nd_id (nodes st) i"

definition remove_node :: "string \<Rightarrow> store \<Rightarrow> store" where
  "remove_node i st = st\<lparr>nodes := del_where (\<lambda>n. nd_id n = i) (nodes st)\<rparr>"

definition is_open :: "string \<Rightarrow> pool_stretch \<Rightarrow> bool" where
  "is_open i s \<longleftrightarrow> ps_node s = i \<and> ps_until s = None"

definition note_pool :: "secs \<Rightarrow> string \<Rightarrow> string \<Rightarrow> store \<Rightarrow> store" where
  "note_pool now i pool st =
     (if map_option ps_pool (find (is_open i) (node_pools st)) = Some pool then st
      else st\<lparr>node_pools :=
             upd_where (is_open i) (\<lambda>s. s\<lparr>ps_until := Some now\<rparr>) (node_pools st)
             @ [\<lparr>ps_node = i, ps_pool = pool, ps_since = now, ps_until = None\<rparr>]\<rparr>)"

definition new_node_row :: "node \<Rightarrow> node_row" where
  "new_node_row n = \<lparr>nd_id = nd_id n, nd_pool = nd_pool n, nd_fingerprint = nd_fingerprint n,
     nd_max_sandboxes = nd_max_sandboxes n, nd_last_seen_at = nd_last_seen_at n,
     nd_connected = nd_connected n, nd_free_mib = 0, nd_psi_some_avg10 = 0,
     nd_cert_sha256 = None, nd_revoked = False, nd_agent_address = None,
     nd_agent_cert_sha256 = None, nd_agent_secret = None, nd_host = None\<rparr>"

definition upsert_node :: "secs \<Rightarrow> node \<Rightarrow> store \<Rightarrow> store" where
  "upsert_node now n st =
     note_pool now (nd_id n) (nd_pool n)
       (case node_of st (nd_id n) of
          None \<Rightarrow> st\<lparr>nodes := nodes st @ [new_node_row n]\<rparr>
        | Some _ \<Rightarrow> upd_node (nd_id n) (\<lambda>r. r\<lparr>nd_pool := nd_pool n,
              nd_fingerprint := nd_fingerprint n, nd_max_sandboxes := nd_max_sandboxes n,
              nd_last_seen_at := nd_last_seen_at n, nd_connected := nd_connected n\<rparr>) st)"

text \<open>
  What opening a database from before the history does: a node with no open stretch has been
  where it is since time 0.
\<close>

definition backfill_pools :: "store \<Rightarrow> store" where
  "backfill_pools st =
     st\<lparr>node_pools := node_pools st @
       map (\<lambda>n. \<lparr>ps_node = nd_id n, ps_pool = nd_pool n, ps_since = 0, ps_until = None\<rparr>)
         (filter (\<lambda>n. \<not> list_ex (is_open (nd_id n)) (node_pools st)) (nodes st))\<rparr>"

text \<open>\<^verbatim>\<open>ORDER BY since, node_id\<close>.\<close>

definition list_node_pools :: "store \<Rightarrow> pool_stretch list" where
  "list_node_pools st = sort_key (\<lambda>s. (ps_since s, ps_node s)) (node_pools st)"

definition base_of :: "string \<Rightarrow> string" where
  "base_of pool = before_char (CHR ''#'') pool"

definition derived_pool :: "string \<Rightarrow> string \<Rightarrow> string" where
  "derived_pool base fp = base @ ''#'' @ eight fp"

text \<open>The group that went ahead of the last node is brought back under the pool's name.\<close>

definition rejoin :: "secs \<Rightarrow> string \<Rightarrow> string \<Rightarrow> store \<Rightarrow> store" where
  "rejoin now derived base st =
     (let ahead = map nd_id (filter (\<lambda>n. nd_pool n = derived) (nodes st));
          moved = fold (\<lambda>n s. note_pool now n base (upd_node n (\<lambda>r. r\<lparr>nd_pool := base\<rparr>) s)) ahead st
      in moved\<lparr>sandboxes := upd_where (\<lambda>s. sb_pool s = derived) (\<lambda>s. s\<lparr>sb_pool := base\<rparr>) (sandboxes moved),
               node_tokens := upd_where (\<lambda>t. tk_pool t = derived) (\<lambda>t. t\<lparr>tk_pool := base\<rparr>) (node_tokens moved)\<rparr>)"

definition other_fingerprints :: "store \<Rightarrow> string \<Rightarrow> string \<Rightarrow> string list" where
  "other_fingerprints st base i =
     remdups (map nd_fingerprint
       (filter (\<lambda>n. nd_pool n = base \<and> nd_id n \<noteq> i \<and> \<not> nd_revoked n) (nodes st)))"

definition refingerprint_node ::
  "secs \<Rightarrow> string \<Rightarrow> string \<Rightarrow> store \<Rightarrow> store \<times> (string \<times> string) option" where
  "refingerprint_node now i fp st =
     (case node_of st i of
        None \<Rightarrow> (st, None)
      | Some n \<Rightarrow>
          if nd_fingerprint n = fp then (st, None)
          else
            let pool = nd_pool n;
                base = base_of pool;
                derived = derived_pool base fp;
                others = other_fingerprints st base i;
                target = (if list_all (\<lambda>f. f = fp) others then base else derived);
                st1 = upd_node i (\<lambda>r. r\<lparr>nd_fingerprint := fp, nd_pool := target\<rparr>) st;
                st2 = st1\<lparr>sandboxes := upd_where (\<lambda>s. sb_node_id s = i) (\<lambda>s. s\<lparr>sb_pool := target\<rparr>) (sandboxes st1)\<rparr>;
                st3 = note_pool now i target st2;
                st4 = (if target = base \<and> derived \<noteq> base then rejoin now derived base st3 else st3)
            in (st4, if pool \<noteq> target then Some (pool, target) else None))"

definition mark_all_nodes_disconnected :: "store \<Rightarrow> store \<times> nat" where
  "mark_all_nodes_disconnected st =
     (st\<lparr>nodes := upd_where nd_connected (\<lambda>n. n\<lparr>nd_connected := False\<rparr>) (nodes st)\<rparr>,
      changed nd_connected (nodes st))"

definition set_node_agent :: "string \<Rightarrow> string \<Rightarrow> string \<Rightarrow> string \<Rightarrow> store \<Rightarrow> store" where
  "set_node_agent i address cert secret =
     upd_node i (\<lambda>n. n\<lparr>nd_agent_address := Some address, nd_agent_cert_sha256 := Some cert,
                       nd_agent_secret := Some secret, nd_revoked := False\<rparr>)"

definition agent_columns :: "node_row \<Rightarrow> agent_node option" where
  "agent_columns n =
     (if nd_revoked n then None
      else case (nd_agent_address n, nd_agent_cert_sha256 n, nd_agent_secret n) of
        (Some a, Some c, Some s) \<Rightarrow> Some \<lparr>an_id = nd_id n, an_address = a, an_cert_sha256 = c, an_secret = s\<rparr>
      | _ \<Rightarrow> None)"

definition agent_nodes :: "store \<Rightarrow> agent_node list" where
  "agent_nodes st = sort_key an_id (List.map_filter agent_columns (nodes st))"

definition agent_node :: "store \<Rightarrow> string \<Rightarrow> agent_node option" where
  "agent_node st i = Option.bind (node_of st i) agent_columns"

definition set_node_connected :: "secs \<Rightarrow> string \<Rightarrow> bool \<Rightarrow> store \<Rightarrow> store" where
  "set_node_connected now i c = upd_node i (\<lambda>n. n\<lparr>nd_connected := c, nd_last_seen_at := now\<rparr>)"

definition pool_fingerprints :: "store \<Rightarrow> string \<Rightarrow> string list" where
  "pool_fingerprints st pool =
     remdups (map nd_fingerprint (filter (\<lambda>n. nd_pool n = pool \<and> \<not> nd_revoked n) (nodes st)))"

definition set_node_host :: "string \<Rightarrow> host_info \<Rightarrow> store \<Rightarrow> store" where
  "set_node_host i h = upd_node i (\<lambda>n. n\<lparr>nd_host := Some h\<rparr>)"

definition node_hosts :: "store \<Rightarrow> string \<Rightarrow> host_info option" where
  "node_hosts st i = Option.bind (node_of st i) nd_host"

definition node_fingerprint :: "store \<Rightarrow> string \<Rightarrow> string option" where
  "node_fingerprint st i = map_option nd_fingerprint (node_of st i)"

definition set_node_cert :: "string \<Rightarrow> string \<Rightarrow> store \<Rightarrow> store" where
  "set_node_cert i cert = upd_node i (\<lambda>n. n\<lparr>nd_cert_sha256 := Some cert, nd_revoked := False\<rparr>)"

definition node_by_cert :: "store \<Rightarrow> string \<Rightarrow> cert_owner" where
  "node_by_cert st cert =
     (case find (\<lambda>n. nd_cert_sha256 n = Some cert) (nodes st) of
        None \<Rightarrow> UnknownCert
      | Some n \<Rightarrow> if nd_revoked n then RevokedCert (nd_id n) else NodeCert (nd_id n))"

definition revoke_node :: "string \<Rightarrow> store \<Rightarrow> store \<times> bool" where
  "revoke_node i st =
     (upd_node i (\<lambda>n. n\<lparr>nd_revoked := True, nd_connected := False\<rparr>) st,
      0 < changed (\<lambda>n. nd_id n = i) (nodes st))"

definition set_node_health :: "secs \<Rightarrow> string \<Rightarrow> nat \<Rightarrow> real \<Rightarrow> store \<Rightarrow> store" where
  "set_node_health now i free psi =
     upd_node i (\<lambda>n. n\<lparr>nd_connected := True, nd_last_seen_at := now, nd_free_mib := free,
                       nd_psi_some_avg10 := psi\<rparr>)"

text \<open>\<^verbatim>\<open>ORDER BY pool, id\<close>, with the columns of the struct.\<close>

definition list_nodes :: "store \<Rightarrow> node list" where
  "list_nodes st = sort_key (\<lambda>n. (nd_pool n, nd_id n)) (map node.truncate (nodes st))"

section \<open>The nodes table as a keyed store\<close>

definition distinct_ids :: "store \<Rightarrow> bool" where
  "distinct_ids st \<longleftrightarrow> distinct (map nd_id (nodes st))"

definition keeps_node_id :: "(node_row \<Rightarrow> node_row) \<Rightarrow> bool" where
  "keeps_node_id f \<longleftrightarrow> (\<forall>n. nd_id (f n) = nd_id n)"

interpretation nt: keyed_store node_of upd_node remove_node keeps_node_id
  by unfold_locales
    (auto simp: node_of_def upd_node_def remove_node_def keeps_node_id_def row_of_upd_where
      row_of_del_where)

lemma upd_node_frame [frame_simps]:
  "sandboxes (upd_node i f st) = sandboxes st" "node_pools (upd_node i f st) = node_pools st"
  "snapshots (upd_node i f st) = snapshots st" "templates (upd_node i f st) = templates st"
  "template_pulls (upd_node i f st) = template_pulls st"
  "node_tokens (upd_node i f st) = node_tokens st"
  "e2b_sandboxes (upd_node i f st) = e2b_sandboxes st"
  "default_egress_setting (upd_node i f st) = default_egress_setting st"
  by (simp_all add: upd_node_def)

lemma note_pool_frame [frame_simps]:
  "sandboxes (note_pool now i p st) = sandboxes st" "nodes (note_pool now i p st) = nodes st"
  "snapshots (note_pool now i p st) = snapshots st" "templates (note_pool now i p st) = templates st"
  "template_pulls (note_pool now i p st) = template_pulls st"
  "node_tokens (note_pool now i p st) = node_tokens st"
  "e2b_sandboxes (note_pool now i p st) = e2b_sandboxes st"
  "default_egress_setting (note_pool now i p st) = default_egress_setting st"
  by (simp_all add: note_pool_def)

lemma node_of_note_pool [simp]: "node_of (note_pool now i p st) j = node_of st j"
  by (simp add: node_of_def frame_simps)

lemma nodes_upd_node: "set (nodes (upd_node i f st)) = (\<lambda>n. if nd_id n = i then f n else n) ` set (nodes st)"
  by (simp add: upd_node_def set_upd_where)

lemma list_nodes_set: "set (list_nodes st) = node.truncate ` set (nodes st)"
  by (simp add: list_nodes_def)

lemma list_nodes_distinct: "distinct_ids st \<Longrightarrow> distinct (map nd_id (list_nodes st))"
  by (auto simp: list_nodes_def distinct_ids_def distinct_map inj_on_def node.defs)

lemma list_nodes_same_id:
  "distinct_ids st \<Longrightarrow> a \<in> set (list_nodes st) \<Longrightarrow> b \<in> set (list_nodes st) \<Longrightarrow> nd_id a = nd_id b \<Longrightarrow> a = b"
  using list_nodes_distinct [of st] by (auto simp: distinct_map inj_on_def)

lemma backfill_opens:
  assumes "n \<in> set (nodes st)"
  shows "list_ex (is_open (nd_id n)) (node_pools (backfill_pools st))"
proof (cases "list_ex (is_open (nd_id n)) (node_pools st)")
  case False
  with assms have "\<lparr>ps_node = nd_id n, ps_pool = nd_pool n, ps_since = 0, ps_until = None\<rparr>
      \<in> set (node_pools (backfill_pools st))"
    by (auto simp: backfill_pools_def)
  then show ?thesis by (force simp: list_ex_iff is_open_def)
qed (simp add: backfill_pools_def)

lemma backfill_twice: "backfill_pools (backfill_pools st) = backfill_pools st"
proof -
  have same: "nodes (backfill_pools st) = nodes st" by (simp add: backfill_pools_def)
  have "filter (\<lambda>n. \<not> list_ex (is_open (nd_id n)) (node_pools (backfill_pools st))) (nodes st) = []"
    using backfill_opens by (auto simp: filter_empty_conv)
  then show ?thesis
    by (subst backfill_pools_def) (simp add: same)
qed

end
