(* ===== verification/StoreSandboxes.thy ===== *)
theory StoreSandboxes
  imports StoreNodes
begin

text \<open>
  The sandbox half of \<^verbatim>\<open>state.rs\<close>: the rows of \<^verbatim>\<open>sandboxes\<close>, the queries over them, and the
  allocation of the two node-local resources a sandbox takes, its network slot and the host
  port of its gateway. The locale \<open>slot_allocator\<close> is what a caller that allocates and
  inserts may rely on; it is interpreted on both resources.
\<close>

section \<open>Rows\<close>

definition upd_sandbox :: "string \<Rightarrow> (sandbox \<Rightarrow> sandbox) \<Rightarrow> store \<Rightarrow> store" where
  "upd_sandbox i f st = st\<lparr>sandboxes := upd_where (\<lambda>s. sb_id s = i) f (sandboxes st)\<rparr>"

definition get_sandbox :: "store \<Rightarrow> string \<Rightarrow> sandbox option" where
  "get_sandbox st i = row_of sb_id (sandboxes st) i"

definition delete_sandbox :: "string \<Rightarrow> store \<Rightarrow> store" where
  "delete_sandbox i st =
     st\<lparr>sandboxes := del_where (\<lambda>s. sb_id s = i) (sandboxes st),
        e2b_sandboxes := del_where (\<lambda>e. e2_id e = i) (e2b_sandboxes st)\<rparr>"

text \<open>The insert names neither the error columns nor the address: those start empty.\<close>

definition insert_sandbox :: "sandbox \<Rightarrow> store \<Rightarrow> store_error + store" where
  "insert_sandbox s st =
     (if sb_id s \<in> sb_id ` set (sandboxes st) then Inl (PrimaryKey (sb_id s))
      else Inr (st\<lparr>sandboxes := sandboxes st @
             [s\<lparr>sb_last_error := None, sb_error_attempts := 0, sb_ip := None\<rparr>]\<rparr>))"

definition set_sandbox_error :: "string \<Rightarrow> string \<Rightarrow> nat \<Rightarrow> store \<Rightarrow> store" where
  "set_sandbox_error i error attempts =
     upd_sandbox i (\<lambda>s. s\<lparr>sb_last_error := Some error, sb_error_attempts := attempts\<rparr>)"

definition errored_on_node :: "store \<Rightarrow> string \<Rightarrow> string list" where
  "errored_on_node st n =
     map sb_id (filter (\<lambda>s. sb_node_id s = n \<and> sb_last_error s \<noteq> None) (sandboxes st))"

definition clear_sandbox_error :: "string \<Rightarrow> store \<Rightarrow> store" where
  "clear_sandbox_error i = upd_sandbox i (\<lambda>s. s\<lparr>sb_last_error := None, sb_error_attempts := 0\<rparr>)"

definition set_sandbox_ip :: "string \<Rightarrow> string \<Rightarrow> store \<Rightarrow> store" where
  "set_sandbox_ip i ip st =
     st\<lparr>sandboxes := upd_where (\<lambda>s. sb_id s = i \<and> sb_ip s \<noteq> Some ip) (\<lambda>s. s\<lparr>sb_ip := Some ip\<rparr>) (sandboxes st)\<rparr>"

definition set_tier :: "string \<Rightarrow> tier \<Rightarrow> store \<Rightarrow> store" where
  "set_tier i t = upd_sandbox i (\<lambda>s. s\<lparr>sb_tier := t\<rparr>)"

definition touch :: "secs \<Rightarrow> string \<Rightarrow> store \<Rightarrow> store" where
  "touch now i = upd_sandbox i (\<lambda>s. s\<lparr>sb_last_active_at := now\<rparr>)"

definition set_sandbox_egress :: "string \<Rightarrow> egress \<Rightarrow> store \<Rightarrow> store \<times> bool" where
  "set_sandbox_egress i e st =
     (upd_sandbox i (\<lambda>s. s\<lparr>sb_egress := e\<rparr>) st, 0 < changed (\<lambda>s. sb_id s = i) (sandboxes st))"

section \<open>Queries\<close>

definition list_sandboxes :: "store \<Rightarrow> sandbox list" where
  "list_sandboxes st = sort_key sb_created_at (sandboxes st)"

definition sandboxes_on_node :: "store \<Rightarrow> string \<Rightarrow> sandbox list" where
  "sandboxes_on_node st n = sort_key sb_created_at (filter (\<lambda>s. sb_node_id s = n) (sandboxes st))"

definition count_sandboxes_on_node :: "store \<Rightarrow> string \<Rightarrow> nat" where
  "count_sandboxes_on_node st n = changed (\<lambda>s. sb_node_id s = n) (sandboxes st)"

definition count_sandboxes_by_tier :: "store \<Rightarrow> tier \<Rightarrow> nat" where
  "count_sandboxes_by_tier st t = changed (\<lambda>s. sb_tier s = t) (sandboxes st)"

definition count_sandboxes_by_node_tier :: "store \<Rightarrow> string \<Rightarrow> tier \<Rightarrow> nat" where
  "count_sandboxes_by_node_tier st n t = changed (\<lambda>s. sb_node_id s = n \<and> sb_tier s = t) (sandboxes st)"

text \<open>\<^verbatim>\<open>ORDER BY error_attempts DESC, id LIMIT ?1\<close>.\<close>

definition failing_sandboxes :: "store \<Rightarrow> nat \<Rightarrow> (string \<times> string \<times> string \<times> nat) list" where
  "failing_sandboxes st limit =
     take limit (map (\<lambda>s. (sb_id s, sb_node_id s, the (sb_last_error s), sb_error_attempts s))
       (sort_key (\<lambda>s. (- int (sb_error_attempts s), sb_id s))
         (filter (\<lambda>s. sb_last_error s \<noteq> None) (sandboxes st))))"

definition count_failed_sandboxes :: "store \<Rightarrow> nat" where
  "count_failed_sandboxes st =
     changed (\<lambda>s. sb_last_error s \<noteq> None \<and> 0 < sb_error_attempts s) (sandboxes st)"

definition idle_candidates :: "secs \<Rightarrow> secs \<Rightarrow> store \<Rightarrow> (sandbox \<times> secs) list" where
  "idle_candidates now older st =
     map (\<lambda>s. (s, now - sb_last_active_at s))
       (sort_key sb_last_active_at
         (filter (\<lambda>s. sb_last_active_at s \<le> now - older \<and> sb_tier s \<noteq> Detached) (sandboxes st)))"

section \<open>Slots\<close>

definition checked_add :: "u32 \<Rightarrow> u32 \<Rightarrow> u32 option" where
  "checked_add a b = (if unat a + unat b < 2 ^ 32 then Some (a + b) else None)"

text \<open>The loop over the sorted values in use; \<^verbatim>\<open>None\<close> is its early return.\<close>

fun first_gap :: "u32 \<Rightarrow> u32 list \<Rightarrow> u32 option" where
  "first_gap want [] = Some want"
| "first_gap want (u # us) =
     (if want < u then Some want
      else case checked_add u 1 of None \<Rightarrow> None | Some n \<Rightarrow> first_gap n us)"

definition slots_used :: "(sandbox \<Rightarrow> u32 option) \<Rightarrow> store \<Rightarrow> string \<Rightarrow> u32 \<Rightarrow> u32 \<Rightarrow> u32 list" where
  "slots_used column st n lo hi =
     sort (filter (\<lambda>u. lo \<le> u \<and> u \<le> hi)
       (List.map_filter column (filter (\<lambda>s. sb_node_id s = n) (sandboxes st))))"

definition allocate_slot :: "(sandbox \<Rightarrow> u32 option) \<Rightarrow> store \<Rightarrow> string \<Rightarrow> u32 \<Rightarrow> u32 \<Rightarrow> u32 option" where
  "allocate_slot column st n lo hi =
     (case first_gap lo (slots_used column st n lo hi) of
        None \<Rightarrow> None
      | Some want \<Rightarrow> if want \<le> hi then Some want else None)"

definition gateway_port_column :: "sandbox \<Rightarrow> u32 option" where
  "gateway_port_column s = map_option ucast (sb_gateway_port s)"

definition allocate_gateway_port :: "store \<Rightarrow> string \<Rightarrow> u16 \<Rightarrow> u16 \<Rightarrow> u16 option" where
  "allocate_gateway_port st n lo hi =
     map_option ucast (allocate_slot gateway_port_column st n (ucast lo) (ucast hi))"

definition allocate_net_index :: "store \<Rightarrow> string \<Rightarrow> u32 \<Rightarrow> u32 option" where
  "allocate_net_index st n mx = allocate_slot sb_net_index st n 0 mx"

section \<open>The sandboxes table as a keyed store\<close>

definition keeps_sandbox_id :: "(sandbox \<Rightarrow> sandbox) \<Rightarrow> bool" where
  "keeps_sandbox_id f \<longleftrightarrow> (\<forall>s. sb_id (f s) = sb_id s)"

interpretation sbt: keyed_store get_sandbox upd_sandbox delete_sandbox keeps_sandbox_id
  by unfold_locales
    (auto simp: get_sandbox_def upd_sandbox_def delete_sandbox_def keeps_sandbox_id_def
      row_of_upd_where row_of_del_where)

lemma keeps_sandbox_id [simp]:
  "keeps_sandbox_id (\<lambda>s. s\<lparr>sb_last_error := e, sb_error_attempts := a\<rparr>)"
  "keeps_sandbox_id (\<lambda>s. s\<lparr>sb_tier := t\<rparr>)" "keeps_sandbox_id (\<lambda>s. s\<lparr>sb_last_active_at := n\<rparr>)"
  "keeps_sandbox_id (\<lambda>s. s\<lparr>sb_egress := g\<rparr>)" "keeps_sandbox_id (\<lambda>s. s\<lparr>sb_ip := ip\<rparr>)"
  by (simp_all add: keeps_sandbox_id_def)

lemma set_sandbox_ip_upd: "set_sandbox_ip i ip st = upd_sandbox i (\<lambda>s. s\<lparr>sb_ip := Some ip\<rparr>) st"
proof -
  have "upd_where (\<lambda>s. sb_id s = i \<and> sb_ip s \<noteq> Some ip) (\<lambda>s. s\<lparr>sb_ip := Some ip\<rparr>) rows =
        upd_where (\<lambda>s. sb_id s = i) (\<lambda>s. s\<lparr>sb_ip := Some ip\<rparr>) rows"
    for rows :: "sandbox list"
    by (induction rows) (auto simp: upd_where_def)
  then show ?thesis by (simp add: set_sandbox_ip_def upd_sandbox_def)
qed

lemma get_sandbox_after [simp]:
  "get_sandbox (set_sandbox_error i e a st) j =
     (if j = i then map_option (\<lambda>s. s\<lparr>sb_last_error := Some e, sb_error_attempts := a\<rparr>) (get_sandbox st j)
      else get_sandbox st j)"
  "get_sandbox (clear_sandbox_error i st) j =
     (if j = i then map_option (\<lambda>s. s\<lparr>sb_last_error := None, sb_error_attempts := 0\<rparr>) (get_sandbox st j)
      else get_sandbox st j)"
  "get_sandbox (set_tier i t st) j =
     (if j = i then map_option (\<lambda>s. s\<lparr>sb_tier := t\<rparr>) (get_sandbox st j) else get_sandbox st j)"
  "get_sandbox (touch now i st) j =
     (if j = i then map_option (\<lambda>s. s\<lparr>sb_last_active_at := now\<rparr>) (get_sandbox st j) else get_sandbox st j)"
  "get_sandbox (set_sandbox_ip i ip st) j =
     (if j = i then map_option (\<lambda>s. s\<lparr>sb_ip := Some ip\<rparr>) (get_sandbox st j) else get_sandbox st j)"
  "get_sandbox (delete_sandbox i st) j = (if j = i then None else get_sandbox st j)"
  by (simp_all add: set_sandbox_error_def clear_sandbox_error_def set_tier_def touch_def
      set_sandbox_ip_upd sbt.look_change sbt.look_remove)

lemma upd_sandbox_frame [frame_simps]:
  "nodes (upd_sandbox i f st) = nodes st" "node_pools (upd_sandbox i f st) = node_pools st"
  "snapshots (upd_sandbox i f st) = snapshots st" "templates (upd_sandbox i f st) = templates st"
  "template_pulls (upd_sandbox i f st) = template_pulls st"
  "node_tokens (upd_sandbox i f st) = node_tokens st"
  "e2b_sandboxes (upd_sandbox i f st) = e2b_sandboxes st"
  "default_egress_setting (upd_sandbox i f st) = default_egress_setting st"
  by (simp_all add: upd_sandbox_def)

lemma get_sandbox_id: "get_sandbox st i = Some s \<Longrightarrow> sb_id s = i"
  by (auto simp: get_sandbox_def dest: row_of_key)

lemma get_sandbox_in: "get_sandbox st i = Some s \<Longrightarrow> s \<in> set (sandboxes st)"
  by (auto simp: get_sandbox_def dest: row_of_key)

lemma get_sandbox_None: "get_sandbox st i = None \<longleftrightarrow> i \<notin> sb_id ` set (sandboxes st)"
  by (simp add: get_sandbox_def row_of_None)

lemma in_get_sandbox: "keys_ok st \<Longrightarrow> s \<in> set (sandboxes st) \<Longrightarrow> get_sandbox st (sb_id s) = Some s"
  by (simp add: get_sandbox_def keys_ok_def row_of_in)

lemma sandboxes_on_node_set: "set (sandboxes_on_node st n) = {s \<in> set (sandboxes st). sb_node_id s = n}"
  by (auto simp: sandboxes_on_node_def)

lemma insert_sandbox_Inr: "insert_sandbox s st = Inr st' \<Longrightarrow>
  sandboxes st' = sandboxes st @ [s\<lparr>sb_last_error := None, sb_error_attempts := 0, sb_ip := None\<rparr>]"
  by (auto simp: insert_sandbox_def split: if_splits)

section \<open>The slot allocator\<close>

lemma unat_u32: "unat (u :: u32) < 4294967296"
  by (rule order_less_le_trans [OF unsigned_less]) simp

lemma checked_add_Suc: "checked_add u 1 = (if unat u = 2 ^ 32 - 1 then None else Some (u + 1))"
  using unat_u32 [of u] by (auto simp: checked_add_def)

lemma unat_checked_add: "checked_add u 1 = Some n \<Longrightarrow> unat n = unat u + 1"
  by (auto simp: checked_add_def unat_word_ariths split: if_splits)

lemma first_gap_Some:
  assumes "first_gap want us = Some v" "sorted us" "\<forall>u \<in> set us. unat want \<le> unat u + 1"
  shows "want \<le> v \<and> v \<notin> set us \<and> (\<forall>w. want \<le> w \<longrightarrow> w < v \<longrightarrow> w \<in> set us)"
  using assms
proof (induction want us rule: first_gap.induct)
  case (2 want u us)
  show ?case
  proof (cases "want < u")
    case True
    with 2 show ?thesis by auto
  next
    case False
    with 2 obtain n where n: "checked_add u 1 = Some n" "first_gap n us = Some v"
      by (auto split: option.splits)
    have un: "unat n = unat u + 1" by (rule unat_checked_add [OF n(1)])
    have "\<forall>w \<in> set us. unat n \<le> unat w + 1"
      using 2(3) un by (auto simp: word_le_nat_alt)
    with 2(1) [OF False n] 2(3) have IH: "n \<le> v" "v \<notin> set us"
      "\<forall>w. n \<le> w \<longrightarrow> w < v \<longrightarrow> w \<in> set us" by auto
    have "v \<noteq> u" using IH(1) un by (auto simp: word_le_nat_alt)
    moreover have "want \<le> v"
      using False 2(4) IH(1) un by (auto simp: word_le_nat_alt word_less_nat_alt)
    moreover have "w \<in> set (u # us)" if "want \<le> w" "w < v" for w
    proof (cases "n \<le> w")
      case True
      with that IH(3) show ?thesis by simp
    next
      case below: False
      with that False un have "unat w = unat u"
        using 2(4) by (auto simp: word_le_nat_alt word_less_nat_alt)
      then show ?thesis by (simp add: word_unat_eq_iff)
    qed
    ultimately show ?thesis using IH(2) by auto
  qed
qed auto

lemma first_gap_None:
  assumes "first_gap want us = None" "sorted us" "\<forall>u \<in> set us. unat want \<le> unat u + 1"
  shows "\<forall>w. want \<le> w \<longrightarrow> w \<in> set us"
  using assms
proof (induction want us rule: first_gap.induct)
  case (2 want u us)
  then have nl: "\<not> want < u" by (auto split: if_splits)
  show ?case
  proof (cases "checked_add u 1")
    case None
    then have "unat u = 2 ^ 32 - 1" by (auto simp: checked_add_Suc split: if_splits)
    then have "w = u" if "want \<le> w" for w
      using that nl unat_u32 [of w] by (auto simp: word_le_nat_alt word_less_nat_alt word_unat_eq_iff)
    then show ?thesis by auto
  next
    case (Some n)
    have un: "unat n = unat u + 1" by (rule unat_checked_add [OF Some])
    have "\<forall>w \<in> set us. unat n \<le> unat w + 1"
      using 2(3) un by (auto simp: word_le_nat_alt)
    with 2(1) [OF nl Some] 2(2,3) nl Some have IH: "\<forall>w. n \<le> w \<longrightarrow> w \<in> set us" by auto
    have "w \<in> set (u # us)" if "want \<le> w" for w
    proof (cases "n \<le> w")
      case True
      with IH show ?thesis by simp
    next
      case False
      with that nl un have "unat w = unat u"
        using 2(4) by (auto simp: word_le_nat_alt word_less_nat_alt)
      then show ?thesis by (simp add: word_unat_eq_iff)
    qed
    then show ?thesis by simp
  qed
qed auto

lemma slots_used_iff: "v \<in> set (slots_used column st n lo hi) \<longleftrightarrow>
  lo \<le> v \<and> v \<le> hi \<and> (\<exists>s \<in> set (sandboxes st). sb_node_id s = n \<and> column s = Some v)"
  by (auto simp: slots_used_def List.map_filter_def image_iff)

lemma slots_used_ge: "\<forall>u \<in> set (slots_used column st n lo hi). unat lo \<le> unat u + 1"
  by (auto simp: slots_used_iff word_le_nat_alt)

lemma slots_used_sorted: "sorted (slots_used column st n lo hi)"
  by (simp add: slots_used_def)

definition slot_taken :: "(sandbox \<Rightarrow> u32 option) \<Rightarrow> store \<Rightarrow> string \<Rightarrow> u32 \<Rightarrow> bool" where
  "slot_taken column st n v \<longleftrightarrow> (\<exists>s \<in> set (sandboxes st). sb_node_id s = n \<and> column s = Some v)"

lemma allocate_slot_Some:
  assumes "allocate_slot column st n lo hi = Some v"
  shows "lo \<le> v \<and> v \<le> hi \<and> \<not> slot_taken column st n v \<and>
    (\<forall>w. lo \<le> w \<longrightarrow> w < v \<longrightarrow> slot_taken column st n w)"
proof -
  from assms have g: "first_gap lo (slots_used column st n lo hi) = Some v" and le: "v \<le> hi"
    by (auto simp: allocate_slot_def split: option.splits if_splits)
  from first_gap_Some [OF g slots_used_sorted slots_used_ge] le show ?thesis
    by (auto simp: slots_used_iff slot_taken_def)
qed

lemma allocate_slot_None:
  assumes "allocate_slot column st n lo hi = None" "lo \<le> w" "w \<le> hi"
  shows "slot_taken column st n w"
proof (cases "first_gap lo (slots_used column st n lo hi)")
  case None
  from first_gap_None [OF None slots_used_sorted slots_used_ge] assms(2) show ?thesis
    by (auto simp: slots_used_iff slot_taken_def)
next
  case (Some v)
  with assms(1) have "hi < v" by (auto simp: allocate_slot_def split: if_splits)
  with first_gap_Some [OF Some slots_used_sorted slots_used_ge] assms(2,3) show ?thesis
    by (auto simp: slots_used_iff slot_taken_def)
qed

text \<open>Rows with a value of \<open>slot\<close> have it alone on their node.\<close>

definition slots_unique :: "('r \<Rightarrow> 'v option) \<Rightarrow> ('r \<Rightarrow> string) \<Rightarrow> 'r list \<Rightarrow> bool" where
  "slots_unique slot home rows \<longleftrightarrow>
     distinct (map (\<lambda>r. (home r, slot r)) (filter (\<lambda>r. slot r \<noteq> None) rows))"

locale slot_allocator =
  fixes slot :: "'r \<Rightarrow> 'v option"
    and home :: "'r \<Rightarrow> string"
    and rows :: "'s \<Rightarrow> 'r list"
    and alloc :: "'s \<Rightarrow> string \<Rightarrow> 'v option"
    and add :: "'r \<Rightarrow> 's \<Rightarrow> 'e + 's"
  assumes alloc_free: "alloc s n = Some v \<Longrightarrow> r \<in> set (rows s) \<Longrightarrow> home r = n \<Longrightarrow> slot r \<noteq> Some v"
    and add_rows: "add r s = Inr s' \<Longrightarrow> \<exists>r'. rows s' = rows s @ [r'] \<and> home r' = home r \<and> slot r' = slot r"
begin

lemma add_keeps_unique:
  assumes "slots_unique slot home (rows s)" "slot r = None \<or> slot r = alloc s (home r)" "add r s = Inr s'"
  shows "slots_unique slot home (rows s')"
proof -
  obtain r' where r': "rows s' = rows s @ [r']" "home r' = home r" "slot r' = slot r"
    using add_rows [OF assms(3)] by blast
  show ?thesis
  proof (cases "slot r")
    case None
    with r' assms(1) show ?thesis by (simp add: slots_unique_def)
  next
    case (Some v)
    with assms(2) have "alloc s (home r) = Some v" by simp
    then have "x \<in> set (rows s) \<Longrightarrow> home x = home r \<Longrightarrow> slot x \<noteq> Some v" for x
      using alloc_free by blast
    with r' Some assms(1) show ?thesis by (auto simp: slots_unique_def)
  qed
qed

text \<open>A run of inserts, each with the slot the allocator offers at that moment.\<close>

lemma run_keeps_unique:
  assumes "slots_unique slot home (rows s)"
    and "\<And>x s. slot (mk x s) = None \<or> slot (mk x s) = alloc s (home (mk x s))"
    and "foldl (\<lambda>a x. case a of Inl e \<Rightarrow> Inl e | Inr s \<Rightarrow> add (mk x s) s) (Inr s) xs = Inr s'"
  shows "slots_unique slot home (rows s')"
  using assms(1,3)
proof (induction xs arbitrary: s)
  case (Cons x xs)
  have stuck: "foldl (\<lambda>a x. case a of Inl e \<Rightarrow> Inl e | Inr s \<Rightarrow> add (mk x s) s) (Inl e) ys = Inl e" for e ys
    by (induction ys) auto
  from Cons.prems(2) stuck obtain t where t: "add (mk x s) s = Inr t"
    by (cases "add (mk x s) s") auto
  have "slots_unique slot home (rows t)"
    by (rule add_keeps_unique [OF Cons.prems(1) assms(2) t])
  with Cons.IH Cons.prems(2) t show ?case by simp
qed simp

end

lemma ucast_16_32 [simp]: "ucast (ucast q :: u32) = (q :: u16)"
  by (rule ucast_up_ucast_id) (simp add: is_up)

lemma unat_ucast_16_32 [simp]: "unat (ucast q :: u32) = unat (q :: u16)"
proof -
  have "unat q < 65536" by (rule order_less_le_trans [OF unsigned_less]) simp
  then show ?thesis by (simp add: unsigned_ucast_eq take_bit_nat_eq_self)
qed

lemma gateway_port_taken:
  "slot_taken gateway_port_column st n (ucast p) \<longleftrightarrow>
     (\<exists>s \<in> set (sandboxes st). sb_node_id s = n \<and> sb_gateway_port s = Some p)"
proof -
  have "ucast q = (ucast p :: u32) \<longleftrightarrow> q = p" for q :: u16
    by (metis ucast_16_32)
  then show ?thesis by (auto simp: slot_taken_def gateway_port_column_def)
qed

definition port_taken :: "store \<Rightarrow> string \<Rightarrow> u16 \<Rightarrow> bool" where
  "port_taken st n p \<longleftrightarrow> (\<exists>s \<in> set (sandboxes st). sb_node_id s = n \<and> sb_gateway_port s = Some p)"

lemma port_taken_slot: "port_taken st n p \<longleftrightarrow> slot_taken gateway_port_column st n (ucast p)"
  by (simp add: gateway_port_taken port_taken_def)

lemma ucast_16_32_le: "ucast p \<le> (ucast q :: u32) \<longleftrightarrow> p \<le> (q :: u16)"
  by (simp add: word_le_nat_alt)

lemma ucast_16_32_less: "ucast p < (ucast q :: u32) \<longleftrightarrow> p < (q :: u16)"
  by (simp add: word_less_nat_alt)

text \<open>A value between two ports is a port, so the truncation to 16 bits loses nothing.\<close>

lemma below_port: "v \<le> ucast (hi :: u16) \<Longrightarrow> ucast (ucast v :: u16) = (v :: u32)"
proof -
  assume "v \<le> ucast hi"
  moreover have "unat hi < 2 ^ 16" by (rule order_less_le_trans [OF unsigned_less]) simp
  ultimately have "unat v < 2 ^ 16" by (simp add: word_le_nat_alt)
  then have "unat (ucast v :: u16) = unat v"
    by (simp add: unsigned_ucast_eq take_bit_nat_eq_self)
  then show ?thesis by (simp add: word_unat_eq_iff)
qed

lemma allocate_gateway_port_Some:
  assumes "allocate_gateway_port st n lo hi = Some p"
  shows "lo \<le> p \<and> p \<le> hi \<and> \<not> port_taken st n p \<and> (\<forall>q. lo \<le> q \<longrightarrow> q < p \<longrightarrow> port_taken st n q)"
proof -
  from assms obtain v where v: "allocate_slot gateway_port_column st n (ucast lo) (ucast hi) = Some v"
    "p = ucast v" by (auto simp: allocate_gateway_port_def)
  note a = allocate_slot_Some [OF v(1)]
  then have "ucast p = v" using v(2) below_port [of v hi] by simp
  with a show ?thesis
    by (auto simp: port_taken_slot ucast_16_32_le [symmetric] ucast_16_32_less [symmetric])
qed

lemma allocate_gateway_port_None:
  "allocate_gateway_port st n lo hi = None \<Longrightarrow> lo \<le> q \<Longrightarrow> q \<le> hi \<Longrightarrow> port_taken st n q"
  by (auto simp: allocate_gateway_port_def port_taken_slot ucast_16_32_le intro!: allocate_slot_None)

interpretation gw: slot_allocator sb_gateway_port sb_node_id sandboxes
    "\<lambda>st n. allocate_gateway_port st n lo hi" insert_sandbox for lo hi
proof unfold_locales
  fix st n v and r :: sandbox
  assume "allocate_gateway_port st n lo hi = Some v" "r \<in> set (sandboxes st)" "sb_node_id r = n"
  then show "sb_gateway_port r \<noteq> Some v"
    using allocate_gateway_port_Some [of st n lo hi v] by (auto simp: port_taken_def)
qed (auto dest: insert_sandbox_Inr)

interpretation ni: slot_allocator sb_net_index sb_node_id sandboxes
    "\<lambda>st n. allocate_net_index st n mx" insert_sandbox for mx
proof unfold_locales
  fix st n v and r :: sandbox
  assume "allocate_net_index st n mx = Some v" "r \<in> set (sandboxes st)" "sb_node_id r = n"
  then show "sb_net_index r \<noteq> Some v"
    using allocate_slot_Some [of sb_net_index st n 0 mx v]
    by (auto simp: slot_taken_def allocate_net_index_def)
qed (auto dest: insert_sandbox_Inr)

section \<open>Properties\<close>

text \<open>
  C16. The network slot a new sandbox gets is the lowest index up to the maximum that no
  sandbox of that node has: slots of other nodes do not count, every lower one is in use,
  and there is no answer exactly when every index is in use. The scan stays in 32 bits:
  the increment past the largest index ends it.
\<close>

theorem net_index_lowest_free:
  "case allocate_net_index st n mx of
     Some v \<Rightarrow> v \<le> mx \<and> (\<forall>s \<in> set (sandboxes st). sb_node_id s = n \<longrightarrow> sb_net_index s \<noteq> Some v) \<and>
       (\<forall>w < v. \<exists>s \<in> set (sandboxes st). sb_node_id s = n \<and> sb_net_index s = Some w)
   | None \<Rightarrow> (\<forall>w \<le> mx. \<exists>s \<in> set (sandboxes st). sb_node_id s = n \<and> sb_net_index s = Some w)"
proof (cases "allocate_net_index st n mx")
  case None
  then show ?thesis using allocate_slot_None [of sb_net_index st n 0 mx]
    by (auto simp: allocate_net_index_def slot_taken_def)
next
  case (Some v)
  then show ?thesis using allocate_slot_Some [of sb_net_index st n 0 mx v]
    by (auto simp: allocate_net_index_def slot_taken_def)
qed

text \<open>
  The host port of a new sandbox's gateway is the lowest port of the range that no
  sandbox of that node has: the 32-bit scan and the truncation to 16 bits lose nothing,
  and there is no answer exactly when every port of the range is in use.
\<close>

theorem gateway_port_lowest_free:
  "case allocate_gateway_port st n lo hi of
     Some p \<Rightarrow> lo \<le> p \<and> p \<le> hi \<and> \<not> port_taken st n p \<and> (\<forall>q. lo \<le> q \<longrightarrow> q < p \<longrightarrow> port_taken st n q)
   | None \<Rightarrow> (\<forall>q. lo \<le> q \<longrightarrow> q \<le> hi \<longrightarrow> port_taken st n q)"
  using allocate_gateway_port_Some [of st n lo hi] allocate_gateway_port_None [of st n lo hi]
  by (auto split: option.splits)

section \<open>Witnesses\<close>

definition blank_sandbox :: sandbox where
  "blank_sandbox = \<lparr>sb_id = ''sb-0'', sb_node_id = ''n1'', sb_pool = ''p'', sb_template = ''t'',
     sb_tier = Hot, sb_token = ''k'', sb_volume = None, sb_port = None, sb_gateway_port = None,
     sb_created_at = 0, sb_last_active_at = 0, sb_last_error = None, sb_error_attempts = 0,
     sb_net_index = None, sb_ip = None, sb_from_tag = None, sb_memory_limit_mib = None,
     sb_egress = default_egress_policy\<rparr>"

definition three_sandboxes :: store where
  "three_sandboxes = empty_store\<lparr>sandboxes :=
     [blank_sandbox\<lparr>sb_id := ''a'', sb_net_index := Some 2, sb_gateway_port := Some 20001\<rparr>,
      blank_sandbox\<lparr>sb_id := ''b'', sb_net_index := Some 0, sb_gateway_port := Some 20000\<rparr>,
      blank_sandbox\<lparr>sb_id := ''c'', sb_node_id := ''n2'', sb_net_index := Some 1,
        sb_gateway_port := Some 20002\<rparr>]\<rparr>"

lemma three_net: "allocate_net_index three_sandboxes ''n1'' 9 = Some 1"
  by (simp add: allocate_net_index_def allocate_slot_def slots_used_def three_sandboxes_def
      blank_sandbox_def List.map_filter_def checked_add_def empty_store_def)

theorem net_index_lowest_free_witness:
  "allocate_net_index three_sandboxes ''n1'' 9 = Some 1 \<and>
   (\<exists>s \<in> set (sandboxes three_sandboxes). sb_node_id s = ''n1'' \<and> sb_net_index s = Some 0)"
  using net_index_lowest_free [where st = three_sandboxes and n = "''n1''" and mx = 9] by (simp add: three_net)

lemma three_port: "allocate_gateway_port three_sandboxes ''n1'' 20000 20999 = Some 20002"
  by (simp add: allocate_gateway_port_def allocate_slot_def slots_used_def three_sandboxes_def
      gateway_port_column_def blank_sandbox_def List.map_filter_def checked_add_def empty_store_def)

theorem gateway_port_lowest_free_witness:
  "allocate_gateway_port three_sandboxes ''n1'' 20000 20999 = Some 20002 \<and>
   \<not> port_taken three_sandboxes ''n1'' 20002 \<and> port_taken three_sandboxes ''n1'' 20001"
  using gateway_port_lowest_free [where st = three_sandboxes and n = "''n1''" and lo = 20000 and hi = 20999] by (simp add: three_port)

end
