(* ===== verification/StoreCatalog.thy ===== *)
theory StoreCatalog
  imports StoreSandboxes
begin

text \<open>
  The rest of \<^verbatim>\<open>state.rs\<close>: registration tokens, snapshot tags, templates and the pulls of
  image templates, the rows of the E2B surface, and the default egress policy.
\<close>

section \<open>Registration tokens\<close>

definition create_node_token :: "secs \<Rightarrow> string \<Rightarrow> string \<Rightarrow> secs \<Rightarrow> store \<Rightarrow> store_error + store" where
  "create_node_token now token pool ttl st =
     (if token \<in> tk_token ` set (node_tokens st) then Inl (PrimaryKey token)
      else Inr (st\<lparr>node_tokens := node_tokens st @ [\<lparr>tk_token = token, tk_pool = pool,
             tk_expires_at = now + ttl, tk_consumed_at = None, tk_node_id = None\<rparr>]\<rparr>))"

definition redeemable :: "secs \<Rightarrow> string \<Rightarrow> token_row \<Rightarrow> bool" where
  "redeemable now token t \<longleftrightarrow> tk_token t = token \<and> tk_consumed_at t = None \<and> now < tk_expires_at t"

definition redeem_node_token ::
  "secs \<Rightarrow> string \<Rightarrow> string \<Rightarrow> store \<Rightarrow> store \<times> string option" where
  "redeem_node_token now token node_id st =
     (case find (redeemable now token) (node_tokens st) of
        None \<Rightarrow> (st, None)
      | Some t \<Rightarrow>
          let unused = (\<lambda>r. tk_token r = token \<and> tk_consumed_at r = None)
          in (st\<lparr>node_tokens := upd_where unused
                   (\<lambda>r. r\<lparr>tk_consumed_at := Some now, tk_node_id := Some node_id\<rparr>) (node_tokens st)\<rparr>,
              if changed unused (node_tokens st) = 0 then None else Some (tk_pool t)))"

section \<open>Snapshot tags\<close>

definition upd_snapshot :: "string \<Rightarrow> (snapshot_row \<Rightarrow> snapshot_row) \<Rightarrow> store \<Rightarrow> store" where
  "upd_snapshot t f st = st\<lparr>snapshots := upd_where (\<lambda>s. st_tag s = t) f (snapshots st)\<rparr>"

definition put_snapshot :: "snapshot_tag \<Rightarrow> store \<Rightarrow> store" where
  "put_snapshot s st =
     (if st_tag s \<in> st_tag ` set (snapshots st)
      then upd_snapshot (st_tag s) (\<lambda>r. snapshot_tag.extend s (snapshot_tag.more r)) st
      else st\<lparr>snapshots := snapshots st @ [snapshot_tag.extend s \<lparr>st_fingerprint = None\<rparr>]\<rparr>)"

definition snapshot_row_of :: "store \<Rightarrow> string \<Rightarrow> snapshot_row option" where
  "snapshot_row_of st t = row_of st_tag (snapshots st) t"

definition get_snapshot :: "store \<Rightarrow> string \<Rightarrow> snapshot_tag option" where
  "get_snapshot st t = map_option snapshot_tag.truncate (snapshot_row_of st t)"

text \<open>\<^verbatim>\<open>ORDER BY created_at DESC\<close>.\<close>

definition list_snapshots :: "store \<Rightarrow> snapshot_tag list" where
  "list_snapshots st = sort_key (\<lambda>s. - st_created_at s) (map snapshot_tag.truncate (snapshots st))"

definition delete_snapshot :: "string \<Rightarrow> store \<Rightarrow> store \<times> bool" where
  "delete_snapshot t st =
     (st\<lparr>snapshots := del_where (\<lambda>s. st_tag s = t) (snapshots st)\<rparr>,
      0 < changed (\<lambda>s. st_tag s = t) (snapshots st))"

definition children_of :: "store \<Rightarrow> string \<Rightarrow> nat" where
  "children_of st t = changed (\<lambda>s. sb_from_tag s = Some t) (sandboxes st)"

definition count_snapshots_by_node :: "store \<Rightarrow> string \<Rightarrow> nat" where
  "count_snapshots_by_node st n = changed (\<lambda>s. st_node_id s = n) (snapshots st)"

definition snapshot_totals :: "store \<Rightarrow> nat \<times> nat" where
  "snapshot_totals st = (length (snapshots st), sum_list (map st_size_bytes (snapshots st)))"

definition snapshot_fingerprint :: "store \<Rightarrow> string \<Rightarrow> string option" where
  "snapshot_fingerprint st t = Option.bind (snapshot_row_of st t) st_fingerprint"

definition set_snapshot_fingerprint :: "string \<Rightarrow> string \<Rightarrow> store \<Rightarrow> store" where
  "set_snapshot_fingerprint t fp = upd_snapshot t (\<lambda>s. s\<lparr>st_fingerprint := Some fp\<rparr>)"

section \<open>Templates\<close>

definition upd_template :: "string \<Rightarrow> (template_row \<Rightarrow> template_row) \<Rightarrow> store \<Rightarrow> store" where
  "upd_template n f st = st\<lparr>templates := upd_where (\<lambda>t. tm_name t = n) f (templates st)\<rparr>"

definition template_row_of :: "store \<Rightarrow> string \<Rightarrow> template_row option" where
  "template_row_of st n = row_of tm_name (templates st) n"

definition put_template :: "secs \<Rightarrow> string \<Rightarrow> string \<Rightarrow> string \<Rightarrow> store \<Rightarrow> store" where
  "put_template now name rootfs spec st =
     (case template_row_of st name of
        Some _ \<Rightarrow> upd_template name (\<lambda>t. t\<lparr>tm_rootfs := rootfs, tm_spec := spec\<rparr>) st
      | None \<Rightarrow> st\<lparr>templates := templates st @ [\<lparr>tm_name = name, tm_rootfs = rootfs, tm_spec = spec,
           tm_created_at = now, tm_image = None, tm_attempt = 0\<rparr>]\<rparr>)"

definition get_template :: "store \<Rightarrow> string \<Rightarrow> (string \<times> string) option" where
  "get_template st name = map_option (\<lambda>t. (tm_rootfs t, tm_spec t)) (template_row_of st name)"

definition put_image_template ::
  "secs \<Rightarrow> string \<Rightarrow> string \<Rightarrow> string \<Rightarrow> store \<Rightarrow> store \<times> bool" where
  "put_image_template now name img spec st =
     (case template_row_of st name of
        Some t \<Rightarrow>
          if tm_image t \<noteq> Some img then (st, False)
          else let st1 = upd_template name (\<lambda>t. t\<lparr>tm_attempt := tm_attempt t + 1\<rparr>) st
               in (st1\<lparr>template_pulls := del_where (\<lambda>p. pl_template p = name) (template_pulls st1)\<rparr>, True)
      | None \<Rightarrow>
          (st\<lparr>templates := templates st @ [\<lparr>tm_name = name, tm_rootfs = ''rootfs'', tm_spec = spec,
             tm_created_at = now, tm_image = Some img, tm_attempt = 1\<rparr>]\<rparr>, True))"

definition image_templates :: "store \<Rightarrow> image_template list" where
  "image_templates st =
     sort_key it_name (List.map_filter (\<lambda>t. case tm_image t of None \<Rightarrow> None
        | Some i \<Rightarrow> Some \<lparr>it_name = tm_name t, it_image = i, it_attempt = tm_attempt t, it_spec = tm_spec t\<rparr>)
       (templates st))"

definition set_template_spec :: "string \<Rightarrow> string \<Rightarrow> store \<Rightarrow> store" where
  "set_template_spec name spec = upd_template name (\<lambda>t. t\<lparr>tm_spec := spec\<rparr>)"

definition record_pull :: "string \<Rightarrow> string \<Rightarrow> nat \<Rightarrow> bool \<Rightarrow> string option \<Rightarrow> store \<Rightarrow> store" where
  "record_pull name node_id attempt finished error st =
     (let mine = (\<lambda>p. pl_template p = name \<and> pl_node_id p = node_id)
      in if list_ex mine (template_pulls st)
         then st\<lparr>template_pulls := upd_where mine
                (\<lambda>p. p\<lparr>pl_attempt := attempt, pl_done := finished, pl_error := error\<rparr>) (template_pulls st)\<rparr>
         else st\<lparr>template_pulls := template_pulls st @ [\<lparr>pl_template = name, pl_node_id = node_id,
                pl_attempt = attempt, pl_done = finished, pl_error = error\<rparr>]\<rparr>)"

text \<open>\<^verbatim>\<open>template_pulls\<close> reads every column but the attempt.\<close>

definition list_template_pulls :: "store \<Rightarrow> (string \<times> string \<times> bool \<times> string option) list" where
  "list_template_pulls st =
     map (\<lambda>p. (pl_template p, pl_node_id p, pl_done p, pl_error p))
       (sort_key (\<lambda>p. (pl_template p, pl_node_id p)) (template_pulls st))"

definition list_templates_full :: "store \<Rightarrow> (string \<times> string \<times> secs) list" where
  "list_templates_full st =
     map (\<lambda>t. (tm_name t, tm_spec t, tm_created_at t)) (sort_key tm_name (templates st))"

definition list_templates :: "store \<Rightarrow> string list" where
  "list_templates st = sort (map tm_name (templates st))"

section \<open>The E2B rows\<close>

definition insert_e2b :: "e2b_sandbox \<Rightarrow> store \<Rightarrow> store_error + store" where
  "insert_e2b e st =
     (if e2_id e \<in> e2_id ` set (e2b_sandboxes st) then Inl (PrimaryKey (e2_id e))
      else Inr (st\<lparr>e2b_sandboxes := e2b_sandboxes st @ [e]\<rparr>))"

definition get_e2b :: "store \<Rightarrow> string \<Rightarrow> (e2b_sandbox \<times> sandbox) option" where
  "get_e2b st i =
     (case row_of e2_id (e2b_sandboxes st) i of
        None \<Rightarrow> None
      | Some e \<Rightarrow> map_option (\<lambda>s. (e, s)) (get_sandbox st i))"

definition list_e2b :: "store \<Rightarrow> (e2b_sandbox \<times> sandbox) list" where
  "list_e2b st =
     List.map_filter (\<lambda>e. map_option (\<lambda>s. (e, s)) (get_sandbox st (e2_id e)))
       (sort_key e2_id (e2b_sandboxes st))"

definition upd_e2b :: "string \<Rightarrow> (e2b_sandbox \<Rightarrow> e2b_sandbox) \<Rightarrow> store \<Rightarrow> store" where
  "upd_e2b i f st = st\<lparr>e2b_sandboxes := upd_where (\<lambda>e. e2_id e = i) f (e2b_sandboxes st)\<rparr>"

definition set_e2b_end_at :: "string \<Rightarrow> secs \<Rightarrow> store \<Rightarrow> store" where
  "set_e2b_end_at i t = upd_e2b i (\<lambda>e. e\<lparr>e2_end_at := t\<rparr>)"

definition set_e2b_envd_version :: "string \<Rightarrow> string \<Rightarrow> store \<Rightarrow> store" where
  "set_e2b_envd_version i v = upd_e2b i (\<lambda>e. e\<lparr>e2_envd_version := v\<rparr>)"

section \<open>The default egress policy\<close>

definition default_egress :: "store \<Rightarrow> egress" where
  "default_egress st = (case default_egress_setting st of Some e \<Rightarrow> e | None \<Rightarrow> default_egress_policy)"

definition set_default_egress :: "egress \<Rightarrow> store \<Rightarrow> store" where
  "set_default_egress e st = st\<lparr>default_egress_setting := Some e\<rparr>"

section \<open>Lemmas\<close>

lemma redeem_Some:
  assumes "redeem_node_token now token n st = (st', Some p)"
  shows "(\<exists>t \<in> set (node_tokens st). redeemable now token t \<and> tk_pool t = p)
    \<and> (\<forall>t \<in> set (node_tokens st'). tk_token t = token \<longrightarrow> tk_consumed_at t \<noteq> None)"
proof (cases "find (redeemable now token) (node_tokens st)")
  case None
  with assms show ?thesis by (simp add: redeem_node_token_def)
next
  case (Some t)
  then have t: "t \<in> set (node_tokens st)" "redeemable now token t"
    by (auto simp: find_Some_iff)
  define spent where "spent = upd_where (\<lambda>r. tk_token r = token \<and> tk_consumed_at r = None)
      (\<lambda>r. r\<lparr>tk_consumed_at := Some now, tk_node_id := Some n\<rparr>) (node_tokens st)"
  have "redeem_node_token now token n st = (st\<lparr>node_tokens := spent\<rparr>,
      if changed (\<lambda>r. tk_token r = token \<and> tk_consumed_at r = None) (node_tokens st) = 0
      then None else Some (tk_pool t))"
    unfolding redeem_node_token_def spent_def Let_def Some option.case by (rule refl)
  with assms have eq: "st' = st\<lparr>node_tokens := spent\<rparr>" "tk_pool t = p"
    by (auto split: if_splits)
  have "\<forall>t \<in> set spent. tk_token t = token \<longrightarrow> tk_consumed_at t \<noteq> None"
    unfolding spent_def by (rule all_upd_where) simp_all
  moreover have "node_tokens st' = spent" by (simp add: eq(1))
  ultimately show ?thesis using t eq(2) by blast
qed

lemma redeem_consumed:
  "\<forall>t \<in> set (node_tokens st). tk_token t = token \<longrightarrow> tk_consumed_at t \<noteq> None \<Longrightarrow>
   redeem_node_token now token n st = (st, None)"
proof -
  assume a: "\<forall>t \<in> set (node_tokens st). tk_token t = token \<longrightarrow> tk_consumed_at t \<noteq> None"
  then have "find (redeemable now token) (node_tokens st) = None"
    by (auto simp: find_None_iff redeemable_def)
  then show ?thesis by (simp add: redeem_node_token_def)
qed

text \<open>What the other tokens' redemptions leave of a consumed token.\<close>

lemma redeem_keeps_consumed:
  "\<forall>t \<in> set (node_tokens st). tk_token t = token \<longrightarrow> tk_consumed_at t \<noteq> None \<Longrightarrow>
   \<forall>t \<in> set (node_tokens (fst (redeem_node_token now token' n st))).
     tk_token t = token \<longrightarrow> tk_consumed_at t \<noteq> None"
  by (auto simp: redeem_node_token_def set_upd_where Let_def split: option.splits)

definition redeem_all :: "(secs \<times> string \<times> string) list \<Rightarrow> store \<Rightarrow> store" where
  "redeem_all rs st = fold (\<lambda>(now, t, n) s. fst (redeem_node_token now t n s)) rs st"

lemma redeem_all_keeps_consumed:
  "\<forall>t \<in> set (node_tokens st). tk_token t = token \<longrightarrow> tk_consumed_at t \<noteq> None \<Longrightarrow>
   \<forall>t \<in> set (node_tokens (redeem_all rs st)). tk_token t = token \<longrightarrow> tk_consumed_at t \<noteq> None"
  unfolding redeem_all_def
proof (induction rs arbitrary: st)
  case (Cons r rs)
  obtain now t n where "r = (now, t, n)" by (cases r) auto
  then show ?case
    using Cons.IH [OF redeem_keeps_consumed [OF Cons.prems, of now t n]] by simp
qed simp

lemma snapshot_row_of_upd [simp]:
  "(\<And>r. st_tag (f r) = st_tag r) \<Longrightarrow> snapshot_row_of (upd_snapshot t f st) u =
     (if u = t then map_option f (snapshot_row_of st u) else snapshot_row_of st u)"
  by (simp add: snapshot_row_of_def upd_snapshot_def row_of_upd_where)

lemma template_row_of_upd [simp]:
  "(\<And>r. tm_name (f r) = tm_name r) \<Longrightarrow> template_row_of (upd_template t f st) u =
     (if u = t then map_option f (template_row_of st u) else template_row_of st u)"
  by (simp add: template_row_of_def upd_template_def row_of_upd_where)

lemma template_row_of_append:
  "template_row_of (st\<lparr>templates := templates st @ [t]\<rparr>) u =
     (case template_row_of st u of Some x \<Rightarrow> Some x | None \<Rightarrow> if tm_name t = u then Some t else None)"
  by (simp add: template_row_of_def row_of_append)

lemma template_row_of_pulls [simp]:
  "template_row_of (st\<lparr>template_pulls := p\<rparr>) u = template_row_of st u"
  by (simp add: template_row_of_def)

section \<open>Properties\<close>

text \<open>
  C17. A registration token is good for one node: a redemption that answers found an
  unconsumed, unexpired row granting that pool, and after it, whatever tokens are redeemed
  in between, every further redemption of the token by anyone at any time is refused and
  changes nothing.
\<close>

theorem node_token_single_use:
  assumes "redeem_node_token now token n st = (st', Some p)"
  shows "(\<exists>t \<in> set (node_tokens st). tk_token t = token \<and> tk_consumed_at t = None \<and>
            now < tk_expires_at t \<and> tk_pool t = p) \<and>
         redeem_node_token now' token n' (redeem_all rs st') = (redeem_all rs st', None)"
proof
  note r = redeem_Some [OF assms]
  then show "\<exists>t \<in> set (node_tokens st). tk_token t = token \<and> tk_consumed_at t = None \<and>
      now < tk_expires_at t \<and> tk_pool t = p"
    by (auto simp: redeemable_def)
  from r have "\<forall>t \<in> set (node_tokens st'). tk_token t = token \<longrightarrow> tk_consumed_at t \<noteq> None" by simp
  then show "redeem_node_token now' token n' (redeem_all rs st') = (redeem_all rs st', None)"
    by (intro redeem_consumed redeem_all_keeps_consumed)
qed

text \<open>
  An image template's name keeps its meaning: asking for it again with the same image
  counts one more attempt, forgets what the nodes reported of the last one and leaves its
  spec; asking with another image, or for the name of a template that was not pulled, is
  refused and changes nothing; a new name starts at attempt 1.
\<close>

theorem image_template_retry:
  "put_image_template now name img spec st = (st', ok) \<Longrightarrow>
   (case template_row_of st name of
      None \<Rightarrow> ok \<and> template_pulls st' = template_pulls st \<and>
        template_row_of st' name = Some \<lparr>tm_name = name, tm_rootfs = ''rootfs'', tm_spec = spec,
          tm_created_at = now, tm_image = Some img, tm_attempt = 1\<rparr>
    | Some t \<Rightarrow>
        if tm_image t = Some img
        then ok \<and> template_row_of st' name = Some (t\<lparr>tm_attempt := tm_attempt t + 1\<rparr>) \<and>
             template_pulls st' = filter (\<lambda>p. pl_template p \<noteq> name) (template_pulls st)
        else \<not> ok \<and> st' = st)"
  by (auto simp: put_image_template_def Let_def template_row_of_append del_where_def upd_template_def
      template_row_of_def row_of_upd_where row_of_append split: option.splits if_splits)

section \<open>Witnesses\<close>

definition one_token :: store where
  "one_token = empty_store\<lparr>node_tokens := [\<lparr>tk_token = ''tk'', tk_pool = ''default'',
     tk_expires_at = 100, tk_consumed_at = None, tk_node_id = None\<rparr>]\<rparr>"

definition spent_token :: store where
  "spent_token = one_token\<lparr>node_tokens := [\<lparr>tk_token = ''tk'', tk_pool = ''default'',
     tk_expires_at = 100, tk_consumed_at = Some 99, tk_node_id = Some ''n1''\<rparr>]\<rparr>"

lemma one_token_redeemed:
  "redeem_node_token 99 ''tk'' ''n1'' one_token = (spent_token, Some ''default'')"
  by (simp add: redeem_node_token_def one_token_def spent_token_def redeemable_def Let_def
      upd_where_def changed_def)

theorem node_token_single_use_witness:
  "redeem_node_token 99 ''tk'' ''n1'' one_token = (spent_token, Some ''default'') \<and>
   redeem_node_token 99 ''tk'' ''n2'' spent_token = (spent_token, None)"
  using node_token_single_use [OF one_token_redeemed, of 99 "''n2''" "[]"] one_token_redeemed
  by (simp add: redeem_all_def)

definition pulled_once :: store where
  "pulled_once = empty_store\<lparr>templates := [\<lparr>tm_name = ''t'', tm_rootfs = ''rootfs'', tm_spec = ''s'',
     tm_created_at = 5, tm_image = Some ''img'', tm_attempt = 1\<rparr>],
     template_pulls := [\<lparr>pl_template = ''t'', pl_node_id = ''n1'', pl_attempt = 1, pl_done = True,
       pl_error = Some ''no such image''\<rparr>]\<rparr>"

theorem image_template_retry_witness:
  "\<exists>st'. put_image_template 9 ''t'' ''img'' ''x'' pulled_once = (st', True) \<and> template_pulls st' = [] \<and>
     map_option tm_attempt (template_row_of st' ''t'') = Some 2"
proof -
  obtain st' ok where r: "put_image_template 9 ''t'' ''img'' ''x'' pulled_once = (st', ok)"
    by (cases "put_image_template 9 ''t'' ''img'' ''x'' pulled_once")
  from image_template_retry [OF r] r show ?thesis
    by (simp add: pulled_once_def template_row_of_def row_of_def)
qed

end
