(* ===== verification/Auth.thy ===== *)
theory Auth
  imports Prelude
begin

text \<open>
  \<^verbatim>\<open>auth.rs\<close>: the bearer-token gate in front of every route, and the constant-time
  comparison of secrets. \<open>ct_eq\<close> of equal-length buffers is what the \<^verbatim>\<open>subtle\<close> crate
  documents: whether they hold the same bytes.
\<close>

definition ct_eq :: "string \<Rightarrow> string \<Rightarrow> bool" where
  "ct_eq a b \<longleftrightarrow> list_all2 (=) a b"

definition constant_time_eq :: "string \<Rightarrow> string \<Rightarrow> bool" where
  "constant_time_eq presented expected =
     (let n = length expected;
          tk = min (length presented) n;
          padded = take tk presented @ replicate (n - tk) (CHR 0x00);
          bytes_match = ct_eq padded expected
      in bytes_match \<and> length presented = n)"

definition secrets_match :: "string \<Rightarrow> string \<Rightarrow> bool" where
  "secrets_match presented expected = constant_time_eq presented expected"

definition is_healthz_path :: "string \<Rightarrow> bool" where
  "is_healthz_path path \<longleftrightarrow> path = ''/healthz'' \<or> path = ''/healthz/''"

text \<open>What the middleware does with a request: hand it on, or answer 401 with a reason.\<close>

datatype gate = Next | Reject nat string

definition strip_prefix_or_empty :: "string \<Rightarrow> string \<Rightarrow> string" where
  "strip_prefix_or_empty p s = (if starts_with s p then drop (length p) s else [])"

text \<open>
  \<^verbatim>\<open>require_token\<close>: \<open>token\<close> is the configured secret, \<open>header\<close> the value of
  \<^verbatim>\<open>Authorization\<close> when the request has one that is text.
\<close>

definition require_token :: "string option \<Rightarrow> string \<Rightarrow> string option \<Rightarrow> gate" where
  "require_token token path header =
     (if is_healthz_path path then Next
      else case token of
        None \<Rightarrow> Next
      | Some expected \<Rightarrow>
          let h = (case header of Some v \<Rightarrow> v | None \<Rightarrow> []);
              presented = trim (strip_prefix_or_empty ''Bearer '' h)
          in if presented = [] then Reject 401 ''missing bearer token''
             else if \<not> constant_time_eq presented expected then Reject 401 ''invalid bearer token''
             else Next)"

section \<open>Properties\<close>

lemma ct_eq_iff [simp]: "ct_eq a b \<longleftrightarrow> a = b"
  by (simp add: ct_eq_def list.rel_eq)

text \<open>
  The constant-time comparison accepts exactly equal secrets: no prefix, extension or
  zero-padded variant of the expected token passes.
\<close>

theorem secrets_match_exact: "secrets_match presented expected \<longleftrightarrow> presented = expected"
  by (auto simp: secrets_match_def constant_time_eq_def Let_def)

lemma constant_time_eq_iff [simp]: "constant_time_eq a b \<longleftrightarrow> a = b"
  by (auto simp: constant_time_eq_def Let_def)

lemma presented_token:
  assumes "e \<noteq> []"
  shows "trim (strip_prefix_or_empty p h) = e \<longleftrightarrow> (\<exists>s. h = p @ s \<and> trim s = e)"
proof (cases "starts_with h p")
  case True
  then obtain s where "h = p @ s" by (auto simp: starts_with_def prefix_def)
  then show ?thesis by (simp add: strip_prefix_or_empty_def)
next
  case False
  then have "\<not> (\<exists>s. h = p @ s)" by auto
  with False assms show ?thesis by (auto simp: strip_prefix_or_empty_def trim_def)
qed

text \<open>
  With a token configured, a request is let through only to the two health paths or with
  a bearer header whose trimmed value is that token, and an empty token opens nothing.
\<close>

theorem gate_opens_only_for_token:
  "require_token (Some expected) path header = Next \<longleftrightarrow>
     path \<in> {''/healthz'', ''/healthz/''} \<or>
     (expected \<noteq> [] \<and> (\<exists>s. header = Some (''Bearer '' @ s) \<and> trim s = expected))"
proof (cases "is_healthz_path path")
  case True
  then show ?thesis by (auto simp: require_token_def is_healthz_path_def)
next
  case False
  define h where "h = (case header of Some v \<Rightarrow> v | None \<Rightarrow> [])"
  have "require_token (Some expected) path header = Next \<longleftrightarrow>
      expected \<noteq> [] \<and> trim (strip_prefix_or_empty ''Bearer '' h) = expected"
    using False by (simp add: require_token_def Let_def h_def [symmetric]) auto
  also have "\<dots> \<longleftrightarrow> expected \<noteq> [] \<and> (\<exists>s. h = ''Bearer '' @ s \<and> trim s = expected)"
    using presented_token [of expected "''Bearer ''" h] by blast
  also have "\<dots> \<longleftrightarrow> expected \<noteq> [] \<and> (\<exists>s. header = Some (''Bearer '' @ s) \<and> trim s = expected)"
    by (cases header) (simp_all add: h_def)
  finally show ?thesis using False by (simp add: is_healthz_path_def)
qed

end
