(* ===== verification/Tag.thy ===== *)
theory Tag
  imports Prelude "HOL-Library.Signed_Division"
begin

text \<open>
  \<^verbatim>\<open>tag.rs\<close>: which names may be snapshot tags, and the tokens that let one node fetch a tag's
  image from another. HMAC-SHA256 and the hex codec come from crates, so they are
  arguments: \<open>hmac key msg\<close> gives the bytes of the code, \<open>henc\<close> and \<open>hdec\<close> are
  \<^verbatim>\<open>hex::encode\<close> and \<^verbatim>\<open>hex::decode\<close>. Strings are their UTF-8 bytes, so \<open>length\<close> is
  \<^verbatim>\<open>str::len\<close>.
\<close>

definition is_safe :: "string \<Rightarrow> bool" where
  "is_safe tag \<longleftrightarrow>
     tag \<noteq> [] \<and>
     \<not> contains_char tag (CHR ''/'') \<and>
     \<not> contains_char tag (CHR 0x5C) \<and>
     \<not> contains_str tag ''..'' \<and>
     \<not> starts_with tag ''.'' \<and>
     \<not> contains_char tag (CHR 0x00) \<and>
     length tag \<le> 128"

definition FETCH_TTL :: int where "FETCH_TTL = 600"

definition FETCH_BUCKET :: int where "FETCH_BUCKET = 300"

text \<open>Rust's \<^verbatim>\<open>/\<close> on \<^verbatim>\<open>i64\<close> truncates towards zero, which is \<open>sdiv\<close>.\<close>

definition fetch_expiry :: "int \<Rightarrow> int" where
  "fetch_expiry now = (now + FETCH_TTL) sdiv FETCH_BUCKET * FETCH_BUCKET + FETCH_BUCKET"

text \<open>The bytes that are signed: \<^verbatim>\<open>tag-fetch\<close>, the tag, the node and the expiry, a line each.\<close>

definition fetch_msg :: "string \<Rightarrow> string \<Rightarrow> int \<Rightarrow> string" where
  "fetch_msg tag for_node expires =
     ''tag-fetch'' @ [CHR 0x0A] @ tag @ [CHR 0x0A] @ for_node @ [CHR 0x0A] @ dec_int expires"

definition fetch_mac :: "(string \<Rightarrow> string \<Rightarrow> string) \<Rightarrow> string \<Rightarrow> string \<Rightarrow> string \<Rightarrow> int \<Rightarrow> string" where
  "fetch_mac hmac secret tag for_node expires = hmac secret (fetch_msg tag for_node expires)"

definition fetch_token ::
  "(string \<Rightarrow> string \<Rightarrow> string) \<Rightarrow> (string \<Rightarrow> string) \<Rightarrow> string \<Rightarrow> string \<Rightarrow> string \<Rightarrow> int \<Rightarrow> string" where
  "fetch_token hmac henc secret tag for_node expires =
     henc (fetch_mac hmac secret tag for_node expires)"

definition fetch_token_valid ::
  "(string \<Rightarrow> string \<Rightarrow> string) \<Rightarrow> (string \<Rightarrow> string option) \<Rightarrow>
   string \<Rightarrow> string \<Rightarrow> string \<Rightarrow> int \<Rightarrow> string \<Rightarrow> int \<Rightarrow> bool" where
  "fetch_token_valid hmac hdec secret tag for_node expires token now =
     (if expires < now then False
      else case hdec token of
             None \<Rightarrow> False
           | Some given \<Rightarrow> fetch_mac hmac secret tag for_node expires = given)"

section \<open>A safe tag names one directory\<close>

text \<open>
  The components a path splits into. A tag that is safe is one component, and it is neither
  the directory itself nor its parent, so \<^verbatim>\<open>dir/tag\<close> is an entry of \<^verbatim>\<open>dir\<close>.
\<close>

fun path_components :: "string \<Rightarrow> string list" where
  "path_components [] = [[]]"
| "path_components (c # s) =
     (if c = CHR ''/'' then [] # path_components s
      else case path_components s of [] \<Rightarrow> [[c]] | p # ps \<Rightarrow> (c # p) # ps)"

lemma path_components_plain: "CHR ''/'' \<notin> set s \<Longrightarrow> path_components s = [s]"
  by (induction s) auto

lemma path_components_nonempty [simp]: "path_components s \<noteq> []"
  by (induction s) (auto split: list.splits)

lemma path_components_join:
  "path_components (d @ CHR ''/'' # s) = path_components d @ path_components s"
proof (induction d)
  case (Cons c d)
  then show ?case
    by (cases "path_components d") (auto split: list.splits)
qed simp

text \<open>
  A tag \<^verbatim>\<open>is_safe\<close> accepts, joined to any directory, adds exactly one path component
  to it, and that component is not empty, not \<^verbatim>\<open>.\<close> and not \<^verbatim>\<open>..\<close>, whatever bytes
  the tag holds.
\<close>

theorem safe_tag_is_one_component:
  assumes "is_safe tag"
  shows "path_components (dir @ ''/'' @ tag) = path_components dir @ [tag]
     \<and> tag \<noteq> [] \<and> tag \<noteq> ''.'' \<and> tag \<noteq> ''..''"
  using assms
  by (auto simp: is_safe_def contains_char_def contains_str_def starts_with_def
      path_components_plain path_components_join)

theorem safe_tag_is_one_component_witness:
  "path_components (''tags'' @ ''/'' @ ''v1.2'') = path_components ''tags'' @ [''v1.2'']
     \<and> ''v1.2'' \<noteq> [] \<and> ''v1.2'' \<noteq> ''.'' \<and> ''v1.2'' \<noteq> ''..''"
  by (rule safe_tag_is_one_component) code_simp

section \<open>Fetch tokens\<close>

text \<open>
  The signed bytes determine the request when no field holds a newline, which is what the
  comment above \<^verbatim>\<open>fetch_mac\<close> relies on.
\<close>

lemma line_split:
  fixes c :: char
  assumes "c \<notin> set a" "c \<notin> set b" "a @ c # x = b @ c # y"
  shows "a = b \<and> x = y"
proof -
  from assms(3) have "before_char c (a @ c # x) = before_char c (b @ c # y)" by simp
  with assms(1,2) have "a = b" by simp
  with assms(3) show ?thesis by simp
qed

lemma fetch_msg_inj:
  assumes "CHR 0x0A \<notin> set tag" "CHR 0x0A \<notin> set tag'"
    and "CHR 0x0A \<notin> set node" "CHR 0x0A \<notin> set node'"
  shows "fetch_msg tag node exp = fetch_msg tag' node' exp' \<longleftrightarrow>
     tag = tag' \<and> node = node' \<and> exp = exp'"
proof
  assume "fetch_msg tag node exp = fetch_msg tag' node' exp'"
  then have "tag @ CHR 0x0A # (node @ CHR 0x0A # dec_int exp)
      = tag' @ CHR 0x0A # (node' @ CHR 0x0A # dec_int exp')"
    by (simp add: fetch_msg_def)
  from line_split [OF assms(1,2) this]
  have "tag = tag'" and "node @ CHR 0x0A # dec_int exp = node' @ CHR 0x0A # dec_int exp'"
    by blast+
  with line_split [OF assms(3,4) this(2)] show "tag = tag' \<and> node = node' \<and> exp = exp'"
    by (simp add: dec_int_inj)
qed simp

text \<open>
  C18. A fetch token minted for one tag, one fetching node and one expiry is accepted by the
  node that holds the same secret for exactly that tag, node and expiry, and until it expires:
  provided the two messages do not collide under the MAC, the hex codec decodes what it encodes,
  and the tags and node names hold no newline.
\<close>

theorem fetch_token_exact:
  assumes "hmac secret (fetch_msg tag node exp) = hmac secret (fetch_msg tag' node' exp')
      \<Longrightarrow> fetch_msg tag node exp = fetch_msg tag' node' exp'"
    and "\<And>b. hdec (henc b) = Some b"
    and "CHR 0x0A \<notin> set tag" "CHR 0x0A \<notin> set tag'"
    and "CHR 0x0A \<notin> set node" "CHR 0x0A \<notin> set node'"
  shows "fetch_token_valid hmac hdec secret tag node exp
           (fetch_token hmac henc secret tag' node' exp') now
     \<longleftrightarrow> tag = tag' \<and> node = node' \<and> exp = exp' \<and> now \<le> exp"
  using assms(1,2)
  by (auto simp: fetch_token_valid_def fetch_token_def fetch_mac_def
      fetch_msg_inj [OF assms(3-6)])

theorem fetch_token_exact_witness:
  "fetch_token_valid (\<lambda>k m. m) Some ''s'' ''py'' ''f5'' 900 (fetch_token (\<lambda>k m. m) (\<lambda>b. b) ''s'' ''py'' ''f5'' 900) 900
   \<and> \<not> fetch_token_valid (\<lambda>k m. m) Some ''s'' ''py'' ''f7'' 900 (fetch_token (\<lambda>k m. m) (\<lambda>b. b) ''s'' ''py'' ''f5'' 900) 900"
  using fetch_token_exact [of "\<lambda>k m. m" "''s''" "''py''" "''f5''" 900 "''py''" "''f5''" 900 Some "\<lambda>b. b" 900]
    fetch_token_exact [of "\<lambda>k m. m" "''s''" "''py''" "''f7''" 900 "''py''" "''f5''" 900 Some "\<lambda>b. b" 900]
  by simp

text \<open>
  A tag may hold a newline, so the fields of the signed bytes are not always separated:
  a token the source signed for one safe tag is accepted for another safe tag and another node
  name, whatever the MAC, the codec and the secret.
\<close>

theorem fetch_token_newline_ambiguous:
  assumes "\<And>b. hdec (henc b) = Some b" and "now \<le> exp"
  shows "is_safe ''a'' \<and> is_safe (''a'' @ [CHR 0x0A] @ ''b'') \<and>
     fetch_token_valid hmac hdec secret ''a'' (''b'' @ [CHR 0x0A] @ ''n'') exp
       (fetch_token hmac henc secret (''a'' @ [CHR 0x0A] @ ''b'') ''n'' exp) now"
proof (intro conjI)
  show "is_safe ''a''" by code_simp
  show "is_safe (''a'' @ [CHR 0x0A] @ ''b'')" by code_simp
  show "fetch_token_valid hmac hdec secret ''a'' (''b'' @ [CHR 0x0A] @ ''n'') exp
       (fetch_token hmac henc secret (''a'' @ [CHR 0x0A] @ ''b'') ''n'' exp) now"
    using assms by (simp add: fetch_token_valid_def fetch_token_def fetch_mac_def fetch_msg_def)
qed

theorem fetch_token_newline_ambiguous_witness:
  "fetch_token_valid (\<lambda>k m. k @ m) Some ''s'' ''a'' (''b'' @ [CHR 0x0A] @ ''n'') 5
     (fetch_token (\<lambda>k m. k @ m) (\<lambda>b. b) ''s'' (''a'' @ [CHR 0x0A] @ ''b'') ''n'' 5) 5"
  using fetch_token_newline_ambiguous [of Some "\<lambda>b. b" 5 5 "\<lambda>k m. k @ m" "''s''"] by simp

section \<open>The expiry\<close>

lemma fetch_expiry_nonneg: "- FETCH_TTL \<le> now \<Longrightarrow>
   fetch_expiry now = (now + 600) div 300 * 300 + 300"
  by (simp add: fetch_expiry_def FETCH_TTL_def FETCH_BUCKET_def signed_divide_int_def sgn_if)

lemma add_divide_shift: "(t + 600) div 300 = t div 300 + (2 :: int)"
  using div_plus_div_distrib_dvd_right [of 300 600 t] by simp

text \<open>
  A token minted now leaves more than \<^verbatim>\<open>FETCH_TTL\<close> and at most \<^verbatim>\<open>FETCH_TTL + FETCH_BUCKET\<close>
  seconds, expires on a bucket boundary, and every instant of one bucket mints the same expiry,
  so the command that carries it does not change between syncs.
\<close>

theorem fetch_expiry_bucketed:
  assumes "0 \<le> now"
  shows "FETCH_TTL < fetch_expiry now - now \<and> fetch_expiry now - now \<le> FETCH_TTL + FETCH_BUCKET
     \<and> FETCH_BUCKET dvd fetch_expiry now
     \<and> (now div FETCH_BUCKET = later div FETCH_BUCKET \<longrightarrow> fetch_expiry later = fetch_expiry now)"
proof -
  have eq: "fetch_expiry t = (t div 300 + 3) * 300" if "0 \<le> t" for t
    using that by (simp add: fetch_expiry_nonneg FETCH_TTL_def add_divide_shift)
  have "(now div 300 + 3) * 300 - now = 900 - now mod 300"
    using div_mult_mod_eq [of now 300] by (simp add: algebra_simps)
  then have "600 < (now div 300 + 3) * 300 - now" "(now div 300 + 3) * 300 - now \<le> 900"
    by simp_all
  then have ttl: "600 < fetch_expiry now - now" "fetch_expiry now - now \<le> 900"
    by (simp_all only: eq [OF assms])
  have "0 \<le> later" if "now div 300 = later div 300"
    using that assms pos_imp_zdiv_nonneg_iff [of 300 now] pos_imp_zdiv_nonneg_iff [of 300 later]
    by simp
  then have "fetch_expiry later = fetch_expiry now" if "now div 300 = later div 300"
    using that by (simp only: eq [OF assms] eq)
  moreover have "300 dvd fetch_expiry now"
    by (simp only: eq [OF assms] dvd_triv_right)
  ultimately show ?thesis
    using ttl unfolding FETCH_TTL_def FETCH_BUCKET_def by simp
qed

theorem fetch_expiry_bucketed_witness:
  "FETCH_TTL < fetch_expiry 299 - 299 \<and> fetch_expiry 299 - 299 \<le> FETCH_TTL + FETCH_BUCKET
     \<and> FETCH_BUCKET dvd fetch_expiry 299
     \<and> fetch_expiry 0 = fetch_expiry 299"
  using fetch_expiry_bucketed [of 299 0] by (simp add: FETCH_BUCKET_def)

end
