(* ===== verification/MasterState.thy ===== *)
theory MasterState
  imports StoreCatalog Auth Tag
begin

text \<open>
  The state of the master (\<^verbatim>\<open>MasterState\<close> of \<^verbatim>\<open>master/api.rs\<close>): the store, what it is configured
  with, and the tables it keeps in memory. Every handler is a function of this record, of the
  wall clock \<open>now\<close> (seconds) and, where the code reads \<^verbatim>\<open>Instant\<close>s, of the monotonic clock \<open>t\<close>
  (milliseconds). A \<^verbatim>\<open>Notify\<close> is the set of nodes with a permit to be woken; a task driving a
  node is its id in \<open>drivers\<close>; a parked caller is its result id in \<open>pending_exec\<close>. Counters
  for \<^verbatim>\<open>/metrics\<close> are not modelled.
\<close>

datatype backend_kind = Runsc | Firecracker

fun backend_as_str :: "backend_kind \<Rightarrow> string" where
  "backend_as_str Runsc = ''runsc''"
| "backend_as_str Firecracker = ''firecracker''"

definition backend_from_str :: "string \<Rightarrow> backend_kind option" where
  "backend_from_str s =
     (if trim s = ''runsc'' \<or> trim s = ''gvisor'' then Some Runsc
      else if trim s = ''firecracker'' then Some Firecracker
      else None)"

definition backend_of_engine :: "string \<Rightarrow> backend_kind option" where
  "backend_of_engine e =
     (let s = map ascii_lower (trim e)
      in if starts_with s ''runsc'' then Some Runsc
         else if starts_with s ''firecracker'' then Some Firecracker
         else None)"

record admission =
  min_free_mib :: nat
  max_psi_avg10 :: real

definition default_admission :: admission where
  "default_admission = \<lparr>min_free_mib = 512, max_psi_avg10 = 8\<rparr>"

datatype refusal = AtCap nat nat | LowMemory nat nat | HighPressure real real

definition refuse :: "admission \<Rightarrow> node \<Rightarrow> nat \<Rightarrow> refusal option" where
  "refuse a n load =
     (if 0 < nd_max_sandboxes n \<and> load \<ge> nd_max_sandboxes n then Some (AtCap load (nd_max_sandboxes n))
      else if 0 < nd_free_mib n \<and> nd_free_mib n < min_free_mib a
        then Some (LowMemory (nd_free_mib n) (min_free_mib a))
      else if nd_psi_some_avg10 n > max_psi_avg10 a
        then Some (HighPressure (nd_psi_some_avg10 n) (max_psi_avg10 a))
      else None)"

definition SWITCH_HOLD :: millis where "SWITCH_HOLD = from_secs 120"
definition EXPLICIT_TIER_HOLD :: millis where "EXPLICIT_TIER_HOLD = from_secs 15"
definition MAX_FAILURES :: nat where "MAX_FAILURES = 5"
definition DEFAULT_SANDBOX_PORT :: u16 where "DEFAULT_SANDBOX_PORT = 8080"
definition MAX_FORK_WIDTH :: nat where "MAX_FORK_WIDTH = 256"

record master =
  m_store :: store
  idle :: idle_policy
  port_range :: "u16 \<times> u16"
  admit :: admission
  api_token :: "string option"
  max_net_index :: u32
  require_node_certs :: bool
  woken :: "string set"
  exec_queue :: "string \<rightharpoonup> command list"
  pending_exec :: "string set"
  drivers :: "string set"
  node_addrs :: "string \<rightharpoonup> string"
  explicit_tier :: "(string, instant) book"
  switching :: "(string, backend_kind \<times> instant) book"
  node_features :: "string \<rightharpoonup> string list"
  node_templates :: "string \<rightharpoonup> string list"
  hosts_seen :: "string \<rightharpoonup> host_info"

definition default_options :: "store \<Rightarrow> master" where
  "default_options st = \<lparr>m_store = st, idle = default_idle_policy, port_range = (20000, 32000),
     admit = default_admission, api_token = None, max_net_index = 16382,
     require_node_certs = False, woken = {}, exec_queue = Map.empty, pending_exec = {},
     drivers = {}, node_addrs = Map.empty, explicit_tier = [], switching = [],
     node_features = Map.empty, node_templates = Map.empty, hosts_seen = Map.empty\<rparr>"

text \<open>An API error is its status and what it says.\<close>

record api_err =
  ae_status :: nat
  ae_reason :: string

definition err :: "nat \<Rightarrow> string \<Rightarrow> api_err" where
  "err s r = \<lparr>ae_status = s, ae_reason = r\<rparr>"

section \<open>Operations on the in-memory tables\<close>

definition on_store :: "(store \<Rightarrow> store) \<Rightarrow> master \<Rightarrow> master" where
  "on_store f ms = ms\<lparr>m_store := f (m_store ms)\<rparr>"

definition wake_node :: "string \<Rightarrow> master \<Rightarrow> master" where
  "wake_node n ms = ms\<lparr>woken := insert n (woken ms)\<rparr>"

definition set_driver :: "string \<Rightarrow> master \<Rightarrow> master" where
  "set_driver n ms = ms\<lparr>drivers := insert n (drivers ms)\<rparr>"

definition stop_driver :: "string \<Rightarrow> master \<Rightarrow> master" where
  "stop_driver n ms = ms\<lparr>drivers := drivers ms - {n}\<rparr>"

definition api_token_matches :: "master \<Rightarrow> string \<Rightarrow> bool" where
  "api_token_matches ms presented =
     (case api_token ms of Some tok \<Rightarrow> secrets_match presented tok | None \<Rightarrow> True)"

definition hold_pause :: "instant \<Rightarrow> string \<Rightarrow> master \<Rightarrow> master" where
  "hold_pause t i ms =
     ms\<lparr>explicit_tier := put i t (keep (\<lambda>_ since. t - since < EXPLICIT_TIER_HOLD) (explicit_tier ms))\<rparr>"

definition release_pause :: "string \<Rightarrow> master \<Rightarrow> master" where
  "release_pause i ms = ms\<lparr>explicit_tier := del i (explicit_tier ms)\<rparr>"

definition pause_held :: "instant \<Rightarrow> master \<Rightarrow> string \<Rightarrow> bool" where
  "pause_held t ms i =
     (case map_of (explicit_tier ms) i of Some since \<Rightarrow> t - since < EXPLICIT_TIER_HOLD | None \<Rightarrow> False)"

definition expire_switching :: "instant \<Rightarrow> master \<Rightarrow> master" where
  "expire_switching t ms =
     ms\<lparr>switching := keep (\<lambda>_ (_, since). t - since < SWITCH_HOLD) (switching ms)\<rparr>"

definition switching_to :: "instant \<Rightarrow> string \<Rightarrow> master \<Rightarrow> master \<times> backend_kind option" where
  "switching_to t n ms =
     (let ms1 = expire_switching t ms in (ms1, map_option fst (map_of (switching ms1) n)))"

definition can_start :: "master \<Rightarrow> string \<Rightarrow> string \<Rightarrow> bool" where
  "can_start ms n template =
     (case node_templates ms n of None \<Rightarrow> True | Some ts \<Rightarrow> template \<in> set ts)"

definition rsplit_once :: "char \<Rightarrow> string \<Rightarrow> (string \<times> string) option" where
  "rsplit_once c s = map_option (\<lambda>(a, b). (rev b, rev a)) (split_once c (rev s))"

definition trim_brackets :: "string \<Rightarrow> string" where
  "trim_brackets s =
     (let br = (\<lambda>c. c = CHR ''['' \<or> c = CHR '']'')
      in rev (dropWhile br (rev (dropWhile br s))))"

text \<open>\<open>parse\<close> is \<^verbatim>\<open>IpAddr::from_str\<close>, v6 addresses included.\<close>

definition node_ip :: "(string \<Rightarrow> 'ip option) \<Rightarrow> (string \<Rightarrow> 'ip option) \<Rightarrow> store \<Rightarrow> string \<Rightarrow> 'ip option" where
  "node_ip parse addrs st n =
     (case Option.bind (agent_node st n)
             (\<lambda>a. parse (trim_brackets (case rsplit_once (CHR '':'') (an_address a) of
                     Some (h, _) \<Rightarrow> h | None \<Rightarrow> an_address a))) of
        Some ip \<Rightarrow> Some ip
      | None \<Rightarrow> addrs n)"

section \<open>Who is calling\<close>

datatype node_identity = Verified string | Untrusted

fun authorises :: "node_identity \<Rightarrow> string \<Rightarrow> bool" where
  "authorises (Verified i) claimed = (i = claimed)"
| "authorises Untrusted claimed = True"

definition require_node_cert :: "master \<Rightarrow> string option \<Rightarrow> api_err + node_identity" where
  "require_node_cert ms presented =
     (if \<not> require_node_certs ms then Inr Untrusted
      else case presented of
        None \<Rightarrow> Inl (err 401 ''this endpoint requires a node client certificate'')
      | Some fp \<Rightarrow>
          (case node_by_cert (m_store ms) fp of
             NodeCert i \<Rightarrow> Inr (Verified i)
           | RevokedCert i \<Rightarrow> Inl (err 403 (''the certificate is revoked: '' @ i))
           | UnknownCert \<Rightarrow> Inl (err 401 ''this client certificate belongs to no registered node'')))"

definition api_revoke_node :: "string \<Rightarrow> master \<Rightarrow> master \<times> (api_err + string)" where
  "api_revoke_node i ms =
     (let (st, gone) = revoke_node i (m_store ms); ms1 = ms\<lparr>m_store := st\<rparr>
      in if \<not> gone then (ms1, Inl (err 404 ''no node''))
         else (stop_driver i (wake_node i ms1), Inr i))"

section \<open>Lemmas\<close>

lemma store_wake [frame_simps]:
  "m_store (wake_node n ms) = m_store ms" "m_store (stop_driver n ms) = m_store ms"
  "m_store (set_driver n ms) = m_store ms" "m_store (hold_pause t i ms) = m_store ms"
  "m_store (release_pause i ms) = m_store ms" "m_store (expire_switching t ms) = m_store ms"
  by (simp_all add: wake_node_def stop_driver_def set_driver_def hold_pause_def release_pause_def
      expire_switching_def)

lemma on_store_frame [frame_simps]:
  "m_store (on_store f ms) = f (m_store ms)" "explicit_tier (on_store f ms) = explicit_tier ms"
  "switching (on_store f ms) = switching ms" "exec_queue (on_store f ms) = exec_queue ms"
  by (simp_all add: on_store_def)

lemma refuse_None: "refuse a n load = None \<longleftrightarrow>
  (nd_max_sandboxes n = 0 \<or> load < nd_max_sandboxes n) \<and>
  (nd_free_mib n = 0 \<or> min_free_mib a \<le> nd_free_mib n) \<and>
  nd_psi_some_avg10 n \<le> max_psi_avg10 a"
  by (auto simp: refuse_def)

lemma node_by_cert_revoked:
  assumes "\<forall>n \<in> set (nodes st). nd_cert_sha256 n = Some fp \<longrightarrow> nd_revoked n"
  shows "node_by_cert st fp \<noteq> NodeCert i"
proof (cases "find (\<lambda>n. nd_cert_sha256 n = Some fp) (nodes st)")
  case (Some n)
  then have "n \<in> set (nodes st)" "nd_cert_sha256 n = Some fp" by (auto simp: find_Some_iff)
  with assms Some show ?thesis by (simp add: node_by_cert_def)
qed (simp add: node_by_cert_def)

lemma node_by_cert_holder:
  "node_by_cert st fp = NodeCert i \<Longrightarrow>
   \<exists>n \<in> set (nodes st). nd_id n = i \<and> nd_cert_sha256 n = Some fp \<and> \<not> nd_revoked n"
  by (auto simp: node_by_cert_def find_Some_iff split: option.splits if_splits)

lemma revoke_marks:
  "\<forall>n \<in> set (nodes (fst (revoke_node i st))). nd_id n = i \<longrightarrow> nd_revoked n"
proof -
  have "\<forall>n \<in> set (upd_where (\<lambda>n. nd_id n = i) (\<lambda>n. n\<lparr>nd_revoked := True, nd_connected := False\<rparr>) (nodes st)).
      nd_id n = i \<longrightarrow> nd_revoked n"
    by (rule all_upd_where) simp_all
  then show ?thesis by (simp add: revoke_node_def upd_node_def)
qed

end
