(* ===== verification/Pools.thy ===== *)
theory Pools
  imports MasterState
begin

text \<open>
  How a node gets its pool: registration with a token (\<^verbatim>\<open>register\<close>), being added by address
  (\<^verbatim>\<open>add_node\<close>), both through \<^verbatim>\<open>pool_for\<close>, and the move a changed fingerprint causes
  (\<^verbatim>\<open>refingerprint_node\<close>, defined with the store). A pool is a migration domain: the property
  is that the nodes in it that are not revoked have one fingerprint. The certificate authority
  and the first contact with a listening node are parameters.
\<close>

section \<open>Tokens and addresses\<close>

definition TOKEN_SEP :: char where "TOKEN_SEP = CHR ''.''"

definition join_token :: "string \<Rightarrow> string \<Rightarrow> string" where
  "join_token ca_fingerprint secret = ca_fingerprint @ TOKEN_SEP # secret"

definition split_token :: "string \<Rightarrow> string option \<times> string" where
  "split_token token =
     (case split_once TOKEN_SEP token of
        Some (pin, secret) \<Rightarrow>
          if length pin = 64 \<and> secret \<noteq> [] then (Some pin, secret) else (None, token)
      | None \<Rightarrow> (None, token))"

definition AGENT_DEFAULT_PORT :: nat where "AGENT_DEFAULT_PORT = 80"

definition trim_end_slashes :: "string \<Rightarrow> string" where
  "trim_end_slashes s = rev (dropWhile (\<lambda>c. c = CHR ''/'') (rev s))"

definition strip_https :: "string \<Rightarrow> string" where
  "strip_https s = (if starts_with s ''https://'' then drop 8 s else s)"

definition normalise_address :: "string \<Rightarrow> api_err + string" where
  "normalise_address raw =
     (let a = trim_end_slashes (strip_https (trim raw));
          default = a @ '':'' @ dec AGENT_DEFAULT_PORT;
          colons = length (filter (\<lambda>c. c = CHR '':'') a)
      in if a = [] \<or> contains_char a (CHR ''/'') \<or> list_ex is_space a
         then Inl (err 400 ''expected host or host:port'')
         else if starts_with a ''['' then Inr (if contains_str a '']:'' then a else default)
         else if colons = 0 then Inr default
         else if colons = 1 then Inr a
         else Inl (err 400 ''write an IPv6 address as [addr] or [addr]:port''))"

section \<open>Joining\<close>

definition pool_for :: "store \<Rightarrow> string \<Rightarrow> string \<Rightarrow> string" where
  "pool_for st asked fingerprint =
     (if filter (\<lambda>f. f \<noteq> fingerprint) (pool_fingerprints st asked) = [] then asked
      else derived_pool asked fingerprint)"

definition record_host :: "string \<Rightarrow> host_info \<Rightarrow> master \<Rightarrow> master" where
  "record_host n h ms =
     (if hosts_seen ms n = Some h then ms
      else (on_store (set_node_host n h) ms)\<lparr>hosts_seen := (hosts_seen ms)(n \<mapsto> h)\<rparr>)"

record register_request =
  rg_token :: string
  rg_node_id :: string
  rg_fingerprint :: string
  rg_max_sandboxes :: nat
  rg_host :: "host_info option"

definition joining_node :: "secs \<Rightarrow> string \<Rightarrow> string \<Rightarrow> string \<Rightarrow> nat \<Rightarrow> bool \<Rightarrow> node" where
  "joining_node now i pool fp cap up = \<lparr>nd_id = i, nd_pool = pool, nd_fingerprint = fp,
     nd_max_sandboxes = cap, nd_last_seen_at = now, nd_connected = up, nd_free_mib = 0,
     nd_psi_some_avg10 = 0\<rparr>"

text \<open>
  The lock on the store is taken for the redemption, again for the choice of the pool, and
  again for the write, with the certificate issued in between: three steps other requests may
  come between.
\<close>

definition register_redeem :: "secs \<Rightarrow> register_request \<Rightarrow> master \<Rightarrow> master \<times> (api_err + string)" where
  "register_redeem now req ms =
     (let (st, pool) = redeem_node_token now (snd (split_token (rg_token req))) (rg_node_id req) (m_store ms)
      in (ms\<lparr>m_store := st\<rparr>,
          case pool of
            None \<Rightarrow> Inl (err 401 ''registration token is unknown, expired, or already used'')
          | Some p \<Rightarrow> Inr p))"

definition register_commit :: "secs \<Rightarrow> register_request \<Rightarrow> string \<Rightarrow> string \<Rightarrow> master \<Rightarrow> master" where
  "register_commit now req pool cert_fp ms =
     (let i = rg_node_id req;
          ms1 = on_store (set_node_cert i cert_fp \<circ> upsert_node now
                  (joining_node now i pool (rg_fingerprint req) (rg_max_sandboxes req) True)) ms
      in case rg_host req of None \<Rightarrow> ms1 | Some h \<Rightarrow> record_host i h ms1)"

text \<open>\<open>issue\<close> is the certificate authority: the fingerprint of the certificate, or its error.\<close>

definition register ::
  "(string \<Rightarrow> api_err + string) \<Rightarrow> secs \<Rightarrow> register_request \<Rightarrow> master \<Rightarrow> master \<times> (api_err + string)" where
  "register issue now req ms =
     (case register_redeem now req ms of
        (ms1, Inl e) \<Rightarrow> (ms1, Inl e)
      | (ms1, Inr asked) \<Rightarrow>
          let pool = pool_for (m_store ms1) asked (rg_fingerprint req)
          in case issue (rg_node_id req) of
               Inl e \<Rightarrow> (ms1, Inl e)
             | Inr cert_fp \<Rightarrow> (register_commit now req pool cert_fp ms1, Inr pool))"

record agent_hello =
  ah_node_id :: string
  ah_fingerprint :: string
  ah_max_sandboxes :: nat
  ah_host :: "host_info option"

record add_node_request =
  ad_address :: string
  ad_pairing_code :: string
  ad_node_id :: "string option"
  ad_pool :: string

definition is_hex_digit :: "char \<Rightarrow> bool" where
  "is_hex_digit c \<longleftrightarrow> is_digit c \<or> (65 \<le> (of_char c :: nat) \<and> (of_char c :: nat) \<le> 70)
     \<or> (97 \<le> (of_char c :: nat) \<and> (of_char c :: nat) \<le> 102)"

definition polling_now :: "secs \<Rightarrow> store \<Rightarrow> string \<Rightarrow> bool" where
  "polling_now now st i \<longleftrightarrow>
     list_ex (\<lambda>n. nd_id n = i \<and> nd_connected n \<and> now - nd_last_seen_at n < 60) (list_nodes st)"

definition add_node_commit ::
  "secs \<Rightarrow> string \<Rightarrow> string \<Rightarrow> string \<Rightarrow> string \<Rightarrow> string \<Rightarrow> agent_hello \<Rightarrow> master \<Rightarrow> master" where
  "add_node_commit now i pool address pin secret about ms =
     (let ms1 = on_store (set_node_agent i address pin secret \<circ> upsert_node now
                  (joining_node now i pool (ah_fingerprint about) (ah_max_sandboxes about) False)) ms;
          ms2 = (case ah_host about of None \<Rightarrow> ms1 | Some h \<Rightarrow> record_host i h ms1)
      in set_driver i ms2)"

text \<open>\<open>hello address pin secret\<close> is the first contact: what the node says it is, or the error.\<close>

definition add_node ::
  "(string \<Rightarrow> string \<Rightarrow> string \<Rightarrow> string + agent_hello) \<Rightarrow> secs \<Rightarrow> add_node_request \<Rightarrow> master
     \<Rightarrow> master \<times> (api_err + (string \<times> string))" where
  "add_node hello now req ms =
     (case split_token (trim (ad_pairing_code req)) of
        (pin, secret) \<Rightarrow>
          case pin of
            None \<Rightarrow> (ms, Inl (err 400 ''pairing_code should be <64 hex>.<secret>''))
          | Some p \<Rightarrow>
              if \<not> (length p = 64 \<and> list_all is_hex_digit p)
              then (ms, Inl (err 400 ''pairing_code should be <64 hex>.<secret>''))
              else if secret = [] then (ms, Inl (err 400 ''pairing_code has no secret part''))
              else let lp = map ascii_lower p in
                case normalise_address (ad_address req) of
                  Inl e \<Rightarrow> (ms, Inl e)
                | Inr address \<Rightarrow>
                    (case hello address lp secret of
                       Inl e \<Rightarrow> (ms, Inl (err 502 e))
                     | Inr about \<Rightarrow>
                         let i = (case ad_node_id req of Some n \<Rightarrow> n | None \<Rightarrow> ah_node_id about) in
                         if \<not> is_safe i then (ms, Inl (err 400 ''node id is not a plain name''))
                         else if polling_now now (m_store ms) i \<and> \<not> list_ex (\<lambda>a. an_id a = i) (agent_nodes (m_store ms))
                           then (ms, Inl (err 409 ''node is connected and polling right now''))
                         else let pool = pool_for (m_store ms) (ad_pool req) (ah_fingerprint about)
                              in (add_node_commit now i pool address lp secret about ms, Inr (i, pool))))"

definition api_create_node_token ::
  "string \<Rightarrow> secs \<Rightarrow> string \<Rightarrow> secs \<Rightarrow> master \<Rightarrow> master \<times> (api_err + string)" where
  "api_create_node_token secret now pool ttl ms =
     (case create_node_token now secret pool ttl (m_store ms) of
        Inl _ \<Rightarrow> (ms, Inl (err 500 ''the token exists''))
      | Inr st \<Rightarrow> (ms\<lparr>m_store := st\<rparr>, Inr secret))"

end
