(* ===== verification/Fleet.thy ===== *)
theory Fleet
  imports Pools
begin

text \<open>
  The fleet as a state machine: nodes join, report another fingerprint and are revoked, in any
  order. The invariants are that a pool has one fingerprint among the nodes that are not
  revoked, and that the history of pools is a chain per node whose open end is where the node
  is; the findings are the two ways the code breaks the first.
\<close>

section \<open>What the operations do to the rows\<close>

lemma nodes_upsert_node:
  "nodes (upsert_node now n st) =
     (case node_of st (nd_id n) of
        None \<Rightarrow> nodes st @ [new_node_row n]
      | Some _ \<Rightarrow> upd_where (\<lambda>r. nd_id r = nd_id n) (\<lambda>r. r\<lparr>nd_pool := nd_pool n,
              nd_fingerprint := nd_fingerprint n, nd_max_sandboxes := nd_max_sandboxes n,
              nd_last_seen_at := nd_last_seen_at n, nd_connected := nd_connected n\<rparr>) (nodes st))"
  by (simp add: upsert_node_def frame_simps upd_node_def split: option.split)

lemma node_of_None: "node_of st i = None \<longleftrightarrow> (\<forall>n \<in> set (nodes st). nd_id n \<noteq> i)"
  by (auto simp: node_of_def row_of_None)

lemma node_of_Some: "node_of st i = Some n \<Longrightarrow> n \<in> set (nodes st) \<and> nd_id n = i"
  by (auto simp: node_of_def dest: row_of_key)

lemma node_of_in: "distinct_ids st \<Longrightarrow> n \<in> set (nodes st) \<Longrightarrow> node_of st (nd_id n) = Some n"
  by (simp add: node_of_def distinct_ids_def row_of_in)

lemma upd_where_upd_where:
  "(\<And>r. Q (f r) \<longleftrightarrow> Q r) \<Longrightarrow> (\<And>r. f (f r) = f r) \<Longrightarrow>
   upd_where Q f (upd_where P f rows) = upd_where (\<lambda>r. P r \<or> Q r) f rows"
  by (induction rows) (auto simp: upd_where_def)

lemma fold_note_pool_nodes:
  assumes "\<And>r. nd_id (f r) = nd_id r" "\<And>r. f (f r) = f r"
  shows "nodes (fold (\<lambda>n s. note_pool now n base (upd_node n f s)) ids st) =
         upd_where (\<lambda>r. nd_id r \<in> set ids) f (nodes st)"
proof (induction ids arbitrary: st)
  case Nil
  then show ?case by (simp add: upd_where_none)
next
  case (Cons i ids)
  have "nodes (fold (\<lambda>n s. note_pool now n base (upd_node n f s)) (i # ids) st) =
        upd_where (\<lambda>r. nd_id r \<in> set ids) f (upd_where (\<lambda>r. nd_id r = i) f (nodes st))"
    by (simp add: Cons.IH frame_simps) (simp add: upd_node_def)
  also have "\<dots> = upd_where (\<lambda>r. nd_id r = i \<or> nd_id r \<in> set ids) f (nodes st)"
    by (rule upd_where_upd_where) (simp_all add: assms)
  finally show ?case by simp
qed

lemma distinct_ids_row: "distinct (map nd_id rows) \<Longrightarrow> r \<in> set rows \<Longrightarrow>
  nd_id r \<in> nd_id ` {x \<in> set rows. P x} \<longleftrightarrow> P r"
  by (auto simp: distinct_map inj_on_def)

lemma upd_where_cong: "(\<And>r. r \<in> set rows \<Longrightarrow> P r \<longleftrightarrow> Q r) \<Longrightarrow> upd_where P f rows = upd_where Q f rows"
  by (auto simp: upd_where_def)

lemma nodes_rejoin:
  assumes "distinct_ids st"
  shows "nodes (rejoin now derived base st) =
    upd_where (\<lambda>r. nd_pool r = derived) (\<lambda>r. r\<lparr>nd_pool := base\<rparr>) (nodes st)"
proof -
  have "nodes (rejoin now derived base st) =
    upd_where (\<lambda>r. nd_id r \<in> set (map nd_id (filter (\<lambda>n. nd_pool n = derived) (nodes st))))
      (\<lambda>r. r\<lparr>nd_pool := base\<rparr>) (nodes st)"
    by (simp add: rejoin_def Let_def fold_note_pool_nodes del: set_map)
  also have "\<dots> = upd_where (\<lambda>r. nd_pool r = derived) (\<lambda>r. r\<lparr>nd_pool := base\<rparr>) (nodes st)"
    using assms by (intro upd_where_cong) (simp add: distinct_ids_def distinct_ids_row)
  finally show ?thesis .
qed

text \<open>Where a changed fingerprint puts a node.\<close>

definition target_pool :: "store \<Rightarrow> string \<Rightarrow> string \<Rightarrow> string \<Rightarrow> string" where
  "target_pool st i pool fp =
     (if list_all (\<lambda>f. f = fp) (other_fingerprints st (base_of pool) i) then base_of pool
      else derived_pool (base_of pool) fp)"

lemma derived_not_base [simp]: "derived_pool base fp \<noteq> base" "base \<noteq> derived_pool base fp"
  by (simp_all add: derived_pool_def)

lemma nodes_refingerprint:
  assumes "distinct_ids st" "node_of st i = Some n" "nd_fingerprint n \<noteq> fp"
    and "target = target_pool st i (nd_pool n) fp"
  shows "nodes (fst (refingerprint_node now i fp st)) =
    (let rows = upd_where (\<lambda>r. nd_id r = i) (\<lambda>r. r\<lparr>nd_fingerprint := fp, nd_pool := target\<rparr>) (nodes st)
     in if target = base_of (nd_pool n)
        then upd_where (\<lambda>r. nd_pool r = derived_pool target fp) (\<lambda>r. r\<lparr>nd_pool := target\<rparr>) rows
        else rows)"
proof -
  define st1 where "st1 = upd_node i (\<lambda>r. r\<lparr>nd_fingerprint := fp, nd_pool := target\<rparr>) st"
  define st3 where "st3 = note_pool now i target (st1\<lparr>sandboxes :=
      upd_where (\<lambda>s. sb_node_id s = i) (\<lambda>s. s\<lparr>sb_pool := target\<rparr>) (sandboxes st1)\<rparr>)"
  have "fst (refingerprint_node now i fp st) =
      (if target = base_of (nd_pool n) then rejoin now (derived_pool (base_of (nd_pool n)) fp) (base_of (nd_pool n)) st3 else st3)"
    using assms(2-4) by (simp add: refingerprint_node_def Let_def st1_def st3_def target_pool_def)
  moreover have st3: "nodes st3 = upd_where (\<lambda>r. nd_id r = i)
      (\<lambda>r. r\<lparr>nd_fingerprint := fp, nd_pool := target\<rparr>) (nodes st)"
    by (simp add: st3_def st1_def frame_simps) (simp add: upd_node_def)
  moreover have "distinct_ids st3"
    using assms(1) by (simp add: distinct_ids_def st3 map_key_upd_where)
  ultimately show ?thesis by (simp add: nodes_rejoin Let_def)
qed

section \<open>Homogeneous pools\<close>

definition homogeneous :: "store \<Rightarrow> bool" where
  "homogeneous st \<longleftrightarrow>
     (\<forall>a \<in> set (nodes st). \<forall>b \<in> set (nodes st). \<not> nd_revoked a \<longrightarrow> \<not> nd_revoked b \<longrightarrow>
        nd_pool a = nd_pool b \<longrightarrow> nd_fingerprint a = nd_fingerprint b)"

text \<open>A pool whose name has a \<^verbatim>\<open>#\<close> was derived from the fingerprint of the nodes in it.\<close>

definition labelled :: "store \<Rightarrow> bool" where
  "labelled st \<longleftrightarrow>
     (\<forall>n \<in> set (nodes st). contains_char (nd_pool n) (CHR ''#'') \<longrightarrow>
        nd_pool n = derived_pool (base_of (nd_pool n)) (nd_fingerprint n))"

definition fingerprints :: "store \<Rightarrow> string set" where
  "fingerprints st = nd_fingerprint ` set (nodes st)"

lemma base_of_derived [simp]: "\<not> contains_char base (CHR ''#'') \<Longrightarrow> base_of (derived_pool base fp) = base"
  by (simp add: base_of_def derived_pool_def contains_char_def)

lemma no_hash_base [simp]: "\<not> contains_char (base_of p) (CHR ''#'')"
  by (simp add: base_of_def contains_char_def)

lemma hash_derived [simp]: "contains_char (derived_pool base fp) (CHR ''#'')"
  by (simp add: derived_pool_def contains_char_def)

lemma derived_inj: "derived_pool b x = derived_pool b y \<longleftrightarrow> eight x = eight y"
  by (simp add: derived_pool_def)

lemma labelled_fingerprint:
  assumes "labelled st" "inj_on eight (insert fp (fingerprints st))" "r \<in> set (nodes st)"
    and "nd_pool r = derived_pool base fp" "\<not> contains_char base (CHR ''#'')"
  shows "nd_fingerprint r = fp"
proof -
  from assms(1,3,4) have "nd_pool r = derived_pool (base_of (nd_pool r)) (nd_fingerprint r)"
    unfolding labelled_def by (metis hash_derived)
  with assms(4,5) have "eight (nd_fingerprint r) = eight fp" by (simp add: derived_inj)
  with assms(2,3) show ?thesis by (simp add: inj_on_def fingerprints_def)
qed

lemma pool_for_cases:
  assumes "pool = pool_for st asked fp"
  obtains "pool = asked" "\<And>r. r \<in> set (nodes st) \<Longrightarrow> nd_pool r = asked \<Longrightarrow> \<not> nd_revoked r \<Longrightarrow> nd_fingerprint r = fp"
    | "pool = derived_pool asked fp"
proof (cases "filter (\<lambda>f. f \<noteq> fp) (pool_fingerprints st asked) = []")
  case True
  then have "\<forall>r \<in> set (nodes st). nd_pool r = asked \<longrightarrow> \<not> nd_revoked r \<longrightarrow> nd_fingerprint r = fp"
    by (auto simp: filter_empty_conv pool_fingerprints_def)
  with True assms that(1) show ?thesis by (simp add: pool_for_def)
next
  case False
  with assms that(2) show ?thesis by (simp add: pool_for_def)
qed


subsection \<open>Joining\<close>

definition enrol :: "secs \<Rightarrow> string \<Rightarrow> string \<Rightarrow> string \<Rightarrow> nat \<Rightarrow> bool \<Rightarrow> store \<Rightarrow> store" where
  "enrol now asked i fp cap up st = upsert_node now (joining_node now i (pool_for st asked fp) fp cap up) st"

lemma upsert_origin:
  assumes "r \<in> set (nodes (upsert_node now n st))"
  shows "(r \<in> set (nodes st) \<and> nd_id r \<noteq> nd_id n) \<or>
    (nd_id r = nd_id n \<and> nd_pool r = nd_pool n \<and> nd_fingerprint r = nd_fingerprint n)"
proof (cases "node_of st (nd_id n)")
  case None
  with assms show ?thesis
    by (auto simp: nodes_upsert_node node_of_None new_node_row_def)
next
  case (Some r')
  have "\<forall>r \<in> set (nodes (upsert_node now n st)). (r \<in> set (nodes st) \<and> nd_id r \<noteq> nd_id n) \<or>
    (nd_id r = nd_id n \<and> nd_pool r = nd_pool n \<and> nd_fingerprint r = nd_fingerprint n)"
    unfolding nodes_upsert_node Some option.case by (rule all_upd_where) simp_all
  with assms show ?thesis by blast
qed

lemma upd_node_origin:
  assumes "r \<in> set (nodes (upd_node i f st))"
    and "\<And>n. nd_id (f n) = nd_id n" "\<And>n. nd_pool (f n) = nd_pool n" "\<And>n. nd_fingerprint (f n) = nd_fingerprint n"
  shows "\<exists>n \<in> set (nodes st). nd_id r = nd_id n \<and> nd_pool r = nd_pool n \<and>
     nd_fingerprint r = nd_fingerprint n \<and> (nd_id n \<noteq> i \<longrightarrow> r = n)"
  using assms by (fastforce simp: nodes_upd_node)

lemma distinct_ids_upsert: "distinct_ids st \<Longrightarrow> distinct_ids (upsert_node now n st)"
  by (auto simp: distinct_ids_def nodes_upsert_node map_key_upd_where node_of_None new_node_row_def
      split: option.split)

lemma distinct_ids_upd: "distinct_ids st \<Longrightarrow> (\<And>r. nd_id (f r) = nd_id r) \<Longrightarrow> distinct_ids (upd_node i f st)"
  by (simp add: distinct_ids_def upd_node_def map_key_upd_where)

text \<open>A node with a fingerprint alone in its pool may be there, revoked or not.\<close>

lemma homogeneous_join:
  assumes "homogeneous st"
    and "\<And>r. r \<in> set (nodes st) \<Longrightarrow> nd_id r \<noteq> i \<Longrightarrow> nd_pool r = pool \<Longrightarrow> \<not> nd_revoked r \<Longrightarrow> nd_fingerprint r = fp"
    and "\<And>r. r \<in> set (nodes st') \<Longrightarrow> (r \<in> set (nodes st) \<and> nd_id r \<noteq> i) \<or>
           (nd_id r = i \<and> nd_pool r = pool \<and> nd_fingerprint r = fp)"
  shows "homogeneous st'"
  unfolding homogeneous_def
proof (intro ballI impI)
  fix a b assume "a \<in> set (nodes st')" "b \<in> set (nodes st')" "\<not> nd_revoked a" "\<not> nd_revoked b"
    "nd_pool a = nd_pool b"
  with assms(3) [of a] assms(3) [of b] assms(1,2) show "nd_fingerprint a = nd_fingerprint b"
    unfolding homogeneous_def by metis
qed

lemma enrol_keeps:
  assumes "homogeneous st" "labelled st" "\<not> contains_char asked (CHR ''#'')"
    and "inj_on eight (insert fp (fingerprints st))"
    and f: "\<And>n. nd_id (f n) = nd_id n" "\<And>n. nd_pool (f n) = nd_pool n" "\<And>n. nd_fingerprint (f n) = nd_fingerprint n"
  shows "homogeneous (upd_node i f (enrol now asked i fp cap up st)) \<and>
         labelled (upd_node i f (enrol now asked i fp cap up st))"
proof
  define pool where "pool = pool_for st asked fp"
  define st' where "st' = upd_node i f (enrol now asked i fp cap up st)"
  have origin: "(r \<in> set (nodes st) \<and> nd_id r \<noteq> i) \<or> (nd_id r = i \<and> nd_pool r = pool \<and> nd_fingerprint r = fp)"
    if "r \<in> set (nodes st')" for r
  proof -
    from upd_node_origin [OF that [unfolded st'_def] f] obtain n
      where n: "n \<in> set (nodes (enrol now asked i fp cap up st))" "nd_id r = nd_id n"
        "nd_pool r = nd_pool n" "nd_fingerprint r = nd_fingerprint n" "nd_id n \<noteq> i \<longrightarrow> r = n" by blast
    from upsert_origin [OF n(1) [unfolded enrol_def]] n(2-5) show ?thesis
      by (auto simp: joining_node_def pool_def)
  qed
  have alone: "nd_fingerprint r = fp"
    if "r \<in> set (nodes st)" "nd_pool r = pool" "\<not> nd_revoked r" for r
    using pool_def
  proof (cases rule: pool_for_cases)
    case 1
    with that show ?thesis by simp
  next
    case 2
    with that labelled_fingerprint [OF assms(2,4) that(1)] assms(3) show ?thesis by simp
  qed
  show "homogeneous (upd_node i f (enrol now asked i fp cap up st))"
    using homogeneous_join [OF assms(1), of i pool fp st'] alone origin
    unfolding st'_def by blast
  have "pool = asked \<or> pool = derived_pool asked fp"
    using pool_def by (cases rule: pool_for_cases) simp_all
  then have "contains_char pool (CHR ''#'') \<Longrightarrow> pool = derived_pool (base_of pool) fp"
    using assms(3) by auto
  with assms(2) origin show "labelled (upd_node i f (enrol now asked i fp cap up st))"
    unfolding labelled_def st'_def by metis
qed

subsection \<open>A changed fingerprint\<close>

lemma refingerprint_origin:
  assumes "distinct_ids st" "node_of st i = Some n" "nd_fingerprint n \<noteq> fp"
    and target: "target = target_pool st i (nd_pool n) fp" and base: "base = base_of (nd_pool n)"
    and r': "r' \<in> set (nodes (fst (refingerprint_node now i fp st)))"
  shows "\<exists>r \<in> set (nodes st). nd_id r' = nd_id r \<and> nd_revoked r' = nd_revoked r \<and>
    (if nd_id r = i then nd_fingerprint r' = fp \<and> nd_pool r' = target
     else nd_fingerprint r' = nd_fingerprint r \<and>
       nd_pool r' = (if target = base \<and> nd_pool r = derived_pool base fp then base else nd_pool r))"
proof -
  define g where "g = (\<lambda>r :: node_row. if nd_id r = i then r\<lparr>nd_fingerprint := fp, nd_pool := target\<rparr> else r)"
  define h where "h = (\<lambda>r :: node_row. if target = base \<and> nd_pool r = derived_pool target fp then r\<lparr>nd_pool := target\<rparr> else r)"
  have "nodes (fst (refingerprint_node now i fp st)) = map (h \<circ> g) (nodes st)"
    unfolding nodes_refingerprint [OF assms(1-3) target] g_def h_def base [symmetric]
    by (simp add: upd_where_def Let_def)
  with r' obtain r where "r \<in> set (nodes st)" "r' = h (g r)" by auto
  then show ?thesis by (intro bexI [of _ r]) (auto simp: g_def h_def)
qed

lemma refingerprint_noop:
  "node_of st i = None \<or> (\<exists>n. node_of st i = Some n \<and> nd_fingerprint n = fp) \<Longrightarrow>
   refingerprint_node now i fp st = (st, None)"
  by (auto simp: refingerprint_node_def)

lemma target_base:
  assumes "target_pool st i pool fp = base_of pool" "r \<in> set (nodes st)" "nd_id r \<noteq> i"
    and "nd_pool r = base_of pool" "\<not> nd_revoked r"
  shows "nd_fingerprint r = fp"
  using assms by (auto simp: target_pool_def other_fingerprints_def list_all_iff split: if_splits)

lemma refingerprint_keeps:
  assumes "distinct_ids st" "homogeneous st" "labelled st" "inj_on eight (insert fp (fingerprints st))"
  shows "homogeneous (fst (refingerprint_node now i fp st)) \<and> labelled (fst (refingerprint_node now i fp st))"
proof (cases "\<exists>n. node_of st i = Some n \<and> nd_fingerprint n \<noteq> fp")
  case False
  then have "node_of st i = None \<or> (\<exists>n. node_of st i = Some n \<and> nd_fingerprint n = fp)"
    by (cases "node_of st i") auto
  with assms show ?thesis by (simp add: refingerprint_noop)
next
  case True
  then obtain n where n: "node_of st i = Some n" "nd_fingerprint n \<noteq> fp" by blast
  define base where "base = base_of (nd_pool n)"
  define target where "target = target_pool st i (nd_pool n) fp"
  have nb: "\<not> contains_char base (CHR ''#'')" by (simp add: base_def)
  have tb: "target = base \<or> target = derived_pool base fp"
    by (simp add: target_def target_pool_def base_def)
  note origin = refingerprint_origin [OF assms(1) n target_def base_def]
  let ?st' = "fst (refingerprint_node now i fp st)"
  have in_target: "nd_fingerprint r' = fp"
    if "r' \<in> set (nodes ?st')" "\<not> nd_revoked r'" "nd_pool r' = target" for r'
  proof -
    from origin [OF that(1)] obtain r where r: "r \<in> set (nodes st)" "nd_revoked r' = nd_revoked r"
      "if nd_id r = i then nd_fingerprint r' = fp \<and> nd_pool r' = target
       else nd_fingerprint r' = nd_fingerprint r \<and>
         nd_pool r' = (if target = base \<and> nd_pool r = derived_pool base fp then base else nd_pool r)" by blast
    show ?thesis
    proof (cases "nd_id r = i \<or> nd_pool r = derived_pool base fp")
      case True
      with r labelled_fingerprint [OF assms(3,4) r(1) _ nb] show ?thesis by (auto split: if_splits)
    next
      case other: False
      with r that(3) have "nd_pool r = target" "nd_fingerprint r' = nd_fingerprint r" by auto
      with tb other have "target = base" by auto
      with target_base [of st i "nd_pool n" fp r] r(1,2) that(2) other \<open>nd_pool r = target\<close>
      show ?thesis by (simp add: target_def [symmetric] base_def [symmetric] \<open>nd_fingerprint r' = _\<close>)
    qed
  qed
  have elsewhere: "\<exists>r \<in> set (nodes st). nd_revoked r' = nd_revoked r \<and> nd_pool r' = nd_pool r \<and>
      nd_fingerprint r' = nd_fingerprint r"
    if "r' \<in> set (nodes ?st')" "nd_pool r' \<noteq> target" for r'
    using origin [OF that(1)] that(2) by (auto split: if_splits)
  show ?thesis
  proof
    show "homogeneous ?st'"
      unfolding homogeneous_def
    proof (intro ballI impI)
      fix a b assume ab: "a \<in> set (nodes ?st')" "b \<in> set (nodes ?st')" "\<not> nd_revoked a"
        "\<not> nd_revoked b" "nd_pool a = nd_pool b"
      show "nd_fingerprint a = nd_fingerprint b"
      proof (cases "nd_pool a = target")
        case True
        with ab in_target show ?thesis by simp
      next
        case False
        with elsewhere [of a] elsewhere [of b] ab assms(2) show ?thesis
          unfolding homogeneous_def by metis
      qed
    qed
    show "labelled ?st'"
      unfolding labelled_def
    proof (intro ballI impI)
      fix r' assume r': "r' \<in> set (nodes ?st')" "contains_char (nd_pool r') (CHR ''#'')"
      from origin [OF r'(1)] obtain r where r: "r \<in> set (nodes st)"
        "if nd_id r = i then nd_fingerprint r' = fp \<and> nd_pool r' = target
         else nd_fingerprint r' = nd_fingerprint r \<and>
           nd_pool r' = (if target = base \<and> nd_pool r = derived_pool base fp then base else nd_pool r)" by blast
      show "nd_pool r' = derived_pool (base_of (nd_pool r')) (nd_fingerprint r')"
        using r r'(2) tb nb assms(3) unfolding labelled_def by (auto split: if_splits)
    qed
  qed
qed

end
