(* ===== verification/PoolHistory.thy ===== *)
theory PoolHistory
  imports Fleet
begin

text \<open>
  The history of pools as a chain per node, and the reachable states of the fleet: an inductive
  relation whose steps are the handlers, with the invariants by rule induction.
\<close>

section \<open>The history of one node\<close>

fun chain :: "pool_stretch list \<Rightarrow> bool" where
  "chain [] = True"
| "chain [s] = (ps_until s = None)"
| "chain (s # t # r) = (ps_until s = Some (ps_since t) \<and> chain (t # r))"

definition node_history :: "store \<Rightarrow> string \<Rightarrow> pool_stretch list" where
  "node_history st i = filter (\<lambda>s. ps_node s = i) (node_pools st)"

definition last_pool :: "store \<Rightarrow> string \<Rightarrow> string option" where
  "last_pool st i = (if node_history st i = [] then None else Some (ps_pool (last (node_history st i))))"

definition all_chains :: "store \<Rightarrow> bool" where
  "all_chains st \<longleftrightarrow> (\<forall>i. chain (node_history st i))"

definition history_ok :: "store \<Rightarrow> bool" where
  "history_ok st \<longleftrightarrow> all_chains st \<and> (\<forall>n \<in> set (nodes st). last_pool st (nd_id n) = Some (nd_pool n))"

lemma chain_open: "chain h \<Longrightarrow> h \<noteq> [] \<Longrightarrow> find (\<lambda>s. ps_until s = None) h = Some (last h)"
  by (induction h rule: chain.induct) auto

lemma chain_close:
  "chain h \<Longrightarrow> chain (map (\<lambda>s. if ps_until s = None then s\<lparr>ps_until := Some now\<rparr> else s) h
     @ [\<lparr>ps_node = i, ps_pool = p, ps_since = now, ps_until = None\<rparr>])"
  by (induction h rule: chain.induct) auto

lemma find_filter: "find P (filter Q xs) = find (\<lambda>x. Q x \<and> P x) xs"
  by (induction xs) auto

lemma find_open_history: "find (is_open i) (node_pools st) = find (\<lambda>s. ps_until s = None) (node_history st i)"
proof -
  have "is_open i = (\<lambda>s. ps_node s = i \<and> ps_until s = None)" by (rule ext) (simp add: is_open_def)
  then show ?thesis by (simp add: node_history_def find_filter)
qed

lemma history_after_close:
  "filter (\<lambda>s. ps_node s = j) (upd_where (is_open i) (\<lambda>s. s\<lparr>ps_until := Some now\<rparr>) rows) =
   (if j = i then map (\<lambda>s. if ps_until s = None then s\<lparr>ps_until := Some now\<rparr> else s)
                   (filter (\<lambda>s. ps_node s = j) rows)
    else filter (\<lambda>s. ps_node s = j) rows)"
  for rows :: "pool_stretch list"
  by (induction rows) (auto simp: upd_where_def is_open_def)

lemma note_pool_same:
  "all_chains st \<Longrightarrow> last_pool st i = Some pool \<Longrightarrow> note_pool now i pool st = st"
  by (auto simp: note_pool_def find_open_history chain_open all_chains_def last_pool_def split: if_splits)

lemma note_pool_history:
  "all_chains st \<Longrightarrow> last_pool st i \<noteq> Some pool \<Longrightarrow>
   node_history (note_pool now i pool st) j =
     (if j = i then map (\<lambda>s. if ps_until s = None then s\<lparr>ps_until := Some now\<rparr> else s) (node_history st i)
                    @ [\<lparr>ps_node = i, ps_pool = pool, ps_since = now, ps_until = None\<rparr>]
      else node_history st j)"
proof -
  assume a: "all_chains st" "last_pool st i \<noteq> Some pool"
  have "map_option ps_pool (find (is_open i) (node_pools st)) \<noteq> Some pool"
    using a by (cases "node_history st i = []")
      (auto simp: find_open_history chain_open all_chains_def last_pool_def)
  then show ?thesis
    using history_after_close [of j i now "node_pools st"]
    by (auto simp: note_pool_def node_history_def)
qed

lemma note_pool_last:
  assumes "all_chains st"
  shows "last_pool (note_pool now i pool st) j = (if j = i then Some pool else last_pool st j)"
proof (cases "last_pool st i = Some pool")
  case True
  then show ?thesis using note_pool_same [OF assms True] by auto
next
  case False
  then show ?thesis using note_pool_history [OF assms False, of now j]
    by (auto simp: last_pool_def)
qed

lemma note_pool_chains:
  assumes "all_chains st"
  shows "all_chains (note_pool now i pool st)"
proof (cases "last_pool st i = Some pool")
  case True
  then show ?thesis using note_pool_same [OF assms True] assms by auto
next
  case False
  have "chain (node_history (note_pool now i pool st) j)" for j
    using note_pool_history [OF assms False, of now j] chain_close [of "node_history st i" now i pool] assms
    by (auto simp: all_chains_def)
  then show ?thesis by (simp add: all_chains_def)
qed

lemma history_frame:
  "node_pools st' = node_pools st \<Longrightarrow> last_pool st' = last_pool st \<and> (all_chains st' = all_chains st)"
  by (auto simp: last_pool_def all_chains_def node_history_def)

lemma fold_note_pool_history:
  assumes "all_chains st"
  shows "all_chains (fold (\<lambda>n s. note_pool now n base (upd_node n f s)) ids st) \<and>
    last_pool (fold (\<lambda>n s. note_pool now n base (upd_node n f s)) ids st) j =
      (if j \<in> set ids then Some base else last_pool st j)"
  using assms
proof (induction ids arbitrary: st)
  case (Cons i ids)
  have "all_chains (upd_node i f st)" "last_pool (upd_node i f st) = last_pool st"
    using history_frame [of "upd_node i f st" st] Cons.prems by (simp_all add: frame_simps)
  then show ?case
    using Cons.IH [OF note_pool_chains, of "upd_node i f st" now i base]
    by (simp add: note_pool_last)
qed simp

lemma rejoin_history:
  assumes "all_chains st" "distinct_ids st"
  shows "all_chains (rejoin now derived base st) \<and>
    last_pool (rejoin now derived base st) j =
      (if j \<in> nd_id ` {n \<in> set (nodes st). nd_pool n = derived} then Some base else last_pool st j)"
proof -
  define ids where "ids = map nd_id (filter (\<lambda>n. nd_pool n = derived) (nodes st))"
  define moved where "moved = fold (\<lambda>n s. note_pool now n base (upd_node n (\<lambda>r. r\<lparr>nd_pool := base\<rparr>) s)) ids st"
  have "node_pools (rejoin now derived base st) = node_pools moved"
    by (simp add: rejoin_def Let_def moved_def ids_def)
  with fold_note_pool_history [OF assms(1), of now base "\<lambda>r. r\<lparr>nd_pool := base\<rparr>" ids j]
    history_frame [of "rejoin now derived base st" moved]
  show ?thesis by (simp add: moved_def ids_def image_def)
qed

lemma rejoin_history_ok:
  assumes "history_ok st" "distinct_ids st"
  shows "history_ok (rejoin now derived base st)"
proof -
  let ?st' = "rejoin now derived base st"
  have hist: "all_chains ?st'" "\<And>j. last_pool ?st' j =
      (if j \<in> nd_id ` {n \<in> set (nodes st). nd_pool n = derived} then Some base else last_pool st j)"
    using rejoin_history [of st now derived base] assms by (simp_all add: history_ok_def)
  have "\<forall>r \<in> set (nodes ?st'). last_pool ?st' (nd_id r) = Some (nd_pool r)"
    unfolding nodes_rejoin [OF assms(2)]
  proof (rule all_upd_where)
    fix x assume x: "x \<in> set (nodes st)" "nd_pool x \<noteq> derived"
    then have "nd_id x \<notin> nd_id ` {n \<in> set (nodes st). nd_pool n = derived}"
      using distinct_ids_row [of "nodes st" x "\<lambda>n. nd_pool n = derived"] assms(2)
      by (simp add: distinct_ids_def)
    with x assms(1) show "last_pool ?st' (nd_id x) = Some (nd_pool x)"
      by (simp add: hist(2) history_ok_def)
  qed (auto simp: hist(2))
  with hist(1) show ?thesis by (simp add: history_ok_def)
qed

lemma upsert_history:
  assumes "history_ok st"
  shows "history_ok (upsert_node now n st)"
proof -
  define st1 where "st1 = (case node_of st (nd_id n) of
          None \<Rightarrow> st\<lparr>nodes := nodes st @ [new_node_row n]\<rparr>
        | Some _ \<Rightarrow> upd_node (nd_id n) (\<lambda>r. r\<lparr>nd_pool := nd_pool n,
              nd_fingerprint := nd_fingerprint n, nd_max_sandboxes := nd_max_sandboxes n,
              nd_last_seen_at := nd_last_seen_at n, nd_connected := nd_connected n\<rparr>) st)"
  have eq: "upsert_node now n st = note_pool now (nd_id n) (nd_pool n) st1"
    by (simp add: upsert_node_def st1_def)
  have "node_pools st1 = node_pools st" by (simp add: st1_def frame_simps split: option.split)
  with assms have st1: "all_chains st1" "last_pool st1 = last_pool st"
    using history_frame [of st1 st] by (simp_all add: history_ok_def)
  have "last_pool (upsert_node now n st) (nd_id r) = Some (nd_pool r)"
    if "r \<in> set (nodes (upsert_node now n st))" for r
    using upsert_origin [OF that] assms
    by (auto simp: eq note_pool_last [OF st1(1)] st1(2) history_ok_def)
  then show ?thesis
    using note_pool_chains [OF st1(1)] by (simp add: history_ok_def eq)
qed

lemma upd_node_history:
  assumes "history_ok st" "\<And>n. nd_id (f n) = nd_id n" "\<And>n. nd_pool (f n) = nd_pool n"
  shows "history_ok (upd_node i f st)"
proof -
  have "all_chains (upd_node i f st)" "last_pool (upd_node i f st) = last_pool st"
    using history_frame [of "upd_node i f st" st] assms(1) by (simp_all add: frame_simps history_ok_def)
  with assms show ?thesis by (auto simp: history_ok_def nodes_upd_node)
qed

lemma refingerprint_history:
  assumes "history_ok st" "distinct_ids st"
  shows "history_ok (fst (refingerprint_node now i fp st))"
proof (cases "\<exists>n. node_of st i = Some n \<and> nd_fingerprint n \<noteq> fp")
  case False
  then have "node_of st i = None \<or> (\<exists>n. node_of st i = Some n \<and> nd_fingerprint n = fp)"
    by (cases "node_of st i") auto
  with assms show ?thesis by (simp add: refingerprint_noop)
next
  case True
  then obtain n where n: "node_of st i = Some n" "nd_fingerprint n \<noteq> fp" by blast
  define base where "base = base_of (nd_pool n)"
  define target where "target = target_pool st i (nd_pool n) fp"
  define st1 where "st1 = upd_node i (\<lambda>r. r\<lparr>nd_fingerprint := fp, nd_pool := target\<rparr>) st"
  define st2 where "st2 = st1\<lparr>sandboxes :=
      upd_where (\<lambda>s. sb_node_id s = i) (\<lambda>s. s\<lparr>sb_pool := target\<rparr>) (sandboxes st1)\<rparr>"
  define st3 where "st3 = note_pool now i target st2"
  have res: "fst (refingerprint_node now i fp st) =
      (if target = base then rejoin now (derived_pool base fp) base st3 else st3)"
    using n by (simp add: refingerprint_node_def Let_def st1_def st2_def st3_def target_def
        target_pool_def base_def)
  have np: "node_pools st2 = node_pools st" by (simp add: st2_def st1_def frame_simps)
  have c2: "all_chains st2" "last_pool st2 = last_pool st"
    using history_frame [OF np] assms(1) by (simp_all add: history_ok_def)
  have nodes3: "nodes st3 = upd_where (\<lambda>r. nd_id r = i) (\<lambda>r. r\<lparr>nd_fingerprint := fp, nd_pool := target\<rparr>) (nodes st)"
    by (simp add: st3_def st2_def frame_simps) (simp add: st1_def upd_node_def)
  have d3: "distinct_ids st3"
    using assms(2) by (simp add: distinct_ids_def nodes3 map_key_upd_where)
  have "\<forall>r \<in> set (nodes st3). last_pool st3 (nd_id r) = Some (nd_pool r)"
    unfolding nodes3
    by (rule all_upd_where) (use assms(1) in \<open>auto simp: st3_def note_pool_last [OF c2(1)] c2(2) history_ok_def\<close>)
  then have h3: "history_ok st3"
    using note_pool_chains [OF c2(1)] by (simp add: history_ok_def st3_def)
  show ?thesis using h3 d3 by (simp add: res rejoin_history_ok)
qed

section \<open>Reachable fleets\<close>

text \<open>
  The steps are the handlers that write the nodes table or the registration tokens, and any
  other step that leaves those and the history alone. \<open>F\<close> is the set of fingerprints the hosts
  report; a pool an operator names has no \<^verbatim>\<open>#\<close>.
\<close>

inductive fleet :: "string set \<Rightarrow> master \<Rightarrow> bool" for F where
  start: "fleet F (default_options empty_store)"
| token: "fleet F ms \<Longrightarrow> \<not> contains_char pool (CHR ''#'') \<Longrightarrow>
    fleet F (fst (api_create_node_token secret now pool ttl ms))"
| registered: "fleet F ms \<Longrightarrow> rg_fingerprint req \<in> F \<Longrightarrow> fleet F (fst (register issue now req ms))"
| added: "fleet F ms \<Longrightarrow> \<not> contains_char (ad_pool req) (CHR ''#'') \<Longrightarrow>
    (\<And>a p s about. hello a p s = Inr about \<Longrightarrow> ah_fingerprint about \<in> F) \<Longrightarrow>
    fleet F (fst (add_node hello now req ms))"
| reported: "fleet F ms \<Longrightarrow> fp \<in> F \<Longrightarrow>
    fleet F (on_store (\<lambda>st. fst (refingerprint_node now i fp st)) ms)"
| revoked: "fleet F ms \<Longrightarrow> fleet F (fst (api_revoke_node i ms))"
| health: "fleet F ms \<Longrightarrow> fleet F (on_store (set_node_health now i free psi) ms)"
| host: "fleet F ms \<Longrightarrow> fleet F (record_host i h ms)"
| other: "fleet F ms \<Longrightarrow> nodes (m_store ms') = nodes (m_store ms) \<Longrightarrow>
    node_tokens (m_store ms') = node_tokens (m_store ms) \<Longrightarrow>
    node_pools (m_store ms') = node_pools (m_store ms) \<Longrightarrow> fleet F ms'"

definition plain_tokens :: "store \<Rightarrow> bool" where
  "plain_tokens st \<longleftrightarrow> (\<forall>t \<in> set (node_tokens st). \<not> contains_char (tk_pool t) (CHR ''#''))"

definition fleet_ok :: "string set \<Rightarrow> store \<Rightarrow> bool" where
  "fleet_ok F st \<longleftrightarrow> distinct_ids st \<and> homogeneous st \<and> labelled st \<and> history_ok st \<and>
     fingerprints st \<subseteq> F \<and> plain_tokens st"

lemma keeps_fleet_ok:
  assumes "fleet_ok F st"
    and f: "\<And>n. nd_id (f n) = nd_id n" "\<And>n. nd_pool (f n) = nd_pool n"
      "\<And>n. nd_fingerprint (f n) = nd_fingerprint n" "\<And>n. nd_revoked n \<Longrightarrow> nd_revoked (f n)"
  shows "fleet_ok F (upd_node i f st)"
proof -
  have "homogeneous (upd_node i f st)"
  proof -
    have "\<exists>n \<in> set (nodes st). nd_pool r = nd_pool n \<and> nd_fingerprint r = nd_fingerprint n \<and> (nd_revoked n \<longrightarrow> nd_revoked r)"
      if "r \<in> set (nodes (upd_node i f st))" for r
      using that f by (fastforce simp: nodes_upd_node)
    with assms(1) show ?thesis unfolding fleet_ok_def homogeneous_def by metis
  qed
  moreover have "labelled (upd_node i f st)"
    using assms(1) f by (auto simp: fleet_ok_def labelled_def nodes_upd_node)
  moreover have "fingerprints (upd_node i f st) \<subseteq> F"
    using assms(1) f by (auto simp: fleet_ok_def fingerprints_def nodes_upd_node)
  ultimately show ?thesis
    using assms(1) f distinct_ids_upd [of st f i] upd_node_history [of st f i]
    by (simp add: fleet_ok_def plain_tokens_def frame_simps)
qed

lemma enrol_fleet_ok:
  assumes "fleet_ok F st" "\<not> contains_char asked (CHR ''#'')" "fp \<in> F" "inj_on eight F"
    and f: "\<And>n. nd_id (f n) = nd_id n" "\<And>n. nd_pool (f n) = nd_pool n"
      "\<And>n. nd_fingerprint (f n) = nd_fingerprint n"
  shows "fleet_ok F (upd_node i f (enrol now asked i fp cap up st))"
proof -
  have inj: "inj_on eight (insert fp (fingerprints st))"
    using assms(1,3) by (intro inj_on_subset [OF assms(4)]) (simp add: fleet_ok_def)
  have "nd_fingerprint r \<in> F" if "r \<in> set (nodes (enrol now asked i fp cap up st))" for r
    using upsert_origin [OF that [unfolded enrol_def]] assms(1,3)
    by (auto simp: fleet_ok_def fingerprints_def joining_node_def)
  then have "fingerprints (upd_node i f (enrol now asked i fp cap up st)) \<subseteq> F"
    using f by (auto simp: fingerprints_def nodes_upd_node)
  moreover have "node_tokens (enrol now asked i fp cap up st) = node_tokens st"
    by (simp add: enrol_def upsert_node_def frame_simps split: option.split)
  ultimately show ?thesis
    using assms(1) enrol_keeps [OF _ _ assms(2) inj f, of i now cap up]
      upd_node_history [OF _ f(1,2)] distinct_ids_upd [OF _ f(1)]
    by (simp add: fleet_ok_def plain_tokens_def frame_simps enrol_def upsert_history distinct_ids_upsert)
qed

lemma refingerprint_tokens:
  "plain_tokens st \<Longrightarrow> plain_tokens (fst (refingerprint_node now i fp st))"
proof -
  have rj: "plain_tokens (rejoin now d b s)" if "plain_tokens s" "\<not> contains_char b (CHR ''#'')" for d b s
  proof -
    have "node_tokens (fold (\<lambda>n s. note_pool now n b (upd_node n f s)) ids s) = node_tokens s" for f ids
      by (induction ids arbitrary: s) (simp_all add: frame_simps)
    then have eq: "node_tokens (rejoin now d b s) =
        upd_where (\<lambda>t. tk_pool t = d) (\<lambda>t. t\<lparr>tk_pool := b\<rparr>) (node_tokens s)"
      by (simp add: rejoin_def Let_def)
    show ?thesis
      unfolding plain_tokens_def eq by (rule all_upd_where) (use that in \<open>auto simp: plain_tokens_def\<close>)
  qed
  assume st: "plain_tokens st"
  have "plain_tokens (note_pool now i p (upd_node i f st\<lparr>sandboxes := sb\<rparr>))" for p f sb
    using st by (simp add: plain_tokens_def frame_simps)
  with st show ?thesis
    by (cases "node_of st i") (auto simp: refingerprint_node_def Let_def rj)
qed

lemma refingerprint_fleet_ok:
  assumes "fleet_ok F st" "fp \<in> F" "inj_on eight F"
  shows "fleet_ok F (fst (refingerprint_node now i fp st))"
proof -
  have inj: "inj_on eight (insert fp (fingerprints st))"
    using assms(1,2) by (intro inj_on_subset [OF assms(3)]) (simp add: fleet_ok_def)
  let ?st' = "fst (refingerprint_node now i fp st)"
  have fps: "nd_fingerprint r \<in> F \<and> nd_id r \<in> nd_id ` set (nodes st)" if r: "r \<in> set (nodes ?st')" for r
  proof (cases "\<exists>n. node_of st i = Some n \<and> nd_fingerprint n \<noteq> fp")
    case True
    then obtain n where "node_of st i = Some n" "nd_fingerprint n \<noteq> fp" by blast
    from refingerprint_origin [OF _ this refl refl r] assms(1,2) show ?thesis
      by (auto simp: fleet_ok_def fingerprints_def split: if_splits)
  next
    case False
    then have "?st' = st" by (cases "node_of st i") (auto simp: refingerprint_noop)
    with r assms(1) show ?thesis by (auto simp: fleet_ok_def fingerprints_def)
  qed
  have "map nd_id (nodes ?st') = map nd_id (nodes st)"
  proof (cases "\<exists>n. node_of st i = Some n \<and> nd_fingerprint n \<noteq> fp")
    case True
    then obtain n where "node_of st i = Some n" "nd_fingerprint n \<noteq> fp" by blast
    from nodes_refingerprint [OF _ this refl] assms(1) show ?thesis
      by (simp add: fleet_ok_def Let_def map_key_upd_where)
  next
    case False
    then show ?thesis by (cases "node_of st i") (auto simp: refingerprint_noop)
  qed
  then have "distinct_ids ?st'" using assms(1) by (simp add: distinct_ids_def fleet_ok_def)
  with assms(1) fps refingerprint_keeps [OF _ _ _ inj, of now i] refingerprint_history [of st now i fp]
    refingerprint_tokens [of st now i fp]
  show ?thesis by (auto simp: fleet_ok_def fingerprints_def)
qed

lemma redeem_store:
  "nodes (fst (redeem_node_token now t n st)) = nodes st"
  "node_pools (fst (redeem_node_token now t n st)) = node_pools st"
  "plain_tokens st \<Longrightarrow> plain_tokens (fst (redeem_node_token now t n st))"
proof -
  show "nodes (fst (redeem_node_token now t n st)) = nodes st"
    "node_pools (fst (redeem_node_token now t n st)) = node_pools st"
    by (simp_all add: redeem_node_token_def Let_def split: option.split)
  assume p: "plain_tokens st"
  have "\<forall>x \<in> set (upd_where (\<lambda>r. tk_token r = t \<and> tk_consumed_at r = None)
      (\<lambda>r. r\<lparr>tk_consumed_at := Some now, tk_node_id := Some n\<rparr>) (node_tokens st)).
      \<not> contains_char (tk_pool x) (CHR ''#'')"
    by (rule all_upd_where) (use p in \<open>auto simp: plain_tokens_def\<close>)
  with p show "plain_tokens (fst (redeem_node_token now t n st))"
    by (simp add: redeem_node_token_def Let_def plain_tokens_def split: option.split)
qed

lemma fleet_ok_frame:
  assumes "fleet_ok F st" "nodes st' = nodes st" "node_pools st' = node_pools st" "plain_tokens st'"
  shows "fleet_ok F st'"
proof -
  have "last_pool st' = last_pool st" "all_chains st' = all_chains st"
    using history_frame [OF assms(3)] by blast+
  with assms show ?thesis
    unfolding fleet_ok_def distinct_ids_def homogeneous_def labelled_def history_ok_def fingerprints_def
    by metis
qed

lemma record_host_ok:
  assumes "fleet_ok F (m_store ms)"
  shows "fleet_ok F (m_store (record_host i h ms))"
proof -
  have "fleet_ok F (upd_node i (\<lambda>n. n\<lparr>nd_host := Some h\<rparr>) (m_store ms))"
    by (rule keeps_fleet_ok [OF assms]) simp_all
  with assms show ?thesis by (simp add: record_host_def on_store_def set_node_host_def)
qed

lemma redeemed_plain:
  "plain_tokens st \<Longrightarrow> redeem_node_token now t n st = (st', Some p) \<Longrightarrow> \<not> contains_char p (CHR ''#'')"
  using redeem_Some [of now t n st st' p] by (auto simp: plain_tokens_def)

lemma register_ok:
  assumes "fleet_ok F (m_store ms)" "rg_fingerprint req \<in> F" "inj_on eight F"
  shows "fleet_ok F (m_store (fst (register issue now req ms)))"
proof -
  obtain st p where r: "redeem_node_token now (snd (split_token (rg_token req))) (rg_node_id req) (m_store ms) = (st, p)"
    by (cases "redeem_node_token now (snd (split_token (rg_token req))) (rg_node_id req) (m_store ms)")
  have ok: "fleet_ok F st"
    using redeem_store [where now = now and t = "snd (split_token (rg_token req))" and n = "rg_node_id req"
        and st = "m_store ms"] assms(1)
    by (intro fleet_ok_frame [OF assms(1)]) (simp_all add: r fleet_ok_def)
  show ?thesis
  proof (cases "\<exists>asked cert. p = Some asked \<and> issue (rg_node_id req) = Inr cert")
    case False
    with ok show ?thesis
      by (cases p; cases "issue (rg_node_id req)")
        (auto simp: register_def register_redeem_def r Let_def)
  next
    case True
    then obtain asked cert where pc: "p = Some asked" "issue (rg_node_id req) = Inr cert" by blast
    with r redeemed_plain assms(1) have plain: "\<not> contains_char asked (CHR ''#'')"
      by (auto simp: fleet_ok_def)
    have "fleet_ok F (set_node_cert (rg_node_id req) cert (enrol now asked (rg_node_id req)
        (rg_fingerprint req) (rg_max_sandboxes req) True st))"
      unfolding set_node_cert_def
      by (rule enrol_fleet_ok [OF ok plain assms(2,3)]) simp_all
    then show ?thesis
      using pc record_host_ok
      by (simp add: register_def register_redeem_def r Let_def register_commit_def on_store_def
          enrol_def split: option.split)
  qed
qed

lemma add_node_ok:
  assumes "fleet_ok F (m_store ms)" "\<not> contains_char (ad_pool req) (CHR ''#'')" "inj_on eight F"
    and hello: "\<And>a p s about. hello a p s = Inr about \<Longrightarrow> ah_fingerprint about \<in> F"
  shows "fleet_ok F (m_store (fst (add_node hello now req ms)))"
proof -
  have commit: "fleet_ok F (m_store (add_node_commit now i (pool_for (m_store ms) (ad_pool req)
      (ah_fingerprint about)) address pin secret about ms))"
    if "ah_fingerprint about \<in> F" for i address pin secret about
  proof -
    have "fleet_ok F (set_node_agent i address pin secret (enrol now (ad_pool req) i
        (ah_fingerprint about) (ah_max_sandboxes about) False (m_store ms)))"
      unfolding set_node_agent_def
      by (rule enrol_fleet_ok [OF assms(1,2) that assms(3)]) simp_all
    then show ?thesis
      using record_host_ok
      by (simp add: add_node_commit_def Let_def on_store_def enrol_def frame_simps split: option.split)
  qed
  show ?thesis
    using assms(1) commit [OF hello]
    by (auto simp: add_node_def Let_def split: prod.split option.split sum.split)
qed

lemma revoke_ok: "fleet_ok F st \<Longrightarrow> fleet_ok F (fst (revoke_node i st))"
  unfolding revoke_node_def fst_conv by (rule keeps_fleet_ok) simp_all

lemma health_ok: "fleet_ok F st \<Longrightarrow> fleet_ok F (set_node_health now i free psi st)"
  unfolding set_node_health_def by (rule keeps_fleet_ok) simp_all

lemma token_ok:
  assumes "fleet_ok F (m_store ms)" "\<not> contains_char pool (CHR ''#'')"
  shows "fleet_ok F (m_store (fst (api_create_node_token secret now pool ttl ms)))"
proof (cases "create_node_token now secret pool ttl (m_store ms)")
  case (Inr st)
  then have st: "st = m_store ms\<lparr>node_tokens := node_tokens (m_store ms) @ [\<lparr>tk_token = secret,
      tk_pool = pool, tk_expires_at = now + ttl, tk_consumed_at = None, tk_node_id = None\<rparr>]\<rparr>"
    by (simp add: create_node_token_def split: if_splits)
  have "fleet_ok F st"
    using assms by (intro fleet_ok_frame [OF assms(1)]) (auto simp: st fleet_ok_def plain_tokens_def)
  with Inr show ?thesis by (simp add: api_create_node_token_def)
qed (use assms in \<open>simp add: api_create_node_token_def\<close>)

lemma empty_fleet_ok: "fleet_ok F empty_store"
  by (simp add: fleet_ok_def distinct_ids_def homogeneous_def labelled_def history_ok_def
      all_chains_def node_history_def fingerprints_def plain_tokens_def empty_store_def)

lemma fleet_invariant: "fleet F ms \<Longrightarrow> inj_on eight F \<Longrightarrow> fleet_ok F (m_store ms)"
proof (induction rule: fleet.induct)
  case start
  then show ?case by (simp add: default_options_def empty_fleet_ok)
next
  case (revoked ms i)
  then show ?case
    using revoke_ok [of F "m_store ms" i]
    by (auto simp: api_revoke_node_def frame_simps Let_def split: prod.split)
next
  case (other ms ms')
  then have ok: "fleet_ok F (m_store ms)" by blast
  then have "plain_tokens (m_store ms')"
    using other.hyps(3) unfolding fleet_ok_def plain_tokens_def by metis
  then show ?case by (rule fleet_ok_frame [OF ok other.hyps(2) other.hyps(4)])
qed (simp_all add: token_ok register_ok add_node_ok on_store_def refingerprint_fleet_ok health_ok
       record_host_ok)

section \<open>Properties\<close>

text \<open>
  C5. A pool is a migration domain. In every state the fleet can reach by tokens, registrations
  taken whole, additions by address, fingerprint reports, revocations and health reports, two
  nodes in the same pool that are not revoked have the same fingerprint -- provided the first
  eight characters tell the hosts' fingerprints apart and no operator names a pool with a
  \<^verbatim>\<open>#\<close> in it.
\<close>

theorem pools_are_homogeneous:
  assumes "fleet F ms" "inj_on eight F"
    and "a \<in> set (nodes (m_store ms))" "b \<in> set (nodes (m_store ms))"
    and "\<not> nd_revoked a" "\<not> nd_revoked b" "nd_pool a = nd_pool b"
  shows "nd_fingerprint a = nd_fingerprint b"
  using fleet_invariant [OF assms(1,2)] assms(3-) unfolding fleet_ok_def homogeneous_def by blast

text \<open>
  C23. The history of pools is complete. In every reachable fleet the stretches of a node abut,
  each closed at the moment the next begins, exactly the last is open, and it names the pool
  the node is in.
\<close>

theorem pool_history_is_a_chain:
  assumes "fleet F ms" "inj_on eight F" "n \<in> set (nodes (m_store ms))"
  shows "chain (node_history (m_store ms) (nd_id n)) \<and> node_history (m_store ms) (nd_id n) \<noteq> [] \<and>
    ps_pool (last (node_history (m_store ms) (nd_id n))) = nd_pool n"
  using fleet_invariant [OF assms(1,2)] assms(3)
  by (auto simp: fleet_ok_def history_ok_def all_chains_def last_pool_def split: if_splits)

text \<open>
  Two registrations that come between each other's steps mix a pool: each chooses the
  pool while the other has not written its row, since the store's lock is released between
  the choice and the write, and both join the same pool with different fingerprints.
\<close>

theorem interleaved_registrations_mix_a_pool:
  assumes "pool_for (m_store ms) p (rg_fingerprint ra) = p" "pool_for (m_store ms) p (rg_fingerprint rb) = p"
    and "rg_fingerprint ra \<noteq> rg_fingerprint rb" "rg_node_id ra \<noteq> rg_node_id rb"
    and "rg_host ra = None" "rg_host rb = None"
    and "node_of (m_store ms) (rg_node_id ra) = None" "node_of (m_store ms) (rg_node_id rb) = None"
  shows "\<not> homogeneous (m_store
    (register_commit now rb (pool_for (m_store ms) p (rg_fingerprint rb)) cb
      (register_commit now ra (pool_for (m_store ms) p (rg_fingerprint ra)) ca ms)))"
proof -
  define st where "st = m_store (register_commit now rb p cb (register_commit now ra p ca ms))"
  have new: "nodes (set_node_cert i c (upsert_node now (joining_node now i p fp cap True) s)) =
      nodes s @ [(new_node_row (joining_node now i p fp cap True))\<lparr>nd_cert_sha256 := Some c, nd_revoked := False\<rparr>]"
    if none: "node_of s i = None" for i c fp cap s
  proof -
    have "nodes (upsert_node now (joining_node now i p fp cap True) s) =
        nodes s @ [new_node_row (joining_node now i p fp cap True)]"
      using none by (simp add: nodes_upsert_node joining_node_def)
    moreover have "upd_where (\<lambda>n. nd_id n = i) f (nodes s) = nodes s" for f
      using none by (intro upd_where_none) (simp add: node_of_None)
    ultimately show ?thesis
      by (simp add: set_node_cert_def upd_node_def) (simp add: upd_where_def new_node_row_def joining_node_def)
  qed
  define st1 where "st1 = m_store (register_commit now ra p ca ms)"
  have st1: "nodes st1 = nodes (m_store ms)
      @ [(new_node_row (joining_node now (rg_node_id ra) p (rg_fingerprint ra) (rg_max_sandboxes ra) True))
           \<lparr>nd_cert_sha256 := Some ca, nd_revoked := False\<rparr>]"
    using assms(5,7) by (simp add: st1_def register_commit_def Let_def on_store_def new)
  have "node_of st1 (rg_node_id rb) = None"
    using assms(4,8) by (auto simp: node_of_None st1 new_node_row_def joining_node_def)
  then have nodes: "nodes st = nodes st1
      @ [(new_node_row (joining_node now (rg_node_id rb) p (rg_fingerprint rb) (rg_max_sandboxes rb) True))
           \<lparr>nd_cert_sha256 := Some cb, nd_revoked := False\<rparr>]"
    using assms(6) new [of st1] by (simp add: st_def st1_def register_commit_def Let_def on_store_def)
  have "\<not> homogeneous st"
    using assms(3) unfolding homogeneous_def nodes st1
    by (auto simp: new_node_row_def joining_node_def)
  then show ?thesis by (simp add: st_def assms(1,2))
qed

text \<open>
  A changed fingerprint does not place a node as registration would: the only node of a
  pool that reports a new fingerprint keeps the pool, while registering again would move it to
  the derived pool, because registration compares the node with its own old row.
\<close>

theorem sole_node_upgrade_placed_differently:
  assumes "nodes st = [n]" "\<not> nd_revoked n" "nd_fingerprint n \<noteq> fp" "\<not> contains_char (nd_pool n) (CHR ''#'')"
  shows "map nd_pool (nodes (fst (refingerprint_node now (nd_id n) fp st))) = [nd_pool n] \<and>
         pool_for st (nd_pool n) fp = derived_pool (nd_pool n) fp"
proof
  have n: "node_of st (nd_id n) = Some n" "distinct_ids st"
    using assms(1) by (simp_all add: node_of_def row_of_def distinct_ids_def)
  have base: "base_of (nd_pool n) = nd_pool n"
    using assms(4) by (simp add: base_of_def contains_char_def before_char_id)
  have "other_fingerprints st (nd_pool n) (nd_id n) = []"
    using assms(1) by (simp add: other_fingerprints_def)
  then have "target_pool st (nd_id n) (nd_pool n) fp = nd_pool n"
    by (simp add: target_pool_def base)
  with nodes_refingerprint [OF n(2,1) assms(3) refl, of now]
  show "map nd_pool (nodes (fst (refingerprint_node now (nd_id n) fp st))) = [nd_pool n]"
    by (simp add: base assms(1) Let_def upd_where_def)
  show "pool_for st (nd_pool n) fp = derived_pool (nd_pool n) fp"
    using assms(1-3) by (simp add: pool_for_def pool_fingerprints_def)
qed

text \<open>
  The pool a changed fingerprint derives is not checked: when another node of the named
  pool still has another fingerprint, the node joins the derived pool whatever the nodes
  already there run, and mixes it with one that got that name from an operator's token.
\<close>

theorem derived_pool_joined_unchecked:
  assumes "distinct_ids st" "node_of st i = Some n" "nd_fingerprint n \<noteq> fp" "\<not> nd_revoked n"
    and "r \<in> set (nodes st)" "nd_id r \<noteq> i" "nd_pool r = base_of (nd_pool n)" "nd_fingerprint r \<noteq> fp" "\<not> nd_revoked r"
    and "x \<in> set (nodes st)" "nd_id x \<noteq> i" "nd_pool x = derived_pool (base_of (nd_pool n)) fp"
      "nd_fingerprint x \<noteq> fp" "\<not> nd_revoked x"
  shows "\<not> homogeneous (fst (refingerprint_node now i fp st))"
proof -
  define st' where "st' = fst (refingerprint_node now i fp st)"
  have "nd_fingerprint r \<in> set (other_fingerprints st (base_of (nd_pool n)) i)"
    using assms(5-9) by (auto simp: other_fingerprints_def)
  with assms(8) have target: "target_pool st i (nd_pool n) fp = derived_pool (base_of (nd_pool n)) fp"
    by (auto simp: target_pool_def list_all_iff)
  define f where "f = (\<lambda>r :: node_row. r\<lparr>nd_fingerprint := fp, nd_pool := derived_pool (base_of (nd_pool n)) fp\<rparr>)"
  have nodes: "nodes st' = upd_where (\<lambda>r. nd_id r = i) f (nodes st)"
    using nodes_refingerprint [OF assms(1-3) target [symmetric], of now] by (simp add: st'_def f_def Let_def)
  have n: "n \<in> set (nodes st)" "nd_id n = i" using node_of_Some [OF assms(2)] by auto
  have fn: "f n \<in> set (nodes st')" unfolding nodes set_upd_where by (rule image_eqI [OF _ n(1)]) (simp add: n(2))
  have x: "x \<in> set (nodes st')" unfolding nodes set_upd_where by (rule image_eqI [OF _ assms(10)]) (simp add: assms(11))
  have "\<not> homogeneous st'"
  proof
    assume "homogeneous st'"
    moreover have "\<not> nd_revoked (f n)" "nd_pool (f n) = nd_pool x"
      by (simp_all add: f_def assms(4,12))
    ultimately have "nd_fingerprint (f n) = nd_fingerprint x"
      using fn x assms(14) unfolding homogeneous_def by blast
    with assms(13) show False by (simp add: f_def)
  qed
  then show ?thesis by (simp add: st'_def)
qed

section \<open>Witnesses\<close>

definition join_req :: "string \<Rightarrow> string \<Rightarrow> string \<Rightarrow> register_request" where
  "join_req tok i fp = \<lparr>rg_token = tok, rg_node_id = i, rg_fingerprint = fp, rg_max_sandboxes = 0, rg_host = None\<rparr>"

definition joined :: "string \<Rightarrow> string \<Rightarrow> master \<Rightarrow> master" where
  "joined i fp ms = fst (register (\<lambda>i. Inr (''cert-'' @ i)) 10 (join_req (''t-'' @ i) i fp)
     (fst (api_create_node_token (''t-'' @ i) 9 ''default'' 900 ms)))"

definition two_nodes :: master where
  "two_nodes = joined ''b'' ''v1'' (joined ''a'' ''v1'' (default_options empty_store))"

lemma joined_fleet:
  assumes "fleet F ms" "fp \<in> F"
  shows "fleet F (joined i fp ms)"
  unfolding joined_def
  by (rule fleet.registered, rule fleet.token [OF assms(1)])
    (simp_all add: contains_char_def join_req_def assms(2))

lemmas join_eval = joined_def register_def register_redeem_def register_commit_def join_req_def
  api_create_node_token_def create_node_token_def redeem_node_token_def redeemable_def
  upd_where_def changed_def split_token_def split_once_def TOKEN_SEP_def default_options_def
  empty_store_def on_store_def pool_for_def pool_fingerprints_def set_node_cert_def upsert_node_def
  joining_node_def node_of_def row_of_def upd_node_def new_node_row_def note_pool_def is_open_def
  before_char_def Let_def

lemma one_node_eval: "joined ''a'' ''v1'' (default_options empty_store) =
  (default_options empty_store)\<lparr>m_store := empty_store\<lparr>
     nodes := [(new_node_row (joining_node 10 ''a'' ''default'' ''v1'' 0 True))\<lparr>nd_cert_sha256 := Some ''cert-a''\<rparr>],
     node_pools := [\<lparr>ps_node = ''a'', ps_pool = ''default'', ps_since = 10, ps_until = None\<rparr>],
     node_tokens := [\<lparr>tk_token = ''t-a'', tk_pool = ''default'', tk_expires_at = 909,
       tk_consumed_at = Some 10, tk_node_id = Some ''a''\<rparr>]\<rparr>\<rparr>"
  by (simp add: join_eval)

lemma two_nodes_rows: "nodes (m_store two_nodes) =
  [(new_node_row (joining_node 10 ''a'' ''default'' ''v1'' 0 True))\<lparr>nd_cert_sha256 := Some ''cert-a''\<rparr>,
   (new_node_row (joining_node 10 ''b'' ''default'' ''v1'' 0 True))\<lparr>nd_cert_sha256 := Some ''cert-b''\<rparr>]"
  unfolding two_nodes_def one_node_eval by (simp add: join_eval)

lemma two_nodes_fleet: "fleet {''v1'', ''v2''} two_nodes"
  unfolding two_nodes_def by (intro joined_fleet fleet.start) simp_all

lemma v1_v2_inj: "inj_on eight {''v1'', ''v2''}"
  by (simp add: inj_on_def eight_def)

theorem pools_are_homogeneous_witness:
  "nd_fingerprint (hd (nodes (m_store two_nodes))) = nd_fingerprint (last (nodes (m_store two_nodes)))"
proof -
  have in_rows: "hd (nodes (m_store two_nodes)) \<in> set (nodes (m_store two_nodes))"
    "last (nodes (m_store two_nodes)) \<in> set (nodes (m_store two_nodes))"
    by (simp_all add: two_nodes_rows)
  have "\<forall>a \<in> set (nodes (m_store two_nodes)). \<not> nd_revoked a \<and> nd_pool a = ''default''"
    by (simp add: two_nodes_rows new_node_row_def joining_node_def)
  then show ?thesis
    by (intro pools_are_homogeneous [OF two_nodes_fleet v1_v2_inj in_rows]) (simp_all add: in_rows)
qed

theorem pool_history_is_a_chain_witness:
  "node_history (m_store two_nodes) ''b'' \<noteq> [] \<and>
   ps_pool (last (node_history (m_store two_nodes) ''b'')) = ''default''"
proof -
  let ?b = "(new_node_row (joining_node 10 ''b'' ''default'' ''v1'' 0 True))\<lparr>nd_cert_sha256 := Some ''cert-b''\<rparr>"
  have "?b \<in> set (nodes (m_store two_nodes))" by (simp add: two_nodes_rows)
  from pool_history_is_a_chain [OF two_nodes_fleet v1_v2_inj this] show ?thesis
    by (simp add: new_node_row_def joining_node_def)
qed

theorem interleaved_registrations_mix_a_pool_witness:
  "\<not> homogeneous (m_store (register_commit 5 (join_req ''t2'' ''b'' ''v2'') ''default'' ''c2''
     (register_commit 5 (join_req ''t1'' ''a'' ''v1'') ''default'' ''c1'' (default_options empty_store))))"
proof -
  have empty: "pool_for (m_store (default_options empty_store)) ''default'' f = ''default''" for f
    by (simp add: pool_for_def pool_fingerprints_def default_options_def empty_store_def)
  have none: "node_of (m_store (default_options empty_store)) i = None" for i
    by (simp add: node_of_def row_of_def default_options_def empty_store_def)
  have "\<not> homogeneous (m_store
    (register_commit 5 (join_req ''t2'' ''b'' ''v2'')
        (pool_for (m_store (default_options empty_store)) ''default'' (rg_fingerprint (join_req ''t2'' ''b'' ''v2''))) ''c2''
      (register_commit 5 (join_req ''t1'' ''a'' ''v1'')
        (pool_for (m_store (default_options empty_store)) ''default'' (rg_fingerprint (join_req ''t1'' ''a'' ''v1''))) ''c1''
          (default_options empty_store))))"
    by (rule interleaved_registrations_mix_a_pool [OF empty empty]) (simp_all add: join_req_def none)
  then show ?thesis by (simp add: empty)
qed

definition lone_node :: store where
  "lone_node = empty_store\<lparr>nodes := [new_node_row (joining_node 10 ''a'' ''default'' ''v1'' 0 True)]\<rparr>"

theorem sole_node_upgrade_placed_differently_witness:
  "map nd_pool (nodes (fst (refingerprint_node 20 ''a'' ''v2'' lone_node))) = [''default''] \<and>
   pool_for lone_node ''default'' ''v2'' = ''default#v2''"
  using sole_node_upgrade_placed_differently
    [of lone_node "new_node_row (joining_node 10 ''a'' ''default'' ''v1'' 0 True)" "''v2''" 20]
  by (simp add: lone_node_def new_node_row_def joining_node_def contains_char_def derived_pool_def eight_def)

definition squatted :: store where
  "squatted = empty_store\<lparr>nodes :=
     [new_node_row (joining_node 10 ''a'' ''default'' ''v1'' 0 True),
      new_node_row (joining_node 10 ''b'' ''default'' ''v1'' 0 True),
      new_node_row (joining_node 10 ''c'' ''default#v2'' ''v3'' 0 True)]\<rparr>"

theorem derived_pool_joined_unchecked_witness:
  "\<not> homogeneous (fst (refingerprint_node 20 ''a'' ''v2'' squatted))"
  by (rule derived_pool_joined_unchecked
      [of squatted "''a''" "new_node_row (joining_node 10 ''a'' ''default'' ''v1'' 0 True)" "''v2''"
        "new_node_row (joining_node 10 ''b'' ''default'' ''v1'' 0 True)"
        "new_node_row (joining_node 10 ''c'' ''default#v2'' ''v3'' 0 True)" 20])
    (simp_all add: squatted_def new_node_row_def joining_node_def distinct_ids_def node_of_def
      row_of_def base_of_def before_char_def derived_pool_def eight_def)

end
