(* ===== verification/Templates.thy ===== *)
theory Templates
  imports MasterState
begin

text \<open>
  Templates made from images (\<^verbatim>\<open>pulls_for\<close>, \<^verbatim>\<open>finished_spec\<close>, \<^verbatim>\<open>pull_template\<close> of
  \<^verbatim>\<open>master/api.rs\<close>). A template's spec is stored as text; \<^verbatim>\<open>serde_json\<close> is the parameter
  \<open>codec\<close>, a parser and a printer of which the properties assume that the parser reads what
  the printer wrote. Objects list their keys in order, as \<^verbatim>\<open>serde_json::Map\<close> keeps them.
\<close>

record codec =
  from_str :: "string \<Rightarrow> json option"
  to_str :: "json \<Rightarrow> string"

definition codec_reads :: "codec \<Rightarrow> json \<Rightarrow> bool" where
  "codec_reads cj v \<longleftrightarrow> from_str cj (to_str cj v) = Some v"

section \<open>JSON values\<close>

definition json_get :: "json \<Rightarrow> string \<Rightarrow> json option" where
  "json_get v k = (case v of JObj kvs \<Rightarrow> map_of kvs k | _ \<Rightarrow> None)"

text \<open>\<^verbatim>\<open>v[k]\<close>, which is null where there is no such key.\<close>

definition json_index :: "json \<Rightarrow> string \<Rightarrow> json" where
  "json_index v k = (case json_get v k of Some x \<Rightarrow> x | None \<Rightarrow> JNull)"

fun as_array :: "json \<Rightarrow> json list option" where
  "as_array (JArr xs) = Some xs"
| "as_array _ = None"

fun as_json_str :: "json \<Rightarrow> string option" where
  "as_json_str (JStr s) = Some s"
| "as_json_str _ = None"

fun obj_insert :: "string \<Rightarrow> json \<Rightarrow> (string \<times> json) list \<Rightarrow> (string \<times> json) list" where
  "obj_insert k v [] = [(k, v)]"
| "obj_insert k v ((j, w) # r) =
     (if j = k then (k, v) # r else if k < j then (k, v) # (j, w) # r else (j, w) # obj_insert k v r)"

definition nonempty_array :: "json \<Rightarrow> bool" where
  "nonempty_array v = (case as_array v of Some (_ # _) \<Rightarrow> True | _ \<Rightarrow> False)"

definition str_array :: "string list \<Rightarrow> json" where
  "str_array xs = JArr (map JStr xs)"

definition json_nat :: "nat \<Rightarrow> json" where
  "json_nat n = JNum (int n)"

fun json_port :: "u16 option \<Rightarrow> json" where
  "json_port None = JNull"
| "json_port (Some p) = JNum (uint p)"

fun json_opt_str :: "string option \<Rightarrow> json" where
  "json_opt_str None = JNull"
| "json_opt_str (Some s) = JStr s"

section \<open>Specs\<close>

definition is_pending :: "codec \<Rightarrow> string \<Rightarrow> bool" where
  "is_pending cj spec =
     (case from_str cj spec of Some v \<Rightarrow> json_index v ''pending'' = JBool True | None \<Rightarrow> False)"

definition spec_has_args :: "codec \<Rightarrow> string \<Rightarrow> bool" where
  "spec_has_args cj spec =
     (case from_str cj spec of Some v \<Rightarrow> nonempty_array (json_index v ''args'') | None \<Rightarrow> False)"

definition finished_value :: "codec \<Rightarrow> string \<Rightarrow> image_config \<Rightarrow> json" where
  "finished_value cj asked_text c =
     (let asked = (case from_str cj asked_text of Some v \<Rightarrow> v | None \<Rightarrow> JNull);
          args = (case json_get asked ''args'' of
                    Some a \<Rightarrow> if nonempty_array a then a else str_array (ic_args c)
                  | None \<Rightarrow> str_array (ic_args c));
          env = ic_env c @ List.map_filter as_json_str
                  (case as_array (json_index asked ''env'') of Some es \<Rightarrow> es | None \<Rightarrow> []);
          port = (case json_get asked ''port'' of
                    Some p \<Rightarrow> if p \<noteq> JNull then p else json_port (ic_port c)
                  | None \<Rightarrow> json_port (ic_port c))
      in JObj
           [(''args'', args), (''cwd'', json_opt_str (ic_cwd c)), (''env'', str_array env),
            (''memory_max_mib'', json_index asked ''memory_max_mib''), (''port'', port),
            (''ro_binds'', JArr [])])"

definition finished_spec :: "codec \<Rightarrow> string \<Rightarrow> image_config \<Rightarrow> string" where
  "finished_spec cj asked_text c = to_str cj (finished_value cj asked_text c)"

text \<open>What a caller asks a template to be made of.\<close>

record new_image_template =
  nt_name :: string
  nt_image :: string
  nt_memory_max_mib :: nat
  nt_args :: "string list"
  nt_env :: "string list"
  nt_port :: "u16 option"

definition asked_value :: "new_image_template \<Rightarrow> json" where
  "asked_value req = JObj
     [(''args'', str_array (nt_args req)), (''env'', str_array (nt_env req)),
      (''memory_max_mib'', json_nat (nt_memory_max_mib req)), (''pending'', JBool True),
      (''port'', json_port (nt_port req))]"

definition asked_spec :: "codec \<Rightarrow> new_image_template \<Rightarrow> string" where
  "asked_spec cj req = to_str cj (asked_value req)"

section \<open>Pulls\<close>

definition no_program :: string where
  "no_program = ''the image names no program; give args''"

definition pull_error :: "codec \<Rightarrow> string \<Rightarrow> template_pull \<Rightarrow> string option" where
  "pull_error cj spec p =
     (case tp_error p of
        Some e \<Rightarrow> Some e
      | None \<Rightarrow>
          (case tp_config p of
             None \<Rightarrow> None
           | Some c \<Rightarrow>
               if tp_done p \<and> ic_args c = [] \<and> \<not> spec_has_args cj spec then Some no_program else None))"

definition pull_step ::
  "codec \<Rightarrow> poll_request \<Rightarrow> string list \<Rightarrow> pull_row list \<Rightarrow> image_template \<Rightarrow> store \<times> command list
     \<Rightarrow> store \<times> command list" where
  "pull_step cj req installed before t acc =
     (case acc of (st, cmds) \<Rightarrow>
        (case find (\<lambda>p. tp_name p = it_name t \<and> tp_attempt p = it_attempt t) (pulls req) of
           Some p \<Rightarrow>
             let error = pull_error cj (it_spec t) p;
                 st1 = record_pull (it_name t) (pr_node_id req) (tp_attempt p) (tp_done p) error st;
                 st2 = (case (tp_config p, error) of
                          (Some c, None) \<Rightarrow>
                            if is_pending cj (it_spec t)
                            then set_template_spec (it_name t) (finished_spec cj (it_spec t) c) st1 else st1
                        | _ \<Rightarrow> st1)
             in (st2, cmds)
         | None \<Rightarrow>
             let failed = list_ex (\<lambda>p. pl_template p = it_name t \<and> pl_node_id p = pr_node_id req
                            \<and> pl_error p \<noteq> None) before
             in (st, if \<not> failed \<and> (it_name t \<notin> set installed \<or> is_pending cj (it_spec t))
                     then cmds @ [PullTemplate (it_name t) (it_image t) (it_attempt t)] else cmds)))"

definition pulls_for :: "codec \<Rightarrow> poll_request \<Rightarrow> store \<Rightarrow> store \<times> command list" where
  "pulls_for cj req st =
     (case pr_templates req of
        None \<Rightarrow> (st, [])
      | Some installed \<Rightarrow> fold (pull_step cj req installed (template_pulls st)) (image_templates st) (st, []))"

text \<open>\<open>parses\<close> is \<^verbatim>\<open>Reference::parse\<close> of \<^verbatim>\<open>node/images.rs\<close>.\<close>

definition pull_template ::
  "codec \<Rightarrow> (string \<Rightarrow> bool) \<Rightarrow> secs \<Rightarrow> new_image_template \<Rightarrow> master \<Rightarrow> master \<times> api_err option" where
  "pull_template cj parses now req ms =
     (if \<not> is_safe (nt_name req) then (ms, Some (err 400 ''not a plain name''))
      else if \<not> parses (nt_image req) then (ms, Some (err 400 ''not an image reference''))
      else let (st, fresh) = put_image_template now (nt_name req) (nt_image req) (asked_spec cj req) (m_store ms);
               ms1 = ms\<lparr>m_store := st\<rparr>
           in if \<not> fresh then (ms1, Some (err 409 ''already exists, from something else''))
              else (fold (\<lambda>n. wake_node (nd_id n)) (list_nodes st) ms1, None))"

definition api_put_template :: "codec \<Rightarrow> secs \<Rightarrow> string \<Rightarrow> string \<Rightarrow> json \<Rightarrow> master \<Rightarrow> master" where
  "api_put_template cj now name rootfs spec = on_store (put_template now name rootfs (to_str cj spec))"

datatype pull_state = Pulling | Ready | Failed

definition pull_state_of :: "bool \<Rightarrow> string option \<Rightarrow> pull_state" where
  "pull_state_of finished error =
     (case error of Some _ \<Rightarrow> Failed | None \<Rightarrow> if finished then Ready else Pulling)"

definition list_pulls ::
  "codec \<Rightarrow> store \<Rightarrow> (string \<times> string \<times> bool \<times> (string \<times> pull_state \<times> string option) list) list" where
  "list_pulls cj st =
     map (\<lambda>t. (it_name t, it_image t, \<not> is_pending cj (it_spec t),
               map (\<lambda>(_, n, d, e). (n, pull_state_of d e, e))
                 (filter (\<lambda>(tm, _). tm = it_name t) (list_template_pulls st))))
       (image_templates st)"

section \<open>Lemmas\<close>

lemma asked_spec_pending:
  "codec_reads cj (asked_value req) \<Longrightarrow> is_pending cj (asked_spec cj req)"
  by (simp add: is_pending_def asked_spec_def codec_reads_def asked_value_def json_index_def json_get_def)

lemma asked_spec_args:
  "codec_reads cj (asked_value req) \<Longrightarrow> spec_has_args cj (asked_spec cj req) \<longleftrightarrow> nt_args req \<noteq> []"
  by (cases "nt_args req")
    (simp_all add: spec_has_args_def asked_spec_def codec_reads_def asked_value_def json_index_def
      json_get_def str_array_def nonempty_array_def)

lemma finished_spec_not_pending:
  "codec_reads cj (finished_value cj s c) \<Longrightarrow> \<not> is_pending cj (finished_spec cj s c)"
  by (simp add: is_pending_def finished_spec_def codec_reads_def json_index_def json_get_def)
    (simp add: finished_value_def Let_def)

lemma finished_spec_args:
  assumes "codec_reads cj (finished_value cj s c)" "spec_has_args cj s \<or> ic_args c \<noteq> []"
  shows "spec_has_args cj (finished_spec cj s c)"
proof -
  have "nonempty_array (str_array (ic_args c))" if "ic_args c \<noteq> []"
    using that by (cases "ic_args c") (simp_all add: str_array_def nonempty_array_def)
  moreover have "\<not> nonempty_array JNull" by (simp add: nonempty_array_def)
  ultimately show ?thesis
    using assms
    by (auto simp: spec_has_args_def finished_spec_def codec_reads_def json_index_def
        finished_value_def Let_def json_get_def [of "JObj _"] split: option.splits)
qed

definition wants_pull :: "codec \<Rightarrow> poll_request \<Rightarrow> string list \<Rightarrow> pull_row list \<Rightarrow> image_template \<Rightarrow> bool" where
  "wants_pull cj req installed before t \<longleftrightarrow>
     \<not> (\<exists>p \<in> set (pulls req). tp_name p = it_name t \<and> tp_attempt p = it_attempt t) \<and>
     \<not> (\<exists>p \<in> set before. pl_template p = it_name t \<and> pl_node_id p = pr_node_id req \<and> pl_error p \<noteq> None) \<and>
     (it_name t \<notin> set installed \<or> is_pending cj (it_spec t))"

lemma pull_step_commands:
  "snd (pull_step cj req installed before t acc) =
     snd acc @ (if wants_pull cj req installed before t
                then [PullTemplate (it_name t) (it_image t) (it_attempt t)] else [])"
proof (cases "find (\<lambda>p. tp_name p = it_name t \<and> tp_attempt p = it_attempt t) (pulls req)")
  case None
  then have "\<not> (\<exists>p \<in> set (pulls req). tp_name p = it_name t \<and> tp_attempt p = it_attempt t)"
    by (auto simp: find_None_iff)
  with None show ?thesis
    by (simp add: pull_step_def wants_pull_def Let_def list_ex_iff split: prod.split)
next
  case (Some p)
  then have "p \<in> set (pulls req)" "tp_name p = it_name t" "tp_attempt p = it_attempt t"
    by (auto simp: find_Some_iff)
  then have "\<not> wants_pull cj req installed before t" unfolding wants_pull_def by blast
  with Some show ?thesis by (simp add: pull_step_def Let_def split: prod.split)
qed

lemma pull_fold_commands:
  "snd (fold (pull_step cj req installed before) ts acc) =
     snd acc @ map (\<lambda>t. PullTemplate (it_name t) (it_image t) (it_attempt t))
       (filter (wants_pull cj req installed before) ts)"
  by (induction ts arbitrary: acc) (simp_all add: pull_step_commands)

lemma record_pull_frame [frame_simps]:
  "templates (record_pull n i a d e st) = templates st" "nodes (record_pull n i a d e st) = nodes st"
  "sandboxes (record_pull n i a d e st) = sandboxes st" "snapshots (record_pull n i a d e st) = snapshots st"
  by (simp_all add: record_pull_def Let_def)

lemma set_template_spec_frame [frame_simps]:
  "nodes (set_template_spec n s st) = nodes st" "sandboxes (set_template_spec n s st) = sandboxes st"
  "snapshots (set_template_spec n s st) = snapshots st" "template_pulls (set_template_spec n s st) = template_pulls st"
  by (simp_all add: set_template_spec_def upd_template_def)

lemma pull_step_frame:
  "nodes (fst (pull_step cj req inst before t acc)) = nodes (fst acc)"
  "sandboxes (fst (pull_step cj req inst before t acc)) = sandboxes (fst acc)"
  "snapshots (fst (pull_step cj req inst before t acc)) = snapshots (fst acc)"
  by (simp_all add: pull_step_def Let_def frame_simps split: prod.split option.split)

lemma pulls_for_frame [frame_simps]:
  "nodes (fst (pulls_for cj req st)) = nodes st"
  "sandboxes (fst (pulls_for cj req st)) = sandboxes st"
  "snapshots (fst (pulls_for cj req st)) = snapshots st"
proof -
  have "nodes (fst (fold (pull_step cj req inst before) ts acc)) = nodes (fst acc)"
    "sandboxes (fst (fold (pull_step cj req inst before) ts acc)) = sandboxes (fst acc)"
    "snapshots (fst (fold (pull_step cj req inst before) ts acc)) = snapshots (fst acc)" for inst before ts acc
    by (induction ts arbitrary: acc) (simp_all add: pull_step_frame)
  then show "nodes (fst (pulls_for cj req st)) = nodes st"
    "sandboxes (fst (pulls_for cj req st)) = sandboxes st"
    "snapshots (fst (pulls_for cj req st)) = snapshots st"
    by (simp_all add: pulls_for_def split: option.split)
qed

lemma no_program_error:
  "tp_error p = None \<Longrightarrow> tp_config p = Some c \<Longrightarrow> tp_done p \<Longrightarrow> ic_args c = [] \<Longrightarrow>
   \<not> spec_has_args cj spec \<Longrightarrow> pull_error cj spec p = Some no_program"
  by (simp add: pull_error_def)

lemma wake_all_store: "m_store (fold (\<lambda>n. wake_node (nd_id n)) ns ms) = m_store ms"
  by (induction ns arbitrary: ms) (simp_all add: frame_simps)

section \<open>Properties\<close>

text \<open>
  Which images a node is told to pull, in the order of the templates' names: exactly the
  templates made from an image that the node reports nothing of at the current attempt, did
  not fail on this node since they were last asked for, and that the node lacks or whose spec
  no node has finished yet. A node that does not list its templates is told nothing.
\<close>

theorem pull_commands_exact:
  "snd (pulls_for cj req st) =
     (case pr_templates req of
        None \<Rightarrow> []
      | Some installed \<Rightarrow>
          map (\<lambda>t. PullTemplate (it_name t) (it_image t) (it_attempt t))
            (filter (wants_pull cj req installed (template_pulls st)) (image_templates st)))"
  by (simp add: pulls_for_def pull_fold_commands split: option.split)

text \<open>
  Asking again with a program does not help: when an image names no program, the pull
  fails saying to give args; a new request for the template with args is accepted and counts
  another attempt, but the stored spec is still the first one's, so the report of the new
  attempt fails with the same words.
\<close>

theorem retry_with_args_is_ignored:
  assumes "codec_reads cj (asked_value first_req)" "nt_args first_req = []"
    and "template_row_of (m_store ms) (nt_name req) = Some t"
    and "tm_image t = Some (nt_image req)" "tm_spec t = asked_spec cj first_req"
    and "is_safe (nt_name req)" "parses (nt_image req)" "ic_args c = []"
  shows "snd (pull_template cj parses now req ms) = None \<and>
    template_row_of (m_store (fst (pull_template cj parses now req ms))) (nt_name req)
      = Some (t\<lparr>tm_attempt := tm_attempt t + 1\<rparr>) \<and>
    pull_error cj (tm_spec (t\<lparr>tm_attempt := tm_attempt t + 1\<rparr>))
      (pull_done (nt_name req) (nt_image req) (tm_attempt t + 1) c) = Some no_program"
proof -
  have "\<not> spec_has_args cj (tm_spec t)"
    using asked_spec_args [OF assms(1)] assms(2,5) by simp
  then have "pull_error cj (tm_spec t) (pull_done (nt_name req) (nt_image req) (tm_attempt t + 1) c) = Some no_program"
    using assms(8) by (intro no_program_error) (simp_all add: pull_done_def pull_running_def)
  moreover have "template_row_of (m_store (fst (pull_template cj parses now req ms))) (nt_name req)
      = Some (t\<lparr>tm_attempt := tm_attempt t + 1\<rparr>)"
    using assms(3,4,6,7) by (simp add: pull_template_def put_image_template_def Let_def wake_all_store)
  moreover have "snd (pull_template cj parses now req ms) = None"
    using assms(3,4,6,7) by (simp add: pull_template_def put_image_template_def Let_def)
  ultimately show ?thesis by simp
qed

section \<open>Witnesses\<close>

definition toy_codec :: "json \<Rightarrow> codec" where
  "toy_codec v = \<lparr>from_str = (\<lambda>s. if s = ''spec'' then Some v else None), to_str = (\<lambda>_. ''spec'')\<rparr>"

definition ask_img :: "string list \<Rightarrow> new_image_template" where
  "ask_img args = \<lparr>nt_name = ''py'', nt_image = ''python'', nt_memory_max_mib = 512, nt_args = args,
     nt_env = [], nt_port = None\<rparr>"

definition py_row :: template_row where
  "py_row = \<lparr>tm_name = ''py'', tm_rootfs = ''rootfs'', tm_spec = ''spec'', tm_created_at = 1,
     tm_image = Some ''python'', tm_attempt = 1\<rparr>"

definition py_pulled :: store where
  "py_pulled = empty_store\<lparr>templates := [py_row]\<rparr>"

definition bare_config :: image_config where
  "bare_config = \<lparr>ic_args = [], ic_env = [], ic_cwd = None, ic_port = None\<rparr>"

theorem retry_with_args_is_ignored_witness:
  "pull_error (toy_codec (asked_value (ask_img []))) (tm_spec (py_row\<lparr>tm_attempt := 2\<rparr>))
     (pull_done ''py'' ''python'' 2 bare_config) = Some no_program"
proof -
  have "is_safe ''py''"
    by (simp add: is_safe_def contains_char_def starts_with_def contains_str_def sublist_code)
  then have "snd (pull_template (toy_codec (asked_value (ask_img []))) (\<lambda>_. True) 5
        (ask_img [''/bin/sh'']) (default_options py_pulled)) = None \<and>
      template_row_of (m_store (fst (pull_template (toy_codec (asked_value (ask_img []))) (\<lambda>_. True) 5
        (ask_img [''/bin/sh'']) (default_options py_pulled)))) (nt_name (ask_img [''/bin/sh'']))
        = Some (py_row\<lparr>tm_attempt := tm_attempt py_row + 1\<rparr>) \<and>
      pull_error (toy_codec (asked_value (ask_img []))) (tm_spec (py_row\<lparr>tm_attempt := tm_attempt py_row + 1\<rparr>))
        (pull_done (nt_name (ask_img [''/bin/sh''])) (nt_image (ask_img [''/bin/sh'']))
          (tm_attempt py_row + 1) bare_config) = Some no_program"
    by (intro retry_with_args_is_ignored [where first_req = "ask_img []"])
      (simp_all add: toy_codec_def codec_reads_def ask_img_def default_options_def py_pulled_def
        py_row_def template_row_of_def row_of_def asked_spec_def bare_config_def)
  then show ?thesis by (simp add: py_row_def ask_img_def numeral_2_eq_2)
qed

definition empty_report :: "string \<Rightarrow> poll_request" where
  "empty_report n = \<lparr>pr_node_id = n, pr_observed = [], free_memory_mib = 4096, pressure_some_avg10 = 0,
     hold_ms = None, failures = [], pr_deferred = [], traffic = [], evicted = [], features = [],
     pr_tags = [], pr_host = None, pr_fingerprint = None, pr_templates = None, pulls = []\<rparr>"

theorem pull_commands_exact_witness:
  "snd (pulls_for (toy_codec JNull) ((empty_report ''n1'')\<lparr>pr_templates := Some []\<rparr>) py_pulled)
     = [PullTemplate ''py'' ''python'' 1]"
  by (subst pull_commands_exact)
    (simp add: empty_report_def py_pulled_def py_row_def empty_store_def image_templates_def
      List.map_filter_def wants_pull_def)

end
