(* ===== verification/Bundle.thy ===== *)
theory Bundle
  imports Templates
begin

unbundle bit_operations_syntax

text \<open>
  \<^verbatim>\<open>node/bundle.rs\<close>: the OCI spec a node writes for a sandbox, from the part of a template an
  operator chooses. The spec is the JSON value the code builds. Whether a host path exists and
  whether the volume's directory can be made are arguments; a \<^verbatim>\<open>Path\<close> is its string, and the
  comparisons of \<^verbatim>\<open>std::path\<close> are over its components, as that module documents them.
  What \<^verbatim>\<open>build\<close>, \<^verbatim>\<open>unmount\<close> and \<^verbatim>\<open>teardown\<close> do to a sandbox's directories is in \<open>Lifecycle\<close>.
\<close>

type_synonym u64 = "64 word"

section \<open>Paths\<close>

text \<open>\<^verbatim>\<open>Path::components\<close>: the root, and the parts between slashes but empty ones and inner dots.\<close>

datatype path_part = Root | CurDir | ParentDir | Normal string

definition split_on :: "char \<Rightarrow> string \<Rightarrow> string list" where
  "split_on c s = foldr (\<lambda>x parts. if x = c then [] # parts
     else (case parts of p # ps \<Rightarrow> (x # p) # ps | [] \<Rightarrow> [[x]])) s [[]]"

definition part_of :: "string \<Rightarrow> path_part" where
  "part_of s = (if s = ''..'' then ParentDir else Normal s)"

definition components :: "string \<Rightarrow> path_part list" where
  "components p =
     (let parts = split_on CHR ''/'' p;
          rest = map part_of (filter (\<lambda>s. s \<noteq> [] \<and> s \<noteq> ''.'') parts)
      in case parts of
           [] # _ \<Rightarrow> (if p = [] then [] else Root # rest)
         | d # _ \<Rightarrow> (if d = ''.'' then CurDir # rest else rest)
         | [] \<Rightarrow> rest)"

definition path_starts_with :: "string \<Rightarrow> string \<Rightarrow> bool" where
  "path_starts_with p q \<longleftrightarrow> prefix (components q) (components p)"

definition path_eq :: "string \<Rightarrow> string \<Rightarrow> bool" where
  "path_eq p q \<longleftrightarrow> components p = components q"

section \<open>Templates and layouts\<close>

record template_spec =
  ts_args :: "string list"
  ts_env :: "string list"
  ts_cwd :: "string option"
  ts_ro_binds :: "string list"
  ts_memory_max_mib :: "u64 option"

definition default_ro_binds :: "string list" where
  "default_ro_binds = [''/usr'', ''/lib'', ''/lib64'', ''/bin'', ''/sbin'']"

definition FORBIDDEN_BINDS :: "string list" where
  "FORBIDDEN_BINDS = [''/etc'', ''/root'', ''/home'', ''/boot'', ''/var'', ''/run'', ''/proc'', ''/sys'', ''/dev'', ''/'']"

definition forbidden_bind :: "string \<Rightarrow> string option" where
  "forbidden_bind p = find (\<lambda>f. if f = ''/'' then path_eq p f else path_starts_with p f) FORBIDDEN_BINDS"

definition CAPS :: "string list" where
  "CAPS = [''CAP_CHOWN'', ''CAP_DAC_OVERRIDE'', ''CAP_FSETID'', ''CAP_FOWNER'', ''CAP_SETGID'',
     ''CAP_SETUID'', ''CAP_SETPCAP'', ''CAP_NET_BIND_SERVICE'', ''CAP_KILL'']"

text \<open>\<^verbatim>\<open>str::replace\<close>: from the left, without overlap.\<close>

function replace_str :: "string \<Rightarrow> string \<Rightarrow> string \<Rightarrow> string" where
  "replace_str pat rep s =
     (case s of
        [] \<Rightarrow> []
      | c # t \<Rightarrow> if pat \<noteq> [] \<and> prefix pat s then rep @ replace_str pat rep (drop (length pat - 1) t)
                 else c # replace_str pat rep t)"
  by pat_completeness auto
termination by (relation "measure (\<lambda>(_, _, s). length s)") auto

declare replace_str.simps [simp del]

definition shell_quote :: "string \<Rightarrow> string" where
  "shell_quote s = [CHR 0x27] @ replace_str [CHR 0x27] [CHR 0x27, CHR 0x5C, CHR 0x27, CHR 0x27] s @ [CHR 0x27]"

text \<open>\<^verbatim>\<open>mount_overlay\<close>: the options of the mount, or the path they cannot carry.\<close>

definition overlay_options :: "string \<Rightarrow> string \<Rightarrow> string \<Rightarrow> string \<Rightarrow> string + string" where
  "overlay_options lower upper work merged =
     (case find (\<lambda>s. contains_char s CHR '','' \<or> contains_char s CHR '':'') [lower, upper, work, merged] of
        Some s \<Rightarrow> Inl s
      | None \<Rightarrow> Inr (''lowerdir='' @ lower @ '',upperdir='' @ upper @ '',workdir='' @ work))"

section \<open>The OCI spec\<close>

datatype spec_error = NothingToRun | ForbiddenBind string string | NoVolume string

definition mount :: "string \<Rightarrow> string \<Rightarrow> string \<Rightarrow> string list \<Rightarrow> json" where
  "mount destination typ source options =
     JObj ([(''destination'', JStr destination), (''type'', JStr typ), (''source'', JStr source)] @
       (if options = [] then [] else [(''options'', str_array options)]))"

definition base_mounts :: "json list" where
  "base_mounts =
     [mount ''/proc'' ''proc'' ''proc'' [],
      mount ''/dev'' ''tmpfs'' ''tmpfs'' [''nosuid'', ''noexec'', ''strictatime'', ''mode=755'', ''size=65536k''],
      mount ''/dev/pts'' ''devpts'' ''devpts'' [''nosuid'', ''noexec'', ''newinstance'', ''ptmxmode=0666'', ''mode=0620''],
      mount ''/dev/shm'' ''tmpfs'' ''shm'' [''nosuid'', ''noexec'', ''nodev'', ''mode=1777'', ''size=65536k''],
      mount ''/sys'' ''sysfs'' ''sysfs'' [''nosuid'', ''noexec'', ''nodev'', ''ro''],
      mount ''/tmp'' ''tmpfs'' ''tmpfs'' [''nosuid'', ''nodev'', ''mode=1777'', ''size=262144k'']]"

definition ro_bind :: "string \<Rightarrow> json" where
  "ro_bind b = mount b ''bind'' b [''rbind'', ''ro'', ''nosuid'', ''nodev'']"

definition volume_bind :: "string \<Rightarrow> json" where
  "volume_bind v = mount ''/workspace'' ''bind'' v [''rbind'', ''rw'', ''nosuid'', ''nodev'']"

text \<open>The loop over the template's binds: the first forbidden one ends it, a missing one is skipped.\<close>

fun bind_mounts :: "(string \<Rightarrow> bool) \<Rightarrow> string list \<Rightarrow> spec_error + json list" where
  "bind_mounts path_exists [] = Inr []"
| "bind_mounts path_exists (b # bs) =
     (case forbidden_bind b of
        Some why \<Rightarrow> Inl (ForbiddenBind b why)
      | None \<Rightarrow>
          (case bind_mounts path_exists bs of
             Inl e \<Rightarrow> Inl e
           | Inr ms \<Rightarrow> Inr (if path_exists b then ro_bind b # ms else ms)))"

definition spec_mounts :: "(string \<Rightarrow> bool) \<Rightarrow> (string \<Rightarrow> bool) \<Rightarrow> template_spec \<Rightarrow> string option \<Rightarrow> spec_error + json list" where
  "spec_mounts path_exists mkdir_ok spec vol =
     (case bind_mounts path_exists (ts_ro_binds spec) of
        Inl e \<Rightarrow> Inl e
      | Inr binds \<Rightarrow>
          (case vol of
             None \<Rightarrow> Inr (base_mounts @ binds)
           | Some v \<Rightarrow> if mkdir_ok v then Inr (base_mounts @ binds @ [volume_bind v]) else Inl (NoVolume v)))"

definition namespaces :: "string option \<Rightarrow> json list" where
  "namespaces netns =
     map (\<lambda>t. JObj [(''type'', JStr t)]) [''pid'', ''ipc'', ''uts'', ''mount''] @
     [JObj ((''type'', JStr ''network'') # (case netns of Some p \<Rightarrow> [(''path'', JStr p)] | None \<Rightarrow> []))]"

text \<open>\<^verbatim>\<open>mib * 1024 * 1024\<close> in \<^verbatim>\<open>u64\<close>, in a build that does not check for overflow.\<close>

definition memory_limit_bytes :: "u64 \<Rightarrow> u64" where
  "memory_limit_bytes mib = mib * 1024 * 1024"

definition spec_args :: "template_spec \<Rightarrow> u16 \<Rightarrow> string list" where
  "spec_args spec port = map (replace_str ''{{PORT}}'' (dec (unat port))) (ts_args spec)"

definition spec_env :: "template_spec \<Rightarrow> string list" where
  "spec_env spec = [''PATH=/usr/local/sbin:/usr/local/bin:/usr/sbin:/usr/bin:/sbin:/bin'', ''HOME=/root'',
     ''PYTHONDONTWRITEBYTECODE=1''] @ ts_env spec"

definition oci_spec :: "(string \<Rightarrow> bool) \<Rightarrow> (string \<Rightarrow> bool) \<Rightarrow> string \<Rightarrow> string \<Rightarrow> template_spec \<Rightarrow> u16
    \<Rightarrow> string option \<Rightarrow> string option \<Rightarrow> spec_error + json" where
  "oci_spec path_exists mkdir_ok i rootfs spec port vol netns =
     (if spec_args spec port = [] then Inl NothingToRun
      else case spec_mounts path_exists mkdir_ok spec vol of
        Inl e \<Rightarrow> Inl e
      | Inr mounts \<Rightarrow> Inr (JObj
          [(''ociVersion'', JStr ''1.0.2''),
           (''process'', JObj
             [(''terminal'', JBool False),
              (''user'', JObj [(''uid'', JNum 0), (''gid'', JNum 0)]),
              (''args'', str_array (spec_args spec port)),
              (''env'', str_array (spec_env spec)),
              (''cwd'', JStr (case ts_cwd spec of Some d \<Rightarrow> d | None \<Rightarrow> ''/'')),
              (''capabilities'', JObj [(''bounding'', str_array CAPS), (''effective'', str_array CAPS), (''permitted'', str_array CAPS)]),
              (''rlimits'', JArr [JObj [(''type'', JStr ''RLIMIT_NOFILE''), (''hard'', JNum 8192), (''soft'', JNum 8192)]]),
              (''noNewPrivileges'', JBool True)]),
           (''root'', JObj [(''path'', JStr rootfs), (''readonly'', JBool False)]),
           (''hostname'', JStr i),
           (''mounts'', JArr mounts),
           (''linux'', JObj
             [(''namespaces'', JArr (namespaces netns)),
              (''cgroupsPath'', JStr (''/sandstorm/'' @ i)),
              (''resources'', JObj (case ts_memory_max_mib spec of
                 Some mib \<Rightarrow> [(''memory'', JObj [(''limit'', JNum (uint (memory_limit_bytes mib)))])]
               | None \<Rightarrow> []))])]))"

section \<open>Quoting\<close>

lemma replace_char_Nil [simp]: "replace_str [q] rep [] = []"
  by (simp add: replace_str.simps)

lemma replace_char_Cons [simp]:
  "replace_str [q] rep (c # s) = (if c = q then rep else [c]) @ replace_str [q] rep s"
  by (simp add: replace_str.simps [of "[q]" rep "c # s"])

text \<open>
  One word as a POSIX shell reads it: quoted text literally up to the next quote, a backslash
  outside quotes taking the next character, and outside both only characters a shell gives no
  meaning to. Anything else, an open quote included, is no single word.
\<close>

definition sh_plain :: "char \<Rightarrow> bool" where
  "sh_plain c \<longleftrightarrow> is_digit c \<or> c \<in> set ''abcdefghijklmnopqrstuvwxyzABCDEFGHIJKLMNOPQRSTUVWXYZ_-./''"

fun sh_word :: "bool \<Rightarrow> string \<Rightarrow> string option" where
  "sh_word quoted [] = (if quoted then None else Some [])"
| "sh_word True (c # s) =
     (if c = CHR 0x27 then sh_word False s else map_option (Cons c) (sh_word True s))"
| "sh_word False (c # s) =
     (if c = CHR 0x27 then sh_word True s
      else if c = CHR 0x5C then (case s of d # t \<Rightarrow> map_option (Cons d) (sh_word False t) | [] \<Rightarrow> None)
      else if sh_plain c then map_option (Cons c) (sh_word False s) else None)"

lemma sh_word_replace:
  "sh_word True (replace_str [CHR 0x27] [CHR 0x27, CHR 0x5C, CHR 0x27, CHR 0x27] s @ CHR 0x27 # t)
     = map_option (append s) (sh_word False t)"
  by (induction s) (auto simp: option.map_comp comp_def option.map_ident)

text \<open>
  Quoting round-trips: whatever bytes an archive's path or a layer's path has, the shell that
  unpacks the archive reads the quoted form back as one word, the path itself.
\<close>

theorem shell_quote_roundtrip: "sh_word False (shell_quote s) = Some s"
  using sh_word_replace [of s Nil] by (simp add: shell_quote_def)

section \<open>What a template can ask for\<close>

definition json_at :: "json \<Rightarrow> string list \<Rightarrow> json" where
  "json_at v ks = foldl json_index v ks"

lemma bind_mounts_only:
  assumes "bind_mounts path_exists bs = Inr ms" "m \<in> set ms"
  shows "\<exists>b \<in> set bs. m = ro_bind b \<and> path_exists b \<and> forbidden_bind b = None"
  using assms
proof (induction bs arbitrary: ms)
  case (Cons b bs)
  then obtain ns where ns: "bind_mounts path_exists bs = Inr ns" "forbidden_bind b = None"
    "ms = (if path_exists b then ro_bind b # ns else ns)"
    by (auto split: option.splits sum.splits)
  show ?case
  proof (cases "m \<in> set ns")
    case True
    with Cons.IH [OF ns(1)] show ?thesis by auto
  qed (use Cons.prems(2) ns in \<open>auto split: if_splits\<close>)
qed simp

lemma bind_mounts_forbidden:
  assumes "b \<in> set bs" "forbidden_bind b \<noteq> None"
  shows "\<exists>e. bind_mounts path_exists bs = Inl e"
  using assms by (induction bs) (auto split: option.splits sum.splits)

lemma forbidden_bind_None:
  "forbidden_bind p = None \<longleftrightarrow>
     (\<forall>f \<in> set FORBIDDEN_BINDS. if f = ''/'' then \<not> path_eq p f else \<not> path_starts_with p f)"
  by (auto simp: forbidden_bind_def find_None_iff)

lemma mount_get [simp]:
  "json_get (mount d t s os) ''type'' = Some (JStr t)"
  "json_get (mount d t s os) ''destination'' = Some (JStr d)"
  by (simp_all add: mount_def json_get_def)

lemma base_mounts_no_bind: "m \<in> set base_mounts \<Longrightarrow> json_get m ''type'' \<noteq> Some (JStr ''bind'')"
  by (auto simp: base_mounts_def)

lemma oci_spec_parts:
  assumes "oci_spec path_exists mkdir_ok i rootfs spec port vol netns = Inr j"
  shows "json_at j [''process'', ''noNewPrivileges''] = JBool True"
    and "json_at j [''process'', ''capabilities'', c] = (if c \<in> {''bounding'', ''effective'', ''permitted''} then str_array CAPS else JNull)"
    and "json_at j [''linux'', ''namespaces''] = JArr (namespaces netns)"
    and "\<exists>ms. spec_mounts path_exists mkdir_ok spec vol = Inr ms \<and> json_at j [''mounts''] = JArr ms"
  using assms
  by (auto simp: oci_spec_def json_at_def json_index_def json_get_def split: if_splits sum.splits)

text \<open>
  What a template asks for: whatever it says, the sandbox gets no new privileges and exactly the standard
  capabilities, it has a network namespace of its own, and every bind in it is either the sandbox's
  volume, at /workspace, or one the template named, read-only, and not written as a path the node
  refuses or one under it. Which host directory a path written otherwise leads to is not looked at.
\<close>

theorem template_cannot_widen:
  assumes "oci_spec path_exists mkdir_ok i rootfs spec port vol netns = Inr j"
  shows "json_at j [''process'', ''noNewPrivileges''] = JBool True \<and>
    (\<forall>c \<in> {''bounding'', ''effective'', ''permitted''}. json_at j [''process'', ''capabilities'', c] = str_array CAPS) \<and>
    (\<exists>ns n. json_at j [''linux'', ''namespaces''] = JArr ns \<and> n \<in> set ns \<and> json_get n ''type'' = Some (JStr ''network'')) \<and>
    (\<exists>ms. json_at j [''mounts''] = JArr ms \<and>
      (\<forall>m \<in> set ms. json_get m ''type'' = Some (JStr ''bind'') \<longrightarrow>
        (\<exists>v. vol = Some v \<and> m = volume_bind v) \<or>
        (\<exists>b \<in> set (ts_ro_binds spec). m = ro_bind b \<and>
           \<not> path_eq b ''/'' \<and> (\<forall>f \<in> set FORBIDDEN_BINDS - {''/''}. \<not> path_starts_with b f))))"
proof -
  note parts = oci_spec_parts [OF assms]
  from parts(4) obtain ms where ms: "spec_mounts path_exists mkdir_ok spec vol = Inr ms" "json_at j [''mounts''] = JArr ms" by blast
  have bind: "(\<exists>v. vol = Some v \<and> m = volume_bind v) \<or> (\<exists>b \<in> set (ts_ro_binds spec). m = ro_bind b \<and> forbidden_bind b = None)"
    if "m \<in> set ms" "json_get m ''type'' = Some (JStr ''bind'')" for m
    using that ms(1) base_mounts_no_bind [of m] bind_mounts_only [of path_exists "ts_ro_binds spec" _ m]
    by (fastforce simp: spec_mounts_def split: sum.splits option.splits if_splits)
  have "''/'' \<in> set FORBIDDEN_BINDS" by (simp add: FORBIDDEN_BINDS_def)
  then have "\<not> path_eq b ''/'' \<and> (\<forall>f \<in> set FORBIDDEN_BINDS - {''/''}. \<not> path_starts_with b f)"
    if "forbidden_bind b = None" for b
    using that by (auto simp: forbidden_bind_None split: if_splits)
  with bind have "\<forall>m \<in> set ms. json_get m ''type'' = Some (JStr ''bind'') \<longrightarrow>
        (\<exists>v. vol = Some v \<and> m = volume_bind v) \<or>
        (\<exists>b \<in> set (ts_ro_binds spec). m = ro_bind b \<and>
           \<not> path_eq b ''/'' \<and> (\<forall>f \<in> set FORBIDDEN_BINDS - {''/''}. \<not> path_starts_with b f))"
    by blast
  moreover have "JObj ((''type'', JStr ''network'') # (case netns of Some p \<Rightarrow> [(''path'', JStr p)] | None \<Rightarrow> [])) \<in> set (namespaces netns)"
    by (simp add: namespaces_def)
  then have "\<exists>n \<in> set (namespaces netns). json_get n ''type'' = Some (JStr ''network'')"
    by (rule bexI [rotated]) (simp add: json_get_def)
  ultimately show ?thesis using parts(1-3) ms(2) by auto
qed

text \<open>
  The refusal looks at the path as written. Through a parent directory the same host directory is
  asked for and granted: for every refused path, the path with a detour through /usr is bound.
\<close>

theorem forbidden_bind_by_detour:
  assumes "f \<in> set FORBIDDEN_BINDS" "path_exists (''/usr/..'' @ f)" "ts_ro_binds spec = [''/usr/..'' @ f]"
  shows "forbidden_bind f \<noteq> None \<and> spec_mounts path_exists mkdir_ok spec None = Inr (base_mounts @ [ro_bind (''/usr/..'' @ f)])"
proof -
  have "list_all (\<lambda>f. forbidden_bind f \<noteq> None \<and> forbidden_bind (''/usr/..'' @ f) = None) FORBIDDEN_BINDS"
    by code_simp
  with assms(1) have "forbidden_bind f \<noteq> None \<and> forbidden_bind (''/usr/..'' @ f) = None"
    by (simp add: list_all_iff)
  with assms(2,3) show ?thesis by (simp add: spec_mounts_def)
qed

text \<open>The ceiling in bytes is the asked one below 16 TiB, and what is left of it modulo \<open>2 ^ 64\<close> from there.\<close>

lemma memory_limit_bytes_wraps: "uint (memory_limit_bytes mib) = (uint mib * 2 ^ 20) mod 2 ^ 64"
  by (simp add: memory_limit_bytes_def uint_word_ariths mod_simps mult.commute)

lemma memory_limit_bytes_exact: "uint mib < 2 ^ 44 \<Longrightarrow> uint (memory_limit_bytes mib) = uint mib * 2 ^ 20"
  by (simp add: memory_limit_bytes_wraps)

section \<open>Witnesses\<close>

definition plain_spec :: template_spec where
  "plain_spec = \<lparr>ts_args = [''/bin/app'', ''{{PORT}}''], ts_env = [], ts_cwd = None,
     ts_ro_binds = [''/usr'', ''/opt''], ts_memory_max_mib = Some 256\<rparr>"

lemma spec_args_plain: "spec_args plain_spec 80 = [''/bin/app'', ''80'']"
  by code_simp

lemma oci_spec_plain:
  "\<exists>j. oci_spec (\<lambda>_. True) (\<lambda>_. True) ''sb'' ''/r'' plain_spec 80 (Some ''/vol'') None = Inr j"
proof -
  have "bind_mounts (\<lambda>_. True) (ts_ro_binds plain_spec) = Inr [ro_bind ''/usr'', ro_bind ''/opt'']" by code_simp
  then show ?thesis by (auto simp: oci_spec_def spec_mounts_def spec_args_plain)
qed

lemma template_cannot_widen_witness:
  "\<exists>j. oci_spec (\<lambda>_. True) (\<lambda>_. True) ''sb'' ''/r'' plain_spec 80 (Some ''/vol'') None = Inr j \<and>
     json_at j [''process'', ''noNewPrivileges''] = JBool True"
  using oci_spec_plain template_cannot_widen by blast

end
