(* ===== verification/Reconcile.thy ===== *)
theory Reconcile
  imports Pools Templates
begin

text \<open>
  The master's side of a poll (\<^verbatim>\<open>poll\<close>, \<^verbatim>\<open>node_traffic\<close>, \<^verbatim>\<open>diff\<close> and what they call in
  \<^verbatim>\<open>master/api.rs\<close>): a node's report is applied to the store, and desired state minus what the
  node reports holding is the list of commands it is sent. The cache of tag sources inside
  one \<^verbatim>\<open>diff\<close> is not modelled: the store and the time do not change while it lives, so looking
  a tag up again gives the same answer.
\<close>

record crypto =
  hmac :: "string \<Rightarrow> string \<Rightarrow> string"
  henc :: "string \<Rightarrow> string"

section \<open>Applying a report\<close>

definition report_failure :: "command_failure \<Rightarrow> store \<Rightarrow> store" where
  "report_failure f =
     (if cf_held_back f then set_sandbox_error (cf_id f) (cf_error f) 0
      else set_sandbox_error (cf_id f) (cf_error f) (cf_attempts f))"

definition observes :: "poll_request \<Rightarrow> string \<Rightarrow> bool" where
  "observes req i \<longleftrightarrow> list_ex (\<lambda>o'. ob_id o' = i) (pr_observed req)"

definition record_failures :: "poll_request \<Rightarrow> store \<Rightarrow> store" where
  "record_failures req st =
     (let failing = map cf_id (failures req);
          up = filter (\<lambda>i. i \<notin> set failing \<and> observes req i) (errored_on_node st (pr_node_id req))
      in fold report_failure (failures req) (fold clear_sandbox_error up st))"

definition traffic_step :: "secs \<Rightarrow> (string \<Rightarrow> bool) \<Rightarrow> poll_request \<Rightarrow> string \<Rightarrow> store \<Rightarrow> store" where
  "traffic_step now held req i st =
     (case get_sandbox st i of
        None \<Rightarrow> st
      | Some sb \<Rightarrow>
          if sb_node_id sb \<noteq> pr_node_id req then st
          else let st1 = touch now i st;
                   serving = list_ex (\<lambda>o'. ob_id o' = i \<and> is_serving (ob_tier o')) (pr_observed req)
               in if serving \<and> sb_tier sb \<noteq> Hot \<and> \<not> held i then set_tier i Hot st1 else st1)"

definition apply_traffic :: "secs \<Rightarrow> instant \<Rightarrow> poll_request \<Rightarrow> master \<Rightarrow> master" where
  "apply_traffic now t req ms =
     on_store (fold (traffic_step now (pause_held t ms) req) (traffic req)) ms"

definition eviction_step :: "poll_request \<Rightarrow> string \<Rightarrow> store \<Rightarrow> store" where
  "eviction_step req i st =
     (case get_sandbox st i of
        None \<Rightarrow> st
      | Some sb \<Rightarrow>
          if sb_node_id sb \<noteq> pr_node_id req then st
          else case find (\<lambda>o'. ob_id o' = i) (pr_observed req) of
                 None \<Rightarrow> st
               | Some seen \<Rightarrow> if sb_tier sb < ob_tier seen then set_tier i (ob_tier seen) st else st)"

definition apply_evictions :: "poll_request \<Rightarrow> store \<Rightarrow> store" where
  "apply_evictions req = fold (eviction_step req) (evicted req)"

section \<open>The difference\<close>

text \<open>What \<^verbatim>\<open>diff\<close> records of the node before it compares anything.\<close>

definition note_features :: "poll_request \<Rightarrow> master \<Rightarrow> master" where
  "note_features req ms =
     (if features req = [] then ms
      else ms\<lparr>node_features := (node_features ms)(pr_node_id req \<mapsto> features req)\<rparr>)"

definition note_templates :: "poll_request \<Rightarrow> master \<Rightarrow> master" where
  "note_templates req ms =
     (case pr_templates req of
        None \<Rightarrow> ms
      | Some ts \<Rightarrow> ms\<lparr>node_templates := (node_templates ms)(pr_node_id req \<mapsto> ts)\<rparr>)"

definition note_host :: "poll_request \<Rightarrow> master \<Rightarrow> master" where
  "note_host req ms =
     (case pr_host req of
        None \<Rightarrow> ms
      | Some h \<Rightarrow>
          let ms1 = record_host (pr_node_id req) h ms
          in if map_option fst (map_of (switching ms1) (pr_node_id req)) = backend_of_engine (engine h)
             then ms1\<lparr>switching := del (pr_node_id req) (switching ms1)\<rparr> else ms1)"

definition note_fingerprint :: "secs \<Rightarrow> poll_request \<Rightarrow> store \<Rightarrow> store" where
  "note_fingerprint now req st =
     (case pr_fingerprint req of
        None \<Rightarrow> st
      | Some fp \<Rightarrow> if fp = [] then st else fst (refingerprint_node now (pr_node_id req) fp st))"

definition note_ip :: "observed_sandbox \<Rightarrow> store \<Rightarrow> store" where
  "note_ip o' st = (case ob_ip o' of None \<Rightarrow> st | Some ip \<Rightarrow> set_sandbox_ip (ob_id o') ip st)"

definition refresh :: "secs \<Rightarrow> poll_request \<Rightarrow> master \<Rightarrow> master" where
  "refresh now req ms =
     on_store (fold note_ip (pr_observed req) \<circ> note_fingerprint now req)
       (note_host req (note_templates req (note_features req
         (on_store (set_node_health now (pr_node_id req) (free_memory_mib req) (pressure_some_avg10 req)) ms))))"

definition fetch_from :: "crypto \<Rightarrow> secs \<Rightarrow> store \<Rightarrow> string \<Rightarrow> string \<Rightarrow> fetch_from option" where
  "fetch_from cr now st tag n =
     (case get_snapshot st tag of
        None \<Rightarrow> None
      | Some snap \<Rightarrow>
          if st_node_id snap = n then None
          else case agent_node st (st_node_id snap) of
                 None \<Rightarrow> None
               | Some s \<Rightarrow>
                   let expires = fetch_expiry now
                   in Some \<lparr>ff_node_id = an_id s, ff_address = an_address s,
                        ff_cert_sha256 = an_cert_sha256 s, ff_for_node = n, ff_expires = expires,
                        ff_token = fetch_token (hmac cr) (henc cr) (an_secret s) tag n expires\<rparr>)"

text \<open>The template's spec with the caller's memory ceiling over it.\<close>

definition spec_with_limit :: "codec \<Rightarrow> string \<Rightarrow> nat option \<Rightarrow> json" where
  "spec_with_limit cj spec limit =
     (let v = (case from_str cj spec of Some v \<Rightarrow> v | None \<Rightarrow> JNull)
      in case limit of
           None \<Rightarrow> v
         | Some mib \<Rightarrow>
             (case v of JObj kvs \<Rightarrow> JObj (obj_insert ''memory_max_mib'' (json_nat mib) kvs) | _ \<Rightarrow> v))"

definition create_command :: "codec \<Rightarrow> crypto \<Rightarrow> secs \<Rightarrow> store \<Rightarrow> string \<Rightarrow> sandbox \<Rightarrow> command option" where
  "create_command cj cr now st n want =
     (case get_template st (sb_template want) of
        None \<Rightarrow> None
      | Some (_, spec) \<Rightarrow>
          Some (Create \<lparr>cr_id = sb_id want, cr_template = sb_template want,
            cr_spec = spec_with_limit cj spec (sb_memory_limit_mib want),
            cr_port = (case sb_port want of Some p \<Rightarrow> p | None \<Rightarrow> DEFAULT_SANDBOX_PORT),
            cr_volume = sb_volume want, cr_net_index = sb_net_index want,
            cr_from_tag = sb_from_tag want, cr_gateway_port = sb_gateway_port want,
            cr_token = sb_token want,
            cr_fetch = Option.bind (sb_from_tag want) (\<lambda>tag. fetch_from cr now st tag n),
            cr_egress = sb_egress want\<rparr>))"

definition seen_as :: "poll_request \<Rightarrow> string \<Rightarrow> observed_sandbox option" where
  "seen_as req i = find (\<lambda>o'. ob_id o' = i) (pr_observed req)"

definition commands_for :: "codec \<Rightarrow> crypto \<Rightarrow> secs \<Rightarrow> poll_request \<Rightarrow> store \<Rightarrow> sandbox \<Rightarrow> command list" where
  "commands_for cj cr now req st want =
     (if sb_error_attempts want \<ge> MAX_FAILURES then []
      else case seen_as req (sb_id want) of
        None \<Rightarrow>
          if sb_tier want = Detached then []
          else (case create_command cj cr now st (pr_node_id req) want of Some c \<Rightarrow> [c] | None \<Rightarrow> [])
      | Some got \<Rightarrow>
          (if ob_tier got \<noteq> sb_tier want then [SetTier (sb_id want) (sb_tier want)] else []) @
          (case ob_egress got of
             Some e \<Rightarrow> if e \<noteq> sb_egress want then [SetEgress (sb_id want) (sb_egress want)] else []
           | None \<Rightarrow> []))"

definition destroys :: "poll_request \<Rightarrow> sandbox list \<Rightarrow> command list" where
  "destroys req desired =
     map (\<lambda>o'. Destroy (ob_id o') (ob_net_index o'))
       (filter (\<lambda>o'. \<not> list_ex (\<lambda>d. sb_id d = ob_id o') desired) (pr_observed req))"

definition drops :: "poll_request \<Rightarrow> store \<Rightarrow> command list" where
  "drops req st = map DropTag (filter (\<lambda>tag. get_snapshot st tag = None) (pr_tags req))"

definition diff :: "codec \<Rightarrow> crypto \<Rightarrow> secs \<Rightarrow> poll_request \<Rightarrow> master \<Rightarrow> master \<times> command list" where
  "diff cj cr now req ms =
     (let ms1 = refresh now req ms;
          desired = sandboxes_on_node (m_store ms1) (pr_node_id req);
          (st2, pull_cmds) = pulls_for cj req (m_store ms1)
      in (ms1\<lparr>m_store := st2\<rparr>,
          pull_cmds @ concat (map (commands_for cj cr now req st2) desired)
            @ destroys req desired @ drops req st2))"

section \<open>The poll\<close>

text \<open>\<^verbatim>\<open>collect\<close> into a \<^verbatim>\<open>HashMap\<close>: the last entry of an id counts.\<close>

definition deferred_ms :: "poll_request \<Rightarrow> string \<Rightarrow> nat option" where
  "deferred_ms req = map_of (rev (map (\<lambda>d. (df_id d, retry_in_ms d)) (pr_deferred req)))"

definition leave_out_deferred :: "poll_request \<Rightarrow> millis \<Rightarrow> command list \<Rightarrow> command list" where
  "leave_out_deferred req waited cmds =
     (if pr_deferred req = [] then cmds
      else filter (\<lambda>c. case deferred_ms req (command_id c) of None \<Rightarrow> True | Some d \<Rightarrow> d \<le> waited) cmds)"

definition take_execs :: "string \<Rightarrow> master \<Rightarrow> master \<times> command list" where
  "take_execs n ms =
     (case exec_queue ms n of
        None \<Rightarrow> (ms, [])
      | Some q \<Rightarrow> (ms\<lparr>exec_queue := (exec_queue ms)(n \<mapsto> [])\<rparr>, q))"

text \<open>One answer's worth of commands: a diff, less what the node puts off, and the queue.\<close>

definition answer ::
  "codec \<Rightarrow> crypto \<Rightarrow> secs \<Rightarrow> poll_request \<Rightarrow> millis \<Rightarrow> master \<Rightarrow> master \<times> command list" where
  "answer cj cr now req waited ms =
     (let (ms1, cmds) = diff cj cr now req ms;
          (ms2, q) = take_execs (pr_node_id req) ms1
      in (ms2, leave_out_deferred req waited cmds @ q))"

datatype poll_outcome = Answer "command list" | Park millis

definition poll ::
  "codec \<Rightarrow> crypto \<Rightarrow> node_identity \<Rightarrow> string option \<Rightarrow> secs \<Rightarrow> instant \<Rightarrow> poll_request \<Rightarrow> master
     \<Rightarrow> master \<times> (api_err + poll_outcome)" where
  "poll cj cr who peer now t req ms =
     (if \<not> authorises who (pr_node_id req)
      then (ms, Inl (err 403 ''this certificate is not registered for that node id''))
      else
        let ms1 = (case peer of None \<Rightarrow> ms
                   | Some ip \<Rightarrow> ms\<lparr>node_addrs := (node_addrs ms)(pr_node_id req \<mapsto> ip)\<rparr>);
            ms2 = on_store (record_failures req) ms1;
            ms3 = apply_traffic now t req ms2;
            ms4 = on_store (apply_evictions req) ms3;
            (ms5, cmds) = answer cj cr now req 0 ms4
        in (ms5, Inr (if cmds \<noteq> [] then Answer cmds
                      else Park (min (case hold_ms req of Some h \<Rightarrow> h | None \<Rightarrow> 25000) 55000))))"

text \<open>The parked poll is answered when it is woken or its hold ends.\<close>

definition poll_resume ::
  "codec \<Rightarrow> crypto \<Rightarrow> secs \<Rightarrow> poll_request \<Rightarrow> millis \<Rightarrow> master \<Rightarrow> master \<times> command list" where
  "poll_resume cj cr now req waited ms = answer cj cr now req waited ms"

definition node_traffic ::
  "node_identity \<Rightarrow> secs \<Rightarrow> instant \<Rightarrow> poll_request \<Rightarrow> master \<Rightarrow> master \<times> api_err option" where
  "node_traffic who now t req ms =
     (if \<not> authorises who (pr_node_id req)
      then (ms, Some (err 403 ''this certificate is not registered for that node id''))
      else (wake_node (pr_node_id req)
              (on_store (apply_evictions req) (apply_traffic now t req ms)), None))"

section \<open>What a report does to the store\<close>

lemma get_after_traffic_step:
  "get_sandbox (traffic_step now held req i st) j =
     (if j = i then
        map_option (\<lambda>sb. if sb_node_id sb = pr_node_id req
          then sb\<lparr>sb_last_active_at := now,
                  sb_tier := (if list_ex (\<lambda>o'. ob_id o' = i \<and> is_serving (ob_tier o')) (pr_observed req) \<and> \<not> held i
                              then Hot else sb_tier sb)\<rparr>
          else sb) (get_sandbox st j)
      else get_sandbox st j)"
  by (cases "get_sandbox st i") (auto simp: traffic_step_def Let_def)

definition after_traffic :: "secs \<Rightarrow> (string \<Rightarrow> bool) \<Rightarrow> poll_request \<Rightarrow> sandbox \<Rightarrow> sandbox" where
  "after_traffic now held req sb =
     (if sb_id sb \<in> set (traffic req) \<and> sb_node_id sb = pr_node_id req
      then sb\<lparr>sb_last_active_at := now,
              sb_tier := (if list_ex (\<lambda>o'. ob_id o' = sb_id sb \<and> is_serving (ob_tier o')) (pr_observed req)
                             \<and> \<not> held (sb_id sb) then Hot else sb_tier sb)\<rparr>
      else sb)"

lemma get_after_traffic_fold:
  "get_sandbox (fold (traffic_step now held req) is st) j =
     (if j \<in> set is then
        map_option (\<lambda>sb. if sb_node_id sb = pr_node_id req
          then sb\<lparr>sb_last_active_at := now,
                  sb_tier := (if list_ex (\<lambda>o'. ob_id o' = j \<and> is_serving (ob_tier o')) (pr_observed req) \<and> \<not> held j
                              then Hot else sb_tier sb)\<rparr>
          else sb) (get_sandbox st j)
      else get_sandbox st j)"
proof (induction "is" arbitrary: st)
  case (Cons i "is")
  show ?case
    by (cases "get_sandbox st j") (auto simp: Cons.IH get_after_traffic_step)
qed simp

lemma get_after_traffic:
  "get_sandbox (m_store (apply_traffic now t req ms)) j =
     map_option (after_traffic now (pause_held t ms) req) (get_sandbox (m_store ms) j)"
proof (cases "get_sandbox (m_store ms) j")
  case (Some sb)
  then have "sb_id sb = j" by (rule get_sandbox_id)
  with Some show ?thesis
    by (auto simp: apply_traffic_def frame_simps get_after_traffic_fold after_traffic_def)
qed (simp add: apply_traffic_def frame_simps get_after_traffic_fold)

definition after_eviction :: "poll_request \<Rightarrow> sandbox \<Rightarrow> sandbox" where
  "after_eviction req sb =
     (if sb_id sb \<in> set (evicted req) \<and> sb_node_id sb = pr_node_id req
      then case seen_as req (sb_id sb) of
             None \<Rightarrow> sb
           | Some seen \<Rightarrow> sb\<lparr>sb_tier := max (sb_tier sb) (ob_tier seen)\<rparr>
      else sb)"

lemma tier_update_self: "sb_tier sb = t \<Longrightarrow> sb\<lparr>sb_tier := t\<rparr> = sb"
  by simp

lemma get_after_eviction_step:
  "get_sandbox (eviction_step req i st) j =
     (if j = i then
        map_option (\<lambda>sb. if sb_node_id sb = pr_node_id req
          then (case seen_as req i of None \<Rightarrow> sb | Some seen \<Rightarrow> sb\<lparr>sb_tier := max (sb_tier sb) (ob_tier seen)\<rparr>)
          else sb) (get_sandbox st j)
      else get_sandbox st j)"
  by (cases "get_sandbox st i")
    (auto simp: eviction_step_def seen_as_def max_def not_le tier_update_self antisym split: option.split)

lemma get_after_eviction_fold:
  "get_sandbox (fold (eviction_step req) is st) j =
     (if j \<in> set is then
        map_option (\<lambda>sb. if sb_node_id sb = pr_node_id req
          then (case seen_as req j of None \<Rightarrow> sb | Some seen \<Rightarrow> sb\<lparr>sb_tier := max (sb_tier sb) (ob_tier seen)\<rparr>)
          else sb) (get_sandbox st j)
      else get_sandbox st j)"
proof (induction "is" arbitrary: st)
  case (Cons i "is")
  show ?case
    by (cases "get_sandbox st j")
      (auto simp: Cons.IH get_after_eviction_step split: option.split)
qed simp

lemma get_after_evictions:
  "get_sandbox (apply_evictions req st) j = map_option (after_eviction req) (get_sandbox st j)"
proof (cases "get_sandbox st j")
  case (Some sb)
  then have "sb_id sb = j" by (rule get_sandbox_id)
  with Some show ?thesis
    by (auto simp: apply_evictions_def get_after_eviction_fold after_eviction_def)
qed (simp add: apply_evictions_def get_after_eviction_fold)

lemma get_after_clears:
  "get_sandbox (fold clear_sandbox_error is st) j =
     (if j \<in> set is then map_option (\<lambda>s. s\<lparr>sb_last_error := None, sb_error_attempts := 0\<rparr>) (get_sandbox st j)
      else get_sandbox st j)"
proof (induction "is" arbitrary: st)
  case (Cons i "is")
  show ?case by (cases "get_sandbox st j") (auto simp: Cons.IH)
qed simp

definition last_failure :: "poll_request \<Rightarrow> string \<Rightarrow> command_failure option" where
  "last_failure req i = find (\<lambda>f. cf_id f = i) (rev (failures req))"

lemma find_snoc: "find P (xs @ [x]) = (case find P xs of Some y \<Rightarrow> Some y | None \<Rightarrow> if P x then Some x else None)"
  by (induction xs) auto

definition with_failure :: "command_failure option \<Rightarrow> sandbox \<Rightarrow> sandbox" where
  "with_failure f s = (case f of None \<Rightarrow> s
     | Some f \<Rightarrow> s\<lparr>sb_last_error := Some (cf_error f),
          sb_error_attempts := (if cf_held_back f then 0 else cf_attempts f)\<rparr>)"

lemma get_report_failure:
  "get_sandbox (report_failure f st) j =
     (if j = cf_id f then map_option (with_failure (Some f)) (get_sandbox st j) else get_sandbox st j)"
  by (cases "get_sandbox st j") (auto simp: report_failure_def with_failure_def)

lemma get_after_failures:
  "get_sandbox (fold report_failure fs st) j =
     map_option (with_failure (find (\<lambda>f. cf_id f = j) (rev fs))) (get_sandbox st j)"
proof (induction fs rule: rev_induct)
  case Nil
  then show ?case by (simp add: with_failure_def option.map_ident)
next
  case (snoc f fs)
  have "get_sandbox (fold report_failure (fs @ [f]) st) j =
      (if j = cf_id f then map_option (with_failure (Some f)) (get_sandbox (fold report_failure fs st) j)
       else get_sandbox (fold report_failure fs st) j)"
    by (simp add: get_report_failure)
  then have "get_sandbox (fold report_failure (fs @ [f]) st) j =
      (if cf_id f = j then map_option (with_failure (Some f) \<circ> with_failure (find (\<lambda>f. cf_id f = j) (rev fs))) (get_sandbox st j)
       else map_option (with_failure (find (\<lambda>f. cf_id f = j) (rev fs))) (get_sandbox st j))"
    unfolding snoc by (simp add: option.map_comp)
  moreover have "with_failure (Some f) \<circ> with_failure g = with_failure (Some f)" for g
    by (rule ext) (simp add: with_failure_def split: option.split)
  ultimately show ?case by simp
qed

lemma errored_in:
  assumes "distinct (map sb_id (sandboxes st))"
  shows "i \<in> set (errored_on_node st n) \<longleftrightarrow>
    (\<exists>s. get_sandbox st i = Some s \<and> sb_node_id s = n \<and> sb_last_error s \<noteq> None)"
proof -
  have "get_sandbox st (sb_id s) = Some s" if "s \<in> set (sandboxes st)" for s
    using assms that by (simp add: get_sandbox_def row_of_in)
  then show ?thesis
    by (auto simp: errored_on_node_def dest: get_sandbox_in get_sandbox_id)
qed

definition after_report :: "poll_request \<Rightarrow> sandbox \<Rightarrow> sandbox" where
  "after_report req s =
     (case last_failure req (sb_id s) of
        Some f \<Rightarrow> s\<lparr>sb_last_error := Some (cf_error f),
                    sb_error_attempts := (if cf_held_back f then 0 else cf_attempts f)\<rparr>
      | None \<Rightarrow>
          if sb_node_id s = pr_node_id req \<and> sb_last_error s \<noteq> None \<and> observes req (sb_id s)
          then s\<lparr>sb_last_error := None, sb_error_attempts := 0\<rparr> else s)"

lemma last_failure_None: "last_failure req i = None \<longleftrightarrow> i \<notin> cf_id ` set (failures req)"
  by (auto simp: last_failure_def find_None_iff)

lemma get_after_record_failures:
  assumes "distinct (map sb_id (sandboxes st))"
  shows "get_sandbox (record_failures req st) j = map_option (after_report req) (get_sandbox st j)"
proof (cases "get_sandbox st j")
  case None
  then show ?thesis by (simp add: record_failures_def Let_def get_after_failures get_after_clears)
next
  case (Some s)
  then have "sb_id s = j" by (rule get_sandbox_id)
  define up where "up = filter (\<lambda>i. i \<notin> set (map cf_id (failures req)) \<and> observes req i)
      (errored_on_node st (pr_node_id req))"
  have up: "j \<in> set up \<longleftrightarrow> last_failure req j = None \<and> observes req j \<and>
      sb_node_id s = pr_node_id req \<and> sb_last_error s \<noteq> None"
    using errored_in [OF assms, of j "pr_node_id req"] Some
    by (simp add: up_def last_failure_None) blast
  have "get_sandbox (record_failures req st) j = Some (with_failure (last_failure req j)
      (if j \<in> set up then s\<lparr>sb_last_error := None, sb_error_attempts := 0\<rparr> else s))"
    unfolding record_failures_def Let_def up_def [symmetric]
    by (simp add: get_after_failures get_after_clears last_failure_def [symmetric] Some)
  also have "\<dots> = Some (after_report req s)"
    using up \<open>sb_id s = j\<close>
    by (cases "last_failure req j"; cases "sb_last_error s")
      (simp_all add: with_failure_def after_report_def conj_commute)
  finally show ?thesis by (simp add: Some)
qed

section \<open>What the difference consists of\<close>

lemma sandboxes_after_pulls:
  "sandboxes_on_node (fst (pulls_for cj req st)) n = sandboxes_on_node st n"
  by (simp add: sandboxes_on_node_def frame_simps)

lemma diff_parts:
  "snd (diff cj cr now req ms) =
     snd (pulls_for cj req (m_store (refresh now req ms))) @
     concat (map (commands_for cj cr now req (m_store (fst (diff cj cr now req ms))))
       (sandboxes_on_node (m_store (fst (diff cj cr now req ms))) (pr_node_id req))) @
     destroys req (sandboxes_on_node (m_store (fst (diff cj cr now req ms))) (pr_node_id req)) @
     drops req (m_store (fst (diff cj cr now req ms)))"
  using sandboxes_after_pulls [of cj req "m_store (refresh now req ms)" "pr_node_id req"]
  by (cases "pulls_for cj req (m_store (refresh now req ms))") (simp add: diff_def Let_def)

lemma diff_member:
  "c \<in> set (snd (diff cj cr now req ms)) \<longleftrightarrow>
     c \<in> set (snd (pulls_for cj req (m_store (refresh now req ms)))) \<or>
     (\<exists>want \<in> set (sandboxes_on_node (m_store (fst (diff cj cr now req ms))) (pr_node_id req)).
        c \<in> set (commands_for cj cr now req (m_store (fst (diff cj cr now req ms))) want)) \<or>
     c \<in> set (destroys req (sandboxes_on_node (m_store (fst (diff cj cr now req ms))) (pr_node_id req))) \<or>
     c \<in> set (drops req (m_store (fst (diff cj cr now req ms))))"
  by (subst diff_parts) auto

lemma pull_commands_only: "c \<in> set (snd (pulls_for cj req st)) \<Longrightarrow> \<exists>n i a. c = PullTemplate n i a"
  by (auto simp: pulls_for_def pull_fold_commands split: option.splits)

lemma commands_for_ids:
  "c \<in> set (commands_for cj cr now req st want) \<Longrightarrow>
   (\<exists>k. c = Create k \<and> cr_id k = sb_id want) \<or> (\<exists>t. c = SetTier (sb_id want) t) \<or>
   (\<exists>e. c = SetEgress (sb_id want) e)"
  by (auto simp: commands_for_def create_command_def split: if_splits option.splits)

definition desired_here :: "store \<Rightarrow> string \<Rightarrow> string \<Rightarrow> bool" where
  "desired_here st n i \<longleftrightarrow> (\<exists>s \<in> set (sandboxes st). sb_id s = i \<and> sb_node_id s = n)"

lemma destroy_in_diff:
  "Destroy i x \<in> set (snd (diff cj cr now req ms)) \<longleftrightarrow>
     (\<exists>o' \<in> set (pr_observed req). ob_id o' = i \<and> ob_net_index o' = x) \<and>
     \<not> desired_here (m_store (fst (diff cj cr now req ms))) (pr_node_id req) i"
  unfolding diff_parts
  by (auto simp: destroys_def drops_def desired_here_def list_ex_iff sandboxes_on_node_set
      dest!: pull_commands_only commands_for_ids)

text \<open>What the code says of one sandbox it wants on this node.\<close>

lemma one_desired:
  assumes "distinct (map sb_id (sandboxes st))" "want \<in> set (sandboxes_on_node st n)"
    and "other \<in> set (sandboxes_on_node st n)" "sb_id other = sb_id want"
  shows "other = want"
  using assms by (auto simp: sandboxes_on_node_set distinct_map inj_on_def)

lemma lifecycle_in_diff:
  assumes "distinct (map sb_id (sandboxes (m_store (fst (diff cj cr now req ms)))))"
    and "want \<in> set (sandboxes_on_node (m_store (fst (diff cj cr now req ms))) (pr_node_id req))"
    and "(\<exists>k. c = Create k \<and> cr_id k = sb_id want) \<or> (\<exists>t. c = SetTier (sb_id want) t) \<or>
         (\<exists>e. c = SetEgress (sb_id want) e)"
  shows "c \<in> set (snd (diff cj cr now req ms)) \<longleftrightarrow>
    c \<in> set (commands_for cj cr now req (m_store (fst (diff cj cr now req ms))) want)"
proof
  let ?st = "m_store (fst (diff cj cr now req ms))"
  assume "c \<in> set (snd (diff cj cr now req ms))"
  with assms(3) obtain other where o': "other \<in> set (sandboxes_on_node ?st (pr_node_id req))"
    "c \<in> set (commands_for cj cr now req ?st other)"
    unfolding diff_parts by (auto simp: destroys_def drops_def dest: pull_commands_only)
  with commands_for_ids [OF o'(2)] assms(3) have "sb_id other = sb_id want" by auto
  with one_desired [OF assms(1,2) o'(1)] o'(2) show "c \<in> set (commands_for cj cr now req ?st want)"
    by simp
qed (use assms(2) in \<open>auto simp: diff_parts\<close>)

section \<open>A difference leaves desired state alone\<close>

text \<open>All a \<^verbatim>\<open>diff\<close> writes of a sandbox is its address and the pool its node moved to.\<close>

definition same_desire :: "sandbox \<Rightarrow> sandbox \<Rightarrow> bool" where
  "same_desire s s' \<longleftrightarrow> s' = s\<lparr>sb_ip := sb_ip s', sb_pool := sb_pool s'\<rparr>"

definition same_desires :: "store \<Rightarrow> store \<Rightarrow> bool" where
  "same_desires st st' \<longleftrightarrow> list_all2 same_desire (sandboxes st) (sandboxes st')"

lemma same_desire_refl [simp]: "same_desire s s"
  by (simp add: same_desire_def)

lemma same_desire_fields:
  assumes "same_desire s s'"
  shows "sb_id s' = sb_id s" "sb_node_id s' = sb_node_id s" "sb_tier s' = sb_tier s"
    "sb_error_attempts s' = sb_error_attempts s" "sb_egress s' = sb_egress s"
    "sb_template s' = sb_template s" "sb_port s' = sb_port s" "sb_volume s' = sb_volume s"
    "sb_net_index s' = sb_net_index s" "sb_from_tag s' = sb_from_tag s"
    "sb_gateway_port s' = sb_gateway_port s" "sb_token s' = sb_token s"
    "sb_memory_limit_mib s' = sb_memory_limit_mib s"
  using assms by (cases s; cases s'; simp add: same_desire_def)+

lemma same_desire_trans: "same_desire a b \<Longrightarrow> same_desire b c \<Longrightarrow> same_desire a c"
  by (cases a; cases b; cases c) (simp add: same_desire_def)

lemma same_desires_refl [simp]: "same_desires st st"
  by (simp add: same_desires_def list_all2_refl)

lemma same_desires_trans: "same_desires a b \<Longrightarrow> same_desires b c \<Longrightarrow> same_desires a c"
  unfolding same_desires_def using list_all2_trans [of same_desire same_desire same_desire] same_desire_trans
  by blast

lemma same_desires_eq: "sandboxes st' = sandboxes st \<Longrightarrow> same_desires st st'"
  by (simp add: same_desires_def list_all2_refl)

lemma same_desires_upd:
  "(\<And>s. P s \<Longrightarrow> same_desire s (f s)) \<Longrightarrow> same_desires st (st\<lparr>sandboxes := upd_where P f (sandboxes st)\<rparr>)"
  by (simp add: same_desires_def upd_where_def list_all2_map2 list_all2_same)

lemma same_desire_pool [simp]: "same_desire s (s\<lparr>sb_pool := p\<rparr>)"
  by (simp add: same_desire_def)

lemma same_desire_ip [simp]: "same_desire s (s\<lparr>sb_ip := p\<rparr>)"
  by (simp add: same_desire_def)

lemma same_desires_ip: "same_desires st (set_sandbox_ip i ip st)"
  by (simp add: set_sandbox_ip_def same_desires_upd)

lemma same_desires_note_ip: "same_desires st (note_ip o' st)"
  by (simp add: note_ip_def same_desires_ip split: option.split)

lemma same_desires_note_ips: "same_desires st (fold note_ip os st)"
  by (induction os arbitrary: st) (auto intro: same_desires_trans same_desires_note_ip)

lemma same_desires_rejoin: "same_desires st (rejoin now d b st)"
proof -
  have "sandboxes (fold (\<lambda>n s. note_pool now n b (upd_node n f s)) ids st) = sandboxes st" for f ids
    by (induction ids arbitrary: st) (simp_all add: frame_simps)
  then show ?thesis
    by (simp add: rejoin_def Let_def same_desires_def upd_where_def list_all2_map2 list_all2_same)
qed

lemma same_desires_refingerprint: "same_desires st (fst (refingerprint_node now i fp st))"
proof -
  have "same_desires st (note_pool now i p (upd_node i f st\<lparr>sandboxes :=
      upd_where (\<lambda>s. sb_node_id s = i) (\<lambda>s. s\<lparr>sb_pool := p\<rparr>) (sandboxes st)\<rparr>))" for p f
    by (simp add: same_desires_def frame_simps upd_where_def list_all2_map2 list_all2_same)
  then show ?thesis
    by (auto simp: refingerprint_node_def Let_def frame_simps split: option.split
        intro: same_desires_trans [OF _ same_desires_rejoin])
qed

lemma same_desires_refresh: "same_desires (m_store ms) (m_store (refresh now req ms))"
proof -
  define ms1 where "ms1 = note_host req (note_templates req (note_features req
      (on_store (set_node_health now (pr_node_id req) (free_memory_mib req) (pressure_some_avg10 req)) ms)))"
  have "sandboxes (m_store ms1) = sandboxes (m_store ms)"
    by (simp add: ms1_def note_host_def note_templates_def note_features_def record_host_def
        on_store_def set_node_host_def set_node_health_def frame_simps Let_def split: option.split)
  then have "same_desires (m_store ms) (m_store ms1)" by (rule same_desires_eq)
  moreover have "same_desires (m_store ms1) (note_fingerprint now req (m_store ms1))"
    by (simp add: note_fingerprint_def same_desires_refingerprint split: option.split)
  moreover have "m_store (refresh now req ms) = fold note_ip (pr_observed req) (note_fingerprint now req (m_store ms1))"
    by (simp add: refresh_def ms1_def on_store_def)
  ultimately show ?thesis by (metis same_desires_trans same_desires_note_ips)
qed

lemma same_desires_diff: "same_desires (m_store ms) (m_store (fst (diff cj cr now req ms)))"
proof -
  have "sandboxes (m_store (fst (diff cj cr now req ms))) = sandboxes (m_store (refresh now req ms))"
    using pulls_for_frame(2) [of cj req "m_store (refresh now req ms)"]
    by (cases "pulls_for cj req (m_store (refresh now req ms))") (simp add: diff_def Let_def)
  with same_desires_refresh [of ms now req] show ?thesis by (simp add: same_desires_def)
qed

lemma same_desires_in:
  assumes "same_desires st st'"
  shows "s \<in> set (sandboxes st) \<Longrightarrow> \<exists>s' \<in> set (sandboxes st'). same_desire s s'"
    and "s' \<in> set (sandboxes st') \<Longrightarrow> \<exists>s \<in> set (sandboxes st). same_desire s s'"
  using assms unfolding same_desires_def
  by (fastforce simp: list_all2_conv_all_nth in_set_conv_nth)+

lemma same_desires_ids:
  assumes "same_desires st st'"
  shows "map sb_id (sandboxes st') = map sb_id (sandboxes st)"
  using assms unfolding same_desires_def
  by - (rule nth_equalityI, simp_all add: list_all2_conv_all_nth same_desire_fields(1))

lemma same_desires_here:
  assumes "same_desires st st'"
  shows "desired_here st' n i \<longleftrightarrow> desired_here st n i"
proof
  assume "desired_here st' n i"
  then obtain s' where "s' \<in> set (sandboxes st')" "sb_id s' = i" "sb_node_id s' = n"
    by (auto simp: desired_here_def)
  with same_desires_in(2) [OF assms] same_desire_fields(1,2) show "desired_here st n i"
    by (fastforce simp: desired_here_def)
next
  assume "desired_here st n i"
  then obtain s where "s \<in> set (sandboxes st)" "sb_id s = i" "sb_node_id s = n"
    by (auto simp: desired_here_def)
  with same_desires_in(1) [OF assms] same_desire_fields(1,2) show "desired_here st' n i"
    by (fastforce simp: desired_here_def)
qed

lemma template_names:
  "map tm_name (templates (fst (pulls_for cj req st))) = map tm_name (templates st)"
proof -
  have spec: "map tm_name (templates (set_template_spec n s st)) = map tm_name (templates st)" for n s st
    by (simp add: set_template_spec_def upd_template_def map_key_upd_where)
  have step: "map tm_name (templates (fst (pull_step cj req inst before t acc))) = map tm_name (templates (fst acc))"
    for inst before t acc
    by (simp add: pull_step_def Let_def spec frame_simps split: prod.split option.split)
  have "map tm_name (templates (fst (fold (pull_step cj req inst before) ts acc))) = map tm_name (templates (fst acc))"
    for inst before ts acc
    by (induction ts arbitrary: acc) (simp_all add: step)
  then show ?thesis by (simp add: pulls_for_def split: option.split)
qed

lemma catalog_note_ips: "templates (fold note_ip os st) = templates st"
  "snapshots (fold note_ip os st) = snapshots st"
  by (induction os arbitrary: st) (simp_all add: note_ip_def set_sandbox_ip_def split: option.split)

lemma catalog_rejoin: "templates (rejoin now d b st) = templates st" "snapshots (rejoin now d b st) = snapshots st"
proof -
  have "templates (fold (\<lambda>n s. note_pool now n b (upd_node n f s)) ids st) = templates st"
    "snapshots (fold (\<lambda>n s. note_pool now n b (upd_node n f s)) ids st) = snapshots st" for f ids
    by (induction ids arbitrary: st) (simp_all add: frame_simps)
  then show "templates (rejoin now d b st) = templates st" "snapshots (rejoin now d b st) = snapshots st"
    by (simp_all add: rejoin_def Let_def)
qed

lemma catalog_refresh:
  "templates (m_store (refresh now req ms)) = templates (m_store ms)"
  "snapshots (m_store (refresh now req ms)) = snapshots (m_store ms)"
proof -
  have "templates (note_fingerprint now req st) = templates st" "snapshots (note_fingerprint now req st) = snapshots st" for st
    by (simp_all add: note_fingerprint_def refingerprint_node_def Let_def catalog_rejoin frame_simps split: option.split)
  then show "templates (m_store (refresh now req ms)) = templates (m_store ms)"
    "snapshots (m_store (refresh now req ms)) = snapshots (m_store ms)"
    by (simp_all add: refresh_def on_store_def catalog_note_ips note_host_def note_templates_def
        note_features_def record_host_def set_node_host_def set_node_health_def frame_simps Let_def
        split: option.split)
qed

definition has_template :: "store \<Rightarrow> string \<Rightarrow> bool" where
  "has_template st t \<longleftrightarrow> t \<in> tm_name ` set (templates st)"

definition has_snapshot :: "store \<Rightarrow> string \<Rightarrow> bool" where
  "has_snapshot st t \<longleftrightarrow> t \<in> st_tag ` set (snapshots st)"

lemma get_template_None: "get_template st t = None \<longleftrightarrow> \<not> has_template st t"
  by (simp add: get_template_def template_row_of_def row_of_None has_template_def)

lemma get_snapshot_None: "get_snapshot st t = None \<longleftrightarrow> \<not> has_snapshot st t"
  by (simp add: get_snapshot_def snapshot_row_of_def row_of_None has_snapshot_def)

lemma catalog_diff:
  "has_template (m_store (fst (diff cj cr now req ms))) t \<longleftrightarrow> has_template (m_store ms) t"
  "has_snapshot (m_store (fst (diff cj cr now req ms))) t \<longleftrightarrow> has_snapshot (m_store ms) t"
proof -
  have eq: "m_store (fst (diff cj cr now req ms)) = fst (pulls_for cj req (m_store (refresh now req ms)))"
    by (cases "pulls_for cj req (m_store (refresh now req ms))") (simp add: diff_def Let_def)
  have "set (map tm_name (templates (m_store (fst (diff cj cr now req ms))))) = set (map tm_name (templates (m_store ms)))"
    by (simp only: eq template_names catalog_refresh)
  then show "has_template (m_store (fst (diff cj cr now req ms))) t \<longleftrightarrow> has_template (m_store ms) t"
    by (simp add: has_template_def)
  show "has_snapshot (m_store (fst (diff cj cr now req ms))) t \<longleftrightarrow> has_snapshot (m_store ms) t"
    by (simp add: has_snapshot_def eq frame_simps catalog_refresh)
qed

lemma create_exists: "(\<exists>k. create_command cj cr now st n want = Some (Create k)) \<longleftrightarrow> has_template st (sb_template want)"
  "(\<exists>c. create_command cj cr now st n want = Some c) \<longleftrightarrow> has_template st (sb_template want)"
  using get_template_None [of st "sb_template want"]
  by (auto simp: create_command_def split: option.splits)

lemma diff_row:
  assumes "distinct (map sb_id (sandboxes (m_store ms)))" "s \<in> set (sandboxes (m_store ms))"
    and "sb_node_id s = pr_node_id req"
  obtains want where "same_desire s want"
    and "\<And>c. (\<exists>k. c = Create k \<and> cr_id k = sb_id s) \<or> (\<exists>t. c = SetTier (sb_id s) t) \<or>
         (\<exists>e. c = SetEgress (sb_id s) e) \<Longrightarrow>
         c \<in> set (snd (diff cj cr now req ms)) \<longleftrightarrow>
         c \<in> set (commands_for cj cr now req (m_store (fst (diff cj cr now req ms))) want)"
proof -
  note same = same_desires_diff [of ms cj cr now req]
  obtain want where want: "want \<in> set (sandboxes (m_store (fst (diff cj cr now req ms))))" "same_desire s want"
    using same_desires_in(1) [OF same assms(2)] by blast
  have d: "distinct (map sb_id (sandboxes (m_store (fst (diff cj cr now req ms)))))"
    using assms(1) same_desires_ids [OF same] by simp
  have w: "want \<in> set (sandboxes_on_node (m_store (fst (diff cj cr now req ms))) (pr_node_id req))"
    using want assms(3) same_desire_fields(2) [OF want(2)] by (simp add: sandboxes_on_node_set)
  show ?thesis
    using that [OF want(2)] lifecycle_in_diff [OF d w] same_desire_fields(1) [OF want(2)] by simp
qed

section \<open>Properties\<close>

text \<open>
  Traffic a node reports counts for the sandboxes it holds and for no other: each of those
  it names has its idle clock set, and becomes Hot in desired state exactly when the same report
  shows it serving and no pause of the last \<^verbatim>\<open>EXPLICIT_TIER_HOLD\<close> holds it; nothing else about
  any sandbox changes.
\<close>

theorem traffic_effect:
  "get_sandbox (m_store (apply_traffic now t req ms)) i =
     map_option (after_traffic now (pause_held t ms) req) (get_sandbox (m_store ms) i)"
  by (rule get_after_traffic)

text \<open>
  An eviction a node reports moves desired state to the tier the same report observes, for
  sandboxes that node holds and only ever colder: the new tier is the colder of the two, and
  nothing else about any sandbox changes.
\<close>

theorem eviction_effect:
  "get_sandbox (apply_evictions req st) i = map_option (after_eviction req) (get_sandbox st i)"
  by (rule get_after_evictions)

text \<open>
  A report decides a sandbox's error: the last failure it carries for the id is recorded
  with its attempts, with none if the node is only holding it back; otherwise the error of a
  sandbox of that node that the report observes is cleared; otherwise it stays.
\<close>

theorem failure_report_effect:
  assumes "distinct (map sb_id (sandboxes st))"
  shows "get_sandbox (record_failures req st) i = map_option (after_report req) (get_sandbox st i)"
  by (rule get_after_record_failures [OF assms])

text \<open>
  C12. What a node is told about a sandbox the store places on it: to create it exactly when it
  does not report it, it is not meant to be Detached, its template exists and it has failed
  fewer than \<^verbatim>\<open>MAX_FAILURES\<close> times; to move it to the desired tier, or to take the desired
  egress policy, exactly when it reports another and the sandbox is not quarantined; and never
  to destroy it, so a restarted master adopts what its nodes run.
\<close>

theorem diff_for_desired_sandbox:
  assumes "distinct (map sb_id (sandboxes (m_store ms)))" "s \<in> set (sandboxes (m_store ms))"
    and "sb_node_id s = pr_node_id req"
  shows "((\<exists>k. Create k \<in> set (snd (diff cj cr now req ms)) \<and> cr_id k = sb_id s) \<longleftrightarrow>
          sb_error_attempts s < MAX_FAILURES \<and> seen_as req (sb_id s) = None \<and> sb_tier s \<noteq> Detached
          \<and> has_template (m_store ms) (sb_template s))
    \<and> (SetTier (sb_id s) t \<in> set (snd (diff cj cr now req ms)) \<longleftrightarrow>
          sb_error_attempts s < MAX_FAILURES \<and> t = sb_tier s \<and>
          (case seen_as req (sb_id s) of None \<Rightarrow> False | Some got \<Rightarrow> ob_tier got \<noteq> sb_tier s))
    \<and> (SetEgress (sb_id s) e \<in> set (snd (diff cj cr now req ms)) \<longleftrightarrow>
          sb_error_attempts s < MAX_FAILURES \<and> e = sb_egress s \<and>
          (case Option.bind (seen_as req (sb_id s)) ob_egress of None \<Rightarrow> False | Some g \<Rightarrow> g \<noteq> sb_egress s))
    \<and> Destroy (sb_id s) x \<notin> set (snd (diff cj cr now req ms))"
proof -
  let ?st = "m_store (fst (diff cj cr now req ms))"
  obtain want where w: "same_desire s want"
    and cmds: "\<And>c. (\<exists>k. c = Create k \<and> cr_id k = sb_id s) \<or> (\<exists>t. c = SetTier (sb_id s) t) \<or>
         (\<exists>e. c = SetEgress (sb_id s) e) \<Longrightarrow>
         c \<in> set (snd (diff cj cr now req ms)) \<longleftrightarrow> c \<in> set (commands_for cj cr now req ?st want)"
    using diff_row [OF assms] by blast
  note f = same_desire_fields [OF w]
  have create: "(\<exists>k. Create k \<in> set (commands_for cj cr now req ?st want) \<and> cr_id k = sb_id s) \<longleftrightarrow>
      sb_error_attempts s < MAX_FAILURES \<and> seen_as req (sb_id s) = None \<and> sb_tier s \<noteq> Detached
      \<and> has_template (m_store ms) (sb_template s)"
    using create_exists [of cj cr now ?st "pr_node_id req" want] catalog_diff(1) [of cj cr now req ms "sb_template s"]
    by (auto simp: commands_for_def create_command_def f not_le split: option.splits)
  have "SetTier (sb_id s) t \<in> set (commands_for cj cr now req ?st want) \<longleftrightarrow>
      sb_error_attempts s < MAX_FAILURES \<and> t = sb_tier s \<and>
      (case seen_as req (sb_id s) of None \<Rightarrow> False | Some got \<Rightarrow> ob_tier got \<noteq> sb_tier s)"
    by (auto simp: commands_for_def create_command_def f not_le split: option.splits)
  moreover have "SetEgress (sb_id s) e \<in> set (commands_for cj cr now req ?st want) \<longleftrightarrow>
      sb_error_attempts s < MAX_FAILURES \<and> e = sb_egress s \<and>
      (case Option.bind (seen_as req (sb_id s)) ob_egress of None \<Rightarrow> False | Some g \<Rightarrow> g \<noteq> sb_egress s)"
    by (auto simp: commands_for_def create_command_def f not_le split: option.splits)
  moreover have "Destroy (sb_id s) x \<notin> set (snd (diff cj cr now req ms))"
    using assms(2,3) same_desires_here [OF same_desires_diff, of cj cr now req ms "pr_node_id req" "sb_id s"]
    by (auto simp: destroy_in_diff desired_here_def)
  ultimately show ?thesis using create cmds by blast
qed

text \<open>
  What a node is told about a sandbox the store does not place on it: to destroy it exactly
  when it reports it, giving back the slot it reported, and nothing else.
\<close>

theorem diff_for_undesired_sandbox:
  assumes "\<not> desired_here (m_store ms) (pr_node_id req) i"
  shows "(Destroy i x \<in> set (snd (diff cj cr now req ms)) \<longleftrightarrow>
          (\<exists>o' \<in> set (pr_observed req). ob_id o' = i \<and> ob_net_index o' = x))
    \<and> (\<nexists>k. Create k \<in> set (snd (diff cj cr now req ms)) \<and> cr_id k = i)
    \<and> SetTier i t \<notin> set (snd (diff cj cr now req ms))
    \<and> SetEgress i e \<notin> set (snd (diff cj cr now req ms))"
proof -
  let ?st = "m_store (fst (diff cj cr now req ms))"
  have nd: "\<not> desired_here ?st (pr_node_id req) i"
    using assms same_desires_here [OF same_desires_diff, of cj cr now req ms] by simp
  have "c \<notin> set (snd (diff cj cr now req ms))"
    if c: "(\<exists>k. c = Create k \<and> cr_id k = i) \<or> (\<exists>t. c = SetTier i t) \<or> (\<exists>e. c = SetEgress i e)" for c
  proof
    assume "c \<in> set (snd (diff cj cr now req ms))"
    moreover have "c \<notin> set (snd (pulls_for cj req (m_store (refresh now req ms))))"
      using c pull_commands_only by blast
    moreover have "c \<notin> set (destroys req ss)" "c \<notin> set (drops req st')" for ss st'
      using c by (auto simp: destroys_def drops_def)
    ultimately obtain want where "want \<in> set (sandboxes_on_node ?st (pr_node_id req))"
      "c \<in> set (commands_for cj cr now req ?st want)"
      unfolding diff_member by blast
    with c commands_for_ids [of c cj cr now req ?st want] nd show False
      by (auto simp: desired_here_def sandboxes_on_node_set)
  qed
  then have "(\<nexists>k. Create k \<in> set (snd (diff cj cr now req ms)) \<and> cr_id k = i)"
    "SetTier i t \<notin> set (snd (diff cj cr now req ms))" "SetEgress i e \<notin> set (snd (diff cj cr now req ms))"
    by blast+
  then show ?thesis using nd by (simp add: destroy_in_diff)
qed

definition is_pull :: "command \<Rightarrow> bool" where
  "is_pull c = (case c of PullTemplate _ _ _ \<Rightarrow> True | _ \<Rightarrow> False)"

text \<open>What a node reports is what the store wants of it.\<close>

definition agrees :: "poll_request \<Rightarrow> store \<Rightarrow> sandbox \<Rightarrow> bool" where
  "agrees req st s \<longleftrightarrow>
     (MAX_FAILURES \<le> sb_error_attempts s \<or>
      (case seen_as req (sb_id s) of
         None \<Rightarrow> sb_tier s = Detached \<or> \<not> has_template st (sb_template s)
       | Some got \<Rightarrow> ob_tier got = sb_tier s \<and> (ob_egress got = None \<or> ob_egress got = Some (sb_egress s))))"

definition converged :: "poll_request \<Rightarrow> store \<Rightarrow> bool" where
  "converged req st \<longleftrightarrow>
     list_all (agrees req st) (sandboxes_on_node st (pr_node_id req)) \<and>
     list_all (\<lambda>o'. desired_here st (pr_node_id req) (ob_id o')) (pr_observed req) \<and>
     list_all (has_snapshot st) (pr_tags req)"

lemma commands_for_empty: "commands_for cj cr now req st s = [] \<longleftrightarrow> agrees req st s"
  using create_exists(2) [of cj cr now st "pr_node_id req" s]
  by (auto simp: commands_for_def agrees_def not_le split: option.split)

lemma agrees_same:
  assumes "same_desire s s'" "\<And>t. has_template st' t \<longleftrightarrow> has_template st t"
  shows "agrees req st' s' \<longleftrightarrow> agrees req st s"
  using assms(2) by (simp add: agrees_def same_desire_fields [OF assms(1)] split: option.split)

lemma agrees_all_same:
  assumes same: "same_desires st st'" and tm: "\<And>t. has_template st' t \<longleftrightarrow> has_template st t"
  shows "(\<forall>s \<in> set (sandboxes_on_node st' n). agrees req st' s) \<longleftrightarrow>
         (\<forall>s \<in> set (sandboxes_on_node st n). agrees req st s)"
proof -
  have "list_all2 (\<lambda>s s'. (sb_node_id s' = n \<longrightarrow> agrees req st' s') \<longleftrightarrow> (sb_node_id s = n \<longrightarrow> agrees req st s))
      (sandboxes st) (sandboxes st')"
    using same unfolding same_desires_def
    by (rule list_all2_mono) (simp add: same_desire_fields(2) agrees_same [OF _ tm])
  then have "(\<forall>s' \<in> set (sandboxes st'). sb_node_id s' = n \<longrightarrow> agrees req st' s') \<longleftrightarrow>
      (\<forall>s \<in> set (sandboxes st). sb_node_id s = n \<longrightarrow> agrees req st s)"
    unfolding list_all2_conv_all_nth all_set_conv_all_nth by metis
  then show ?thesis by (auto simp: sandboxes_on_node_set)
qed

text \<open>
  C2. A difference is empty exactly when there is none: apart from image pulls, a node is
  sent no command if and only if every sandbox the store places on it is quarantined, or
  reported with the desired tier and policy, or absent and meant to be (Detached, or without a
  template), and everything it reports is placed on it, and every tag it holds is known.
\<close>

theorem diff_empty_iff_converged:
  "filter (\<lambda>c. \<not> is_pull c) (snd (diff cj cr now req ms)) = [] \<longleftrightarrow> converged req (m_store ms)"
proof -
  let ?st = "m_store (fst (diff cj cr now req ms))"
  have no_pull: "filter (\<lambda>c. \<not> is_pull c) (snd (pulls_for cj req st)) = []" for st
    by (auto simp: filter_empty_conv is_pull_def dest!: pull_commands_only)
  have keep: "filter (\<lambda>c. \<not> is_pull c) (commands_for cj cr now req ?st s) = commands_for cj cr now req ?st s" for s
    by (auto simp: filter_id_conv is_pull_def dest!: commands_for_ids)
  have "filter (\<lambda>c. \<not> is_pull c) (concat (map (commands_for cj cr now req ?st) ss)) =
      concat (map (commands_for cj cr now req ?st) ss)" for ss
    by (induction ss) (simp_all add: keep)
  moreover have "filter (\<lambda>c. \<not> is_pull c) (destroys req ss) = destroys req ss" for ss
    by (simp add: destroys_def filter_map comp_def is_pull_def)
  moreover have "filter (\<lambda>c. \<not> is_pull c) (drops req ?st) = drops req ?st"
    by (simp add: drops_def filter_map comp_def is_pull_def)
  ultimately have "filter (\<lambda>c. \<not> is_pull c) (snd (diff cj cr now req ms)) =
      concat (map (commands_for cj cr now req ?st) (sandboxes_on_node ?st (pr_node_id req))) @
      destroys req (sandboxes_on_node ?st (pr_node_id req)) @ drops req ?st"
    by (subst diff_parts) (simp add: no_pull)
  moreover have "destroys req (sandboxes_on_node ?st (pr_node_id req)) = [] \<longleftrightarrow>
      (\<forall>o' \<in> set (pr_observed req). desired_here ?st (pr_node_id req) (ob_id o'))"
    by (auto simp: destroys_def filter_empty_conv desired_here_def list_ex_iff sandboxes_on_node_set)
  moreover have "drops req ?st = [] \<longleftrightarrow> (\<forall>t \<in> set (pr_tags req). has_snapshot ?st t)"
    by (auto simp: drops_def filter_empty_conv get_snapshot_None)
  ultimately have "filter (\<lambda>c. \<not> is_pull c) (snd (diff cj cr now req ms)) = [] \<longleftrightarrow>
     (\<forall>s \<in> set (sandboxes_on_node ?st (pr_node_id req)). agrees req ?st s) \<and>
     (\<forall>o' \<in> set (pr_observed req). desired_here ?st (pr_node_id req) (ob_id o')) \<and>
     (\<forall>t \<in> set (pr_tags req). has_snapshot ?st t)"
    by (simp add: commands_for_empty)
  then show ?thesis
    by (simp add: converged_def list_all_iff agrees_all_same [OF same_desires_diff catalog_diff(1)]
        same_desires_here [OF same_desires_diff] catalog_diff(2))
qed

text \<open>
  A node that puts a command off is not sent it again before it is due: after the wait,
  what is left out is exactly the commands whose id the report defers, by the last entry it has
  for that id, for longer than it has waited, and the order of the rest is kept.
\<close>

theorem deferred_left_out:
  "leave_out_deferred req waited cmds =
     filter (\<lambda>c. \<not> (\<exists>d. find (\<lambda>d. df_id d = command_id c) (rev (pr_deferred req)) = Some d \<and> waited < retry_in_ms d)) cmds"
proof -
  have "map_of (rev (map (\<lambda>d. (df_id d, retry_in_ms d)) ds)) i = map_option retry_in_ms (find (\<lambda>d. df_id d = i) (rev ds))"
    for ds :: "deferred list" and i
    by (induction ds rule: rev_induct) auto
  then have "(case deferred_ms req (command_id c) of None \<Rightarrow> True | Some d \<Rightarrow> d \<le> waited) \<longleftrightarrow>
      \<not> (\<exists>d. find (\<lambda>d. df_id d = command_id c) (rev (pr_deferred req)) = Some d \<and> waited < retry_in_ms d)" for c
    by (auto simp: deferred_ms_def not_less split: option.split)
  then show ?thesis by (cases "pr_deferred req") (simp_all add: leave_out_deferred_def)
qed

text \<open>
  A poll is served only for the node the connection proved. When certificates are demanded,
  whatever certificate was presented, a poll that gets past the door for a node id means that a
  node of that id, not revoked, is registered with that certificate; otherwise the poll changes
  nothing.
\<close>

theorem poll_only_for_certificate_holder:
  assumes "require_node_certs ms" "require_node_cert ms (Some fp) = Inr who"
  shows "(\<exists>n \<in> set (nodes (m_store ms)). nd_id n = pr_node_id req \<and> nd_cert_sha256 n = Some fp \<and> \<not> nd_revoked n)
    \<or> (fst (poll cj cr who peer now t req ms') = ms' \<and> isl (snd (poll cj cr who peer now t req ms')))"
proof -
  from assms obtain i where i: "node_by_cert (m_store ms) fp = NodeCert i" "who = Verified i"
    by (auto simp: require_node_cert_def split: cert_owner.splits)
  show ?thesis
  proof (cases "i = pr_node_id req")
    case True
    with node_by_cert_holder [OF i(1)] show ?thesis by blast
  next
    case False
    then show ?thesis by (simp add: poll_def i(2))
  qed
qed

section \<open>Witnesses\<close>

definition two_wanted :: master where
  "two_wanted = default_options (empty_store\<lparr>
     sandboxes := [blank_sandbox\<lparr>sb_id := ''a'', sb_last_error := Some ''boom'', sb_error_attempts := 2\<rparr>,
                   blank_sandbox\<lparr>sb_id := ''b'', sb_tier := Frozen\<rparr>],
     templates := [\<lparr>tm_name = ''t'', tm_rootfs = ''r'', tm_spec = ''spec'', tm_created_at = 1,
       tm_image = None, tm_attempt = 0\<rparr>]\<rparr>)"

definition sees :: "string \<Rightarrow> tier \<Rightarrow> observed_sandbox" where
  "sees i t = \<lparr>ob_id = i, ob_tier = t, ob_serving = is_serving t, ob_ip = None, ob_net_index = None,
     ob_egress = None\<rparr>"

definition report_of :: "observed_sandbox list \<Rightarrow> poll_request" where
  "report_of os = (empty_report ''n1'')\<lparr>pr_observed := os\<rparr>"

lemma two_wanted_distinct: "distinct (map sb_id (sandboxes (m_store two_wanted)))"
  by (simp add: two_wanted_def default_options_def blank_sandbox_def)

definition toy_crypto :: crypto where
  "toy_crypto = \<lparr>hmac = (\<lambda>k msg. k @ msg), henc = id\<rparr>"

theorem failure_report_effect_witness:
  "map_option sb_last_error (get_sandbox (record_failures (report_of [sees ''a'' Hot]) (m_store two_wanted)) ''a'')
     = Some None"
  by (subst failure_report_effect [OF two_wanted_distinct])
    (simp add: report_of_def empty_report_def sees_def two_wanted_def default_options_def blank_sandbox_def
      get_sandbox_def row_of_def after_report_def last_failure_def observes_def)

theorem diff_for_desired_sandbox_witness:
  "SetTier ''b'' Frozen \<in> set (snd (diff (toy_codec JNull) toy_crypto 5 (report_of [sees ''b'' Hot]) two_wanted)) \<and>
   (\<exists>k. Create k \<in> set (snd (diff (toy_codec JNull) toy_crypto 5 (report_of [sees ''b'' Hot]) two_wanted)) \<and> cr_id k = ''a'')"
proof -
  have row: "blank_sandbox\<lparr>sb_id := ''b'', sb_tier := Frozen\<rparr> \<in> set (sandboxes (m_store two_wanted))"
    "blank_sandbox\<lparr>sb_id := ''a'', sb_last_error := Some ''boom'', sb_error_attempts := 2\<rparr> \<in> set (sandboxes (m_store two_wanted))"
    by (simp_all add: two_wanted_def default_options_def)
  show ?thesis
    using diff_for_desired_sandbox [OF two_wanted_distinct row(1), of "report_of [sees ''b'' Hot]" "toy_codec JNull" toy_crypto 5 Frozen]
      diff_for_desired_sandbox [OF two_wanted_distinct row(2), of "report_of [sees ''b'' Hot]" "toy_codec JNull" toy_crypto 5]
    by (simp add: blank_sandbox_def report_of_def empty_report_def seen_as_def sees_def MAX_FAILURES_def
        has_template_def two_wanted_def default_options_def)
qed

theorem diff_for_undesired_sandbox_witness:
  "Destroy ''ghost'' None \<in> set (snd (diff (toy_codec JNull) toy_crypto 5 (report_of [sees ''ghost'' Hot]) two_wanted))"
proof -
  have "\<not> desired_here (m_store two_wanted) (pr_node_id (report_of [sees ''ghost'' Hot])) ''ghost''"
    by (simp add: desired_here_def two_wanted_def default_options_def blank_sandbox_def)
  from diff_for_undesired_sandbox [OF this, of None "toy_codec JNull" toy_crypto 5 Hot default_egress_policy]
  show ?thesis by (simp add: report_of_def sees_def)
qed

theorem poll_only_for_certificate_holder_witness:
  "fst (poll (toy_codec JNull) toy_crypto (Verified ''a'') None 5 7 (report_of [sees ''b'' Hot]) two_wanted) = two_wanted"
proof -
  define ms where "ms = (default_options (empty_store\<lparr>nodes := [(new_node_row (joining_node 10 ''a'' ''p'' ''v'' 0 True))
     \<lparr>nd_cert_sha256 := Some ''fp''\<rparr>]\<rparr>))\<lparr>require_node_certs := True\<rparr>"
  have "require_node_certs ms" "require_node_cert ms (Some ''fp'') = Inr (Verified ''a'')"
    by (simp_all add: ms_def default_options_def require_node_cert_def node_by_cert_def new_node_row_def joining_node_def)
  from poll_only_for_certificate_holder [OF this, of "report_of [sees ''b'' Hot]" "toy_codec JNull" toy_crypto None 5 7 two_wanted]
  show ?thesis
    by (simp add: ms_def default_options_def new_node_row_def joining_node_def report_of_def empty_report_def)
qed

end
