(* ===== verification/Lifecycle.thy ===== *)
theory Lifecycle
  imports Tier
begin

text \<open>
  One sandbox on its node (\<^verbatim>\<open>node/runtime.rs\<close>, with \<^verbatim>\<open>prepare\<close>, \<^verbatim>\<open>unmount\<close> and \<^verbatim>\<open>teardown\<close>
  of \<^verbatim>\<open>bundle.rs\<close>): what is on disk and in the cgroup, and the operations that move it between
  tiers, bring it up, fork it, detach it and destroy it. \<open>'d\<close> is what a writable layer holds,
  \<open>'m\<close> what a program's memory holds. What the engine, \<^verbatim>\<open>tar\<close>, the mount and the network tools
  answer is an argument of every operation (\<open>answers\<close>), so a failure is any of its values.
  The memory of a frozen sandbox being squeezed into swap is not modelled, nor the logs; a
  firewall rule that could not be written, which is only logged, is taken to be written.
\<close>

section \<open>The state of one sandbox\<close>

record ('d, 'm) local =
  lo_bundle :: bool
  lo_config :: bool
  lo_bundle_at :: instant
  lo_net :: "u32 option"
  lo_layer :: "'d option"
  lo_mounted :: bool
  lo_running :: "'m option"
  lo_frozen :: bool
  lo_image :: "'m option"
  lo_restored :: "instant option"
  lo_archive :: "'d option"
  lo_rule :: bool
  lo_ns :: bool

text \<open>
  \<^verbatim>\<open>lo_bundle_at\<close> is the time the bundle's directory last had an entry made or removed,
  \<open>lo_restored\<close> the time of the marker \<^verbatim>\<open>restored\<close> in it, \<open>lo_rule\<close> the firewall rule that
  refuses connections and \<open>lo_ns\<close> the network namespace being up.
\<close>

definition nowhere :: "('d, 'm) local" where
  "nowhere = \<lparr>lo_bundle = False, lo_config = False, lo_bundle_at = 0, lo_net = None, lo_layer = None,
     lo_mounted = False, lo_running = None, lo_frozen = False, lo_image = None, lo_restored = None,
     lo_archive = None, lo_rule = False, lo_ns = False\<rparr>"

record 'm answers =
  freeze_written :: bool
  freeze_settled :: bool
  checkpoint_ok :: bool
  image_of :: "'m \<Rightarrow> 'm"
  validate_ok :: bool
  checkpoint_stops :: bool
  publish_ok :: bool
  preserve_ok :: bool
  release_ok :: bool
  restore_ok :: bool
  boot_ok :: bool
  resume_ok :: bool
  net_ok :: bool
  veth_ok :: bool
  unpack_ok :: bool
  mount_ok :: bool
  unmount_ok :: bool
  archive_ok :: bool
  teardown_ok :: bool
  egress_ok :: bool

definition all_ok :: "'m answers" where
  "all_ok = \<lparr>freeze_written = True, freeze_settled = True, checkpoint_ok = True, image_of = (\<lambda>m. m),
     validate_ok = True, checkpoint_stops = True, publish_ok = True, preserve_ok = True, release_ok = True, restore_ok = True, boot_ok = True,
     resume_ok = False, net_ok = True, veth_ok = True, unpack_ok = True, mount_ok = True,
     unmount_ok = True, archive_ok = True, teardown_ok = True, egress_ok = True\<rparr>"

datatype rt_error =
    NotHere
  | DidNotReach
  | NoTransition tier tier
  | ComesBackByCreate
  | NotFrozenInTime
  | CheckpointFailed
  | NotPublished
  | DiedAfterRestore
  | NoBundle
  | NoCheckpoint
  | RestoreFailed
  | BootFailed
  | NetworkFailed
  | NoTemplate
  | BadSpec
  | NoSuchTag
  | TagExists
  | AlreadyMounted
  | UnpackFailed
  | MountFailed
  | UnmountFailed
  | ArchiveFailed
  | EgressFailed

section \<open>What the node observes\<close>

text \<open>\<^verbatim>\<open>observe\<close> and \<^verbatim>\<open>tier_of\<close>: the cgroup first, then the image.\<close>

definition tier_of :: "('d, 'm) local \<Rightarrow> tier option" where
  "tier_of l =
     (if \<not> lo_bundle l then None
      else if lo_running l \<noteq> None then Some (if lo_frozen l then Frozen else Hot)
      else if lo_image l \<noteq> None then Some Snapshot else None)"

definition dead :: "millis \<Rightarrow> instant \<Rightarrow> ('d, 'm) local \<Rightarrow> bool" where
  "dead min_age now l \<longleftrightarrow>
     lo_bundle l \<and> lo_image l = None \<and> lo_running l = None \<and> lo_bundle_at l + min_age \<le> now"

section \<open>Steps\<close>

definition refuse_connections :: "('d, 'm) local \<Rightarrow> ('d, 'm) local" where
  "refuse_connections l = (if lo_net l = None then l else l\<lparr>lo_rule := True\<rparr>)"

definition accept_connections :: "('d, 'm) local \<Rightarrow> ('d, 'm) local" where
  "accept_connections l = (if lo_net l = None then l else l\<lparr>lo_rule := False\<rparr>)"

definition freeze :: "'m answers \<Rightarrow> bool \<Rightarrow> ('d, 'm) local \<Rightarrow> ('d, 'm) local \<times> (rt_error + unit)" where
  "freeze a on l =
     (if \<not> freeze_written a then (l, Inl NotFrozenInTime)
      else (l\<lparr>lo_frozen := on\<rparr>, if freeze_settled a then Inr () else Inl NotFrozenInTime))"

definition remove_engine :: "('d, 'm) local \<Rightarrow> ('d, 'm) local" where
  "remove_engine l = l\<lparr>lo_running := None, lo_frozen := False\<rparr>"

definition drop_snapshot :: "('d, 'm) local \<Rightarrow> ('d, 'm) local" where
  "drop_snapshot l = l\<lparr>lo_image := None\<rparr>"

definition note_restored :: "instant \<Rightarrow> ('d, 'm) local \<Rightarrow> ('d, 'm) local" where
  "note_restored now l =
     l\<lparr>lo_restored := Some now,
       lo_bundle_at := (if lo_restored l = None then now else lo_bundle_at l)\<rparr>"

definition forget_restore :: "instant \<Rightarrow> ('d, 'm) local \<Rightarrow> ('d, 'm) local" where
  "forget_restore now l =
     (case lo_restored l of
        None \<Rightarrow> l
      | Some _ \<Rightarrow> drop_snapshot (l\<lparr>lo_restored := None, lo_bundle_at := now\<rparr>))"

definition RESTORE_SURVIVAL :: millis where "RESTORE_SURVIVAL = from_secs 60"
definition DEAD_AFTER :: millis where "DEAD_AFTER = from_secs 60"

definition may_restore :: "instant \<Rightarrow> ('d, 'm) local \<Rightarrow> ('d, 'm) local \<times> (rt_error + unit)" where
  "may_restore now l =
     (case lo_restored l of
        None \<Rightarrow> (l, Inr ())
      | Some at' \<Rightarrow>
          if at' + RESTORE_SURVIVAL \<le> now then (remove_engine l, Inr ()) else (l, Inl DiedAfterRestore))"

text \<open>
  \<^verbatim>\<open>checkpoint_into\<close>: the engine writes an attempt beside the destination, which is validated,
  sealed and renamed into place (\<open>publish_ok\<close>); a failed attempt is removed. What the engine has written is
  \<open>image_of\<close> the memory, the memory itself only where it wrote all of it. The answer is what the image holds.
\<close>

definition checkpoint_into :: "'m answers \<Rightarrow> ('d, 'm) local \<Rightarrow> ('d, 'm) local \<times> (rt_error + 'm)" where
  "checkpoint_into a l =
     (let l1 = (if checkpoint_stops a then remove_engine l else l)
      in case lo_running l of
           None \<Rightarrow> (l, Inl CheckpointFailed)
         | Some m \<Rightarrow>
             if \<not> checkpoint_ok a then (l1, Inl CheckpointFailed)
             else if \<not> validate_ok a then (l1, Inl CheckpointFailed)
             else if \<not> publish_ok a then (l1, Inl NotPublished)
             else (l1, Inr (image_of a m)))"

text \<open>\<^verbatim>\<open>release_net\<close>: the namespace goes, and the rule with it.\<close>

definition release_net :: "'m answers \<Rightarrow> ('d, 'm) local \<Rightarrow> ('d, 'm) local" where
  "release_net a l =
     (if lo_net l = None \<or> \<not> release_ok a then l else l\<lparr>lo_ns := False, lo_rule := False\<rparr>)"

definition checkpoint :: "'m answers \<Rightarrow> instant \<Rightarrow> ('d, 'm) local \<Rightarrow> ('d, 'm) local \<times> (rt_error + unit)" where
  "checkpoint a now l =
     (let l1 = drop_snapshot (forget_restore now l)
      in case checkpoint_into a l1 of
           (l2, Inl e) \<Rightarrow> (l2, Inl e)
         | (l2, Inr m) \<Rightarrow> (release_net a (remove_engine (l2\<lparr>lo_image := Some m\<rparr>)), Inr ()))"

definition ensure_net :: "'m answers \<Rightarrow> ('d, 'm) local \<Rightarrow> ('d, 'm) local \<times> (rt_error + unit)" where
  "ensure_net a l =
     (if lo_net l = None then (l, Inr ())
      else if net_ok a then (l\<lparr>lo_ns := True\<rparr>, Inr ()) else (l, Inl NetworkFailed))"

definition restore :: "'m answers \<Rightarrow> instant \<Rightarrow> ('d, 'm) local \<Rightarrow> ('d, 'm) local \<times> (rt_error + unit)" where
  "restore a now l =
     (case may_restore now l of
        (l1, Inl e) \<Rightarrow> (l1, Inl e)
      | (l1, Inr _) \<Rightarrow>
          (case ensure_net a l1 of
             (l2, Inl e) \<Rightarrow> (l2, Inl e)
           | (l2, Inr _) \<Rightarrow>
               if \<not> lo_config l2 then (l2, Inl NoBundle)
               else (case lo_image l2 of
                       None \<Rightarrow> (l2, Inl NoCheckpoint)
                     | Some m \<Rightarrow>
                         if \<not> restore_ok a then (remove_engine l2, Inl RestoreFailed)
                         else (accept_connections (note_restored now
                                 (l2\<lparr>lo_running := Some m, lo_frozen := False\<rparr>)), Inr ()))))"

text \<open>
  The layer and the bundle directory go (\<^verbatim>\<open>bundle::teardown\<close>), and the marker with the bundle.
  It answers \<^verbatim>\<open>Ok\<close> also where they could not be removed (\<open>teardown_ok\<close> is false) and stay.
\<close>

definition teardown :: "'m answers \<Rightarrow> ('d, 'm) local \<Rightarrow> ('d, 'm) local" where
  "teardown a l =
     (if \<not> teardown_ok a then l\<lparr>lo_mounted := lo_mounted l \<and> \<not> unmount_ok a\<rparr>
      else l\<lparr>lo_layer := None, lo_mounted := False, lo_bundle := False, lo_config := False,
              lo_net := None, lo_restored := None\<rparr>)"

text \<open>\<^verbatim>\<open>detach\<close>: the published archive is replaced only by a whole new one.\<close>

definition detach :: "'m answers \<Rightarrow> ('d, 'm) local \<Rightarrow> ('d, 'm) local \<times> (rt_error + unit)" where
  "detach a l =
     (if lo_mounted l \<and> \<not> unmount_ok a then (l, Inl UnmountFailed)
      else let l1 = l\<lparr>lo_mounted := False\<rparr>
           in case lo_layer l1 of
                None \<Rightarrow> (l1, Inl ArchiveFailed)
              | Some d \<Rightarrow>
                  if \<not> archive_ok a then (l1, Inl ArchiveFailed)
                  else (teardown a (drop_snapshot (l1\<lparr>lo_archive := Some d\<rparr>)), Inr ()))"

text \<open>\<^verbatim>\<open>step\<close>, the transition table.\<close>

fun step :: "'m answers \<Rightarrow> instant \<Rightarrow> tier \<Rightarrow> tier \<Rightarrow> ('d, 'm) local \<Rightarrow> ('d, 'm) local \<times> (rt_error + unit)" where
  "step a now Hot Frozen l = freeze a True l"
| "step a now Frozen Hot l = freeze a False l"
| "step a now Frozen Snapshot l =
     (case freeze a False l of (l1, Inl e) \<Rightarrow> (l1, Inl e) | (l1, Inr _) \<Rightarrow> checkpoint a now l1)"
| "step a now Hot Snapshot l = checkpoint a now l"
| "step a now Snapshot Hot l = restore a now l"
| "step a now Snapshot Detached l =
     (case detach a l of
        (l1, Inl e) \<Rightarrow> (l1, Inl e)
      | (l1, Inr _) \<Rightarrow> (l1, if egress_ok a then Inr () else Inl EgressFailed))"
| "step a now Detached Hot l = (l, Inl ComesBackByCreate)"
| "step a now f u l = (l, Inl (NoTransition f u))"

section \<open>Moving to a tier\<close>

definition settle :: "tier \<Rightarrow> ('d, 'm) local \<Rightarrow> ('d, 'm) local" where
  "settle want l = (if is_serving want then accept_connections l else l)"

definition next_tier :: "tier \<Rightarrow> tier \<Rightarrow> tier" where
  "next_tier have_tier want =
     (if have_tier < want then (case colder have_tier of Some c \<Rightarrow> c | None \<Rightarrow> want) else Hot)"

text \<open>The loop of \<^verbatim>\<open>set_tier\<close>; the answers of each round are those of its number.\<close>

primrec walk :: "nat \<Rightarrow> (nat \<Rightarrow> 'm answers) \<Rightarrow> instant \<Rightarrow> tier \<Rightarrow> ('d, 'm) local
    \<Rightarrow> ('d, 'm) local \<times> (rt_error + unit)" where
  "walk 0 as now want l = (l, Inl DidNotReach)"
| "walk (Suc k) as now want l =
     (case tier_of l of
        None \<Rightarrow> (l, Inl NotHere)
      | Some h \<Rightarrow>
          if h = want then (settle want l, Inr ())
          else let n = next_tier h want
               in case step (as k) now h n l of
                    (l1, Inl e) \<Rightarrow> (l1, Inl e)
                  | (l1, Inr _) \<Rightarrow>
                      if n = want then (settle want l1, Inr ()) else walk k as now want l1)"

definition set_tier :: "(nat \<Rightarrow> 'm answers) \<Rightarrow> instant \<Rightarrow> tier \<Rightarrow> ('d, 'm) local
    \<Rightarrow> ('d, 'm) local \<times> (rt_error + unit)" where
  "set_tier as now want l =
     walk (length ORDER) as now want (if is_serving want then l else refuse_connections l)"

section \<open>Coming up, forking and going\<close>

text \<open>
  What a create is given besides the sandbox's own state: the request, what its template and tag
  hold on this node, and what the engine makes of them (\<open>fresh_memory\<close> of a boot, \<open>unpack\<close> of an
  archive over a layer). Whether a warm image is ready, and the seeding of one, are arguments.
\<close>

record ('d, 'm) create_env =
  rq_net :: "u32 option"
  rq_fork :: bool
  rq_volume :: bool
  rq_seed :: bool
  template_here :: bool
  spec_parses :: bool
  spec_builds :: bool
  wants_warm :: bool
  warm_image :: "'m option"
  warm_ok :: bool
  tag_image :: "'m option"
  veth_needed :: bool
  fresh_memory :: 'm
  blank :: 'd
  unpack :: "'d \<Rightarrow> 'd \<Rightarrow> 'd"

text \<open>Making the bundle's directory, or a first entry in it, moves the time it was changed.\<close>

definition setup_net :: "('d, 'm) create_env \<Rightarrow> 'm answers \<Rightarrow> instant \<Rightarrow> ('d, 'm) local
    \<Rightarrow> ('d, 'm) local \<times> (rt_error + unit)" where
  "setup_net ce a now l =
     (case rq_net ce of
        None \<Rightarrow> (l, Inr ())
      | Some i \<Rightarrow>
          if \<not> net_ok a then (l, Inl NetworkFailed)
          else if \<not> egress_ok a then (l\<lparr>lo_ns := True\<rparr>, Inl EgressFailed)
          else if veth_needed ce \<and> \<not> veth_ok a then (l\<lparr>lo_ns := True\<rparr>, Inl NetworkFailed)
          else (l\<lparr>lo_ns := True, lo_bundle := True, lo_net := Some i,
                  lo_bundle_at := (if lo_bundle l \<and> lo_net l \<noteq> None then lo_bundle_at l else now)\<rparr>, Inr ()))"

text \<open>\<^verbatim>\<open>bundle::build\<close>: directories, then the archive under the overlay, the mount and the config.\<close>

definition prepare :: "('d, 'm) create_env \<Rightarrow> 'm answers \<Rightarrow> instant \<Rightarrow> 'd option \<Rightarrow> ('d, 'm) local
    \<Rightarrow> ('d, 'm) local \<times> (rt_error + unit)" where
  "prepare ce a now restore_from l =
     (let base = (case lo_layer l of Some d \<Rightarrow> d | None \<Rightarrow> blank ce);
          l1 = l\<lparr>lo_bundle := True, lo_bundle_at := (if lo_bundle l then lo_bundle_at l else now),
                 lo_layer := Some base\<rparr>;
          configure = (\<lambda>l2. if \<not> spec_builds ce then (l2, Inl BadSpec)
            else (l2\<lparr>lo_config := True, lo_bundle_at := (if lo_config l2 then lo_bundle_at l2 else now)\<rparr>, Inr ()))
      in if lo_mounted l1 then
           (if restore_from \<noteq> None then (l1, Inl AlreadyMounted) else configure l1)
         else
           (case restore_from of
              None \<Rightarrow> if mount_ok a then configure (l1\<lparr>lo_mounted := True\<rparr>) else (l1, Inl MountFailed)
            | Some arc \<Rightarrow>
                if \<not> unpack_ok a then (l1, Inl UnpackFailed)
                else let l2 = l1\<lparr>lo_layer := Some (unpack ce arc base)\<rparr>
                     in if mount_ok a then configure (l2\<lparr>lo_mounted := True\<rparr>) else (l2, Inl MountFailed)))"

definition finish_net :: "'m answers \<Rightarrow> ('d, 'm) local \<Rightarrow> ('d, 'm) local \<times> (rt_error + unit)" where
  "finish_net a l = (if veth_ok a then (l, Inr ()) else (remove_engine l, Inl NetworkFailed))"

definition start_cold :: "('d, 'm) create_env \<Rightarrow> 'm answers \<Rightarrow> instant \<Rightarrow> ('d, 'm) local
    \<Rightarrow> ('d, 'm) local \<times> (rt_error + unit)" where
  "start_cold ce a now l =
     (let up = (\<lambda>m. case finish_net a (l\<lparr>lo_running := Some m, lo_frozen := False\<rparr>) of
                  (l1, Inl e) \<Rightarrow> (l1, Inl e)
                | (l1, Inr _) \<Rightarrow> (accept_connections (if rq_fork ce then note_restored now l1 else l1), Inr ()))
      in if rq_fork ce then
           (case tag_image ce of
              None \<Rightarrow> (l, Inl NoSuchTag)
            | Some m \<Rightarrow> if restore_ok a then up m else (remove_engine l, Inl RestoreFailed))
         else if boot_ok a then up (fresh_memory ce) else (remove_engine l, Inl BootFailed))"

definition start_warm :: "('d, 'm) create_env \<Rightarrow> 'm answers \<Rightarrow> 'd option \<Rightarrow> 'm option" where
  "start_warm ce a restore_from =
     (if wants_warm ce \<and> \<not> rq_fork ce \<and> restore_from = None \<and> \<not> rq_volume ce \<and> \<not> rq_seed ce
      then warm_image ce else None)"

definition create :: "('d, 'm) create_env \<Rightarrow> 'm answers \<Rightarrow> instant \<Rightarrow> ('d, 'm) local
    \<Rightarrow> ('d, 'm) local \<times> (rt_error + unit)" where
  "create ce a now l =
     (if \<not> template_here ce then (l, Inl NoTemplate)
      else if \<not> spec_parses ce then (l, Inl BadSpec)
      else case (if rq_fork ce then may_restore now l else (l, Inr ())) of
        (l1, Inl e) \<Rightarrow> (l1, Inl e)
      | (l1, Inr _) \<Rightarrow>
          let arc = lo_archive l1 in
          (case setup_net ce a now l1 of
             (l2, Inl e) \<Rightarrow> (l2, Inl e)
           | (l2, Inr _) \<Rightarrow>
               (case prepare ce a now arc l2 of
                  (l3, Inl e) \<Rightarrow> (l3, Inl e)
                | (l3, Inr _) \<Rightarrow>
                    (case start_warm ce a arc of
                       None \<Rightarrow> start_cold ce a now l3
                     | Some m \<Rightarrow>
                         if warm_ok ce then
                           (case finish_net a (l3\<lparr>lo_running := Some m, lo_frozen := False\<rparr>) of
                              (l4, Inl e) \<Rightarrow> (l4, Inl e)
                            | (l4, Inr _) \<Rightarrow> (accept_connections l4, Inr ()))
                         else start_cold ce a now (remove_engine l3)))))"

text \<open>
  \<^verbatim>\<open>branch\<close>: the answer is the memory the tag's image holds. Where the parent can neither carry
  on nor be put back, the image becomes its own snapshot and there is no tag.
\<close>

definition branch :: "'m answers \<Rightarrow> bool \<Rightarrow> ('d, 'm) local \<Rightarrow> ('d, 'm) local \<times> (rt_error + 'm)" where
  "branch a tag_exists l =
     (let keep = (\<lambda>l2 m e. if preserve_ok a then (l2\<lparr>lo_image := Some m\<rparr>, Inl e)
                           else (drop_snapshot l2, Inl NotPublished))
      in if tag_exists then (l, Inl TagExists)
         else if \<not> lo_config l then (l, Inl NoBundle)
         else case checkpoint_into a (fst (freeze a False l)) of
           (l1, Inl e) \<Rightarrow> (l1, Inl e)
         | (l1, Inr m) \<Rightarrow>
             if resume_ok a then (l1\<lparr>lo_running := lo_running l\<rparr>, Inr m)
             else (case ensure_net a (remove_engine l1) of
                     (l2, Inl e) \<Rightarrow> keep l2 m e
                   | (l2, Inr _) \<Rightarrow>
                       if restore_ok a then (l2\<lparr>lo_running := Some m\<rparr>, Inr m) else keep l2 m RestoreFailed))"

definition destroy :: "'m answers \<Rightarrow> ('d, 'm) local \<Rightarrow> ('d, 'm) local" where
  "destroy a l =
     (teardown a (drop_snapshot (remove_engine (fst (freeze a False l)))))\<lparr>lo_archive := None\<rparr>"

definition destroy_with_net :: "'m answers \<Rightarrow> u32 option \<Rightarrow> ('d, 'm) local \<Rightarrow> ('d, 'm) local \<times> (rt_error + unit)" where
  "destroy_with_net a net_index l =
     (let index = (case net_index of Some i \<Rightarrow> Some i | None \<Rightarrow> lo_net l);
          l1 = destroy a l
      in if \<not> egress_ok a then (l1, Inl EgressFailed)
         else if index = None then (l1, Inr ())
         else if \<not> net_ok a then (l1, Inl NetworkFailed)
         else (l1\<lparr>lo_ns := False, lo_rule := False\<rparr>, Inr ()))"

text \<open>\<^verbatim>\<open>reap_dead\<close> and \<^verbatim>\<open>settle_restores\<close> for this sandbox, when nobody holds its lock.\<close>

definition reap_dead :: "'m answers \<Rightarrow> instant \<Rightarrow> ('d, 'm) local \<Rightarrow> ('d, 'm) local" where
  "reap_dead a now l = (if dead DEAD_AFTER now l then fst (destroy_with_net a None l) else l)"

definition settle_restore :: "instant \<Rightarrow> ('d, 'm) local \<Rightarrow> ('d, 'm) local" where
  "settle_restore now l =
     (if lo_running l \<noteq> None \<and> (case lo_restored l of None \<Rightarrow> False | Some at' \<Rightarrow> at' + RESTORE_SURVIVAL \<le> now)
      then forget_restore now l else l)"

text \<open>The program ends on its own.\<close>

definition dies :: "('d, 'm) local \<Rightarrow> ('d, 'm) local" where
  "dies l = l\<lparr>lo_running := None\<rparr>"

end
