(* ===== verification/NodeAdmission.thy ===== *)
theory NodeAdmission
  imports Templates
begin

text \<open>
  A node's own admission: the reading of the host (\<^verbatim>\<open>HostReading\<close> of \<^verbatim>\<open>node/runtime.rs\<close>), the memory it
  has promised to sandboxes still starting (\<^verbatim>\<open>node/starting.rs\<close>), and what it holds back for want of
  memory (\<^verbatim>\<open>short_of\<close>, \<^verbatim>\<open>holding_back_at\<close>, \<^verbatim>\<open>holding_back\<close> and \<^verbatim>\<open>admit\<close> of \<^verbatim>\<open>node/mod.rs\<close>). Figures
  in MiB are \<^verbatim>\<open>u64\<close>s in the code: subtraction saturates there as it does on \<open>nat\<close>, and a sum wraps
  (\<open>plus64\<close>). The pressure average, an \<^verbatim>\<open>f64\<close>, is a real number.
\<close>

section \<open>The reading\<close>

record host_reading =
  hr_free_mib :: nat
  hr_swap_free_mib :: nat
  hr_swap_total_mib :: nat
  hr_psi :: real

definition swap_floor_mib :: "host_reading \<Rightarrow> nat \<Rightarrow> nat option" where
  "swap_floor_mib r min_free =
     (if 0 < hr_swap_total_mib r then Some (min min_free (hr_swap_total_mib r div 4)) else None)"

definition swap_short :: "host_reading \<Rightarrow> nat \<Rightarrow> bool" where
  "swap_short r min_free =
     (case swap_floor_mib r min_free of Some f \<Rightarrow> hr_swap_free_mib r < f | None \<Rightarrow> False)"

section \<open>Memory promised\<close>

definition plus64 :: "nat \<Rightarrow> nat \<Rightarrow> nat" where
  "plus64 a b = (a + b) mod 2 ^ 64"

definition SAMPLE :: millis where "SAMPLE = 300"
definition FLAT_MIB :: nat where "FLAT_MIB = 2"
definition FLAT_LOOKS :: nat where "FLAT_LOOKS = 2"
definition WINDOW :: millis where "WINDOW = from_secs 30"
definition NO_LIMIT_MIB :: nat where "NO_LIMIT_MIB = 512"

record entry =
  se_started :: instant
  se_limit_mib :: nat
  se_seen_mib :: nat
  se_seen_at :: instant
  se_flat :: nat
  se_promised :: bool

type_synonym starting = "(string, entry) book"

definition starting_insert :: "string \<Rightarrow> nat option \<Rightarrow> instant \<Rightarrow> bool \<Rightarrow> starting \<Rightarrow> starting" where
  "starting_insert i limit now promised s =
     put i \<lparr>se_started = now, se_limit_mib = (case limit of Some l \<Rightarrow> l | None \<Rightarrow> NO_LIMIT_MIB),
            se_seen_mib = 0, se_seen_at = now, se_flat = 0, se_promised = promised\<rparr> s"

definition starting_add :: "string \<Rightarrow> nat option \<Rightarrow> instant \<Rightarrow> starting \<Rightarrow> starting" where
  "starting_add i limit now = starting_insert i limit now False"

definition starting_promise :: "string \<Rightarrow> nat option \<Rightarrow> instant \<Rightarrow> starting \<Rightarrow> starting" where
  "starting_promise i limit now = starting_insert i limit now True"

definition starting_forget :: "string \<Rightarrow> starting \<Rightarrow> starting" where
  "starting_forget i s = del i s"

text \<open>
  One entry of \<^verbatim>\<open>owed_mib\<close>'s \<^verbatim>\<open>retain\<close>: what is kept of it, if it is kept, and what it owes.
\<close>

definition look :: "instant \<Rightarrow> (string \<Rightarrow> nat option) \<Rightarrow> string \<Rightarrow> entry \<Rightarrow> (entry \<times> nat) option" where
  "look now used i e =
     (if now - se_started e \<ge> WINDOW then None
      else if se_promised e then Some (e, se_limit_mib e)
      else case used i of
        None \<Rightarrow> None
      | Some mib \<Rightarrow>
          if now - se_seen_at e \<ge> SAMPLE then
            (let flat = (if mib \<le> se_seen_mib e + FLAT_MIB then se_flat e + 1 else 0);
                 e' = e\<lparr>se_flat := flat, se_seen_mib := mib, se_seen_at := now\<rparr>
             in if flat \<ge> FLAT_LOOKS then None else Some (e', se_limit_mib e - mib))
          else Some (e, se_limit_mib e - mib))"

definition owed_mib :: "instant \<Rightarrow> (string \<Rightarrow> nat option) \<Rightarrow> starting \<Rightarrow> starting \<times> nat" where
  "owed_mib now used s =
     fold (\<lambda>(i, e) (kept, owed).
         case look now used i e of
           None \<Rightarrow> (kept, owed)
         | Some (e', o') \<Rightarrow> (kept @ [(i, e')], plus64 owed o')) s ([], 0)"

section \<open>Holding back\<close>

datatype held_back =
    LowFree nat nat
  | LowSwap nat nat
  | Pressure real real
  | Restarting
  | WithOwed held_back nat
  | WakesWaiting nat nat
  | NoRestoreInTime millis

definition short_of :: "nat \<Rightarrow> host_reading \<Rightarrow> held_back option" where
  "short_of min_free r =
     (if 0 < hr_free_mib r \<and> hr_free_mib r < min_free then Some (LowFree (hr_free_mib r) min_free)
      else if swap_short r min_free
        then Some (LowSwap (hr_swap_free_mib r) (case swap_floor_mib r min_free of Some f \<Rightarrow> f | None \<Rightarrow> 0))
      else None)"

fun costs_memory :: "command \<Rightarrow> bool" where
  "costs_memory (Create _) = True"
| "costs_memory (SetTier _ t) = (t = Hot)"
| "costs_memory _ = False"

definition holding_back_at :: "nat \<Rightarrow> real \<Rightarrow> command \<Rightarrow> host_reading \<Rightarrow> held_back option" where
  "holding_back_at min_free max_psi cmd r =
     (if \<not> costs_memory cmd then None
      else case short_of min_free r of
        Some why \<Rightarrow> Some why
      | None \<Rightarrow> if hr_psi r > max_psi then Some (Pressure (hr_psi r) max_psi) else None)"

definition less_owed :: "nat \<Rightarrow> host_reading \<Rightarrow> host_reading" where
  "less_owed owed r = (if 0 < hr_free_mib r then r\<lparr>hr_free_mib := max (hr_free_mib r - owed) 1\<rparr> else r)"

definition holding_back :: "nat \<Rightarrow> real \<Rightarrow> instant \<Rightarrow> (string \<Rightarrow> nat option) \<Rightarrow> host_reading \<Rightarrow> command
    \<Rightarrow> starting \<Rightarrow> starting \<times> held_back option" where
  "holding_back min_free max_psi now used r cmd s =
     (let (s1, owed) = owed_mib now used s
      in (s1, map_option (\<lambda>why. if owed = 0 then why else WithOwed why owed)
                (holding_back_at min_free max_psi cmd (less_owed owed r))))"

text \<open>\<^verbatim>\<open>spec.get("memory_max_mib").and_then(as_u64)\<close>.\<close>

definition memory_limit :: "json \<Rightarrow> nat option" where
  "memory_limit spec =
     (case json_get spec ''memory_max_mib'' of
        Some (JNum n) \<Rightarrow> if 0 \<le> n \<and> n < 2 ^ 64 then Some (nat n) else None
      | _ \<Rightarrow> None)"

definition admit_cmd :: "nat \<Rightarrow> real \<Rightarrow> instant \<Rightarrow> (string \<Rightarrow> nat option) \<Rightarrow> host_reading \<Rightarrow> command
    \<Rightarrow> starting \<Rightarrow> starting \<times> held_back option" where
  "admit_cmd min_free max_psi now used r cmd s =
     (let (s1, why) = holding_back min_free max_psi now used r cmd s
      in (case (why, cmd) of
            (None, Create c) \<Rightarrow> starting_promise (cr_id c) (memory_limit (cr_spec c)) now s1
          | _ \<Rightarrow> s1,
          why))"

lemma admit_free: "\<not> costs_memory cmd \<Longrightarrow> snd (admit_cmd min_free max_psi now used r cmd s) = None"
  by (simp add: admit_cmd_def holding_back_def holding_back_at_def split: prod.split)

section \<open>What is owed\<close>

text \<open>Below the width of the counter, what is kept and what is owed are read off the entries one by one.\<close>

definition total_mib :: "starting \<Rightarrow> nat" where
  "total_mib s = (\<Sum>(_, e) \<leftarrow> s. se_limit_mib e)"

definition kept :: "instant \<Rightarrow> (string \<Rightarrow> nat option) \<Rightarrow> starting \<Rightarrow> starting" where
  "kept now used s = List.map_filter (\<lambda>(i, e). map_option (\<lambda>(e', _). (i, e')) (look now used i e)) s"

definition debt :: "instant \<Rightarrow> (string \<Rightarrow> nat option) \<Rightarrow> starting \<Rightarrow> nat" where
  "debt now used s = (\<Sum>(i, e) \<leftarrow> s. case look now used i e of Some (_, m) \<Rightarrow> m | None \<Rightarrow> 0)"

lemma look_le: "look now used i e = Some (e', m) \<Longrightarrow> m \<le> se_limit_mib e \<and> se_limit_mib e' = se_limit_mib e"
  by (auto simp: look_def Let_def split: if_splits option.splits)

lemma look_young: "se_promised e \<Longrightarrow> now - se_started e < WINDOW \<Longrightarrow> look now used i e = Some (e, se_limit_mib e)"
  by (simp add: look_def)

lemma debt_le_total: "debt now used s \<le> total_mib s"
  unfolding debt_def total_mib_def
  by (rule sum_list_mono) (auto split: option.split dest: look_le)

lemma owed_mib_eq:
  assumes "total_mib s < 2 ^ 64"
  shows "owed_mib now used s = (kept now used s, debt now used s)"
proof -
  let ?f = "\<lambda>(i, e) (kept, owed). case look now used i e of None \<Rightarrow> (kept, owed)
      | Some (e', m) \<Rightarrow> (kept @ [(i, e')], plus64 owed m)"
  have "fold ?f s (ks, n) = (ks @ kept now used s, n + debt now used s)" if "n + total_mib s < 2 ^ 64" for ks n
    using that
  proof (induction s arbitrary: ks n)
    case (Cons x s)
    obtain i e where x: "x = (i, e)" by fastforce
    show ?case
    proof (cases "look now used i e")
      case (Some r)
      then obtain e' m where r: "look now used i e = Some (e', m)" by (cases r) auto
      with look_le have m: "m \<le> se_limit_mib e" by blast
      with Cons.prems x have "n + m + total_mib s < 2 ^ 64" by (simp add: total_mib_def)
      moreover from this have "plus64 n m = n + m" by (simp add: plus64_def)
      ultimately show ?thesis using Cons.IH [of "n + m"] x r
        by (simp add: kept_def debt_def map_filter_simps)
    qed (use Cons x in \<open>simp add: kept_def debt_def map_filter_simps total_mib_def\<close>)
  qed (simp add: kept_def debt_def map_filter_simps)
  from this [of 0 Nil] assms show ?thesis by (simp add: owed_mib_def)
qed

lemma kept_keys: "fst ` set (kept now used s) \<subseteq> fst ` set s"
  by (force simp: kept_def List.map_filter_def split: option.splits)

lemma total_kept: "total_mib (kept now used s) \<le> total_mib s"
proof (induction s)
  case (Cons x s)
  then show ?case
    by (cases x) (auto simp: kept_def total_mib_def map_filter_simps dest: look_le split: option.split)
qed (simp add: kept_def total_mib_def map_filter_simps)

section \<open>The promises of a node\<close>

text \<open>
  What befalls the book: a command is asked for at a time, with what the sandboxes use and what the
  host reads; a create has ended and its sandbox runs (\<^verbatim>\<open>note_started\<close>); it will not start after
  all (\<^verbatim>\<open>note_not_starting\<close>). Beside the book goes a ledger of what was let through, from which only
  what starts again, does not start or is found gone is ever taken out.
\<close>

datatype adm_event =
    Asked instant "string \<Rightarrow> nat option" host_reading command
  | Started string "nat option" instant
  | NotStarting string

record promise =
  pr_limit :: nat
  pr_at :: instant
  pr_running :: bool

type_synonym ledger = "(string, promise) book"

definition counted_limit :: "nat option \<Rightarrow> nat" where
  "counted_limit l = (case l of Some l \<Rightarrow> l | None \<Rightarrow> NO_LIMIT_MIB)"

fun admission :: "nat \<Rightarrow> real \<Rightarrow> adm_event \<Rightarrow> starting \<times> ledger \<Rightarrow> starting \<times> ledger" where
  "admission min_free max_psi (Asked now used r cmd) (s, g) =
     (let (s1, why) = admit_cmd min_free max_psi now used r cmd s;
          g1 = keep (\<lambda>i p. \<not> pr_running p \<or> used i \<noteq> None) g
      in (s1, case (why, cmd) of
                (None, Create c) \<Rightarrow>
                  put (cr_id c) \<lparr>pr_limit = counted_limit (memory_limit (cr_spec c)), pr_at = now, pr_running = False\<rparr> g1
              | _ \<Rightarrow> g1))"
| "admission min_free max_psi (Started i l now) (s, g) =
     (starting_add i l now s, put i \<lparr>pr_limit = counted_limit l, pr_at = now, pr_running = True\<rparr> g)"
| "admission min_free max_psi (NotStarting i) (s, g) = (starting_forget i s, del i g)"

definition admissions :: "nat \<Rightarrow> real \<Rightarrow> adm_event list \<Rightarrow> starting \<times> ledger" where
  "admissions min_free max_psi evs = fold (admission min_free max_psi) evs ([], [])"

text \<open>The events are in the order of their times, and all before a time.\<close>

fun in_time :: "instant \<Rightarrow> adm_event list \<Rightarrow> instant \<Rightarrow> bool" where
  "in_time t [] now \<longleftrightarrow> t \<le> now"
| "in_time t (Asked t' _ _ _ # evs) now \<longleftrightarrow> t \<le> t' \<and> in_time t' evs now"
| "in_time t (Started _ _ t' # evs) now \<longleftrightarrow> t \<le> t' \<and> in_time t' evs now"
| "in_time t (NotStarting _ # evs) now \<longleftrightarrow> in_time t evs now"

fun ev_limit :: "adm_event \<Rightarrow> nat" where
  "ev_limit (Asked _ _ _ (Create c)) = counted_limit (memory_limit (cr_spec c))"
| "ev_limit (Started _ l _) = counted_limit l"
| "ev_limit _ = 0"

text \<open>
  Until when an entry of the ledger is counted whatever happens, and for how much: a create let
  through for its limit, a sandbox that has started for what is left of it.
\<close>

definition counted_until :: "promise \<Rightarrow> instant" where
  "counted_until p = pr_at p + (if pr_running p then FLAT_LOOKS * SAMPLE else WINDOW)"

definition owing :: "instant \<Rightarrow> (string \<Rightarrow> nat option) \<Rightarrow> string \<Rightarrow> promise \<Rightarrow> nat" where
  "owing now used i p =
     (if counted_until p \<le> now then 0
      else if pr_running p then (case used i of Some m \<Rightarrow> pr_limit p - m | None \<Rightarrow> 0) else pr_limit p)"

definition spoken_for :: "instant \<Rightarrow> (string \<Rightarrow> nat option) \<Rightarrow> ledger \<Rightarrow> nat" where
  "spoken_for now used g = (\<Sum>(i, p) \<leftarrow> g. owing now used i p)"

definition matches :: "promise \<Rightarrow> entry \<Rightarrow> bool" where
  "matches p e \<longleftrightarrow> se_limit_mib e = pr_limit p \<and> se_started e = pr_at p \<and> se_promised e = (\<not> pr_running p) \<and>
     pr_at p + se_flat e * SAMPLE \<le> se_seen_at e"

definition covers :: "instant \<Rightarrow> starting \<Rightarrow> ledger \<Rightarrow> bool" where
  "covers t s g \<longleftrightarrow> book_ok s \<and> book_ok g \<and>
     (\<forall>i p. map_of g i = Some p \<longrightarrow> t < counted_until p \<longrightarrow> (\<exists>e. map_of s i = Some e \<and> matches p e))"

lemmas window_simps = WINDOW_def SAMPLE_def FLAT_LOOKS_def from_secs_def

lemma look_counts:
  assumes "matches p e" "now < counted_until p" "\<not> pr_running p \<or> used i \<noteq> None"
  shows "\<exists>e'. look now used i e = Some (e', owing now used i p) \<and> matches p e'"
  using assms by (auto simp: look_def matches_def owing_def counted_until_def window_simps Let_def split: option.split)

lemma owing_gone: "owing now used i p \<noteq> 0 \<Longrightarrow> now < counted_until p \<and> (\<not> pr_running p \<or> used i \<noteq> None)"
  by (auto simp: owing_def split: if_splits option.splits)

lemma kept_Cons: "kept now used ((i, e) # s) =
    (case look now used i e of None \<Rightarrow> kept now used s | Some (e', _) \<Rightarrow> (i, e') # kept now used s)"
  by (simp add: kept_def map_filter_simps split: option.split)

lemma book_ok_Cons: "book_ok ((i, e) # s) \<longleftrightarrow> i \<notin> fst ` set s \<and> book_ok s"
  by (auto simp: book_ok_def)

lemma book_ok_kept: "book_ok s \<Longrightarrow> book_ok (kept now used s)"
proof (induction s)
  case (Cons x s)
  then show ?case using kept_keys [of now used s]
    by (cases x) (auto simp: kept_Cons book_ok_Cons split: option.split)
qed (simp add: kept_def map_filter_simps)

lemma map_of_kept: "book_ok s \<Longrightarrow> map_of s i = Some e \<Longrightarrow> look now used i e = Some (e', m) \<Longrightarrow>
    map_of (kept now used s) i = Some e'"
proof (induction s)
  case (Cons x s)
  obtain k v where x: "x = (k, v)" by fastforce
  show ?case
  proof (cases "i = k")
    case False
    then show ?thesis using Cons x by (auto simp: kept_Cons book_ok_Cons split: option.split)
  qed (use Cons.prems x in \<open>auto simp: kept_Cons\<close>)
qed simp

lemma take_out: "map_of s i = Some e \<Longrightarrow>
    (\<Sum>(i, e) \<leftarrow> del i s. f i e) + f i e \<le> (\<Sum>(i, e) \<leftarrow> s. (f i e :: nat))"
proof (induction s)
  case (Cons x s)
  have less: "(\<Sum>(i, e) \<leftarrow> del i s. f i e) \<le> (\<Sum>(i, e) \<leftarrow> s. f i e)"
    by (induction s) (auto simp: del_def)
  show ?case
  proof (cases "fst x = i")
    case True
    then have "del i (x # s) = del i s" "e = snd x" using Cons.prems by (simp_all add: del_def)
    with True less show ?thesis by (simp add: case_prod_unfold)
  next
    case False
    then have "del i (x # s) = x # del i s" "map_of s i = Some e" using Cons.prems by (auto simp: del_def)
    with Cons.IH show ?thesis by (simp add: case_prod_unfold)
  qed
qed simp

lemma covered_sum:
  assumes "book_ok g"
    and "\<And>i p. map_of g i = Some p \<Longrightarrow> d i p \<noteq> 0 \<Longrightarrow> \<exists>e. map_of s i = Some e \<and> d i p \<le> f i e"
  shows "(\<Sum>(i, p) \<leftarrow> g. d i p) \<le> (\<Sum>(i, e) \<leftarrow> s. (f i e :: nat))"
  using assms
proof (induction g arbitrary: s)
  case (Cons x g)
  obtain i p where x: "x = (i, p)" by fastforce
  then have i: "map_of g i = None" "book_ok g" using Cons.prems(1) by (auto simp: book_ok_Cons map_of_eq_None_iff)
  have rest: "map_of (x # g) k = Some q" if "map_of g k = Some q" for k q using i(1) that x by auto
  show ?case
  proof (cases "d i p = 0")
    case True
    have "(\<Sum>(i, p) \<leftarrow> g. d i p) \<le> (\<Sum>(i, e) \<leftarrow> s. f i e)"
      by (rule Cons.IH [OF i(2)]) (use Cons.prems(2) rest in blast)
    with True x show ?thesis by simp
  next
    case False
    then obtain e where e: "map_of s i = Some e" "d i p \<le> f i e" using Cons.prems(2) [of i p] x by auto
    have "(\<Sum>(i, p) \<leftarrow> g. d i p) \<le> (\<Sum>(i, e) \<leftarrow> del i s. f i e)"
    proof (rule Cons.IH [OF i(2)])
      fix k q assume "map_of g k = Some q" "d k q \<noteq> 0"
      then show "\<exists>e. map_of (del i s) k = Some e \<and> d k q \<le> f k e"
        using Cons.prems(2) [OF rest] i(1) by auto
    qed
    with take_out [OF e(1), of f] e(2) x show ?thesis by simp
  qed
qed simp

lemma covers_debt:
  assumes "covers t s g" "t \<le> now"
  shows "spoken_for now used g \<le> debt now used s"
  unfolding spoken_for_def debt_def
proof (rule covered_sum)
  fix i p assume p: "map_of g i = Some p" "owing now used i p \<noteq> 0"
  have "t < counted_until p" using owing_gone [OF p(2)] assms(2) by simp
  with assms(1) p(1) obtain e where e: "map_of s i = Some e" "matches p e" by (auto simp: covers_def)
  from look_counts [OF e(2)] owing_gone [OF p(2)] have "\<exists>e'. look now used i e = Some (e', owing now used i p)" by blast
  with e(1) show "\<exists>e. map_of s i = Some e \<and>
      owing now used i p \<le> (case look now used i e of Some (_, m) \<Rightarrow> m | None \<Rightarrow> 0)" by auto
qed (use assms(1) in \<open>simp add: covers_def\<close>)

lemma covers_kept:
  assumes "covers t s g" "t \<le> now"
  shows "covers now (kept now used s) (keep (\<lambda>i p. \<not> pr_running p \<or> used i \<noteq> None) g)"
proof -
  have ok: "book_ok s" "book_ok g" using assms(1) by (simp_all add: covers_def)
  have "\<exists>e. map_of (kept now used s) i = Some e \<and> matches p e"
    if p: "map_of g i = Some p" "\<not> pr_running p \<or> used i \<noteq> None" "now < counted_until p" for i p
  proof -
    have "t < counted_until p" using assms(2) p(3) by (rule le_less_trans)
    with assms(1) p(1) obtain e where e: "map_of s i = Some e" "matches p e" by (auto simp: covers_def)
    from look_counts [where used = used and i = i, OF e(2) p(3,2)] obtain e' where "look now used i e = Some (e', owing now used i p)" "matches p e'" by blast
    with map_of_kept [OF ok(1) e(1)] show ?thesis by blast
  qed
  then show ?thesis using ok
    by (auto simp: covers_def book_ok_kept map_of_keep split: option.splits if_splits)
qed

lemma covers_put:
  assumes "covers t s g" "t \<le> t'" "matches p e"
  shows "covers t' (put i e s) (put i p g)"
  using assms by (force simp: covers_def)

lemma covers_del: "covers t s g \<Longrightarrow> covers t (del i s) (del i g)"
  by (simp add: covers_def)

lemma matches_new: "matches \<lparr>pr_limit = counted_limit l, pr_at = now, pr_running = \<not> q\<rparr>
    \<lparr>se_started = now, se_limit_mib = (case l of Some l \<Rightarrow> l | None \<Rightarrow> NO_LIMIT_MIB),
     se_seen_mib = 0, se_seen_at = now, se_flat = 0, se_promised = q\<rparr>"
  by (simp add: matches_def counted_limit_def)

lemma total_put: "total_mib (put i e s) \<le> se_limit_mib e + total_mib s"
proof -
  have "total_mib (filter P s) \<le> total_mib s" for P by (induction s) (auto simp: total_mib_def)
  then show ?thesis by (simp add: put_def total_mib_def)
qed

lemma total_del: "total_mib (del i s) \<le> total_mib s"
  by (induction s) (auto simp: total_mib_def del_def)

lemma admit_eq:
  assumes "total_mib s < 2 ^ 64"
  shows "admit_cmd min_free max_psi now used r cmd s =
    (let why = holding_back_at min_free max_psi cmd (less_owed (debt now used s) r);
         said = map_option (\<lambda>w. if debt now used s = 0 then w else WithOwed w (debt now used s)) why
     in (case (said, cmd) of (None, Create c) \<Rightarrow> starting_promise (cr_id c) (memory_limit (cr_spec c)) now (kept now used s)
           | _ \<Rightarrow> kept now used s, said))"
  using owed_mib_eq [OF assms, of now used] by (simp add: admit_cmd_def holding_back_def Let_def)

lemma admit_keeps:
  assumes "covers t s g" "t \<le> now" "total_mib s < 2 ^ 64"
    and "admission min_free max_psi (Asked now used r cmd) (s, g) = (s1, g1)"
  shows "covers now s1 g1 \<and> total_mib s1 \<le> ev_limit (Asked now used r cmd) + total_mib s"
proof -
  note kept = covers_kept [OF assms(1,2), of used] total_kept [of now used s]
  let ?why = "holding_back_at min_free max_psi cmd (less_owed (debt now used s) r)"
  show ?thesis
  proof (cases "?why = None \<and> (\<exists>c. cmd = Create c)")
    case True
    then obtain c where c: "?why = None" "cmd = Create c" by blast
    have s1: "s1 = starting_promise (cr_id c) (memory_limit (cr_spec c)) now (kept now used s)"
      and g1: "g1 = put (cr_id c) \<lparr>pr_limit = counted_limit (memory_limit (cr_spec c)), pr_at = now, pr_running = False\<rparr>
          (keep (\<lambda>i p. \<not> pr_running p \<or> used i \<noteq> None) g)"
      using assms(4) c by (auto simp: admit_eq [OF assms(3)] Let_def)
    have "covers now s1 g1"
      unfolding s1 g1 starting_promise_def starting_insert_def
      by (rule covers_put [OF kept(1) order_refl]) (use matches_new [of _ _ True] in simp)
    moreover have "total_mib s1 \<le> counted_limit (memory_limit (cr_spec c)) + total_mib s"
      unfolding s1 starting_promise_def starting_insert_def
      by (rule order_trans [OF total_put]) (use kept(2) in \<open>simp add: counted_limit_def\<close>)
    ultimately show ?thesis using c(2) by simp
  next
    case False
    then have "s1 = kept now used s \<and> g1 = keep (\<lambda>i p. \<not> pr_running p \<or> used i \<noteq> None) g"
      using assms(4) by (auto simp: admit_eq [OF assms(3)] Let_def split: option.splits command.splits)
    with kept show ?thesis by (auto intro: order_trans)
  qed
qed

fun event_time :: "instant \<Rightarrow> adm_event \<Rightarrow> instant" where
  "event_time t (Asked t' _ _ _) = t'"
| "event_time t (Started _ _ t') = t'"
| "event_time t (NotStarting _) = t"

lemma in_time_Cons: "in_time t (ev # evs) now \<longleftrightarrow> t \<le> event_time t ev \<and> in_time (event_time t ev) evs now"
  by (cases ev) auto

lemma admission_keeps:
  assumes "covers t s g" "t \<le> event_time t ev" "total_mib s < 2 ^ 64"
    and "admission min_free max_psi ev (s, g) = (s1, g1)"
  shows "covers (event_time t ev) s1 g1 \<and> total_mib s1 \<le> ev_limit ev + total_mib s"
proof (cases ev)
  case (Asked now used r cmd)
  with admit_keeps [OF assms(1) _ assms(3)] assms(2,4) show ?thesis by simp
next
  case (Started i l now)
  have s1: "s1 = starting_add i l now s"
    and g1: "g1 = put i \<lparr>pr_limit = counted_limit l, pr_at = now, pr_running = True\<rparr> g"
    using assms(4) Started by simp_all
  have "covers now s1 g1"
    unfolding s1 g1 starting_add_def starting_insert_def
    by (rule covers_put [OF assms(1)]) (use matches_new [of _ _ False] assms(2) Started in simp_all)
  moreover have "total_mib s1 \<le> counted_limit l + total_mib s"
    unfolding s1 starting_add_def starting_insert_def
    by (rule order_trans [OF total_put]) (simp add: counted_limit_def)
  ultimately show ?thesis using Started by simp
next
  case (NotStarting i)
  with assms show ?thesis by (auto simp: starting_forget_def total_del intro: covers_del)
qed

lemma admissions_cover:
  assumes "covers t s g" "in_time t evs now" "total_mib s + sum_list (map ev_limit evs) < 2 ^ 64"
    and "fold (admission min_free max_psi) evs (s, g) = (s1, g1)"
  shows "\<exists>t1 \<le> now. covers t1 s1 g1 \<and> total_mib s1 < 2 ^ 64"
  using assms
proof (induction evs arbitrary: t s g)
  case (Cons ev evs)
  obtain s' g' where e: "admission min_free max_psi ev (s, g) = (s', g')" by fastforce
  have t: "t \<le> event_time t ev" "in_time (event_time t ev) evs now" using Cons.prems(2) by (simp_all add: in_time_Cons)
  have k: "covers (event_time t ev) s' g'" "total_mib s' \<le> ev_limit ev + total_mib s"
    using admission_keeps [OF Cons.prems(1) t(1) _ e] Cons.prems(3) by simp_all
  show ?case by (rule Cons.IH [OF k(1) t(2)]) (use Cons.prems(3,4) e k(2) in simp_all)
qed auto

lemma admit_room:
  assumes "total_mib s < 2 ^ 64" "2 \<le> min_free" "0 < hr_free_mib r" "costs_memory cmd"
    and "snd (admit_cmd min_free max_psi now used r cmd s) = None"
  shows "min_free + debt now used s \<le> hr_free_mib r"
proof -
  have "short_of min_free (less_owed (debt now used s) r) = None"
    using assms(4,5) by (auto simp: admit_eq [OF assms(1)] holding_back_at_def Let_def split: option.splits)
  with assms(2,3) show ?thesis by (auto simp: short_of_def less_owed_def split: if_splits)
qed

text \<open>
  C22. Memory already promised is not promised again. Whatever has been asked of a node, has started,
  has not started and has gone before, in whatever order: a create or a move to hot that is let through finds
  the floor still free after all that is spoken for, which is the whole limit of every create let
  through in the last half minute that has not begun, and for every sandbox begun in the last 600 ms
  what it may still take of its limit (after that it counts for as long as it grows). The host's reading
  must have succeeded (a reading of 0 is taken for none, and lets everything through) and the floor be
  at least 2 MiB (what is left free is never taken for less than 1).
\<close>

theorem burst_within_free:
  assumes "admissions min_free max_psi evs = (s, g)" "in_time 0 evs now" "sum_list (map ev_limit evs) < 2 ^ 64"
    and "snd (admit_cmd min_free max_psi now used r cmd s) = None"
    and "costs_memory cmd" "2 \<le> min_free" "0 < hr_free_mib r"
  shows "min_free + spoken_for now used g \<le> hr_free_mib r"
proof -
  have "covers 0 [] []" by (simp add: covers_def)
  from admissions_cover [OF this assms(2) _ assms(1) [unfolded admissions_def]] assms(3)
  obtain t where t: "t \<le> now" "covers t s g" "total_mib s < 2 ^ 64" by (auto simp: total_mib_def)
  from covers_debt [OF t(2,1), of used] admit_room [OF t(3) assms(6,7,5,4)] show ?thesis by linarith
qed

section \<open>Witness\<close>

definition small_create :: "string \<Rightarrow> create_cmd" where
  "small_create i = \<lparr>cr_id = i, cr_template = ''web'', cr_spec = JObj [(''memory_max_mib'', JNum 400)], cr_port = 80,
     cr_volume = None, cr_net_index = None, cr_from_tag = None, cr_gateway_port = None, cr_token = [],
     cr_fetch = None, cr_egress = default_egress_policy\<rparr>"

definition calm :: host_reading where
  "calm = \<lparr>hr_free_mib = 1500, hr_swap_free_mib = 0, hr_swap_total_mib = 0, hr_psi = 0\<rparr>"

definition busy_node :: "adm_event list" where
  "busy_node = [Asked 0 (\<lambda>_. None) calm (Create (small_create ''a'')), Asked 10 (\<lambda>_. None) calm (Create (small_create ''b'')),
     Asked 12 (\<lambda>_. None) calm (Create (small_create ''x'')), NotStarting ''x'', Started ''a'' (Some 400) 200]"

lemma small_limit: "memory_limit (cr_spec (small_create i)) = Some 400"
  by (simp add: small_create_def memory_limit_def json_get_def)

lemma calm_reading [simp]: "hr_free_mib calm = 1500" "hr_swap_total_mib calm = 0" "hr_psi calm = 0"
  by (simp_all add: calm_def)

lemmas admit_calm = admit_cmd_def holding_back_def holding_back_at_def short_of_def less_owed_def swap_short_def
  swap_floor_mib_def owed_mib_def look_def plus64_def starting_promise_def starting_insert_def put_def small_limit
  WINDOW_def from_secs_def

lemma small_id: "cr_id (small_create i) = i"
  by (simp add: small_create_def)

definition a_uses :: "string \<Rightarrow> nat option" where
  "a_uses i = (if i = ''a'' then Some 100 else None)"

lemma busy_node_admissions:
  "\<exists>s g. admissions 300 8 busy_node = (s, g) \<and> spoken_for 400 a_uses g = 700 \<and>
     snd (admit_cmd 300 8 400 a_uses calm (SetTier ''c'' Hot) s) = None"
  by (simp add: busy_node_def admissions_def admit_calm small_id counted_limit_def keep_def starting_add_def
      starting_forget_def del_def spoken_for_def owing_def counted_until_def SAMPLE_def FLAT_LOOKS_def a_uses_def)

lemma burst_within_free_witness: "(300 :: nat) + 700 \<le> 1500"
proof -
  obtain s g where s: "admissions 300 8 busy_node = (s, g)" "spoken_for 400 a_uses g = 700"
    "snd (admit_cmd 300 8 400 a_uses calm (SetTier ''c'' Hot) s) = None"
    using busy_node_admissions by blast
  have "300 + spoken_for 400 a_uses g \<le> hr_free_mib calm"
    by (rule burst_within_free [OF s(1) _ _ s(3)])
      (simp_all add: busy_node_def counted_limit_def small_limit small_id)
  then show ?thesis by (simp add: s(2))
qed

end
