(* ===== verification/Wake.thy ===== *)
theory Wake
  imports Proto NodeAdmission "HOL-Library.List_Lexorder" "HOL-Library.Char_ord" "HOL-Library.Product_Lexorder"
    "HOL-Library.Option_ord"
begin

text \<open>
  \<^verbatim>\<open>node/wake.rs\<close>: what a node remembers of the requests for its sandboxes, which of them it may put
  away to make room, which it will not demote or bring back yet, which snapshot images it reads
  ahead, and how many wakes may run or wait. A \<^verbatim>\<open>HashMap\<close> that is only looked up is a HOL map, one
  that is iterated a book, a \<^verbatim>\<open>HashSet\<close> a list without repetitions. The mutex of a sandbox is
  its identity, a number: \<open>wk_locks\<close> says which one the table holds. The \<^verbatim>\<open>f64\<close> demand is a real.
\<close>

section \<open>Constants\<close>

definition JUST_STARTED :: millis where "JUST_STARTED = from_secs 2"
definition WAKE_BUDGET :: millis where "WAKE_BUDGET = from_secs 2"
definition DEMAND_WINDOW :: millis where "DEMAND_WINDOW = from_secs 30"
definition GRACE :: millis where "GRACE = from_secs 15"
definition HISTORY :: nat where "HISTORY = 8"
definition INTERVALS :: nat where "INTERVALS = 3"
definition JITTER :: real where "JITTER = 125 / 100"
definition MIN_PERIOD :: millis where "MIN_PERIOD = from_secs 30"
definition LEAD :: millis where "LEAD = from_secs 20"

section \<open>State\<close>

record wakeups =
  wk_locks :: "string \<rightharpoonup> nat"
  wk_next :: nat
  wk_seen :: "string \<rightharpoonup> instant"
  wk_unreported :: "string list"
  wk_used :: "string \<rightharpoonup> instant"
  wk_in_flight :: "string \<rightharpoonup> nat"
  wk_fresh :: "string \<rightharpoonup> instant"
  wk_demand :: "string \<rightharpoonup> real \<times> instant"
  wk_evicted :: "(string, instant) book"
  wk_arrivals :: "(string, instant list) book"
  wk_prefetched :: "string \<rightharpoonup> instant"

definition no_wakeups :: wakeups where
  "no_wakeups = \<lparr>wk_locks = Map.empty, wk_next = 0, wk_seen = Map.empty, wk_unreported = [],
     wk_used = Map.empty, wk_in_flight = Map.empty, wk_fresh = Map.empty, wk_demand = Map.empty,
     wk_evicted = [], wk_arrivals = [], wk_prefetched = Map.empty\<rparr>"

text \<open>\<^verbatim>\<open>lock\<close>: the sandbox's mutex, made if there is none.\<close>

definition lock :: "string \<Rightarrow> wakeups \<Rightarrow> wakeups \<times> nat" where
  "lock i w =
     (case wk_locks w i of
        Some l \<Rightarrow> (w, l)
      | None \<Rightarrow> (w\<lparr>wk_locks := (wk_locks w)(i \<mapsto> wk_next w), wk_next := Suc (wk_next w)\<rparr>, wk_next w))"

section \<open>Requests\<close>

definition decayed :: "real \<times> instant \<Rightarrow> instant \<Rightarrow> real" where
  "decayed d now = fst d * exp (- (real (now - snd d) / real DEMAND_WINDOW))"

definition arrived :: "string \<Rightarrow> instant \<Rightarrow> wakeups \<Rightarrow> wakeups" where
  "arrived i t w =
     (let h = (case map_of (wk_arrivals w) i of Some h \<Rightarrow> h | None \<Rightarrow> []) @ [t]
      in w\<lparr>wk_arrivals := put i (drop (length h - HISTORY) h) (wk_arrivals w)\<rparr>)"

definition saw_at :: "string \<Rightarrow> instant \<Rightarrow> wakeups \<Rightarrow> wakeups" where
  "saw_at i now w =
     (let d = (case wk_demand w i of Some d \<Rightarrow> d | None \<Rightarrow> (0, now));
          prev = wk_seen w i;
          w1 = w\<lparr>wk_demand := (wk_demand w)(i \<mapsto> (decayed d now + 1, now)),
                 wk_seen := (wk_seen w)(i \<mapsto> now), wk_used := (wk_used w)(i \<mapsto> now),
                 wk_unreported := List.insert i (wk_unreported w)\<rparr>
      in if (case prev of None \<Rightarrow> True | Some p \<Rightarrow> now - p \<ge> GRACE) then arrived i now w1 else w1)"

definition in_use :: "string \<Rightarrow> instant \<Rightarrow> wakeups \<Rightarrow> wakeups" where
  "in_use i now w = w\<lparr>wk_seen := (wk_seen w)(i \<mapsto> now), wk_used := (wk_used w)(i \<mapsto> now)\<rparr>"

definition wk_started :: "string \<Rightarrow> instant \<Rightarrow> wakeups \<Rightarrow> wakeups" where
  "wk_started i now w = w\<lparr>wk_used := (wk_used w)(i \<mapsto> now), wk_fresh := (wk_fresh w)(i \<mapsto> now)\<rparr>"

definition left_of :: "millis \<Rightarrow> instant \<Rightarrow> instant \<Rightarrow> millis option" where
  "left_of window t now = (let left = window - (now - t) in if left = 0 then None else Some left)"

definition in_grace :: "string \<Rightarrow> instant \<Rightarrow> wakeups \<Rightarrow> millis option" where
  "in_grace i now w = Option.bind (wk_seen w i) (\<lambda>t. left_of GRACE t now)"

definition take_traffic :: "instant \<Rightarrow> wakeups \<Rightarrow> wakeups \<times> string list" where
  "take_traffic now w =
     (w\<lparr>wk_seen := (\<lambda>i. Option.bind (wk_seen w i) (\<lambda>t. if now - t < GRACE then Some t else None)),
        wk_unreported := []\<rparr>, sort (wk_unreported w))"

section \<open>Requests in flight\<close>

text \<open>\<^verbatim>\<open>hold\<close>, and the drop of its guard.\<close>

definition hold :: "string \<Rightarrow> wakeups \<Rightarrow> wakeups" where
  "hold i w =
     (let w1 = fst (lock i w)
      in w1\<lparr>wk_in_flight := (wk_in_flight w1)(i \<mapsto> Suc (case wk_in_flight w1 i of Some n \<Rightarrow> n | None \<Rightarrow> 0))\<rparr>)"

definition release :: "string \<Rightarrow> wakeups \<Rightarrow> wakeups" where
  "release i w =
     (case wk_in_flight w i of
        None \<Rightarrow> w
      | Some n \<Rightarrow> w\<lparr>wk_in_flight := (wk_in_flight w)(i := if n - 1 = 0 then None else Some (n - 1))\<rparr>)"

definition protected :: "string \<Rightarrow> instant \<Rightarrow> wakeups \<Rightarrow> bool" where
  "protected i now w \<longleftrightarrow>
     (case wk_in_flight w i of Some n \<Rightarrow> 0 < n | None \<Rightarrow> False) \<or>
     (case wk_fresh w i of Some t \<Rightarrow> now - t < JUST_STARTED | None \<Rightarrow> False)"

section \<open>Making room\<close>

definition rank :: "wakeups \<Rightarrow> instant \<Rightarrow> observed_sandbox \<Rightarrow> bool \<times> real \<times> instant option \<times> string" where
  "rank w now o' = (ob_tier o' = Hot, case wk_demand w (ob_id o') of Some d \<Rightarrow> decayed d now | None \<Rightarrow> 0,
     wk_used w (ob_id o'), ob_id o')"

definition victims :: "observed_sandbox list \<Rightarrow> string \<Rightarrow> instant \<Rightarrow> wakeups \<Rightarrow> string list" where
  "victims observed excepted now w =
     map ob_id (sort_key (rank w now)
       (filter (\<lambda>o'. ob_id o' \<noteq> excepted \<and> (ob_tier o' = Hot \<or> ob_tier o' = Frozen) \<and> \<not> protected (ob_id o') now w) observed))"

definition put_away :: "string \<Rightarrow> instant \<Rightarrow> wakeups \<Rightarrow> wakeups" where
  "put_away i now w = w\<lparr>wk_evicted := put i now (wk_evicted w)\<rparr>"

definition recently_evicted :: "instant \<Rightarrow> wakeups \<Rightarrow> wakeups \<times> string list" where
  "recently_evicted now w =
     (let b = keep (\<lambda>_ t. now - t < GRACE) (wk_evicted w) in (w\<lparr>wk_evicted := b\<rparr>, sort (map fst b)))"

definition evicted_for :: "string \<Rightarrow> instant \<Rightarrow> wakeups \<Rightarrow> millis option" where
  "evicted_for i now w = Option.bind (map_of (wk_evicted w) i) (\<lambda>t. left_of GRACE t now)"

definition forget :: "string \<Rightarrow> wakeups \<Rightarrow> wakeups" where
  "forget i w = w\<lparr>wk_locks := (wk_locks w)(i := None), wk_seen := (wk_seen w)(i := None),
     wk_used := (wk_used w)(i := None), wk_fresh := (wk_fresh w)(i := None), wk_demand := (wk_demand w)(i := None),
     wk_evicted := del i (wk_evicted w), wk_unreported := removeAll i (wk_unreported w),
     wk_arrivals := del i (wk_arrivals w), wk_prefetched := (wk_prefetched w)(i := None)\<rparr>"

section \<open>Reading ahead\<close>

text \<open>The last arrival, where the next is due inside the lead and not plainly missed.\<close>

definition due :: "instant \<Rightarrow> instant list \<Rightarrow> instant option" where
  "due now h =
     (if length h < INTERVALS + 1 then None
      else let recent = take (INTERVALS + 1) (rev h);
               gaps = map2 (-) (butlast recent) (tl recent);
               lo = Min (set gaps); hi = Max (set gaps);
               period = sum_list gaps div length gaps;
               next_one = hd recent + period
           in if lo < MIN_PERIOD \<or> real hi > real lo * JITTER then None
              else if now + LEAD < next_one \<or> now > next_one + period div 2 then None
              else Some (hd recent))"

definition due_prefetch :: "instant \<Rightarrow> wakeups \<Rightarrow> wakeups \<times> string list" where
  "due_prefetch now w =
     (let (got, ids) = fold (\<lambda>(i, h) (got, ids).
         case due now h of
           None \<Rightarrow> (got, ids)
         | Some ar \<Rightarrow> if got i = Some ar then (got, ids) else (got(i \<mapsto> ar), ids @ [i]))
       (wk_arrivals w) (wk_prefetched w, [])
      in (w\<lparr>wk_prefetched := got\<rparr>, sort ids))"

section \<open>How many wakes run and wait\<close>

text \<open>
  The permits of the semaphore and the counter of \<^verbatim>\<open>wake\<close>, shared by every task that calls it, and how
  many tasks are at each place of it: turned away by \<^verbatim>\<open>try_acquire\<close> and not counted yet, counted
  with the number each saw ahead of it, in the semaphore's queue, given a permit and still counted, on their
  way out with the counter still to be lowered, running. Each atomic operation is a step of its own.
  The semaphore gives a permit to the head of its queue whether or not the task has looked again, and takes it back
  from a task that goes away first.
\<close>

record queue =
  q_permits :: nat
  q_running :: nat
  q_waiting :: nat
  q_turned :: nat
  q_arriving :: "nat list"
  q_queued :: nat
  q_granted :: nat
  q_leaving :: nat

definition fresh_queue :: "nat \<Rightarrow> queue" where
  "fresh_queue permits =
     \<lparr>q_permits = permits, q_running = 0, q_waiting = 0, q_turned = 0, q_arriving = [], q_queued = 0, q_granted = 0, q_leaving = 0\<rparr>"

inductive wake_step :: "nat \<Rightarrow> queue \<Rightarrow> queue \<Rightarrow> bool" for max_waiting where
  starts: "q_permits q = Suc p \<Longrightarrow> wake_step max_waiting q (q\<lparr>q_permits := p, q_running := Suc (q_running q)\<rparr>)"
| turned: "q_permits q = 0 \<Longrightarrow> wake_step max_waiting q (q\<lparr>q_turned := Suc (q_turned q)\<rparr>)"
| arrives: "q_turned q = Suc n \<Longrightarrow>
    wake_step max_waiting q (q\<lparr>q_turned := n, q_arriving := q_waiting q # q_arriving q, q_waiting := Suc (q_waiting q)\<rparr>)"
| refused: "ahead \<in> set (q_arriving q) \<Longrightarrow> max_waiting \<le> ahead \<Longrightarrow>
    wake_step max_waiting q (q\<lparr>q_arriving := remove1 ahead (q_arriving q), q_leaving := Suc (q_leaving q)\<rparr>)"
| queues: "ahead \<in> set (q_arriving q) \<Longrightarrow> ahead < max_waiting \<Longrightarrow>
    wake_step max_waiting q (q\<lparr>q_arriving := remove1 ahead (q_arriving q), q_queued := Suc (q_queued q)\<rparr>)"
| granted: "q_queued q = Suc n \<Longrightarrow> q_permits q = Suc p \<Longrightarrow>
    wake_step max_waiting q (q\<lparr>q_queued := n, q_permits := p, q_granted := Suc (q_granted q)\<rparr>)"
| begins: "q_granted q = Suc n \<Longrightarrow>
    wake_step max_waiting q (q\<lparr>q_granted := n, q_waiting := q_waiting q - 1, q_running := Suc (q_running q)\<rparr>)"
| gives_up: "q_queued q = Suc n \<Longrightarrow> wake_step max_waiting q (q\<lparr>q_queued := n, q_leaving := Suc (q_leaving q)\<rparr>)"
| gives_back: "q_granted q = Suc n \<Longrightarrow>
    wake_step max_waiting q (q\<lparr>q_granted := n, q_permits := Suc (q_permits q), q_leaving := Suc (q_leaving q)\<rparr>)"
| leaves: "q_leaving q = Suc n \<Longrightarrow> wake_step max_waiting q (q\<lparr>q_leaving := n, q_waiting := q_waiting q - 1\<rparr>)"
| ends: "q_running q = Suc r \<Longrightarrow> wake_step max_waiting q (q\<lparr>q_running := r, q_permits := Suc (q_permits q)\<rparr>)"

end
