(* ===== verification/WakeLaws.thy ===== *)
theory WakeLaws
  imports Wake
begin

text \<open>
  What the node's memory of requests is good for (\<open>Wake\<close>): who is put away first, how often an
  image is read ahead, how many wakes run and wait, how requests in flight are counted, and what
  forgetting a sandbox does to its mutex.
\<close>

section \<open>Making room\<close>

text \<open>The sandboxes a wake may put away.\<close>

definition may_go :: "wakeups \<Rightarrow> instant \<Rightarrow> string \<Rightarrow> observed_sandbox \<Rightarrow> bool" where
  "may_go w now excepted o' \<longleftrightarrow>
     ob_id o' \<noteq> excepted \<and> (ob_tier o' = Hot \<or> ob_tier o' = Frozen) \<and> \<not> protected (ob_id o') now w"

lemma victims_eq: "victims obs ex now w = map ob_id (sort_key (rank w now) (filter (may_go w now ex) obs))"
  by (simp add: victims_def may_go_def [abs_def])

lemma set_victims: "set (victims obs ex now w) = ob_id ` {o' \<in> set obs. may_go w now ex o'}"
  by (auto simp: victims_eq)

text \<open>The order of sacrifice: frozen before hot, then the less asked for, then the one used longer ago.\<close>

definition goes_before :: "wakeups \<Rightarrow> instant \<Rightarrow> observed_sandbox \<Rightarrow> observed_sandbox \<Rightarrow> bool" where
  "goes_before w now v c \<longleftrightarrow>
     (let wanted = (\<lambda>o'. case wk_demand w (ob_id o') of Some d \<Rightarrow> decayed d now | None \<Rightarrow> 0)
      in (ob_tier v = Hot \<longrightarrow> ob_tier c = Hot) \<and>
         (ob_tier c = ob_tier v \<longrightarrow> wanted v \<le> wanted c \<and>
            (wanted c = wanted v \<longrightarrow> wk_used w (ob_id v) \<le> wk_used w (ob_id c))))"

lemma rank_goes_before: "rank w now v \<le> rank w now c \<Longrightarrow> goes_before w now v c"
  by (auto simp: rank_def goes_before_def Let_def less_eq_prod_def less_prod_def split: option.splits)

text \<open>
  C39. A wake puts away the sandbox least likely to be missed: the first one it tries is not the one
  being woken, has no request in flight and has not just come up, is a hot one only if there is no
  frozen one to take, and of its tier is the one least asked for, then the one used longest ago;
  and there is one to try exactly if some sandbox may go.
\<close>

theorem victims_first:
  "(victims obs ex now w = [] \<longleftrightarrow> (\<forall>o' \<in> set obs. \<not> may_go w now ex o')) \<and>
   (\<forall>i vs. victims obs ex now w = i # vs \<longrightarrow>
      (\<exists>v \<in> set obs. ob_id v = i \<and> may_go w now ex v \<and>
        (\<forall>c \<in> set obs. may_go w now ex c \<longrightarrow> goes_before w now v c)))"
proof (intro conjI allI impI)
  show "victims obs ex now w = [] \<longleftrightarrow> (\<forall>o' \<in> set obs. \<not> may_go w now ex o')"
    using set_victims [of obs ex now w] by (metis (no_types, lifting) Collect_empty_eq empty_set image_is_empty set_empty2)
  fix i vs
  assume "victims obs ex now w = i # vs"
  then obtain v us where v: "sort_key (rank w now) (filter (may_go w now ex) obs) = v # us" "ob_id v = i"
    by (auto simp: victims_eq)
  have "sorted (map (rank w now) (v # us))" using sorted_sort_key [of "rank w now"] v(1) by metis
  then have "\<forall>c \<in> set (v # us). goes_before w now v c" by (auto intro: rank_goes_before)
  moreover have "set (v # us) = {o' \<in> set obs. may_go w now ex o'}" by (metis v(1) set_sort set_filter)
  ultimately show "\<exists>v \<in> set obs. ob_id v = i \<and> may_go w now ex v \<and>
      (\<forall>c \<in> set obs. may_go w now ex c \<longrightarrow> goes_before w now v c)"
    using v(2) by (metis (mono_tags, lifting) list.set_intros(1) mem_Collect_eq)
qed

section \<open>Reading ahead\<close>

lemma due_last: "due now h = Some t \<Longrightarrow> \<exists>rest. h = rest @ [t]"
  by (cases h rule: rev_cases) (auto simp: due_def Let_def INTERVALS_def split: if_splits)

definition due_step :: "instant \<Rightarrow> string \<times> instant list \<Rightarrow> (string \<rightharpoonup> instant) \<times> string list \<Rightarrow> (string \<rightharpoonup> instant) \<times> string list" where
  "due_step now = (\<lambda>(i, h) (got, ids).
     case due now h of
       None \<Rightarrow> (got, ids)
     | Some ar \<Rightarrow> if got i = Some ar then (got, ids) else (got(i \<mapsto> ar), ids @ [i]))"

lemma due_prefetch_eq:
  "due_prefetch now w =
     (w\<lparr>wk_prefetched := fst (fold (due_step now) (wk_arrivals w) (wk_prefetched w, []))\<rparr>,
      sort (snd (fold (due_step now) (wk_arrivals w) (wk_prefetched w, []))))"
  by (simp add: due_prefetch_def due_step_def [abs_def] case_prod_beta)

lemma due_fold_ids:
  assumes "book_ok b"
  shows "i \<in> set (snd (fold (due_step now) b (got, ids))) \<longleftrightarrow>
    i \<in> set ids \<or> (\<exists>h t. map_of b i = Some h \<and> due now h = Some t \<and> got i \<noteq> Some t)"
  using assms
proof (induction b arbitrary: got ids)
  case (Cons x b)
  obtain j h where x: "x = (j, h)" by fastforce
  with Cons.prems have "map_of b j = None" "book_ok b" by (auto simp: book_ok_def map_of_eq_None_iff)
  with Cons.IH x show ?case by (auto simp: due_step_def split: option.splits if_splits)
qed simp

lemma due_fold_got:
  assumes "book_ok b"
  shows "fst (fold (due_step now) b (got, ids)) i =
    (case map_of b i of Some h \<Rightarrow> (case due now h of Some t \<Rightarrow> Some t | None \<Rightarrow> got i) | None \<Rightarrow> got i)"
  using assms
proof (induction b arbitrary: got ids)
  case (Cons x b)
  obtain j h where x: "x = (j, h)" by fastforce
  with Cons.prems have "map_of b j = None" "book_ok b" by (auto simp: book_ok_def map_of_eq_None_iff)
  with Cons.IH x show ?case by (auto simp: due_step_def split: option.splits if_splits)
qed simp

text \<open>
  An image is read ahead once per predicted request: a sandbox returned as due is not returned
  again at any later look until another burst of traffic begins.
\<close>

theorem prefetch_once_per_cycle:
  assumes "book_ok (wk_arrivals w)" "i \<in> set (snd (due_prefetch now w))"
  shows "i \<notin> set (snd (due_prefetch later (fst (due_prefetch now w))))"
proof -
  note one = due_fold_ids [OF assms(1)] due_fold_got [OF assms(1)]
  from assms(2) obtain h t where h: "map_of (wk_arrivals w) i = Some h" "due now h = Some t"
    by (auto simp: due_prefetch_eq one(1))
  then have got: "wk_prefetched (fst (due_prefetch now w)) i = Some t"
    by (simp add: due_prefetch_eq one(2))
  have "t' = t" if "due later h = Some t'" for t' using due_last [OF that] due_last [OF h(2)] by auto
  with h(1) got show ?thesis by (auto simp: due_prefetch_eq one(1))
qed

section \<open>How many wakes run and wait\<close>

definition queue_ok :: "nat \<Rightarrow> nat \<Rightarrow> queue \<Rightarrow> bool" where
  "queue_ok permits max_waiting q \<longleftrightarrow>
     q_permits q + q_granted q + q_running q = permits \<and>
     q_waiting q = q_queued q + length (q_arriving q) + q_granted q + q_leaving q \<and>
     q_queued q + length (filter (\<lambda>ahead. ahead < max_waiting) (q_arriving q)) \<le> max_waiting"

lemma filter_pos: "x \<in> set xs \<Longrightarrow> P x \<Longrightarrow> 0 < length (filter P xs)"
  by (auto simp: filter_empty_conv)

lemma length_filter_remove1:
  "x \<in> set xs \<Longrightarrow> length (filter P (remove1 x xs)) = length (filter P xs) - (if P x then 1 else 0)"
proof (induction xs)
  case (Cons a xs)
  show ?case
  proof (cases "x = a")
    case False
    with Cons have "length (filter P (remove1 x xs)) = length (filter P xs) - (if P x then 1 else 0)" "x \<in> set xs"
      by simp_all
    with False filter_pos [of x xs P] show ?thesis by auto
  qed auto
qed simp

lemma wake_step_ok:
  assumes "wake_step mw q q'" "queue_ok permits mw q"
  shows "queue_ok permits mw q'"
  using assms
proof (cases rule: wake_step.cases)
  case arrives
  obtain n where "length (filter (\<lambda>ahead. ahead < mw) (q_arriving q)) = n" "n \<le> length (q_arriving q)" by simp
  with arrives assms(2) show ?thesis by (auto simp: queue_ok_def)
next
  case (refused ahead)
  then obtain k where "length (q_arriving q) = Suc k" by (cases "q_arriving q") auto
  with refused assms(2) show ?thesis
    by (auto simp: queue_ok_def length_filter_remove1 length_remove1)
next
  case (queues ahead)
  then obtain k where "length (q_arriving q) = Suc k" by (cases "q_arriving q") auto
  moreover obtain n where "length (filter (\<lambda>ahead. ahead < mw) (q_arriving q)) = Suc n"
    using filter_pos [of ahead "q_arriving q" "\<lambda>a. a < mw"] queues(2,3) gr0_conv_Suc by auto
  ultimately show ?thesis using queues assms(2) by (auto simp: queue_ok_def length_filter_remove1 length_remove1)
qed (auto simp: queue_ok_def)

text \<open>
  C21. However the callers interleave, between any two of their looks at the semaphore and the counter, a
  node never runs more wakes at once than it has permits and never has more than its limit waiting for
  one, no permit is ever lost, and the counter is exactly the callers that have been counted and not
  yet left, so that once all of them are gone every permit is free again and nothing is counted as waiting.
\<close>

theorem wakes_bounded:
  assumes "(wake_step max_waiting)\<^sup>*\<^sup>* (fresh_queue permits) q"
  shows "q_permits q + q_granted q + q_running q = permits \<and> q_queued q \<le> max_waiting \<and>
    q_waiting q = q_queued q + length (q_arriving q) + q_granted q + q_leaving q"
proof -
  from assms have "queue_ok permits max_waiting q"
    by (induction rule: rtranclp_induct) (simp add: queue_ok_def fresh_queue_def, rule wake_step_ok)
  then show ?thesis by (simp add: queue_ok_def)
qed

section \<open>Requests in flight\<close>

lemma in_flight_hold [simp]:
  "wk_in_flight (hold i w) = (wk_in_flight w)(i \<mapsto> Suc (case wk_in_flight w i of Some n \<Rightarrow> n | None \<Rightarrow> 0))"
  by (simp add: hold_def lock_def Let_def split: option.split)

lemma release_hold: "wk_in_flight w i \<noteq> Some 0 \<Longrightarrow> wk_in_flight (release i (hold i w)) = wk_in_flight w"
  by (auto simp: release_def fun_eq_iff split: option.split)

lemma protected_hold: "protected i now (hold i w)"
  by (simp add: protected_def)

section \<open>Grace\<close>

lemma in_grace_saw: "now < t + GRACE \<Longrightarrow> in_grace i now (saw_at i t w) = Some (GRACE - (now - t))"
  by (auto simp: in_grace_def saw_at_def left_of_def arrived_def Let_def GRACE_def from_secs_def split: option.splits)

lemma left_of_Some: "left_of window t now = Some left \<longleftrightarrow> now - t < window \<and> left = window - (now - t)"
  by (auto simp: left_of_def Let_def)

lemma in_grace_Some: "in_grace i now w = Some left \<longleftrightarrow>
    (\<exists>t. wk_seen w i = Some t \<and> now - t < GRACE \<and> left = GRACE - (now - t))"
  by (simp add: in_grace_def left_of_Some bind_eq_Some_conv)

lemma evicted_for_Some: "evicted_for i now w = Some left \<longleftrightarrow>
    (\<exists>t. map_of (wk_evicted w) i = Some t \<and> now - t < GRACE \<and> left = GRACE - (now - t))"
  by (simp add: evicted_for_def left_of_Some bind_eq_Some_conv)

text \<open>Pruning what the master has been told about shortens nobody's grace.\<close>

lemma in_grace_take_traffic: "now \<le> later \<Longrightarrow> in_grace i later (fst (take_traffic now w)) = in_grace i later w"
  by (cases "wk_seen w i") (auto simp: in_grace_def take_traffic_def left_of_def Let_def)

section \<open>Mutexes\<close>

definition locks_ok :: "wakeups \<Rightarrow> bool" where
  "locks_ok w \<longleftrightarrow> (\<forall>i l. wk_locks w i = Some l \<longrightarrow> l < wk_next w)"

lemma locks_ok_ops:
  "locks_ok no_wakeups" "locks_ok w \<Longrightarrow> locks_ok (fst (lock i w))" "locks_ok w \<Longrightarrow> locks_ok (saw_at i t w)"
  "locks_ok w \<Longrightarrow> locks_ok (wk_started i t w)" "locks_ok w \<Longrightarrow> locks_ok (put_away i t w)" "locks_ok w \<Longrightarrow> locks_ok (forget i w)"
  by (auto simp: locks_ok_def no_wakeups_def lock_def saw_at_def arrived_def wk_started_def put_away_def forget_def Let_def
      less_Suc_eq split: option.splits)

lemma lock_twice: "snd (lock i (fst (lock i w))) = snd (lock i w)"
  by (auto simp: lock_def split: option.splits)

text \<open>Who takes the mutex of a sandbox before it is forgotten and who takes it after do not exclude each other.\<close>

lemma lock_after_forget: "locks_ok w \<Longrightarrow> snd (lock i (forget i (fst (lock i w)))) \<noteq> snd (lock i w)"
  by (auto simp: lock_def forget_def locks_ok_def split: option.splits)

section \<open>Witnesses\<close>

definition minutely :: wakeups where
  "minutely = no_wakeups\<lparr>wk_arrivals := [(''cron'', [0, 60000, 120000, 180000])]\<rparr>"

lemma minutely_due: "snd (due_prefetch 225000 minutely) = [''cron'']"
  by (simp add: due_prefetch_def minutely_def no_wakeups_def due_def Let_def INTERVALS_def MIN_PERIOD_def
      JITTER_def LEAD_def from_secs_def)

lemma prefetch_once_per_cycle_witness: "''cron'' \<notin> set (snd (due_prefetch 230000 (fst (due_prefetch 225000 minutely))))"
  by (rule prefetch_once_per_cycle) (simp_all add: minutely_due, simp add: minutely_def no_wakeups_def book_ok_def)

text \<open>One permit, and one may wait: the first runs, two find no permit, one of them waits and then runs, the other is refused.\<close>

definition two_at_once :: queue where
  "two_at_once = \<lparr>q_permits = 0, q_running = 1, q_waiting = 1, q_turned = 0, q_arriving = [], q_queued = 0, q_granted = 0, q_leaving = 1\<rparr>"

lemma two_at_once_reach: "(wake_step 1)\<^sup>*\<^sup>* (fresh_queue 1) two_at_once"
proof -
  let ?q = "\<lambda>p r w t ar qd g l. \<lparr>q_permits = p, q_running = r, q_waiting = w, q_turned = t, q_arriving = ar, q_queued = qd,
    q_granted = g, q_leaving = l\<rparr>"
  note [trans] = rtranclp.rtrancl_into_rtrancl
  have "(wake_step 1)\<^sup>*\<^sup>* (fresh_queue 1) (fresh_queue 1)" by simp
  also have "wake_step 1 (fresh_queue 1) (?q 0 1 0 0 [] 0 0 0)" using starts [of "fresh_queue 1" 0 1] by (simp add: fresh_queue_def)
  also have "wake_step 1 (?q 0 1 0 0 [] 0 0 0) (?q 0 1 0 1 [] 0 0 0)" using turned [of "?q 0 1 0 0 [] 0 0 0" 1] by simp
  also have "wake_step 1 (?q 0 1 0 1 [] 0 0 0) (?q 0 1 0 2 [] 0 0 0)" using turned [of "?q 0 1 0 1 [] 0 0 0" 1] by (simp add: numeral_2_eq_2)
  also have "wake_step 1 (?q 0 1 0 2 [] 0 0 0) (?q 0 1 1 1 [0] 0 0 0)" using arrives [of "?q 0 1 0 2 [] 0 0 0" 1 1] by simp
  also have "wake_step 1 (?q 0 1 1 1 [0] 0 0 0) (?q 0 1 2 0 [1, 0] 0 0 0)" using arrives [of "?q 0 1 1 1 [0] 0 0 0" 0 1] by (simp add: numeral_2_eq_2)
  also have "wake_step 1 (?q 0 1 2 0 [1, 0] 0 0 0) (?q 0 1 2 0 [1] 1 0 0)" using queues [of 0 "?q 0 1 2 0 [1, 0] 0 0 0" 1] by simp
  also have "wake_step 1 (?q 0 1 2 0 [1] 1 0 0) (?q 0 1 2 0 [] 1 0 1)" using refused [of 1 "?q 0 1 2 0 [1] 1 0 0" 1] by simp
  also have "wake_step 1 (?q 0 1 2 0 [] 1 0 1) (?q 1 0 2 0 [] 1 0 1)" using ends [of "?q 0 1 2 0 [] 1 0 1" 0 1] by simp
  also have "wake_step 1 (?q 1 0 2 0 [] 1 0 1) (?q 0 0 2 0 [] 0 1 1)" using granted [of "?q 1 0 2 0 [] 1 0 1" 0 0 1] by simp
  also have "wake_step 1 (?q 0 0 2 0 [] 0 1 1) two_at_once" using begins [of "?q 0 0 2 0 [] 0 1 1" 0 1] by (simp add: two_at_once_def)
  finally show ?thesis .
qed

lemma wakes_bounded_witness:
  "q_permits two_at_once + q_granted two_at_once + q_running two_at_once = 1 \<and> q_queued two_at_once \<le> 1 \<and> q_running two_at_once = 1"
  using wakes_bounded [OF two_at_once_reach] by (simp add: two_at_once_def)

definition running :: "string \<Rightarrow> tier \<Rightarrow> observed_sandbox" where
  "running i t = \<lparr>ob_id = i, ob_tier = t, ob_serving = is_serving t, ob_ip = None, ob_net_index = None, ob_egress = None\<rparr>"

lemma victims_first_witness:
  "\<exists>vs. victims [running ''h'' Hot, running ''f'' Frozen] ''new'' 5 no_wakeups = ''f'' # vs"
proof -
  let ?obs = "[running ''h'' Hot, running ''f'' Frozen]"
  note first = victims_first [of ?obs "''new''" 5 no_wakeups]
  have go: "may_go no_wakeups 5 ''new'' (running ''f'' Frozen)"
    by (simp add: may_go_def running_def protected_def no_wakeups_def)
  then have "victims ?obs ''new'' 5 no_wakeups \<noteq> []" using first by auto
  then obtain i vs where v: "victims ?obs ''new'' 5 no_wakeups = i # vs" by (meson neq_Nil_conv)
  with first go obtain s where s: "s \<in> set ?obs" "ob_id s = i" "goes_before no_wakeups 5 s (running ''f'' Frozen)"
    by auto
  then have "s = running ''f'' Frozen" by (auto simp: goes_before_def running_def Let_def)
  with v s(2) show ?thesis by (simp add: running_def)
qed

end
