(* ===== verification/NodeLoop.thy ===== *)
theory NodeLoop
  imports Lifecycle WakeLaws NodeAdmission
begin

text \<open>
  The node's side of the conversation (\<^verbatim>\<open>node/mod.rs\<close>, with \<^verbatim>\<open>switch.rs\<close>): how a command from the
  master is offered to the sandbox runtime (\<^verbatim>\<open>run_one\<close>), how room is made for a wake (\<^verbatim>\<open>promote\<close>,
  \<^verbatim>\<open>evict_one\<close>), how failures back off, and how a batch is split into groups. What the host and the
  engine answer while one command runs is the argument \<open>world\<close>. A thread that destroys a sandbox is
  a job, begun and finished as steps of their own; a command waits for a job that holds the mutex it
  needs.
\<close>

section \<open>State\<close>

datatype node_error =
    Held held_back
  | Runtime rt_error
  | NoAddress
  | FetchFailed string

record failing =
  fl_attempts :: nat
  fl_retry_at :: instant
  fl_error :: node_error
  fl_held_back :: bool

record job =
  jb_id :: string
  jb_net_index :: "u32 option"
  jb_mutex :: nat
  jb_begun :: bool

record ('d, 'm) node_state =
  ns_sandboxes :: "(string, ('d, 'm) local) book"
  ns_egress :: "string \<rightharpoonup> egress"
  ns_wake :: wakeups
  ns_starting :: starting
  ns_failing :: "(string, failing) book"
  ns_deferred :: "(string, instant) book"
  ns_destroying :: "string list"
  ns_jobs :: "job list"
  ns_tags :: "string list"
  ns_pulls :: "(string \<times> string \<times> nat) list"
  ns_switching :: bool

datatype image_status = ImagePending | ImageFailed string | ImageReady

record ('d, 'm) world =
  w_t :: instant
  w_answers :: "nat \<Rightarrow> 'm answers"
  w_env :: "('d, 'm) create_env"
  w_used :: "string \<Rightarrow> nat option"
  w_reading :: "nat \<Rightarrow> host_reading"
  w_took :: "nat \<Rightarrow> millis"
  w_lock_free :: "string \<Rightarrow> bool"
  w_exec :: "string + string \<times> string \<times> int"
  w_image :: image_status
  w_tag_here :: bool
  w_size :: nat
  w_says :: "rt_error \<Rightarrow> string"
  w_switch :: "string + string"

record node_cfg =
  nc_min_free_mib :: nat
  nc_max_psi :: real
  nc_wake_max_psi :: real
  nc_backend :: backend_kind
  nc_backend_file :: bool

datatype step_result = StepDone | StepLater millis | StepAnswered command_result

definition at_node :: "('d, 'm) node_state \<Rightarrow> string \<Rightarrow> ('d, 'm) local" where
  "at_node ns i = (case map_of (ns_sandboxes ns) i of Some l \<Rightarrow> l | None \<Rightarrow> nowhere)"

definition put_node :: "string \<Rightarrow> ('d, 'm) local \<Rightarrow> ('d, 'm) node_state \<Rightarrow> ('d, 'm) node_state" where
  "put_node i l ns = ns\<lparr>ns_sandboxes := put i l (ns_sandboxes ns)\<rparr>"

definition on_wake :: "(wakeups \<Rightarrow> wakeups) \<Rightarrow> ('d, 'm) node_state \<Rightarrow> ('d, 'm) node_state" where
  "on_wake f ns = ns\<lparr>ns_wake := f (ns_wake ns)\<rparr>"

text \<open>What the node reports: every sandbox of its own that is in a tier.\<close>

definition observe :: "('d, 'm) node_state \<Rightarrow> observed_sandbox list" where
  "observe ns = List.map_filter (\<lambda>(i, l).
     if starts_with i WARM_SEED_PREFIX then None
     else map_option (\<lambda>t. \<lparr>ob_id = i, ob_tier = t, ob_serving = is_serving t, ob_ip = None,
            ob_net_index = lo_net l, ob_egress = ns_egress ns i\<rparr>) (tier_of l)) (ns_sandboxes ns)"

section \<open>Making room\<close>

definition PRESSURE_POLL :: millis where "PRESSURE_POLL = 250"
definition MAX_EVICTIONS :: nat where "MAX_EVICTIONS = 4"

text \<open>\<^verbatim>\<open>evict_one\<close>: the first victim whose mutex is free, that is still not protected, and that goes to disk.\<close>

fun try_victims :: "('d, 'm) world \<Rightarrow> string list \<Rightarrow> ('d, 'm) node_state \<Rightarrow> ('d, 'm) node_state \<times> bool" where
  "try_victims w [] ns = (ns, False)"
| "try_victims w (v # vs) ns =
     (if \<not> w_lock_free w v then try_victims w vs (on_wake (fst \<circ> lock v) ns)
      else let ns1 = on_wake (fst \<circ> lock v) ns
           in if protected v (w_t w) (ns_wake ns1) then try_victims w vs ns1
              else case Lifecycle.set_tier (w_answers w) (w_t w) Snapshot (at_node ns1 v) of
                (l, Inr _) \<Rightarrow> (on_wake (put_away v (w_t w)) (put_node v l ns1), True)
              | (l, Inl _) \<Rightarrow> try_victims w vs (put_node v l ns1))"

definition evict_one :: "('d, 'm) world \<Rightarrow> string \<Rightarrow> ('d, 'm) node_state \<Rightarrow> ('d, 'm) node_state \<times> bool" where
  "evict_one w excepted ns = try_victims w (victims (observe ns) excepted (w_t w) (ns_wake ns)) ns"

definition set_tier_at :: "('d, 'm) world \<Rightarrow> string \<Rightarrow> tier \<Rightarrow> ('d, 'm) node_state \<Rightarrow> ('d, 'm) node_state \<times> (node_error + unit)" where
  "set_tier_at w i want ns =
     (case Lifecycle.set_tier (w_answers w) (w_t w) want (at_node ns i) of
        (l, Inl e) \<Rightarrow> (put_node i l ns, Inl (Runtime e))
      | (l, Inr u) \<Rightarrow> (put_node i l ns, Inr u))"

text \<open>
  The loop of \<^verbatim>\<open>promote_reading\<close>. \<open>k\<close> counts the readings, \<open>now\<close> is the clock; a round that sleeps
  takes at least \<open>PRESSURE_POLL\<close>, and every round \<open>w_took\<close> besides. The last component is the
  number of readings taken.
\<close>

function promote_loop :: "nat \<Rightarrow> real \<Rightarrow> ('d, 'm) world \<Rightarrow> string \<Rightarrow> instant \<Rightarrow> nat \<Rightarrow> instant \<Rightarrow> nat
    \<Rightarrow> ('d, 'm) node_state \<Rightarrow> ('d, 'm) node_state \<times> (node_error + unit) \<times> nat" where
  "promote_loop min_free max_psi w i deadline k now gone ns =
     (let r = w_reading w k
      in case holding_back_at min_free max_psi (SetTier i Hot) r of
        None \<Rightarrow> (let (ns1, out) = set_tier_at w i Hot ns in (ns1, out, Suc k))
      | Some why \<Rightarrow>
          let under = (short_of min_free r \<noteq> None);
              (ns1, made) = (if under \<and> gone < MAX_EVICTIONS then evict_one w i ns else (ns, False))
          in if made \<and> gone < MAX_EVICTIONS then promote_loop min_free max_psi w i deadline (Suc k) (now + w_took w k) (Suc gone) ns1
             else if \<not> under \<and> now < deadline
               then promote_loop min_free max_psi w i deadline (Suc k) (now + PRESSURE_POLL + w_took w k) gone ns1
             else (ns1, Inl (Held why), Suc k))"
  by pat_completeness auto
termination
  by (relation "measure (\<lambda>(_, _, _, _, deadline, _, now, gone, _). (MAX_EVICTIONS - gone) + (deadline - now))")
    (auto simp: PRESSURE_POLL_def)

declare promote_loop.simps [simp del]

definition promote :: "nat \<Rightarrow> real \<Rightarrow> ('d, 'm) world \<Rightarrow> string \<Rightarrow> millis \<Rightarrow> ('d, 'm) node_state
    \<Rightarrow> ('d, 'm) node_state \<times> (node_error + unit)" where
  "promote min_free max_psi w i patience ns =
     (if tier_of (at_node ns i) = Some Hot then set_tier_at w i Hot ns
      else let (ns1, out, _) = promote_loop min_free max_psi w i (w_t w + patience) 0 (w_t w) 0 ns in (ns1, out))"

section \<open>Destroying on a thread\<close>

text \<open>
  \<^verbatim>\<open>destroy_with_net\<close> in two parts: what it does until the program is gone and the sandbox is no
  longer observed, and the clearing away after it.
\<close>

definition begin_job :: "('d, 'm) world \<Rightarrow> string \<Rightarrow> ('d, 'm) node_state \<Rightarrow> ('d, 'm) node_state" where
  "begin_job w i ns =
     (put_node i (drop_snapshot (remove_engine (fst (freeze (w_answers w 0) False (at_node ns i))))) ns)
       \<lparr>ns_jobs := map (\<lambda>j. if jb_id j = i then j\<lparr>jb_begun := True\<rparr> else j) (ns_jobs ns)\<rparr>"

definition finish_job :: "('d, 'm) world \<Rightarrow> string \<Rightarrow> ('d, 'm) node_state \<Rightarrow> ('d, 'm) node_state" where
  "finish_job w i ns =
     (let a = w_answers w 0; l = at_node ns i; l1 = (teardown a l)\<lparr>lo_archive := None\<rparr>;
          index = (case find (\<lambda>j. jb_id j = i) (ns_jobs ns) of
                     Some j \<Rightarrow> (case jb_net_index j of Some n \<Rightarrow> Some n | None \<Rightarrow> lo_net l) | None \<Rightarrow> lo_net l);
          l2 = (if egress_ok a \<and> index \<noteq> None \<and> net_ok a then l1\<lparr>lo_ns := False, lo_rule := False\<rparr> else l1)
      in (put_node i l2 ns)
           \<lparr>ns_egress := (if egress_ok a then (ns_egress ns)(i := None) else ns_egress ns),
            ns_jobs := filter (\<lambda>j. jb_id j \<noteq> i) (ns_jobs ns),
            ns_destroying := removeAll i (ns_destroying ns)\<rparr>)"

text \<open>A mutex a job holds: a command that needs it waits until the job is over.\<close>

definition held_by_job :: "('d, 'm) node_state \<Rightarrow> nat \<Rightarrow> bool" where
  "held_by_job ns l \<longleftrightarrow> (\<exists>j \<in> set (ns_jobs ns). jb_begun j \<and> jb_mutex j = l)"

section \<open>Backing off\<close>

definition BACKOFF_MIN :: millis where "BACKOFF_MIN = 500"
definition BACKOFF_MAX :: millis where "BACKOFF_MAX = from_secs 60"
definition HELD_BACK_RETRY :: millis where "HELD_BACK_RETRY = from_secs 5"
definition FETCH_RECHECK :: millis where "FETCH_RECHECK = 500"

definition backoff_for :: "nat \<Rightarrow> millis" where
  "backoff_for attempts = min (BACKOFF_MIN * 2 ^ min attempts 7) BACKOFF_MAX"

definition is_held :: "node_error \<Rightarrow> bool" where
  "is_held e = (case e of Held _ \<Rightarrow> True | _ \<Rightarrow> False)"

definition note_failure :: "string \<Rightarrow> instant \<Rightarrow> node_error \<Rightarrow> ('d, 'm) node_state \<Rightarrow> ('d, 'm) node_state \<times> step_result" where
  "note_failure i now e ns =
     (let n = Suc (case map_of (ns_failing ns) i of Some f \<Rightarrow> fl_attempts f | None \<Rightarrow> 0);
          wait = (if is_held e then min (backoff_for n) HELD_BACK_RETRY else backoff_for n)
      in (ns\<lparr>ns_failing := put i \<lparr>fl_attempts = n, fl_retry_at = now + wait, fl_error = e, fl_held_back = is_held e\<rparr>
               (ns_failing ns)\<rparr>,
          StepLater wait))"

section \<open>One command\<close>

definition answer_of :: "string \<Rightarrow> string \<Rightarrow> string \<Rightarrow> int \<Rightarrow> nat \<Rightarrow> command_result" where
  "answer_of rid out msgs code bytes = \<lparr>result_id = rid, stdout = out, stderr = msgs, exit_code = code, size_bytes = bytes\<rparr>"

definition said :: "string \<Rightarrow> string" where
  "said e = ''sandstorm: '' @ e @ [CHR 0x0A]"

text \<open>The guard of an exec or a branch comes and goes with it; both take the sandbox's mutex.\<close>

definition run_active :: "string \<Rightarrow> ('d, 'm) node_state \<Rightarrow> ('d, 'm) node_state" where
  "run_active i ns = on_wake (release i \<circ> fst \<circ> lock i \<circ> hold i) ns"

definition create_for :: "('d, 'm) world \<Rightarrow> create_cmd \<Rightarrow> ('d, 'm) create_env" where
  "create_for w c = (w_env w)\<lparr>rq_net := cr_net_index c, rq_fork := (cr_from_tag c \<noteq> None),
     rq_volume := (cr_volume c \<noteq> None), rq_seed := starts_with (cr_id c) WARM_SEED_PREFIX\<rparr>"

text \<open>What a command does once it has the sandbox's mutex: its outcome, or a wait without a failure.\<close>

datatype outcome = OutOk | OutErr node_error | OutWait millis

definition image_for :: "('d, 'm) world \<Rightarrow> create_cmd \<Rightarrow> image_status" where
  "image_for w c = (if cr_from_tag c \<noteq> None \<and> cr_fetch c \<noteq> None then w_image w else ImageReady)"

definition apply_create :: "('d, 'm) world \<Rightarrow> create_cmd \<Rightarrow> ('d, 'm) node_state \<Rightarrow> ('d, 'm) node_state \<times> outcome" where
  "apply_create w c ns =
     (case image_for w c of
        ImagePending \<Rightarrow> (ns\<lparr>ns_starting := starting_forget (cr_id c) (ns_starting ns)\<rparr>, OutWait FETCH_RECHECK)
      | ImageFailed e \<Rightarrow> (ns, OutErr (FetchFailed e))
      | ImageReady \<Rightarrow>
          (case create (create_for w c) (w_answers w 0) (w_t w) (at_node ns (cr_id c)) of
             (l, Inl e) \<Rightarrow> (put_node (cr_id c) l ns, OutErr (Runtime e))
           | (l, Inr _) \<Rightarrow> ((put_node (cr_id c) l ns)\<lparr>ns_egress := (ns_egress ns)(cr_id c \<mapsto> cr_egress c)\<rparr>, OutOk)))"

definition apply_destroy :: "string \<Rightarrow> u32 option \<Rightarrow> nat \<Rightarrow> ('d, 'm) node_state \<Rightarrow> ('d, 'm) node_state" where
  "apply_destroy i net_index l ns =
     (if i \<in> set (ns_destroying ns) then ns
      else ns\<lparr>ns_destroying := i # ns_destroying ns,
              ns_jobs := ns_jobs ns @ [\<lparr>jb_id = i, jb_net_index = net_index, jb_mutex = l, jb_begun = False\<rparr>]\<rparr>)"

definition set_egress_at :: "('d, 'm) world \<Rightarrow> string \<Rightarrow> egress \<Rightarrow> ('d, 'm) node_state \<Rightarrow> ('d, 'm) node_state \<times> outcome" where
  "set_egress_at w i e ns =
     (if lo_net (at_node ns i) = None then (ns, OutErr NoAddress)
      else if \<not> egress_ok (w_answers w 0) then (ns, OutErr (Runtime EgressFailed))
      else (ns\<lparr>ns_egress := (ns_egress ns)(i \<mapsto> e)\<rparr>, OutOk))"

definition to_outcome :: "node_error + unit \<Rightarrow> outcome" where
  "to_outcome r = (case r of Inl e \<Rightarrow> OutErr e | Inr _ \<Rightarrow> OutOk)"

definition apply_locked :: "node_cfg \<Rightarrow> ('d, 'm) world \<Rightarrow> command \<Rightarrow> nat \<Rightarrow> ('d, 'm) node_state \<Rightarrow> ('d, 'm) node_state \<times> outcome" where
  "apply_locked cfg w cmd l ns =
     (case cmd of
        SetTier i Hot \<Rightarrow> map_prod id to_outcome (promote (nc_min_free_mib cfg) (nc_wake_max_psi cfg) w i 0 ns)
      | _ \<Rightarrow>
          (let (s1, why) = admit_cmd (nc_min_free_mib cfg) (nc_max_psi cfg) (w_t w) (w_used w) (w_reading w 0) cmd (ns_starting ns);
               ns1 = ns\<lparr>ns_starting := s1\<rparr>
           in case why of
                Some held \<Rightarrow> (ns1, OutErr (Held held))
              | None \<Rightarrow>
                  (case cmd of
                     Create c \<Rightarrow> if ns_switching ns1 then (ns1, OutErr (Held Restarting)) else apply_create w c ns1
                   | SetEgress i e \<Rightarrow> set_egress_at w i e ns1
                   | SetTier i t \<Rightarrow> map_prod id to_outcome (set_tier_at w i t ns1)
                   | Destroy i n \<Rightarrow> (apply_destroy i n l ns1, OutOk)
                   | _ \<Rightarrow> (ns1, OutOk))))"

text \<open>What is noted once a command has gone through.\<close>

definition note_success :: "('d, 'm) world \<Rightarrow> command \<Rightarrow> ('d, 'm) node_state \<Rightarrow> ('d, 'm) node_state" where
  "note_success w cmd ns =
     (let i = command_id cmd; ns1 = ns\<lparr>ns_failing := del i (ns_failing ns)\<rparr>
      in case cmd of
           Create c \<Rightarrow> (on_wake (wk_started i (w_t w)) ns1)
             \<lparr>ns_starting := starting_add i (memory_limit (cr_spec c)) (w_t w) (ns_starting ns1)\<rparr>
         | SetTier _ t \<Rightarrow> if t = Hot then on_wake (wk_started i (w_t w)) ns1 else ns1
         | Destroy _ _ \<Rightarrow> on_wake (forget i) ns1
         | _ \<Rightarrow> ns1)"

text \<open>A demotion is put off in the grace after a request, and while a request is in flight.\<close>

definition put_off :: "('d, 'm) world \<Rightarrow> command \<Rightarrow> ('d, 'm) node_state \<Rightarrow> millis option" where
  "put_off w cmd ns =
     (case cmd of
        SetTier i t \<Rightarrow>
          if is_serving t then None
          else (case in_grace i (w_t w) (ns_wake ns) of
                  Some left \<Rightarrow> Some left
                | None \<Rightarrow> if protected i (w_t w) (ns_wake ns) then Some HELD_BACK_RETRY else None)
      | _ \<Rightarrow> None)"

definition run_locked :: "node_cfg \<Rightarrow> ('d, 'm) world \<Rightarrow> instant \<Rightarrow> command \<Rightarrow> ('d, 'm) node_state \<Rightarrow> ('d, 'm) node_state \<times> step_result" where
  "run_locked cfg w now cmd ns0 =
     (let i = command_id cmd; (wk, l) = lock i (ns_wake ns0); ns = ns0\<lparr>ns_wake := wk\<rparr>
      in case put_off w cmd ns of
           Some left \<Rightarrow> (ns, StepLater left)
         | None \<Rightarrow>
             (case apply_locked cfg w cmd l ns of
                (ns1, OutWait t) \<Rightarrow> (ns1, StepLater t)
              | (ns1, OutOk) \<Rightarrow> (note_success w cmd ns1, StepDone)
              | (ns1, OutErr e) \<Rightarrow>
                  note_failure i now e
                    (case cmd of Create _ \<Rightarrow> ns1\<lparr>ns_starting := starting_forget i (ns_starting ns1)\<rparr> | _ \<Rightarrow> ns1)))"

text \<open>\<^verbatim>\<open>switch::prepare\<close> and \<^verbatim>\<open>switch::switch\<close>; the exit that follows is not modelled.\<close>

definition bundles :: "('d, 'm) node_state \<Rightarrow> string list" where
  "bundles ns = map fst (filter (\<lambda>(_, l). lo_bundle l) (ns_sandboxes ns))"

definition prepare_switch :: "node_cfg \<Rightarrow> ('d, 'm) world \<Rightarrow> backend_kind \<Rightarrow> ('d, 'm) node_state \<Rightarrow> string + string" where
  "prepare_switch cfg w want ns =
     (if \<not> nc_backend_file cfg then Inl ''this node's backend is fixed by its command line''
      else if want = nc_backend cfg then Inr (''already on '' @ backend_as_str want)
      else if bundles ns \<noteq> [] then Inl ''sandboxes are still on this node''
      else w_switch w)"

definition switch_backend :: "node_cfg \<Rightarrow> ('d, 'm) world \<Rightarrow> backend_kind \<Rightarrow> ('d, 'm) node_state
    \<Rightarrow> ('d, 'm) node_state \<times> (string + string)" where
  "switch_backend cfg w want ns =
     (if want = nc_backend cfg then (ns, prepare_switch cfg w want ns)
      else if ns_switching ns then (ns, Inl ''a backend switch is already under way'')
      else case prepare_switch cfg w want ns of
        Inr msg \<Rightarrow> (ns\<lparr>ns_switching := True\<rparr>, Inr msg)
      | Inl e \<Rightarrow> (ns, Inl e))"

definition run_one :: "node_cfg \<Rightarrow> ('d, 'm) world \<Rightarrow> instant \<Rightarrow> command \<Rightarrow> ('d, 'm) node_state \<Rightarrow> ('d, 'm) node_state \<times> step_result" where
  "run_one cfg w now cmd ns =
     (let i = command_id cmd
      in case (case map_of (ns_failing ns) i of Some f \<Rightarrow> if fl_retry_at f > now then Some (fl_retry_at f - now) else None | None \<Rightarrow> None) of
        Some wait \<Rightarrow> (ns, StepLater wait)
      | None \<Rightarrow>
          (case (case cmd of SetTier _ t \<Rightarrow> if t < Snapshot then evicted_for i now (ns_wake ns) else None | _ \<Rightarrow> None) of
             Some left \<Rightarrow> (ns, StepLater left)
           | None \<Rightarrow>
               (case cmd of
                  PullTemplate name img attempt \<Rightarrow> (ns\<lparr>ns_pulls := ns_pulls ns @ [(name, img, attempt)]\<rparr>, StepDone)
                | Exec eid sb args secs \<Rightarrow>
                    (run_active sb ns,
                     StepAnswered (case w_exec w of
                       Inr (out, msgs, code) \<Rightarrow> answer_of eid out msgs code 0
                     | Inl e \<Rightarrow> answer_of eid [] (said e) (- 1) 0))
                | Branch sb tag rid \<Rightarrow>
                    (let ns1 = run_active sb ns
                     in case branch (w_answers w 0) (tag \<in> set (ns_tags ns1) \<or> w_tag_here w) (at_node ns1 sb) of
                          (l, Inr _) \<Rightarrow> ((put_node sb l ns1)\<lparr>ns_tags := tag # ns_tags ns1\<rparr>, StepAnswered (answer_of rid [] [] 0 (w_size w)))
                        | (l, Inl e) \<Rightarrow> (put_node sb l ns1, StepAnswered (answer_of rid [] (said (w_says w e)) (- 1) 0)))
                | DropTag tag \<Rightarrow> (ns\<lparr>ns_tags := removeAll tag (ns_tags ns)\<rparr>, StepDone)
                | SetBackend b rid \<Rightarrow>
                    (case (case backend_from_str b of None \<Rightarrow> (ns, Inl ''no such backend'') | Some want \<Rightarrow> switch_backend cfg w want ns) of
                       (ns1, Inr msg) \<Rightarrow> (ns1, StepAnswered (answer_of rid msg [] 0 0))
                     | (ns1, Inl e) \<Rightarrow> (ns1, StepAnswered (answer_of rid [] e 1 0)))
                | _ \<Rightarrow> run_locked cfg w now cmd ns)))"

section \<open>A batch\<close>

definition is_create :: "command \<Rightarrow> bool" where
  "is_create c = (case c of Create _ \<Rightarrow> True | _ \<Rightarrow> False)"

definition next_group :: "command list \<Rightarrow> command list \<times> command list" where
  "next_group cs =
     (let k = min (max (length (takeWhile is_create cs)) 1) (length cs) in (take k cs, drop k cs))"

text \<open>The loop over the groups of an answer.\<close>

function groups :: "command list \<Rightarrow> command list list" where
  "groups cs = (if cs = [] then [] else let (g, rest) = next_group cs in g # groups rest)"
  by pat_completeness auto
termination
proof (relation "measure length")
  fix cs x and g rest :: "command list"
  assume "cs \<noteq> []" "x = next_group cs" "(g, rest) = x"
  then show "(rest, cs) \<in> measure length" by (cases cs) (auto simp: next_group_def Let_def)
qed simp

declare groups.simps [simp del]

text \<open>
  The commands of a group one after the other: with workers, each takes only its own sandbox's
  mutex and entry of the failure book, and they are answered in the group's order.
\<close>

fun run_group :: "node_cfg \<Rightarrow> (nat \<Rightarrow> ('d, 'm) world) \<Rightarrow> instant \<Rightarrow> nat \<Rightarrow> command list \<Rightarrow> ('d, 'm) node_state
    \<Rightarrow> ('d, 'm) node_state \<times> step_result list" where
  "run_group cfg ws now k [] ns = (ns, [])"
| "run_group cfg ws now k (c # cs) ns =
     (let (ns1, s) = run_one cfg (ws k) now c ns; (ns2, ss) = run_group cfg ws now (Suc k) cs ns1
      in (ns2, s # ss))"

definition still_deferred :: "instant \<Rightarrow> ('d, 'm) node_state \<Rightarrow> ('d, 'm) node_state \<times> deferred list" where
  "still_deferred now ns =
     (let b = keep (\<lambda>_ until. until > now) (ns_deferred ns)
      in (ns\<lparr>ns_deferred := b\<rparr>, map (\<lambda>(i, until). \<lparr>df_id = i, retry_in_ms = until - now + 1\<rparr>) b))"

definition hold_for :: "millis \<Rightarrow> instant \<Rightarrow> ('d, 'm) node_state \<Rightarrow> millis" where
  "hold_for longest now ns = foldr min (map (\<lambda>(_, until). until - now) (ns_deferred ns)) longest"

fun note_steps :: "instant \<Rightarrow> (command \<times> step_result) list \<Rightarrow> ('d, 'm) node_state \<Rightarrow> ('d, 'm) node_state \<times> command_result list" where
  "note_steps now [] ns = (ns, [])"
| "note_steps now ((c, StepLater wait) # ss) ns =
     note_steps now ss (ns\<lparr>ns_deferred := put (command_id c) (now + wait) (ns_deferred ns)\<rparr>)"
| "note_steps now ((c, StepDone) # ss) ns = note_steps now ss ns"
| "note_steps now ((c, StepAnswered r) # ss) ns = map_prod id (Cons r) (note_steps now ss ns)"

text \<open>What the node does with the commands a poll brought, and the results it posts.\<close>

fun run_groups :: "node_cfg \<Rightarrow> (nat \<Rightarrow> nat \<Rightarrow> ('d, 'm) world) \<Rightarrow> instant \<Rightarrow> nat \<Rightarrow> command list list \<Rightarrow> ('d, 'm) node_state
    \<Rightarrow> ('d, 'm) node_state \<times> command_result list" where
  "run_groups cfg ws now n [] ns = (ns, [])"
| "run_groups cfg ws now n (g # gs) ns =
     (let (ns1, ss) = run_group cfg (ws n) now 0 g ns; (ns2, rs) = note_steps now (zip g ss) ns1;
          (ns3, rs') = run_groups cfg ws now (Suc n) gs ns2
      in (ns3, rs @ rs'))"

definition take_answer :: "node_cfg \<Rightarrow> (nat \<Rightarrow> nat \<Rightarrow> ('d, 'm) world) \<Rightarrow> instant \<Rightarrow> command list \<Rightarrow> ('d, 'm) node_state
    \<Rightarrow> ('d, 'm) node_state \<times> command_result list" where
  "take_answer cfg ws now cs ns =
     (let (ns1, rs) = run_groups cfg ws now 0 (groups cs) ns
      in (ns1\<lparr>ns_failing := keep (\<lambda>i _. i \<in> command_id ` set cs \<or> map_of (ns_deferred ns1) i \<noteq> None) (ns_failing ns1)\<rparr>, rs))"

text \<open>\<^verbatim>\<open>report\<close>'s part that changes the node: the dead are cleared away, restores that lasted settled.\<close>

definition reap_all :: "('d, 'm) world \<Rightarrow> ('d, 'm) node_state \<Rightarrow> ('d, 'm) node_state" where
  "reap_all w ns = fold (\<lambda>(i, l) ns.
     if starts_with i WARM_SEED_PREFIX \<or> \<not> dead DEAD_AFTER (w_t w) l then ns
     else let ns1 = on_wake (fst \<circ> lock i) ns
          in if \<not> w_lock_free w i then ns1
             else on_wake (forget i) (put_node i (fst (destroy_with_net (w_answers w 0) None (at_node ns1 i))) ns1))
     (ns_sandboxes ns) ns"

definition settle_all :: "('d, 'm) world \<Rightarrow> ('d, 'm) node_state \<Rightarrow> ('d, 'm) node_state" where
  "settle_all w ns = fold (\<lambda>(i, _) ns.
     if w_lock_free w i then put_node i (settle_restore (w_t w) (at_node ns i)) ns else ns) (ns_sandboxes ns) ns"

definition failures_of :: "(node_error \<Rightarrow> string) \<Rightarrow> ('d, 'm) node_state \<Rightarrow> command_failure list" where
  "failures_of says ns = map (\<lambda>(i, f). \<lparr>cf_id = i, cf_error = says (fl_error f), cf_attempts = fl_attempts f,
     cf_held_back = fl_held_back f\<rparr>) (ns_failing ns)"

end
