(* ===== verification/LifecycleLaws.thy ===== *)
theory LifecycleLaws
  imports Lifecycle
begin

text \<open>
  What the tier moves, the wakes, the forks and the attaches of \<^verbatim>\<open>node/runtime.rs\<close> keep and where
  they lead, for every way the engine and the tools can answer. The moves share one argument, the
  locale \<open>walk_keeps\<close>: a reading of the sandbox that no single step changes is not changed by
  \<open>set_tier\<close>; it is interpreted on what is on the disk and on what is in memory.
\<close>

section \<open>Where a step leads\<close>

lemmas step_defs = freeze_def checkpoint_def checkpoint_into_def restore_def may_restore_def ensure_net_def
  detach_def teardown_def release_net_def remove_engine_def drop_snapshot_def forget_restore_def
  note_restored_def accept_connections_def refuse_connections_def Let_def

lemma step_reaches:
  assumes "tier_of l = Some h" "step a now h n l = (l', Inr u)" "n \<noteq> Detached"
  shows "tier_of l' = Some n"
  using assms
  by (cases h; cases n)
    (auto simp: tier_of_def step_defs split: if_splits option.splits prod.splits sum.splits)

lemma tier_of_settle [simp]: "tier_of (settle want l) = tier_of l"
  by (auto simp: settle_def accept_connections_def tier_of_def)

lemma tier_of_refuse [simp]: "tier_of (refuse_connections l) = tier_of l"
  by (auto simp: refuse_connections_def tier_of_def)

lemma tier_of_not_Detached: "tier_of l \<noteq> Some Detached"
  by (simp add: tier_of_def)

text \<open>How many rounds the walk from one tier to another takes.\<close>

definition rounds :: "tier \<Rightarrow> tier \<Rightarrow> nat" where
  "rounds h want =
     (if h = want then 0 else if want < h then (if want = Hot then 1 else Suc (tier_rank want))
      else tier_rank want - tier_rank h)"

lemma walk_ends:
  assumes "tier_of l = Some h" "rounds h want < k"
  shows "snd (walk k as now want l) \<noteq> Inl DidNotReach"
  using assms
proof (induction k arbitrary: l h)
  case (Suc k)
  show ?case
  proof (cases "h = want")
    case False
    obtain l1 r where s: "step (as k) now h (next_tier h want) l = (l1, r)" by fastforce
    have err: "r \<noteq> Inl DidNotReach"
      using s by (cases h; cases "next_tier h want")
        (auto simp: step_defs split: if_splits option.splits prod.splits sum.splits)
    show ?thesis
    proof (cases r)
      case (Inr u)
      show ?thesis
      proof (cases "next_tier h want = want")
        case False
        then have "next_tier h want \<noteq> Detached"
          by (cases h; cases want) (auto simp: next_tier_def tier_order)
        from step_reaches [OF Suc.prems(1) s [unfolded Inr] this]
        have "tier_of l1 = Some (next_tier h want)" .
        moreover have "rounds (next_tier h want) want < k"
          using Suc.prems(2) False \<open>h \<noteq> want\<close>
          by (cases h; cases want) (auto simp: next_tier_def rounds_def tier_order)
        ultimately have "snd (walk k as now want l1) \<noteq> Inl DidNotReach" by (rule Suc.IH)
        with False show ?thesis using Suc.prems(1) s Inr \<open>h \<noteq> want\<close> by (simp add: Let_def)
      qed (use Suc.prems(1) s Inr \<open>h \<noteq> want\<close> in \<open>simp add: Let_def\<close>)
    qed (use Suc.prems(1) s err \<open>h \<noteq> want\<close> in \<open>simp add: Let_def\<close>)
  qed (use Suc.prems(1) in simp)
qed simp

lemma rounds_bound: "h \<noteq> Detached \<Longrightarrow> rounds h want < length ORDER"
  by (cases h; cases want) (auto simp: rounds_def ORDER_def tier_order)

text \<open>
  C11. Moving a sandbox never runs out of rounds: whatever the engine, the mounts and the network
  answer, \<^verbatim>\<open>set_tier\<close> ends with the tier reached or with the error of the step that failed, never
  with "did not reach".
\<close>

theorem set_tier_never_gives_up: "snd (set_tier as now want l) \<noteq> Inl DidNotReach"
proof (cases "tier_of l")
  case None
  then show ?thesis by (simp add: set_tier_def ORDER_def)
next
  case (Some h)
  then have "h \<noteq> Detached" using tier_of_not_Detached [of l] by auto
  moreover have "tier_of (if is_serving want then l else refuse_connections l) = Some h" using Some by simp
  ultimately show ?thesis unfolding set_tier_def by (intro walk_ends rounds_bound)
qed

section \<open>Nothing is lost on the way\<close>

definition disk :: "('d, 'm) local \<Rightarrow> 'd option" where
  "disk l = (case lo_layer l of Some d \<Rightarrow> Some d | None \<Rightarrow> lo_archive l)"

definition memory :: "('d, 'm) local \<Rightarrow> 'm option" where
  "memory l = (case lo_running l of Some m \<Rightarrow> Some m | None \<Rightarrow> lo_image l)"

lemma step_disk: "disk (fst (step a now h n l)) = disk l"
  by (cases h; cases n)
    (auto simp: disk_def step_defs split: option.splits prod.splits sum.splits)

text \<open>
  What a tier walk keeps: a reading of the sandbox that no step changes, for the tiers it may go
  through and the answers it allows, and that the firewall rule has no part in, is the same after
  the whole walk.
\<close>

locale walk_keeps =
  fixes reading :: "('d, 'm) local \<Rightarrow> 'v"
    and goes :: "tier \<Rightarrow> bool"
    and allowed :: "'m answers \<Rightarrow> bool"
  assumes step_keeps: "goes n \<Longrightarrow> allowed a \<Longrightarrow> tier_of l = Some h \<Longrightarrow> reading (fst (step a now h n l)) = reading l"
    and rule_keeps: "reading (l\<lparr>lo_rule := b\<rparr>) = reading l"
    and goes_next: "goes want \<Longrightarrow> goes (next_tier h want)"
begin

lemma settle_keeps: "reading (settle want l) = reading l"
  by (simp add: settle_def accept_connections_def rule_keeps)

lemma walk_keeps:
  assumes "goes want" "\<And>k. allowed (as k)"
  shows "reading (fst (walk k as now want l)) = reading l"
proof (induction k arbitrary: l)
  case (Suc k)
  show ?case
  proof (cases "tier_of l")
    case (Some h)
    obtain l1 r where s: "step (as k) now h (next_tier h want) l = (l1, r)" by fastforce
    have "reading l1 = reading l"
      using step_keeps [OF goes_next [OF assms(1)] assms(2) Some, of k now h] s by simp
    with Some s Suc.IH [of l1] show ?thesis
      by (cases r) (simp_all add: Let_def settle_keeps)
  qed simp
qed simp

lemma set_tier_keeps:
  "goes want \<Longrightarrow> (\<And>k. allowed (as k)) \<Longrightarrow> reading (fst (set_tier as now want l)) = reading l"
  by (simp add: set_tier_def walk_keeps refuse_connections_def rule_keeps)

end

interpretation disk_kept: walk_keeps disk "\<lambda>_. True" "\<lambda>_. True"
  by unfold_locales (auto simp: step_disk, simp add: disk_def split: option.split)

text \<open>
  C6. No move between tiers loses what a sandbox wrote: whatever succeeds or fails on the way, its
  layer, or the archive on the volume where the layer is gone, holds after the move what it held
  before.
\<close>

theorem set_tier_keeps_the_disk: "disk (fst (set_tier as now want l)) = disk l"
  by (rule disk_kept.set_tier_keeps) simp_all

text \<open>
  What the engine promises of a checkpoint: what it validates is the whole memory, and it ends the program
  only by writing an image that it does validate.
\<close>

definition engine_honest :: "'m answers \<Rightarrow> bool" where
  "engine_honest a \<longleftrightarrow> (validate_ok a \<longrightarrow> (\<forall>m. image_of a m = m)) \<and> (checkpoint_stops a \<longrightarrow> checkpoint_ok a \<and> validate_ok a)"

text \<open>And of the node's own disk: a checkpoint that is written can be sealed and renamed into place.\<close>

definition checkpoint_safe :: "'m answers \<Rightarrow> bool" where
  "checkpoint_safe a \<longleftrightarrow> engine_honest a \<and> publish_ok a"

lemma step_memory:
  assumes "tier_of l = Some h" "checkpoint_safe a" "n \<noteq> Detached"
  shows "memory (fst (step a now h n l)) = memory l"
  using assms
  by (cases h; cases n)
    (auto simp: memory_def tier_of_def checkpoint_safe_def engine_honest_def step_defs
      split: option.splits prod.splits sum.splits if_splits)

lemma next_tier_not_Detached: "want \<noteq> Detached \<Longrightarrow> next_tier h want \<noteq> Detached"
  by (cases h; cases want) (auto simp: next_tier_def tier_order)

interpretation memory_kept: walk_keeps memory "\<lambda>n. n \<noteq> Detached" checkpoint_safe
proof unfold_locales
  show "memory (l\<lparr>lo_rule := b\<rparr>) = memory l" for l :: "('a, 'b) local" and b
    by (simp add: memory_def split: option.split)
qed (auto simp: step_memory next_tier_not_Detached)


text \<open>
  Where the rename fails after the engine has ended the program, \<^verbatim>\<open>checkpoint_into\<close> removes the image
  it could not publish, the only copy there was.
\<close>

lemma unpublished_is_lost:
  assumes "tier_of l = Some Hot" "lo_restored l = None" "checkpoint_ok a" "validate_ok a" "checkpoint_stops a" "\<not> publish_ok a"
  shows "step a now Hot Snapshot l = (fst (step a now Hot Snapshot l), Inl NotPublished) \<and>
    memory l \<noteq> None \<and> memory (fst (step a now Hot Snapshot l)) = None"
  using assms by (auto simp: tier_of_def memory_def step_defs split: if_splits)

section \<open>A move that succeeds\<close>

definition succeeds :: "'m answers \<Rightarrow> bool" where
  "succeeds a \<longleftrightarrow> freeze_written a \<and> freeze_settled a \<and> checkpoint_ok a \<and> validate_ok a \<and>
     (\<forall>m. image_of a m = m) \<and> publish_ok a \<and> release_ok a \<and> restore_ok a \<and> net_ok a \<and> unmount_ok a \<and> archive_ok a \<and>
     teardown_ok a \<and> egress_ok a"

text \<open>A sandbox on its node: its bundle, its layer, its address, and no restore that is still on trial.\<close>

definition at_home :: "instant \<Rightarrow> ('d, 'm) local \<Rightarrow> bool" where
  "at_home now l \<longleftrightarrow> lo_bundle l \<and> lo_config l \<and> lo_layer l \<noteq> None \<and> lo_net l \<noteq> None \<and>
     (case lo_restored l of None \<Rightarrow> True | Some at' \<Rightarrow> at' + RESTORE_SURVIVAL \<le> now) \<and>
     (lo_running l \<noteq> None \<longrightarrow> lo_ns l)"

text \<open>A connection is neither accepted by a running program nor refused: it times out.\<close>

definition hangs :: "('d, 'm) local \<Rightarrow> bool" where
  "hangs l \<longleftrightarrow> lo_ns l \<and> \<not> lo_rule l \<and> (lo_running l = None \<or> lo_frozen l)"

lemma leg_freeze:
  "succeeds a \<Longrightarrow> step a now Hot Frozen l = (l\<lparr>lo_frozen := True\<rparr>, Inr ())"
  "succeeds a \<Longrightarrow> step a now Frozen Hot l = (l\<lparr>lo_frozen := False\<rparr>, Inr ())"
  by (simp_all add: succeeds_def freeze_def)

lemma leg_checkpoint:
  assumes "succeeds a" "lo_running l = Some m" "lo_net l \<noteq> None"
  obtains l' where "step a now Frozen Snapshot l = (l', Inr ())" "lo_running l' = None" "lo_image l' = Some m"
    "lo_bundle l' = lo_bundle l" "lo_config l' = lo_config l" "lo_layer l' = lo_layer l" "lo_net l' = lo_net l"
    "\<not> lo_ns l'"
  using assms by (cases "lo_restored l") (auto simp: succeeds_def step_defs)

lemma leg_restore:
  assumes "succeeds a" "at_home now l" "lo_image l = Some m"
  obtains l' where "step a now Snapshot Hot l = (l', Inr ())" "lo_running l' = Some m" "\<not> lo_frozen l'"
    "lo_bundle l'" "\<not> lo_rule l'" "lo_ns l'" "lo_net l' = lo_net l"
  using assms by (cases "lo_restored l") (auto simp: succeeds_def at_home_def step_defs)

lemma leg_detach:
  assumes "succeeds a" "lo_layer l = Some d"
  obtains l' where "step a now Snapshot Detached l = (l', Inr ())" "\<not> lo_bundle l'" "lo_ns l' = lo_ns l"
    "lo_rule l' = lo_rule l" "lo_archive l' = Some d"
  using assms by (auto simp: succeeds_def step_defs)

lemma home_tiers:
  assumes "at_home now l" "tier_of l = Some h"
  shows "h = Hot \<longleftrightarrow> (\<exists>m. lo_running l = Some m) \<and> \<not> lo_frozen l"
    and "h = Frozen \<longleftrightarrow> (\<exists>m. lo_running l = Some m) \<and> lo_frozen l"
    and "h = Snapshot \<Longrightarrow> lo_running l = None \<and> (\<exists>m. lo_image l = Some m)"
    and "h \<noteq> Detached"
  using assms by (auto simp: tier_of_def at_home_def split: if_splits)

lemma at_home_rule [simp]: "at_home now (l\<lparr>lo_rule := b\<rparr>) = at_home now l"
  by (simp add: at_home_def cong: option.case_cong)

lemma tier_of_rule [simp]: "tier_of (l\<lparr>lo_rule := b\<rparr>) = tier_of l"
  by (simp add: tier_of_def)

declare step.simps [simp del] walk.simps [simp del]

lemma walk_one:
  "tier_of l = Some h \<Longrightarrow> h \<noteq> want \<Longrightarrow> next_tier h want = n \<Longrightarrow> step a now h n l = (l1, Inr u) \<Longrightarrow> as k = a \<Longrightarrow>
   walk (Suc k) as now want l = (if n = want then (settle want l1, Inr ()) else walk k as now want l1)"
  by (auto simp: Let_def walk.simps)

definition arrives :: "tier \<Rightarrow> ('d, 'm) local \<times> (rt_error + unit) \<Rightarrow> bool" where
  "arrives want r \<longleftrightarrow> snd r = Inr () \<and> tier_of (fst r) = (if want = Detached then None else Some want) \<and> \<not> hangs (fst r)"

lemma down_from_Snapshot:
  assumes "succeeds (as k)" "tier_of l = Some Snapshot" "lo_layer l \<noteq> None" "\<not> lo_ns l \<or> lo_rule l"
  shows "arrives Detached (walk (Suc k) as now Detached l)"
proof -
  from assms(3) obtain d where "lo_layer l = Some d" by auto
  from leg_detach [OF assms(1) this] obtain l' where l': "step (as k) now Snapshot Detached l = (l', Inr ())"
    "\<not> lo_bundle l'" "lo_ns l' = lo_ns l" "lo_rule l' = lo_rule l" by blast
  have nxt: "next_tier Snapshot Detached = Detached" by (simp add: next_tier_def tier_order)
  have "walk (Suc k) as now Detached l = (settle Detached l', Inr ())"
    using walk_one [OF assms(2) _ nxt l'(1), of as k] by simp
  with l' assms(4) show ?thesis
    by (auto simp: arrives_def settle_def is_serving_def tier_of_def hangs_def)
qed

lemma down_from_Frozen:
  assumes "\<And>k. succeeds (as k)" "tier_of l = Some Frozen" "lo_layer l \<noteq> None" "lo_net l \<noteq> None" "Frozen < want"
  shows "arrives want (walk (Suc (Suc k)) as now want l)"
proof -
  from assms(2) obtain m where m: "lo_running l = Some m" "lo_bundle l" by (auto simp: tier_of_def split: if_splits)
  from leg_checkpoint [OF assms(1) m(1) assms(4)] obtain l' where
    l': "step (as (Suc k)) now Frozen Snapshot l = (l', Inr ())" "lo_running l' = None" "lo_image l' = Some m"
      "lo_bundle l' = lo_bundle l" "lo_layer l' = lo_layer l" "\<not> lo_ns l'" by blast
  have tier: "tier_of l' = Some Snapshot" using l' m by (simp add: tier_of_def)
  have nxt: "next_tier Frozen want = Snapshot" using assms(5) by (simp add: next_tier_def)
  have w: "walk (Suc (Suc k)) as now want l =
      (if Snapshot = want then (settle want l', Inr ()) else walk (Suc k) as now want l')"
    by (rule walk_one [OF assms(2) _ nxt l'(1)]) (use assms(5) in auto)
  show ?thesis
  proof (cases "want = Snapshot")
    case True
    then show ?thesis using w tier l'(6) by (simp add: arrives_def settle_def is_serving_def hangs_def)
  next
    case False
    then have "want = Detached" using assms(5) by (cases want) (auto simp: tier_order)
    with w down_from_Snapshot [OF assms(1) tier, where k = k and now = now] l'(5,6) assms(3) show ?thesis by simp
  qed
qed

lemma down_from_Hot:
  assumes "\<And>k. succeeds (as k)" "tier_of l = Some Hot" "lo_layer l \<noteq> None" "lo_net l \<noteq> None" "Hot < want" "lo_rule l"
  shows "arrives want (walk (Suc (Suc (Suc k))) as now want l)"
proof -
  have nxt: "next_tier Hot want = Frozen" using assms(5) by (simp add: next_tier_def)
  have tier: "tier_of (l\<lparr>lo_frozen := True\<rparr>) = Some Frozen"
    using assms(2) by (auto simp: tier_of_def split: if_splits)
  have w: "walk (Suc (Suc (Suc k))) as now want l =
      (if Frozen = want then (settle want (l\<lparr>lo_frozen := True\<rparr>), Inr ()) else walk (Suc (Suc k)) as now want (l\<lparr>lo_frozen := True\<rparr>))"
    by (rule walk_one [OF assms(2) _ nxt leg_freeze(1) [OF assms(1)]]) (use assms(5) in auto)
  show ?thesis
  proof (cases "want = Frozen")
    case True
    then show ?thesis using w tier assms(6) by (simp add: arrives_def settle_def is_serving_def hangs_def)
  next
    case False
    with assms(5) have "Frozen < want" by (cases want) (auto simp: tier_order)
    with w False down_from_Frozen [OF assms(1) tier, where want = want and k = k and now = now] assms(3,4) show ?thesis by simp
  qed
qed

lemma move_arrives:
  assumes "\<And>k. succeeds (as k)" "at_home now l" "tier_of l = Some h" "h \<noteq> Snapshot \<or> want \<noteq> Frozen"
  shows "snd (set_tier as now want l) = Inr () \<and>
    tier_of (fst (set_tier as now want l)) = (if want = Detached then None else Some want) \<and>
    \<not> hangs (fst (set_tier as now want l))"
proof -
  let ?l = "if is_serving want then l else refuse_connections l"
  have net: "lo_net l \<noteq> None" "lo_layer l \<noteq> None" using assms(2) by (auto simp: at_home_def)
  have l: "?l = (if want = Hot then l else l\<lparr>lo_rule := True\<rparr>)"
    using net by (auto simp: is_serving_def refuse_connections_def)
  have t: "tier_of ?l = Some h" using assms(3) by simp
  have four: "set_tier as now want l = walk (Suc (Suc (Suc (Suc 0)))) as now want ?l"
    by (simp add: set_tier_def ORDER_def eval_nat_numeral)
  note home = home_tiers [OF assms(2,3)]
  have "arrives want (walk (Suc (Suc (Suc (Suc 0)))) as now want ?l)"
  proof (cases "h = want")
    case True
    then have "walk (Suc (Suc (Suc (Suc 0)))) as now want ?l = (settle want ?l, Inr ())"
      by (subst walk.simps) (simp only: t option.case if_True refl)
    moreover have "\<not> hangs (settle want ?l)"
      using True home net by (cases want) (auto simp: hangs_def refuse_connections_def settle_def is_serving_def accept_connections_def)
    ultimately show ?thesis using t True home(4) by (simp add: arrives_def)
  next
    case False
    show ?thesis
    proof (cases "h < want")
      case True
      then have "want \<noteq> Hot" by auto
      with l net have l': "lo_rule ?l" "lo_layer ?l \<noteq> None" "lo_net ?l \<noteq> None" by simp_all
      consider "h = Hot" | "h = Frozen" | "h = Snapshot" "want = Detached"
        using True home(4) by (cases h; cases want) (auto simp: tier_order)
      then show ?thesis
      proof cases
        case 1
        with True down_from_Hot [OF assms(1) _ l'(2,3) _ l'(1), where want = want and k = "Suc 0" and now = now] t show ?thesis by simp
      next
        case 2
        with True down_from_Frozen [OF assms(1) _ l'(2,3), where want = want and k = "Suc (Suc 0)" and now = now] t show ?thesis by simp
      next
        case 3
        with down_from_Snapshot [OF assms(1) _ l'(2), where k = "Suc (Suc (Suc 0))" and now = now] t l'(1) show ?thesis by simp
      qed
    next
      case False2: False
      with False assms(4) home(4) have hw: "want = Hot" "h = Frozen \<or> h = Snapshot"
        by (cases h; cases want; auto simp: tier_order)+
      then have nxt: "next_tier h want = want" by (auto simp: next_tier_def tier_order)
      from hw l have l': "?l = l" by simp
      from hw(2) show ?thesis
      proof
        assume h: "h = Frozen"
        have "walk (Suc (Suc (Suc (Suc 0)))) as now want l = (settle want (l\<lparr>lo_frozen := False\<rparr>), Inr ())"
          by (subst walk_one [OF assms(3) False nxt, where a = "as (Suc (Suc (Suc 0)))"])
            (simp_all add: h hw(1) leg_freeze(2) [OF assms(1)])
        then show ?thesis using home(2) assms(2) h hw(1) l'
          by (auto simp: arrives_def settle_def is_serving_def accept_connections_def tier_of_def hangs_def at_home_def)
      next
        assume h: "h = Snapshot"
        with home(3) obtain m where "lo_image l = Some m" by auto
        from leg_restore [OF assms(1) assms(2) this] obtain l1 where l1: "step (as (Suc (Suc (Suc 0)))) now Snapshot Hot l = (l1, Inr ())"
          "lo_running l1 = Some m" "\<not> lo_frozen l1" "lo_bundle l1" "\<not> lo_rule l1" by blast
        have "walk (Suc (Suc (Suc (Suc 0)))) as now want l = (settle want l1, Inr ())"
          using walk_one [OF assms(3) False nxt, where as = as and k = "Suc (Suc (Suc 0))" and now = now] l1(1) h hw(1) by simp
        with l1 l' h hw(1) show ?thesis
          by (auto simp: arrives_def settle_def is_serving_def accept_connections_def tier_of_def hangs_def)
      qed
    qed
  qed
  then show ?thesis by (simp add: four arrives_def)
qed

text \<open>
  C8. A move whose every step succeeds arrives: the sandbox is at the tier asked for, or gone from
  the node for Detached, and a caller is answered or refused at once. One pair of tiers is left out,
  from Snapshot to Frozen: \<open>snapshot_to_frozen_hangs\<close> shows that there the tier is reached and the
  callers are neither answered nor refused.
\<close>

theorem set_tier_arrives:
  assumes "\<And>k. succeeds (as k)" "at_home now l" "tier_of l = Some h" "h \<noteq> Snapshot \<or> want \<noteq> Frozen"
  shows "snd (set_tier as now want l) = Inr () \<and>
    tier_of (fst (set_tier as now want l)) = (if want = Detached then None else Some want) \<and>
    \<not> hangs (fst (set_tier as now want l))"
  by (rule move_arrives) (use assms in simp_all)

lemma move_snapshot_frozen:
  assumes "\<And>k. succeeds (as k)" "at_home now l" "tier_of l = Some Snapshot"
  shows "snd (set_tier as now Frozen l) = Inr () \<and> tier_of (fst (set_tier as now Frozen l)) = Some Frozen \<and>
    hangs (fst (set_tier as now Frozen l))"
proof -
  let ?l = "l\<lparr>lo_rule := True\<rparr>"
  have net: "lo_net l \<noteq> None" using assms(2) by (auto simp: at_home_def)
  have home: "at_home now ?l" using assms(2) by simp
  have t: "tier_of ?l = Some Snapshot" using assms(3) by simp
  from home_tiers(3) [OF assms(2,3)] obtain m where "lo_image ?l = Some m" by auto
  from leg_restore [OF assms(1) home this] obtain l1 where l1: "step (as (Suc (Suc (Suc 0)))) now Snapshot Hot ?l = (l1, Inr ())"
    "lo_running l1 = Some m" "\<not> lo_frozen l1" "lo_bundle l1" "\<not> lo_rule l1" "lo_ns l1" by blast
  have hot: "tier_of l1 = Some Hot" using l1 by (simp add: tier_of_def)
  have nxt: "next_tier Snapshot Frozen = Hot" "next_tier Hot Frozen = Frozen" by (simp_all add: next_tier_def tier_order)
  have "walk (Suc (Suc (Suc (Suc 0)))) as now Frozen ?l = walk (Suc (Suc (Suc 0))) as now Frozen l1"
    by (subst walk_one [OF t _ nxt(1) l1(1)]) simp_all
  also have "\<dots> = (settle Frozen (l1\<lparr>lo_frozen := True\<rparr>), Inr ())"
    by (subst walk_one [OF hot _ nxt(2) leg_freeze(1) [OF assms(1)]]) simp_all
  finally have "set_tier as now Frozen l = (settle Frozen (l1\<lparr>lo_frozen := True\<rparr>), Inr ())"
    using net by (auto simp: set_tier_def ORDER_def eval_nat_numeral refuse_connections_def is_serving_def)
  then show ?thesis using l1 by (simp add: settle_def is_serving_def tier_of_def hangs_def)
qed

text \<open>
  A snapshotted sandbox moved to Frozen is left neither serving nor refusing: the restore on
  the way takes the refusing rule away, the freeze after it does not put it back, and a caller's
  connection times out instead of waking the sandbox.
\<close>

theorem snapshot_to_frozen_hangs:
  assumes "\<And>k. succeeds (as k)" "at_home now l" "tier_of l = Some Snapshot"
  shows "snd (set_tier as now Frozen l) = Inr () \<and> tier_of (fst (set_tier as now Frozen l)) = Some Frozen \<and>
    hangs (fst (set_tier as now Frozen l))"
  by (rule move_snapshot_frozen) (use assms in simp_all)

section \<open>A restore on trial\<close>

text \<open>
  A snapshotted sandbox that is woken and dies of it keeps its image: until a minute after the
  restore the node's own clearing up leaves the image alone, the sandbox reads as Snapshot again
  with the memory it had, and another wake is refused rather than tried.
\<close>

theorem image_survives_a_bad_restore:
  assumes "tier_of l = Some Snapshot" "set_tier as t Hot l = (l1, Inr ())"
    and "s < t + RESTORE_SURVIVAL" "u < t + RESTORE_SURVIVAL"
  shows "tier_of (dies (settle_restore s l1)) = Some Snapshot \<and>
    memory (dies (settle_restore s l1)) = memory l \<and>
    set_tier as' u Hot (dies (settle_restore s l1)) = (dies (settle_restore s l1), Inl DiedAfterRestore) \<and>
    reap_dead a u (dies (settle_restore s l1)) = dies (settle_restore s l1)"
proof -
  have nxt: "next_tier Snapshot Hot = Hot" by (simp add: next_tier_def)
  obtain m where m: "lo_image l = Some m" "lo_running l = None" "lo_bundle l"
    using assms(1) by (auto simp: tier_of_def split: if_splits)
  obtain l' r where s1: "step (as (Suc (Suc (Suc 0)))) t Snapshot Hot l = (l', r)" by fastforce
  have "set_tier as t Hot l = (case r of Inl e \<Rightarrow> (l', Inl e) | Inr _ \<Rightarrow> (settle Hot l', Inr ()))"
    using assms(1) s1 nxt
    by (simp add: set_tier_def is_serving_def ORDER_def eval_nat_numeral walk.simps Let_def split: sum.splits)
  with assms(2) obtain x where r: "r = Inr x" "l1 = settle Hot l'" by (auto split: sum.splits)
  have l': "lo_image l' = Some m" "lo_running l' = Some m" "lo_restored l' = Some t" "lo_bundle l'"
    using s1 r(1) m
    by (auto simp: step.simps step_defs split: if_splits option.splits prod.splits sum.splits)
  then have l1: "lo_image l1 = Some m" "lo_running l1 = Some m" "lo_restored l1 = Some t" "lo_bundle l1"
    by (auto simp: r(2) settle_def accept_connections_def)
  have "settle_restore s l1 = l1" using assms(3) l1(3) by (simp add: settle_restore_def)
  then have d: "dies (settle_restore s l1) = dies l1" by simp
  have t: "tier_of (dies l1) = Some Snapshot" using l1 by (simp add: dies_def tier_of_def)
  have "set_tier as' u Hot (dies l1) = (dies l1, Inl DiedAfterRestore)"
  proof -
    have "step (as' (Suc (Suc (Suc 0)))) u Snapshot Hot (dies l1) = (dies l1, Inl DiedAfterRestore)"
      using assms(4) l1(3) by (simp add: step.simps restore_def may_restore_def dies_def)
    with t nxt show ?thesis
      by (simp add: set_tier_def is_serving_def ORDER_def eval_nat_numeral walk.simps Let_def)
  qed
  moreover have "memory (dies l1) = memory l" using l1 m by (simp add: memory_def dies_def)
  moreover have "reap_dead a u (dies l1) = dies l1"
    using l1(1) by (simp add: reap_dead_def dead_def dies_def)
  ultimately show ?thesis using t d by simp
qed

section \<open>Attaching a detached sandbox\<close>

text \<open>What is left of a sandbox on its node once it is detached: its archive on the volume.\<close>

definition is_detached :: "'d \<Rightarrow> ('d, 'm) local \<Rightarrow> bool" where
  "is_detached d l \<longleftrightarrow> lo_archive l = Some d \<and> \<not> lo_bundle l \<and> \<not> lo_config l \<and> \<not> lo_mounted l \<and>
     lo_layer l = None \<and> lo_running l = None \<and> lo_image l = None \<and> lo_net l = None \<and> lo_restored l = None"

lemma detach_detaches:
  assumes "detach a l = (l', Inr u)" "teardown_ok a" "lo_running l = None"
  shows "\<exists>d. disk l = Some d \<and> is_detached d l'"
  using assms
  by (auto simp: is_detached_def disk_def step_defs split: if_splits option.splits)

text \<open>A start that got as far as mounting its layer over the archive, and no further.\<close>

definition stuck :: "instant \<Rightarrow> ('d, 'm) local \<Rightarrow> bool" where
  "stuck t l \<longleftrightarrow> lo_bundle l \<and> lo_archive l \<noteq> None \<and> lo_mounted l \<and> lo_running l = None \<and>
     lo_image l = None \<and> lo_net l \<noteq> None \<and> lo_restored l = None \<and> lo_bundle_at l = t"

lemma setup_net_Inr:
  assumes "setup_net ce a now l = (l', r)" "stuck t l"
  shows "stuck t l'"
  using assms by (auto simp: setup_net_def stuck_def split: if_splits option.splits)

lemma prepare_stuck:
  assumes "stuck t l" "lo_archive l = Some d"
  shows "snd (prepare ce a now (Some d) l) = Inl AlreadyMounted" "stuck t (fst (prepare ce a now (Some d) l))"
  using assms by (auto simp: prepare_def stuck_def Let_def)

lemma create_stuck:
  assumes "stuck t l"
  shows "snd (create ce a now l) \<noteq> Inr ()" "stuck t (fst (create ce a now l))"
proof -
  from assms obtain d where d: "lo_archive l = Some d" "may_restore now l = (l, Inr ())"
    by (auto simp: stuck_def may_restore_def)
  obtain l2 r where n: "setup_net ce a now l = (l2, r)" by fastforce
  note s2 = setup_net_Inr [OF n assms]
  have d2: "lo_archive l2 = Some d" using n d by (auto simp: setup_net_def split: if_splits option.splits)
  note p = prepare_stuck [OF s2 d2, of ce a now]
  obtain l3 where p3: "prepare ce a now (Some d) l2 = (l3, Inl AlreadyMounted)" "stuck t l3"
    using p by (cases "prepare ce a now (Some d) l2") auto
  have "create ce a now l =
      (if \<not> template_here ce then (l, Inl NoTemplate) else if \<not> spec_parses ce then (l, Inl BadSpec)
       else case r of Inl e \<Rightarrow> (l2, Inl e) | Inr _ \<Rightarrow> (l3, Inl AlreadyMounted))"
    using d n p3 by (auto simp: create_def Let_def split: sum.splits)
  then show "snd (create ce a now l) \<noteq> Inr ()" "stuck t (fst (create ce a now l))"
    using assms s2 p3(2) by (auto split: sum.splits)
qed

lemma stuck_reaped:
  assumes "stuck t l" "t + DEAD_AFTER \<le> u" "teardown_ok b"
  shows "disk (reap_dead b u l) = None"
  using assms
  by (cases "freeze b False l")
    (auto simp: reap_dead_def dead_def stuck_def destroy_with_net_def destroy_def teardown_def disk_def
      remove_engine_def drop_snapshot_def Let_def freeze_def split: option.splits if_splits)

text \<open>
  A detached sandbox whose first start fails to boot is lost. Its layer is unpacked and
  mounted, every further create is refused for that, whatever else succeeds and however often the
  master asks, and once the bundle is a minute old the node clears the sandbox away as dead, its
  archive with it: nothing it wrote is left anywhere.
\<close>

theorem failed_attach_loses_the_archive:
  assumes "is_detached d l" "create ce a t l = (l1, Inl BootFailed)" "rq_net ce \<noteq> None"
    and "t + DEAD_AFTER \<le> u" "teardown_ok b"
  shows "disk l1 = Some (unpack ce d (blank ce)) \<and>
    (let l2 = fold (\<lambda>(ce', c, w) l. fst (create ce' c w l)) retries l1
     in (\<forall>ce' c w. snd (create ce' c w l2) \<noteq> Inr ()) \<and> disk (reap_dead b u l2) = None)"
proof -
  have l1: "stuck t l1 \<and> disk l1 = Some (unpack ce d (blank ce))"
    using assms(1-3)
    by (auto simp: is_detached_def create_def setup_net_def prepare_def start_warm_def start_cold_def
        finish_net_def may_restore_def remove_engine_def stuck_def disk_def Let_def
      split: if_splits option.splits prod.splits sum.splits)
  have stay: "stuck t (fold (\<lambda>(ce', c, w) l. fst (create ce' c w l)) rs x)"
    if "stuck t x" for rs and x :: "('a, 'b) local"
    using that by (induction rs arbitrary: x) (auto simp: create_stuck(2))
  show ?thesis
    unfolding Let_def
    using l1 create_stuck(1) [OF stay] stuck_reaped [OF stay assms(4,5)] by blast
qed

section \<open>Forking\<close>

text \<open>
  A branch never costs the parent its memory, as long as the image can be put by as the parent's
  own snapshot when the parent can neither carry on nor be put back: whether the tag is made or not, whether the
  parent carries on, is put back or cannot be, its process or its snapshot holds what it held; and
  a branch that is answered has exactly that memory in its tag, with the parent running.
\<close>

theorem branch_keeps_the_parent:
  assumes "branch a tag_exists l = (l', r)" "checkpoint_safe a" "preserve_ok a" "lo_running l \<noteq> None"
  shows "memory l' = memory l \<and> (\<forall>m. r = Inr m \<longrightarrow> memory l = Some m \<and> lo_running l' = Some m \<and> \<not> tag_exists)"
  using assms
  by (auto simp: branch_def checkpoint_safe_def engine_honest_def memory_def step_defs
      split: if_splits option.splits prod.splits sum.splits)

section \<open>Witnesses\<close>

text \<open>A sandbox at each tier, and a create that boots it; layers and memories are strings.\<close>

definition sample :: "tier \<Rightarrow> (string, string) local" where
  "sample t = nowhere\<lparr>lo_bundle := True, lo_config := True, lo_net := Some 1, lo_layer := Some ''files'',
     lo_mounted := True, lo_ns := (t \<noteq> Snapshot), lo_running := (if t = Snapshot then None else Some ''pages''),
     lo_frozen := (t = Frozen), lo_image := (if t = Snapshot then Some ''pages'' else None),
     lo_rule := (t = Frozen)\<rparr>"

definition sample_env :: "(string, string) create_env" where
  "sample_env = \<lparr>rq_net = Some 1, rq_fork = False, rq_volume = True, rq_seed = False, template_here = True,
     spec_parses = True, spec_builds = True, wants_warm = False, warm_image = None, warm_ok = False,
     tag_image = None, veth_needed = False, fresh_memory = ''boot'', blank = [], unpack = (\<lambda>arc _. arc)\<rparr>"

lemma sample_home: "at_home now (sample t)"
  by (simp add: at_home_def sample_def nowhere_def)

lemma all_ok_succeeds: "succeeds all_ok"
  by (simp add: succeeds_def all_ok_def)

lemma all_ok_preserves [simp]: "preserve_ok all_ok"
  by (simp add: all_ok_def)

lemma sample_tier: "t \<noteq> Detached \<Longrightarrow> tier_of (sample t) = Some t"
  by (cases t) (auto simp: sample_def nowhere_def tier_of_def)


lemma set_tier_arrives_witness:
  "tier_of (fst (set_tier (\<lambda>_. all_ok) 5 Snapshot (sample Hot))) = Some Snapshot"
  using set_tier_arrives [of "\<lambda>_. all_ok" 5 "sample Hot" Hot Snapshot] sample_home
  by (simp add: sample_tier all_ok_succeeds)

lemma snapshot_to_frozen_hangs_witness:
  "hangs (fst (set_tier (\<lambda>_. all_ok) 5 Frozen (sample Snapshot)))"
  using snapshot_to_frozen_hangs [of "\<lambda>_. all_ok" 5 "sample Snapshot"] sample_home
  by (simp add: sample_tier all_ok_succeeds)

lemma sample_wakes: "snd (set_tier (\<lambda>_. all_ok) 5 Hot (sample Snapshot)) = Inr ()"
  by (simp add: set_tier_def ORDER_def eval_nat_numeral walk.simps step.simps step_defs is_serving_def tier_of_def
      sample_def nowhere_def all_ok_def next_tier_def Let_def)

lemma image_survives_a_bad_restore_witness:
  "tier_of (dies (settle_restore 20000 (fst (set_tier (\<lambda>_. all_ok) 5 Hot (sample Snapshot))))) = Some Snapshot"
  using image_survives_a_bad_restore [of "sample Snapshot" "\<lambda>_. all_ok" 5
      "fst (set_tier (\<lambda>_. all_ok) 5 Hot (sample Snapshot))" 20000 30000] sample_wakes
  by (simp add: sample_tier RESTORE_SURVIVAL_def from_secs_def prod_eq_iff)

lemma sample_attach_fails:
  "snd (create sample_env (all_ok\<lparr>boot_ok := False\<rparr>) 5 (nowhere\<lparr>lo_archive := Some ''files''\<rparr>)) = Inl BootFailed"
  by (simp add: create_def setup_net_def prepare_def start_warm_def start_cold_def sample_env_def all_ok_def
      nowhere_def Let_def)

lemma failed_attach_loses_the_archive_witness:
  "disk (reap_dead all_ok 70000 (fst (create sample_env (all_ok\<lparr>boot_ok := False\<rparr>) 5
     (nowhere\<lparr>lo_archive := Some ''files''\<rparr>)))) = None"
proof -
  let ?a = "all_ok\<lparr>boot_ok := False\<rparr>" and ?l = "nowhere\<lparr>lo_archive := Some ''files''\<rparr>"
  have 1: "is_detached ''files'' ?l" by (simp add: is_detached_def nowhere_def)
  have 2: "create sample_env ?a 5 ?l = (fst (create sample_env ?a 5 ?l), Inl BootFailed)"
    by (simp only: prod_eq_iff sample_attach_fails fst_conv snd_conv simp_thms)
  have 3: "rq_net sample_env \<noteq> None" "5 + DEAD_AFTER \<le> 70000" "teardown_ok all_ok"
    by (simp_all add: sample_env_def DEAD_AFTER_def from_secs_def all_ok_def)
  show ?thesis
    using failed_attach_loses_the_archive [OF 1 2 3, of Nil] by (simp add: Let_def)
qed

lemma branch_keeps_the_parent_witness:
  "memory (fst (branch (all_ok\<lparr>resume_ok := True, checkpoint_stops := False\<rparr>) False (sample Hot))) = Some ''pages''"
  using branch_keeps_the_parent [of "all_ok\<lparr>resume_ok := True, checkpoint_stops := False\<rparr>" False "sample Hot"
      "fst (branch (all_ok\<lparr>resume_ok := True, checkpoint_stops := False\<rparr>) False (sample Hot))"
      "snd (branch (all_ok\<lparr>resume_ok := True, checkpoint_stops := False\<rparr>) False (sample Hot))"]
  by (simp add: checkpoint_safe_def engine_honest_def all_ok_def sample_def nowhere_def memory_def)

end
