(* ===== verification/NodeLaws.thy ===== *)
theory NodeLaws
  imports NodeLoop LifecycleLaws
begin

text \<open>
  What the node's loop keeps and promises (\<open>NodeLoop\<close>): a batch is run whole and in order, a
  sandbox being called is not demoted, a promotion is a bounded piece of work, no command but a
  create and a destroy touches what a sandbox wrote, and where the loop loses an exec or lets a
  destroy overtake a create.
\<close>

section \<open>Groups\<close>

lemma next_group_parts:
  assumes "next_group cs = (g, rest)" "cs \<noteq> []"
  shows "g @ rest = cs" "g \<noteq> []" "2 \<le> length g \<Longrightarrow> list_all is_create g"
proof -
  let ?n = "length (takeWhile is_create cs)" and ?k = "min (max (length (takeWhile is_create cs)) 1) (length cs)"
  have g: "g = take ?k cs" "rest = drop ?k cs" using assms(1) by (auto simp: next_group_def Let_def)
  show "g @ rest = cs" "g \<noteq> []" using g assms(2) by auto
  assume "2 \<le> length g"
  moreover have "?n \<le> length cs" by (rule length_takeWhile_le)
  ultimately have "?k = ?n" using g by auto
  with g(1) have "g = takeWhile is_create cs" by (metis takeWhile_eq_take)
  then show "list_all is_create g" by (auto simp: list_all_iff dest: set_takeWhileD)
qed

text \<open>
  A batch is offered whole and in the master's order: the groups put together are the batch,
  none is empty, and only creates ever share one, so nothing overtakes the command before it.
\<close>

theorem groups_partition:
  "concat (groups cs) = cs \<and> list_all (\<lambda>g. g \<noteq> [] \<and> (length g \<le> 1 \<or> list_all is_create g)) (groups cs)"
proof (induction cs rule: groups.induct)
  case (1 cs)
  show ?case
  proof (cases "cs = []")
    case False
    obtain g rest where n: "next_group cs = (g, rest)" by fastforce
    note parts = next_group_parts [OF n False]
    have "groups cs = g # groups rest" using False n by (subst groups.simps) simp
    with 1 [OF False n [symmetric]] parts show ?thesis by (cases "2 \<le> length g") auto
  qed (simp add: groups.simps)
qed

section \<open>Parking\<close>

lemma foldr_min_le: "foldr min xs (h :: nat) \<le> h" "x \<in> set xs \<Longrightarrow> foldr min xs h \<le> x"
  by (induction xs) (auto simp: min_le_iff_disj)

text \<open>
  A node never sleeps past work that comes due: the master may park its poll until the first
  deferred command is due and no longer, nor longer than its own limit.
\<close>

theorem hold_for_bounds:
  "hold_for longest now ns \<le> longest \<and> (\<forall>(i, until) \<in> set (ns_deferred ns). now + hold_for longest now ns \<le> max now until)"
proof -
  have "now + hold_for longest now ns \<le> max now until" if "(i, until) \<in> set (ns_deferred ns)" for i until
  proof -
    have "hold_for longest now ns \<le> until - now"
      unfolding hold_for_def by (rule foldr_min_le(2)) (use that in force)
    then show ?thesis by linarith
  qed
  then show ?thesis using foldr_min_le(1) by (auto simp: hold_for_def)
qed

section \<open>Promoting\<close>

text \<open>The rounds a promotion can take, from one of its readings on.\<close>

definition rounds_left :: "instant \<Rightarrow> instant \<Rightarrow> nat \<Rightarrow> nat" where
  "rounds_left deadline now gone = (MAX_EVICTIONS - gone) + (deadline - now + (PRESSURE_POLL - 1)) div PRESSURE_POLL"

lemma rounds_left_sleep:
  assumes "now < deadline"
  shows "Suc (rounds_left deadline (now + PRESSURE_POLL + extra) gone) \<le> rounds_left deadline now gone"
proof -
  define d where "d = deadline - now"
  then have d: "0 < d" "deadline - (now + 250 + extra) = d - (250 + extra)" using assms by auto
  have "Suc ((d - (250 + extra) + 249) div 250) \<le> (d + 249) div 250"
  proof (cases "d \<le> 250 + extra")
    case True
    with d(1) show ?thesis by (simp add: less_eq_div_iff_mult_less_eq)
  next
    case False
    then have "d - (250 + extra) + 249 + 250 \<le> d + 249" by linarith
    then have "(d - (250 + extra) + 249 + 250) div 250 \<le> (d + 249) div 250" by (rule div_le_mono)
    then show ?thesis by simp
  qed
  then show ?thesis by (simp add: rounds_left_def PRESSURE_POLL_def d(2) d_def [symmetric])
qed

lemma promote_loop_rounds:
  assumes "promote_loop min_free max_psi w i deadline k now gone ns = (ns1, out, k1)"
  shows "k1 \<le> Suc (k + rounds_left deadline now gone)"
  using assms
proof (induction min_free max_psi w i deadline k now gone ns arbitrary: ns1 out k1 rule: promote_loop.induct)
  case (1 min_free max_psi w i deadline k now gone ns)
  show ?case
  proof (cases "holding_back_at min_free max_psi (SetTier i Hot) (w_reading w k)")
    case None
    with 1(3) show ?thesis by (subst (asm) promote_loop.simps) (auto simp: Let_def split: prod.splits)
  next
    case (Some why)
    let ?under = "short_of min_free (w_reading w k) \<noteq> None"
    obtain ns' made where made: "(if ?under \<and> gone < MAX_EVICTIONS then evict_one w i ns else (ns, False)) = (ns', made)" by fastforce
    consider (evicted) "made" "gone < MAX_EVICTIONS" | (slept) "\<not> (made \<and> gone < MAX_EVICTIONS)" "\<not> ?under" "now < deadline"
      | (refused) "\<not> (made \<and> gone < MAX_EVICTIONS)" "\<not> (\<not> ?under \<and> now < deadline)" by blast
    then show ?thesis
    proof cases
      case evicted
      then have "promote_loop min_free max_psi w i deadline (Suc k) (now + w_took w k) (Suc gone) ns' = (ns1, out, k1)"
        using 1(3) Some made by (subst (asm) promote_loop.simps) (auto simp: Let_def)
      from 1(1) [OF refl Some refl made [symmetric] refl _ this] evicted
      have "k1 \<le> Suc (Suc k + rounds_left deadline (now + w_took w k) (Suc gone))" by simp
      moreover have "Suc (rounds_left deadline (now + w_took w k) (Suc gone)) \<le> rounds_left deadline now gone"
      proof -
        have "(deadline - (now + w_took w k) + (PRESSURE_POLL - 1)) div PRESSURE_POLL \<le> (deadline - now + (PRESSURE_POLL - 1)) div PRESSURE_POLL"
          by (intro div_le_mono) simp
        moreover have "Suc (MAX_EVICTIONS - Suc gone) = MAX_EVICTIONS - gone" using evicted(2) by (rule Suc_diff_Suc)
        ultimately show ?thesis unfolding rounds_left_def by linarith
      qed
      ultimately show ?thesis by linarith
    next
      case slept
      then have "promote_loop min_free max_psi w i deadline (Suc k) (now + PRESSURE_POLL + w_took w k) gone ns' = (ns1, out, k1)"
        using 1(3) Some made by (subst (asm) promote_loop.simps) (auto simp: Let_def)
      from 1(2) [OF refl Some refl made [symmetric] refl _ _ this] slept
      have "k1 \<le> Suc (Suc k + rounds_left deadline (now + PRESSURE_POLL + w_took w k) gone)" by simp
      with rounds_left_sleep [OF slept(3)] show ?thesis by (metis Suc_le_mono add_Suc_right add_Suc_shift add_le_cancel_left le_trans)
    next
      case refused
      then show ?thesis using 1(3) Some made by (subst (asm) promote_loop.simps) (auto simp: Let_def split: if_splits)
    qed
  qed
qed

text \<open>
  A wake is a bounded piece of work: however the host reads, a promotion takes at most one
  reading for each of the four sandboxes it may put away, one for each quarter of a second it is
  given, and one more, and it always ends with the sandbox's move or a refusal.
\<close>

theorem promotion_is_bounded:
  "\<exists>ns1 out k. promote_loop min_free max_psi w i (now + patience) 0 now 0 ns = (ns1, out, k) \<and>
     k \<le> Suc (MAX_EVICTIONS + (patience + (PRESSURE_POLL - 1)) div PRESSURE_POLL)"
proof -
  obtain ns1 out k where r: "promote_loop min_free max_psi w i (now + patience) 0 now 0 ns = (ns1, out, k)"
    by (metis surj_pair)
  from promote_loop_rounds [OF this] show ?thesis using r by (auto simp: rounds_left_def)
qed

section \<open>What a command leaves alone\<close>

lemma at_node_put [simp]: "at_node (put_node i l ns) j = (if j = i then l else at_node ns j)"
  by (simp add: at_node_def put_node_def)

lemma at_node_cong: "ns_sandboxes ns' = ns_sandboxes ns \<Longrightarrow> at_node ns' j = at_node ns j"
  by (simp add: at_node_def)

lemma sandboxes_on_wake [simp]: "ns_sandboxes (on_wake f ns) = ns_sandboxes ns"
  by (simp add: on_wake_def)

lemma at_node_frame [simp]:
  "at_node (on_wake f ns) j = at_node ns j" "at_node (ns\<lparr>ns_starting := s\<rparr>) j = at_node ns j"
  "at_node (ns\<lparr>ns_wake := wk\<rparr>) j = at_node ns j" "at_node (ns\<lparr>ns_failing := fb\<rparr>) j = at_node ns j"
  "at_node (ns\<lparr>ns_egress := e\<rparr>) j = at_node ns j" "at_node (ns\<lparr>ns_tags := t\<rparr>) j = at_node ns j"
  "at_node (ns\<lparr>ns_pulls := p\<rparr>) j = at_node ns j" "at_node (ns\<lparr>ns_switching := sw\<rparr>) j = at_node ns j"
  "at_node (ns\<lparr>ns_destroying := ds, ns_jobs := js\<rparr>) j = at_node ns j"
  by (simp_all add: at_node_def)

lemma at_node_notes [simp]:
  "at_node (note_success w cmd ns) j = at_node ns j" "at_node (fst (note_failure i now e ns)) j = at_node ns j"
  "at_node (run_active i ns) j = at_node ns j" "at_node (apply_destroy i n l ns) j = at_node ns j"
  by (simp_all add: note_success_def note_failure_def run_active_def apply_destroy_def Let_def split: command.split)

lemma at_node_set_egress [simp]: "at_node (fst (set_egress_at w i e ns)) j = at_node ns j"
  by (simp add: set_egress_at_def)

lemma at_node_switch [simp]: "at_node (fst (switch_backend cfg w want ns)) j = at_node ns j"
  by (simp add: switch_backend_def split: sum.split)

lemma at_node_create: "j \<noteq> cr_id c \<Longrightarrow> at_node (fst (apply_create w c ns)) j = at_node ns j"
  by (auto simp: apply_create_def split: image_status.split prod.split sum.split)

text \<open>A reading of a sandbox that tier moves and branches keep is kept by the whole loop.\<close>

locale sandbox_reading = walk_keeps reading goes allowed
  for reading :: "('d, 'm) local \<Rightarrow> 'v" and goes :: "tier \<Rightarrow> bool" and allowed :: "'m answers \<Rightarrow> bool" +
  assumes branch_keeps: "allowed a \<Longrightarrow> reading (fst (branch a there l)) = reading l"
    and goes_usual: "goes Hot" "goes Snapshot"
begin

lemma set_tier_at_keeps:
  "goes t \<Longrightarrow> (\<And>k. allowed (w_answers w k)) \<Longrightarrow> reading (at_node (fst (set_tier_at w i t ns)) j) = reading (at_node ns j)"
  using set_tier_keeps [of t "w_answers w" "w_t w" "at_node ns i"]
  by (auto simp: set_tier_at_def split: prod.split sum.split)

lemma evict_keeps:
  assumes "\<And>k. allowed (w_answers w k)"
  shows "reading (at_node (fst (try_victims w vs ns)) j) = reading (at_node ns j)"
proof (induction vs arbitrary: ns)
  case (Cons v vs)
  have "reading (fst (Lifecycle.set_tier (w_answers w) (w_t w) Snapshot l)) = reading l" for l
    using set_tier_keeps [OF goes_usual(2) assms] .
  then show ?case using Cons.IH
    by (auto simp: Let_def split: prod.split sum.split) (metis fst_conv)+
qed simp

lemma promote_loop_keeps:
  assumes "\<And>k. allowed (w_answers w k)"
  shows "reading (at_node (fst (promote_loop min_free max_psi w i deadline k now gone ns)) j) = reading (at_node ns j)"
  using assms
proof (induction min_free max_psi w i deadline k now gone ns rule: promote_loop.induct)
  case (1 min_free max_psi w i deadline k now gone ns)
  show ?case
  proof (cases "holding_back_at min_free max_psi (SetTier i Hot) (w_reading w k)")
    case None
    with set_tier_at_keeps [OF goes_usual(1), of w i ns j] 1(3) show ?thesis
      by (subst promote_loop.simps) (auto simp: Let_def split: prod.split)
  next
    case (Some why)
    let ?under = "short_of min_free (w_reading w k) \<noteq> None"
    obtain ns' made where made: "(if ?under \<and> gone < MAX_EVICTIONS then evict_one w i ns else (ns, False)) = (ns', made)" by fastforce
    have "reading (at_node (fst (evict_one w i ns)) j) = reading (at_node ns j)"
      unfolding evict_one_def by (rule evict_keeps) (rule 1(3))
    then have ns': "reading (at_node ns' j) = reading (at_node ns j)" using made by (auto split: if_splits)
    have rec: "promote_loop min_free max_psi w i deadline k now gone ns =
        (if made \<and> gone < MAX_EVICTIONS then promote_loop min_free max_psi w i deadline (Suc k) (now + w_took w k) (Suc gone) ns'
         else if \<not> ?under \<and> now < deadline then promote_loop min_free max_psi w i deadline (Suc k) (now + PRESSURE_POLL + w_took w k) gone ns'
         else (ns', Inl (Held why), Suc k))"
      using Some made by (subst promote_loop.simps) (simp add: Let_def)
    from 1(1) [OF refl Some refl made [symmetric] refl _ 1(3)] 1(2) [OF refl Some refl made [symmetric] refl _ _ 1(3)] ns'
    show ?thesis unfolding rec by (auto simp del: not_None_eq)
  qed
qed

lemma promote_keeps:
  "(\<And>k. allowed (w_answers w k)) \<Longrightarrow> reading (at_node (fst (promote min_free max_psi w i p ns)) j) = reading (at_node ns j)"
  using promote_loop_keeps [of w min_free max_psi i "w_t w + p" 0 "w_t w" 0 ns j] set_tier_at_keeps [OF goes_usual(1), of w i ns j]
  by (auto simp: promote_def split: prod.split)

lemma apply_locked_keeps:
  assumes "\<And>k. allowed (w_answers w k)" "\<And>c. cmd = Create c \<Longrightarrow> cr_id c \<noteq> j" "\<And>t. cmd = SetTier j t \<Longrightarrow> goes t"
  shows "reading (at_node (fst (apply_locked cfg w cmd l ns)) j) = reading (at_node ns j)"
proof (cases cmd)
  case (Create c)
  with assms(2) have "at_node (fst (apply_create w c ns')) j = at_node ns' j" for ns' :: "('d, 'm) node_state"
    by (intro at_node_create) auto
  with Create show ?thesis by (auto simp: apply_locked_def Let_def split: prod.split option.split)
next
  case (SetTier i t)
  have other: "at_node (fst (set_tier_at w i t ns')) j = at_node ns' j" if "i \<noteq> j" for ns' :: "('d, 'm) node_state"
    using that by (auto simp: set_tier_at_def split: prod.split sum.split)
  have sets: "reading (at_node (fst (set_tier_at w i t ns')) j) = reading (at_node ns' j)" for ns' :: "('d, 'm) node_state"
  proof (cases "i = j")
    case True
    with assms(3) SetTier have "goes t" by blast
    then show ?thesis by (rule set_tier_at_keeps) (rule assms(1))
  qed (simp add: other)
  show ?thesis
    using SetTier sets promote_keeps [OF assms(1)]
    by (cases t) (auto simp: apply_locked_def Let_def split: prod.split option.split)
qed (auto simp: apply_locked_def Let_def split: prod.split option.split)

lemma run_locked_keeps:
  assumes "\<And>k. allowed (w_answers w k)" "\<And>c. cmd = Create c \<Longrightarrow> cr_id c \<noteq> j" "\<And>t. cmd = SetTier j t \<Longrightarrow> goes t"
  shows "reading (at_node (fst (run_locked cfg w now cmd ns)) j) = reading (at_node ns j)"
proof -
  obtain wk l where l: "lock (command_id cmd) (ns_wake ns) = (wk, l)" by fastforce
  obtain ns1 out where out: "apply_locked cfg w cmd l (ns\<lparr>ns_wake := wk\<rparr>) = (ns1, out)" by fastforce
  have "reading (at_node ns1 j) = reading (at_node ns j)"
    using apply_locked_keeps [of w cmd j cfg l "ns\<lparr>ns_wake := wk\<rparr>"] assms out by simp
  then show ?thesis
    using l out by (auto simp: run_locked_def Let_def split: option.split outcome.split command.split)
qed

lemma run_one_keeps:
  assumes "\<And>k. allowed (w_answers w k)" "\<And>c. cmd = Create c \<Longrightarrow> cr_id c \<noteq> j" "\<And>t. cmd = SetTier j t \<Longrightarrow> goes t"
  shows "reading (at_node (fst (run_one cfg w now cmd ns)) j) = reading (at_node ns j)"
proof -
  have br: "reading (fst (branch (w_answers w 0) b (at_node ns i))) = reading (at_node ns i)" for b i
    by (rule branch_keeps) (rule assms(1))
  note locked = run_locked_keeps [of w cmd j cfg now ns, OF assms]
  show ?thesis
  proof (cases cmd)
    case (Branch i tag rid)
    with br [of _ i] show ?thesis
      by (auto simp: run_one_def Let_def split: option.split prod.split sum.split) (metis fst_conv)+
  next
    case (SetBackend b rid)
    have "at_node ns1 j = at_node ns j" if "switch_backend cfg w want ns = (ns1, r)" for want ns1 r
      using at_node_switch [of cfg w want ns j] that by simp
    with SetBackend show ?thesis by (auto simp: run_one_def Let_def split: option.split prod.split sum.split)
  qed (use locked in \<open>auto simp: run_one_def Let_def split: option.split\<close>)
qed

lemma run_group_keeps:
  assumes "\<And>n k. allowed (w_answers (ws n) k)"
    and "\<And>c. c \<in> set cs \<Longrightarrow> (case c of Create cr \<Rightarrow> cr_id cr \<noteq> j | SetTier i t \<Rightarrow> i = j \<longrightarrow> goes t | _ \<Rightarrow> True)"
  shows "reading (at_node (fst (run_group cfg ws now n cs ns)) j) = reading (at_node ns j)"
  using assms(2)
proof (induction cs arbitrary: n ns)
  case (Cons c cs)
  have "reading (at_node (fst (run_one cfg (ws n) now c ns)) j) = reading (at_node ns j)"
    by (rule run_one_keeps) (use assms(1) Cons.prems [of c] in auto)
  moreover obtain ns1 r where "run_one cfg (ws n) now c ns = (ns1, r)" by fastforce
  ultimately show ?case using Cons.IH [of "Suc n" ns1] Cons.prems by (auto split: prod.split)
qed simp

lemma note_steps_at [simp]: "at_node (fst (note_steps now ss ns)) j = at_node ns j"
  by (induction ss ns rule: note_steps.induct) (auto simp: at_node_def)

lemma run_groups_keeps:
  assumes "\<And>m n k. allowed (w_answers (ws m n) k)"
    and "\<And>c. c \<in> set (concat gs) \<Longrightarrow> (case c of Create cr \<Rightarrow> cr_id cr \<noteq> j | SetTier i t \<Rightarrow> i = j \<longrightarrow> goes t | _ \<Rightarrow> True)"
  shows "reading (at_node (fst (run_groups cfg ws now m gs ns)) j) = reading (at_node ns j)"
  using assms(2)
proof (induction gs arbitrary: m ns)
  case (Cons g gs)
  obtain ns1 ss where g: "run_group cfg (ws m) now 0 g ns = (ns1, ss)" by fastforce
  obtain ns2 rs where n: "note_steps now (zip g ss) ns1 = (ns2, rs)" by fastforce
  have "reading (at_node (fst (run_group cfg (ws m) now 0 g ns)) j) = reading (at_node ns j)"
    by (rule run_group_keeps) (use assms(1) Cons.prems in auto)
  moreover have "at_node ns2 j = at_node ns1 j" using note_steps_at [of now "zip g ss" ns1 j] n by simp
  ultimately show ?case using Cons.IH [of "Suc m" ns2] Cons.prems g n by (auto split: prod.split)
qed simp

lemma take_answer_keeps:
  assumes "\<And>m n k. allowed (w_answers (ws m n) k)" "concat (groups cs) = cs"
    and "\<And>c. c \<in> set cs \<Longrightarrow> (case c of Create cr \<Rightarrow> cr_id cr \<noteq> j | SetTier i t \<Rightarrow> i = j \<longrightarrow> goes t | _ \<Rightarrow> True)"
  shows "reading (at_node (fst (take_answer cfg ws now cs ns)) j) = reading (at_node ns j)"
  using run_groups_keeps [of ws "groups cs" j cfg now 0 ns] assms
  by (auto simp: take_answer_def Let_def split: prod.split)

end

lemma branch_disk: "disk (fst (branch a there l)) = disk l"
  by (auto simp: branch_def disk_def step_defs split: option.splits prod.splits sum.splits)

lemma branch_memory: "checkpoint_safe a \<Longrightarrow> preserve_ok a \<Longrightarrow> memory (fst (branch a there l)) = memory l"
  by (auto simp: branch_def checkpoint_safe_def engine_honest_def memory_def step_defs split: if_splits option.splits prod.splits sum.splits)

interpretation disks: sandbox_reading disk "\<lambda>_. True" "\<lambda>_. True"
  by unfold_locales (simp_all add: branch_disk)

interpretation memories: sandbox_reading memory "\<lambda>n. n \<noteq> Detached" "\<lambda>a. checkpoint_safe a \<and> preserve_ok a"
  by unfold_locales (simp_all add: branch_memory memory_kept.step_keeps memory_kept.rule_keeps memory_kept.goes_next)

lemma concat_groups: "concat (groups cs) = cs"
proof (induction cs rule: groups.induct)
  case (1 cs)
  obtain g rest where n: "next_group cs = (g, rest)" by fastforce
  with 1 [OF _ n [symmetric] refl] next_group_parts(1) [OF n] show ?case
    by (cases "cs = []") (simp_all add: groups.simps [of "[]"] groups.simps [of cs])
qed

text \<open>
  Nothing the master can ask for loses what a sandbox holds: after any answer that neither
  creates it anew nor detaches it, with every command failing or succeeding in any way and any other
  sandbox put to disk to make room, its layer holds what it wrote and its process or its image holds
  its memory.
\<close>

theorem answers_keep_sandboxes:
  assumes "\<And>m n k. checkpoint_safe (w_answers (ws m n) k) \<and> preserve_ok (w_answers (ws m n) k)"
    and "\<And>c. Create c \<in> set cs \<Longrightarrow> cr_id c \<noteq> j" "SetTier j Detached \<notin> set cs"
  shows "disk (at_node (fst (take_answer cfg ws now cs ns)) j) = disk (at_node ns j) \<and>
    memory (at_node (fst (take_answer cfg ws now cs ns)) j) = memory (at_node ns j)"
proof
  show "disk (at_node (fst (take_answer cfg ws now cs ns)) j) = disk (at_node ns j)"
    by (rule disks.take_answer_keeps) (use assms concat_groups in \<open>auto split: command.split\<close>)
  show "memory (at_node (fst (take_answer cfg ws now cs ns)) j) = memory (at_node ns j)"
    by (rule memories.take_answer_keeps) (use assms concat_groups in \<open>auto split: command.split\<close>)
qed

section \<open>Demotions wait for callers\<close>

lemma lock_frame [simp]:
  "wk_seen (fst (lock i w)) = wk_seen w" "wk_in_flight (fst (lock i w)) = wk_in_flight w"
  "wk_fresh (fst (lock i w)) = wk_fresh w" "wk_evicted (fst (lock i w)) = wk_evicted w"
  by (simp_all add: lock_def split: option.split)

lemma lock_grace [simp]: "in_grace j now (fst (lock i w)) = in_grace j now w" "protected j now (fst (lock i w)) = protected j now w"
  by (simp_all add: in_grace_def protected_def)

text \<open>
  A sandbox that is being called is not taken from its caller: while a request is in flight, in
  the fifteen seconds after one, and in the two after it came up, a demotion the master asks for is
  put off, without counting as a failure, and the sandbox stays as it is.
\<close>

theorem called_sandbox_not_demoted:
  assumes "\<not> is_serving t" "in_grace i (w_t w) (ns_wake ns) \<noteq> None \<or> protected i (w_t w) (ns_wake ns)"
  shows "\<exists>ns' wait. run_one cfg w now (SetTier i t) ns = (ns', StepLater wait) \<and>
    ns_sandboxes ns' = ns_sandboxes ns \<and> ns_failing ns' = ns_failing ns"
proof -
  obtain wk l where l: "lock i (ns_wake ns) = (wk, l)" by fastforce
  then have "wk = fst (lock i (ns_wake ns))" by simp
  with assms have "\<exists>wait. put_off w (SetTier i t) (ns\<lparr>ns_wake := wk\<rparr>) = Some wait"
    by (auto simp: put_off_def split: option.split)
  with l show ?thesis by (auto simp: run_one_def run_locked_def Let_def split: option.split)
qed

section \<open>A demotion that restores\<close>

text \<open>
  The memory check has a gap: moving a snapshotted sandbox to Frozen brings its whole memory
  back, on a node so short of memory that bringing it to Hot, or creating any sandbox, is held back.
\<close>

theorem frozen_restores_unadmitted:
  assumes "tier_of (at_node ns i) = Some Snapshot" "at_home (w_t w) (at_node ns i)" "\<And>k. succeeds (w_answers w k)"
    and "short_of (nc_min_free_mib cfg) (w_reading w 0) \<noteq> None"
    and "in_grace i (w_t w) (ns_wake ns) = None" "\<not> protected i (w_t w) (ns_wake ns)"
    and "evicted_for i now (ns_wake ns) = None" "map_of (ns_failing ns) i = None"
  shows "snd (run_one cfg w now (SetTier i Frozen) ns) = StepDone \<and>
    lo_running (at_node (fst (run_one cfg w now (SetTier i Frozen) ns)) i) = memory (at_node ns i) \<and>
    memory (at_node ns i) \<noteq> None \<and>
    holding_back_at (nc_min_free_mib cfg) psi (SetTier i Hot) (w_reading w 0) \<noteq> None"
proof -
  let ?l = "at_node ns i"
  from home_tiers(3) [OF assms(2,1)] obtain m where m: "lo_running ?l = None" "lo_image ?l = Some m" by auto
  have moved: "snd (Lifecycle.set_tier (w_answers w) (w_t w) Frozen ?l) = Inr ()"
    "tier_of (fst (Lifecycle.set_tier (w_answers w) (w_t w) Frozen ?l)) = Some Frozen"
    using move_snapshot_frozen [of "w_answers w", OF assms(3) assms(2,1)] by simp_all
  have kept: "memory (fst (Lifecycle.set_tier (w_answers w) (w_t w) Frozen ?l)) = memory ?l"
    by (rule memory_kept.set_tier_keeps) (use assms(3) in \<open>auto simp: succeeds_def checkpoint_safe_def engine_honest_def\<close>)
  have mem: "memory ?l = Some m" using m by (simp add: memory_def)
  obtain l' where l': "Lifecycle.set_tier (w_answers w) (w_t w) Frozen ?l = (l', Inr ())"
    using moved(1) by (metis prod.collapse)
  have "lo_running l' = Some m"
    using moved(2) kept mem l' by (auto simp: tier_of_def memory_def split: if_splits)
  moreover obtain wk k where wk: "lock i (ns_wake ns) = (wk, k)" by fastforce
  then have wk': "wk = fst (lock i (ns_wake ns))" by simp
  have off: "put_off w (SetTier i Frozen) (ns\<lparr>ns_wake := wk\<rparr>) = None"
    using assms(5,6) by (simp add: put_off_def is_serving_def wk')
  have adm: "snd (admit_cmd (nc_min_free_mib cfg) (nc_max_psi cfg) (w_t w) (w_used w) (w_reading w 0) (SetTier i Frozen) s) = None" for s
    by (rule admit_free) simp
  obtain s1 where s1: "admit_cmd (nc_min_free_mib cfg) (nc_max_psi cfg) (w_t w) (w_used w) (w_reading w 0) (SetTier i Frozen) (ns_starting ns) = (s1, None)"
    using adm [of "ns_starting ns"] by (metis prod.collapse)
  have "run_one cfg w now (SetTier i Frozen) ns =
      (note_success w (SetTier i Frozen) (put_node i l' (ns\<lparr>ns_wake := wk, ns_starting := s1\<rparr>)), StepDone)"
    using assms(7,8) wk off s1 l'
    by (simp add: run_one_def run_locked_def apply_locked_def set_tier_at_def to_outcome_def)
  moreover have "holding_back_at (nc_min_free_mib cfg) psi (SetTier i Hot) (w_reading w 0) \<noteq> None"
    using assms(4) by (auto simp: holding_back_at_def)
  ultimately show ?thesis using mem by simp
qed

section \<open>Destroying on a thread\<close>

lemma destroy_in_two: "map_of (ns_sandboxes ns) i = Some l \<Longrightarrow> find (\<lambda>j. jb_id j = i) (ns_jobs ns) = Some j \<Longrightarrow>
    at_node (finish_job w i (begin_job w i ns)) i = fst (destroy_with_net (w_answers w 0) (jb_net_index j) l)"
proof -
  assume l: "map_of (ns_sandboxes ns) i = Some l" and j: "find (\<lambda>j. jb_id j = i) (ns_jobs ns) = Some j"
  have f: "find (\<lambda>j. jb_id j = i) (map (\<lambda>j. if jb_id j = i then j\<lparr>jb_begun := True\<rparr> else j) js) =
      map_option (\<lambda>j. j\<lparr>jb_begun := True\<rparr>) (find (\<lambda>j. jb_id j = i) js)" for js
    by (induction js) auto
  let ?l1 = "drop_snapshot (remove_engine (fst (freeze (w_answers w 0) False l)))"
  let ?ns1 = "begin_job w i ns"
  have "at_node ?ns1 i = ?l1" using l by (simp add: begin_job_def at_node_def put_node_def)
  moreover have "find (\<lambda>j. jb_id j = i) (ns_jobs ?ns1) = Some (j\<lparr>jb_begun := True\<rparr>)"
    using j f [of "ns_jobs ns"] by (simp add: begin_job_def put_node_def)
  moreover have "lo_net ?l1 = lo_net l" by (simp add: drop_snapshot_def remove_engine_def freeze_def)
  ultimately show ?thesis
    by (cases "jb_net_index j") (simp_all add: finish_job_def at_node_def put_node_def destroy_with_net_def destroy_def Let_def)
qed

lemma prepare_bundle: "prepare ce a now arc l = (l', Inr u) \<Longrightarrow> lo_bundle l'"
  by (auto simp: prepare_def Let_def split: if_splits option.splits)

lemma finish_net_Inr: "finish_net a l = (l', Inr u) \<Longrightarrow> l' = l"
  by (auto simp: finish_net_def split: if_splits)

lemma accept_frame [simp]: "lo_running (accept_connections l) = lo_running l" "lo_bundle (accept_connections l) = lo_bundle l"
  "lo_running (note_restored now l) = lo_running l" "lo_bundle (note_restored now l) = lo_bundle l"
  "lo_bundle (remove_engine l) = lo_bundle l"
  by (simp_all add: accept_connections_def note_restored_def remove_engine_def)

lemma start_cold_runs: "start_cold ce a now l = (l', Inr u) \<Longrightarrow> lo_bundle l \<Longrightarrow> lo_running l' \<noteq> None \<and> lo_bundle l'"
  by (auto simp: start_cold_def Let_def dest!: finish_net_Inr split: if_splits option.splits prod.splits sum.splits)

lemma create_runs:
  assumes "create ce a now l = (l', Inr u)"
  shows "lo_running l' \<noteq> None \<and> lo_bundle l'"
proof -
  obtain l1 r1 where 1: "(if rq_fork ce then may_restore now l else (l, Inr ())) = (l1, r1)" by fastforce
  obtain l2 r2 where 2: "setup_net ce a now l1 = (l2, r2)" by fastforce
  obtain l3 r3 where 3: "prepare ce a now (lo_archive l1) l2 = (l3, r3)" by fastforce
  have r: "r1 = Inr ()" "r2 = Inr ()" "r3 = Inr ()"
    using assms 1 2 3 by (auto simp: create_def Let_def split: if_splits sum.splits)
  have b: "lo_bundle l3" using 3 r(3) prepare_bundle by blast
  show ?thesis
  proof (cases "start_warm ce a (lo_archive l1)")
    case None
    with assms 1 2 3 r have "start_cold ce a now l3 = (l', Inr u)" by (auto simp: create_def Let_def split: if_splits)
    with start_cold_runs b show ?thesis by blast
  next
    case (Some m)
    show ?thesis
    proof (cases "warm_ok ce")
      case True
      then show ?thesis using assms 1 2 3 r Some b
        by (auto simp: create_def Let_def dest!: finish_net_Inr split: if_splits prod.splits sum.splits)
    next
      case False
      with assms 1 2 3 r Some have "start_cold ce a now (remove_engine l3) = (l', Inr u)"
        by (auto simp: create_def Let_def split: if_splits)
      with start_cold_runs b show ?thesis by (metis accept_frame(5))
    qed
  qed
qed

lemma run_create_done:
  assumes "run_one cfg w now (Create c) ns = (ns1, StepDone)"
  shows "lo_running (at_node ns1 (cr_id c)) \<noteq> None" "ns_jobs ns1 = ns_jobs ns"
proof -
  obtain wk l where l: "lock (cr_id c) (ns_wake ns) = (wk, l)" by fastforce
  have "\<exists>ns2 ns3. apply_create w c ns2 = (ns3, OutOk) \<and> ns_jobs ns2 = ns_jobs ns \<and> ns1 = note_success w (Create c) ns3"
    using assms l
    by (auto simp: run_one_def run_locked_def put_off_def apply_locked_def note_failure_def Let_def
        split: option.splits prod.splits outcome.splits if_splits) (force+)?
  then obtain ns2 ns3 where ns: "apply_create w c ns2 = (ns3, OutOk)" "ns_jobs ns2 = ns_jobs ns" "ns1 = note_success w (Create c) ns3"
    by blast
  from ns(1) obtain l' where l': "create (create_for w c) (w_answers w 0) (w_t w) (at_node ns2 (cr_id c)) = (l', Inr ())"
    "ns3 = (put_node (cr_id c) l' ns2)\<lparr>ns_egress := (ns_egress ns2)(cr_id c \<mapsto> cr_egress c)\<rparr>"
    by (auto simp: apply_create_def split: image_status.splits prod.splits sum.splits)
  show "lo_running (at_node ns1 (cr_id c)) \<noteq> None" using create_runs [OF l'(1)] l'(2) ns(3) by simp
  show "ns_jobs ns1 = ns_jobs ns"
    using ns(2,3) l'(2) by (simp add: note_success_def on_wake_def put_node_def Let_def)
qed

lemma run_create:
  assumes "map_of (ns_failing ns) (cr_id c) = None" "\<not> ns_switching ns" "image_for w c = ImageReady"
    and "snd (admit_cmd (nc_min_free_mib cfg) (nc_max_psi cfg) (w_t w) (w_used w) (w_reading w 0) (Create c) (ns_starting ns)) = None"
    and "snd (create (create_for w c) (w_answers w 0) (w_t w) (at_node ns (cr_id c))) = Inr ()"
  shows "snd (run_one cfg w now (Create c) ns) = StepDone"
proof -
  obtain wk l where l: "lock (cr_id c) (ns_wake ns) = (wk, l)" by fastforce
  obtain s1 where s1: "admit_cmd (nc_min_free_mib cfg) (nc_max_psi cfg) (w_t w) (w_used w) (w_reading w 0) (Create c) (ns_starting ns) = (s1, None)"
    using assms(4) by (metis prod.collapse)
  obtain l' where l': "create (create_for w c) (w_answers w 0) (w_t w) (at_node ns (cr_id c)) = (l', Inr ())"
    using assms(5) by (metis prod.collapse)
  show ?thesis
    using assms(1-3) l s1 l' by (simp add: run_one_def run_locked_def put_off_def apply_locked_def apply_create_def Let_def)
qed

text \<open>A destroy is done at once, its work left to a job; the sandbox's mutex is forgotten.\<close>

lemma run_destroy:
  assumes "map_of (ns_failing ns) i = None" "i \<notin> set (ns_destroying ns)" "locks_ok (ns_wake ns)"
  shows "\<exists>ns1 j. run_one cfg w now (Destroy i n) ns = (ns1, StepDone) \<and> ns_jobs ns1 = ns_jobs ns @ [j] \<and>
    jb_id j = i \<and> jb_net_index j = n \<and> \<not> jb_begun j \<and> wk_locks (ns_wake ns1) i = None \<and>
    jb_mutex j < wk_next (ns_wake ns1) \<and> wk_next (ns_wake ns) \<le> wk_next (ns_wake ns1)"
proof -
  obtain wk l where l: "lock i (ns_wake ns) = (wk, l)" by fastforce
  have wk: "l < wk_next wk" "wk_next (ns_wake ns) \<le> wk_next wk"
    using l assms(3) by (auto simp: lock_def locks_ok_def split: option.splits)
  have "snd (admit_cmd (nc_min_free_mib cfg) (nc_max_psi cfg) (w_t w) (w_used w) (w_reading w 0) (Destroy i n) (ns_starting ns)) = None"
    by (rule admit_free) simp
  then obtain s1 where s1: "admit_cmd (nc_min_free_mib cfg) (nc_max_psi cfg) (w_t w) (w_used w) (w_reading w 0) (Destroy i n) (ns_starting ns) = (s1, None)"
    by (metis prod.collapse)
  show ?thesis
    using assms(1,2) l s1 wk
    by (auto simp: run_one_def run_locked_def put_off_def apply_locked_def apply_destroy_def note_success_def on_wake_def
        forget_def Let_def)
qed

text \<open>
  A create can be torn down by the destroy before it. A destroy is answered at once and its
  thread works on, but the mutex it holds has been forgotten: a create of the same sandbox takes
  another one, does not wait, and succeeds, and the end of the destroy then removes the new
  sandbox's bundle and layer under its running program, which no report shows any more.
\<close>

theorem create_torn_down_by_old_destroy:
  assumes "map_of (ns_failing ns) i = None" "i \<notin> set (ns_destroying ns)" "locks_ok (ns_wake ns)"
    and "\<forall>j \<in> set (ns_jobs ns). jb_id j \<noteq> i \<and> jb_mutex j < wk_next (ns_wake ns)"
    and "run_one cfg w now (Destroy i n) ns = (ns1, r)" "ns2 = begin_job w i ns1"
    and "cr_id c = i" "run_one cfg w' now' (Create c) ns2 = (ns3, StepDone)" "teardown_ok (w_answers w 0)"
  shows "r = StepDone \<and> \<not> held_by_job ns2 (snd (lock i (ns_wake ns2))) \<and>
    (\<exists>j \<in> set (ns_jobs ns3). jb_id j = i \<and> jb_begun j) \<and>
    (let l = at_node (finish_job w i ns3) i
     in lo_running l \<noteq> None \<and> \<not> lo_bundle l \<and> tier_of l = None \<and> disk l = None)"
proof -
  from run_destroy [OF assms(1-3), of cfg w now n] assms(5) obtain j where
    j: "r = StepDone" "ns_jobs ns1 = ns_jobs ns @ [j]" "jb_id j = i" "wk_locks (ns_wake ns1) i = None"
      "jb_mutex j < wk_next (ns_wake ns1)" "wk_next (ns_wake ns) \<le> wk_next (ns_wake ns1)" by auto
  have jobs2: "ns_jobs ns2 = map (\<lambda>j. if jb_id j = i then j\<lparr>jb_begun := True\<rparr> else j) (ns_jobs ns1)"
    and wake2: "ns_wake ns2 = ns_wake ns1" by (simp_all add: assms(6) begin_job_def put_node_def)
  have "snd (lock i (ns_wake ns2)) = wk_next (ns_wake ns1)" using j(4) by (simp add: lock_def wake2)
  moreover have "\<forall>k \<in> set (ns_jobs ns2). jb_mutex k < wk_next (ns_wake ns1)"
    using assms(4) j(2,5,6) by (fastforce simp: jobs2)
  ultimately have free: "\<not> held_by_job ns2 (snd (lock i (ns_wake ns2)))" by (auto simp: held_by_job_def)
  note created = run_create_done [OF assms(8)]
  have "\<exists>j \<in> set (ns_jobs ns3). jb_id j = i \<and> jb_begun j" using created(2) j(2,3) by (auto simp: jobs2)
  moreover have "lo_running (at_node ns3 i) \<noteq> None" using created(1) assms(7) by simp
  then have "let l = at_node (finish_job w i ns3) i
      in lo_running l \<noteq> None \<and> \<not> lo_bundle l \<and> tier_of l = None \<and> disk l = None"
    using assms(9) by (simp add: finish_job_def teardown_def Let_def tier_of_def disk_def at_node_def put_node_def)
  ultimately show ?thesis using j(1) free by blast
qed

section \<open>An exec in a backoff\<close>

lemma exec_in_backoff:
  assumes "map_of (ns_failing ns) i = Some f" "now < fl_retry_at f"
  shows "run_one cfg w now (Exec eid i args secs) ns = (ns, StepLater (fl_retry_at f - now))"
  using assms by (simp add: run_one_def)

lemma exec_alone_in_backoff:
  assumes "map_of (ns_failing ns) i = Some f" "now < fl_retry_at f"
  shows "snd (take_answer cfg ws now [Exec eid i args secs] ns) = []"
    "ns_sandboxes (fst (take_answer cfg ws now [Exec eid i args secs] ns)) = ns_sandboxes ns"
proof -
  have "groups [Exec eid i args secs] = [[Exec eid i args secs]]"
    by (simp add: groups.simps [of "[Exec eid i args secs]"] groups.simps [of "[]"] next_group_def is_create_def)
  then show "snd (take_answer cfg ws now [Exec eid i args secs] ns) = []"
    "ns_sandboxes (fst (take_answer cfg ws now [Exec eid i args secs] ns)) = ns_sandboxes ns"
    by (simp_all add: take_answer_def exec_in_backoff [OF assms])
qed

section \<open>Backing off\<close>

lemma backoff_grows: "m \<le> n \<Longrightarrow> backoff_for m \<le> backoff_for n"
  unfolding backoff_for_def by (intro min.mono mult_le_mono le_refl power_increasing) auto

lemma backoff_bounds: "1000 \<le> backoff_for (Suc n)" "backoff_for n \<le> 60000"
  using backoff_grows [of 1 "Suc n"] by (simp_all add: backoff_for_def BACKOFF_MIN_def BACKOFF_MAX_def from_secs_def)

section \<open>Witnesses\<close>

definition short :: host_reading where
  "short = \<lparr>hr_free_mib = 100, hr_swap_free_mib = 0, hr_swap_total_mib = 0, hr_psi = 0\<rparr>"

definition sample_world :: "host_reading \<Rightarrow> (string, string) world" where
  "sample_world r = \<lparr>w_t = 100000, w_answers = (\<lambda>_. all_ok), w_env = sample_env, w_used = (\<lambda>_. None), w_reading = (\<lambda>_. r),
     w_took = (\<lambda>_. 0), w_lock_free = (\<lambda>_. True), w_exec = Inl [], w_image = ImageReady, w_tag_here = False, w_size = 0,
     w_says = (\<lambda>_. []), w_switch = Inl []\<rparr>"

definition sample_cfg :: node_cfg where
  "sample_cfg = \<lparr>nc_min_free_mib = 512, nc_max_psi = 8, nc_wake_max_psi = 8, nc_backend = Runsc, nc_backend_file = False\<rparr>"

definition sample_node :: "(string \<times> (string, string) local) list \<Rightarrow> (string, string) node_state" where
  "sample_node b = \<lparr>ns_sandboxes = b, ns_egress = Map.empty, ns_wake = no_wakeups, ns_starting = [], ns_failing = [],
     ns_deferred = [], ns_destroying = [], ns_jobs = [], ns_tags = [], ns_pulls = [], ns_switching = False\<rparr>"

lemma sample_node_simps [simp]:
  "ns_sandboxes (sample_node b) = b" "ns_wake (sample_node b) = no_wakeups" "ns_failing (sample_node b) = []"
  "ns_destroying (sample_node b) = []" "ns_jobs (sample_node b) = []" "ns_starting (sample_node b) = []"
  "at_node (sample_node [(i, l)]) i = l" "ns_switching (sample_node b) = False"
  by (simp_all add: sample_node_def at_node_def)

lemma sample_world_simps [simp]:
  "w_answers (sample_world r) = (\<lambda>_. all_ok)" "w_t (sample_world r) = 100000" "w_reading (sample_world r) = (\<lambda>_. r)"
  "w_env (sample_world r) = sample_env" "w_used (sample_world r) = (\<lambda>_. None)"
  by (simp_all add: sample_world_def)

lemma no_wakeups_simps [simp]:
  "in_grace i t no_wakeups = None" "\<not> protected i t no_wakeups" "evicted_for i t no_wakeups = None"
  by (simp_all add: in_grace_def protected_def evicted_for_def no_wakeups_def)

lemma all_ok_safe [simp]: "checkpoint_safe all_ok"
  by (simp add: checkpoint_safe_def engine_honest_def all_ok_def)

lemma answers_keep_sandboxes_witness:
  "disk (at_node (fst (take_answer sample_cfg (\<lambda>_ _. sample_world calm) 100000 [SetTier ''a'' Snapshot, Destroy ''b'' None]
     (sample_node [(''a'', sample Hot)]))) ''a'') = Some ''files''"
  by (subst answers_keep_sandboxes [THEN conjunct1]) (simp_all add: sample_def nowhere_def disk_def)

lemma called_sandbox_not_demoted_witness:
  "\<exists>ns' wait. run_one sample_cfg (sample_world calm) 100000 (SetTier ''a'' Frozen)
     ((sample_node [(''a'', sample Hot)])\<lparr>ns_wake := hold ''a'' no_wakeups\<rparr>) = (ns', StepLater wait)"
  using called_sandbox_not_demoted [of Frozen "''a''" "sample_world calm"
      "(sample_node [(''a'', sample Hot)])\<lparr>ns_wake := hold ''a'' no_wakeups\<rparr>" sample_cfg 100000] protected_hold
  by (auto simp: is_serving_def)

lemma frozen_restores_unadmitted_witness:
  "snd (run_one sample_cfg (sample_world short) 100000 (SetTier ''a'' Frozen) (sample_node [(''a'', sample Snapshot)])) = StepDone"
  using frozen_restores_unadmitted [of "sample_node [(''a'', sample Snapshot)]" "''a''" "sample_world short" sample_cfg 100000 8]
    sample_home
  by (simp add: sample_tier all_ok_succeeds short_of_def short_def sample_cfg_def)

definition again :: create_cmd where
  "again = (small_create ''a'')\<lparr>cr_net_index := Some 1\<rparr>"

definition after_destroy :: "(string, string) node_state" where
  "after_destroy = begin_job (sample_world calm) ''a''
     (fst (run_one sample_cfg (sample_world calm) 100000 (Destroy ''a'' None) (sample_node [(''a'', sample Hot)])))"

lemma create_torn_down_by_old_destroy_witness:
  "snd (run_one sample_cfg (sample_world calm) 100000 (Create again) after_destroy) = StepDone \<and>
   tier_of (at_node (finish_job (sample_world calm) ''a''
     (fst (run_one sample_cfg (sample_world calm) 100000 (Create again) after_destroy))) ''a'') = None"
proof -
  let ?w = "sample_world calm" and ?ns = "sample_node [(''a'', sample Hot)]"
  have id: "cr_id again = ''a''" by (simp add: again_def small_create_def)
  obtain ns1 where ns1: "run_one sample_cfg ?w 100000 (Destroy ''a'' None) ?ns = (ns1, StepDone)"
      "ns_sandboxes ns1 = ns_sandboxes ?ns" "ns_failing ns1 = []" "ns_starting ns1 = []" "\<not> ns_switching ns1"
    by (simp add: run_one_def run_locked_def lock_def put_off_def apply_locked_def apply_destroy_def admit_calm note_success_def
        on_wake_def no_wakeups_def del_def)
  then have ad: "after_destroy = begin_job ?w ''a'' ns1" by (simp add: after_destroy_def)
  have here: "at_node after_destroy ''a'' = drop_snapshot (remove_engine (fst (freeze all_ok False (sample Hot))))"
    using ns1(2) by (simp add: ad begin_job_def at_node_def put_node_def)
  have "snd (create (create_for ?w again) all_ok 100000 (drop_snapshot (remove_engine (fst (freeze all_ok False (sample Hot)))))) = Inr ()"
    by (simp add: create_def create_for_def sample_env_def again_def small_create_def sample_def nowhere_def all_ok_def freeze_def
        remove_engine_def drop_snapshot_def setup_net_def prepare_def start_warm_def start_cold_def finish_net_def
        starts_with_def WARM_SEED_PREFIX_def Let_def)
  then have made: "snd (run_one sample_cfg ?w 100000 (Create again) after_destroy) = StepDone"
    using ns1(3-5)
    by (intro run_create)
      (simp_all add: here id, simp_all add: ad begin_job_def put_node_def image_for_def again_def small_create_def
        admit_calm sample_cfg_def memory_limit_def json_get_def)
  have "locks_ok (ns_wake ?ns)" by (simp add: locks_ok_ops)
  then show ?thesis
    using create_torn_down_by_old_destroy [of ?ns "''a''" sample_cfg ?w 100000 None ns1 StepDone after_destroy again ?w 100000
      "fst (run_one sample_cfg ?w 100000 (Create again) after_destroy)"] ns1(1) ad id made
    by (simp add: prod_eq_iff Let_def all_ok_def)
qed

end
