(* ===== verification/System.thy ===== *)
theory System
  imports Reconcile NodeLaws
begin

text \<open>
  The master and a node together: the answer to a node's report (\<open>Reconcile\<close>) carried out by the
  node's loop (\<open>NodeLoop\<close>). When nothing fails one round brings every sandbox to the tier desired of
  it; an exec that arrives in a backoff is lost between the two; and what a deleted sandbox left on
  the volume comes back with the next one of its name.
\<close>

section \<open>Execs\<close>

lemma commands_no_exec:
  "Exec eid i args secs' \<notin> set (snd (diff cj cr now req ms))"
  unfolding diff_parts
  by (auto simp: destroys_def drops_def dest!: pull_commands_only commands_for_ids)

lemma queue_refresh: "exec_queue (refresh now req ms) = exec_queue ms"
  by (simp add: refresh_def note_host_def note_templates_def note_features_def record_host_def on_store_def Let_def split: option.split)

lemma queue_diff: "exec_queue (fst (diff cj cr now req ms)) = exec_queue ms"
  by (simp add: diff_def queue_refresh Let_def split: prod.split)

text \<open>
  An exec that reaches a node while its sandbox is backing off is lost: the node runs nothing
  and posts no result, and the master, which emptied its queue into that answer, does not offer it
  to a later report; the caller waits for nothing.
\<close>

theorem exec_in_backoff_is_lost:
  assumes "exec_queue ms (pr_node_id req) = Some [Exec eid i args lasting]"
    and "leave_out_deferred req waited (snd (diff cj cr now req ms)) = []"
    and "map_of (ns_failing ns) i = Some f" "t < fl_retry_at f"
  shows "let (ms1, cmds) = answer cj cr now req waited ms
    in cmds = [Exec eid i args lasting] \<and> snd (take_answer cfg ws t cmds ns) = [] \<and>
       (\<forall>cr' now' req' waited'. pr_node_id req' = pr_node_id req \<longrightarrow>
          Exec eid i args lasting \<notin> set (snd (answer cj cr' now' req' waited' ms1)))"
proof -
  obtain ms1 cmds where d: "diff cj cr now req ms = (ms1, cmds)" by fastforce
  let ?ms = "ms1\<lparr>exec_queue := (exec_queue ms1)(pr_node_id req \<mapsto> [])\<rparr>"
  have "exec_queue ms1 = exec_queue ms" using queue_diff [of cj cr now req ms] d by simp
  then have a: "answer cj cr now req waited ms = (?ms, [Exec eid i args lasting])"
    using assms(1,2) d by (simp add: answer_def take_execs_def)
  have "Exec eid i args lasting \<notin> set (snd (answer cj cr' now' req' waited' ?ms))"
    if "pr_node_id req' = pr_node_id req" for cr' now' req' waited'
  proof -
    obtain ms2 cmds' where d': "diff cj cr' now' req' ?ms = (ms2, cmds')" by fastforce
    have "exec_queue ms2 (pr_node_id req') = Some []" using queue_diff [of cj cr' now' req' ?ms] d' that by simp
    then have "snd (answer cj cr' now' req' waited' ?ms) = leave_out_deferred req' waited' cmds'"
      by (simp add: answer_def d' take_execs_def)
    moreover have "set (leave_out_deferred req' waited' cmds') \<subseteq> set cmds'" by (auto simp: leave_out_deferred_def)
    ultimately show ?thesis using commands_no_exec [of eid i args lasting cj cr' now' req' ?ms] d' by auto
  qed
  then show ?thesis using a exec_alone_in_backoff(1) [OF assms(3,4)] by simp
qed

section \<open>A round without failures\<close>

text \<open>The node has room, and nothing keeps it from moving a sandbox.\<close>

definition roomy :: "node_cfg \<Rightarrow> ('d, 'm) world \<Rightarrow> bool" where
  "roomy cfg w \<longleftrightarrow> (\<forall>k i. holding_back_at (nc_min_free_mib cfg) (nc_wake_max_psi cfg) (SetTier i Hot) (w_reading w k) = None)"

definition quiet :: "('d, 'm) world \<Rightarrow> instant \<Rightarrow> string \<Rightarrow> ('d, 'm) node_state \<Rightarrow> bool" where
  "quiet w now i ns \<longleftrightarrow> map_of (ns_failing ns) i = None \<and> in_grace i (w_t w) (ns_wake ns) = None \<and>
     \<not> protected i (w_t w) (ns_wake ns) \<and> evicted_for i now (ns_wake ns) = None"

lemma promote_roomy: "roomy cfg w \<Longrightarrow> promote (nc_min_free_mib cfg) (nc_wake_max_psi cfg) w i p ns = set_tier_at w i Hot ns"
  by (cases "set_tier_at w i Hot ns") (simp add: promote_def promote_loop.simps roomy_def Let_def split: prod.split)

text \<open>What a command of another sandbox does to this one: nothing.\<close>

lemma wake_other:
  assumes "j \<noteq> i"
  shows "in_grace i t (fst (lock j wk)) = in_grace i t wk" "in_grace i t (wk_started j u wk) = in_grace i t wk"
    "in_grace i t (forget j wk) = in_grace i t wk" "protected i t (wk_started j u wk) = protected i t wk"
    "protected i t (forget j wk) = protected i t wk" "evicted_for i t (forget j wk) = evicted_for i t wk"
    "evicted_for i t (wk_started j u wk) = evicted_for i t wk" "evicted_for i t (fst (lock j wk)) = evicted_for i t wk"
  using assms by (simp_all add: in_grace_def protected_def evicted_for_def wk_started_def forget_def)

definition untouched :: "string \<Rightarrow> ('d, 'm) world \<Rightarrow> instant \<Rightarrow> ('d, 'm) node_state \<Rightarrow> ('d, 'm) node_state \<Rightarrow> bool" where
  "untouched i w now ns ns' \<longleftrightarrow> at_node ns' i = at_node ns i \<and> (quiet w now i ns \<longrightarrow> quiet w now i ns')"

lemma untouched_refl [simp]: "untouched i w now ns ns"
  by (simp add: untouched_def)

lemma untouched_trans: "untouched i w now a b \<Longrightarrow> untouched i w now b c \<Longrightarrow> untouched i w now a c"
  by (simp add: untouched_def)

lemma untouched_frame:
  "untouched i w now ns (ns\<lparr>ns_starting := s\<rparr>)" "untouched i w now ns (ns\<lparr>ns_pulls := p\<rparr>)"
  "untouched i w now ns (ns\<lparr>ns_tags := t\<rparr>)" "untouched i w now ns (ns\<lparr>ns_egress := e\<rparr>)"
  "untouched i w now ns (apply_destroy j n l ns)" "untouched i w now ns (ns\<lparr>ns_deferred := d\<rparr>)"
  "j \<noteq> i \<Longrightarrow> untouched i w now ns (put_node j l' ns)"
  by (auto simp: untouched_def quiet_def at_node_def apply_destroy_def put_node_def)

lemma untouched_set_tier: "j \<noteq> i \<Longrightarrow> untouched i w now ns (fst (set_tier_at w' j t ns))"
  by (auto simp: set_tier_at_def untouched_frame split: prod.split sum.split)

lemma untouched_create: "cr_id c \<noteq> i \<Longrightarrow> untouched i w now ns (fst (apply_create w' c ns))"
  by (auto simp: apply_create_def intro: untouched_frame untouched_trans [OF untouched_frame(7)]
      split: image_status.split prod.split sum.split)

lemma untouched_success: "command_id c \<noteq> i \<Longrightarrow> untouched i w now ns (note_success w' c ns)"
  by (cases c) (auto simp: untouched_def quiet_def note_success_def on_wake_def at_node_def Let_def wake_other)

lemma untouched_failure: "j \<noteq> i \<Longrightarrow> untouched i w now ns (fst (note_failure j u e ns))"
  by (auto simp: untouched_def quiet_def note_failure_def at_node_def Let_def)

text \<open>The commands a difference consists of.\<close>

definition declarative :: "command \<Rightarrow> bool" where
  "declarative c = (case c of Exec _ _ _ _ \<Rightarrow> False | Branch _ _ _ \<Rightarrow> False | SetBackend _ _ \<Rightarrow> False | _ \<Rightarrow> True)"

lemma untouched_apply:
  assumes "roomy cfg w'" "command_id c \<noteq> i" "declarative c"
  shows "untouched i w now ns (fst (apply_locked cfg w' c l ns))"
proof (cases c)
  case (SetTier j t)
  with assms(2) have j: "j \<noteq> i" by simp
  show ?thesis
    using SetTier untouched_set_tier [OF j] untouched_trans [OF untouched_frame(1) untouched_set_tier [OF j]]
    by (cases t) (auto simp: apply_locked_def promote_roomy [OF assms(1)] Let_def untouched_frame split: prod.split option.split)
next
  case (Create k)
  with assms(2) show ?thesis
    by (auto simp: apply_locked_def Let_def untouched_frame intro: untouched_trans [OF untouched_frame(1) untouched_create]
        split: prod.split option.split)
next
  case (SetEgress j e)
  then show ?thesis
    by (auto simp: apply_locked_def set_egress_at_def Let_def untouched_frame
        intro: untouched_trans [OF untouched_frame(1) untouched_frame(4)] split: prod.split option.split)
next
  case (Destroy j n)
  then show ?thesis
    by (auto simp: apply_locked_def Let_def untouched_frame
        intro: untouched_trans [OF untouched_frame(1) untouched_frame(5)] split: prod.split option.split)
qed (use assms(3) in \<open>auto simp: declarative_def apply_locked_def Let_def untouched_frame split: prod.split option.split\<close>)

lemma untouched_other:
  assumes "roomy cfg w'" "command_id c \<noteq> i" "declarative c"
  shows "untouched i w now ns (fst (run_one cfg w' u c ns))"
proof -
  obtain wk l where l: "lock (command_id c) (ns_wake ns) = (wk, l)" by fastforce
  then have wk: "wk = fst (lock (command_id c) (ns_wake ns))" by simp
  have 0: "untouched i w now ns (ns\<lparr>ns_wake := wk\<rparr>)"
    using assms(2) by (auto simp: untouched_def quiet_def wk wake_other)
  obtain ns1 out where o': "apply_locked cfg w' c l (ns\<lparr>ns_wake := wk\<rparr>) = (ns1, out)" by fastforce
  have 1: "untouched i w now ns ns1"
    using untouched_trans [OF 0 untouched_apply [OF assms, of w now "ns\<lparr>ns_wake := wk\<rparr>" l]] o' by simp
  have "untouched i w now ns (fst (run_locked cfg w' u c ns))"
    using l o' 0 1 untouched_trans [OF 1 untouched_success [OF assms(2)]]
      untouched_trans [OF 1 untouched_failure [OF assms(2)]]
      untouched_trans [OF untouched_trans [OF 1 untouched_frame(1)] untouched_failure [OF assms(2)]]
    by (auto simp: run_locked_def Let_def split: option.split outcome.split command.split)
  then show ?thesis
    using assms(3) by (cases c) (auto simp: run_one_def declarative_def Let_def untouched_frame split: option.split)
qed

text \<open>A command of this sandbox: a move to its desired tier, or one that has no part in its tier.\<close>

lemma run_set_tier:
  assumes "roomy cfg w"
  shows "at_node (fst (run_one cfg w now (SetTier i t) ns)) i \<in>
      {at_node ns i, fst (Lifecycle.set_tier (w_answers w) (w_t w) t (at_node ns i))}"
    and "quiet w now i ns \<Longrightarrow>
      at_node (fst (run_one cfg w now (SetTier i t) ns)) i = fst (Lifecycle.set_tier (w_answers w) (w_t w) t (at_node ns i))"
proof -
  let ?l = "fst (Lifecycle.set_tier (w_answers w) (w_t w) t (at_node ns i))"
  obtain wk k where l: "lock i (ns_wake ns) = (wk, k)" by fastforce
  then have wk: "wk = fst (lock i (ns_wake ns))" by simp
  let ?ns = "ns\<lparr>ns_wake := wk\<rparr>"
  obtain ns1 out where o': "apply_locked cfg w (SetTier i t) k ?ns = (ns1, out)" by fastforce
  have moved: "at_node (fst (set_tier_at w i t ns')) i = fst (Lifecycle.set_tier (w_answers w) (w_t w) t (at_node ns' i))" for ns'
    by (auto simp: set_tier_at_def split: prod.split sum.split)
  have free: "snd (admit_cmd (nc_min_free_mib cfg) (nc_max_psi cfg) (w_t w) (w_used w) (w_reading w 0) (SetTier i t) s) = None"
    if "t \<noteq> Hot" for s using that by (intro admit_free) simp
  have n1: "at_node ns1 i = ?l"
  proof (cases "t = Hot")
    case True
    with o' moved [of ?ns] show ?thesis by (auto simp: apply_locked_def promote_roomy [OF assms] map_prod_def split: prod.splits)
  next
    case False
    obtain s1 where s1: "admit_cmd (nc_min_free_mib cfg) (nc_max_psi cfg) (w_t w) (w_used w) (w_reading w 0) (SetTier i t) (ns_starting ns) = (s1, None)"
      using free [OF False] by (metis prod.collapse)
    with False o' moved [of "?ns\<lparr>ns_starting := s1\<rparr>"] show ?thesis
      by (cases t) (auto simp: apply_locked_def map_prod_def split: prod.splits)
  qed
  then have done1: "at_node (fst (run_locked cfg w now (SetTier i t) ns)) i \<in> {at_node ns i, ?l}"
    using l o' by (auto simp: run_locked_def Let_def split: option.split outcome.split)
  have quiet1: "at_node (fst (run_locked cfg w now (SetTier i t) ns)) i = ?l" if "quiet w now i ns"
  proof -
    have "put_off w (SetTier i t) ?ns = None" using that by (simp add: put_off_def quiet_def wk)
    then show ?thesis using l o' n1 by (auto simp: run_locked_def Let_def split: outcome.split)
  qed
  show "at_node (fst (run_one cfg w now (SetTier i t) ns)) i \<in> {at_node ns i, ?l}"
    using done1 by (auto simp: run_one_def Let_def split: option.split)
  show "at_node (fst (run_one cfg w now (SetTier i t) ns)) i = ?l" if "quiet w now i ns"
    using quiet1 [OF that] that by (auto simp: run_one_def quiet_def Let_def split: option.split)
qed

lemma set_tier_stays:
  assumes "tier_of l = Some t"
  shows "tier_of (fst (Lifecycle.set_tier as now t l)) = Some t"
proof -
  let ?l = "if is_serving t then l else refuse_connections l"
  have t: "tier_of ?l = Some t" using assms by simp
  have len: "length ORDER = Suc (Suc (Suc (Suc 0)))" by (simp add: ORDER_def)
  have "walk (Suc k) as now t ?l = (settle t ?l, Inr ())" for k
    by (subst walk.simps) (simp only: t option.case if_True refl)
  then have "Lifecycle.set_tier as now t l = (settle t ?l, Inr ())" unfolding Lifecycle.set_tier_def len .
  with t show ?thesis by simp
qed

lemma move_tier:
  assumes "\<And>k. succeeds (as k)" "at_home now l" "tier_of l = Some h" "want \<noteq> Detached"
  shows "tier_of (fst (Lifecycle.set_tier as now want l)) = Some want"
proof (cases "h = Snapshot \<and> want = Frozen")
  case True
  with move_snapshot_frozen [of as now l] assms show ?thesis by simp
next
  case False
  with move_arrives [of as now l h want] assms show ?thesis by auto
qed

text \<open>Where a sandbox is while a round runs: as it was, with nothing against moving it, or where it should be.\<close>

definition on_course :: "('d, 'm) world \<Rightarrow> instant \<Rightarrow> string \<Rightarrow> tier \<Rightarrow> ('d, 'm) local \<Rightarrow> ('d, 'm) node_state \<Rightarrow> bool" where
  "on_course w now i t l ns \<longleftrightarrow> (at_node ns i = l \<and> quiet w now i ns) \<or> tier_of (at_node ns i) = Some t"

definition fits :: "string \<Rightarrow> tier \<Rightarrow> command \<Rightarrow> bool" where
  "fits i t c \<longleftrightarrow> declarative c \<and>
     (case c of Create k \<Rightarrow> cr_id k \<noteq> i | SetTier j u \<Rightarrow> j = i \<longrightarrow> u = t | Destroy j _ \<Rightarrow> j \<noteq> i | _ \<Rightarrow> True)"

lemma at_set_egress: "at_node (fst (run_one cfg w now (SetEgress i e) ns)) j = at_node ns j"
proof -
  have "at_node (fst (apply_locked cfg w (SetEgress i e) k ns')) j = at_node ns' j" for k ns'
    by (auto simp: apply_locked_def Let_def split: prod.split option.split)
  then have "at_node (fst (run_locked cfg w now (SetEgress i e) ns)) j = at_node ns j"
    by (auto simp: run_locked_def Let_def split: prod.split option.split outcome.split)
      (metis at_node_frame(3) fst_conv at_node_notes(1,2))+
  then show ?thesis by (auto simp: run_one_def Let_def split: option.split)
qed

lemma quiet_set_egress:
  assumes "quiet w now i ns" "lo_net (at_node ns i) \<noteq> None" "egress_ok (w_answers w 0)"
  shows "quiet w now i (fst (run_one cfg w now (SetEgress i e) ns))"
proof -
  obtain wk k where l: "lock i (ns_wake ns) = (wk, k)" by fastforce
  then have wk: "wk = fst (lock i (ns_wake ns))" by simp
  have "snd (admit_cmd (nc_min_free_mib cfg) (nc_max_psi cfg) (w_t w) (w_used w) (w_reading w 0) (SetEgress i e) (ns_starting ns)) = None"
    by (rule admit_free) simp
  then obtain s1 where s1: "admit_cmd (nc_min_free_mib cfg) (nc_max_psi cfg) (w_t w) (w_used w) (w_reading w 0) (SetEgress i e) (ns_starting ns) = (s1, None)"
    by (metis prod.collapse)
  have "run_one cfg w now (SetEgress i e) ns =
      (note_success w (SetEgress i e) (ns\<lparr>ns_wake := wk, ns_starting := s1, ns_egress := (ns_egress ns)(i \<mapsto> e)\<rparr>), StepDone)"
    using assms l s1
    by (auto simp: run_one_def run_locked_def put_off_def apply_locked_def set_egress_at_def quiet_def Let_def)
  then show ?thesis using assms(1) by (simp add: quiet_def note_success_def wk evicted_for_def Let_def)
qed

lemma course_step:
  assumes "roomy cfg w" "\<And>k. succeeds (w_answers w k)" "fits i t c" "t \<noteq> Detached"
    and "at_home (w_t w) l" "tier_of l = Some h" "on_course w now i t l ns"
  shows "on_course w now i t l (fst (run_one cfg w now c ns))"
    and "c = SetTier i t \<Longrightarrow> tier_of (at_node (fst (run_one cfg w now c ns)) i) = Some t"
proof -
  note reach = move_tier [OF assms(2,5,6,4)]
  have set: "tier_of (at_node (fst (run_one cfg w now (SetTier i t) ns)) i) = Some t"
  proof (cases "at_node ns i = l \<and> quiet w now i ns")
    case True
    with run_set_tier(2) [OF assms(1), of now i ns t] reach show ?thesis by simp
  next
    case False
    with assms(7) have "tier_of (at_node ns i) = Some t" by (auto simp: on_course_def)
    then show ?thesis
      using run_set_tier(1) [OF assms(1), of now i t ns] set_tier_stays [OF \<open>tier_of (at_node ns i) = Some t\<close>]
      by (elim insertE emptyE) simp_all
  qed
  then show "c = SetTier i t \<Longrightarrow> tier_of (at_node (fst (run_one cfg w now c ns)) i) = Some t" by simp
  have un: "on_course w now i t l ns'" if "untouched i w now ns ns'" for ns'
    using that assms(7) by (auto simp: on_course_def untouched_def)
  show "on_course w now i t l (fst (run_one cfg w now c ns))"
  proof (cases "command_id c = i")
    case False
    then show ?thesis using untouched_other [OF assms(1) False] assms(3) un by (auto simp: fits_def)
  next
    case True
    show ?thesis
    proof (cases c)
      case (SetTier j u)
      with True assms(3) set show ?thesis by (auto simp: fits_def on_course_def)
    next
      case (SetEgress j e)
      with True have c: "c = SetEgress i e" by simp
      have "lo_net l \<noteq> None" "egress_ok (w_answers w 0)" using assms(2,5) by (auto simp: at_home_def succeeds_def)
      with assms(7) quiet_set_egress [of w now i ns cfg e] show ?thesis
        by (auto simp: on_course_def c at_set_egress)
    next
      case (PullTemplate n g a)
      then show ?thesis by (auto simp: run_one_def intro!: un untouched_frame split: option.split)
    next
      case (DropTag x)
      then show ?thesis by (auto simp: run_one_def intro!: un untouched_frame split: option.split)
    qed (use True assms(3) in \<open>auto simp: fits_def declarative_def\<close>)
  qed
qed

lemma stays_step:
  assumes "roomy cfg w" "fits i t c" "tier_of (at_node ns i) = Some t"
  shows "tier_of (at_node (fst (run_one cfg w now c ns)) i) = Some t"
proof (cases "command_id c = i")
  case False
  then show ?thesis using untouched_other [OF assms(1) False, of w now ns now] assms(2,3) by (simp add: fits_def untouched_def)
next
  case True
  show ?thesis
  proof (cases c)
    case (SetTier j u)
    with True assms(2) have "c = SetTier i t" by (simp add: fits_def)
    then show ?thesis
      using run_set_tier(1) [OF assms(1), of now i t ns] set_tier_stays [OF assms(3)] assms(3)
      by (elim insertE emptyE) simp_all
  qed (use True assms(2,3) in \<open>auto simp: fits_def declarative_def at_set_egress, auto simp: run_one_def split: option.split\<close>)
qed

lemma round_group:
  assumes "roomy cfg w" "\<And>k. succeeds (w_answers w k)" "t \<noteq> Detached" "at_home (w_t w) l" "tier_of l = Some h"
    and "list_all (fits i t) cs" "on_course w now i t l ns"
  shows "on_course w now i t l (fst (run_group cfg (\<lambda>_. w) now n cs ns)) \<and>
    (SetTier i t \<in> set cs \<or> tier_of (at_node ns i) = Some t \<longrightarrow>
      tier_of (at_node (fst (run_group cfg (\<lambda>_. w) now n cs ns)) i) = Some t)"
  using assms(6,7)
proof (induction cs arbitrary: n ns)
  case (Cons c cs)
  obtain ns1 r where r: "run_one cfg w now c ns = (ns1, r)" by fastforce
  obtain ns2 ss where g: "run_group cfg (\<lambda>_. w) now (Suc n) cs ns1 = (ns2, ss)" by fastforce
  have e: "fst (run_group cfg (\<lambda>_. w) now n (c # cs) ns) = ns2" by (simp add: r g)
  have fits: "fits i t c" "list_all (fits i t) cs" using Cons.prems(1) by simp_all
  note step = course_step [OF assms(1,2) fits(1) assms(3-5) Cons.prems(2), unfolded r fst_conv]
    stays_step [OF assms(1) fits(1), of ns now, unfolded r fst_conv]
  from Cons.IH [OF fits(2) step(1), of "Suc n"] step(2,3) show ?case unfolding e by (auto simp: g)
qed simp

lemma untouched_notes: "untouched i w now ns (fst (note_steps u ss ns))"
  by (induction u ss ns rule: note_steps.induct) (auto intro: untouched_trans [OF untouched_frame(6)])

lemma round_groups:
  assumes "roomy cfg w" "\<And>k. succeeds (w_answers w k)" "t \<noteq> Detached" "at_home (w_t w) l" "tier_of l = Some h"
    and "list_all (fits i t) (concat gs)" "on_course w now i t l ns"
    and "SetTier i t \<in> set (concat gs) \<or> tier_of (at_node ns i) = Some t"
  shows "tier_of (at_node (fst (run_groups cfg (\<lambda>_ _. w) now m gs ns)) i) = Some t"
  using assms(6-8)
proof (induction gs arbitrary: m ns)
  case (Cons g gs)
  obtain ns1 ss where g: "run_group cfg (\<lambda>_. w) now 0 g ns = (ns1, ss)" by fastforce
  obtain ns2 rs where n: "note_steps now (zip g ss) ns1 = (ns2, rs)" by fastforce
  have e: "fst (run_groups cfg (\<lambda>_ _. w) now m (g # gs) ns) = fst (run_groups cfg (\<lambda>_ _. w) now (Suc m) gs ns2)"
    by (simp add: g n split: prod.split)
  have fits: "list_all (fits i t) g" "list_all (fits i t) (concat gs)" using Cons.prems(1) by simp_all
  note one = round_group [OF assms(1-5) fits(1) Cons.prems(2), of 0, unfolded g fst_conv]
  have un: "untouched i w now ns1 ns2" using untouched_notes [of i w now ns1 now "zip g ss"] n by simp
  with one have course: "on_course w now i t l ns2" by (auto simp: on_course_def untouched_def)
  have "SetTier i t \<in> set (concat gs) \<or> tier_of (at_node ns2 i) = Some t"
    using Cons.prems(3) one un by (auto simp: untouched_def)
  then show ?case unfolding e by (rule Cons.IH [OF fits(2) course])
qed simp

lemma seen_observe:
  assumes "pr_observed req = observe ns" "book_ok (ns_sandboxes ns)" "\<not> starts_with i WARM_SEED_PREFIX"
    and "tier_of (at_node ns i) = Some h"
  shows "\<exists>o'. seen_as req i = Some o' \<and> ob_tier o' = h"
proof -
  have "find (\<lambda>o'. ob_id o' = i) (List.map_filter f b) = Option.bind (map_of b i) (\<lambda>l. f (i, l))"
    if "distinct (map fst b)" "\<And>j l o'. f (j, l) = Some o' \<Longrightarrow> ob_id o' = j" for b and f :: "string \<times> ('a, 'b) local \<Rightarrow> observed_sandbox option"
    using that(1)
  proof (induction b)
    case (Cons x b)
    obtain j l where x: "x = (j, l)" by fastforce
    have absent: "map_of b j = None" using Cons.prems x by (simp add: map_of_eq_None_iff)
    show ?case using Cons absent that(2) [of j l] by (auto simp: x map_filter_simps split: option.split)
  qed (simp add: map_filter_simps)
  note look = this
  let ?f = "\<lambda>(i, l). if starts_with i WARM_SEED_PREFIX then None
     else map_option (\<lambda>t. \<lparr>ob_id = i, ob_tier = t, ob_serving = is_serving t, ob_ip = None,
            ob_net_index = lo_net l, ob_egress = ns_egress ns i\<rparr>) (tier_of l)"
  have "seen_as req i = Option.bind (map_of (ns_sandboxes ns) i) (\<lambda>l. ?f (i, l))"
    unfolding seen_as_def assms(1) observe_def
    by (rule look) (use assms(2) in \<open>auto simp: book_ok_def split: if_splits\<close>)
  moreover obtain l where "map_of (ns_sandboxes ns) i = Some l" "tier_of l = Some h"
    using assms(4) by (auto simp: at_node_def tier_of_def nowhere_def split: option.splits)
  ultimately show ?thesis using assms(3) by simp
qed

lemma diff_fits:
  assumes "distinct (map sb_id (sandboxes (m_store ms)))" "s \<in> set (sandboxes (m_store ms))"
    and "sb_node_id s = pr_node_id req" "seen_as req (sb_id s) = Some o'" "sb_error_attempts s < MAX_FAILURES"
  shows "list_all (fits (sb_id s) (sb_tier s)) (snd (diff cj cr now req ms))"
    and "ob_tier o' \<noteq> sb_tier s \<Longrightarrow> SetTier (sb_id s) (sb_tier s) \<in> set (snd (diff cj cr now req ms))"
proof -
  let ?st = "m_store (fst (diff cj cr now req ms))"
  obtain want where w: "same_desire s want"
    and cmds: "\<And>c. (\<exists>k. c = Create k \<and> cr_id k = sb_id s) \<or> (\<exists>t. c = SetTier (sb_id s) t) \<or>
         (\<exists>e. c = SetEgress (sb_id s) e) \<Longrightarrow>
         c \<in> set (snd (diff cj cr now req ms)) \<longleftrightarrow> c \<in> set (commands_for cj cr now req ?st want)"
    using diff_row [OF assms(1-3)] by blast
  note f = same_desire_fields [OF w]
  have want: "commands_for cj cr now req ?st want =
      (if ob_tier o' \<noteq> sb_tier s then [SetTier (sb_id s) (sb_tier s)] else []) @
      (case ob_egress o' of Some e \<Rightarrow> if e \<noteq> sb_egress s then [SetEgress (sb_id s) (sb_egress s)] else [] | None \<Rightarrow> [])"
    using assms(4,5) by (cases "ob_egress o'") (simp_all add: commands_for_def f)
  have "fits (sb_id s) (sb_tier s) c" if c: "c \<in> set (snd (diff cj cr now req ms))" for c
  proof -
    have "declarative c"
      using c unfolding diff_parts
      by (auto simp: declarative_def destroys_def drops_def dest!: pull_commands_only commands_for_ids)
    moreover have "cr_id k \<noteq> sb_id s" if "c = Create k" for k
      using c cmds [of c] that by (auto simp: want split: option.splits if_splits)
    moreover have "u = sb_tier s" if "c = SetTier (sb_id s) u" for u
      using c cmds [of c] that by (auto simp: want split: option.splits if_splits)
    moreover have "j \<noteq> sb_id s" if "c = Destroy j n" for j n
      using c that assms(2,3) same_desires_here [OF same_desires_diff, of cj cr now req ms "pr_node_id req" "sb_id s"]
      by (auto simp: destroy_in_diff desired_here_def)
    ultimately show ?thesis by (auto simp: fits_def split: command.split)
  qed
  then show "list_all (fits (sb_id s) (sb_tier s)) (snd (diff cj cr now req ms))" by (simp add: list_all_iff)
  show "SetTier (sb_id s) (sb_tier s) \<in> set (snd (diff cj cr now req ms))" if "ob_tier o' \<noteq> sb_tier s"
    using cmds [of "SetTier (sb_id s) (sb_tier s)"] that by (simp add: want)
qed

text \<open>
  C1. Master and node converge: on a node with room, where nothing the engine is asked for fails,
  one report and its answer bring every sandbox the node holds to the tier the store wants of it,
  whatever tier it was in, unless a caller or an earlier failure stands against moving it.
\<close>

theorem one_round_converges:
  assumes "distinct (map sb_id (sandboxes (m_store ms)))" "s \<in> set (sandboxes (m_store ms))"
    and "sb_node_id s = pr_node_id req" "sb_error_attempts s < MAX_FAILURES" "sb_tier s \<noteq> Detached"
    and "pr_observed req = observe ns" "pr_deferred req = []" "exec_queue ms (pr_node_id req) = None"
    and "book_ok (ns_sandboxes ns)" "\<not> starts_with (sb_id s) WARM_SEED_PREFIX"
    and "tier_of (at_node ns (sb_id s)) = Some h" "at_home (w_t w) (at_node ns (sb_id s))" "quiet w t (sb_id s) ns"
    and "roomy cfg w" "\<And>k. succeeds (w_answers w k)"
  shows "tier_of (at_node (fst (take_answer cfg (\<lambda>_ _. w) t (snd (answer cj cr now req waited ms)) ns)) (sb_id s)) = Some (sb_tier s)"
proof -
  let ?cs = "snd (diff cj cr now req ms)"
  have "snd (answer cj cr now req waited ms) = ?cs"
    using assms(7,8) queue_diff [of cj cr now req ms]
    by (auto simp: answer_def take_execs_def leave_out_deferred_def split: prod.split)
  moreover obtain o' where o': "seen_as req (sb_id s) = Some o'" "ob_tier o' = h"
    using seen_observe [OF assms(6,9,10,11)] by blast
  note fits = diff_fits [OF assms(1-3) o'(1) assms(4), of cj cr now]
  have "tier_of (at_node (fst (run_groups cfg (\<lambda>_ _. w) t 0 (groups ?cs) ns)) (sb_id s)) = Some (sb_tier s)"
    by (rule round_groups [OF assms(14,15,5,12,11)])
      (use fits o'(2) assms(11,13) in \<open>auto simp: concat_groups on_course_def\<close>)
  ultimately show ?thesis
    by (cases "run_groups cfg (\<lambda>_ _. w) t 0 (groups ?cs) ns") (simp add: take_answer_def at_node_def)
qed

section \<open>Witnesses\<close>

definition one_wanted :: "tier \<Rightarrow> master" where
  "one_wanted t = default_options (empty_store\<lparr>sandboxes := [blank_sandbox\<lparr>sb_id := ''a'', sb_tier := t\<rparr>]\<rparr>)"

definition reported :: poll_request where
  "reported = (empty_report ''n1'')\<lparr>pr_observed := observe (sample_node [(''a'', sample Hot)])\<rparr>"

lemma one_round_converges_witness:
  "tier_of (at_node (fst (take_answer sample_cfg (\<lambda>_ _. sample_world calm) 100000
     (snd (answer (toy_codec JNull) toy_crypto 5 reported 0 (one_wanted Snapshot)))
     (sample_node [(''a'', sample Hot)]))) ''a'') = Some Snapshot"
proof -
  have "sb_tier (blank_sandbox\<lparr>sb_id := ''a'', sb_tier := Snapshot\<rparr>) = Snapshot" by simp
  moreover have "roomy sample_cfg (sample_world calm)"
    by (simp add: roomy_def holding_back_at_def short_of_def swap_short_def swap_floor_mib_def sample_cfg_def calm_def)
  moreover have "quiet (sample_world calm) 100000 ''a'' (sample_node [(''a'', sample Hot)])" by (simp add: quiet_def)
  ultimately show ?thesis
    using one_round_converges [of "one_wanted Snapshot" "blank_sandbox\<lparr>sb_id := ''a'', sb_tier := Snapshot\<rparr>" reported
      "sample_node [(''a'', sample Hot)]" Hot "sample_world calm" 100000 sample_cfg "toy_codec JNull" toy_crypto 5 0]
    by (simp add: one_wanted_def default_options_def blank_sandbox_def reported_def empty_report_def book_ok_def
      starts_with_def WARM_SEED_PREFIX_def sample_tier sample_home all_ok_succeeds MAX_FAILURES_def)
qed

definition asked_exec :: command where
  "asked_exec = Exec ''e1'' ''a'' [''ls''] 30"

lemma exec_in_backoff_is_lost_witness:
  "let (ms1, cmds) = answer (toy_codec JNull) toy_crypto 5 (empty_report ''n1'') 0
       ((default_options empty_store)\<lparr>exec_queue := [''n1'' \<mapsto> [asked_exec]]\<rparr>);
     ns = (sample_node [(''a'', sample Hot)])\<lparr>ns_failing := [(''a'', \<lparr>fl_attempts = 1, fl_retry_at = 101000, fl_error = FetchFailed ''boom'', fl_held_back = False\<rparr>)]\<rparr>
   in cmds = [asked_exec] \<and> snd (take_answer sample_cfg (\<lambda>_ _. sample_world calm) 100000 cmds ns) = []"
proof -
  let ?ms = "(default_options empty_store)\<lparr>exec_queue := [''n1'' \<mapsto> [asked_exec]]\<rparr>"
  let ?ns = "(sample_node [(''a'', sample Hot)])\<lparr>ns_failing :=
    [(''a'', \<lparr>fl_attempts = 1, fl_retry_at = 101000, fl_error = FetchFailed ''boom'', fl_held_back = False\<rparr>)]\<rparr>"
  have "snd (diff (toy_codec JNull) toy_crypto 5 (empty_report ''n1'') ?ms) = []"
    by (simp add: diff_def refresh_def empty_report_def default_options_def pulls_for_def destroys_def drops_def
      note_host_def note_templates_def note_features_def note_fingerprint_def note_ip_def on_store_def sandboxes_on_node_def set_node_health_def upd_node_def empty_store_def
      image_templates_def list_snapshots_def record_host_def)
  then have "leave_out_deferred (empty_report ''n1'') 0 (snd (diff (toy_codec JNull) toy_crypto 5 (empty_report ''n1'') ?ms)) = []"
    by (simp add: leave_out_deferred_def)
  from exec_in_backoff_is_lost [OF _ this, of "''e1''" "''a''" "[''ls'']" 30 ?ns _ 100000 sample_cfg "\<lambda>_ _. sample_world calm"]
  show ?thesis by (auto simp: empty_report_def asked_exec_def Let_def split: prod.splits)
qed

end
