(* ===== verification/Handlers.thy ===== *)
theory Handlers
  imports Reconcile
begin

text \<open>
  The routes of \<^verbatim>\<open>master/api.rs\<close> that act on one sandbox or snapshot: tier, retry, touch,
  delete, egress, exec, eval, ping and branch. A handler that waits for a node is two definitions,
  what it does before the wait and what it does with the answer (\<^verbatim>\<open>None\<close> is the timeout).
  \<^verbatim>\<open>random_token\<close> is an argument of the first; the metrics are left out. Text is compared
  without case by its ASCII letters.
\<close>

section \<open>Views\<close>

record sandbox_view =
  sv_id :: string
  sv_node_id :: string
  sv_pool :: string
  sv_template :: string
  sv_tier :: tier
  sv_snapshot_tag :: "string option"
  sv_guest_addr :: "string option"
  sv_created_at_unix :: secs
  sv_netns :: "string option"
  sv_memory_limit_mib :: "nat option"
  sv_egress :: egress
  sv_volume :: "string option"
  sv_port :: "u16 option"
  sv_gateway_port :: "u16 option"
  sv_ip :: "string option"
  sv_created_at :: secs
  sv_last_active_at :: secs
  sv_last_error :: "string option"
  sv_error_attempts :: nat

definition guest_addr :: "sandbox \<Rightarrow> string option" where
  "guest_addr s = (case (sb_ip s, sb_port s) of
     (Some ip, Some port) \<Rightarrow> Some (ip @ '':'' @ dec (unat port)) | _ \<Rightarrow> None)"

definition sandbox_view_of :: "sandbox \<Rightarrow> sandbox_view" where
  "sandbox_view_of s = \<lparr>sv_id = sb_id s, sv_node_id = sb_node_id s, sv_pool = sb_pool s, sv_template = sb_template s,
     sv_tier = sb_tier s, sv_snapshot_tag = sb_from_tag s, sv_guest_addr = guest_addr s,
     sv_created_at_unix = sb_created_at s, sv_netns = Some (''sandstorm-'' @ sb_id s),
     sv_memory_limit_mib = sb_memory_limit_mib s, sv_egress = sb_egress s, sv_volume = sb_volume s,
     sv_port = sb_port s, sv_gateway_port = sb_gateway_port s, sv_ip = sb_ip s, sv_created_at = sb_created_at s,
     sv_last_active_at = sb_last_active_at s, sv_last_error = sb_last_error s,
     sv_error_attempts = sb_error_attempts s\<rparr>"

record snapshot_view =
  nv_tag :: string
  nv_node_id :: string
  nv_template :: string
  nv_branched_from :: "string option"
  nv_created_at_unix :: secs
  nv_dir :: string
  nv_from_sandbox :: "string option"
  nv_created_at :: secs
  nv_size_bytes :: nat

definition snapshot_view_of :: "'z snapshot_tag_scheme \<Rightarrow> snapshot_view" where
  "snapshot_view_of s = \<lparr>nv_tag = st_tag s, nv_node_id = st_node_id s, nv_template = st_template s,
     nv_branched_from = st_from_sandbox s, nv_created_at_unix = st_created_at s, nv_dir = ''tags/'' @ st_tag s,
     nv_from_sandbox = st_from_sandbox s, nv_created_at = st_created_at s, nv_size_bytes = st_size_bytes s\<rparr>"

section \<open>Reading\<close>

definition require_sandbox_token :: "master \<Rightarrow> string \<Rightarrow> string option \<Rightarrow> api_err + unit" where
  "require_sandbox_token ms i header =
     (case get_sandbox (m_store ms) i of
        None \<Rightarrow> Inl (err 404 (''no sandbox '' @ i))
      | Some s \<Rightarrow>
          if secrets_match (case header of Some h \<Rightarrow> h | None \<Rightarrow> []) (sb_token s) then Inr ()
          else Inl (err 403 ''this sandbox requires its own access token''))"

definition api_get_sandbox :: "master \<Rightarrow> string \<Rightarrow> api_err + sandbox_view" where
  "api_get_sandbox ms i =
     (case get_sandbox (m_store ms) i of
        Some s \<Rightarrow> Inr (sandbox_view_of s) | None \<Rightarrow> Inl (err 404 ''no such sandbox''))"

record list_query =
  lq_tier :: "tier option"
  lq_node :: "string option"
  lq_q :: "string option"
  lq_failing :: bool
  lq_limit :: "nat option"
  lq_offset :: nat

definition lower :: "string \<Rightarrow> string" where
  "lower s = map ascii_lower s"

definition listed :: "list_query \<Rightarrow> sandbox \<Rightarrow> bool" where
  "listed f s \<longleftrightarrow>
     (case lq_tier f of Some t \<Rightarrow> sb_tier s = t | None \<Rightarrow> True) \<and>
     (case lq_node f of Some n \<Rightarrow> sb_node_id s = n | None \<Rightarrow> True) \<and>
     (\<not> lq_failing f \<or> sb_last_error s \<noteq> None) \<and>
     (case lq_q f of None \<Rightarrow> True | Some [] \<Rightarrow> True
      | Some q \<Rightarrow> contains_str (lower (sb_id s)) (lower q) \<or> contains_str (lower (sb_template s)) (lower q))"

definition api_list_sandboxes :: "master \<Rightarrow> list_query \<Rightarrow> nat \<times> sandbox_view list" where
  "api_list_sandboxes ms f =
     (let matched = filter (listed f) (list_sandboxes (m_store ms))
      in (length matched,
          map sandbox_view_of
            ((case lq_limit f of Some n \<Rightarrow> take n | None \<Rightarrow> id) (drop (lq_offset f) matched))))"

section \<open>Moving, retrying, touching and deleting\<close>

definition api_set_tier :: "secs \<Rightarrow> string \<Rightarrow> tier \<Rightarrow> master \<Rightarrow> master \<times> (api_err + sandbox_view)" where
  "api_set_tier now i want ms =
     (case get_sandbox (m_store ms) i of
        None \<Rightarrow> (ms, Inl (err 404 ''no such sandbox''))
      | Some s \<Rightarrow>
          let ms1 = on_store (set_tier i want) ms;
              ms2 = (if want = Hot then on_store (touch now i) ms1 else ms1)
          in case get_sandbox (m_store ms2) i of
               None \<Rightarrow> (ms2, Inl (err 404 ''no such sandbox''))
             | Some fresh \<Rightarrow> (wake_node (sb_node_id s) ms2, Inr (sandbox_view_of fresh)))"

definition retry_sandbox :: "string \<Rightarrow> master \<Rightarrow> master \<times> (api_err + sandbox_view)" where
  "retry_sandbox i ms =
     (case get_sandbox (m_store ms) i of
        None \<Rightarrow> (ms, Inl (err 404 ''no such sandbox''))
      | Some s \<Rightarrow>
          let ms1 = on_store (clear_sandbox_error i) ms
          in case get_sandbox (m_store ms1) i of
               None \<Rightarrow> (ms1, Inl (err 404 ''no such sandbox''))
             | Some fresh \<Rightarrow> (wake_node (sb_node_id s) ms1, Inr (sandbox_view_of fresh)))"

definition touch_sandbox :: "secs \<Rightarrow> string \<Rightarrow> master \<Rightarrow> master \<times> (api_err + sandbox_view)" where
  "touch_sandbox now i ms =
     (case get_sandbox (m_store ms) i of
        None \<Rightarrow> (ms, Inl (err 404 ''no such sandbox''))
      | Some s \<Rightarrow>
          let ms1 = on_store (touch now i) ms;
              ms2 = (if sb_tier s \<noteq> Hot then wake_node (sb_node_id s) (on_store (set_tier i Hot) ms1) else ms1)
          in case get_sandbox (m_store ms2) i of
               None \<Rightarrow> (ms2, Inl (err 404 ''no such sandbox''))
             | Some fresh \<Rightarrow> (ms2, Inr (sandbox_view_of fresh)))"

definition api_delete_sandbox :: "string \<Rightarrow> master \<Rightarrow> master" where
  "api_delete_sandbox i ms =
     (let ms1 = on_store (delete_sandbox i) ms
      in case get_sandbox (m_store ms) i of
           None \<Rightarrow> ms1
         | Some s \<Rightarrow> wake_node (sb_node_id s) ms1)"

section \<open>Egress\<close>

record egress_change =
  ec_internet :: "bool option"
  ec_allow :: "string list option"
  ec_deny :: "string list option"

definition applied_to :: "egress_change \<Rightarrow> egress \<Rightarrow> api_err + egress" where
  "applied_to c e =
     (case canonical \<lparr>internet = (case ec_internet c of Some b \<Rightarrow> b | None \<Rightarrow> internet e),
         allow = (case ec_allow c of Some a \<Rightarrow> a | None \<Rightarrow> allow e),
         deny = (case ec_deny c of Some d \<Rightarrow> d | None \<Rightarrow> deny e)\<rparr> of
        Inl _ \<Rightarrow> Inl (err 400 ''the policy does not parse'')
      | Inr e' \<Rightarrow> Inr e')"

definition api_set_default_egress :: "egress_change \<Rightarrow> master \<Rightarrow> master \<times> (api_err + egress)" where
  "api_set_default_egress c ms =
     (case applied_to c (default_egress (m_store ms)) of
        Inl e \<Rightarrow> (ms, Inl e)
      | Inr e \<Rightarrow> (on_store (set_default_egress e) ms, Inr e))"

definition api_set_sandbox_egress :: "string \<Rightarrow> egress_change \<Rightarrow> master \<Rightarrow> master \<times> (api_err + egress)" where
  "api_set_sandbox_egress i c ms =
     (case get_sandbox (m_store ms) i of
        None \<Rightarrow> (ms, Inl (err 404 (''no sandbox '' @ i)))
      | Some s \<Rightarrow>
          (case applied_to c (sb_egress s) of
             Inl e \<Rightarrow> (ms, Inl e)
           | Inr e \<Rightarrow> (wake_node (sb_node_id s) (on_store (fst \<circ> set_sandbox_egress i e) ms), Inr e)))"

section \<open>Commands a caller waits for\<close>

text \<open>A sender under the result's id, the command at the end of the node's queue, and a wake.\<close>

definition ask_node :: "string \<Rightarrow> string \<Rightarrow> command \<Rightarrow> master \<Rightarrow> master" where
  "ask_node n rid c ms =
     wake_node n (ms\<lparr>pending_exec := insert rid (pending_exec ms),
       exec_queue := (exec_queue ms)(n \<mapsto> (case exec_queue ms n of Some q \<Rightarrow> q | None \<Rightarrow> []) @ [c])\<rparr>)"

definition deliver_result :: "command_result \<Rightarrow> master \<Rightarrow> master \<times> bool" where
  "deliver_result r ms =
     (if result_id r \<in> pending_exec ms then (ms\<lparr>pending_exec := pending_exec ms - {result_id r}\<rparr>, True)
      else (ms, False))"

definition command_result :: "command_result \<Rightarrow> master \<Rightarrow> master \<times> (api_err + unit)" where
  "command_result r ms =
     (case deliver_result r ms of
        (ms1, True) \<Rightarrow> (ms1, Inr ())
      | (ms1, False) \<Rightarrow> (ms1, Inl (err 404 ''no caller is waiting on that result'')))"

definition stop_waiting :: "string \<Rightarrow> master \<Rightarrow> master" where
  "stop_waiting rid ms = ms\<lparr>pending_exec := pending_exec ms - {rid}\<rparr>"

definition run_exec_ask :: "string \<Rightarrow> string \<Rightarrow> string list \<Rightarrow> nat \<Rightarrow> master \<Rightarrow> master \<times> (api_err + unit)" where
  "run_exec_ask rid i args timeout ms =
     (case get_sandbox (m_store ms) i of
        None \<Rightarrow> (ms, Inl (err 404 ''no such sandbox''))
      | Some s \<Rightarrow>
          if sb_tier s \<noteq> Hot then (ms, Inl (err 409 (''sandbox is '' @ as_str (sb_tier s) @ ''; touch it to bring it hot first'')))
          else (ask_node (sb_node_id s) rid (Exec rid i args timeout) ms, Inr ()))"

definition run_exec_wait :: "string \<Rightarrow> command_result option \<Rightarrow> master \<Rightarrow> master \<times> (api_err + command_result)" where
  "run_exec_wait rid reply ms =
     (case reply of
        Some r \<Rightarrow> (ms, Inr r)
      | None \<Rightarrow> (stop_waiting rid ms, Inl (err 504 ''the node did not return a result'')))"

definition exec_sandbox :: "string \<Rightarrow> string \<Rightarrow> string option \<Rightarrow> string list \<Rightarrow> nat \<Rightarrow> master \<Rightarrow> master \<times> (api_err + unit)" where
  "exec_sandbox rid i header args timeout ms =
     (case require_sandbox_token ms i header of
        Inl e \<Rightarrow> (ms, Inl e)
      | Inr _ \<Rightarrow> if args = [] then (ms, Inl (err 400 ''args must not be empty''))
          else run_exec_ask rid i args timeout ms)"

text \<open>The words of a JSON array of strings; anything else does not parse.\<close>

fun json_strings :: "json list \<Rightarrow> string list option" where
  "json_strings [] = Some []"
| "json_strings (JStr s # js) = map_option (Cons s) (json_strings js)"
| "json_strings (_ # js) = None"

definition eval_argv :: "codec \<Rightarrow> store \<Rightarrow> string \<Rightarrow> string list" where
  "eval_argv cj st template =
     (case Option.bind (Option.bind (get_template st template) (\<lambda>(_, spec). from_str cj spec)) (\<lambda>v. json_get v ''eval_argv'') of
        Some (JArr js) \<Rightarrow> (case json_strings js of Some a \<Rightarrow> a | None \<Rightarrow> [''/usr/bin/python3'', ''-c''])
      | _ \<Rightarrow> [''/usr/bin/python3'', ''-c''])"

definition eval_sandbox :: "codec \<Rightarrow> string \<Rightarrow> string \<Rightarrow> string option \<Rightarrow> string \<Rightarrow> nat \<Rightarrow> master \<Rightarrow> master \<times> (api_err + unit)" where
  "eval_sandbox cj rid i header code timeout ms =
     (case require_sandbox_token ms i header of
        Inl e \<Rightarrow> (ms, Inl e)
      | Inr _ \<Rightarrow>
          (case get_sandbox (m_store ms) i of
             None \<Rightarrow> (ms, Inl (err 404 ''no such sandbox''))
           | Some s \<Rightarrow> run_exec_ask rid i (eval_argv cj (m_store ms) (sb_template s) @ [code]) timeout ms))"

record eval_view =
  ev_result :: "string option"
  ev_error :: "string option"
  ev_exit_code :: int

definition eval_view_of :: "command_result \<Rightarrow> eval_view" where
  "eval_view_of r =
     (if exit_code r = 0 then \<lparr>ev_result = Some (stdout r), ev_error = None, ev_exit_code = 0\<rparr>
      else \<lparr>ev_result = None, ev_error = Some (if stderr r = [] then stdout r else stderr r), ev_exit_code = exit_code r\<rparr>)"

text \<open>\<open>connects\<close> is whether a TCP connection to an address opens within three seconds.\<close>

record ping_view =
  pg_ok :: bool
  pg_tier :: tier
  pg_guest_addr :: "string option"

definition ping_sandbox :: "(string \<Rightarrow> bool) \<Rightarrow> string \<Rightarrow> string option \<Rightarrow> master \<Rightarrow> api_err + ping_view" where
  "ping_sandbox connects i header ms =
     (case require_sandbox_token ms i header of
        Inl e \<Rightarrow> Inl e
      | Inr _ \<Rightarrow>
          (case get_sandbox (m_store ms) i of
             None \<Rightarrow> Inl (err 404 ''no such sandbox'')
           | Some s \<Rightarrow> Inr \<lparr>pg_ok = (case (guest_addr s, sb_tier s) of (Some a, Hot) \<Rightarrow> connects a | _ \<Rightarrow> False),
               pg_tier = sb_tier s, pg_guest_addr = guest_addr s\<rparr>))"

section \<open>Snapshots\<close>

record branch_req =
  br_tag :: string
  br_mode :: "string option"
  br_wait :: "bool option"
  br_live :: "bool option"
  br_diff :: "bool option"
  br_measure_diff :: "bool option"

text \<open>What a branch remembers while it waits: the sandbox's node, template and port.\<close>

record branch_wait =
  bw_tag :: string
  bw_sandbox :: string
  bw_node :: string
  bw_template :: string
  bw_port :: "u16 option"

definition branch_ask :: "string \<Rightarrow> string \<Rightarrow> branch_req \<Rightarrow> master \<Rightarrow> master \<times> (api_err + branch_wait)" where
  "branch_ask rid i req ms =
     (if br_mode req = Some ''live'' \<or> br_live req = Some True then (ms, Inl (err 410 ''live is removed''))
      else if br_wait req \<noteq> None then (ms, Inl (err 410 ''wait is removed''))
      else if br_diff req = Some True \<or> br_measure_diff req = Some True
        then (ms, Inl (err 410 ''diff and measure_diff are removed''))
      else if \<not> is_safe (br_tag req) then (ms, Inl (err 400 ''tag must be a plain name''))
      else if get_snapshot (m_store ms) (br_tag req) \<noteq> None then (ms, Inl (err 409 ''the snapshot already exists''))
      else (case get_sandbox (m_store ms) i of
              None \<Rightarrow> (ms, Inl (err 404 ''no such sandbox''))
            | Some s \<Rightarrow>
                if sb_tier s \<noteq> Hot then (ms, Inl (err 409 (''sandbox is '' @ as_str (sb_tier s) @ ''; touch it to bring it hot first'')))
                else (ask_node (sb_node_id s) rid (Branch i (br_tag req) rid) ms,
                      Inr \<lparr>bw_tag = br_tag req, bw_sandbox = i, bw_node = sb_node_id s, bw_template = sb_template s, bw_port = sb_port s\<rparr>)))"

definition snapshot_of :: "secs \<Rightarrow> branch_wait \<Rightarrow> command_result \<Rightarrow> snapshot_tag" where
  "snapshot_of now b r = \<lparr>st_tag = bw_tag b, st_node_id = bw_node b, st_template = bw_template b,
     st_from_sandbox = Some (bw_sandbox b), st_created_at = now, st_size_bytes = size_bytes r, st_port = bw_port b\<rparr>"

definition branch_wait_done ::
  "secs \<Rightarrow> string \<Rightarrow> branch_wait \<Rightarrow> command_result option \<Rightarrow> master \<Rightarrow> master \<times> (api_err + snapshot_view)" where
  "branch_wait_done now rid b reply ms =
     (case reply of
        None \<Rightarrow> (stop_waiting rid ms, Inl (err 504 ''the node did not finish the branch''))
      | Some r \<Rightarrow>
          if exit_code r \<noteq> 0 then (ms, Inl (err 500 (''branch failed: '' @ trim (stderr r))))
          else let snap = snapshot_of now b r;
                   st1 = put_snapshot snap (m_store ms);
                   st2 = (case node_fingerprint st1 (st_node_id snap) of
                            Some fp \<Rightarrow> set_snapshot_fingerprint (st_tag snap) fp st1 | None \<Rightarrow> st1)
               in (ms\<lparr>m_store := st2\<rparr>, Inr (snapshot_view_of snap)))"

definition api_list_snapshots :: "master \<Rightarrow> snapshot_view list" where
  "api_list_snapshots ms = map snapshot_view_of (list_snapshots (m_store ms))"

definition snapshot_info :: "master \<Rightarrow> string \<Rightarrow> api_err + snapshot_view \<times> nat" where
  "snapshot_info ms tag =
     (case get_snapshot (m_store ms) tag of
        None \<Rightarrow> Inl (err 404 (''no snapshot '' @ tag))
      | Some s \<Rightarrow> Inr (snapshot_view_of s, children_of (m_store ms) tag))"

definition api_delete_snapshot :: "string \<Rightarrow> master \<Rightarrow> master \<times> (api_err + unit)" where
  "api_delete_snapshot tag ms =
     (if 0 < children_of (m_store ms) tag
      then (ms, Inl (err 409 (dec (children_of (m_store ms) tag) @ '' sandboxes are still forked from '' @ tag)))
      else let (st, gone) = delete_snapshot tag (m_store ms)
           in if gone then (ms\<lparr>m_store := st\<rparr>, Inr ()) else (ms\<lparr>m_store := st\<rparr>, Inl (err 404 (''no snapshot '' @ tag))))"

end
