(* ===== verification/HandlerLaws.thy ===== *)
theory HandlerLaws
  imports Handlers
begin

text \<open>
  What the sandbox and snapshot routes promise: a command a caller waits for reaches its node once
  and in the order asked, and its result reaches at most that caller; and two branches of one name
  on two nodes both succeed.
\<close>

section \<open>Commands and their results\<close>

datatype call = Ask string string command | Take string | Deliver command_result | GiveUp string

datatype reply = Silent | Handed "command list" | Was bool

text \<open>The four things that touch the queues and the waiting callers, as the code does them.\<close>

fun serve :: "call \<Rightarrow> master \<Rightarrow> master \<times> reply" where
  "serve (Ask n rid c) ms = (ask_node n rid c ms, Silent)"
| "serve (Take n) ms = (let (ms', cs) = take_execs n ms in (ms', Handed cs))"
| "serve (Deliver r) ms = (let (ms', b) = deliver_result r ms in (ms', Was b))"
| "serve (GiveUp rid) ms = (stop_waiting rid ms, Silent)"

fun serve_all :: "call list \<Rightarrow> master \<Rightarrow> master \<times> reply list" where
  "serve_all [] ms = (ms, [])"
| "serve_all (c # cs) ms =
     (let (ms1, r) = serve c ms; (ms2, rs) = serve_all cs ms1 in (ms2, r # rs))"

text \<open>What they should come to, said of the calls alone.\<close>

fun asked :: "string \<Rightarrow> call list \<Rightarrow> command list" where
  "asked n [] = []"
| "asked n (Ask m rid c # cs) = (if m = n then c # asked n cs else asked n cs)"
| "asked n (_ # cs) = asked n cs"

fun handed :: "string \<Rightarrow> (call \<times> reply) list \<Rightarrow> command list" where
  "handed n [] = []"
| "handed n ((Take m, Handed ds) # hist) = (if m = n then ds @ handed n  hist else handed n hist)"
| "handed n (_ # hist) = handed n hist"

fun about :: "string \<Rightarrow> call \<Rightarrow> bool" where
  "about x (Ask _ rid _) = (rid = x)"
| "about x (Deliver r) = (result_id r = x)"
| "about x (GiveUp rid) = (rid = x)"
| "about x (Take _) = False"

definition awaited :: "string \<Rightarrow> call list \<Rightarrow> bool" where
  "awaited x cs = (case find (about x) (rev cs) of Some (Ask _ _ _) \<Rightarrow> True | _ \<Rightarrow> False)"

definition queued :: "string \<Rightarrow> master \<Rightarrow> command list" where
  "queued n ms = (case exec_queue ms n of Some q \<Rightarrow> q | None \<Rightarrow> [])"

lemma queued_serve:
  "queued n (fst (serve (Ask m rid c) ms)) = (if m = n then queued n ms @ [c] else queued n ms)"
  "queued n (fst (serve (Take m) ms)) = (if m = n then [] else queued n ms)"
  "snd (serve (Take m) ms) = Handed (queued m ms)"
  "queued n (fst (serve (Deliver r) ms)) = queued n ms"
  "queued n (fst (serve (GiveUp rid) ms)) = queued n ms"
  by (auto simp: queued_def ask_node_def wake_node_def take_execs_def deliver_result_def stop_waiting_def split: option.split)

lemma pending_serve:
  "pending_exec (fst (serve c ms)) =
     (case c of Ask _ rid _ \<Rightarrow> insert rid (pending_exec ms) | Take _ \<Rightarrow> pending_exec ms
      | Deliver r \<Rightarrow> pending_exec ms - {result_id r} | GiveUp rid \<Rightarrow> pending_exec ms - {rid})"
  by (cases c) (auto simp: ask_node_def wake_node_def take_execs_def deliver_result_def stop_waiting_def split: option.split)

lemma serve_all_handed:
  "serve_all cs ms = (ms', rs) \<Longrightarrow> handed n (zip cs rs) @ queued n ms' = queued n ms @ asked n cs"
proof (induction cs arbitrary: ms ms' rs)
  case (Cons c cs)
  obtain ms1 r where 1: "serve c ms = (ms1, r)" by fastforce
  obtain ms2 rs2 where 2: "serve_all cs ms1 = (ms2, rs2)" by fastforce
  from Cons.prems 1 2 have eq: "ms' = ms2" "rs = r # rs2" by auto
  note IH = Cons.IH [OF 2]
  show ?case
  proof (cases c)
    case (Ask m rid d)
    with IH 1 show ?thesis using queued_serve(1) [of n m rid d ms] by (auto simp: eq)
  next
    case (Take m)
    with IH 1 show ?thesis using queued_serve(2) [of n m ms] queued_serve(3) [of m ms] by (auto simp: eq)
  next
    case (Deliver x)
    with IH 1 show ?thesis using queued_serve(4) [of n x ms] by (auto simp: eq)
  next
    case (GiveUp x)
    with IH 1 show ?thesis using queued_serve(5) [of n x ms] by (auto simp: eq)
  qed
qed simp

lemma serve_all_append:
  "serve_all (cs @ ds) ms = (let (ms1, rs) = serve_all cs ms; (ms2, ss) = serve_all ds ms1 in (ms2, rs @ ss))"
  by (induction cs arbitrary: ms) (auto simp: Let_def split: prod.split)

lemma awaited_snoc:
  "awaited x (cs @ [c]) = (if about x c then (case c of Ask _ _ _ \<Rightarrow> True | _ \<Rightarrow> False) else awaited x cs)"
  by (simp add: awaited_def)

lemma serve_all_pending:
  assumes "pending_exec ms = {}"
  shows "x \<in> pending_exec (fst (serve_all cs ms)) \<longleftrightarrow> awaited x cs"
proof (induction cs rule: rev_induct)
  case Nil
  show ?case by (simp add: assms awaited_def)
next
  case (snoc c cs)
  have "fst (serve_all (cs @ [c]) ms) = fst (serve c (fst (serve_all cs ms)))"
    by (simp add: serve_all_append Let_def split: prod.split)
  with snoc show ?case by (cases c) (auto simp: pending_serve awaited_snoc simp del: serve.simps)
qed

text \<open>
  C9. A command a caller waits for reaches its node once and in the order asked: whatever callers
  ask, nodes take, results arrive and callers give up, what a node has been handed and what is
  still queued for it are together exactly the commands asked of it, those whose caller has given up
  among them; and a result is taken exactly when the last thing that happened under its id was the
  asking, so a result sent twice, one that comes too late and one nobody asked for reach nobody.
\<close>

theorem waiting_callers_exact:
  assumes "exec_queue ms = Map.empty" "pending_exec ms = {}" "serve_all cs ms = (ms', rs)"
  shows "handed n (zip cs rs) @ queued n ms' = asked n cs \<and> snd (serve (Deliver r) ms') = Was (awaited (result_id r) cs)"
proof
  show "handed n (zip cs rs) @ queued n ms' = asked n cs"
    using serve_all_handed [OF assms(3), of n] assms(1) by (simp add: queued_def)
  have "result_id r \<in> pending_exec ms' \<longleftrightarrow> awaited (result_id r) cs"
    using serve_all_pending [OF assms(2), of "result_id r" cs] assms(3) by simp
  then show "snd (serve (Deliver r) ms') = Was (awaited (result_id r) cs)"
    by (simp add: deliver_result_def)
qed

definition answered :: command_result where
  "answered = \<lparr>result_id = ''r1'', stdout = [], stderr = [], exit_code = 0, size_bytes = 0\<rparr>"

lemma waiting_callers_exact_witness:
  "snd (serve (Deliver answered) (fst (serve_all
      [Ask ''n1'' ''r1'' (Exec ''r1'' ''a'' [''ls''] 30), Take ''n1'', Deliver answered] (default_options empty_store)))) = Was False"
proof -
  let ?cs = "[Ask ''n1'' ''r1'' (Exec ''r1'' ''a'' [''ls''] 30), Take ''n1'', Deliver answered]"
  obtain ms' rs where run: "serve_all ?cs (default_options empty_store) = (ms', rs)" by fastforce
  have "\<not> awaited (result_id answered) ?cs" by (simp add: awaited_def answered_def)
  moreover have "exec_queue (default_options empty_store) = Map.empty" "pending_exec (default_options empty_store) = {}"
    by (simp_all add: default_options_def)
  ultimately show ?thesis
    using waiting_callers_exact [OF _ _ run, of "''n1''" answered] unfolding run by (simp del: serve.simps)
qed

section \<open>Two branches of one name\<close>

text \<open>
  The name is looked up before the wait and written after it. While a branch on one node is under
  way, a branch of the same name on another node passes the same check; both are answered with
  success, and the row is the later one's. What the first caller branched stays on its node
  under the name, and a fork placed there restores it.
\<close>

definition branch_of :: "string \<Rightarrow> branch_req" where
  "branch_of t = \<lparr>br_tag = t, br_mode = None, br_wait = None, br_live = None, br_diff = None, br_measure_diff = None\<rparr>"

lemma ask_node_store [simp]: "m_store (ask_node n rid c ms) = m_store ms"
  by (simp add: ask_node_def wake_node_def)

lemma branch_asked:
  assumes "is_safe tag" "get_snapshot (m_store ms) tag = None" "get_sandbox (m_store ms) i = Some s" "sb_tier s = Hot"
  shows "branch_ask rid i (branch_of tag) ms = (ask_node (sb_node_id s) rid (Branch i tag rid) ms,
    Inr \<lparr>bw_tag = tag, bw_sandbox = i, bw_node = sb_node_id s, bw_template = sb_template s, bw_port = sb_port s\<rparr>)"
  using assms by (simp add: branch_ask_def branch_of_def)

lemma row_of_upd_here:
  "(\<And>r. key (f r) = k) \<Longrightarrow> row_of key (upd_where (\<lambda>r. key r = k) f rows) k = map_option f (row_of key rows k)"
  by (induction rows) (auto simp: row_of_def upd_where_def)

lemma row_of_upd_other:
  "(\<And>r. key (f r) = k) \<Longrightarrow> u \<noteq> k \<Longrightarrow> row_of key (upd_where (\<lambda>r. key r = k) f rows) u = row_of key rows u"
  by (induction rows) (auto simp: row_of_def upd_where_def)

lemma get_snapshot_put:
  "get_snapshot (put_snapshot s st) t = (if t = st_tag s then Some s else get_snapshot st t)"
proof (cases "st_tag s \<in> st_tag ` set (snapshots st)")
  case True
  then obtain r where r: "row_of st_tag (snapshots st) (st_tag s) = Some r" by (metis row_of_None option.exhaust)
  let ?f = "\<lambda>r. snapshot_tag.extend s (snapshot_tag.more r)"
  have f: "st_tag (?f r) = st_tag s" for r by (simp add: snapshot_tag.defs)
  have trunc: "snapshot_tag.truncate (?f r) = s" by (simp add: snapshot_tag.defs)
  show ?thesis
    using True r trunc row_of_upd_other [of st_tag ?f "st_tag s" t "snapshots st", OF f]
      row_of_upd_here [of st_tag ?f "st_tag s" "snapshots st", OF f]
    by (cases "t = st_tag s") (simp_all add: get_snapshot_def put_snapshot_def snapshot_row_of_def upd_snapshot_def)
next
  case False
  then have "row_of st_tag (snapshots st) (st_tag s) = None" by (simp add: row_of_None)
  with False show ?thesis
    by (auto simp: get_snapshot_def put_snapshot_def snapshot_row_of_def row_of_append snapshot_tag.defs
        split: option.split)
qed

lemma get_snapshot_set_fingerprint: "get_snapshot (set_snapshot_fingerprint u fp st) t = get_snapshot st t"
  by (cases "snapshot_row_of st t") (auto simp: get_snapshot_def set_snapshot_fingerprint_def snapshot_tag.defs)

lemma branch_done:
  assumes "exit_code r = 0"
  shows "snd (branch_wait_done now rid b (Some r) ms) = Inr (snapshot_view_of (snapshot_of now b r))"
    and "get_snapshot (m_store (fst (branch_wait_done now rid b (Some r) ms))) t =
      (if t = bw_tag b then Some (snapshot_of now b r) else get_snapshot (m_store ms) t)"
proof -
  show "snd (branch_wait_done now rid b (Some r) ms) = Inr (snapshot_view_of (snapshot_of now b r))"
    using assms by (simp add: branch_wait_done_def Let_def)
  have "st_tag (snapshot_of now b r) = bw_tag b" by (simp add: snapshot_of_def)
  then show "get_snapshot (m_store (fst (branch_wait_done now rid b (Some r) ms))) t =
      (if t = bw_tag b then Some (snapshot_of now b r) else get_snapshot (m_store ms) t)"
    using assms by (simp add: branch_wait_done_def Let_def get_snapshot_put get_snapshot_set_fingerprint split: option.split)
qed

text \<open>
  Two branches of one name both succeed: when the second is asked for while the first is under
  way, on whatever sandbox and node, both nodes are told to write an image under that name, both
  callers are answered that the snapshot is theirs, and the row the first one wrote is replaced by
  the second one's.
\<close>

theorem two_branches_one_tag:
  assumes "is_safe tag" "get_snapshot (m_store ms) tag = None"
    and "get_sandbox (m_store ms) i = Some s" "sb_tier s = Hot" "get_sandbox (m_store ms) j = Some u" "sb_tier u = Hot"
    and "branch_ask rid1 i (branch_of tag) ms = (ms1, Inr b1)" "branch_ask rid2 j (branch_of tag) ms1 = (ms2, a2)"
    and "exit_code r1 = 0" "exit_code r2 = 0"
    and "branch_wait_done now1 rid1 b1 (Some r1) ms2 = (ms3, v1)"
  shows "\<exists>b2. a2 = Inr b2 \<and> (let (ms4, v2) = branch_wait_done now2 rid2 b2 (Some r2) ms3
    in v1 = Inr (snapshot_view_of (snapshot_of now1 b1 r1)) \<and> v2 = Inr (snapshot_view_of (snapshot_of now2 b2 r2)) \<and>
       get_snapshot (m_store ms3) tag = Some (snapshot_of now1 b1 r1) \<and>
       get_snapshot (m_store ms4) tag = Some (snapshot_of now2 b2 r2) \<and>
       Branch i tag rid1 \<in> set (queued (sb_node_id s) ms2) \<and> Branch j tag rid2 \<in> set (queued (sb_node_id u) ms2))"
proof -
  have 1: "ms1 = ask_node (sb_node_id s) rid1 (Branch i tag rid1) ms" and b1: "bw_tag b1 = tag"
    using assms(7) branch_asked [OF assms(1-4), of rid1] by auto
  obtain b2 where 2: "ms2 = ask_node (sb_node_id u) rid2 (Branch j tag rid2) ms1" and b2: "a2 = Inr b2" "bw_tag b2 = tag"
    using assms(8) branch_asked [OF assms(1), of ms1 j u rid2] assms(2,5,6) by (auto simp: 1)
  note d1 = branch_done [OF assms(9), of now1 rid1 b1 ms2, unfolded assms(11) fst_conv snd_conv]
  have q: "Branch i tag rid1 \<in> set (queued (sb_node_id s) ms2)" "Branch j tag rid2 \<in> set (queued (sb_node_id u) ms2)"
    by (auto simp: 1 2 queued_def ask_node_def wake_node_def split: option.split)
  obtain ms4 v2 where w: "branch_wait_done now2 rid2 b2 (Some r2) ms3 = (ms4, v2)" by fastforce
  note d2 = branch_done [OF assms(10), of now2 rid2 b2 ms3, unfolded w fst_conv snd_conv]
  show ?thesis
    using d1(1) d1(2) [of tag] d2(1) d2(2) [of tag] b1 b2 q w by auto
qed

definition two_hot :: master where
  "two_hot = default_options (empty_store\<lparr>sandboxes := [blank_sandbox\<lparr>sb_id := ''a''\<rparr>,
     blank_sandbox\<lparr>sb_id := ''b'', sb_node_id := ''n2''\<rparr>]\<rparr>)"

lemma two_branches_one_tag_witness:
  "\<exists>b2 ms3. snd (branch_ask ''r2'' ''b'' (branch_of ''t1'') (fst (branch_ask ''r1'' ''a'' (branch_of ''t1'') two_hot))) = Inr b2 \<and>
     get_snapshot (m_store ms3) ''t1'' \<noteq> None \<and>
     get_snapshot (m_store (fst (branch_wait_done 9 ''r2'' b2 (Some answered) ms3))) ''t1'' = Some (snapshot_of 9 b2 answered)"
proof -
  have rows: "get_sandbox (m_store two_hot) ''a'' = Some (blank_sandbox\<lparr>sb_id := ''a''\<rparr>)"
    "get_sandbox (m_store two_hot) ''b'' = Some (blank_sandbox\<lparr>sb_id := ''b'', sb_node_id := ''n2''\<rparr>)"
    "get_snapshot (m_store two_hot) ''t1'' = None"
    by (simp_all add: two_hot_def default_options_def get_sandbox_def row_of_def get_snapshot_def snapshot_row_of_def
        empty_store_def blank_sandbox_def)
  have safe: "is_safe ''t1''" by code_simp
  obtain ms1 b1 where 1: "branch_ask ''r1'' ''a'' (branch_of ''t1'') two_hot = (ms1, Inr b1)"
    using branch_asked [OF safe rows(3,1)] by (simp add: blank_sandbox_def)
  obtain ms2 a2 where 2: "branch_ask ''r2'' ''b'' (branch_of ''t1'') ms1 = (ms2, a2)" by fastforce
  obtain ms3 v1 where 3: "branch_wait_done 8 ''r1'' b1 (Some answered) ms2 = (ms3, v1)" by fastforce
  have "sb_tier (blank_sandbox\<lparr>sb_id := ''a''\<rparr>) = Hot" "exit_code answered = 0"
    "sb_tier (blank_sandbox\<lparr>sb_id := ''b'', sb_node_id := ''n2''\<rparr>) = Hot"
    by (simp_all add: blank_sandbox_def answered_def)
  from two_branches_one_tag [OF safe rows(3,1) this(1) rows(2) this(3) 1 2 this(2,2) 3, of 9]
  obtain b2 where b2: "a2 = Inr b2" "get_snapshot (m_store ms3) ''t1'' \<noteq> None"
    "get_snapshot (m_store (fst (branch_wait_done 9 ''r2'' b2 (Some answered) ms3))) ''t1'' = Some (snapshot_of 9 b2 answered)"
    by (elim exE conjE) (simp add: case_prod_beta Let_def)
  show ?thesis unfolding 1 fst_conv 2 snd_conv using b2 by blast
qed

end
