(* ===== verification/Leftover.thy ===== *)
theory Leftover
  imports System HandlerLaws
begin

text \<open>
  What a deleted sandbox leaves behind when it was detached: its archive on the volume, which
  nothing removes and the next sandbox of its name is started from.
\<close>

lemma observed_ids: "o' \<in> set (observe ns) \<Longrightarrow> \<exists>l. (ob_id o', l) \<in> set (ns_sandboxes ns) \<and> tier_of l \<noteq> None"
  by (fastforce simp: observe_def List.map_filter_def split: if_splits)

lemma not_observed:
  assumes "book_ok (ns_sandboxes ns)" "tier_of (at_node ns i) = None" "o' \<in> set (observe ns)"
  shows "ob_id o' \<noteq> i"
proof
  assume "ob_id o' = i"
  with observed_ids [OF assms(3)] obtain l where l: "(i, l) \<in> set (ns_sandboxes ns)" "tier_of l \<noteq> None" by auto
  then have "map_of (ns_sandboxes ns) i = Some l" using assms(1) by (simp add: book_ok_def)
  with l(2) assms(2) show False by (simp add: at_node_def)
qed

lemma prepare_unpacks:
  "prepare ce a now (Some d) l = (l', Inr ()) \<Longrightarrow>
   lo_layer l' = Some (unpack ce d (case lo_layer l of Some b \<Rightarrow> b | None \<Rightarrow> blank ce))"
  by (auto simp: prepare_def Let_def split: if_splits)

lemma start_keeps_layer:
  "start_cold ce a now l = (l', r) \<Longrightarrow> lo_layer l' = lo_layer l"
  by (auto simp: start_cold_def finish_net_def accept_connections_def note_restored_def remove_engine_def Let_def
      split: if_splits option.splits)

lemma create_unpacks:
  assumes "create ce a now l = (l', Inr ())" "lo_archive l = Some d"
  shows "lo_layer l' = Some (unpack ce d (case lo_layer l of Some b \<Rightarrow> b | None \<Rightarrow> blank ce))"
proof -
  obtain l1 r1 where 1: "(if rq_fork ce then may_restore now l else (l, Inr ())) = (l1, r1)" by fastforce
  obtain l2 r2 where 2: "setup_net ce a now l1 = (l2, r2)" by fastforce
  obtain l3 r3 where 3: "prepare ce a now (lo_archive l1) l2 = (l3, r3)" by fastforce
  have r: "r1 = Inr ()" "r2 = Inr ()" "r3 = Inr ()"
    using assms(1) 1 2 3 by (auto simp: create_def Let_def split: if_splits sum.splits)
  have l1: "lo_archive l1 = lo_archive l" "lo_layer l1 = lo_layer l"
    using 1 r(1) by (auto simp: may_restore_def remove_engine_def split: if_splits option.splits)
  have l2: "lo_layer l2 = lo_layer l1" using 2 r(2) by (auto simp: setup_net_def split: if_splits option.splits)
  have "start_warm ce a (lo_archive l1) = None" by (simp add: start_warm_def l1 assms(2))
  then have "start_cold ce a now l3 = (l', Inr ())"
    using assms(1) 1 2 3 r by (auto simp: create_def Let_def split: if_splits)
  from start_keeps_layer [OF this] prepare_unpacks [of ce a now d l2 l3] 3 r(3) l1 l2 assms(2) show ?thesis by simp
qed

text \<open>
  A detached sandbox that is deleted is not forgotten: the node does not report it, so the
  master, whatever its store says after the deletion, sends no destroy for it; the node's own
  clearing up of dead sandboxes leaves its archive where it is; and the next sandbox created under
  the same id on that volume that comes up at all comes up with the deleted one's files.
\<close>

theorem deleted_detached_comes_back:
  assumes "pr_observed req = observe ns" "book_ok (ns_sandboxes ns)"
    and "\<not> lo_bundle (at_node ns i)" "lo_archive (at_node ns i) = Some d"
    and "create ce a t (reap_dead a0 now0 (at_node ns i)) = (l', Inr ())"
  shows "Destroy i x \<notin> set (snd (diff cj cr now req (api_delete_sandbox i ms))) \<and>
    lo_layer l' = Some (unpack ce d (case lo_layer (at_node ns i) of Some b \<Rightarrow> b | None \<Rightarrow> blank ce))"
proof
  have none: "tier_of (at_node ns i) = None" using assms(3) by (simp add: tier_of_def)
  show "Destroy i x \<notin> set (snd (diff cj cr now req (api_delete_sandbox i ms)))"
    using not_observed [OF assms(2) none] by (auto simp: destroy_in_diff assms(1))
  have "reap_dead a0 now0 (at_node ns i) = at_node ns i" using assms(3) by (simp add: reap_dead_def dead_def)
  with create_unpacks [of ce a t "at_node ns i" l' d] assms(4,5)
  show "lo_layer l' = Some (unpack ce d (case lo_layer (at_node ns i) of Some b \<Rightarrow> b | None \<Rightarrow> blank ce))" by simp
qed

definition archived :: "(string, string) local" where
  "archived = nowhere\<lparr>lo_archive := Some ''secret''\<rparr>"

lemma deleted_detached_comes_back_witness:
  "lo_layer (fst (create sample_env all_ok 5 (reap_dead all_ok 4 archived))) = Some (unpack sample_env ''secret'' (blank sample_env))"
proof -
  have ok: "snd (create sample_env all_ok 5 (reap_dead all_ok 4 archived)) = Inr ()"
    by (simp add: create_def sample_env_def reap_dead_def dead_def archived_def nowhere_def all_ok_def setup_net_def prepare_def
        start_warm_def start_cold_def finish_net_def accept_connections_def note_restored_def Let_def)
  obtain l' where l': "create sample_env all_ok 5 (reap_dead all_ok 4 archived) = (l', Inr ())"
    using ok by (metis prod.collapse)
  have node: "at_node (sample_node [(''a'', archived)]) ''a'' = archived" by simp
  from deleted_detached_comes_back [of "(empty_report ''n1'')\<lparr>pr_observed := observe (sample_node [(''a'', archived)])\<rparr>"
      "sample_node [(''a'', archived)]" "''a''" "''secret''" sample_env all_ok 5 all_ok 4 l' None "toy_codec JNull" toy_crypto 3 "one_wanted Detached",
      unfolded node, OF _ _ _ _ l']
  show ?thesis unfolding l' fst_conv by (simp add: archived_def nowhere_def book_ok_def)
qed

end
