(* ===== verification/Placement.thy ===== *)
theory Placement
  imports Reconcile
begin

text \<open>
  Creating sandboxes (\<^verbatim>\<open>create_sandbox\<close>, \<^verbatim>\<open>pick_node\<close>, \<^verbatim>\<open>pick_node_where\<close> of
  \<^verbatim>\<open>master/api.rs\<close>): the request is checked, a place is chosen, every child's node is decided,
  and the rows are written in one transaction. Random ids and tokens are an argument: \<open>fresh k\<close>
  is what \<^verbatim>\<open>random_token\<close> gives the \<open>k\<close>th child, for its id and for its token.
\<close>

record new_sandbox =
  ns_id :: "string option"
  ns_template :: "string option"
  ns_snapshot_tag :: "string option"
  ns_n :: "nat option"
  ns_pool :: "string option"
  ns_node_id :: "string option"
  ns_backend :: "string option"
  ns_volume :: "string option"
  ns_port :: "u16 option"
  ns_memory_limit_mib :: "nat option"
  ns_egress :: "egress option"
  ns_live_fork :: "bool option"
  ns_hugepages :: "bool option"

definition blank_request :: new_sandbox where
  "blank_request = \<lparr>ns_id = None, ns_template = None, ns_snapshot_tag = None, ns_n = None,
     ns_pool = None, ns_node_id = None, ns_backend = None, ns_volume = None, ns_port = None,
     ns_memory_limit_mib = None, ns_egress = None, ns_live_fork = None, ns_hugepages = None\<rparr>"

text \<open>\<^verbatim>\<open>NewSandbox::named\<close>, what the E2B surface creates.\<close>

definition named :: "string \<Rightarrow> string \<Rightarrow> u16 \<Rightarrow> new_sandbox" where
  "named i template port =
     blank_request\<lparr>ns_id := Some i, ns_template := Some template, ns_port := Some port\<rparr>"

datatype place = PlaceNode string | PlacePool string "backend_kind option" | PlaceLike string string

section \<open>Choosing a node\<close>

datatype passed_over = SwitchingTo backend_kind | NotAdmitted refusal | BatchOverCap nat nat

record picking =
  pk_master :: master
  pk_best :: "(node \<times> nat) option"
  pk_refused :: "(string \<times> passed_over) list"

definition extra_of :: "(string \<times> nat) list \<Rightarrow> string \<Rightarrow> nat" where
  "extra_of extra n = (case map_of extra n of Some k \<Rightarrow> k | None \<Rightarrow> 0)"

definition pick_step :: "instant \<Rightarrow> store \<Rightarrow> (string \<times> nat) list \<Rightarrow> nat \<Rightarrow> node \<Rightarrow> picking \<Rightarrow> picking" where
  "pick_step t st extra batch n pk =
     (let (ms, sw) = switching_to t (nd_id n) (pk_master pk);
          pk = pk\<lparr>pk_master := ms\<rparr>;
          load = count_sandboxes_on_node st (nd_id n) + extra_of extra (nd_id n)
      in case sw of
           Some k \<Rightarrow> pk\<lparr>pk_refused := pk_refused pk @ [(nd_id n, SwitchingTo k)]\<rparr>
         | None \<Rightarrow>
             (case refuse (admit ms) n load of
                Some why \<Rightarrow> pk\<lparr>pk_refused := pk_refused pk @ [(nd_id n, NotAdmitted why)]\<rparr>
              | None \<Rightarrow>
                  if 0 < nd_max_sandboxes n \<and> load + batch > nd_max_sandboxes n
                  then pk\<lparr>pk_refused := pk_refused pk @ [(nd_id n, BatchOverCap load batch)]\<rparr>
                  else if (case pk_best pk of None \<Rightarrow> True | Some (_, b) \<Rightarrow> load < b)
                  then pk\<lparr>pk_best := Some (n, load)\<rparr> else pk))"

definition pick_node_where ::
  "instant \<Rightarrow> store \<Rightarrow> (node \<Rightarrow> bool) \<Rightarrow> (string \<times> nat) list \<Rightarrow> nat \<Rightarrow> master \<Rightarrow> master \<times> (api_err + node)" where
  "pick_node_where t st fits extra batch ms =
     (let pk = fold (pick_step t st extra batch) (filter (\<lambda>n. nd_connected n \<and> fits n) (list_nodes st))
                 \<lparr>pk_master = ms, pk_best = None, pk_refused = []\<rparr>
      in (pk_master pk,
          case pk_best pk of
            Some (n, _) \<Rightarrow> Inr n
          | None \<Rightarrow> Inl (err 503 (if pk_refused pk \<noteq> [] then ''every node is too loaded'' else ''no connected node''))))"

definition node_backend :: "store \<Rightarrow> string \<Rightarrow> backend_kind option" where
  "node_backend st n = Option.bind (node_hosts st n) (\<lambda>h. backend_of_engine (engine h))"

definition in_pool :: "store \<Rightarrow> string \<Rightarrow> backend_kind option \<Rightarrow> node \<Rightarrow> bool" where
  "in_pool st pool backend n \<longleftrightarrow>
     (nd_pool n = pool \<or> starts_with (nd_pool n) (pool @ ''#'')) \<and>
     (case backend of None \<Rightarrow> True | Some b \<Rightarrow> node_backend st (nd_id n) = Some b)"

definition pick_node ::
  "instant \<Rightarrow> store \<Rightarrow> string \<Rightarrow> backend_kind option \<Rightarrow> string \<Rightarrow> nat \<Rightarrow> master \<Rightarrow> master \<times> (api_err + node)" where
  "pick_node t st pool backend template count ms =
     (let up = filter (\<lambda>n. nd_connected n \<and> in_pool st pool backend n) (list_nodes st)
      in if up \<noteq> [] \<and> \<not> list_ex (\<lambda>n. can_start ms (nd_id n) template) up
         then (ms, Inl (err 409 ''no node in the pool has the template for its backend''))
         else pick_node_where t st (\<lambda>n. in_pool st pool backend n \<and> can_start ms (nd_id n) template) [] count ms)"

section \<open>Where the children may go\<close>

definition fork_place ::
  "store \<Rightarrow> new_sandbox \<Rightarrow> string \<Rightarrow> api_err + (string \<times> place \<times> u16 option)" where
  "fork_place st req tag =
     (case get_snapshot st tag of
        None \<Rightarrow> Inl (err 404 ''no snapshot'')
      | Some snap \<Rightarrow>
          let tag_fp = snapshot_fingerprint st tag;
              fetchable = agent_node st (st_node_id snap) \<noteq> None;
              ok = (\<lambda>p. Inr (st_template snap, p, st_port snap))
          in case ns_node_id req of
               Some asked \<Rightarrow>
                 if asked = st_node_id snap then ok (PlaceNode asked)
                 else (case (tag_fp, node_fingerprint st asked) of
                         (Some f, Some n) \<Rightarrow>
                           if f \<noteq> n then Inl (err 409 ''a runsc checkpoint is not portable across differing hosts'')
                           else if fetchable then ok (PlaceNode asked)
                           else Inl (err 409 ''no other node can fetch its image'')
                       | _ \<Rightarrow> Inl (err 409 ''the fingerprint of one of them is not recorded''))
             | None \<Rightarrow>
                 (case tag_fp of
                    Some fp \<Rightarrow> if fetchable then ok (PlaceLike fp tag) else ok (PlaceNode (st_node_id snap))
                  | None \<Rightarrow> ok (PlaceNode (st_node_id snap))))"

definition port_of_json :: "json \<Rightarrow> u16 option" where
  "port_of_json v = (case v of JNum p \<Rightarrow> if 0 \<le> p \<and> p < 2 ^ 16 then Some (word_of_int p) else None | _ \<Rightarrow> None)"

definition template_place ::
  "codec \<Rightarrow> master \<Rightarrow> store \<Rightarrow> new_sandbox \<Rightarrow> backend_kind option \<Rightarrow> string
     \<Rightarrow> api_err + (string \<times> place \<times> u16 option)" where
  "template_place cj ms st req backend template =
     (case get_template st template of
        None \<Rightarrow> Inl (err 400 ''unknown template'')
      | Some (_, spec) \<Rightarrow>
          if is_pending cj spec then Inl (err 409 ''template is still being pulled'')
          else
            let image_port = Option.bind (from_str cj spec) (\<lambda>v. port_of_json (json_index v ''port''))
            in case ns_node_id req of
                 Some n \<Rightarrow>
                   if (case backend of None \<Rightarrow> False | Some want \<Rightarrow> node_backend st n \<noteq> Some want)
                   then Inl (err 409 ''node does not run that backend'')
                   else if \<not> can_start ms n template
                   then Inl (err 409 ''node has no such template for its backend'')
                   else Inr (template, PlaceNode n, image_port)
               | None \<Rightarrow> Inr (template, PlacePool (case ns_pool req of Some p \<Rightarrow> p | None \<Rightarrow> ''default'') backend,
                            image_port))"

section \<open>Deciding every child's node\<close>

fun place_like :: "instant \<Rightarrow> store \<Rightarrow> string \<Rightarrow> nat \<Rightarrow> (string \<times> nat) list \<Rightarrow> master
    \<Rightarrow> master \<times> (api_err + (string \<times> string) list)" where
  "place_like t st fp 0 extra ms = (ms, Inr [])"
| "place_like t st fp (Suc k) extra ms =
     (case pick_node_where t st (\<lambda>n. nd_fingerprint n = fp) extra 1 ms of
        (ms1, Inl e) \<Rightarrow> (ms1, Inl e)
      | (ms1, Inr n) \<Rightarrow>
          (case place_like t st fp k (put (nd_id n) (extra_of extra (nd_id n) + 1) extra) ms1 of
             (ms2, Inl e) \<Rightarrow> (ms2, Inl e)
           | (ms2, Inr out) \<Rightarrow> (ms2, Inr ((nd_id n, nd_pool n) # out))))"

definition place_children ::
  "instant \<Rightarrow> store \<Rightarrow> new_sandbox \<Rightarrow> place \<Rightarrow> string \<Rightarrow> nat \<Rightarrow> master
     \<Rightarrow> master \<times> (api_err + (string \<times> string) list)" where
  "place_children t st req place template count ms =
     (case place of
        PlacePool pool backend \<Rightarrow>
          (case pick_node t st pool backend template count ms of
             (ms1, Inl e) \<Rightarrow> (ms1, Inl e)
           | (ms1, Inr n) \<Rightarrow> (ms1, Inr (replicate count (nd_id n, nd_pool n))))
      | PlaceNode n \<Rightarrow>
          let pool = (case find (\<lambda>x. nd_id x = n) (list_nodes st) of
                        Some x \<Rightarrow> nd_pool x
                      | None \<Rightarrow> (case ns_pool req of Some p \<Rightarrow> p | None \<Rightarrow> ''default''))
          in (ms, Inr (replicate count (n, pool)))
      | PlaceLike fp tag \<Rightarrow> place_like t st fp count [] ms)"

section \<open>Writing the rows\<close>

record child_env =
  ce_now :: secs
  ce_ports :: "u16 \<times> u16"
  ce_max_net :: u32
  ce_template :: string
  ce_from_tag :: "string option"
  ce_tag_port :: "u16 option"
  ce_egress :: egress

definition child_row ::
  "child_env \<Rightarrow> new_sandbox \<Rightarrow> string \<times> string \<Rightarrow> string \<times> string \<Rightarrow> u16 option \<Rightarrow> u32 option \<Rightarrow> sandbox" where
  "child_row ce req node_pool ids gateway_port net_index =
     \<lparr>sb_id = (case ns_id req of Some i \<Rightarrow> i | None \<Rightarrow> ''sb-'' @ fst ids),
      sb_node_id = fst node_pool, sb_pool = snd node_pool, sb_template = ce_template ce,
      sb_tier = Hot, sb_token = snd ids, sb_volume = ns_volume req,
      sb_port = Some (case ns_port req of Some p \<Rightarrow> p
                      | None \<Rightarrow> (case ce_tag_port ce of Some p \<Rightarrow> p | None \<Rightarrow> DEFAULT_SANDBOX_PORT)),
      sb_gateway_port = gateway_port, sb_created_at = ce_now ce, sb_last_active_at = ce_now ce,
      sb_last_error = None, sb_error_attempts = 0, sb_net_index = net_index, sb_ip = None,
      sb_from_tag = ce_from_tag ce, sb_memory_limit_mib = ns_memory_limit_mib req,
      sb_egress = ce_egress ce\<rparr>"

definition make_child ::
  "child_env \<Rightarrow> new_sandbox \<Rightarrow> string \<times> string \<Rightarrow> string \<times> string \<Rightarrow> store \<Rightarrow> api_err + (store \<times> sandbox)" where
  "make_child ce req node_pool ids st =
     (let gw = allocate_gateway_port st (fst node_pool) (fst (ce_ports ce)) (snd (ce_ports ce))
      in case allocate_net_index st (fst node_pool) (ce_max_net ce) of
           None \<Rightarrow> Inl (err 503 ''node has no free network slot'')
         | Some i \<Rightarrow>
             let sb = child_row ce req node_pool ids gw (Some i)
             in (case insert_sandbox sb st of
                   Inl (PrimaryKey k) \<Rightarrow> Inl (err 409 k)
                 | Inr st1 \<Rightarrow> Inr (st1, sb)))"

fun make_children ::
  "child_env \<Rightarrow> new_sandbox \<Rightarrow> (nat \<Rightarrow> string \<times> string) \<Rightarrow> nat \<Rightarrow> (string \<times> string) list \<Rightarrow> store
     \<Rightarrow> api_err + (store \<times> sandbox list)" where
  "make_children ce req fresh k [] st = Inr (st, [])"
| "make_children ce req fresh k (np # placed) st =
     (case make_child ce req np (fresh k) st of
        Inl e \<Rightarrow> Inl e
      | Inr (st1, sb) \<Rightarrow>
          (case make_children ce req fresh (Suc k) placed st1 of
             Inl e \<Rightarrow> Inl e
           | Inr (st2, sbs) \<Rightarrow> Inr (st2, sb # sbs)))"

section \<open>The request\<close>

definition source_of :: "new_sandbox \<Rightarrow> api_err + (string \<times> string option)" where
  "source_of req =
     (case (ns_template req, ns_snapshot_tag req) of
        (Some _, Some _) \<Rightarrow> Inl (err 400 ''give either template or snapshot_tag, not both'')
      | (None, None) \<Rightarrow> Inl (err 400 ''one of template or snapshot_tag is required'')
      | (Some tm, None) \<Rightarrow> Inr (tm, None)
      | (None, Some tag) \<Rightarrow> Inr ([], Some tag))"

definition egress_of :: "new_sandbox \<Rightarrow> store \<Rightarrow> api_err + egress" where
  "egress_of req st =
     (case ns_egress req of
        None \<Rightarrow> Inr (default_egress st)
      | Some e \<Rightarrow> (case canonical e of Inl _ \<Rightarrow> Inl (err 400 ''not an egress policy'') | Inr c \<Rightarrow> Inr c))"

definition backend_asked :: "new_sandbox \<Rightarrow> string option \<Rightarrow> api_err + backend_kind option" where
  "backend_asked req from_tag =
     (case ns_backend req of
        None \<Rightarrow> Inr None
      | Some b \<Rightarrow>
          if b = [] then Inr None
          else if from_tag \<noteq> None then Inl (err 400 ''backend is for a template'')
          else (case backend_from_str b of None \<Rightarrow> Inl (err 400 ''unknown backend'') | Some k \<Rightarrow> Inr (Some k)))"

text \<open>The checks before the store is locked: the source, the egress, the count, the backend.\<close>

definition check_request ::
  "new_sandbox \<Rightarrow> store \<Rightarrow> api_err + ((string \<times> string option) \<times> egress \<times> nat \<times> backend_kind option)" where
  "check_request req st =
     (if ns_live_fork req = Some True \<or> ns_hugepages req = Some True
      then Inl (err 410 ''live_fork and hugepages are removed in v0.6'')
      else if (case ns_snapshot_tag req of Some tag \<Rightarrow> \<not> is_safe tag | None \<Rightarrow> False)
      then Inl (err 400 ''snapshot_tag must be a plain name'')
      else case source_of req of
        Inl e \<Rightarrow> Inl e
      | Inr (template, from_tag) \<Rightarrow>
          (case egress_of req st of
             Inl e \<Rightarrow> Inl e
           | Inr egress \<Rightarrow>
               let count = (case ns_n req of Some n \<Rightarrow> n | None \<Rightarrow> 1) in
               if count = 0 then Inl (err 400 ''n must be at least 1'')
               else if count > MAX_FORK_WIDTH then Inl (err 400 ''n is too large'')
               else if ns_id req \<noteq> None \<and> count > 1 then Inl (err 400 ''id cannot be given with n > 1'')
               else if (case ns_id req of Some i \<Rightarrow> starts_with i WARM_SEED_PREFIX | None \<Rightarrow> False)
               then Inl (err 400 ''ids starting with that prefix are reserved'')
               else (case backend_asked req from_tag of
                       Inl e \<Rightarrow> Inl e
                     | Inr backend \<Rightarrow> Inr ((template, from_tag), egress, count, backend))))"

definition create_sandbox ::
  "codec \<Rightarrow> (nat \<Rightarrow> string \<times> string) \<Rightarrow> secs \<Rightarrow> instant \<Rightarrow> new_sandbox \<Rightarrow> master
     \<Rightarrow> master \<times> (api_err + sandbox list)" where
  "create_sandbox cj fresh now t req ms =
     (let st = m_store ms in
      case check_request req st of
        Inl e \<Rightarrow> (ms, Inl e)
      | Inr ((template, from_tag), egress, count, backend) \<Rightarrow>
          (case (case from_tag of
                   Some tag \<Rightarrow> fork_place st req tag
                 | None \<Rightarrow> template_place cj ms st req backend template) of
             Inl e \<Rightarrow> (ms, Inl e)
           | Inr (template, place, tag_port) \<Rightarrow>
               (case place_children t st req place template count ms of
                  (ms1, Inl e) \<Rightarrow> (ms1, Inl e)
                | (ms1, Inr placed) \<Rightarrow>
                    let ce = \<lparr>ce_now = now, ce_ports = port_range ms, ce_max_net = max_net_index ms,
                              ce_template = template, ce_from_tag = from_tag, ce_tag_port = tag_port,
                              ce_egress = egress\<rparr>
                    in (case make_children ce req fresh 0 placed st of
                          Inl e \<Rightarrow> (ms1, Inl e)
                        | Inr (st2, sbs) \<Rightarrow>
                            (fold wake_node (remdups (sort (map fst placed))) (ms1\<lparr>m_store := st2\<rparr>), Inr sbs)))))"

section \<open>The node that is picked\<close>

definition load_of :: "store \<Rightarrow> (string \<times> nat) list \<Rightarrow> string \<Rightarrow> nat" where
  "load_of st extra n = count_sandboxes_on_node st n + extra_of extra n"

text \<open>A node that may take a batch: not switching backends, admitted, and within its cap.\<close>

definition takes_batch :: "instant \<Rightarrow> store \<Rightarrow> (string \<times> nat) list \<Rightarrow> nat \<Rightarrow> master \<Rightarrow> node \<Rightarrow> bool" where
  "takes_batch t st extra batch ms n \<longleftrightarrow>
     snd (switching_to t (nd_id n) ms) = None \<and>
     refuse (admit ms) n (load_of st extra (nd_id n)) = None \<and>
     (nd_max_sandboxes n = 0 \<or> load_of st extra (nd_id n) + batch \<le> nd_max_sandboxes n)"

definition better :: "(node \<Rightarrow> nat) \<Rightarrow> node \<Rightarrow> (node \<times> nat) option \<Rightarrow> (node \<times> nat) option" where
  "better ld n best = (if (case best of None \<Rightarrow> True | Some (_, b) \<Rightarrow> ld n < b) then Some (n, ld n) else best)"

definition same_switching :: "instant \<Rightarrow> master \<Rightarrow> master \<Rightarrow> bool" where
  "same_switching t ms ms' \<longleftrightarrow>
     (\<forall>i. snd (switching_to t i ms') = snd (switching_to t i ms)) \<and>
     ms'\<lparr>switching := []\<rparr> = ms\<lparr>switching := []\<rparr>"

lemma keep_keep: "keep P (keep P b) = keep P b"
  by (simp add: keep_def)

lemma same_switching_to: "same_switching t ms (fst (switching_to t n ms))"
  by (simp add: same_switching_def switching_to_def expire_switching_def keep_keep)

lemma same_switching_refl [simp]: "same_switching t ms ms"
  by (simp add: same_switching_def)

lemma same_switching_trans: "same_switching t a b \<Longrightarrow> same_switching t b c \<Longrightarrow> same_switching t a c"
  by (simp add: same_switching_def)

lemma same_switching_fields:
  assumes "same_switching t ms ms'"
  shows "admit ms' = admit ms" "m_store ms' = m_store ms" "node_templates ms' = node_templates ms"
    "port_range ms' = port_range ms" "max_net_index ms' = max_net_index ms"
  using assms by (cases ms; cases ms'; simp add: same_switching_def)+

lemma takes_batch_same: "same_switching t ms ms' \<Longrightarrow> takes_batch t st extra batch ms' n = takes_batch t st extra batch ms n"
  using same_switching_fields(1) [of t ms ms'] by (simp add: takes_batch_def same_switching_def)

lemma pick_step_best:
  "pk_best (pick_step t st extra batch n pk) =
     (if takes_batch t st extra batch (pk_master pk) n
      then better (\<lambda>n. load_of st extra (nd_id n)) n (pk_best pk) else pk_best pk)"
  "same_switching t (pk_master pk) (pk_master (pick_step t st extra batch n pk))"
proof -
  obtain ms sw where sw: "switching_to t (nd_id n) (pk_master pk) = (ms, sw)"
    by (cases "switching_to t (nd_id n) (pk_master pk)")
  then have same: "same_switching t (pk_master pk) ms" using same_switching_to by (metis fst_conv)
  have a: "admit ms = admit (pk_master pk)" by (rule same_switching_fields(1) [OF same])
  show "pk_best (pick_step t st extra batch n pk) =
     (if takes_batch t st extra batch (pk_master pk) n
      then better (\<lambda>n. load_of st extra (nd_id n)) n (pk_best pk) else pk_best pk)"
    by (auto simp: pick_step_def sw Let_def takes_batch_def load_of_def a better_def split: option.split)
  show "same_switching t (pk_master pk) (pk_master (pick_step t st extra batch n pk))"
    by (simp add: pick_step_def sw Let_def same split: option.split)
qed

lemma pick_fold:
  "pk_best (fold (pick_step t st extra batch) ns pk) =
     fold (better (\<lambda>n. load_of st extra (nd_id n))) (filter (takes_batch t st extra batch (pk_master pk)) ns) (pk_best pk)
   \<and> same_switching t (pk_master pk) (pk_master (fold (pick_step t st extra batch) ns pk))"
proof (induction ns arbitrary: pk)
  case (Cons n ns)
  have same: "same_switching t (pk_master pk) (pk_master (pick_step t st extra batch n pk))"
    by (rule pick_step_best(2))
  have "takes_batch t st extra batch (pk_master (pick_step t st extra batch n pk)) =
      takes_batch t st extra batch (pk_master pk)"
    by (rule ext) (rule takes_batch_same [OF same])
  then show ?case
    using Cons.IH [of "pick_step t st extra batch n pk"] same
    by (auto simp: pick_step_best(1) intro: same_switching_trans)
qed simp

lemma better_cases:
  assumes "\<And>b l. best = Some (b, l) \<Longrightarrow> l = ld b"
  obtains c where "better ld n best = Some (c, ld c)" "c = n \<or> best = Some (c, ld c)" "ld c \<le> ld n"
    "\<And>b l. best = Some (b, l) \<Longrightarrow> ld c \<le> l"
proof (cases "case best of None \<Rightarrow> True | Some (_, b) \<Rightarrow> ld n < b")
  case True
  show ?thesis by (rule that [of n]) (use True in \<open>auto simp: better_def\<close>)
next
  case False
  then obtain b l where "best = Some (b, l)" by (cases best) auto
  with assms False show ?thesis by (intro that [of b]) (auto simp: better_def)
qed

lemma better_fold_min:
  assumes "\<And>b l. best = Some (b, l) \<Longrightarrow> l = ld b"
  shows "case fold (better ld) ns best of
      None \<Rightarrow> best = None \<and> ns = []
    | Some (b, l) \<Rightarrow> l = ld b \<and> (b \<in> set ns \<or> best = Some (b, l)) \<and> (\<forall>n \<in> set ns. ld b \<le> ld n)
        \<and> (\<forall>b' l'. best = Some (b', l') \<longrightarrow> ld b \<le> l')"
  using assms
proof (induction ns arbitrary: best)
  case Nil
  then show ?case by (cases best) auto
next
  case (Cons n ns)
  obtain c where c: "better ld n best = Some (c, ld c)" "c = n \<or> best = Some (c, ld c)" "ld c \<le> ld n"
    "\<And>b l. best = Some (b, l) \<Longrightarrow> ld c \<le> l"
    by (rule better_cases [OF Cons.prems]) blast+
  have IH: "case fold (better ld) ns (Some (c, ld c)) of
      None \<Rightarrow> False
    | Some (b, l) \<Rightarrow> l = ld b \<and> (b \<in> set ns \<or> b = c) \<and> (\<forall>n \<in> set ns. ld b \<le> ld n) \<and> ld b \<le> ld c"
    using Cons.IH [of "Some (c, ld c)"] by (auto split: option.splits)
  then obtain b where b: "fold (better ld) ns (Some (c, ld c)) = Some (b, ld b)" "b \<in> set ns \<or> b = c"
    "\<forall>n \<in> set ns. ld b \<le> ld n" "ld b \<le> ld c" by (auto split: option.splits)
  have "\<forall>b' l'. best = Some (b', l') \<longrightarrow> ld b \<le> l'" using b(4) c(4) le_trans by blast
  moreover have "b \<in> set (n # ns) \<or> best = Some (b, ld b)" using b(2) c(2) by auto
  moreover have "\<forall>m \<in> set (n # ns). ld b \<le> ld m" using b(3,4) c(3) by auto
  ultimately show ?case using b(1) c(1) by simp
qed

lemma pick_node_where_cases:
  assumes "pick_node_where t st fits extra batch ms = (ms', r)"
  shows "same_switching t ms ms' \<and>
    (case r of
       Inr n \<Rightarrow> n \<in> set (list_nodes st) \<and> nd_connected n \<and> fits n \<and> takes_batch t st extra batch ms n \<and>
         (\<forall>m \<in> set (list_nodes st). nd_connected m \<longrightarrow> fits m \<longrightarrow> takes_batch t st extra batch ms m \<longrightarrow>
            load_of st extra (nd_id n) \<le> load_of st extra (nd_id m))
     | Inl e \<Rightarrow> ae_status e = 503 \<and>
         (\<forall>m \<in> set (list_nodes st). nd_connected m \<longrightarrow> fits m \<longrightarrow> \<not> takes_batch t st extra batch ms m))"
proof -
  let ?ns = "filter (\<lambda>n. nd_connected n \<and> fits n) (list_nodes st)"
  let ?pk = "\<lparr>pk_master = ms, pk_best = None, pk_refused = []\<rparr>"
  let ?ok = "filter (takes_batch t st extra batch ms) ?ns"
  have f: "pk_best (fold (pick_step t st extra batch) ?ns ?pk) =
      fold (better (\<lambda>n. load_of st extra (nd_id n))) ?ok None"
    "same_switching t ms (pk_master (fold (pick_step t st extra batch) ?ns ?pk))"
    using pick_fold [of t st extra batch ?ns ?pk] by simp_all
  note m = better_fold_min [of None "\<lambda>n. load_of st extra (nd_id n)" ?ok]
  show ?thesis
    using assms m f
    by (cases "fold (better (\<lambda>n. load_of st extra (nd_id n))) ?ok None")
      (auto simp: pick_node_where_def Let_def err_def filter_empty_conv)
qed

section \<open>The rows that are written\<close>

lemma child_row_fresh:
  "(child_row ce req np ids gw ni)\<lparr>sb_last_error := None, sb_error_attempts := 0, sb_ip := None\<rparr>
     = child_row ce req np ids gw ni"
  by (simp add: child_row_def)

lemma child_row_fields [simp]:
  "sb_node_id (child_row ce req np ids gw ni) = fst np" "sb_pool (child_row ce req np ids gw ni) = snd np"
  "sb_tier (child_row ce req np ids gw ni) = Hot" "sb_gateway_port (child_row ce req np ids gw ni) = gw"
  "sb_net_index (child_row ce req np ids gw ni) = ni" "sb_template (child_row ce req np ids gw ni) = ce_template ce"
  "sb_id (child_row ce req np ids gw ni) = (case ns_id req of Some i \<Rightarrow> i | None \<Rightarrow> ''sb-'' @ fst ids)"
  by (simp_all add: child_row_def)

lemma make_child_Inr:
  assumes "make_child ce req np ids st = Inr (st', sb)"
  shows "st' = st\<lparr>sandboxes := sandboxes st @ [sb]\<rparr>" "insert_sandbox sb st = Inr st'"
    "sb_node_id sb = fst np" "sb_pool sb = snd np" "sb_tier sb = Hot"
    "sb_gateway_port sb = allocate_gateway_port st (fst np) (fst (ce_ports ce)) (snd (ce_ports ce))"
    "sb_net_index sb = allocate_net_index st (fst np) (ce_max_net ce)" "sb_net_index sb \<noteq> None"
    "sb_id sb \<notin> sb_id ` set (sandboxes st)"
  using assms
  by (auto simp: make_child_def insert_sandbox_def child_row_fresh Let_def
      split: option.splits sum.splits store_error.splits if_splits)

lemma make_children_Inr:
  assumes "make_children ce req fresh k placed st = Inr (st', sbs)" "distinct (map sb_id (sandboxes st))"
  shows "st' = st\<lparr>sandboxes := sandboxes st @ sbs\<rparr> \<and> map (\<lambda>s. (sb_node_id s, sb_pool s)) sbs = placed \<and>
    list_all (\<lambda>s. sb_tier s = Hot \<and> sb_net_index s \<noteq> None) sbs \<and> distinct (map sb_id (sandboxes st'))"
  using assms
proof (induction ce req fresh k placed st arbitrary: st' sbs rule: make_children.induct)
  case (2 ce req fresh k np placed st)
  then obtain st1 sb sbs1 where m: "make_child ce req np (fresh k) st = Inr (st1, sb)"
    "make_children ce req fresh (Suc k) placed st1 = Inr (st', sbs1)" "sbs = sb # sbs1"
    by (auto split: sum.splits)
  note mc = make_child_Inr [OF m(1)]
  have "distinct (map sb_id (sandboxes st1))" using 2(3) mc(1,9) by auto
  note IH = "2.IH" [OF m(1) refl m(2) this]
  have "distinct (map sb_id (sandboxes st'))" using IH by blast
  moreover have "st' = st\<lparr>sandboxes := sandboxes st @ sbs\<rparr>" using IH mc(1) m(3) by simp
  moreover have "map (\<lambda>s. (sb_node_id s, sb_pool s)) sbs = np # placed"
    using IH mc(3,4) m(3) by (cases np) simp
  moreover have "list_all (\<lambda>s. sb_tier s = Hot \<and> sb_net_index s \<noteq> None) sbs"
    using IH mc(5,8) m(3) by simp
  ultimately show ?case by blast
qed simp

lemma make_children_slots:
  assumes "make_children ce req fresh k placed st = Inr (st', sbs)"
    and "slots_unique sb_net_index sb_node_id (sandboxes st)"
    and "slots_unique sb_gateway_port sb_node_id (sandboxes st)"
  shows "slots_unique sb_net_index sb_node_id (sandboxes st') \<and>
    slots_unique sb_gateway_port sb_node_id (sandboxes st')"
  using assms
proof (induction ce req fresh k placed st arbitrary: st' sbs rule: make_children.induct)
  case (2 ce req fresh k np placed st)
  then obtain st1 sb sbs1 where m: "make_child ce req np (fresh k) st = Inr (st1, sb)"
    "make_children ce req fresh (Suc k) placed st1 = Inr (st', sbs1)"
    by (auto split: sum.splits)
  note mc = make_child_Inr [OF m(1)]
  have "slots_unique sb_net_index sb_node_id (sandboxes st1)"
    by (rule ni.add_keeps_unique [where mx = "ce_max_net ce", OF 2(3) _ mc(2)]) (simp add: mc)
  moreover have "slots_unique sb_gateway_port sb_node_id (sandboxes st1)"
    by (rule gw.add_keeps_unique [where lo = "fst (ce_ports ce)" and hi = "snd (ce_ports ce)", OF 2(4) _ mc(2)])
      (simp add: mc)
  ultimately show ?case using "2.IH" [OF m(1) refl m(2)] by blast
qed simp

lemma place_like_store: "place_like t st fp k extra ms = (ms', r) \<Longrightarrow> same_switching t ms ms'"
proof (induction k arbitrary: extra ms ms' r)
  case (Suc k)
  obtain ms1 r1 where p: "pick_node_where t st (\<lambda>n. nd_fingerprint n = fp) extra 1 ms = (ms1, r1)" by fastforce
  then have same: "same_switching t ms ms1" using pick_node_where_cases by blast
  show ?case
  proof (cases r1)
    case (Inl e)
    with p Suc.prems same show ?thesis by simp
  next
    case (Inr n)
    obtain ms2 r2 where l: "place_like t st fp k (put (nd_id n) (extra_of extra (nd_id n) + 1) extra) ms1 = (ms2, r2)"
      by fastforce
    from Suc.prems p Inr l have "ms' = ms2" by (auto split: sum.splits)
    with Suc.IH [OF l] same show ?thesis by (auto intro: same_switching_trans)
  qed
qed simp

lemma place_children_store:
  assumes "place_children t st req place template count ms = (ms', r)"
  shows "same_switching t ms ms'"
  using assms
  by (cases place)
    (auto simp: place_children_def pick_node_def Let_def split: prod.splits sum.splits if_splits
      dest!: pick_node_where_cases dest: place_like_store)

lemma place_like_length: "place_like t st fp k extra ms = (ms', Inr out) \<Longrightarrow> length out = k"
  by (induction k arbitrary: extra ms ms' out) (auto split: prod.splits sum.splits)

lemma place_children_length:
  "place_children t st req place template count ms = (ms', Inr out) \<Longrightarrow> length out = count"
  by (cases place) (auto simp: place_children_def Let_def split: prod.splits sum.splits dest: place_like_length)

lemma wake_store: "m_store (fold wake_node ns ms) = m_store ms"
  by (induction ns arbitrary: ms) (simp_all add: frame_simps)

text \<open>A create that succeeds took these steps.\<close>

lemma create_Inr:
  assumes "create_sandbox cj fresh now t req ms = (ms', Inr sbs)"
  obtains template from_tag egress count backend tm place tag_port ms1 placed ce
  where "check_request req (m_store ms) = Inr ((template, from_tag), egress, count, backend)"
    and "(case from_tag of Some tag \<Rightarrow> fork_place (m_store ms) req tag
          | None \<Rightarrow> template_place cj ms (m_store ms) req backend template) = Inr (tm, place, tag_port)"
    and "place_children t (m_store ms) req place tm count ms = (ms1, Inr placed)"
    and "make_children ce req fresh 0 placed (m_store ms) = Inr (m_store ms', sbs)"
    and "ce = \<lparr>ce_now = now, ce_ports = port_range ms, ce_max_net = max_net_index ms, ce_template = tm,
               ce_from_tag = from_tag, ce_tag_port = tag_port, ce_egress = egress\<rparr>"
  using assms
  by (auto simp: create_sandbox_def Let_def wake_store split: sum.splits prod.splits)

lemma create_Inl:
  assumes "create_sandbox cj fresh now t req ms = (ms', Inl e)"
  shows "m_store ms' = m_store ms"
  using assms
  by (auto simp: create_sandbox_def Let_def split: sum.splits prod.splits
      dest!: place_children_store dest: same_switching_fields(2))

lemma check_count:
  "check_request req st = Inr (src, egress, count, backend) \<Longrightarrow>
   count = (case ns_n req of Some n \<Rightarrow> n | None \<Rightarrow> 1) \<and> 1 \<le> count \<and> count \<le> MAX_FORK_WIDTH"
  by (auto simp: check_request_def Let_def split: sum.splits prod.splits if_splits option.splits)

section \<open>Caps\<close>

lemma extra_of_put: "extra_of (put n k extra) m = (if m = n then k else extra_of extra m)"
  by (simp add: extra_of_def)

lemma place_like_cap:
  assumes "place_like t st fp k extra ms = (ms', Inr out)" "distinct_ids st" "m \<in> set (list_nodes st)"
    and "0 < nd_max_sandboxes m" "nd_id m \<in> fst ` set out"
  shows "load_of st extra (nd_id m) + count_list (map fst out) (nd_id m) \<le> nd_max_sandboxes m"
  using assms(1,5)
proof (induction k arbitrary: extra ms ms' out)
  case (Suc k)
  then obtain ms1 n ms2 out1 where p: "pick_node_where t st (\<lambda>n. nd_fingerprint n = fp) extra 1 ms = (ms1, Inr n)"
    and l: "place_like t st fp k (put (nd_id n) (extra_of extra (nd_id n) + 1) extra) ms1 = (ms2, Inr out1)"
    and out: "out = (nd_id n, nd_pool n) # out1"
    by (auto split: prod.splits sum.splits)
  have n: "n \<in> set (list_nodes st)" "takes_batch t st extra 1 ms n"
    using pick_node_where_cases [OF p] by auto
  have load: "load_of st (put (nd_id n) (extra_of extra (nd_id n) + 1) extra) (nd_id m) =
      load_of st extra (nd_id m) + (if nd_id m = nd_id n then 1 else 0)"
    by (simp add: load_of_def extra_of_put)
  show ?case
  proof (cases "nd_id m \<in> fst ` set out1")
    case True
    from Suc.IH [OF l True] load show ?thesis by (auto simp: out split: if_splits)
  next
    case False
    with Suc.prems(2) out have "nd_id m = nd_id n" by auto
    then have "m = n" using list_nodes_same_id [OF assms(2,3) n(1)] by simp
    with n(2) assms(4) False show ?thesis
      by (auto simp: out takes_batch_def count_notin)
  qed
qed simp

lemma count_after:
  "sandboxes st' = sandboxes st @ sbs \<Longrightarrow>
   count_sandboxes_on_node st' i = count_sandboxes_on_node st i + count_list (map sb_node_id sbs) i"
proof -
  have "length (filter (\<lambda>s. sb_node_id s = i) xs) = count_list (map sb_node_id xs) i" for xs :: "sandbox list"
    by (induction xs) auto
  then show "sandboxes st' = sandboxes st @ sbs \<Longrightarrow> ?thesis"
    by (simp add: count_sandboxes_on_node_def changed_def)
qed

lemma place_children_cap:
  assumes "place_children t st req place template count ms = (ms1, Inr placed)" "distinct_ids st"
    and "\<And>n. place \<noteq> PlaceNode n"
    and "m \<in> set (list_nodes st)" "0 < nd_max_sandboxes m" "nd_id m \<in> fst ` set placed"
  shows "count_sandboxes_on_node st (nd_id m) + count_list (map fst placed) (nd_id m) \<le> nd_max_sandboxes m"
proof (cases place)
  case (PlaceNode n)
  with assms(3) show ?thesis by blast
next
  case (PlaceLike fp tag)
  with assms(1) place_like_cap [OF _ assms(2,4,5,6)] show ?thesis
    by (fastforce simp: place_children_def load_of_def extra_of_def)
next
  case (PlacePool pool backend)
  with assms(1) obtain n where n: "pick_node t st pool backend template count ms = (ms1, Inr n)"
    "placed = replicate count (nd_id n, nd_pool n)"
    by (auto simp: place_children_def split: prod.splits sum.splits)
  then have "pick_node_where t st (\<lambda>n. in_pool st pool backend n \<and> can_start ms (nd_id n) template) [] count ms = (ms1, Inr n)"
    by (auto simp: pick_node_def Let_def split: if_splits)
  from pick_node_where_cases [OF this] have p: "n \<in> set (list_nodes st)" "takes_batch t st [] count ms n"
    by auto
  have "nd_id m = nd_id n" using assms(6) n(2) by auto
  then have "m = n" using list_nodes_same_id [OF assms(2,4) p(1)] by simp
  moreover have "count_list (map fst (replicate k (nd_id n, nd_pool n))) (nd_id n) = k" for k
    by (induction k) simp_all
  ultimately show ?thesis
    using p(2) assms(5) n(2) by (simp add: takes_batch_def load_of_def extra_of_def)
qed

section \<open>Properties\<close>

text \<open>
  A create is all or nothing: one that is refused, at whatever point, leaves the database
  as it was; one that is accepted adds exactly as many rows as were asked for, at most
  \<^verbatim>\<open>MAX_FORK_WIDTH\<close>, all Hot and each with a network slot, and writes nothing else.
\<close>

theorem create_all_or_nothing:
  assumes "create_sandbox cj fresh now t req ms = (ms', r)" "distinct (map sb_id (sandboxes (m_store ms)))"
  shows "case r of
      Inl e \<Rightarrow> m_store ms' = m_store ms
    | Inr sbs \<Rightarrow>
        m_store ms' = (m_store ms)\<lparr>sandboxes := sandboxes (m_store ms) @ sbs\<rparr> \<and>
        length sbs = (case ns_n req of Some n \<Rightarrow> n | None \<Rightarrow> 1) \<and> 1 \<le> length sbs \<and> length sbs \<le> MAX_FORK_WIDTH \<and>
        list_all (\<lambda>s. sb_tier s = Hot \<and> sb_net_index s \<noteq> None) sbs \<and>
        distinct (map sb_id (sandboxes (m_store ms')))"
proof (cases r)
  case (Inl e)
  with assms(1) create_Inl show ?thesis by fastforce
next
  case (Inr sbs)
  with assms(1) obtain template from_tag egress count backend tm place tag_port ms1 placed ce
    where c: "check_request req (m_store ms) = Inr ((template, from_tag), egress, count, backend)"
      "place_children t (m_store ms) req place tm count ms = (ms1, Inr placed)"
      "make_children ce req fresh 0 placed (m_store ms) = Inr (m_store ms', sbs)"
    by (auto elim: create_Inr)
  note made = make_children_Inr [OF c(3) assms(2)]
  have "length sbs = count"
    using made place_children_length [OF c(2)] by (metis length_map)
  with check_count [OF c(1)] have "length sbs = (case ns_n req of Some n \<Rightarrow> n | None \<Rightarrow> 1)"
    "1 \<le> length sbs" "length sbs \<le> MAX_FORK_WIDTH" by simp_all
  with made show ?thesis unfolding Inr sum.case by blast
qed

text \<open>
  The address plan is never handed out twice: if no two sandboxes of a node share a
  network slot, and none a gateway port, that still holds after a create, for every node and
  however many children it made.
\<close>

theorem create_keeps_slots_unique:
  assumes "create_sandbox cj fresh now t req ms = (ms', r)"
    and "slots_unique sb_net_index sb_node_id (sandboxes (m_store ms))"
    and "slots_unique sb_gateway_port sb_node_id (sandboxes (m_store ms))"
  shows "slots_unique sb_net_index sb_node_id (sandboxes (m_store ms')) \<and>
    slots_unique sb_gateway_port sb_node_id (sandboxes (m_store ms'))"
proof (cases r)
  case (Inl e)
  with assms create_Inl show ?thesis by fastforce
next
  case (Inr sbs)
  with assms(1) obtain placed ce
    where "make_children ce req fresh 0 placed (m_store ms) = Inr (m_store ms', sbs)"
    by (auto elim: create_Inr)
  from make_children_slots [OF this assms(2,3)] show ?thesis .
qed

text \<open>
  C10. The scheduler never takes a node over its cap: a template started without naming a node
  leaves every node that got a child with at most \<^verbatim>\<open>max_sandboxes\<close> sandboxes, counting all the
  children of the request.
\<close>

theorem create_respects_caps:
  assumes "create_sandbox cj fresh now t req ms = (ms', Inr sbs)"
    and "distinct (map sb_id (sandboxes (m_store ms)))" "distinct_ids (m_store ms)"
    and "ns_template req \<noteq> None" "ns_node_id req = None"
    and "n \<in> set (list_nodes (m_store ms))" "0 < nd_max_sandboxes n" "nd_id n \<in> sb_node_id ` set sbs"
  shows "count_sandboxes_on_node (m_store ms') (nd_id n) \<le> nd_max_sandboxes n"
proof -
  from assms(1) obtain template from_tag egress count backend tm place tag_port ms1 placed ce
    where c: "check_request req (m_store ms) = Inr ((template, from_tag), egress, count, backend)"
      "(case from_tag of Some tag \<Rightarrow> fork_place (m_store ms) req tag
        | None \<Rightarrow> template_place cj ms (m_store ms) req backend template) = Inr (tm, place, tag_port)"
      "place_children t (m_store ms) req place tm count ms = (ms1, Inr placed)"
      "make_children ce req fresh 0 placed (m_store ms) = Inr (m_store ms', sbs)"
    by (auto elim: create_Inr)
  have "from_tag = None"
    using c(1) assms(4) by (auto simp: check_request_def source_of_def Let_def split: sum.splits option.splits prod.splits if_splits)
  with c(2) have "template_place cj ms (m_store ms) req backend template = Inr (tm, place, tag_port)" by simp
  then have "place \<noteq> PlaceNode x" for x
    using assms(5) by (auto simp: template_place_def split: option.splits if_splits)
  note cap = place_children_cap [OF c(3) assms(3) this assms(6,7)]
  note made = make_children_Inr [OF c(4) assms(2)]
  have nodes: "map sb_node_id sbs = map fst placed"
    using arg_cong [of _ _ "map fst", OF made [THEN conjunct2, THEN conjunct1]] by (simp add: comp_def)
  moreover have "nd_id n \<in> fst ` set placed"
    using assms(8) arg_cong [OF nodes, of set] by simp
  moreover have "sandboxes (m_store ms') = sandboxes (m_store ms) @ sbs" using made by simp
  ultimately show ?thesis using cap count_after by simp
qed

text \<open>
  C24. The node a create picks is the best there is: it is connected, acceptable, not restarting
  onto another backend, admitted by memory, pressure and cap with room for the whole batch, and
  no other such node carries less; and a refusal means that no node qualified.
\<close>

theorem pick_node_where_best:
  "case pick_node_where t st fits extra batch ms of (ms', r) \<Rightarrow>
     m_store ms' = m_store ms \<and>
     (let candidates = filter (\<lambda>m. nd_connected m \<and> fits m \<and> takes_batch t st extra batch ms m) (list_nodes st)
      in case r of
           Inr n \<Rightarrow> n \<in> set candidates \<and>
             list_all (\<lambda>m. load_of st extra (nd_id n) \<le> load_of st extra (nd_id m)) candidates
         | Inl e \<Rightarrow> candidates = [] \<and> ae_status e = 503)"
proof (cases "pick_node_where t st fits extra batch ms")
  case (Pair ms' r)
  from pick_node_where_cases [OF Pair] same_switching_fields(2) [of t ms ms'] Pair show ?thesis
    by (auto simp: Let_def filter_empty_conv list_all_iff split: sum.splits)
qed

lemma create_on_named_node:
  assumes "ns_template req = Some tm" "ns_snapshot_tag req = None" "ns_node_id req = Some n"
    and "ns_n req = None" "ns_backend req = None" "ns_egress req = None" "ns_live_fork req = None" "ns_hugepages req = None"
    and "ns_id req = Some i" "\<not> starts_with i WARM_SEED_PREFIX"
    and "get_template (m_store ms) tm = Some (rf, spec)" "\<not> is_pending cj spec" "can_start ms n tm"
    and "allocate_net_index (m_store ms) n (max_net_index ms) = Some ix"
    and "i \<notin> sb_id ` set (sandboxes (m_store ms))"
  shows "\<exists>ms' sb. create_sandbox cj fresh now t req ms = (ms', Inr [sb]) \<and> sb_id sb = i \<and> sb_node_id sb = n
    \<and> sandboxes (m_store ms') = sandboxes (m_store ms) @ [sb]"
proof -
  have check: "check_request req (m_store ms) = Inr ((tm, None), default_egress (m_store ms), 1, None)"
    using assms(1-10) by (simp add: check_request_def source_of_def egress_of_def backend_asked_def Let_def MAX_FORK_WIDTH_def)
  obtain port where tp: "template_place cj ms (m_store ms) req None tm = Inr (tm, PlaceNode n, port)"
    using assms(3,11-13) by (simp add: template_place_def Let_def)
  obtain pool where pl: "place_children t (m_store ms) req (PlaceNode n) tm 1 ms = (ms, Inr [(n, pool)])"
    by (simp add: place_children_def Let_def)
  define ce where "ce = \<lparr>ce_now = now, ce_ports = port_range ms, ce_max_net = max_net_index ms,
      ce_template = tm, ce_from_tag = None, ce_tag_port = port, ce_egress = default_egress (m_store ms)\<rparr>"
  define gw where "gw = allocate_gateway_port (m_store ms) n (fst (ce_ports ce)) (snd (ce_ports ce))"
  define sb where "sb = child_row ce req (n, pool) (fresh 0) gw (Some ix)"
  have ins: "insert_sandbox sb (m_store ms) = Inr ((m_store ms)\<lparr>sandboxes := sandboxes (m_store ms) @ [sb]\<rparr>)"
    using assms(9,15) by (simp add: insert_sandbox_def sb_def child_row_fresh)
  have "ce_max_net ce = max_net_index ms" by (simp add: ce_def)
  then have "make_child ce req (n, pool) (fresh 0) (m_store ms) =
      Inr ((m_store ms)\<lparr>sandboxes := sandboxes (m_store ms) @ [sb]\<rparr>, sb)"
    unfolding make_child_def Let_def fst_conv gw_def [symmetric]
    by (simp only: assms(14) option.case sb_def [symmetric] ins sum.case)
  then have mc: "make_children ce req fresh 0 [(n, pool)] (m_store ms) =
      Inr ((m_store ms)\<lparr>sandboxes := sandboxes (m_store ms) @ [sb]\<rparr>, [sb])"
    by simp
  have "sb_id sb = i" "sb_node_id sb = n" using assms(9) by (simp_all add: sb_def)
  then show ?thesis
    by (simp add: create_sandbox_def Let_def check tp pl ce_def [symmetric] mc wake_store frame_simps
        del: One_nat_def make_children.simps)
qed

text \<open>
  A create that names its node is not kept off a node that is restarting onto another
  backend, nor off one the scheduler would refuse: it succeeds there whatever the switch under
  way and whatever the node's row says, cap included.
\<close>

theorem named_node_bypasses_switch_and_admission:
  assumes "ns_template req = Some tm" "ns_snapshot_tag req = None" "ns_node_id req = Some n"
    and "ns_n req = None" "ns_backend req = None" "ns_egress req = None" "ns_live_fork req = None" "ns_hugepages req = None"
    and "ns_id req = Some i" "\<not> starts_with i WARM_SEED_PREFIX"
    and "get_template (m_store ms) tm = Some (rf, spec)" "\<not> is_pending cj spec" "can_start ms n tm"
    and "allocate_net_index (m_store ms) n (max_net_index ms) = Some ix"
    and "i \<notin> sb_id ` set (sandboxes (m_store ms))"
    and "snd (switching_to t n ms) = Some k" "nd \<in> set (nodes (m_store ms))" "nd_id nd = n" "nd_revoked nd"
  shows "\<exists>ms' sb. create_sandbox cj fresh now t req ms = (ms', Inr [sb]) \<and> sb_node_id sb = n
    \<and> \<not> takes_batch t (m_store ms) [] 1 ms (node.truncate nd)"
  using create_on_named_node [OF assms(1-15), of fresh now t] assms(16,18)
  by (auto simp: takes_batch_def node.defs)

text \<open>
  The id a caller chooses is not held to a plain name: any id the store does not have yet
  and that lacks the reserved prefix is accepted, though a tag or a template of that name would
  be refused, and becomes the id the node is told.
\<close>

theorem unsafe_sandbox_id_accepted:
  assumes "ns_template req = Some tm" "ns_snapshot_tag req = None" "ns_node_id req = Some n"
    and "ns_n req = None" "ns_backend req = None" "ns_egress req = None" "ns_live_fork req = None" "ns_hugepages req = None"
    and "ns_id req = Some ''../../etc''"
    and "get_template (m_store ms) tm = Some (rf, spec)" "\<not> is_pending cj spec" "can_start ms n tm"
    and "allocate_net_index (m_store ms) n (max_net_index ms) = Some ix"
    and "''../../etc'' \<notin> sb_id ` set (sandboxes (m_store ms))"
  shows "\<exists>ms' sb. create_sandbox cj fresh now t req ms = (ms', Inr [sb]) \<and> sb_id sb = ''../../etc''
    \<and> get_sandbox (m_store ms') ''../../etc'' = Some sb \<and> \<not> is_safe (sb_id sb)"
proof -
  have "\<not> starts_with ''../../etc'' WARM_SEED_PREFIX"
    by (simp add: starts_with_def WARM_SEED_PREFIX_def)
  from create_on_named_node [OF assms(1-9) this assms(10-14)] obtain ms' sb
    where c: "create_sandbox cj fresh now t req ms = (ms', Inr [sb])" "sb_id sb = ''../../etc''"
      "sandboxes (m_store ms') = sandboxes (m_store ms) @ [sb]" by blast
  have "row_of sb_id (sandboxes (m_store ms)) ''../../etc'' = None"
    using assms(14) by (simp add: row_of_None)
  then have "get_sandbox (m_store ms') ''../../etc'' = Some sb"
    by (simp add: get_sandbox_def c(2,3) row_of_append)
  moreover have "\<not> is_safe ''../../etc''"
    by (simp add: is_safe_def contains_char_def)
  ultimately show ?thesis using c(1,2) by auto
qed

section \<open>Witnesses\<close>

definition toy_fresh :: "nat \<Rightarrow> string \<times> string" where
  "toy_fresh k = (''r'' @ replicate k CHR ''x'', ''t'')"

definition one_host :: store where
  "one_host = empty_store\<lparr>
     nodes := [(new_node_row (joining_node 10 ''n1'' ''default'' ''v1'' 1 True))\<lparr>nd_revoked := True\<rparr>],
     templates := [\<lparr>tm_name = ''t'', tm_rootfs = ''r'', tm_spec = ''spec'', tm_created_at = 1,
       tm_image = None, tm_attempt = 0\<rparr>]\<rparr>"

definition hosted :: master where
  "hosted = (default_options one_host)\<lparr>switching := [(''n1'', (Firecracker, 5))]\<rparr>"

definition ask_named :: "string \<Rightarrow> new_sandbox" where
  "ask_named i = (named i ''t'' 8080)\<lparr>ns_node_id := Some ''n1''\<rparr>"

lemma hosted_net: "allocate_net_index (m_store hosted) ''n1'' (max_net_index hosted) = Some 0"
  by (simp add: allocate_net_index_def allocate_slot_def slots_used_def hosted_def one_host_def
      default_options_def List.map_filter_def empty_store_def)

lemma hosted_asks:
  "ns_template (ask_named i) = Some ''t''" "ns_snapshot_tag (ask_named i) = None"
  "ns_node_id (ask_named i) = Some ''n1''" "ns_n (ask_named i) = None" "ns_backend (ask_named i) = None"
  "ns_egress (ask_named i) = None" "ns_live_fork (ask_named i) = None" "ns_hugepages (ask_named i) = None"
  "ns_id (ask_named i) = Some i"
  "get_template (m_store hosted) ''t'' = Some (''r'', ''spec'')"
  "\<not> is_pending (toy_codec JNull) ''spec''" "can_start hosted ''n1'' ''t''"
  by (simp_all add: ask_named_def named_def blank_request_def hosted_def one_host_def default_options_def
      get_template_def template_row_of_def row_of_def is_pending_def toy_codec_def json_index_def
      json_get_def can_start_def)

lemma hosted_fresh: "i \<notin> sb_id ` set (sandboxes (m_store hosted))"
  by (simp add: hosted_def one_host_def default_options_def empty_store_def)

theorem named_node_bypasses_switch_and_admission_witness:
  "\<exists>ms' sb. create_sandbox (toy_codec JNull) toy_fresh 7 10 (ask_named ''a'') hosted = (ms', Inr [sb]) \<and>
     sb_node_id sb = ''n1''"
proof -
  let ?nd = "(new_node_row (joining_node 10 ''n1'' ''default'' ''v1'' 1 True))\<lparr>nd_revoked := True\<rparr>"
  have pre: "\<not> starts_with ''a'' WARM_SEED_PREFIX" by (simp add: starts_with_def WARM_SEED_PREFIX_def)
  have sw: "snd (switching_to 10 ''n1'' hosted) = Some Firecracker"
    by (simp add: switching_to_def expire_switching_def hosted_def keep_def SWITCH_HOLD_def from_secs_def Let_def)
  have nd: "?nd \<in> set (nodes (m_store hosted))" "nd_id ?nd = ''n1''" "nd_revoked ?nd"
    by (simp_all add: hosted_def one_host_def default_options_def new_node_row_def joining_node_def)
  show ?thesis
    using named_node_bypasses_switch_and_admission [OF hosted_asks(1-9) pre hosted_asks(10-12) hosted_net
        hosted_fresh sw nd, where fresh = toy_fresh and now = 7] by blast
qed

theorem unsafe_sandbox_id_accepted_witness:
  "\<exists>ms' sb. create_sandbox (toy_codec JNull) toy_fresh 7 10 (ask_named ''../../etc'') hosted = (ms', Inr [sb]) \<and>
     sb_id sb = ''../../etc''"
  using unsafe_sandbox_id_accepted [OF hosted_asks(1-12) hosted_net hosted_fresh, of toy_fresh 7 10] by blast

lemma hosted_created:
  obtains ms' sb where "create_sandbox (toy_codec JNull) toy_fresh 7 10 (ask_named ''a'') hosted = (ms', Inr [sb])"
    "sb_node_id sb = ''n1''"
proof -
  have "\<not> starts_with ''a'' WARM_SEED_PREFIX" by (simp add: starts_with_def WARM_SEED_PREFIX_def)
  from create_on_named_node [OF hosted_asks(1-9) this hosted_asks(10-12) hosted_net hosted_fresh, of toy_fresh 7 10] that
  show ?thesis by blast
qed

theorem create_all_or_nothing_witness:
  "\<exists>ms' sb. create_sandbox (toy_codec JNull) toy_fresh 7 10 (ask_named ''a'') hosted = (ms', Inr [sb]) \<and>
     sandboxes (m_store ms') = [sb]"
proof -
  obtain ms' sb where c: "create_sandbox (toy_codec JNull) toy_fresh 7 10 (ask_named ''a'') hosted = (ms', Inr [sb])"
    using hosted_created by blast
  have "sandboxes (m_store hosted) = []"
    by (simp add: hosted_def one_host_def default_options_def empty_store_def)
  with create_all_or_nothing [OF c] c show ?thesis by simp
qed

theorem create_keeps_slots_unique_witness:
  "\<exists>ms' sb. create_sandbox (toy_codec JNull) toy_fresh 7 10 (ask_named ''a'') hosted = (ms', Inr [sb]) \<and>
     slots_unique sb_net_index sb_node_id (sandboxes (m_store ms'))"
proof -
  obtain ms' sb where c: "create_sandbox (toy_codec JNull) toy_fresh 7 10 (ask_named ''a'') hosted = (ms', Inr [sb])"
    using hosted_created by blast
  have "sandboxes (m_store hosted) = []"
    by (simp add: hosted_def one_host_def default_options_def empty_store_def)
  with create_keeps_slots_unique [OF c] c show ?thesis by (simp add: slots_unique_def)
qed

definition one_node_pool :: master where
  "one_node_pool = default_options (one_host\<lparr>
     nodes := [new_node_row (joining_node 10 ''n1'' ''default'' ''v1'' 1 True)]\<rparr>)"

lemma one_node_pool_list:
  "list_nodes (m_store one_node_pool) = [node.truncate (new_node_row (joining_node 10 ''n1'' ''default'' ''v1'' 1 True))]"
  by (simp add: list_nodes_def one_node_pool_def default_options_def)

lemma one_node_pool_create:
  "\<exists>ms' sb. create_sandbox (toy_codec JNull) toy_fresh 7 10 (named ''a'' ''t'' 8080) one_node_pool = (ms', Inr [sb]) \<and>
     sb_node_id sb = ''n1''"
proof -
  let ?st = "m_store one_node_pool"
  let ?req = "named ''a'' ''t'' 8080"
  have req: "ns_template ?req = Some ''t''" "ns_snapshot_tag ?req = None" "ns_node_id ?req = None" "ns_n ?req = None"
    "ns_backend ?req = None" "ns_egress ?req = None" "ns_live_fork ?req = None" "ns_hugepages ?req = None"
    "ns_id ?req = Some ''a''" "ns_pool ?req = None"
    by (simp_all add: named_def blank_request_def)
  have check: "check_request ?req ?st = Inr ((''t'', None), default_egress ?st, 1, None)"
    by (simp add: check_request_def source_of_def egress_of_def backend_asked_def Let_def MAX_FORK_WIDTH_def req
        starts_with_def WARM_SEED_PREFIX_def)
  have start: "can_start one_node_pool ''n1'' ''t''"
    by (simp add: can_start_def one_node_pool_def default_options_def)
  have "get_template ?st ''t'' = Some (''r'', ''spec'')"
    by (simp add: get_template_def template_row_of_def row_of_def one_node_pool_def default_options_def one_host_def)
  moreover have "\<not> is_pending (toy_codec JNull) ''spec''" by (rule hosted_asks(11))
  ultimately obtain port where tp: "template_place (toy_codec JNull) one_node_pool ?st ?req None ''t'' =
      Inr (''t'', PlacePool ''default'' None, port)"
    by (simp add: template_place_def Let_def req)
  define n where "n = node.truncate (new_node_row (joining_node 10 ''n1'' ''default'' ''v1'' 1 True))"
  have n: "nd_id n = ''n1''" "nd_pool n = ''default''" "nd_connected n" "nd_max_sandboxes n = 1" "nd_free_mib n = 0"
    "nd_psi_some_avg10 n = 0"
    by (simp_all add: n_def new_node_row_def joining_node_def node.defs)
  have list: "list_nodes ?st = [n]" by (simp only: one_node_pool_list n_def)
  have sw: "switching_to 10 i one_node_pool = (one_node_pool, None)" for i
    by (simp add: switching_to_def expire_switching_def keep_def one_node_pool_def default_options_def)
  have cnt: "count_sandboxes_on_node ?st i = 0" for i
    by (simp add: count_sandboxes_on_node_def changed_def one_node_pool_def default_options_def one_host_def empty_store_def)
  have adm: "refuse (admit one_node_pool) n 0 = None"
    by (simp add: refuse_def n) (simp add: one_node_pool_def default_options_def default_admission_def)
  have step: "pick_step 10 ?st [] 1 n \<lparr>pk_master = one_node_pool, pk_best = None, pk_refused = []\<rparr> =
      \<lparr>pk_master = one_node_pool, pk_best = Some (n, 0), pk_refused = []\<rparr>"
    by (simp add: pick_step_def Let_def sw cnt extra_of_def adm n(4))
  have fits: "in_pool ?st ''default'' None n \<and> can_start one_node_pool (nd_id n) ''t''"
    by (simp add: in_pool_def n(1,2) start)
  have pick: "pick_node_where 10 ?st (\<lambda>m. in_pool ?st ''default'' None m \<and> can_start one_node_pool (nd_id m) ''t'') [] 1 one_node_pool
      = (one_node_pool, Inr n)"
    using fits n(3) unfolding pick_node_where_def list by (simp add: step del: One_nat_def)
  have pl: "place_children 10 ?st ?req (PlacePool ''default'' None) ''t'' 1 one_node_pool =
      (one_node_pool, Inr [(''n1'', ''default'')])"
    using fits n(1-3) unfolding place_children_def pick_node_def Let_def place.case list
    by (simp add: pick del: One_nat_def) simp
  have none: "sandboxes ?st = []"
    by (simp add: one_node_pool_def default_options_def one_host_def empty_store_def)
  have made: "\<exists>st' sb. make_children ce ?req toy_fresh 0 [(''n1'', ''default'')] ?st = Inr (st', [sb]) \<and> sb_node_id sb = ''n1''"
    if "ce_max_net ce = max_net_index one_node_pool" for ce
  proof -
    have "allocate_net_index ?st ''n1'' (max_net_index one_node_pool) = Some 0"
      by (simp add: allocate_net_index_def allocate_slot_def slots_used_def none List.map_filter_def)
    then show ?thesis
      by (auto simp: make_child_def Let_def that insert_sandbox_def none)
  qed
  let ?ce = "\<lparr>ce_now = 7, ce_ports = port_range one_node_pool, ce_max_net = max_net_index one_node_pool,
      ce_template = ''t'', ce_from_tag = None, ce_tag_port = port, ce_egress = default_egress ?st\<rparr>"
  obtain st' sb where m: "make_children ?ce ?req toy_fresh 0 [(''n1'', ''default'')] ?st = Inr (st', [sb])"
    "sb_node_id sb = ''n1''" using made [of ?ce] by auto
  show ?thesis
    by (simp add: create_sandbox_def Let_def check tp pl m del: One_nat_def make_children.simps)
qed

theorem create_respects_caps_witness:
  "\<exists>ms' sb. create_sandbox (toy_codec JNull) toy_fresh 7 10 (named ''a'' ''t'' 8080) one_node_pool = (ms', Inr [sb]) \<and>
     count_sandboxes_on_node (m_store ms') ''n1'' \<le> 1"
proof -
  obtain ms' sb where c: "create_sandbox (toy_codec JNull) toy_fresh 7 10 (named ''a'' ''t'' 8080) one_node_pool = (ms', Inr [sb])"
    "sb_node_id sb = ''n1''" using one_node_pool_create by blast
  let ?n = "node.truncate (new_node_row (joining_node 10 ''n1'' ''default'' ''v1'' 1 True))"
  have n: "nd_id ?n = ''n1''" "nd_max_sandboxes ?n = 1"
    by (simp_all add: new_node_row_def joining_node_def node.defs)
  have "sandboxes (m_store one_node_pool) = []" "distinct_ids (m_store one_node_pool)"
    by (simp_all add: one_node_pool_def default_options_def one_host_def empty_store_def distinct_ids_def)
  moreover have "ns_template (named ''a'' ''t'' 8080) \<noteq> None" "ns_node_id (named ''a'' ''t'' 8080) = None"
    by (simp_all add: named_def blank_request_def)
  moreover have "?n \<in> set (list_nodes (m_store one_node_pool))" by (simp add: one_node_pool_list)
  ultimately have "count_sandboxes_on_node (m_store ms') (nd_id ?n) \<le> nd_max_sandboxes ?n"
    using c(2) n by (intro create_respects_caps [OF c(1)]) simp_all
  then show ?thesis using c(1) by (simp only: n) blast
qed

end
