(* ===== verification/Demote.thy ===== *)
theory Demote
  imports MasterState
begin

text \<open>
  \<^verbatim>\<open>master/demote.rs\<close>: the sweep that moves an idle sandbox one tier colder in the store, and what
  a run of sweeps comes to. The timer and the metrics are left out.
\<close>

definition sweep_step :: "idle_policy \<Rightarrow> sandbox \<times> secs \<Rightarrow> store \<times> string list \<Rightarrow> store \<times> string list" where
  "sweep_step p = (\<lambda>(s, idle) (st, woken).
     let want = tier_for_idle p (from_secs (nat (max idle 0)))
     in case colder (sb_tier s) of
          None \<Rightarrow> (st, woken)
        | Some next \<Rightarrow>
            if want \<ge> next \<and> sb_tier s \<noteq> want then (set_tier (sb_id s) next st, woken @ [sb_node_id s])
            else (st, woken))"

definition sweep :: "secs \<Rightarrow> master \<Rightarrow> master" where
  "sweep now ms =
     (let (st, woken) = fold (sweep_step (idle ms)) (idle_candidates now (int (as_secs (to_frozen (idle ms)))) (m_store ms))
            (m_store ms, [])
      in fold wake_node (remdups (sort woken)) (ms\<lparr>m_store := st\<rparr>))"

section \<open>What a sweep does to a row\<close>

definition swept :: "idle_policy \<Rightarrow> secs \<Rightarrow> sandbox \<Rightarrow> sandbox" where
  "swept p now s =
     (let idle = now - sb_last_active_at s
      in if int (as_secs (to_frozen p)) \<le> idle \<and> sb_tier s < tier_for_idle p (from_secs (nat idle))
         then s\<lparr>sb_tier := the (colder (sb_tier s))\<rparr> else s)"

lemma sweep_step_get:
  "get_sandbox (fst (sweep_step p (s, i) (st, w))) j =
     (if j = sb_id s \<and> sb_tier s < tier_for_idle p (from_secs (nat (max i 0)))
      then map_option (\<lambda>s'. s'\<lparr>sb_tier := the (colder (sb_tier s))\<rparr>) (get_sandbox st j) else get_sandbox st j)"
proof (cases "colder (sb_tier s)")
  case None
  then show ?thesis by (auto simp: sweep_step_def colder_None)
next
  case (Some c)
  then have "c \<le> w \<and> sb_tier s \<noteq> w \<longleftrightarrow> sb_tier s < w" for w
    using colder_least [OF Some] colder_rank [OF Some] by (auto simp: tier_order)
  with Some show ?thesis by (auto simp: sweep_step_def Let_def)
qed

lemma sweep_fold_get:
  "distinct (map (\<lambda>(s, _). sb_id s) cs) \<Longrightarrow>
   get_sandbox (fst (fold (sweep_step p) cs stw)) j =
     (case find (\<lambda>(s, _). sb_id s = j) cs of
        Some (s, i) \<Rightarrow> if sb_tier s < tier_for_idle p (from_secs (nat (max i 0)))
          then map_option (\<lambda>s'. s'\<lparr>sb_tier := the (colder (sb_tier s))\<rparr>) (get_sandbox (fst stw) j)
          else get_sandbox (fst stw) j
      | None \<Rightarrow> get_sandbox (fst stw) j)"
proof (induction cs arbitrary: stw)
  case (Cons c cs)
  obtain s i where c: "c = (s, i)" by fastforce
  obtain st w where stw: "stw = (st, w)" by fastforce
  have "find (\<lambda>(s', _). sb_id s' = sb_id s) cs = None"
    using Cons.prems by (force simp: c find_None_iff)
  then show ?case
    using Cons by (auto simp: c stw sweep_step_get split: option.split)
qed simp

lemma wake_all_nodes: "m_store (fold wake_node ns ms) = m_store ms" "idle (fold wake_node ns ms) = idle ms"
  by (induction ns arbitrary: ms) (simp_all add: wake_node_def)

lemma sweep_frame: "idle (sweep now ms) = idle ms"
  by (simp add: sweep_def wake_all_nodes split: prod.split)

lemma find_SomeD: "find P xs = Some x \<Longrightarrow> x \<in> set xs \<and> P x"
  by (induction xs) (auto split: if_splits)

lemma find_candidate:
  assumes "keys_ok st" "get_sandbox st j = Some s"
  shows "find (\<lambda>(s', _). sb_id s' = j) (idle_candidates now older st) =
    (if sb_last_active_at s \<le> now - older \<and> sb_tier s \<noteq> Detached then Some (s, now - sb_last_active_at s) else None)"
proof -
  have one: "s' = s" if "s' \<in> set (sandboxes st)" "sb_id s' = j" for s'
    using in_get_sandbox [OF assms(1) that(1)] assms(2) that(2) by simp
  have s: "s \<in> set (sandboxes st)" "sb_id s = j"
    using get_sandbox_in [OF assms(2)] get_sandbox_id [OF assms(2)] by auto
  let ?cs = "idle_candidates now older st"
  show ?thesis
  proof (cases "sb_last_active_at s \<le> now - older \<and> sb_tier s \<noteq> Detached")
    case True
    then have "(s, now - sb_last_active_at s) \<in> set ?cs" using s by (auto simp: idle_candidates_def)
    then have "find (\<lambda>(s', _). sb_id s' = j) ?cs \<noteq> None" using s(2) by (auto simp: find_None_iff)
    then obtain x where x: "find (\<lambda>(s', _). sb_id s' = j) ?cs = Some x" by auto
    then have "x \<in> set ?cs" "sb_id (fst x) = j" by (auto dest: find_SomeD)
    then have "x = (s, now - sb_last_active_at s)" using one by (auto simp: idle_candidates_def)
    with x True show ?thesis by simp
  next
    case False
    then show ?thesis using one by (auto simp: find_None_iff idle_candidates_def)
  qed
qed

lemma candidate_ids:
  assumes "keys_ok st"
  shows "distinct (map (\<lambda>(s, _). sb_id s) (idle_candidates now older st))"
proof -
  have "map (\<lambda>(s, _). sb_id s) (idle_candidates now older st) =
      map sb_id (sort_key sb_last_active_at (filter (\<lambda>s. sb_last_active_at s \<le> now - older \<and> sb_tier s \<noteq> Detached) (sandboxes st)))"
    by (simp add: idle_candidates_def)
  moreover have "distinct (map sb_id (filter P (sandboxes st)))" for P
    using assms by (simp add: keys_ok_def distinct_map_filter)
  ultimately show ?thesis by (simp add: distinct_map)
qed

lemma get_after_sweep:
  assumes "keys_ok (m_store ms)"
  shows "get_sandbox (m_store (sweep now ms)) j = map_option (swept (idle ms) now) (get_sandbox (m_store ms) j)"
proof -
  let ?older = "int (as_secs (to_frozen (idle ms)))"
  let ?cs = "idle_candidates now ?older (m_store ms)"
  have "m_store (sweep now ms) = fst (fold (sweep_step (idle ms)) ?cs (m_store ms, []))"
    by (simp add: sweep_def wake_all_nodes split: prod.split)
  then have get: "get_sandbox (m_store (sweep now ms)) j =
     (case find (\<lambda>(s, _). sb_id s = j) ?cs of
        Some (s, i) \<Rightarrow> if sb_tier s < tier_for_idle (idle ms) (from_secs (nat (max i 0)))
          then map_option (\<lambda>s'. s'\<lparr>sb_tier := the (colder (sb_tier s))\<rparr>) (get_sandbox (m_store ms) j)
          else get_sandbox (m_store ms) j
      | None \<Rightarrow> get_sandbox (m_store ms) j)"
    using sweep_fold_get [OF candidate_ids [OF assms], where p = "idle ms" and stw = "(m_store ms, [])" and j = j, of now ?older]
    unfolding fst_conv by simp
  show ?thesis
  proof (cases "get_sandbox (m_store ms) j")
    case (Some s)
    with get find_candidate [OF assms Some, of now ?older] show ?thesis
      by (auto simp: swept_def Let_def)
  next
    case None
    then have "find (\<lambda>(s, _). sb_id s = j) ?cs = None"
      by (force simp: find_None_iff idle_candidates_def get_sandbox_None)
    with get None show ?thesis by simp
  qed
qed

section \<open>A run of sweeps\<close>

lemma sweep_step_ids: "map sb_id (sandboxes (fst (sweep_step p c stw))) = map sb_id (sandboxes (fst stw))"
  by (cases c; cases stw) (auto simp: sweep_step_def set_tier_def upd_sandbox_def map_key_upd_where Let_def split: option.split)

lemma sweep_step_frame: "\<exists>rows. fst (sweep_step p c stw) = (fst stw)\<lparr>sandboxes := rows\<rparr> \<and> map sb_id rows = map sb_id (sandboxes (fst stw))"
proof -
  have "\<exists>rows. fst (sweep_step p c stw) = (fst stw)\<lparr>sandboxes := rows\<rparr>"
    by (cases c; cases stw) (auto simp: sweep_step_def set_tier_def upd_sandbox_def Let_def
        intro: exI [of _ "sandboxes (fst stw)"] split: option.split)
  then show ?thesis using sweep_step_ids [of p c stw] by auto
qed

lemma sweep_fold_frame:
  "\<exists>rows. fst (fold (sweep_step p) cs stw) = (fst stw)\<lparr>sandboxes := rows\<rparr> \<and> map sb_id rows = map sb_id (sandboxes (fst stw))"
proof (induction cs arbitrary: stw)
  case Nil
  show ?case by (intro exI [of _ "sandboxes (fst stw)"]) simp
next
  case (Cons c cs)
  obtain rows where 1: "fst (sweep_step p c stw) = (fst stw)\<lparr>sandboxes := rows\<rparr>" "map sb_id rows = map sb_id (sandboxes (fst stw))"
    using sweep_step_frame by blast
  obtain rows' where "fst (fold (sweep_step p) cs (sweep_step p c stw)) = (fst (sweep_step p c stw))\<lparr>sandboxes := rows'\<rparr>"
      "map sb_id rows' = map sb_id (sandboxes (fst (sweep_step p c stw)))" using Cons by blast
  with 1 show ?case by auto
qed

lemma sweep_keys:
  assumes "keys_ok (m_store ms)"
  shows "keys_ok (m_store (sweep now ms))"
proof -
  let ?cs = "idle_candidates now (int (as_secs (to_frozen (idle ms)))) (m_store ms)"
  obtain rows where r: "fst (fold (sweep_step (idle ms)) ?cs (m_store ms, [])) = (m_store ms)\<lparr>sandboxes := rows\<rparr>"
    "map sb_id rows = map sb_id (sandboxes (m_store ms))"
    using sweep_fold_frame [of "idle ms" ?cs "(m_store ms, [])"] unfolding fst_conv by blast
  have "m_store (sweep now ms) = fst (fold (sweep_step (idle ms)) ?cs (m_store ms, []))"
    by (simp add: sweep_def wake_all_nodes split: prod.split)
  with r assms show ?thesis by (simp add: keys_ok_def)
qed

definition due_tier :: "idle_policy \<Rightarrow> secs \<Rightarrow> sandbox \<Rightarrow> tier" where
  "due_tier p now s =
     (let idle = now - sb_last_active_at s
      in if int (as_secs (to_frozen p)) \<le> idle then max (sb_tier s) (tier_for_idle p (from_secs (nat idle))) else sb_tier s)"

text \<open>One tier towards the one the policy names.\<close>

definition toward :: "tier \<Rightarrow> tier \<Rightarrow> tier" where
  "toward w t = (if t < w then the (colder t) else t)"

lemma toward_thrice: "toward w (toward w (toward w t)) = max t w"
  by (cases t; cases w) (simp_all add: toward_def tier_order max_def)

lemma swept_toward:
  "swept p now s =
     (if int (as_secs (to_frozen p)) \<le> now - sb_last_active_at s
      then s\<lparr>sb_tier := toward (tier_for_idle p (from_secs (nat (now - sb_last_active_at s)))) (sb_tier s)\<rparr> else s)"
  by (simp add: swept_def toward_def Let_def)

lemma toward_between: "t \<le> toward w t" "toward w t \<le> max t w"
  by (cases t; cases w; simp add: toward_def tier_order max_def)+

lemma toward_mono: "t \<le> t' \<Longrightarrow> w \<le> w' \<Longrightarrow> toward w t \<le> toward w' t'"
  by (cases t; cases t'; cases w; cases w') (simp_all add: toward_def tier_order)

lemma toward_chase:
  assumes "u \<le> v" "v \<le> w"
  shows "max t u \<le> toward w (toward v (toward u t))"
proof -
  have "toward u (toward u (toward u t)) \<le> toward w (toward v (toward u t))"
    using assms by (intro toward_mono order_refl) auto
  then show ?thesis by (simp only: toward_thrice)
qed

text \<open>The tier a sweep at a time aims at, for a row as it was last used.\<close>

definition aim :: "idle_policy \<Rightarrow> sandbox \<Rightarrow> secs \<Rightarrow> tier" where
  "aim p s now =
     (let idle = now - sb_last_active_at s
      in if int (as_secs (to_frozen p)) \<le> idle then tier_for_idle p (from_secs (nat idle)) else Hot)"

lemma hot_least: "max Hot t = t" "max t Hot = t" "toward Hot t = t"
  by (cases t; simp add: tier_order max_def toward_def)+

lemma due_aim: "due_tier p now s = max (sb_tier s) (aim p s now)"
  by (simp add: due_tier_def aim_def Let_def hot_least)

lemma swept_aim: "swept p now s = s\<lparr>sb_tier := toward (aim p s now) (sb_tier s)\<rparr>"
  by (simp add: swept_toward aim_def Let_def hot_least)

lemma hot_first: "Hot \<le> t"
  by (cases t) (simp_all add: tier_order)

lemma aim_mono: "t \<le> t' \<Longrightarrow> aim p s t \<le> aim p s t'"
  unfolding aim_def Let_def by (auto simp: from_secs_def hot_first intro!: tier_for_idle_mono)

lemma aim_tier [simp]: "aim p (s\<lparr>sb_tier := r\<rparr>) now = aim p s now"
  by (simp add: aim_def)

text \<open>A run of sweeps, at the times they happen.\<close>

definition chased :: "idle_policy \<Rightarrow> sandbox \<Rightarrow> secs list \<Rightarrow> tier" where
  "chased p s ts = fold (\<lambda>now. toward (aim p s now)) ts (sb_tier s)"

lemma fold_swept: "fold (swept p) ts s = s\<lparr>sb_tier := chased p s ts\<rparr>"
proof -
  have "fold (swept p) ts (s\<lparr>sb_tier := r\<rparr>) = s\<lparr>sb_tier := fold (\<lambda>now. toward (aim p s now)) ts r\<rparr>" for r
    by (induction ts arbitrary: r) (simp_all add: swept_aim)
  from this [of "sb_tier s"] show ?thesis by (simp add: chased_def)
qed

lemma chased_snoc: "chased p s (ts @ [t]) = toward (aim p s t) (chased p s ts)"
  by (simp add: chased_def)

lemma chased_least: "sb_tier s \<le> chased p s ts"
  by (induction ts rule: rev_induct) (auto simp: chased_snoc chased_def intro: order_trans [OF _ toward_between(1)])

lemma chased_most: "sorted (ts @ [t]) \<Longrightarrow> chased p s (ts @ [t]) \<le> due_tier p t s"
proof (induction ts arbitrary: t rule: rev_induct)
  case Nil
  show ?case by (simp add: chased_def due_aim toward_between)
next
  case (snoc u ts)
  then have "chased p s (ts @ [u]) \<le> due_tier p u s" "aim p s u \<le> aim p s t" by (auto simp: sorted_append aim_mono)
  then have "chased p s (ts @ [u]) \<le> due_tier p t s" by (auto simp: due_aim max_def split: if_splits)
  with toward_between(2) [of "aim p s t" "chased p s (ts @ [u])"] show ?case
    unfolding chased_snoc [of p s "ts @ [u]"] by (auto simp: due_aim max_def split: if_splits)
qed

lemma chased_chases:
  assumes "a \<le> b" "b \<le> c"
  shows "due_tier p a s \<le> chased p s (ts @ [a, b, c])"
proof -
  have "chased p s (ts @ [a, b, c]) = toward (aim p s c) (toward (aim p s b) (toward (aim p s a) (chased p s ts)))"
    by (simp add: chased_def)
  moreover have "max (chased p s ts) (aim p s a) \<le> \<dots>" by (rule toward_chase) (use assms aim_mono in auto)
  ultimately show ?thesis using chased_least [of s p ts] by (auto simp: due_aim max_def split: if_splits)
qed

lemma get_after_sweeps:
  "keys_ok (m_store ms) \<Longrightarrow>
   get_sandbox (m_store (fold sweep ts ms)) j = map_option (fold (swept (idle ms)) ts) (get_sandbox (m_store ms) j)"
proof (induction ts arbitrary: ms)
  case (Cons t ts)
  show ?case
    using Cons.IH [OF sweep_keys [OF Cons.prems, of t]]
    by (simp add: sweep_frame get_after_sweep [OF Cons.prems] option.map_comp comp_def)
qed (simp add: option.map_id0)

text \<open>
  C25. Idle sandboxes follow the policy. A sweep moves a row by at most one tier, and to a colder one
  only. After any run of sweeps with no use of the sandbox between them, each at its own time and these not going back, it is
  never colder than the policy asks for by the last of them, or than it was, and it is at least as cold
  as the policy asked for at the third-last: the row trails the policy by two sweeps at most. So one
  used within the first threshold is left alone, and once the policy has asked for the same tier at
  three sweeps the row is there.
\<close>

theorem sweeps_reach_the_policy:
  assumes "keys_ok (m_store ms)" "get_sandbox (m_store ms) i = Some s" and "sorted (ts @ [a, b, c])"
  shows "get_sandbox (m_store (sweep now ms)) i \<in> {Some s, Some (s\<lparr>sb_tier := the (colder (sb_tier s))\<rparr>)} \<and>
    (\<exists>r. get_sandbox (m_store (fold sweep (ts @ [a, b, c]) ms)) i = Some (s\<lparr>sb_tier := r\<rparr>) \<and>
       due_tier (idle ms) a s \<le> r \<and> r \<le> due_tier (idle ms) c s)"
proof
  show "get_sandbox (m_store (sweep now ms)) i \<in> {Some s, Some (s\<lparr>sb_tier := the (colder (sb_tier s))\<rparr>)}"
    by (simp add: get_after_sweep assms) (simp add: swept_def Let_def)
  let ?r = "chased (idle ms) s (ts @ [a, b, c])"
  have "get_sandbox (m_store (fold sweep (ts @ [a, b, c]) ms)) i = Some (s\<lparr>sb_tier := ?r\<rparr>)"
    using get_after_sweeps [OF assms(1), of "ts @ [a, b, c]" i] assms(2) by (simp only: fold_swept option.map)
  moreover have "due_tier (idle ms) a s \<le> ?r" using assms(3) by (intro chased_chases) (auto simp: sorted_append)
  moreover have "?r \<le> due_tier (idle ms) c s" using chased_most [of "ts @ [a, b]" c] assms(3) by simp
  ultimately show "\<exists>r. get_sandbox (m_store (fold sweep (ts @ [a, b, c]) ms)) i = Some (s\<lparr>sb_tier := r\<rparr>) \<and>
       due_tier (idle ms) a s \<le> r \<and> r \<le> due_tier (idle ms) c s" by blast
qed

section \<open>Witness\<close>

definition idle_one :: master where
  "idle_one = default_options (empty_store\<lparr>sandboxes := [blank_sandbox\<lparr>sb_id := ''a'', sb_last_active_at := 0\<rparr>]\<rparr>)"

lemma sweeps_reach_the_policy_witness:
  "map_option sb_tier (get_sandbox (m_store (fold sweep [30, 990, 1000, 1010] idle_one)) ''a'') = Some Snapshot"
proof -
  have keys: "keys_ok (m_store idle_one)" by (simp add: idle_one_def default_options_def keys_ok_def empty_store_def)
  let ?s = "blank_sandbox\<lparr>sb_id := ''a'', sb_last_active_at := 0\<rparr>"
  have get: "get_sandbox (m_store idle_one) ''a'' = Some ?s"
    by (simp add: idle_one_def default_options_def get_sandbox_def row_of_def)
  have due: "due_tier (idle idle_one) 990 ?s = Snapshot" "due_tier (idle idle_one) 1010 ?s = Snapshot"
    by (simp_all add: idle_one_def default_options_def default_idle_policy_def due_tier_def tier_for_idle_def from_secs_def
        as_secs_def blank_sandbox_def Let_def max_def tier_order)
  from sweeps_reach_the_policy [OF keys get, of "[30]" 990 1000 1010 0] obtain r where
    "get_sandbox (m_store (fold sweep [30, 990, 1000, 1010] idle_one)) ''a'' = Some (?s\<lparr>sb_tier := r\<rparr>)" "Snapshot \<le> r" "r \<le> Snapshot"
    by (auto simp: due)
  then show ?thesis by simp
qed

end
