(* ===== verification/Operator.thy ===== *)
theory Operator
  imports HandlerLaws Placement Demote
begin

text \<open>
  What an operator does to the fleet (\<^verbatim>\<open>master/api.rs\<close>): moving a node to another backend, the
  command that joins a machine, and the views of the fleet. A \<^verbatim>\<open>HashMap\<close> in a view is a map; the
  counters of the metrics are an argument.
\<close>

section \<open>Moving a node to another backend\<close>

text \<open>What is remembered while the node is asked.\<close>

record switch_wait =
  sw_node :: string
  sw_from :: "backend_kind option"
  sw_to :: backend_kind

record switch_view =
  sk_node :: string
  sk_from :: "string option"
  sk_to :: string
  sk_restarting :: bool
  sk_message :: string

datatype switch_step = Done switch_view | Asked switch_wait

definition switch_answer :: "switch_wait \<Rightarrow> bool \<Rightarrow> string \<Rightarrow> switch_view" where
  "switch_answer w restarting msg = \<lparr>sk_node = sw_node w, sk_from = map_option backend_as_str (sw_from w),
     sk_to = backend_as_str (sw_to w), sk_restarting = restarting, sk_message = msg\<rparr>"

definition release_switch :: "string \<Rightarrow> master \<Rightarrow> master" where
  "release_switch i ms = ms\<lparr>switching := del i (switching ms)\<rparr>"

definition set_node_backend_ask ::
  "instant \<Rightarrow> string \<Rightarrow> string \<Rightarrow> string \<Rightarrow> master \<Rightarrow> master \<times> (api_err + switch_step)" where
  "set_node_backend_ask t rid i backend ms =
     (case backend_from_str backend of
        None \<Rightarrow> (ms, Inl (err 400 (''unknown backend '' @ trim backend)))
      | Some want \<Rightarrow>
          let switchable = (case node_features ms i of Some f \<Rightarrow> ''backend-switch'' \<in> set f | None \<Rightarrow> False);
              ms0 = expire_switching t ms
          in case map_of (switching ms0) i of
               Some (k, _) \<Rightarrow> (ms0, Inl (err 409 (i @ '' is already switching to '' @ backend_as_str k)))
             | None \<Rightarrow>
                 let ms1 = ms0\<lparr>switching := put i (want, t) (switching ms0)\<rparr>;
                     back = release_switch i ms1;
                     sandboxes = count_sandboxes_on_node (m_store ms1) i;
                     snapshots = count_snapshots_by_node (m_store ms1) i
                 in case find (\<lambda>n. nd_id n = i) (list_nodes (m_store ms1)) of
                      None \<Rightarrow> (back, Inl (err 404 (''no node '' @ i)))
                    | Some n \<Rightarrow>
                        if \<not> nd_connected n then (back, Inl (err 409 (i @ '' is not answering'')))
                        else if 0 < sandboxes \<or> 0 < snapshots
                          then (back, Inl (err 409 (i @ '' holds '' @ dec sandboxes @ '' sandbox(es) and '' @ dec snapshots @ '' snapshot(s)'')))
                        else let w = \<lparr>sw_node = i, sw_from = Option.bind (node_hosts (m_store ms1) i) (backend_of_engine \<circ> engine), sw_to = want\<rparr>
                             in if sw_from w = Some want
                                then (back, Inr (Done (switch_answer w False (''already on '' @ backend_as_str want @ ''; nothing to do''))))
                                else if \<not> switchable then (back, Inl (err 409 (i @ '' was not installed with a backend file'')))
                                else (ask_node i rid (SetBackend (backend_as_str want) rid) ms1, Inr (Asked w)))"

definition set_node_backend_wait ::
  "string \<Rightarrow> switch_wait \<Rightarrow> command_result option \<Rightarrow> master \<Rightarrow> master \<times> (api_err + switch_view)" where
  "set_node_backend_wait rid w reply ms =
     (case reply of
        None \<Rightarrow> (stop_waiting rid ms, Inl (err 504 (sw_node w @ '' did not answer the switch within 60s'')))
      | Some r \<Rightarrow>
          if exit_code r = 0 then (ms, Inr (switch_answer w True (stdout r)))
          else (release_switch (sw_node w) ms, Inl (err 409 (sw_node w @ '' refused: '' @ trim (stderr r)))))"

section \<open>Joining a machine\<close>

record bootstrap_req =
  bs_pool :: string
  bs_ttl_secs :: secs
  bs_master_url :: string
  bs_backend :: "string option"
  bs_fc_kernel :: "string option"
  bs_state_dir :: "string option"

definition plain_char :: "char \<Rightarrow> bool" where
  "plain_char c \<longleftrightarrow> (let n = of_char c :: nat in 48 \<le> n \<and> n \<le> 57 \<or> 65 \<le> n \<and> n \<le> 90 \<or> 97 \<le> n \<and> n \<le> 122) \<or> c \<in> set ''/._-''"

definition plain_path :: "string \<Rightarrow> bool" where
  "plain_path v \<longleftrightarrow> starts_with v ''/'' \<and> \<not> contains_str v ''..'' \<and> list_all plain_char v"

definition given :: "string option \<Rightarrow> string option" where
  "given v = (case v of Some [] \<Rightarrow> None | _ \<Rightarrow> v)"

definition path_env :: "string \<Rightarrow> string \<Rightarrow> string option \<Rightarrow> api_err + string" where
  "path_env name var v =
     (case given v of
        None \<Rightarrow> Inr []
      | Some p \<Rightarrow> if plain_path p then Inr ('' '' @ var @ ''='' @ p)
          else Inl (err 400 (name @ '' must be an absolute path of letters, digits and . _ - / only'')))"

definition install_env :: "bootstrap_req \<Rightarrow> api_err + string" where
  "install_env req =
     and_then (case given (bs_backend req) of
         Some b \<Rightarrow>
           if b \<notin> set [''auto'', ''gvisor'', ''runsc'', ''firecracker'']
           then Inl (err 400 ''backend must be auto, gvisor or firecracker'') else Inr ('' SANDSTORM_BACKEND='' @ b)
       | None \<Rightarrow> Inr []) (\<lambda>e0.
     and_then (path_env ''fc_kernel'' ''SANDSTORM_FC_KERNEL'' (bs_fc_kernel req)) (\<lambda>e1.
     and_then (path_env ''state_dir'' ''SANDSTORM_STATE_DIR'' (bs_state_dir req)) (\<lambda>e2. Inr (e0 @ e1 @ e2))))"

record bootstrap_view =
  bv_token :: string
  bv_pool :: string
  bv_expires_at :: secs
  bv_install_command :: string
  bv_ca_fingerprint :: "string option"

definition trim_end_matches :: "char \<Rightarrow> string \<Rightarrow> string" where
  "trim_end_matches c s = rev (dropWhile (\<lambda>x. x = c) (rev s))"

text \<open>\<open>pin\<close> is the CA's fingerprint and \<open>secret\<close> the random token.\<close>

definition node_bootstrap ::
  "string option \<Rightarrow> string \<Rightarrow> secs \<Rightarrow> bootstrap_req \<Rightarrow> master \<Rightarrow> master \<times> (api_err + bootstrap_view)" where
  "node_bootstrap pin secret now req ms =
     (case install_env req of
        Inl e \<Rightarrow> (ms, Inl e)
      | Inr env \<Rightarrow>
          (case create_node_token now secret (bs_pool req) (bs_ttl_secs req) (m_store ms) of
             Inl _ \<Rightarrow> (ms, Inl (err 500 ''token exists''))
           | Inr st \<Rightarrow>
               let token = (case pin of Some p \<Rightarrow> join_token p secret | None \<Rightarrow> secret);
                   master = trim_end_matches (CHR ''/'') (bs_master_url req)
               in (ms\<lparr>m_store := st\<rparr>,
                   Inr \<lparr>bv_token = token, bv_pool = bs_pool req, bv_expires_at = now + bs_ttl_secs req,
                     bv_install_command = ''curl -sSfL -k '' @ master @ ''/install.sh | sudo SANDSTORM_MASTER_URL='' @ master @
                       '' '' @ [CHR 0x5C, CHR 0x0A] @ ''    SANDSTORM_NODE_TOKEN='' @ token @ env @ '' sh'',
                     bv_ca_fingerprint = pin\<rparr>)))"

section \<open>Views of the fleet\<close>

record node_view =
  nw_node :: node
  nw_not_admitting :: "refusal option"

definition api_list_nodes :: "master \<Rightarrow> node_view list" where
  "api_list_nodes ms = map (\<lambda>n. \<lparr>nw_node = n,
     nw_not_admitting = refuse (admit ms) n (count_sandboxes_on_node (m_store ms) (nd_id n))\<rparr>) (list_nodes (m_store ms))"

record console_node =
  cn_node :: node
  cn_host :: "host_info option"
  cn_last_seen_age :: secs
  cn_tiers :: "tier \<Rightarrow> nat"
  cn_features :: "string list"
  cn_snapshots :: nat
  cn_templates :: "string list option"
  cn_switching_to :: "string option"

record console_now =
  co_now :: secs
  co_pool_history :: "pool_stretch list"
  co_idle :: "nat \<times> nat \<times> nat"
  co_tiers :: "tier \<Rightarrow> nat"
  co_failed :: nat
  co_snapshots :: nat
  co_snapshot_bytes :: nat
  co_templates :: "string list"
  co_nodes :: "console_node list"
  co_failing :: "(string \<times> string \<times> string \<times> nat) list"
  co_floor_mib :: nat
  co_max_psi :: real

definition console_node_of :: "secs \<Rightarrow> master \<Rightarrow> node \<Rightarrow> console_node" where
  "console_node_of now ms n = \<lparr>cn_node = n, cn_host = node_hosts (m_store ms) (nd_id n),
     cn_last_seen_age = max (now - nd_last_seen_at n) 0,
     cn_tiers = count_sandboxes_by_node_tier (m_store ms) (nd_id n),
     cn_features = (case node_features ms (nd_id n) of Some f \<Rightarrow> f | None \<Rightarrow> []),
     cn_snapshots = count_snapshots_by_node (m_store ms) (nd_id n),
     cn_templates = node_templates ms (nd_id n),
     cn_switching_to = map_option (backend_as_str \<circ> fst) (map_of (switching ms) (nd_id n))\<rparr>"

definition api_console_now :: "secs \<Rightarrow> instant \<Rightarrow> master \<Rightarrow> master \<times> console_now" where
  "api_console_now now t ms =
     (let st = m_store ms;
          ms1 = (if list_nodes st = [] then ms else expire_switching t ms)
      in (ms1, \<lparr>co_now = now, co_pool_history = list_node_pools st,
            co_idle = (as_secs (to_frozen (idle ms)), as_secs (to_snapshot (idle ms)), as_secs (to_detached (idle ms))),
            co_tiers = count_sandboxes_by_tier st, co_failed = count_failed_sandboxes st,
            co_snapshots = fst (snapshot_totals st), co_snapshot_bytes = snd (snapshot_totals st),
            co_templates = list_templates st, co_nodes = map (console_node_of now ms1) (list_nodes st),
            co_failing = failing_sandboxes st 12, co_floor_mib = min_free_mib (admit ms), co_max_psi = max_psi_avg10 (admit ms)\<rparr>))"

section \<open>Laws\<close>

lemma ask_node_frame:
  "switching (ask_node n rid c ms) = switching ms" "m_store (ask_node n rid c ms) = m_store ms"
  by (simp_all add: ask_node_def wake_node_def)

lemma counted_none: "count_sandboxes_on_node st i = 0 \<longleftrightarrow> (\<forall>s \<in> set (sandboxes st). sb_node_id s \<noteq> i)"
  "count_snapshots_by_node st i = 0 \<longleftrightarrow> (\<forall>s \<in> set (snapshots st). st_node_id s \<noteq> i)"
  using changed_pos [of "\<lambda>s. sb_node_id s = i" "sandboxes st"] changed_pos [of "\<lambda>s. st_node_id s = i" "snapshots st"]
  by (auto simp: count_sandboxes_on_node_def count_snapshots_by_node_def)

lemma set_node_backend_asked:
  assumes "set_node_backend_ask t rid i b ms = (ms1, Inr (Asked w))"
  shows "sw_node w = i" "backend_from_str b = Some (sw_to w)" "sw_from w \<noteq> Some (sw_to w)"
    and "\<exists>n \<in> set (list_nodes (m_store ms)). nd_id n = i \<and> nd_connected n"
    and "count_sandboxes_on_node (m_store ms) i = 0" "count_snapshots_by_node (m_store ms) i = 0"
    and "m_store ms1 = m_store ms" "map_of (switching (expire_switching t ms)) i = None"
    and "map_of (switching ms1) i = Some (sw_to w, t)"
  using assms
  by (auto simp: set_node_backend_ask_def Let_def ask_node_frame frame_simps split: option.splits if_splits
      dest: find_SomeD)

lemma set_node_backend_refused:
  assumes "set_node_backend_ask t rid i b ms = (ms1, r)" "\<And>w. r \<noteq> Inr (Asked w)"
  shows "m_store ms1 = m_store ms \<and>
    (ms1 = ms \<or> map_of (switching ms1) i = map_of (switching (expire_switching t ms)) i)"
  using assms
  by (auto simp: set_node_backend_ask_def Let_def release_switch_def frame_simps split: option.splits if_splits prod.splits)

lemma set_node_backend_book:
  "book_ok (switching ms) \<Longrightarrow> book_ok (switching (fst (set_node_backend_ask t rid i b ms)))"
  by (auto simp: set_node_backend_ask_def expire_switching_def release_switch_def ask_node_frame Let_def split: option.splits)

lemma map_of_expired:
  "book_ok (switching ms) \<Longrightarrow> map_of (switching (expire_switching t ms)) i =
     (case map_of (switching ms) i of Some (k, since) \<Rightarrow> if t - since < SWITCH_HOLD then Some (k, since) else None | None \<Rightarrow> None)"
  by (simp add: expire_switching_def map_of_keep split: option.split)

text \<open>
  A node is moved to another backend only while it is empty, and nothing is scheduled onto it
  then: a switch is asked of a node only where it is connected, nothing is recorded as being on it and
  no earlier switch of it is held; from then on no create that leaves the choice of node to the
  master picks it for as long as the hold lasts; and a request that is not passed on to the node
  leaves the node as free as it was.
\<close>

theorem switching_node_stays_empty:
  assumes "set_node_backend_ask t rid i b ms = (ms1, r)" "book_ok (switching ms)"
  shows "case r of
      Inr (Asked w) \<Rightarrow>
        (\<exists>n. n \<in> set (list_nodes (m_store ms)) \<and> nd_id n = i \<and> nd_connected n) \<and>
        filter (\<lambda>s. sb_node_id s = i) (sandboxes (m_store ms1)) = [] \<and>
        filter (\<lambda>s. st_node_id s = i) (snapshots (m_store ms1)) = [] \<and>
        (\<forall>t' st fits extra batch n. t \<le> t' \<and> t' < t + SWITCH_HOLD \<longrightarrow>
           snd (pick_node_where t' st fits extra batch ms1) = Inr n \<longrightarrow> nd_id n \<noteq> i)
    | _ \<Rightarrow> m_store ms1 = m_store ms \<and> map_of (switching (expire_switching t ms1)) i = map_of (switching (expire_switching t ms)) i"
proof -
  have ok: "book_ok (switching ms1)" using set_node_backend_book [OF assms(2), of t rid i b] assms(1) by simp
  have not_asked: "m_store ms1 = m_store ms \<and> map_of (switching (expire_switching t ms1)) i = map_of (switching (expire_switching t ms)) i"
    if "\<And>w. r \<noteq> Inr (Asked w)"
    using set_node_backend_refused [OF assms(1) that] map_of_expired [OF ok, of t i] map_of_expired [OF assms(2), of t i]
    by (auto split: option.splits if_splits)
  have asked: "nd_id n \<noteq> i" if "r = Inr (Asked w)" "t \<le> t'" "t' < t + SWITCH_HOLD"
    "snd (pick_node_where t' st fits extra batch ms1) = Inr n" for w t' st fits extra batch n
  proof
    assume n: "nd_id n = i"
    note picked = that(4)
    obtain ms2 where p: "pick_node_where t' st fits extra batch ms1 = (ms2, Inr n)"
      using picked by (metis prod.collapse)
    have "map_of (switching ms1) i = Some (sw_to w, t)"
      using set_node_backend_asked(9) assms(1) that(1) by blast
    then have "snd (switching_to t' i ms1) \<noteq> None"
      using that(2,3) map_of_expired [OF ok, of t' i] by (simp add: switching_to_def Let_def)
    moreover have "takes_batch t' st extra batch ms1 n" using pick_node_where_cases [OF p] by simp
    ultimately show False using n by (simp add: takes_batch_def)
  qed
  show ?thesis
  proof (cases r)
    case (Inr x)
    show ?thesis
    proof (cases x)
      case (Asked w)
      note f = set_node_backend_asked [OF assms(1) [unfolded Inr Asked]]
      show ?thesis
        using f(4,5,6,7) asked [of w] by (auto simp: Inr Asked counted_none filter_empty_conv)
    qed (use not_asked Inr in auto)
  qed (use not_asked in auto)
qed

section \<open>Witness\<close>

definition switchable :: master where
  "switchable = (default_options one_host)\<lparr>node_features := [''n1'' \<mapsto> [''backend-switch'']]\<rparr>"

lemma switchable_asked: "\<exists>ms1 w. set_node_backend_ask 5 ''r1'' ''n1'' ''firecracker'' switchable = (ms1, Inr (Asked w))"
proof -
  have b: "backend_from_str ''firecracker'' = Some Firecracker" by code_simp
  have n: "list_nodes one_host = [node.truncate (new_node_row (joining_node 10 ''n1'' ''default'' ''v1'' 1 True))]"
    by (simp add: list_nodes_def one_host_def node.defs)
  have empty: "count_sandboxes_on_node one_host i = 0" "count_snapshots_by_node one_host i = 0" "node_hosts one_host i = None" for i
    by (simp_all add: counted_none one_host_def empty_store_def node_hosts_def node_of_def row_of_def new_node_row_def joining_node_def)
  show ?thesis
    by (simp add: set_node_backend_ask_def b switchable_def default_options_def expire_switching_def keep_def n empty Let_def)
      (simp add: new_node_row_def joining_node_def node.defs)
qed

lemma switching_node_stays_empty_witness:
  "snd (pick_node_where 9 one_host (\<lambda>_. True) [] 1
     (fst (set_node_backend_ask 5 ''r1'' ''n1'' ''firecracker'' switchable))) \<noteq> Inr (hd (list_nodes one_host))"
proof -
  obtain ms1 w where ask: "set_node_backend_ask 5 ''r1'' ''n1'' ''firecracker'' switchable = (ms1, Inr (Asked w))"
    using switchable_asked by blast
  have "book_ok (switching switchable)" by (simp add: switchable_def default_options_def)
  from switching_node_stays_empty [OF ask this] have "\<forall>t' st fits extra batch n. 5 \<le> t' \<and> t' < 5 + SWITCH_HOLD \<longrightarrow>
      snd (pick_node_where t' st fits extra batch ms1) = Inr n \<longrightarrow> nd_id n \<noteq> ''n1''" by simp
  from this [THEN spec [of _ 9]] have "nd_id n \<noteq> ''n1''"
    if "snd (pick_node_where 9 one_host (\<lambda>_. True) [] 1 ms1) = Inr n" for n
    using that by (auto simp: SWITCH_HOLD_def from_secs_def)
  moreover have "nd_id (hd (list_nodes one_host)) = ''n1''"
    by (simp add: list_nodes_def one_host_def node.defs new_node_row_def joining_node_def)
  ultimately show ?thesis unfolding ask fst_conv by auto
qed

end
