(* ===== verification/E2bText.thy ===== *)
theory E2bText
  imports Egress
begin

unbundle bit_operations_syntax

text \<open>
  The text the E2B surface makes and reads (\<^verbatim>\<open>master/e2b.rs\<close>): sandbox ids in base 32, the cursor
  of a page, and the percent-encoded filter. An \<^verbatim>\<open>i64\<close> is an integer within its range; a string is
  its UTF-8 bytes. \<^verbatim>\<open>String::from_utf8_lossy\<close>, which leaves valid UTF-8 as it is, is not applied.
\<close>

section \<open>Sandbox ids\<close>

definition ALPHABET :: string where
  "ALPHABET = ''abcdefghijklmnopqrstuvwxyz234567''"

definition ID_LEN :: nat where "ID_LEN = 26"

text \<open>The inner loop: characters from the top bits of the accumulator while it holds five.\<close>

function id_chars :: "u32 \<Rightarrow> nat \<Rightarrow> string \<Rightarrow> nat \<times> string" where
  "id_chars acc bits out =
     (if bits \<ge> 5 \<and> length out < ID_LEN
      then id_chars acc (bits - 5) (out @ [ALPHABET ! unat (drop_bit (bits - 5) acc AND 31)])
      else (bits, out))"
  by pat_completeness auto
termination by (relation "measure (\<lambda>(_, bits, _). bits)") auto

declare id_chars.simps [simp del]

fun id_bytes :: "u8 list \<Rightarrow> u32 \<Rightarrow> nat \<Rightarrow> string \<Rightarrow> string" where
  "id_bytes [] acc bits out = out"
| "id_bytes (b # bs) acc bits out =
     (if length out = ID_LEN then out
      else let acc1 = push_bit 8 acc OR ucast b;
               (bits1, out1) = id_chars acc1 (bits + 8) out
           in id_bytes bs (acc1 AND (push_bit bits1 1 - 1)) bits1 out1)"

text \<open>\<open>raw\<close> is what two calls of \<^verbatim>\<open>random_token\<close> decode to.\<close>

definition new_sandbox_id :: "u8 list \<Rightarrow> string" where
  "new_sandbox_id raw = id_bytes raw 0 0 []"

text \<open>\<^verbatim>\<open>clientID\<close>: the first characters of a random token.\<close>

definition new_client_id :: "string \<Rightarrow> string" where
  "new_client_id token = take 8 token"

section \<open>Cursors\<close>

definition i64_range :: "int \<Rightarrow> bool" where
  "i64_range i \<longleftrightarrow> - (2 ^ 63) \<le> i \<and> i < 2 ^ 63"

text \<open>\<^verbatim>\<open>str::parse::<i64>\<close>: an optional sign, then digits, in range.\<close>

definition parse_i64 :: "string \<Rightarrow> int option" where
  "parse_i64 s =
     (let (neg, ds) = (case s of [] \<Rightarrow> (False, [])
            | c # r \<Rightarrow> if c = CHR ''-'' then (True, r) else if c = CHR ''+'' then (False, r) else (False, s));
          v = (if neg then - int (dec_value ds) else int (dec_value ds))
      in if ds \<noteq> [] \<and> list_all is_digit ds \<and> i64_range v then Some v else None)"

definition parse_cursor :: "string \<Rightarrow> (int \<times> string) option" where
  "parse_cursor tok =
     (case split_once (CHR ''.'') tok of
        None \<Rightarrow> None
      | Some (t, i) \<Rightarrow> map_option (\<lambda>v. (v, i)) (parse_i64 t))"

definition show_cursor :: "int \<Rightarrow> string \<Rightarrow> string" where
  "show_cursor t i = dec_int t @ ''.'' @ i"

section \<open>Percent decoding\<close>

definition hex_val :: "char \<Rightarrow> nat option" where
  "hex_val c =
     (let n = of_char c :: nat
      in if 48 \<le> n \<and> n \<le> 57 then Some (n - 48)
         else if 97 \<le> n \<and> n \<le> 102 then Some (n - 87)
         else if 65 \<le> n \<and> n \<le> 70 then Some (n - 55)
         else None)"

text \<open>\<^verbatim>\<open>u8::from_str_radix(.., 16)\<close> of two characters; a leading plus is taken.\<close>

definition from_str_radix_16 :: "char \<Rightarrow> char \<Rightarrow> nat option" where
  "from_str_radix_16 a b =
     (if a = CHR ''+'' then hex_val b
      else case (hex_val a, hex_val b) of (Some x, Some y) \<Rightarrow> Some (16 * x + y) | _ \<Rightarrow> None)"

text \<open>\<^verbatim>\<open>str::is_char_boundary\<close>: not inside a character of several bytes.\<close>

definition continuation :: "char \<Rightarrow> bool" where
  "continuation c \<longleftrightarrow> (let n = of_char c :: nat in 128 \<le> n \<and> n < 192)"

text \<open>\<^verbatim>\<open>None\<close> is the panic of a slice that cuts a character in two.\<close>

fun percent_decode :: "string \<Rightarrow> string option" where
  "percent_decode [] = Some []"
| "percent_decode (c # s) =
     (if c = CHR ''%'' then
        (case s of
           a # b # r \<Rightarrow>
             (case r of x # _ \<Rightarrow> if continuation a \<or> continuation x then None else
                  (case from_str_radix_16 a b of
                     Some v \<Rightarrow> map_option (Cons (char_of v)) (percent_decode r)
                   | None \<Rightarrow> map_option (Cons c) (percent_decode s))
              | [] \<Rightarrow> (if continuation a then None else
                  case from_str_radix_16 a b of
                     Some v \<Rightarrow> Some [char_of v]
                   | None \<Rightarrow> map_option (Cons c) (percent_decode s)))
         | _ \<Rightarrow> map_option (Cons c) (percent_decode s))
      else map_option (Cons (if c = CHR ''+'' then CHR '' '' else c)) (percent_decode s))"

fun parse_pairs :: "string list \<Rightarrow> (string \<times> string) list option" where
  "parse_pairs [] = Some []"
| "parse_pairs (p # ps) =
     (let (k, v) = (case split_once (CHR ''='') p of Some kv \<Rightarrow> kv | None \<Rightarrow> (p, []))
      in case (percent_decode k, percent_decode v, parse_pairs ps) of
           (Some k', Some v', Some rest) \<Rightarrow> Some ((k', v') # rest)
         | _ \<Rightarrow> None)"

definition parse_metadata_query :: "string \<Rightarrow> (string \<times> string) list option" where
  "parse_metadata_query s = parse_pairs (filter (\<lambda>p. p \<noteq> []) (split_on (CHR ''&'') s))"

section \<open>Ids are base 32\<close>

text \<open>The reference: the bits of the bytes, most significant first, in groups of five.\<close>

fun bits_of :: "nat \<Rightarrow> nat \<Rightarrow> bool list" where
  "bits_of 0 v = []"
| "bits_of (Suc n) v = bits_of n (v div 2) @ [odd v]"

definition bits_val :: "bool list \<Rightarrow> nat" where
  "bits_val bs = foldl (\<lambda>v b. 2 * v + of_bool b) 0 bs"

fun fives :: "bool list \<Rightarrow> bool list list" where
  "fives (a # b # c # d # e # bs) = [a, b, c, d, e] # fives bs"
| "fives _ = []"

definition base32 :: "u8 list \<Rightarrow> string" where
  "base32 raw = take ID_LEN (map (\<lambda>g. ALPHABET ! bits_val g) (fives (concat (map (\<lambda>b. bits_of 8 (unat b)) raw))))"

lemma foldl_bits: "foldl (\<lambda>v b. 2 * v + of_bool b) (k :: nat) b = k * 2 ^ length b + foldl (\<lambda>v b. 2 * v + of_bool b) 0 b"
proof (induction b rule: rev_induct)
  case (snoc x b)
  show ?case by (simp add: snoc distrib_left)
qed simp

lemma bits_val_append: "bits_val (a @ b) = bits_val a * 2 ^ length b + bits_val b"
  unfolding bits_val_def foldl_append by (rule foldl_bits)

lemma bits_val_simps [simp]: "bits_val [] = 0" "bits_val [b] = of_bool b"
  by (simp_all add: bits_val_def)

lemma bits_val_less: "bits_val bs < 2 ^ length bs"
proof (induction bs rule: rev_induct)
  case (snoc b bs)
  then show ?case by (auto simp: bits_val_append)
qed simp

lemma length_bits_of [simp]: "length (bits_of n v) = n"
  by (induction n arbitrary: v) simp_all

lemma bits_val_bits_of: "v < 2 ^ n \<Longrightarrow> bits_val (bits_of n v) = v"
proof (induction n arbitrary: v)
  case (Suc n)
  have "v div 2 < 2 ^ n" using Suc.prems by auto
  with Suc.IH show ?case using odd_two_times_div_two_succ [of v] by (auto simp: bits_val_append mult.commute)
qed simp

lemma fives_append: "length g = 5 \<Longrightarrow> fives (g @ bs) = g # fives bs"
  by (auto simp: eval_nat_numeral length_Suc_conv)

lemma fives_short: "length bs < 5 \<Longrightarrow> fives bs = []"
  by (cases bs rule: fives.cases) auto

text \<open>The inner loop on an accumulator that ends in the bits \<open>pend\<close>.\<close>

lemma unat_mask_bits: "unat (w AND (push_bit n 1 - 1 :: u32)) = unat w mod 2 ^ n"
proof -
  have "push_bit n 1 - 1 = (mask n :: u32)" by (simp add: mask_eq_exp_minus_1 push_bit_eq_mult)
  then have "w AND (push_bit n 1 - 1) = take_bit n w" by (simp only: take_bit_eq_mask)
  then have "unat (w AND (push_bit n 1 - 1)) = take_bit n (unat w)" by (simp only: unsigned_take_bit_eq)
  then show ?thesis by (simp only: take_bit_eq_mod)
qed

lemma unat_top_five: "unat (drop_bit n (w :: u32) AND 31) = unat w div 2 ^ n mod 32"
proof -
  have "31 = (mask 5 :: u32)" by (simp add: mask_eq_exp_minus_1)
  then have "drop_bit n w AND 31 = take_bit 5 (drop_bit n w)" by (simp only: take_bit_eq_mask)
  then have "unat (drop_bit n w AND 31) = take_bit 5 (drop_bit n (unat w))"
    by (simp only: unsigned_take_bit_eq unat_drop_bit_eq)
  then show ?thesis by (simp add: take_bit_eq_mod drop_bit_eq_div)
qed

lemma unat_shift_in:
  assumes "unat acc < 2 ^ 5"
  shows "unat (push_bit 8 acc OR ucast (b :: u8) :: u32) = unat acc * 256 + unat b"
proof -
  have b: "unat (ucast b :: u32) = unat b"
    by (simp add: unsigned_ucast_eq take_bit_nat_eq_self order_less_trans [OF unsigned_less])
  have "unat (push_bit 8 acc) = take_bit LENGTH(32) (push_bit 8 (unat acc))" by (rule unsigned_push_bit_eq)
  also have "\<dots> = push_bit 8 (unat acc)"
    using assms by (intro take_bit_nat_eq_self) (simp only: push_bit_eq_mult, simp)
  finally have shifted: "unat (push_bit 8 acc) = push_bit 8 (unat acc)" .
  have lt: "n < 8" if "bit (unat b) n" for n
    using that bit_imp_le_length [of b n] by (simp add: bit_unsigned_iff)
  have "push_bit 8 (unat acc) AND unat b = 0"
    by (intro bit_eqI) (auto simp: bit_and_iff bit_push_bit_iff dest: lt)
  from disjunctive_add_eq_or [OF this]
  show ?thesis by (simp add: unsigned_or_eq b shifted) (simp add: push_bit_eq_mult)
qed

lemma fives_step: "5 \<le> length bs \<Longrightarrow> fives bs = take 5 bs # fives (drop 5 bs)"
  using fives_append [of "take 5 bs" "drop 5 bs"] by simp

lemma length_fives: "length (fives bs) = length bs div 5"
  by (induction bs rule: fives.induct) simp_all

lemma fives_split: "fives (bs @ cs) = fives bs @ fives (drop (5 * (length bs div 5)) bs @ cs)"
proof (induction "length bs" arbitrary: bs rule: less_induct)
  case less
  show ?case
  proof (cases "5 \<le> length bs")
    case True
    have "5 * (length bs div 5) = 5 + 5 * ((length bs - 5) div 5)" using True by (simp add: le_div_geq)
    then have "drop (5 * (length bs div 5)) bs = drop (5 * (length (drop 5 bs) div 5)) (drop 5 bs)" by (simp add: add.commute)
    moreover have "fives (drop 5 bs @ cs) = fives (drop 5 bs) @ fives (drop (5 * (length (drop 5 bs) div 5)) (drop 5 bs) @ cs)"
      using less [of "drop 5 bs"] True by simp
    ultimately show ?thesis using fives_step [OF True] fives_step [of "bs @ cs"] True by simp
  qed (simp add: fives_short)
qed

definition letters :: "bool list \<Rightarrow> string" where
  "letters bs = map (\<lambda>g. ALPHABET ! bits_val g) (fives bs)"

lemma id_chars_eq:
  assumes "unat acc = bits_val (pre @ pend)" "length pend = bits" "length out \<le> ID_LEN"
  shows "id_chars acc bits out =
    (bits - 5 * min (bits div 5) (ID_LEN - length out), out @ take (ID_LEN - length out) (letters pend))"
  using assms
proof (induction acc bits out arbitrary: pre pend rule: id_chars.induct)
  case (1 acc bits out)
  show ?case
  proof (cases "5 \<le> bits \<and> length out < ID_LEN")
    case True
    then have five: "fives pend = take 5 pend # fives (drop 5 pend)" using 1(3) fives_step by simp
    have "unat acc = bits_val ((pre @ take 5 pend) @ drop 5 pend)" using 1(2) by simp
    then have "unat acc div 2 ^ (bits - 5) = bits_val (pre @ take 5 pend)"
      using bits_val_append [of "pre @ take 5 pend" "drop 5 pend"] bits_val_less [of "drop 5 pend"] 1(3) by simp
    moreover have "bits_val (pre @ take 5 pend) mod 32 = bits_val (take 5 pend)"
      using bits_val_append [of pre "take 5 pend"] bits_val_less [of "take 5 pend"] 1(3) True by simp
    ultimately have c: "unat (drop_bit (bits - 5) acc AND 31) = bits_val (take 5 pend)" by (simp add: unat_top_five)
    have "id_chars acc bits out = id_chars acc (bits - 5) (out @ [ALPHABET ! bits_val (take 5 pend)])"
      using True c by (subst id_chars.simps) simp
    also have "\<dots> = (bits - 5 - 5 * min ((bits - 5) div 5) (ID_LEN - Suc (length out)),
        out @ [ALPHABET ! bits_val (take 5 pend)] @ take (ID_LEN - Suc (length out)) (letters (drop 5 pend)))"
      using 1(1) [OF True, of "pre @ take 5 pend" "drop 5 pend"] 1(2,3) True c by simp
    also have "\<dots> = (bits - 5 * min (bits div 5) (ID_LEN - length out), out @ take (ID_LEN - length out) (letters pend))"
    proof -
      obtain k where k: "ID_LEN - length out = Suc k" "ID_LEN - Suc (length out) = k" using True by (metis Suc_diff_Suc)
      obtain r where r: "bits = 5 + r" using True le_Suc_ex by blast
      have "(5 + r) div 5 = Suc (r div 5)" by simp
      then show ?thesis unfolding k letters_def five r by (simp add: min_def)
    qed
    finally show ?thesis .
  next
    case False
    then show ?thesis using 1(3,4) by (subst id_chars.simps) (auto simp: letters_def fives_short)
  qed
qed

lemma id_bytes_full: "length out = ID_LEN \<Longrightarrow> id_bytes bs acc bits out = out"
  by (cases bs) simp_all

lemma id_bytes_eq:
  assumes "unat acc = bits_val pend" "length pend = bits" "bits < 5" "length out \<le> ID_LEN"
  shows "id_bytes raw acc bits out = take ID_LEN (out @ letters (pend @ concat (map (\<lambda>b. bits_of 8 (unat b)) raw)))"
  using assms
proof (induction raw arbitrary: acc pend bits out)
  case Nil
  then show ?case by (simp add: letters_def fives_short)
next
  case (Cons b raw)
  let ?rest = "concat (map (\<lambda>b. bits_of 8 (unat b)) raw)"
  let ?q = "pend @ bits_of 8 (unat b)" and ?acc = "push_bit 8 acc OR ucast b :: u32"
  show ?case
  proof (cases "length out = ID_LEN")
    case False
    have "bits_val pend < 2 ^ 5"
      using bits_val_less [of pend] Cons.prems(2,3) power_strict_increasing [of bits 5 "2 :: nat"] by simp
    moreover have "bits_val (bits_of 8 (unat b)) = unat b" using unsigned_less [of b] by (intro bits_val_bits_of) simp
    ultimately have acc: "unat ?acc = bits_val ?q"
      using unat_shift_in [of acc b] Cons.prems(1) by (simp add: bits_val_append)
    define bits1 out1 where "bits1 = bits + 8 - 5 * min ((bits + 8) div 5) (ID_LEN - length out)"
      and "out1 = out @ take (ID_LEN - length out) (letters ?q)"
    have chars: "id_chars ?acc (bits + 8) out = (bits1, out1)"
      using id_chars_eq [of ?acc "[]" ?q "bits + 8" out] acc Cons.prems(2,4) by (simp add: bits1_def out1_def)
    have step: "id_bytes (b # raw) acc bits out = id_bytes raw (?acc AND (push_bit bits1 1 - 1)) bits1 out1"
      using False chars by (simp add: Let_def)
    have len: "length (letters ?q) = (bits + 8) div 5" using Cons.prems(2) by (simp add: letters_def length_fives)
    have split: "letters (?q @ ?rest) = letters ?q @ letters (drop (5 * ((bits + 8) div 5)) ?q @ ?rest)"
      using fives_split [of ?q ?rest] Cons.prems(2) by (simp add: letters_def)
    show ?thesis
    proof (cases "length out1 = ID_LEN")
      case True
      then show ?thesis
        using step split False Cons.prems(4) by (auto simp: id_bytes_full out1_def len min_def split: if_splits)
    next
      case less: False
      then have m: "(bits + 8) div 5 < ID_LEN - length out" using Cons.prems(4) False by (auto simp: out1_def len min_def split: if_splits)
      then have out1: "out1 = out @ letters ?q" by (simp add: out1_def len)
      have b1: "bits1 = (bits + 8) mod 5" using m by (simp add: bits1_def min_def minus_mult_div_eq_mod [symmetric])
      let ?left = "drop (5 * ((bits + 8) div 5)) ?q"
      have left: "length ?left = bits1" using Cons.prems(2) by (simp add: b1 minus_mult_div_eq_mod [symmetric])
      have "bits_val ?q = bits_val (take (5 * ((bits + 8) div 5)) ?q @ ?left)" by (simp only: append_take_drop_id)
      also have "\<dots> mod 2 ^ bits1 = bits_val ?left"
      proof -
        have "bits_val ?left < 2 ^ bits1" using bits_val_less [of ?left] unfolding left .
        then show ?thesis unfolding bits_val_append left by (simp only: mod_mult_self3 mod_less)
      qed
      finally have "unat (?acc AND (push_bit bits1 1 - 1)) = bits_val ?left" by (simp only: unat_mask_bits acc)
      from Cons.IH [OF this left] m show ?thesis
        using step split b1 by (simp add: out1 len)
    qed
  qed (simp add: id_bytes_full)
qed

text \<open>
  An id is base 32: its characters are the bits of the random bytes in order, five to a
  character, read against an alphabet of lower-case letters and digits, cut at 26 characters.
\<close>

theorem sandbox_id_is_base32: "new_sandbox_id raw = base32 raw"
  using id_bytes_eq [of 0 "[]" 0 "[]" raw] by (simp add: new_sandbox_id_def base32_def letters_def)

section \<open>Cursors read back\<close>

lemma dec_int_no_dot: "CHR ''.'' \<notin> set (dec_int t)"
  using dec_mem [of "CHR ''.''"] by (auto simp: dec_int_def is_digit_def)

lemma hd_dec_digit: "\<exists>c r. dec n = c # r \<and> is_digit c"
  using dec_nonempty [of n] dec_mem [of "hd (dec n)" n] by (cases "dec n") auto

lemma parse_i64_dec_int:
  assumes "i64_range t"
  shows "parse_i64 (dec_int t) = Some t"
proof -
  obtain c r where c: "dec (nat t) = c # r" "is_digit c" using hd_dec_digit by blast
  have "c \<noteq> CHR ''-''" "c \<noteq> CHR ''+''" using c(2) by (auto simp: is_digit_def)
  with c assms dec_digits [of "nat t"] dec_digits [of "nat (- t)"] dec_value_dec [of "nat t"] show ?thesis
    by (auto simp: parse_i64_def dec_int_def)
qed

lemma cursor_roundtrip: "i64_range t \<Longrightarrow> parse_cursor (show_cursor t i) = Some (t, i)"
  using dec_int_no_dot [of t] parse_i64_dec_int [of t] split_once_append [of "CHR ''.''" "dec_int t" i]
  by (simp add: parse_cursor_def show_cursor_def)

section \<open>Where percent decoding panics\<close>

definition ascii :: "char \<Rightarrow> bool" where
  "ascii c \<longleftrightarrow> (of_char c :: nat) < 128"

lemma ascii_not_continuation: "ascii c \<Longrightarrow> \<not> continuation c"
  by (simp add: ascii_def continuation_def)

lemma percent_decode_ascii: "list_all ascii s \<Longrightarrow> \<exists>v. percent_decode s = Some v"
proof (induction "length s" arbitrary: s rule: less_induct)
  case less
  show ?case
  proof (cases s)
    case (Cons c t)
    obtain v where v: "percent_decode t = Some v" using less Cons by fastforce
    show ?thesis
    proof (cases "c = CHR ''%'' \<and> (\<exists>a b r. t = a # b # r)")
      case True
      then obtain a b r where t: "t = a # b # r" by blast
      then obtain w where w: "percent_decode r = Some w" using less(1) [of r] less(2) Cons by auto
      have "\<not> continuation a" "r = [] \<or> \<not> continuation (hd r)"
        using less(2) by (auto simp: Cons t ascii_not_continuation dest: hd_in_set simp flip: list.set_sel(1)) (cases r; simp add: ascii_not_continuation)
      then show ?thesis
        using v w True t by (cases r; cases "from_str_radix_16 a b") (auto simp: Cons)
    next
      case False
      with v show ?thesis by (cases t rule: remdups_adj.cases) (auto simp: Cons)
    qed
  qed simp
qed

lemma percent_decode_plain: "percent_decode s = None \<Longrightarrow> CHR ''%'' \<notin> set p \<Longrightarrow> percent_decode (p @ s) = None"
  by (induction p) auto

text \<open>
  A percent sign two bytes before the middle of a character stops the request: the filter of a
  list request is decoded without an error where it is ASCII, but where a percent sign is followed by an
  ASCII character and one of several bytes, cutting out the two digits cuts that character in two
  and the handler panics.
\<close>

theorem percent_decode_panics:
  "(list_all ascii s \<longrightarrow> percent_decode s \<noteq> None) \<and>
   (CHR ''%'' \<notin> set p \<and> continuation x \<longrightarrow> percent_decode (p @ CHR ''%'' # a # b # x # r) = None)"
proof (intro conjI impI)
  assume "list_all ascii s"
  with percent_decode_ascii show "percent_decode s \<noteq> None" by fastforce
next
  assume "CHR ''%'' \<notin> set p \<and> continuation x"
  then show "percent_decode (p @ CHR ''%'' # a # b # x # r) = None"
    by (intro percent_decode_plain) (simp_all add: percent_decode.simps(2))
qed

lemma percent_decode_panics_witness: "percent_decode [CHR ''u'', CHR ''='', CHR ''%'', CHR ''a'', CHR 0xC3, CHR 0xA9] = None"
  using percent_decode_panics [of "[]" "''u=''" "CHR 0xA9" "CHR ''a''" "CHR 0xC3" "[]"]
  by (simp add: continuation_def del: percent_decode.simps)

text \<open>A plus sign passes for a digit: this is not what an encoder writes for the byte 5.\<close>

lemma percent_decode_plus: "percent_decode ''%+5'' = Some [CHR 0x05]"
  by code_simp

end
