(* ===== verification/E2b.thy ===== *)
theory E2b
  imports Operator E2bText
begin

text \<open>
  The E2B surface (\<^verbatim>\<open>master/e2b.rs\<close>) over the master: its routes, its sandboxes and their
  deadlines, and the wait for envd. Handlers that wait for envd are what they do before the wait and
  what they do with its outcome. \<open>fmt\<close> is the RFC 3339 text of a time, \<open>parse\<close> reads an IP
  address, and the maps a caller sends are the text \<^verbatim>\<open>serde_json\<close> makes of them. Sums of seconds
  wrap at 64 bits, as in a release build.
\<close>

section \<open>State and routes\<close>

definition ENVD_PORT :: u16 where "ENVD_PORT = 49983"
definition SERVE_WAIT :: millis where "SERVE_WAIT = from_secs 60"
definition DEFAULT_TIMEOUT_SECS :: secs where "DEFAULT_TIMEOUT_SECS = 300"
definition ROUTE_TTL :: millis where "ROUTE_TTL = from_secs 30"

definition add_i64 :: "int \<Rightarrow> int \<Rightarrow> int" where
  "add_i64 a b = sint (word_of_int (a + b) :: 64 word)"

record route =
  ro_gateway :: "string \<times> u16"
  ro_token :: string

record e2b =
  eb_master :: master
  eb_domain :: string
  eb_routes :: "string \<rightharpoonup> route \<times> instant"

definition forget_route :: "string \<Rightarrow> e2b \<Rightarrow> e2b" where
  "forget_route i e = e\<lparr>eb_routes := (eb_routes e)(i := None)\<rparr>"

definition target_of :: "(string \<Rightarrow> string option) \<Rightarrow> master \<Rightarrow> sandbox \<Rightarrow> route option" where
  "target_of parse ms s =
     (case (sb_gateway_port s, node_ip parse (node_addrs ms) (m_store ms) (sb_node_id s)) of
        (Some p, Some ip) \<Rightarrow> Some \<lparr>ro_gateway = (ip, p), ro_token = sb_token s\<rparr>
      | _ \<Rightarrow> None)"

definition route_for :: "(string \<Rightarrow> string option) \<Rightarrow> instant \<Rightarrow> string \<Rightarrow> e2b \<Rightarrow> e2b \<times> route option" where
  "route_for parse t i e =
     (let look = (case Option.bind (get_e2b (m_store (eb_master e)) i) (\<lambda>(_, s). target_of parse (eb_master e) s) of
            None \<Rightarrow> (forget_route i e, None)
          | Some r \<Rightarrow> (e\<lparr>eb_routes := (eb_routes e)(i \<mapsto> (r, t))\<rparr>, Some r))
      in case eb_routes e i of
           Some (r, since) \<Rightarrow> if t - since < ROUTE_TTL then (e, Some r) else look
         | None \<Rightarrow> look)"

text \<open>\<^verbatim>\<open>require_key\<close>: the two headers, where they are there and are text.\<close>

definition require_key :: "master \<Rightarrow> string option \<Rightarrow> string option \<Rightarrow> gate" where
  "require_key ms key bearer =
     (let h = (case key of Some v \<Rightarrow> Some v
            | None \<Rightarrow> Option.bind bearer (\<lambda>v. if starts_with v ''Bearer '' then Some (drop 7 v) else None));
          presented = trim (case h of Some v \<Rightarrow> v | None \<Rightarrow> [])
      in if presented = [] then Reject 401 ''missing API key''
         else if \<not> api_token_matches ms presented then Reject 401 ''invalid API key''
         else Next)"

section \<open>Views\<close>

definition state_of :: "tier \<Rightarrow> string" where
  "state_of t = (case t of Hot \<Rightarrow> ''running'' | Frozen \<Rightarrow> ''running'' | Snapshot \<Rightarrow> ''paused'' | Detached \<Rightarrow> ''paused'')"

definition is_paused :: "tier \<Rightarrow> bool" where
  "is_paused t \<longleftrightarrow> state_of t = ''paused''"

definition as_u64 :: "json \<Rightarrow> nat option" where
  "as_u64 v = (case v of JNum n \<Rightarrow> if 0 \<le> n \<and> n < 2 ^ 64 then Some (nat n) else None | _ \<Rightarrow> None)"

definition number_or :: "nat \<Rightarrow> json \<Rightarrow> string \<Rightarrow> nat" where
  "number_or d spec k = (case Option.bind (json_get spec k) as_u64 of Some n \<Rightarrow> n | None \<Rightarrow> d)"

definition spec_or_null :: "codec \<Rightarrow> string \<Rightarrow> json" where
  "spec_or_null cj s = (case from_str cj s of Some v \<Rightarrow> v | None \<Rightarrow> JNull)"

definition sizes :: "codec \<Rightarrow> store \<Rightarrow> sandbox \<Rightarrow> nat \<times> nat" where
  "sizes cj st s =
     (let spec = (case get_template st (sb_template s) of Some (_, t) \<Rightarrow> spec_or_null cj t | None \<Rightarrow> JNull)
      in (number_or 1 spec ''cpu_count'',
          case sb_memory_limit_mib s of Some m \<Rightarrow> m | None \<Rightarrow> number_or 0 spec ''memory_max_mib''))"

definition view :: "codec \<Rightarrow> (secs \<Rightarrow> string) \<Rightarrow> e2b \<Rightarrow> e2b_sandbox \<Rightarrow> sandbox \<Rightarrow> bool \<Rightarrow> json" where
  "view cj fmt e rec s full =
     (let (cpus, mem) = sizes cj (m_store (eb_master e)) s
      in JObj ([(''sandboxID'', JStr (e2_id rec)), (''clientID'', JStr (e2_client_id rec)),
           (''templateID'', JStr (e2_template_id rec)), (''alias'', JStr (e2_template_id rec)),
           (''startedAt'', JStr (fmt (sb_created_at s))), (''endAt'', JStr (fmt (e2_end_at rec))),
           (''state'', JStr (state_of (sb_tier s))), (''cpuCount'', JNum (int cpus)), (''memoryMB'', JNum (int mem)),
           (''diskSizeMB'', JNum 0), (''envdVersion'', JStr (e2_envd_version rec)),
           (''metadata'', case from_str cj (e2_metadata rec) of Some v \<Rightarrow> v | None \<Rightarrow> JObj [])] @
         (if full then [(''domain'', JStr (eb_domain e)), (''envdAccessToken'', JStr (e2_access_token rec))] else [])))"

definition handle_view :: "e2b \<Rightarrow> e2b_sandbox \<Rightarrow> json" where
  "handle_view e rec = JObj [(''sandboxID'', JStr (e2_id rec)), (''templateID'', JStr (e2_template_id rec)),
     (''alias'', JStr (e2_template_id rec)), (''clientID'', JStr (e2_client_id rec)),
     (''envdVersion'', JStr (e2_envd_version rec)), (''envdAccessToken'', JStr (e2_access_token rec)),
     (''domain'', JStr (eb_domain e)), (''trafficAccessToken'', JNull)]"

definition get_record :: "e2b \<Rightarrow> string \<Rightarrow> api_err + e2b_sandbox \<times> sandbox" where
  "get_record e i =
     (case get_e2b (m_store (eb_master e)) i of Some r \<Rightarrow> Inr r | None \<Rightarrow> Inl (err 404 (''no sandbox '' @ i)))"

section \<open>Waiting for envd\<close>

text \<open>
  One round of \<^verbatim>\<open>init_envd\<close>: the row it reads, where its gateway is, what came of the request and
  how long all that took.
\<close>

datatype envd_answer = Accepted "string option" | TokenRefused | NotServing

record envd_try =
  et_row :: "sandbox option"
  et_target :: "route option"
  et_sent :: envd_answer
  et_took :: millis

definition init_round :: "envd_try \<Rightarrow> api_err + string option option" where
  "init_round w =
     (case et_row w of
        None \<Rightarrow> Inl (err 410 ''the sandbox was deleted while starting'')
      | Some s \<Rightarrow>
          if sb_error_attempts s \<ge> MAX_FAILURES then Inl (err 500 ''the sandbox failed to start'')
          else (case et_target w of
                  None \<Rightarrow> Inr None
                | Some _ \<Rightarrow>
                    (case et_sent w of
                       Accepted v \<Rightarrow> Inr (Some v)
                     | TokenRefused \<Rightarrow> Inl (err 500 ''envd refused its access token'')
                     | NotServing \<Rightarrow> Inr None)))"

text \<open>The loop, with the rounds left to it; \<^verbatim>\<open>None\<close> is that they ran out.\<close>

primrec init_loop :: "nat \<Rightarrow> (nat \<Rightarrow> envd_try) \<Rightarrow> nat \<Rightarrow> instant \<Rightarrow> millis \<Rightarrow> instant
    \<Rightarrow> (instant \<times> (api_err + string option)) option" where
  "init_loop 0 w k t pause deadline = None"
| "init_loop (Suc n) w k t pause deadline =
     (let t' = t + et_took (w k)
      in case init_round (w k) of
           Inl e \<Rightarrow> Some (t', Inl e)
         | Inr (Some v) \<Rightarrow> Some (t', Inr v)
         | Inr None \<Rightarrow>
             if t' + pause > deadline then Some (t', Inl (err 504 ''the sandbox did not start serving envd''))
             else init_loop n w (Suc k) (t' + pause) (min (pause * 2) (from_secs 1)) deadline)"

definition INIT_ROUNDS :: nat where "INIT_ROUNDS = 63"

definition init_envd :: "(nat \<Rightarrow> envd_try) \<Rightarrow> instant \<Rightarrow> (instant \<times> (api_err + string option)) option" where
  "init_envd w t = init_loop INIT_ROUNDS w 0 t 100 (t + SERVE_WAIT)"

end
