(* ===== verification/E2bApi.thy ===== *)
theory E2bApi
  imports E2b
begin

text \<open>
  The handlers of the E2B surface (\<^verbatim>\<open>master/e2b.rs\<close>): listing and its pages, create, kill,
  connect, resume, pause, deadlines and network. \<open>header\<close> is whether a text is accepted as a
  header's value. A handler that waits for envd is an \<open>ask\<close> and what the outcome of \<open>init_envd\<close>
  makes of it. The answers keep the status in the error and leave out the success codes.
\<close>

section \<open>Lists\<close>

text \<open>A JSON object of strings, the last value of a key; anything else is the empty map.\<close>

fun string_pairs :: "(string \<times> json) list \<Rightarrow> (string \<times> string) list option" where
  "string_pairs [] = Some []"
| "string_pairs ((k, JStr v) # kvs) = map_option (Cons (k, v)) (string_pairs kvs)"
| "string_pairs (_ # kvs) = None"

definition metadata_of :: "codec \<Rightarrow> e2b_sandbox \<Rightarrow> string \<Rightarrow> string option" where
  "metadata_of cj rec =
     (case from_str cj (e2_metadata rec) of
        Some (JObj kvs) \<Rightarrow> (case string_pairs kvs of Some ps \<Rightarrow> map_of (rev ps) | None \<Rightarrow> Map.empty)
      | _ \<Rightarrow> Map.empty)"

record e2b_query =
  eq_state :: "string option"
  eq_metadata :: "string option"
  eq_limit :: "nat option"
  eq_next_token :: "string option"

definition asked_states :: "string option \<Rightarrow> string list" where
  "asked_states q = (case q of None \<Rightarrow> [] | Some s \<Rightarrow> filter (\<lambda>x. x \<noteq> []) (map trim (split_on (CHR '','') s)))"

definition asked_meta :: "string option \<Rightarrow> (string \<times> string) list option" where
  "asked_meta q = (case q of None \<Rightarrow> Some [] | Some s \<Rightarrow> parse_metadata_query s)"

definition asked_for :: "codec \<Rightarrow> string list \<Rightarrow> (string \<times> string) list \<Rightarrow> e2b_sandbox \<times> sandbox \<Rightarrow> bool" where
  "asked_for cj states meta = (\<lambda>(rec, s).
     (states = [] \<or> state_of (sb_tier s) \<in> set states) \<and>
     list_all (\<lambda>(k, v). metadata_of cj rec k = Some v) meta)"

definition page_key :: "e2b_sandbox \<times> sandbox \<Rightarrow> int \<times> string" where
  "page_key r = (- sb_created_at (snd r), sb_id (snd r))"

definition after_cursor :: "int \<times> string \<Rightarrow> e2b_sandbox \<times> sandbox \<Rightarrow> bool" where
  "after_cursor c r \<longleftrightarrow> page_key r > (- fst c, snd c)"

definition page_limit :: "nat option \<Rightarrow> nat" where
  "page_limit q = max 1 (min 100 (case q of Some n \<Rightarrow> n | None \<Rightarrow> 100))"

text \<open>What the filters leave, newest first; then the page after a cursor and the next cursor.\<close>

definition matching :: "codec \<Rightarrow> store \<Rightarrow> string list \<Rightarrow> (string \<times> string) list \<Rightarrow> (e2b_sandbox \<times> sandbox) list" where
  "matching cj st states meta = sort_key page_key (filter (asked_for cj states meta) (list_e2b st))"

definition next_token :: "(string \<Rightarrow> bool) \<Rightarrow> bool \<Rightarrow> (e2b_sandbox \<times> sandbox) list \<Rightarrow> string option" where
  "next_token header longer page =
     (if longer \<and> page \<noteq> [] then
        let s = snd (List.last page); v = show_cursor (sb_created_at s) (sb_id s)
        in if header v then Some v else None
      else None)"

definition page_of ::
  "(string \<Rightarrow> bool) \<Rightarrow> (e2b_sandbox \<times> sandbox) list \<Rightarrow> nat \<Rightarrow> string option
     \<Rightarrow> api_err + (e2b_sandbox \<times> sandbox) list \<times> string option" where
  "page_of header rows limit tok =
     and_then (case tok of
         None \<Rightarrow> Inr rows
       | Some s \<Rightarrow> (case parse_cursor s of
             None \<Rightarrow> Inl (err 400 ''nextToken is not one this API issued'')
           | Some c \<Rightarrow> Inr (filter (after_cursor c) rows)))
       (\<lambda>rest. let page = take limit rest in Inr (page, next_token header (length rest > limit) page))"

text \<open>\<^verbatim>\<open>None\<close> is the panic of \<open>percent_decode\<close>.\<close>

definition list_v2 ::
  "codec \<Rightarrow> (secs \<Rightarrow> string) \<Rightarrow> (string \<Rightarrow> bool) \<Rightarrow> e2b \<Rightarrow> e2b_query \<Rightarrow> (api_err + json \<times> string option) option" where
  "list_v2 cj fmt header e q =
     map_option (\<lambda>meta.
       and_then (page_of header (matching cj (m_store (eb_master e)) (asked_states (eq_state q)) meta)
                   (page_limit (eq_limit q)) (eq_next_token q))
         (\<lambda>(page, nxt). Inr (JArr (map (\<lambda>(rec, s). view cj fmt e rec s False) page), nxt)))
       (asked_meta (eq_metadata q))"

definition list_running :: "codec \<Rightarrow> (secs \<Rightarrow> string) \<Rightarrow> e2b \<Rightarrow> json" where
  "list_running cj fmt e =
     JArr (map (\<lambda>(rec, s). view cj fmt e rec s False)
       (filter (\<lambda>(_, s). \<not> is_paused (sb_tier s)) (list_e2b (m_store (eb_master e)))))"

definition detail :: "codec \<Rightarrow> (secs \<Rightarrow> string) \<Rightarrow> e2b \<Rightarrow> string \<Rightarrow> api_err + json" where
  "detail cj fmt e i = and_then (get_record e i) (\<lambda>(rec, s). Inr (view cj fmt e rec s True))"

definition e2b_logs :: "e2b \<Rightarrow> string \<Rightarrow> api_err + json" where
  "e2b_logs e i = and_then (get_record e i) (\<lambda>_. Inr (JObj [(''logs'', JArr []), (''logEntries'', JArr [])]))"

definition template_view :: "codec \<Rightarrow> (secs \<Rightarrow> string) \<Rightarrow> string \<times> string \<times> secs \<Rightarrow> json" where
  "template_view cj fmt = (\<lambda>(name, text, made).
     let spec = spec_or_null cj text
     in JObj [(''templateID'', JStr name), (''buildID'', JStr []), (''aliases'', JArr [JStr name]),
          (''names'', JArr [JStr name]), (''cpuCount'', JNum (int (number_or 1 spec ''cpu_count''))),
          (''memoryMB'', JNum (int (number_or 0 spec ''memory_max_mib''))), (''diskSizeMB'', JNum 0),
          (''public'', JBool False), (''buildCount'', JNum 1), (''buildStatus'', JStr ''ready''),
          (''spawnCount'', JNum 0), (''lastSpawnedAt'', JNull), (''createdBy'', JNull),
          (''createdAt'', JStr (fmt made)), (''updatedAt'', JStr (fmt made)), (''envdVersion'', JStr [])])"

definition e2b_list_templates :: "codec \<Rightarrow> (secs \<Rightarrow> string) \<Rightarrow> e2b \<Rightarrow> json" where
  "e2b_list_templates cj fmt e = JArr (map (template_view cj fmt) (list_templates_full (m_store (eb_master e))))"

section \<open>Create and kill\<close>

record new_e2b =
  ny_template_id :: string
  ny_timeout :: "int option"
  ny_metadata :: "string option"
  ny_env_vars :: "string option"
  ny_auto_pause :: "bool option"
  ny_allow_internet :: "bool option"
  ny_network :: "(string list \<times> string list) option"

definition e2b_egress :: "egress \<Rightarrow> bool option \<Rightarrow> (string list \<times> string list) option \<Rightarrow> egress_error + egress" where
  "e2b_egress d internet_asked network =
     (let (out, out_not) = (case network of Some n \<Rightarrow> n | None \<Rightarrow> ([], []))
      in canonical \<lparr>internet = (internet d \<and> internet_asked \<noteq> Some False),
           allow = allow d @ out, deny = deny d @ out_not\<rparr>)"

definition on_master :: "(master \<Rightarrow> master) \<Rightarrow> e2b \<Rightarrow> e2b" where
  "on_master f e = e\<lparr>eb_master := f (eb_master e)\<rparr>"

definition timeout_of :: "int option \<Rightarrow> int" where
  "timeout_of q = max 0 (case q of Some n \<Rightarrow> n | None \<Rightarrow> DEFAULT_TIMEOUT_SECS)"

definition new_record :: "secs \<Rightarrow> string \<times> string \<times> string \<Rightarrow> new_e2b \<Rightarrow> e2b_sandbox" where
  "new_record now = (\<lambda>(i, client, token) req.
     \<lparr>e2_id = i, e2_client_id = client, e2_template_id = ny_template_id req, e2_access_token = token,
      e2_envd_version = [], e2_env_vars = (case ny_env_vars req of Some v \<Rightarrow> v | None \<Rightarrow> ''{}''),
      e2_metadata = (case ny_metadata req of Some v \<Rightarrow> v | None \<Rightarrow> ''{}''),
      e2_auto_pause = (ny_auto_pause req = Some True), e2_end_at = add_i64 now (timeout_of (ny_timeout req))\<rparr>)"

definition discard :: "string \<Rightarrow> e2b \<Rightarrow> e2b" where
  "discard i e = on_master (api_delete_sandbox i) (forget_route i e)"

text \<open>\<open>ids\<close> are the new id, client id and access token; \<open>fresh\<close> the native row's.\<close>

definition create_ask ::
  "codec \<Rightarrow> (nat \<Rightarrow> string \<times> string) \<Rightarrow> secs \<Rightarrow> instant \<Rightarrow> string \<times> string \<times> string \<Rightarrow> new_e2b \<Rightarrow> e2b
     \<Rightarrow> e2b \<times> (api_err + e2b_sandbox)" where
  "create_ask cj fresh now t ids req e =
     (let st = m_store (eb_master e); tmpl = ny_template_id req
      in if get_template st tmpl = None then (e, Inl (err 404 (''template not found: '' @ tmpl)))
         else case e2b_egress (default_egress st) (ny_allow_internet req) (ny_network req) of
           Inl _ \<Rightarrow> (e, Inl (err 400 ''not an egress policy''))
         | Inr eg \<Rightarrow>
             let rec = new_record now ids req;
                 (ms1, made) = create_sandbox cj fresh now t ((named (e2_id rec) tmpl ENVD_PORT)\<lparr>ns_egress := Some eg\<rparr>) (eb_master e);
                 e1 = e\<lparr>eb_master := ms1\<rparr>
             in (case made of
                   Inl x \<Rightarrow> (e1, Inl x)
                 | Inr _ \<Rightarrow>
                     (case insert_e2b rec (m_store ms1) of
                        Inl _ \<Rightarrow> (discard (e2_id rec) e1, Inl (err 500 ''the E2B row exists''))
                      | Inr st2 \<Rightarrow> (on_master (\<lambda>ms. ms\<lparr>m_store := st2\<rparr>) e1, Inr rec))))"

definition create_done :: "e2b_sandbox \<Rightarrow> api_err + string option \<Rightarrow> e2b \<Rightarrow> e2b \<times> (api_err + json)" where
  "create_done rec outcome e =
     (case outcome of
        Inl x \<Rightarrow> (discard (e2_id rec) e, Inl x)
      | Inr version \<Rightarrow>
          let v = (case version of Some v \<Rightarrow> v | None \<Rightarrow> [])
          in (on_master (on_store (set_e2b_envd_version (e2_id rec) v)) e,
              Inr (handle_view e (rec\<lparr>e2_envd_version := v\<rparr>))))"

definition kill :: "string \<Rightarrow> e2b \<Rightarrow> e2b \<times> (api_err + unit)" where
  "kill i e = (case get_record e i of Inl x \<Rightarrow> (e, Inl x) | Inr _ \<Rightarrow> (discard i e, Inr ()))"

section \<open>Deadlines\<close>

definition put_end :: "string \<Rightarrow> secs \<Rightarrow> e2b \<Rightarrow> e2b" where
  "put_end i at_secs e = on_master (on_store (set_e2b_end_at i at_secs)) e"

definition set_timeout :: "secs \<Rightarrow> string \<Rightarrow> int \<Rightarrow> e2b \<Rightarrow> e2b \<times> (api_err + unit)" where
  "set_timeout now i timeout e =
     (case get_record e i of
        Inl x \<Rightarrow> (e, Inl x)
      | Inr _ \<Rightarrow> (put_end i (add_i64 now (max 0 timeout)) e, Inr ()))"

definition refresh :: "secs \<Rightarrow> string \<Rightarrow> int option \<Rightarrow> e2b \<Rightarrow> e2b \<times> (api_err + unit)" where
  "refresh now i duration e =
     (case get_record e i of
        Inl x \<Rightarrow> (e, Inl x)
      | Inr (rec, _) \<Rightarrow> (put_end i (max (e2_end_at rec) (add_i64 now (timeout_of duration))) e, Inr ()))"

section \<open>Pausing and coming back\<close>

definition bring_back_ask :: "secs \<Rightarrow> e2b_sandbox \<Rightarrow> int \<Rightarrow> e2b \<Rightarrow> e2b \<times> (api_err + unit)" where
  "bring_back_ask now rec timeout e =
     (let e1 = on_master (release_pause (e2_id rec)) (put_end (e2_id rec) (add_i64 now timeout) e);
          (ms, touched) = touch_sandbox now (e2_id rec) (eb_master e1)
      in (e1\<lparr>eb_master := ms\<rparr>, and_then touched (\<lambda>_. Inr ())))"

definition bring_back_done :: "e2b_sandbox \<Rightarrow> api_err + string option \<Rightarrow> e2b \<Rightarrow> e2b \<times> (api_err + json)" where
  "bring_back_done rec outcome e =
     (case outcome of
        Inl x \<Rightarrow> (e, Inl x)
      | Inr (Some v) \<Rightarrow>
          ((if v \<noteq> e2_envd_version rec then on_master (on_store (set_e2b_envd_version (e2_id rec) v)) e else e),
           Inr (handle_view e rec))
      | Inr None \<Rightarrow> (e, Inr (handle_view e rec)))"

text \<open>The answer at once, or the record the wait goes on with.\<close>

datatype asked = Answered json | WaitsFor e2b_sandbox

definition connect :: "secs \<Rightarrow> string \<Rightarrow> int option \<Rightarrow> e2b \<Rightarrow> e2b \<times> (api_err + asked)" where
  "connect now i timeout e =
     (case get_record e i of
        Inl x \<Rightarrow> (e, Inl x)
      | Inr (rec, s) \<Rightarrow>
          if \<not> is_paused (sb_tier s)
          then (put_end i (max (e2_end_at rec) (add_i64 now (timeout_of timeout))) e, Inr (Answered (handle_view e rec)))
          else (case bring_back_ask now rec (timeout_of timeout) e of
                  (e1, Inl x) \<Rightarrow> (e1, Inl x)
                | (e1, Inr _) \<Rightarrow> (e1, Inr (WaitsFor rec))))"

definition resume :: "secs \<Rightarrow> string \<Rightarrow> int option \<Rightarrow> e2b \<Rightarrow> e2b \<times> (api_err + e2b_sandbox)" where
  "resume now i timeout e =
     (case get_record e i of
        Inl x \<Rightarrow> (e, Inl x)
      | Inr (rec, s) \<Rightarrow>
          if \<not> is_paused (sb_tier s) then (e, Inl (err 409 ''already running''))
          else (case bring_back_ask now rec (timeout_of timeout) e of
                  (e1, Inl x) \<Rightarrow> (e1, Inl x)
                | (e1, Inr _) \<Rightarrow> (e1, Inr rec)))"

definition pause :: "secs \<Rightarrow> instant \<Rightarrow> string \<Rightarrow> e2b \<Rightarrow> e2b \<times> (api_err + unit)" where
  "pause now t i e =
     (case get_record e i of
        Inl x \<Rightarrow> (e, Inl x)
      | Inr (_, s) \<Rightarrow>
          if is_paused (sb_tier s) then (e, Inl (err 409 ''already paused''))
          else let (ms, moved) = api_set_tier now i Snapshot (hold_pause t i (eb_master e))
               in (e\<lparr>eb_master := ms\<rparr>, and_then moved (\<lambda>_. Inr ())))"

definition set_network :: "string \<Rightarrow> egress_change \<Rightarrow> e2b \<Rightarrow> e2b \<times> (api_err + unit)" where
  "set_network i c e =
     (let (ms, r) = api_set_sandbox_egress i c (eb_master e)
      in (e\<lparr>eb_master := ms\<rparr>, and_then r (\<lambda>_. Inr ())))"

end
