(* ===== verification/E2bLaws.thy ===== *)
theory E2bLaws
  imports E2bApi "HOL-Library.Multiset"
begin

text \<open>
  What the E2B surface promises: the wait for envd ends, the pages of a list are the list, a create
  that fails leaves nothing, a paused sandbox is not woken by traffic already under way, and a killed
  one is not routed to.
\<close>

section \<open>The wait for envd\<close>

text \<open>The sleeps of \<open>n\<close> rounds that start with a pause.\<close>

primrec sleeps :: "nat \<Rightarrow> millis \<Rightarrow> millis" where
  "sleeps 0 p = 0"
| "sleeps (Suc n) p = p + sleeps n (min (p * 2) (from_secs 1))"

lemma init_loop_ends:
  assumes "t \<le> deadline" "deadline < t + sleeps n p" "\<And>k. et_took (w k) \<le> d"
  shows "\<exists>t' r. init_loop n w k t p deadline = Some (t', r) \<and> t' \<le> deadline + d"
  using assms(1,2)
proof (induction n arbitrary: k t p)
  case (Suc n)
  let ?t = "t + et_took (w k)"
  have now: "?t \<le> deadline + d" using Suc.prems(1) assms(3) [of k] by simp
  show ?case
  proof (cases "init_round (w k) = Inr None \<and> \<not> ?t + p > deadline")
    case True
    with Suc.prems have "?t + p \<le> deadline" "deadline < ?t + p + sleeps n (min (p * 2) (from_secs 1))" by simp_all
    from Suc.IH [OF this] True show ?thesis by (simp add: Let_def)
  next
    case False
    with now show ?thesis by (auto simp: Let_def split: sum.split option.split)
  qed
qed simp

lemma sleeps_long: "sleeps n 1000 = n * 1000"
  by (induction n) (simp_all add: from_secs_def)

lemma sleeps_enough: "from_secs 60 < sleeps INIT_ROUNDS 100"
proof -
  have eq: "INIT_ROUNDS = Suc (Suc (Suc (Suc 59)))" by (simp add: INIT_ROUNDS_def)
  show ?thesis unfolding eq sleeps.simps by (simp add: from_secs_def sleeps_long)
qed

text \<open>
  A create or a resume does not hang on a sandbox that never serves: if no request to the
  gateway takes longer than \<open>d\<close>, the wait returns, with envd's version or an error, at most
  \<open>d\<close> after the minute it is given.
\<close>

theorem envd_wait_ends:
  assumes "\<forall>k. et_took (w k) \<le> d"
  shows "\<exists>t' r. init_envd w t = Some (t', r) \<and> t' \<le> t + SERVE_WAIT + d"
  unfolding init_envd_def
  by (rule init_loop_ends) (use assms sleeps_enough in \<open>simp_all add: SERVE_WAIT_def\<close>)

definition slow_envd :: "nat \<Rightarrow> envd_try" where
  "slow_envd k = \<lparr>et_row = None, et_target = None, et_sent = NotServing, et_took = 5\<rparr>"

theorem envd_wait_ends_witness:
  "init_envd slow_envd 7 = Some (12, Inl (err 410 ''the sandbox was deleted while starting'')) \<and>
   (\<exists>t' r. init_envd slow_envd 7 = Some (t', r) \<and> t' \<le> 7 + SERVE_WAIT + 5)"
proof -
  have eq: "INIT_ROUNDS = Suc 62" by (simp add: INIT_ROUNDS_def)
  have "init_envd slow_envd 7 = Some (12, Inl (err 410 ''the sandbox was deleted while starting''))"
    unfolding init_envd_def eq init_loop.simps by (simp add: init_round_def slow_envd_def)
  moreover have "\<exists>t' r. init_envd slow_envd 7 = Some (t', r) \<and> t' \<le> 7 + SERVE_WAIT + 5"
    by (rule envd_wait_ends) (simp add: slow_envd_def)
  ultimately show ?thesis ..
qed

section \<open>Pages\<close>

text \<open>A caller that asks for page after page, with the pages it asks for at most.\<close>

primrec follow ::
  "(string \<Rightarrow> bool) \<Rightarrow> (e2b_sandbox \<times> sandbox) list \<Rightarrow> nat \<Rightarrow> nat \<Rightarrow> string option
     \<Rightarrow> (e2b_sandbox \<times> sandbox) list option" where
  "follow header rows limit 0 tok = None"
| "follow header rows limit (Suc n) tok =
     (case page_of header rows limit tok of
        Inl _ \<Rightarrow> None
      | Inr (page, None) \<Rightarrow> Some page
      | Inr (page, Some c) \<Rightarrow> map_option (append page) (follow header rows limit n (Some c)))"

definition row_cursor :: "e2b_sandbox \<times> sandbox \<Rightarrow> string" where
  "row_cursor r = show_cursor (sb_created_at (snd r)) (sb_id (snd r))"

lemma after_cursor_of: "after_cursor (sb_created_at (snd r), sb_id (snd r)) = (\<lambda>r'. page_key r < page_key r')"
  by (simp add: after_cursor_def page_key_def fun_eq_iff)

lemma sorted_after:
  assumes "sorted_wrt (\<lambda>a b. page_key a < page_key b) (pre @ r # post)"
  shows "filter (\<lambda>r'. page_key r < page_key r') (pre @ r # post) = post"
proof -
  have "filter (\<lambda>r'. page_key r < page_key r') pre = []"
    using assms by (auto simp: filter_empty_conv sorted_wrt_append dest: order.asym)
  moreover have "filter (\<lambda>r'. page_key r < page_key r') post = post"
    using assms by (auto simp: filter_id_conv sorted_wrt_append)
  ultimately show ?thesis by simp
qed

lemma page_after:
  assumes "sorted_wrt (\<lambda>a b. page_key a < page_key b) (pre @ post)"
    and "tok = (if pre = [] then None else Some (row_cursor (List.last pre)))"
    and "\<And>r. r \<in> set (pre @ post) \<Longrightarrow> i64_range (sb_created_at (snd r))"
  shows "page_of header (pre @ post) limit tok =
    Inr (take limit post, next_token header (length post > limit) (take limit post))"
proof (cases "pre = []")
  case True
  with assms(2) show ?thesis by (simp add: page_of_def Let_def)
next
  case False
  then obtain pre' r where pre: "pre = pre' @ [r]" by (cases pre rule: rev_cases) auto
  have "parse_cursor (row_cursor r) = Some (sb_created_at (snd r), sb_id (snd r))"
    using assms(3) [of r] by (simp add: row_cursor_def cursor_roundtrip pre)
  with assms(2) False have "page_of header (pre @ post) limit tok =
      (let rest = filter (\<lambda>r'. page_key r < page_key r') (pre' @ r # post)
       in Inr (take limit rest, next_token header (length rest > limit) (take limit rest)))"
    by (simp add: page_of_def after_cursor_of pre Let_def del: filter_append filter.simps)
  with sorted_after [of pre' r post] assms(1) show ?thesis by (simp add: pre)
qed

lemma follow_all:
  assumes "sorted_wrt (\<lambda>a b. page_key a < page_key b) (pre @ post)"
    and "tok = (if pre = [] then None else Some (row_cursor (List.last pre)))"
    and "\<And>r. r \<in> set (pre @ post) \<Longrightarrow> i64_range (sb_created_at (snd r)) \<and> header (row_cursor r)"
    and "0 < limit" "length post < n"
  shows "follow header (pre @ post) limit n tok = Some post"
  using assms(1,2,3,5)
proof (induction n arbitrary: pre post tok)
  case (Suc n)
  have page: "page_of header (pre @ post) limit tok =
      Inr (take limit post, next_token header (length post > limit) (take limit post))"
    by (rule page_after) (use Suc.prems(1-3) in blast)+
  show ?case
  proof (cases "length post > limit")
    case False
    with page show ?thesis by (simp add: next_token_def)
  next
    case True
    let ?pg = "take limit post"
    have ne: "?pg \<noteq> []" using True assms(4) by (cases post) auto
    then have mem: "List.last ?pg \<in> set post" by (meson in_set_takeD last_in_set)
    then have nt: "next_token header True ?pg = Some (row_cursor (List.last ?pg))"
      using ne Suc.prems(3) by (simp add: next_token_def row_cursor_def Let_def)
    have "follow header ((pre @ ?pg) @ drop limit post) limit n (Some (row_cursor (List.last (pre @ ?pg)))) = Some (drop limit post)"
      by (rule Suc.IH) (use Suc.prems True ne assms(4) in \<open>auto dest: in_set_takeD in_set_dropD\<close>)
    with page True nt ne show ?thesis by simp
  qed
qed simp

lemma get_e2b_ids: "get_e2b st i = Some (rec, s) \<Longrightarrow> e2_id rec = i \<and> sb_id s = i \<and> get_sandbox st i = Some s"
  by (auto simp: get_e2b_def dest: row_of_key get_sandbox_id split: option.splits)

lemma list_e2b_in: "r \<in> set (list_e2b st) \<Longrightarrow> sb_id (snd r) = e2_id (fst r) \<and> snd r \<in> set (sandboxes st)"
  by (auto simp: list_e2b_def map_filter_def dest: get_sandbox_id get_sandbox_in)

lemma map_filter_ids:
  assumes "distinct (map e2_id es)"
  shows "distinct (map (e2_id \<circ> fst) (List.map_filter (\<lambda>e. map_option (\<lambda>s. (e, s)) (get_sandbox st (e2_id e))) es))"
  using assms
proof (induction es)
  case (Cons e es)
  then show ?case by (cases "get_sandbox st (e2_id e)") (auto simp: map_filter_def)
qed (simp add: map_filter_def)

lemma list_e2b_ids:
  assumes "keys_ok st"
  shows "distinct (map (sb_id \<circ> snd) (list_e2b st))"
proof -
  have "distinct (map e2_id (sort_key e2_id (e2b_sandboxes st)))"
    using assms by (simp add: keys_ok_def distinct_map)
  then have "distinct (map (e2_id \<circ> fst) (list_e2b st))" unfolding list_e2b_def by (rule map_filter_ids)
  moreover have "map (e2_id \<circ> fst) (list_e2b st) = map (sb_id \<circ> snd) (list_e2b st)"
    using list_e2b_in [of _ st] by auto
  ultimately show ?thesis by simp
qed

lemma matching_sorted:
  assumes "keys_ok st"
  shows "sorted_wrt (\<lambda>a b. page_key a < page_key b) (matching cj st states meta)"
proof -
  let ?rows = "matching cj st states meta"
  have "distinct (map (sb_id \<circ> snd) (filter (asked_for cj states meta) (list_e2b st)))"
    using list_e2b_ids [OF assms] by (rule distinct_map_filter)
  then have "inj_on page_key (set ?rows)" "distinct ?rows"
    by (auto simp: matching_def page_key_def inj_on_def distinct_map)
  then have "distinct (map page_key ?rows)" by (simp add: distinct_map)
  moreover have "sorted (map page_key ?rows)" by (simp add: matching_def)
  ultimately have "sorted_wrt (<) (map page_key ?rows)" by (simp add: strict_sorted_iff)
  then show ?thesis by (simp add: sorted_wrt_map)
qed

text \<open>
  Following \<^verbatim>\<open>X-Next-Token\<close> from the first page gives every E2B sandbox that the filters
  leave, each once and newest first, whatever the page size, in a store that keeps its primary
  keys and does not change meanwhile; a caller needs at most one page more than there are rows.
\<close>

theorem pages_are_the_list:
  assumes "keys_ok st"
    and "\<forall>s \<in> set (sandboxes st). i64_range (sb_created_at s) \<and> header (show_cursor (sb_created_at s) (sb_id s))"
  shows "follow header (matching cj st states meta) (page_limit q) (Suc (length (matching cj st states meta))) None =
      Some (matching cj st states meta) \<and>
    mset (matching cj st states meta) = mset (filter (asked_for cj states meta) (list_e2b st))"
proof -
  let ?rows = "matching cj st states meta"
  have "follow header ([] @ ?rows) (page_limit q) (Suc (length ?rows)) None = Some ?rows"
  proof (rule follow_all)
    fix r assume "r \<in> set ([] @ ?rows)"
    then have "snd r \<in> set (sandboxes st)" by (auto simp: matching_def dest: list_e2b_in)
    with assms(2) show "i64_range (sb_created_at (snd r)) \<and> header (row_cursor r)"
      by (simp add: row_cursor_def)
  qed (simp_all add: matching_sorted [OF assms(1)] page_limit_def)
  moreover have "mset ?rows = mset (filter (asked_for cj states meta) (list_e2b st))"
    by (simp add: matching_def del: mset_filter)
  ultimately show ?thesis by simp
qed

section \<open>Failed creates\<close>

lemma named_request:
  assumes "create_sandbox cj fresh now t ((named i tmpl port)\<lparr>ns_egress := g\<rparr>) ms = (ms', Inr sbs)"
    and "distinct (map sb_id (sandboxes (m_store ms)))"
  shows "\<exists>s. sbs = [s] \<and> sb_id s = i \<and> m_store ms' = (m_store ms)\<lparr>sandboxes := sandboxes (m_store ms) @ [s]\<rparr>"
proof -
  let ?req = "(named i tmpl port)\<lparr>ns_egress := g\<rparr>"
  obtain template from_tag egress count backend tm place tag_port ms1 placed ce
    where c: "check_request ?req (m_store ms) = Inr ((template, from_tag), egress, count, backend)"
      "place_children t (m_store ms) ?req place tm count ms = (ms1, Inr placed)"
      "make_children ce ?req fresh 0 placed (m_store ms) = Inr (m_store ms', sbs)"
    using assms(1) by (auto elim: create_Inr)
  have "count = 1" using check_count [OF c(1)] by (simp add: named_def blank_request_def)
  with place_children_length [OF c(2)] obtain np where np: "placed = [np]" by (cases placed) auto
  with c(3) obtain s where s: "sbs = [s]" "make_child ce ?req np (fresh 0) (m_store ms) = Inr (m_store ms', s)"
    by (auto split: sum.splits)
  have "sb_id s = i"
    using s(2) by (auto simp: make_child_def Let_def child_row_def named_def split: option.splits sum.splits store_error.splits)
  with s make_child_Inr(1) [OF s(2)] show ?thesis by simp
qed

lemma del_where_none: "(\<And>r. r \<in> set rows \<Longrightarrow> \<not> P r) \<Longrightarrow> del_where P rows = rows"
  by (simp add: del_where_def)

lemma discard_store: "m_store (eb_master (discard i e)) = delete_sandbox i (m_store (eb_master e))"
  by (simp add: discard_def on_master_def forget_route_def api_delete_sandbox_def Let_def frame_simps split: option.split)

lemma create_ask_Inr:
  assumes "create_ask cj fresh now t (i, client, token) req e = (e', Inr rec)"
    and "distinct (map sb_id (sandboxes (m_store (eb_master e))))"
  shows "e2_id rec = i" "\<exists>s. sb_id s = i \<and> m_store (eb_master e') = (m_store (eb_master e))\<lparr>
      sandboxes := sandboxes (m_store (eb_master e)) @ [s], e2b_sandboxes := e2b_sandboxes (m_store (eb_master e)) @ [rec]\<rparr>"
proof -
  obtain ms1 sbs g where c: "rec = new_record now (i, client, token) req"
      "create_sandbox cj fresh now t ((named i (ny_template_id req) ENVD_PORT)\<lparr>ns_egress := g\<rparr>) (eb_master e) = (ms1, Inr sbs)"
      "insert_e2b rec (m_store ms1) = Inr (m_store (eb_master e'))"
    using assms(1)
    by (auto simp: create_ask_def Let_def on_master_def new_record_def split: if_splits sum.splits prod.splits)
  show "e2_id rec = i" by (simp add: c(1) new_record_def)
  from named_request [OF c(2) assms(2)] c(3)
  show "\<exists>s. sb_id s = i \<and> m_store (eb_master e') = (m_store (eb_master e))\<lparr>
      sandboxes := sandboxes (m_store (eb_master e)) @ [s], e2b_sandboxes := e2b_sandboxes (m_store (eb_master e)) @ [rec]\<rparr>"
    by (auto simp: insert_e2b_def split: if_splits)
qed

lemma create_ask_Inl:
  assumes "create_ask cj fresh now t (i, client, token) req e = (e', Inl x)"
    and "distinct (map sb_id (sandboxes (m_store (eb_master e))))"
    and "i \<notin> e2_id ` set (e2b_sandboxes (m_store (eb_master e)))"
  shows "m_store (eb_master e') = m_store (eb_master e)"
proof -
  have no: "insert_e2b (new_record now (i, client, token) req) (m_store ms1) \<noteq> Inl y"
    if "create_sandbox cj fresh now t ((named i (ny_template_id req) ENVD_PORT)\<lparr>ns_egress := g\<rparr>) (eb_master e) = (ms1, Inr sbs)"
    for ms1 sbs g y
    using named_request [OF that assms(2)] assms(3) by (auto simp: insert_e2b_def new_record_def)
  show ?thesis
    using assms(1) no
    by (auto simp: create_ask_def Let_def new_record_def split: if_splits sum.splits prod.splits dest: create_Inl)
qed

text \<open>
  C26. A create through E2B that fails leaves the database as it was: refused before the wait, it
  has written nothing, and failing in the wait it takes away both of the rows it wrote.
\<close>

theorem failed_create_leaves_nothing:
  assumes "distinct (map sb_id (sandboxes (m_store (eb_master e))))"
    and "i \<notin> sb_id ` set (sandboxes (m_store (eb_master e)))"
    and "i \<notin> e2_id ` set (e2b_sandboxes (m_store (eb_master e)))"
  shows "case create_ask cj fresh now t (i, client, token) req e of
      (e', Inl x) \<Rightarrow> m_store (eb_master e') = m_store (eb_master e)
    | (e', Inr rec) \<Rightarrow> m_store (eb_master (fst (create_done rec (Inl why) e'))) = m_store (eb_master e)"
proof (cases "create_ask cj fresh now t (i, client, token) req e")
  case (Pair e' r)
  show ?thesis
  proof (cases r)
    case (Inl x)
    with Pair create_ask_Inl [OF Pair [unfolded Inl] assms(1,3)] show ?thesis by simp
  next
    case (Inr rec)
    note made = create_ask_Inr [OF Pair [unfolded Inr] assms(1)]
    then obtain s where s: "sb_id s = i" "m_store (eb_master e') = (m_store (eb_master e))\<lparr>
      sandboxes := sandboxes (m_store (eb_master e)) @ [s], e2b_sandboxes := e2b_sandboxes (m_store (eb_master e)) @ [rec]\<rparr>" by blast
    have "del_where (\<lambda>s. sb_id s = i) (sandboxes (m_store (eb_master e))) = sandboxes (m_store (eb_master e))"
      "del_where (\<lambda>r. e2_id r = i) (e2b_sandboxes (m_store (eb_master e))) = e2b_sandboxes (m_store (eb_master e))"
      using assms(2,3) by (auto intro: del_where_none)
    then have "delete_sandbox i (m_store (eb_master e')) = m_store (eb_master e)"
      using s(1) made(1) unfolding s(2) delete_sandbox_def by (simp add: del_where_def)
    with Pair Inr made(1) show ?thesis by (simp add: create_done_def discard_store)
  qed
qed

section \<open>Paused, killed and late\<close>

lemma get_record_Inr: "get_record e i = Inr (rec, s) \<Longrightarrow> get_sandbox (m_store (eb_master e)) i = Some s"
  by (auto simp: get_record_def dest: get_e2b_ids split: option.splits)

lemma set_tier_explicit:
  assumes "api_set_tier now i w ms = (ms', Inr v)"
  shows "explicit_tier ms' = explicit_tier ms" "map_option sb_tier (get_sandbox (m_store ms') i) = Some w"
  using assms
  by (auto simp: api_set_tier_def Let_def on_store_def wake_node_def split: option.splits if_splits)

lemma paused_state:
  assumes "pause now t i e = (e', Inr u)"
  shows "map_option sb_tier (get_sandbox (m_store (eb_master e')) i) = Some Snapshot"
    "explicit_tier (eb_master e') = explicit_tier (hold_pause t i (eb_master e))"
proof -
  obtain ms v where m: "api_set_tier now i Snapshot (hold_pause t i (eb_master e)) = (ms, Inr v)" "eb_master e' = ms"
    using assms by (auto simp: pause_def and_then_def Let_def split: sum.splits if_splits prod.splits)
  show "map_option sb_tier (get_sandbox (m_store (eb_master e')) i) = Some Snapshot"
    "explicit_tier (eb_master e') = explicit_tier (hold_pause t i (eb_master e))"
    unfolding m(2) using set_tier_explicit [OF m(1)] by simp_all
qed

text \<open>
  C27. A pause is not undone by the traffic that was under way: for fifteen seconds after it no
  report of a node, whatever it says is served, makes the sandbox Hot again.
\<close>

theorem pause_survives_traffic:
  assumes "pause now t i e = (e', Inr u)" "t2 - t < EXPLICIT_TIER_HOLD"
  shows "map_option sb_tier (get_sandbox (m_store (apply_traffic now2 t2 req (eb_master e'))) i) = Some Snapshot"
proof -
  have "pause_held t2 (eb_master e') i"
    using assms(2) paused_state(2) [OF assms(1)] by (simp add: pause_held_def hold_pause_def)
  moreover obtain s where "get_sandbox (m_store (eb_master e')) i = Some s" "sb_tier s = Snapshot"
    using paused_state(1) [OF assms(1)] by auto
  ultimately show ?thesis
    by (auto simp: get_after_traffic after_traffic_def dest: get_sandbox_id)
qed

text \<open>A killed sandbox is gone from every list and is not routed to, even by what was cached.\<close>

lemma killed_is_gone:
  assumes "kill i e = (e', Inr u)"
  shows "get_record e' i = Inl (err 404 (''no sandbox '' @ i)) \<and> snd (route_for parse t i e') = None"
proof -
  have "e' = discard i e" using assms by (simp add: kill_def split: sum.splits)
  moreover have "get_e2b (delete_sandbox i st) i = None" for st
    by (simp add: get_e2b_def split: option.split)
  moreover have "eb_routes (discard i e) i = None"
    by (simp add: discard_def on_master_def forget_route_def)
  ultimately show ?thesis by (simp add: get_record_def discard_store route_for_def Let_def)
qed

text \<open>
  A deadline is a sum of 64-bit seconds that wraps: the largest timeout a caller may send puts the
  end before the epoch, though a deadline meant to be cut is never below the time it is set.
\<close>

lemma add_i64_eq: "add_i64 a b = (a + b + 2 ^ 63) mod 2 ^ 64 - 2 ^ 63"
  by (simp only: add_i64_def int_word_sint) simp

lemma add_i64_in_range: "i64_range (a + b) \<Longrightarrow> add_i64 a b = a + b"
  by (simp add: add_i64_eq i64_range_def)

lemma huge_timeout_is_past:
  assumes "1 \<le> now" "now < 2 ^ 63"
  shows "add_i64 now (max 0 (2 ^ 63 - 1)) = now - 2 ^ 63 - 1"
proof -
  have "(now + (2 ^ 63 - 1) + 2 ^ 63) mod 2 ^ 64 = (now - 1 + 2 ^ 64) mod 2 ^ 64" by simp
  also have "\<dots> = now - 1" unfolding mod_add_self2 using assms by (intro mod_pos_pos_trivial) simp_all
  finally show ?thesis by (simp add: add_i64_eq)
qed

lemma reconnect_never_shortens:
  assumes "get_record e i = Inr (rec, s)" "\<not> is_paused (sb_tier s)"
  shows "connect now i timeout e =
    (put_end i (max (e2_end_at rec) (add_i64 now (timeout_of timeout))) e, Inr (Answered (handle_view e rec)))"
  using assms by (simp add: connect_def)

section \<open>Witnesses\<close>

definition one_row :: e2b_sandbox where
  "one_row = \<lparr>e2_id = ''a'', e2_client_id = ''c'', e2_template_id = ''t'', e2_access_token = ''k'',
     e2_envd_version = [], e2_env_vars = ''{}'', e2_metadata = ''{}'', e2_auto_pause = False, e2_end_at = 9\<rparr>"

definition one_sandbox :: sandbox where
  "one_sandbox = child_row \<lparr>ce_now = 3, ce_ports = (1, 2), ce_max_net = 1, ce_template = ''t'', ce_from_tag = None,
     ce_tag_port = None, ce_egress = default_egress_policy\<rparr> (named ''a'' ''t'' ENVD_PORT) (''n1'', ''p'') ([], ''s'') None None"

definition one_e2b :: e2b where
  "one_e2b = \<lparr>eb_master = default_options (empty_store\<lparr>sandboxes := [one_sandbox], e2b_sandboxes := [one_row]\<rparr>),
     eb_domain = ''d'', eb_routes = Map.empty\<rparr>"

lemma one_sandbox_fields [simp]: "sb_id one_sandbox = ''a''" "sb_tier one_sandbox = Hot" "sb_node_id one_sandbox = ''n1''"
  "sb_created_at one_sandbox = 3"
  by (simp_all add: one_sandbox_def child_row_def named_def)

lemma one_e2b_store [simp]: "m_store (eb_master one_e2b) = empty_store\<lparr>sandboxes := [one_sandbox], e2b_sandboxes := [one_row]\<rparr>"
  by (simp add: one_e2b_def default_options_def)

lemma one_e2b_get: "get_record one_e2b ''a'' = Inr (one_row, one_sandbox)"
  by (simp add: get_record_def get_e2b_def row_of_def one_row_def get_sandbox_def)

theorem pages_are_the_list_witness:
  "follow (\<lambda>_. True) [(one_row, one_sandbox)] 7 2 None = Some [(one_row, one_sandbox)]"
proof -
  let ?st = "m_store (eb_master one_e2b)"
  have m: "matching (toy_codec JNull) ?st [] [] = [(one_row, one_sandbox)]"
    by (simp add: matching_def list_e2b_def map_filter_def get_sandbox_def row_of_def one_row_def asked_for_def)
  have "follow (\<lambda>_. True) (matching (toy_codec JNull) ?st [] []) (page_limit (Some 7))
      (Suc (length (matching (toy_codec JNull) ?st [] []))) None = Some (matching (toy_codec JNull) ?st [] [])"
    by (rule conjunct1, rule pages_are_the_list)
      (simp_all add: keys_ok_def empty_store_def i64_range_def)
  then have "follow (\<lambda>_. True) [(one_row, one_sandbox)] (page_limit (Some 7)) (Suc 1) None = Some [(one_row, one_sandbox)]"
    unfolding m by simp
  moreover have "page_limit (Some 7) = 7" "Suc 1 = 2" by (simp_all add: page_limit_def)
  ultimately show ?thesis by (simp only:)
qed

definition asks_template :: new_e2b where
  "asks_template = \<lparr>ny_template_id = ''t'', ny_timeout = None, ny_metadata = None, ny_env_vars = None,
     ny_auto_pause = None, ny_allow_internet = None, ny_network = None\<rparr>"

theorem failed_create_leaves_nothing_witness:
  "m_store (eb_master (fst (create_ask (toy_codec JNull) toy_fresh 7 10 (''b'', ''c'', ''k'') asks_template one_e2b))) =
     m_store (eb_master one_e2b)"
proof -
  have "create_ask (toy_codec JNull) toy_fresh 7 10 (''b'', ''c'', ''k'') asks_template one_e2b =
      (one_e2b, Inl (err 404 ''template not found: t''))"
    by (simp add: create_ask_def Let_def asks_template_def get_template_def template_row_of_def row_of_def empty_store_def)
  then show ?thesis
    using failed_create_leaves_nothing [of one_e2b "''b''", where cj = "toy_codec JNull" and fresh = toy_fresh and now = 7
        and t = 10 and client = "''c''" and token = "''k''" and req = asks_template]
    by (simp add: one_row_def)
qed

theorem pause_survives_traffic_witness:
  "case pause 3 100000 ''a'' one_e2b of (e', r) \<Rightarrow>
     map_option sb_tier (get_sandbox (m_store (apply_traffic 4 101000 ((empty_report ''n1'')\<lparr>traffic := [''a'']\<rparr>) (eb_master e'))) ''a'')
       = Some Snapshot"
proof -
  let ?ms = "hold_pause 100000 ''a'' (eb_master one_e2b)"
  have s: "get_sandbox (m_store ?ms) ''a'' = Some one_sandbox"
    by (simp add: hold_pause_def get_sandbox_def row_of_def)
  then obtain ms v where m: "api_set_tier 3 ''a'' Snapshot ?ms = (ms, Inr v)"
    by (simp add: api_set_tier_def Let_def on_store_def)
  obtain e' u where p: "pause 3 100000 ''a'' one_e2b = (e', Inr u)"
    by (simp add: pause_def one_e2b_get is_paused_def state_of_def m)
  show ?thesis
    using pause_survives_traffic [OF p, of 101000] by (simp add: p EXPLICIT_TIER_HOLD_def from_secs_def)
qed

end
