(* ===== verification/Firewall.thy ===== *)
theory Firewall
  imports Egress
begin

text \<open>
  The packet filter of a node (\<^verbatim>\<open>node/net.rs\<close>): the rules installed when it starts, the egress
  exceptions of each sandbox, and the refusals of sandboxes that are not running. A rule is what
  its arguments say, with networks as the text they are given in. \<open>bad\<close> is which command fails
  for a reason of its own; a command fails too where iptables has no such chain or rule. What a
  list of rules means, the first that matches decides and an empty chain returns, is \<open>walk\<close>; it
  is used by the statements alone.
\<close>

section \<open>Rules\<close>

datatype target = Accept | Drop | Reject | Return | Jump string

record fw_rule =
  fr_src :: "string option"
  fr_dst :: "string option"
  fr_established :: bool
  fr_tcp :: bool
  fr_target :: target

record firewall =
  fw_chains :: "string \<rightharpoonup> fw_rule list"
  fw_masquerade :: "string list"
  fw_forwarding :: bool
  fw_unreachable :: "string list"

definition EGRESS_CHAIN :: string where "EGRESS_CHAIN = ''SANDSTORM-EGRESS''"
definition PUBLIC_CHAIN :: string where "PUBLIC_CHAIN = ''SANDSTORM-PUBLIC''"
definition COLD_CHAIN :: string where "COLD_CHAIN = ''SANDSTORM-COLD''"

definition NOT_PUBLIC :: "string list" where
  "NOT_PUBLIC = [''0.0.0.0/8'', ''10.0.0.0/8'', ''100.64.0.0/10'', ''127.0.0.0/8'', ''169.254.0.0/16'',
     ''172.16.0.0/12'', ''192.0.0.0/24'', ''192.168.0.0/16'', ''198.18.0.0/15'', ''224.0.0.0/4'', ''240.0.0.0/4'']"

definition plain_rule :: "string option \<Rightarrow> string option \<Rightarrow> target \<Rightarrow> fw_rule" where
  "plain_rule s d j = \<lparr>fr_src = s, fr_dst = d, fr_established = False, fr_tcp = False, fr_target = j\<rparr>"

definition host_cidr :: "u32 \<Rightarrow> string" where
  "host_cidr ip = show_ipv4 ip @ ''/32''"

definition egress_rules :: "u32 \<Rightarrow> egress \<Rightarrow> fw_rule list" where
  "egress_rules ip e =
     map (\<lambda>c. plain_rule (Some (host_cidr ip)) (Some c) Accept) (allow e) @
     (if internet e
      then map (\<lambda>c. plain_rule (Some (host_cidr ip)) (Some c) Drop) (deny e) @
           [plain_rule (Some (host_cidr ip)) None (Jump PUBLIC_CHAIN)]
      else [])"

section \<open>Commands\<close>

text \<open>
  The iptables commands the node runs on one chain: check, append, insert at a position, delete one,
  create and flush. \<^verbatim>\<open>None\<close> is a command that fails.
\<close>

definition has_rule :: "string \<Rightarrow> fw_rule \<Rightarrow> firewall \<Rightarrow> bool" where
  "has_rule c r fw = (case fw_chains fw c of Some rs \<Rightarrow> r \<in> set rs | None \<Rightarrow> False)"

definition on_chain :: "string \<Rightarrow> (fw_rule list \<Rightarrow> fw_rule list option) \<Rightarrow> firewall \<Rightarrow> firewall option" where
  "on_chain c f fw =
     Option.bind (Option.bind (fw_chains fw c) f) (\<lambda>rs. Some (fw\<lparr>fw_chains := (fw_chains fw)(c \<mapsto> rs)\<rparr>))"

definition append_rule :: "fw_rule \<Rightarrow> fw_rule list \<Rightarrow> fw_rule list option" where
  "append_rule r rs = Some (rs @ [r])"

definition insert_rule :: "nat \<Rightarrow> fw_rule \<Rightarrow> fw_rule list \<Rightarrow> fw_rule list option" where
  "insert_rule pos r rs =
     (if 1 \<le> pos \<and> pos \<le> Suc (length rs) then Some (take (pos - 1) rs @ r # drop (pos - 1) rs) else None)"

definition delete_rule :: "fw_rule \<Rightarrow> fw_rule list \<Rightarrow> fw_rule list option" where
  "delete_rule r rs = (if r \<in> set rs then Some (remove1 r rs) else None)"

definition new_chain :: "string \<Rightarrow> firewall \<Rightarrow> firewall option" where
  "new_chain c fw = (if fw_chains fw c = None then Some (fw\<lparr>fw_chains := (fw_chains fw)(c \<mapsto> [])\<rparr>) else None)"

text \<open>\<^verbatim>\<open>run\<close>, and a sequence of commands that stops at the first that fails.\<close>

type_synonym fw_step = "firewall \<Rightarrow> firewall \<times> (string + unit)"

definition run_fw :: "(string \<Rightarrow> bool) \<Rightarrow> string \<Rightarrow> (firewall \<Rightarrow> firewall option) \<Rightarrow> fw_step" where
  "run_fw bad what f fw =
     (if bad what then (fw, Inl what)
      else case f fw of None \<Rightarrow> (fw, Inl what) | Some fw' \<Rightarrow> (fw', Inr ()))"

primrec run_all :: "fw_step list \<Rightarrow> fw_step" where
  "run_all [] fw = (fw, Inr ())"
| "run_all (s # ss) fw = (case s fw of (fw1, Inl e) \<Rightarrow> (fw1, Inl e) | (fw1, Inr _) \<Rightarrow> run_all ss fw1)"

section \<open>The rules a node starts with\<close>

definition ensure_rule :: "(string \<Rightarrow> bool) \<Rightarrow> string \<Rightarrow> string \<Rightarrow> nat \<Rightarrow> fw_rule \<Rightarrow> fw_step" where
  "ensure_rule bad what c pos r fw =
     (if has_rule c r fw then (fw, Inr ()) else run_fw bad what (on_chain c (insert_rule pos r)) fw)"

definition input_rules :: "string \<Rightarrow> fw_rule list" where
  "input_rules subnet =
     [(plain_rule (Some subnet) None Accept)\<lparr>fr_established := True\<rparr>, plain_rule (Some subnet) None Drop]"

definition forward_rules :: "string \<Rightarrow> fw_rule list" where
  "forward_rules subnet =
     [(plain_rule None (Some subnet) Accept)\<lparr>fr_established := True\<rparr>,
      plain_rule (Some subnet) None (Jump EGRESS_CHAIN), plain_rule (Some subnet) None Reject,
      plain_rule (Some subnet) None Drop, plain_rule None (Some subnet) Drop]"

definition ensure_all :: "(string \<Rightarrow> bool) \<Rightarrow> string \<Rightarrow> string \<Rightarrow> fw_rule list \<Rightarrow> fw_step list" where
  "ensure_all bad what c rs = map (\<lambda>(k, r). ensure_rule bad what c (k + 1) r) (List.enumerate 0 rs)"

definition clear_chain :: "(string \<Rightarrow> bool) \<Rightarrow> string \<Rightarrow> fw_step list" where
  "clear_chain bad c =
     [\<lambda>fw. if fw_chains fw c \<noteq> None then (fw, Inr ()) else run_fw bad ''creating an egress chain'' (new_chain c) fw,
      run_fw bad ''clearing an egress chain'' (on_chain c (\<lambda>_. Some []))]"

definition private_rules :: "fw_rule list" where
  "private_rules = map (\<lambda>c. plain_rule None (Some c) Return) NOT_PUBLIC"

definition append_all :: "(string \<Rightarrow> bool) \<Rightarrow> string \<Rightarrow> string \<Rightarrow> fw_rule list \<Rightarrow> fw_step list" where
  "append_all bad what c rs = map (\<lambda>r. run_fw bad what (on_chain c (append_rule r))) rs"

definition ensure_masquerade :: "(string \<Rightarrow> bool) \<Rightarrow> string \<Rightarrow> fw_step" where
  "ensure_masquerade bad subnet fw =
     (if subnet \<in> set (fw_masquerade fw) then (fw, Inr ())
      else run_fw bad ''installing the masquerade'' (\<lambda>fw. Some (fw\<lparr>fw_masquerade := fw_masquerade fw @ [subnet]\<rparr>)) fw)"

text \<open>The result of the last flush is not looked at.\<close>

definition cold_chain_steps :: "(string \<Rightarrow> bool) \<Rightarrow> fw_step list" where
  "cold_chain_steps bad =
     [\<lambda>fw. if fw_chains fw COLD_CHAIN \<noteq> None then (fw, Inr ()) else run_fw bad ''creating the cold chain'' (new_chain COLD_CHAIN) fw,
      ensure_rule bad ''jumping to the cold chain'' ''OUTPUT'' 1 (plain_rule None None (Jump COLD_CHAIN)),
      \<lambda>fw. (fst (run_fw bad ''clearing the cold chain'' (on_chain COLD_CHAIN (\<lambda>_. Some [])) fw), Inr ())]"

definition install_rules :: "(string \<Rightarrow> bool) \<Rightarrow> string \<Rightarrow> fw_step" where
  "install_rules bad subnet =
     run_all (ensure_all bad ''installing an INPUT rule'' ''INPUT'' (input_rules subnet) @
       clear_chain bad EGRESS_CHAIN @ clear_chain bad PUBLIC_CHAIN @
       append_all bad ''keeping private addresses out of the internet'' PUBLIC_CHAIN private_rules @
       append_all bad ''accepting the internet'' PUBLIC_CHAIN [plain_rule None None Accept] @
       ensure_all bad ''installing a FORWARD rule'' ''FORWARD'' (forward_rules subnet) @
       [ensure_masquerade bad subnet] @ cold_chain_steps bad @
       [run_fw bad ''installing the unreachable floor''
          (\<lambda>fw. Some (fw\<lparr>fw_unreachable := List.insert subnet (fw_unreachable fw)\<rparr>))])"

section \<open>Egress exceptions\<close>

datatype script_line = Del fw_rule | App fw_rule

definition egress_script :: "(u32 \<times> egress) option \<Rightarrow> u32 \<Rightarrow> egress \<Rightarrow> script_line list" where
  "egress_script old ip new =
     (case old of Some (was, e) \<Rightarrow> map Del (egress_rules was e) | None \<Rightarrow> []) @ map App (egress_rules ip new)"

text \<open>\<^verbatim>\<open>iptables-restore --noflush\<close>: one transaction, all of its lines or none.\<close>

fun script_rules :: "script_line list \<Rightarrow> fw_rule list \<Rightarrow> fw_rule list option" where
  "script_rules [] rs = Some rs"
| "script_rules (Del r # ls) rs = Option.bind (delete_rule r rs) (script_rules ls)"
| "script_rules (App r # ls) rs = Option.bind (append_rule r rs) (script_rules ls)"

definition restore :: "(string \<Rightarrow> bool) \<Rightarrow> script_line list \<Rightarrow> fw_step" where
  "restore bad script = run_fw bad ''installing egress rules'' (on_chain EGRESS_CHAIN (script_rules script))"

definition enable_forwarding :: "(string \<Rightarrow> bool) \<Rightarrow> fw_step" where
  "enable_forwarding bad fw =
     (if fw_forwarding fw then (fw, Inr ())
      else run_fw bad ''turning on ip_forward'' (\<lambda>fw. Some (fw\<lparr>fw_forwarding := True\<rparr>)) fw)"

record egress_node =
  en_fw :: firewall
  en_installed :: "string \<rightharpoonup> u32 \<times> egress"

definition egress_of_id :: "egress_node \<Rightarrow> string \<Rightarrow> egress" where
  "egress_of_id en i = (case en_installed en i of Some (_, e) \<Rightarrow> e | None \<Rightarrow> default_egress_policy)"

definition installed_rules :: "(u32 \<times> egress) option \<Rightarrow> fw_rule list" where
  "installed_rules old = (case old of Some (was, e) \<Rightarrow> egress_rules was e | None \<Rightarrow> [])"

definition egress_set :: "(string \<Rightarrow> bool) \<Rightarrow> string \<Rightarrow> u32 \<Rightarrow> egress \<Rightarrow> egress_node \<Rightarrow> egress_node \<times> (string + unit)" where
  "egress_set bad i ip want en =
     (let old = en_installed en i;
          steps = (if installed_rules old = egress_rules ip want then []
                   else (if is_closed want then [] else [enable_forwarding bad]) @ [restore bad (egress_script old ip want)])
      in case run_all steps (en_fw en) of
           (fw, Inl e) \<Rightarrow> (en\<lparr>en_fw := fw\<rparr>, Inl e)
         | (fw, Inr _) \<Rightarrow>
             (\<lparr>en_fw = fw, en_installed = (en_installed en)(i := (if want = default_egress_policy then None else Some (ip, want)))\<rparr>, Inr ()))"

definition egress_clear :: "(string \<Rightarrow> bool) \<Rightarrow> string \<Rightarrow> egress_node \<Rightarrow> egress_node \<times> (string + unit)" where
  "egress_clear bad i en =
     (case en_installed en i of
        None \<Rightarrow> (en, Inr ())
      | Some (ip, e) \<Rightarrow>
          (case restore bad (egress_script (Some (ip, e)) ip default_egress_policy) (en_fw en) of
             (fw, Inl x) \<Rightarrow> (en\<lparr>en_fw := fw\<rparr>, Inl x)
           | (fw, Inr _) \<Rightarrow> (\<lparr>en_fw = fw, en_installed = (en_installed en)(i := None)\<rparr>, Inr ())))"

section \<open>Sandboxes that are not running\<close>

definition cold_rule :: "u32 \<Rightarrow> fw_rule" where
  "cold_rule ip = \<lparr>fr_src = None, fr_dst = Some (show_ipv4 ip), fr_established = False, fr_tcp = True, fr_target = Reject\<rparr>"

definition reject :: "(string \<Rightarrow> bool) \<Rightarrow> u32 \<Rightarrow> fw_step" where
  "reject bad ip fw =
     (if has_rule COLD_CHAIN (cold_rule ip) fw then (fw, Inr ())
      else run_fw bad ''rejecting a cold sandbox'' (on_chain COLD_CHAIN (append_rule (cold_rule ip))) fw)"

text \<open>The loop of \<^verbatim>\<open>allow\<close> over the rules of the chain; each round deletes one.\<close>

function allow_loop :: "fw_rule \<Rightarrow> fw_rule list \<Rightarrow> fw_rule list" where
  "allow_loop r rs = (if r \<in> set rs then allow_loop r (remove1 r rs) else rs)"
  by pat_completeness auto
termination by (relation "measure (length \<circ> snd)") (auto simp: length_remove1 dest: length_pos_if_in_set)

declare allow_loop.simps [simp del]

definition allow_again :: "(string \<Rightarrow> bool) \<Rightarrow> u32 \<Rightarrow> fw_step" where
  "allow_again bad ip fw =
     (if has_rule COLD_CHAIN (cold_rule ip) fw
      then run_fw bad ''allowing a sandbox again'' (on_chain COLD_CHAIN (\<lambda>rs. Some (allow_loop (cold_rule ip) rs))) fw
      else (fw, Inr ()))"

end
