(* ===== verification/FirewallLaws.thy ===== *)
theory FirewallLaws
  imports Firewall
begin

text \<open>
  What the packet filter lets through: the meaning of a rule list, the state of the egress chain in
  every history of a node, and that the whole of it implements the policies of the sandboxes.
\<close>

section \<open>What rules mean\<close>

record packet =
  pk_src :: u32
  pk_dst :: u32
  pk_established :: bool
  pk_tcp :: bool

definition cidr_match :: "string \<Rightarrow> u32 \<Rightarrow> bool" where
  "cidr_match c a =
     (case split_once (CHR ''/'') c of
        None \<Rightarrow> parse_ipv4 c = Some a
      | Some (n, p) \<Rightarrow>
          (case (parse_ipv4 n, parse_u32 p) of
             (Some n, Some p) \<Rightarrow> a AND prefix_mask p = n AND prefix_mask p
           | _ \<Rightarrow> False))"

definition matches :: "fw_rule \<Rightarrow> packet \<Rightarrow> bool" where
  "matches r p \<longleftrightarrow>
     (case fr_src r of Some c \<Rightarrow> cidr_match c (pk_src p) | None \<Rightarrow> True) \<and>
     (case fr_dst r of Some c \<Rightarrow> cidr_match c (pk_dst p) | None \<Rightarrow> True) \<and>
     (fr_established r \<longrightarrow> pk_established p) \<and> (fr_tcp r \<longrightarrow> pk_tcp p)"

text \<open>The first rule that matches; a chain that ends, or returns, goes on after the jump to it.\<close>

fun walk :: "(string \<rightharpoonup> fw_rule list) \<Rightarrow> nat \<Rightarrow> fw_rule list \<Rightarrow> packet \<Rightarrow> target option" where
  "walk ch n [] p = None"
| "walk ch n (r # rs) p =
     (if matches r p then
        (case fr_target r of
           Return \<Rightarrow> None
         | Jump c \<Rightarrow>
             (case n of 0 \<Rightarrow> None
              | Suc m \<Rightarrow> (case Option.bind (ch c) (\<lambda>rs'. walk ch m rs' p) of Some v \<Rightarrow> Some v | None \<Rightarrow> walk ch n rs p))
         | v \<Rightarrow> Some v)
      else walk ch n rs p)"

definition forwarded :: "firewall \<Rightarrow> packet \<Rightarrow> target option" where
  "forwarded fw p = walk (fw_chains fw) 3 (case fw_chains fw ''FORWARD'' of Some rs \<Rightarrow> rs | None \<Rightarrow> []) p"

lemma walk_miss [simp]: "\<not> matches r p \<Longrightarrow> walk ch n (r # rs) p = walk ch n rs p"
  by simp

lemma walk_filter: "(\<And>r. r \<in> set rs \<Longrightarrow> matches r p \<Longrightarrow> P r) \<Longrightarrow> walk ch n (filter P rs) p = walk ch n rs p"
proof (induction rs)
  case (Cons r rs)
  then have IH: "walk ch n (filter P rs) p = walk ch n rs p" by simp
  show ?case
  proof (cases "P r")
    case True
    then show ?thesis by (simp only: filter.simps if_True walk.simps IH)
  next
    case False
    with Cons.prems(1) [of r] have "\<not> matches r p" by auto
    with IH False show ?thesis by simp
  qed
qed simp

lemma walk_hits:
  "walk ch n (map (\<lambda>c. plain_rule s (Some c) v) cs @ rs) p =
     (if (case s of Some c \<Rightarrow> cidr_match c (pk_src p) | None \<Rightarrow> True) \<and> list_ex (\<lambda>c. cidr_match c (pk_dst p)) cs
      then (case v of Return \<Rightarrow> None | _ \<Rightarrow> Some v) else walk ch n rs p)"
  if "\<And>c. v \<noteq> Jump c"
  using that by (induction cs) (auto simp: matches_def plain_rule_def split: target.split)

text \<open>A single address is what it prints as.\<close>

lemma prefix_mask_32 [simp]: "prefix_mask 32 = - 1"
  by (simp add: prefix_mask_def)

lemma no_slash [simp]: "CHR ''/'' \<notin> set (show_ipv4 ip)"
  using show_ipv4_chars by fastforce

lemma parse_u32_small [simp]: "parse_u32 ''32'' = Some 32"
  using parse_u32_dec [of 32] by (simp add: dec_large dec_small digit_char_def)

lemma host_cidr_match [simp]: "cidr_match (host_cidr ip) a \<longleftrightarrow> a = ip"
proof -
  have "split_once (CHR ''/'') (host_cidr ip) = Some (show_ipv4 ip, ''32'')"
    using split_once_append [of "CHR ''/''" "show_ipv4 ip" "''32''"] by (simp add: host_cidr_def)
  then show ?thesis by (simp add: cidr_match_def)
qed

lemma host_cidr_inj [simp]: "host_cidr a = host_cidr b \<longleftrightarrow> a = b"
  by (metis host_cidr_match)

section \<open>The egress chain\<close>

definition from_addr :: "u32 \<Rightarrow> fw_rule \<Rightarrow> bool" where
  "from_addr a r \<longleftrightarrow> fr_src r = Some (host_cidr a)"

lemma egress_rules_from: "r \<in> set (egress_rules ip e) \<Longrightarrow> from_addr a r \<longleftrightarrow> a = ip"
  by (auto simp: egress_rules_def plain_rule_def from_addr_def split: if_splits)

lemma filter_egress_rules: "filter (from_addr a) (egress_rules ip e) = (if a = ip then egress_rules ip e else [])"
  using egress_rules_from [of _ ip e a] by (auto simp: filter_id_conv filter_empty_conv)

lemma delete_all:
  "filter P rs = xs \<Longrightarrow> script_rules (map Del xs @ ls) rs = script_rules ls (filter (\<lambda>r. \<not> P r) rs)"
proof (induction xs arbitrary: rs)
  case Nil
  then have "filter (\<lambda>r. \<not> P r) rs = rs" by (simp add: filter_id_conv filter_empty_conv)
  then show ?case by simp
next
  case (Cons x xs)
  then have x: "x \<in> set rs" "P x" by (metis filter_eq_ConsD in_set_conv_decomp, metis filter_eq_ConsD)
  have keep: "filter P (remove1 x ys) = remove1 x (filter P ys)" "filter (\<lambda>r. \<not> P r) (remove1 x ys) = filter (\<lambda>r. \<not> P r) ys" for ys
    using x(2) by (induction ys) auto
  have "filter P (remove1 x rs) = xs" using Cons.prems by (simp add: keep)
  from Cons.IH [OF this] x(1) show ?case by (simp add: delete_rule_def keep)
qed

lemma append_rules: "script_rules (map App xs) rs = Some (rs @ xs)"
  by (induction xs arbitrary: rs) (simp_all add: append_rule_def)

definition holds_addr :: "egress_node \<Rightarrow> u32 \<Rightarrow> egress \<Rightarrow> bool" where
  "holds_addr en a e \<longleftrightarrow> (\<exists>i. en_installed en i = Some (a, e))"

text \<open>
  The invariant, but for the addresses that two sandboxes once held at a time (\<open>shared\<close>): the rules of
  an address are those of the sandbox that has it, in their order, no two sandboxes have it, and there are
  no rules but theirs.
\<close>

definition chain_ok :: "u32 set \<Rightarrow> egress_node \<Rightarrow> bool" where
  "chain_ok shared en \<longleftrightarrow>
     (\<exists>rs. fw_chains (en_fw en) EGRESS_CHAIN = Some rs \<and>
       (\<forall>r \<in> set rs. \<exists>a e. r \<in> set (egress_rules a e) \<and> (a \<notin> shared \<longrightarrow> holds_addr en a e)) \<and>
       (\<forall>i a e. en_installed en i = Some (a, e) \<and> a \<notin> shared \<longrightarrow> filter (from_addr a) rs = egress_rules a e)) \<and>
     (\<forall>i j a e e'. en_installed en i = Some (a, e) \<and> en_installed en j = Some (a, e') \<and> a \<notin> shared \<longrightarrow> i = j)"

definition free_for :: "egress_node \<Rightarrow> string \<Rightarrow> u32 \<Rightarrow> bool" where
  "free_for en i a \<longleftrightarrow> (\<forall>j e. en_installed en j = Some (a, e) \<longrightarrow> j = i)"

lemma chain_okD:
  assumes "chain_ok shared en" "fw_chains (en_fw en) EGRESS_CHAIN = Some rs"
  shows "\<And>r. r \<in> set rs \<Longrightarrow> \<exists>a e. r \<in> set (egress_rules a e) \<and> (a \<notin> shared \<longrightarrow> holds_addr en a e)"
    and "\<And>j a e. en_installed en j = Some (a, e) \<Longrightarrow> a \<notin> shared \<Longrightarrow> filter (from_addr a) rs = egress_rules a e"
    and "\<And>j k a e e'. en_installed en j = Some (a, e) \<Longrightarrow> en_installed en k = Some (a, e') \<Longrightarrow> a \<notin> shared \<Longrightarrow> j = k"
proof -
  from assms obtain rs' where "fw_chains (en_fw en) EGRESS_CHAIN = Some rs'"
    "\<forall>r \<in> set rs'. \<exists>a e. r \<in> set (egress_rules a e) \<and> (a \<notin> shared \<longrightarrow> holds_addr en a e)"
    "\<forall>i a e. en_installed en i = Some (a, e) \<and> a \<notin> shared \<longrightarrow> filter (from_addr a) rs' = egress_rules a e"
    unfolding chain_ok_def by blast
  with assms(2) show "\<And>r. r \<in> set rs \<Longrightarrow> \<exists>a e. r \<in> set (egress_rules a e) \<and> (a \<notin> shared \<longrightarrow> holds_addr en a e)"
    "\<And>j a e. en_installed en j = Some (a, e) \<Longrightarrow> a \<notin> shared \<Longrightarrow> filter (from_addr a) rs = egress_rules a e" by simp_all
  show "\<And>j k a e e'. en_installed en j = Some (a, e) \<Longrightarrow> en_installed en k = Some (a, e') \<Longrightarrow> a \<notin> shared \<Longrightarrow> j = k"
    using assms(1) unfolding chain_ok_def by blast
qed

lemma chain_ok_rule:
  assumes "chain_ok shared en" "fw_chains (en_fw en) EGRESS_CHAIN = Some rs" "r \<in> set rs" "from_addr a r" "a \<notin> shared"
  shows "\<exists>e. holds_addr en a e"
proof -
  obtain b e where b: "r \<in> set (egress_rules b e)" "b \<notin> shared \<longrightarrow> holds_addr en b e"
    using chain_okD(1) [OF assms(1,2,3)] by blast
  with assms(4) have "a = b" by (simp add: egress_rules_from)
  with b(2) assms(5) show ?thesis by blast
qed

text \<open>Deleting the rules of one address leaves those of the others as they are.\<close>

lemma delete_some:
  "script_rules (map Del xs @ ls) rs = Some rs' \<Longrightarrow> \<forall>x\<in>set xs. from_addr was x \<Longrightarrow>
     \<exists>rs1. script_rules ls rs1 = Some rs' \<and> set rs1 \<subseteq> set rs \<and> (\<forall>a. a \<noteq> was \<longrightarrow> filter (from_addr a) rs1 = filter (from_addr a) rs)"
proof (induction xs arbitrary: rs)
  case (Cons x xs)
  then have x: "script_rules (map Del xs @ ls) (remove1 x rs) = Some rs'"
    by (auto simp: delete_rule_def split: if_splits)
  have other: "filter (from_addr a) (remove1 x ys) = filter (from_addr a) ys" if "a \<noteq> was" for a ys
    using Cons.prems(2) that by (induction ys) (auto simp: from_addr_def)
  obtain rs1 where "script_rules ls rs1 = Some rs'" "set rs1 \<subseteq> set (remove1 x rs)"
      "\<forall>a. a \<noteq> was \<longrightarrow> filter (from_addr a) rs1 = filter (from_addr a) (remove1 x rs)"
    using Cons.IH [OF x] Cons.prems(2) by auto
  then show ?case using other set_remove1_subset [of x rs] by (intro exI [of _ rs1]) auto
qed auto

text \<open>A script that succeeds takes the rules of the old address and adds those of the new one.\<close>

lemma script_result:
  assumes "chain_ok shared en" "fw_chains (en_fw en) EGRESS_CHAIN = Some rs"
    and "script_rules (egress_script (en_installed en i) ip want) rs = Some rs'"
  obtains rs1 where "rs' = rs1 @ egress_rules ip want" "set rs1 \<subseteq> set rs"
    "\<And>a. (\<And>e. en_installed en i \<noteq> Some (a, e)) \<Longrightarrow> filter (from_addr a) rs1 = filter (from_addr a) rs"
    "\<And>a e. en_installed en i = Some (a, e) \<Longrightarrow> a \<notin> shared \<Longrightarrow> filter (from_addr a) rs1 = []"
proof (cases "en_installed en i")
  case None
  with assms(3) have "rs' = rs @ egress_rules ip want" by (simp add: egress_script_def append_rules)
  then show ?thesis by (rule that) (simp_all add: None)
next
  case (Some we)
  obtain was e where we: "we = (was, e)" by (cases we)
  from assms(3) Some we have script: "script_rules (map Del (egress_rules was e) @ map App (egress_rules ip want)) rs = Some rs'"
    by (simp add: egress_script_def)
  have "\<forall>x\<in>set (egress_rules was e). from_addr was x" by (simp add: egress_rules_from)
  from delete_some [OF script this] obtain rs1 where rs1: "rs' = rs1 @ egress_rules ip want" "set rs1 \<subseteq> set rs"
      "\<forall>a. a \<noteq> was \<longrightarrow> filter (from_addr a) rs1 = filter (from_addr a) rs"
    by (auto simp: append_rules)
  have "filter (from_addr was) rs1 = []" if "was \<notin> shared"
  proof -
    have "filter (from_addr was) rs = egress_rules was e"
      using chain_okD(2) [OF assms(1,2)] Some we that by blast
    from delete_all [OF this, of "map App (egress_rules ip want)"] script rs1(1)
    have "rs1 = filter (\<lambda>r. \<not> from_addr was r) rs" by (simp add: append_rules)
    then show ?thesis by simp
  qed
  then have gone: "\<And>a ea. en_installed en i = Some (a, ea) \<Longrightarrow> a \<notin> shared \<Longrightarrow> filter (from_addr a) rs1 = []"
    by (simp add: Some we)
  have kept: "filter (from_addr a) rs1 = filter (from_addr a) rs" if "\<And>ea. en_installed en i \<noteq> Some (a, ea)" for a
    using rs1(3) that [of e] by (auto simp: Some we)
  show ?thesis by (rule that [OF rs1(1,2) kept gone])
qed

text \<open>A change that succeeds makes the chain what the new table says.\<close>

lemma chain_ok_change:
  assumes "chain_ok shared en" "fw_chains (en_fw en) EGRESS_CHAIN = Some rs"
    and "script_rules (egress_script (en_installed en i) ip want) rs = Some rs'" "fw_chains fw' EGRESS_CHAIN = Some rs'"
    and "new = Some (ip, want) \<and> (free_for en i ip \<or> ip \<in> shared') \<or> new = None \<and> egress_rules ip want = []"
    and "shared \<subseteq> shared'"
  shows "chain_ok shared' \<lparr>en_fw = fw', en_installed = (en_installed en)(i := new)\<rparr>"
proof -
  let ?en = "\<lparr>en_fw = fw', en_installed = (en_installed en)(i := new)\<rparr>"
  note old = chain_okD [OF assms(1,2)]
  obtain rs1 where rs1: "rs' = rs1 @ egress_rules ip want" "set rs1 \<subseteq> set rs"
    "\<And>a. (\<And>e. en_installed en i \<noteq> Some (a, e)) \<Longrightarrow> filter (from_addr a) rs1 = filter (from_addr a) rs"
    "\<And>a e. en_installed en i = Some (a, e) \<Longrightarrow> a \<notin> shared \<Longrightarrow> filter (from_addr a) rs1 = []"
    using script_result [OF assms(1-3)] by blast
  have empty: "r \<notin> set rs1" if "en_installed en i = Some (a, e)" "a \<notin> shared" "from_addr a r" for a e r
    using rs1(4) [OF that(1,2)] that(3) by (auto simp: filter_empty_conv)
  have "\<exists>a e. r \<in> set (egress_rules a e) \<and> (a \<notin> shared' \<longrightarrow> holds_addr ?en a e)" if r: "r \<in> set rs'" for r
  proof (cases "r \<in> set (egress_rules ip want)")
    case True
    with assms(5) have "new = Some (ip, want)" by auto
    with True show ?thesis by (intro exI [of _ ip] exI [of _ want]) (auto simp: holds_addr_def)
  next
    case False
    with r rs1(1,2) have r1: "r \<in> set rs1" "r \<in> set rs" by auto
    obtain a e where a: "r \<in> set (egress_rules a e)" "a \<notin> shared \<longrightarrow> holds_addr en a e" using old(1) [OF r1(2)] by blast
    have "holds_addr ?en a e" if "a \<notin> shared'"
    proof -
      have "a \<notin> shared" using assms(6) that by blast
      with a(2) obtain j where j: "en_installed en j = Some (a, e)" by (auto simp: holds_addr_def)
      have "j \<noteq> i" using empty [of a e r] j a(1) r1(1) \<open>a \<notin> shared\<close> by (auto simp: egress_rules_from)
      with j show ?thesis by (auto simp: holds_addr_def intro!: exI [of _ j])
    qed
    with a(1) show ?thesis by blast
  qed
  moreover have "filter (from_addr a) rs' = egress_rules a e" if h: "en_installed ?en j = Some (a, e)" "a \<notin> shared'" for j a e
  proof (cases "j = i")
    case True
    with h assms(5) have ae: "a = ip" "e = want" "free_for en i ip" by auto
    have "\<not> from_addr ip r" if r: "r \<in> set rs1" for r
    proof
      assume f: "from_addr ip r"
      have "ip \<notin> shared" using h(2) ae(1) assms(6) by blast
      moreover from this obtain e' where "holds_addr en ip e'" using chain_ok_rule [OF assms(1,2) _ f] r rs1(2) by blast
      then have "en_installed en i = Some (ip, e')" using ae(3) by (auto simp: holds_addr_def free_for_def)
      ultimately show False using empty f r by blast
    qed
    then show ?thesis using rs1(1) by (simp add: ae filter_egress_rules filter_empty_conv)
  next
    case False
    with h(1) have j: "en_installed en j = Some (a, e)" by simp
    have a: "a \<notin> shared" using h(2) assms(6) by blast
    have "en_installed en i \<noteq> Some (a, e')" for e' using old(3) [OF j _ a] False by blast
    then have "filter (from_addr a) rs1 = egress_rules a e" using rs1(3) old(2) [OF j a] by metis
    moreover have "filter (from_addr a) (egress_rules ip want) = []"
      using assms(5) h(2) j False by (auto simp: filter_egress_rules free_for_def)
    ultimately show ?thesis using rs1(1) by simp
  qed
  moreover have "j = k" if "en_installed ?en j = Some (a, e)" "en_installed ?en k = Some (a, e')" "a \<notin> shared'" for j k a e e'
    using that assms(5,6) old(3) [of j a e k e'] by (auto simp: free_for_def split: if_splits)
  ultimately show ?thesis using assms(4) unfolding chain_ok_def by (auto simp del: fun_upd_apply)
qed

section \<open>Histories\<close>

lemma run_fw_Inr: "run_fw bad what f fw = (fw', Inr u) \<longleftrightarrow> \<not> bad what \<and> f fw = Some fw'"
  by (auto simp: run_fw_def split: option.splits)

lemma run_fw_Inl: "run_fw bad what f fw = (fw', Inl e) \<Longrightarrow> fw' = fw"
  by (auto simp: run_fw_def split: if_splits option.splits)

lemma restore_Inr:
  "restore bad script fw = (fw', Inr u) \<longleftrightarrow> \<not> bad ''installing egress rules'' \<and>
     (\<exists>rs rs'. fw_chains fw EGRESS_CHAIN = Some rs \<and> script_rules script rs = Some rs' \<and>
        fw' = fw\<lparr>fw_chains := (fw_chains fw)(EGRESS_CHAIN \<mapsto> rs')\<rparr>)"
  by (auto simp: restore_def run_fw_Inr on_chain_def bind_eq_Some_conv)

lemma restore_Inl: "restore bad script fw = (fw', Inl e) \<Longrightarrow> fw' = fw"
  by (auto simp: restore_def dest: run_fw_Inl)

text \<open>Whether or not forwarding had to be turned on, the chains are those before.\<close>

lemma enable_forwarding_chains: "enable_forwarding bad fw = (fw', r) \<Longrightarrow> fw_chains fw' = fw_chains fw"
  by (auto simp: enable_forwarding_def run_fw_def split: if_splits)

definition same_but_egress :: "firewall \<Rightarrow> firewall \<Rightarrow> bool" where
  "same_but_egress fw fw' \<longleftrightarrow> (\<forall>c. c \<noteq> EGRESS_CHAIN \<longrightarrow> fw_chains fw' c = fw_chains fw c)"

lemma egress_set_Inl:
  assumes "egress_set bad i ip want en = (en', Inl e)"
  shows "en_installed en' = en_installed en \<and> fw_chains (en_fw en') = fw_chains (en_fw en)"
  using assms
  by (auto simp: egress_set_def Let_def split: if_splits prod.splits sum.splits
      dest!: enable_forwarding_chains restore_Inl)

text \<open>Rules that do not change leave the chain as it is, and it is what the new table says.\<close>

lemma chain_ok_same:
  assumes "chain_ok shared en" "en_installed en i = Some (ip, e)" "egress_rules ip e = egress_rules ip want"
  shows "chain_ok shared (en\<lparr>en_installed := (en_installed en)(i \<mapsto> (ip, want))\<rparr>)"
proof -
  let ?en = "en\<lparr>en_installed := (en_installed en)(i \<mapsto> (ip, want))\<rparr>"
  obtain rs where rs: "fw_chains (en_fw en) EGRESS_CHAIN = Some rs" using assms(1) by (auto simp: chain_ok_def)
  note old = chain_okD [OF assms(1) rs]
  have "\<exists>a e. r \<in> set (egress_rules a e) \<and> (a \<notin> shared \<longrightarrow> holds_addr ?en a e)" if r: "r \<in> set rs" for r
  proof -
    obtain a e' where a: "r \<in> set (egress_rules a e')" "a \<notin> shared \<longrightarrow> holds_addr en a e'" using old(1) [OF r] by blast
    show ?thesis
    proof (cases "a \<in> shared")
      case False
      with a(2) obtain k where k: "en_installed en k = Some (a, e')" by (auto simp: holds_addr_def)
      show ?thesis
      proof (cases "k = i")
        case True
        with k assms(2,3) a(1) show ?thesis by (auto simp: holds_addr_def intro!: exI [of _ a] exI [of _ want] exI [of _ i])
      qed (use k a(1) in \<open>auto simp: holds_addr_def intro!: exI [of _ a] exI [of _ e'] exI [of _ k]\<close>)
    qed (use a(1) in blast)
  qed
  moreover have "filter (from_addr a) rs = egress_rules a e'" if "en_installed ?en j = Some (a, e')" "a \<notin> shared" for j a e'
    using that old(2) assms(2,3) by (auto split: if_splits)
  moreover have "j = k" if "en_installed ?en j = Some (a, e')" "en_installed ?en k = Some (a, e'')" "a \<notin> shared" for j k a e' e''
    using that old(3) assms(2) by (auto split: if_splits)
  ultimately show ?thesis using rs unfolding chain_ok_def by (auto simp del: fun_upd_apply)
qed

lemma closed_rules [simp]: "egress_rules ip default_egress_policy = []"
  by (simp add: egress_rules_def default_egress_policy_def)

text \<open>An address becomes shared when exceptions are set on it for one sandbox while another has some.\<close>

definition shares :: "egress_node \<Rightarrow> string \<Rightarrow> u32 \<Rightarrow> egress \<Rightarrow> u32 set" where
  "shares en i ip want = (if want = default_egress_policy \<or> free_for en i ip then {} else {ip})"

lemma chain_ok_more: "chain_ok shared en \<Longrightarrow> shared \<subseteq> shared' \<Longrightarrow> chain_ok shared' en"
  unfolding chain_ok_def by (meson subsetD)

lemma egress_set_chain:
  assumes "chain_ok shared en" "fw_chains (en_fw en) EGRESS_CHAIN = Some rs"
    and "script_rules (egress_script (en_installed en i) ip want) rs = Some rs'" "fw_chains fw' EGRESS_CHAIN = Some rs'"
  shows "chain_ok (shared \<union> shares en i ip want)
    \<lparr>en_fw = fw', en_installed = (en_installed en)(i := (if want = default_egress_policy then None else Some (ip, want)))\<rparr>"
  by (rule chain_ok_change [OF assms]) (auto simp: shares_def)

lemma egress_set_Inr:
  assumes "chain_ok shared en" "egress_set bad i ip want en = (en', Inr u)"
  shows "chain_ok (shared \<union> shares en i ip want) en' \<and> same_but_egress (en_fw en) (en_fw en')"
proof -
  let ?new = "if want = default_egress_policy then None else Some (ip, want)"
  obtain rs where rs: "fw_chains (en_fw en) EGRESS_CHAIN = Some rs" using assms(1) by (auto simp: chain_ok_def)
  have en': "en' = \<lparr>en_fw = en_fw en', en_installed = (en_installed en)(i := ?new)\<rparr>"
    using assms(2) by (auto simp: egress_set_def Let_def split: prod.splits sum.splits)
  show ?thesis
  proof (cases "installed_rules (en_installed en i) = egress_rules ip want")
    case False
    with assms(2) obtain fw u' where "restore bad (egress_script (en_installed en i) ip want) fw = (en_fw en', Inr u')"
      "fw_chains fw = fw_chains (en_fw en)"
      by (auto simp: egress_set_def Let_def split: if_splits prod.splits sum.splits dest: enable_forwarding_chains)
    with rs obtain rs' where "script_rules (egress_script (en_installed en i) ip want) rs = Some rs'"
      "fw_chains (en_fw en') EGRESS_CHAIN = Some rs'" "same_but_egress (en_fw en) (en_fw en')"
      by (auto simp: restore_Inr same_but_egress_def)
    with egress_set_chain [OF assms(1) rs] en' show ?thesis by metis
  next
    case True
    with assms(2) have same: "en_fw en' = en_fw en" by (auto simp: egress_set_def Let_def)
    have "chain_ok (shared \<union> shares en i ip want) en'"
    proof (cases "egress_rules ip want = []")
      case e: True
      have "script_rules (egress_script (en_installed en i) ip want) rs = Some rs"
        using True e by (auto simp: installed_rules_def egress_script_def split: option.splits)
      moreover have "fw_chains (en_fw en') EGRESS_CHAIN = Some rs" using same rs by simp
      ultimately show ?thesis using egress_set_chain [OF assms(1) rs] en' by metis
    next
      case ne: False
      with True obtain was e where old: "en_installed en i = Some (was, e)" "egress_rules was e = egress_rules ip want"
        by (auto simp: installed_rules_def split: option.splits)
      with ne have "was = ip" by (metis egress_rules_from last_in_set)
      with chain_ok_same [OF assms(1), of i ip e want] old ne en' same have "chain_ok shared en'"
        by (cases en) auto
      then show ?thesis by (rule chain_ok_more) simp
    qed
    with same show ?thesis by (simp add: same_but_egress_def)
  qed
qed

lemma egress_clear_keeps:
  assumes "chain_ok shared en" "egress_clear bad i en = (en', r)"
  shows "chain_ok shared en' \<and> same_but_egress (en_fw en) (en_fw en')"
proof (cases "en_installed en i")
  case None
  with assms show ?thesis by (simp add: egress_clear_def same_but_egress_def)
next
  case (Some we)
  obtain ip e where we: "we = (ip, e)" by (cases we)
  obtain rs where rs: "fw_chains (en_fw en) EGRESS_CHAIN = Some rs" using assms(1) by (auto simp: chain_ok_def)
  show ?thesis
  proof (cases r)
    case (Inl x)
    with assms Some we have "en' = en"
      by (auto simp: egress_clear_def dest!: restore_Inl split: prod.splits sum.splits)
    with assms(1) show ?thesis by (simp add: same_but_egress_def)
  next
    case (Inr u)
    with assms(2) Some we obtain fw u' where c: "restore bad (egress_script (en_installed en i) ip default_egress_policy) (en_fw en) = (fw, Inr u')"
      "en' = \<lparr>en_fw = fw, en_installed = (en_installed en)(i := None)\<rparr>"
      by (auto simp: egress_clear_def split: prod.splits sum.splits)
    with rs obtain rs' where "script_rules (egress_script (en_installed en i) ip default_egress_policy) rs = Some rs'"
      "fw_chains fw EGRESS_CHAIN = Some rs'" "same_but_egress (en_fw en) fw"
      by (auto simp: restore_Inr same_but_egress_def)
    with egress_set_chain [OF assms(1) rs this(1,2)] c(2) show ?thesis by (simp add: shares_def)
  qed
qed

text \<open>
  Every state of a node's filter after its rules are in place: exceptions set and cleared, with
  whatever fails, and sandboxes refused and let through again; and the addresses that have been shared.
\<close>

inductive filter_reach :: "firewall \<Rightarrow> u32 set \<Rightarrow> egress_node \<Rightarrow> bool" for fw0 where
  fr_start: "filter_reach fw0 {} \<lparr>en_fw = fw0, en_installed = Map.empty\<rparr>"
| fr_set: "filter_reach fw0 shared en \<Longrightarrow> filter_reach fw0 (shared \<union> shares en i ip want) (fst (egress_set bad i ip want en))"
| fr_clear: "filter_reach fw0 shared en \<Longrightarrow> filter_reach fw0 shared (fst (egress_clear bad i en))"
| fr_reject: "filter_reach fw0 shared en \<Longrightarrow> filter_reach fw0 shared (en\<lparr>en_fw := fst (reject bad ip (en_fw en))\<rparr>)"
| fr_allow: "filter_reach fw0 shared en \<Longrightarrow> filter_reach fw0 shared (en\<lparr>en_fw := fst (allow_again bad ip (en_fw en))\<rparr>)"

definition same_but_ours :: "firewall \<Rightarrow> firewall \<Rightarrow> bool" where
  "same_but_ours fw fw' \<longleftrightarrow> (\<forall>c. c \<noteq> EGRESS_CHAIN \<and> c \<noteq> COLD_CHAIN \<longrightarrow> fw_chains fw' c = fw_chains fw c)"

lemma run_on_chain_other:
  "c \<noteq> d \<Longrightarrow> fw_chains (fst (run_fw bad what (on_chain d f) fw)) c = fw_chains fw c"
  by (cases "bad what"; cases "Option.bind (fw_chains fw d) f") (simp_all add: run_fw_def on_chain_def)

lemma cold_steps_chain:
  "c \<noteq> COLD_CHAIN \<Longrightarrow> fw_chains (fst (reject bad ip fw)) c = fw_chains fw c"
  "c \<noteq> COLD_CHAIN \<Longrightarrow> fw_chains (fst (allow_again bad ip fw)) c = fw_chains fw c"
  by (simp_all add: reject_def allow_again_def run_on_chain_other)

lemma chain_names [simp]: "EGRESS_CHAIN \<noteq> COLD_CHAIN" "COLD_CHAIN \<noteq> EGRESS_CHAIN" "PUBLIC_CHAIN \<noteq> EGRESS_CHAIN"
  "PUBLIC_CHAIN \<noteq> COLD_CHAIN" "''FORWARD'' \<noteq> EGRESS_CHAIN" "''FORWARD'' \<noteq> COLD_CHAIN" "''FORWARD'' \<noteq> PUBLIC_CHAIN"
  "''INPUT'' \<noteq> EGRESS_CHAIN" "''INPUT'' \<noteq> COLD_CHAIN" "''INPUT'' \<noteq> PUBLIC_CHAIN" "''OUTPUT'' \<noteq> EGRESS_CHAIN"
  "''OUTPUT'' \<noteq> COLD_CHAIN" "''OUTPUT'' \<noteq> PUBLIC_CHAIN" "EGRESS_CHAIN \<noteq> PUBLIC_CHAIN" "COLD_CHAIN \<noteq> PUBLIC_CHAIN"
  by (simp_all add: EGRESS_CHAIN_def COLD_CHAIN_def PUBLIC_CHAIN_def)

lemma chain_ok_cong:
  "en_installed en' = en_installed en \<Longrightarrow> fw_chains (en_fw en') EGRESS_CHAIN = fw_chains (en_fw en) EGRESS_CHAIN
     \<Longrightarrow> chain_ok shared en' = chain_ok shared en"
  by (simp add: chain_ok_def holds_addr_def)

lemma filter_reach_ok:
  assumes "filter_reach fw0 shared en" "fw_chains fw0 EGRESS_CHAIN = Some []"
  shows "chain_ok shared en \<and> same_but_ours fw0 (en_fw en)"
  using assms(1)
proof (induction rule: filter_reach.induct)
  case fr_start
  then show ?case using assms(2) by (simp add: chain_ok_def same_but_ours_def)
next
  case (fr_set shared en i ip want bad)
  show ?case
  proof (cases "egress_set bad i ip want en")
    case (Pair en' r)
    show ?thesis
    proof (cases r)
      case (Inl e)
      note same = egress_set_Inl [OF Pair [unfolded Inl]]
      then have "chain_ok shared en' = chain_ok shared en" by (intro chain_ok_cong) simp_all
      with same Pair fr_set.IH show ?thesis by (auto simp: same_but_ours_def intro: chain_ok_more)
    next
      case (Inr u)
      with egress_set_Inr [of shared en bad i ip want en' u] Pair fr_set show ?thesis
        by (auto simp: same_but_ours_def same_but_egress_def)
    qed
  qed
next
  case (fr_clear shared en bad i)
  then show ?case
    using egress_clear_keeps [of shared en bad i] by (cases "egress_clear bad i en") (auto simp: same_but_ours_def same_but_egress_def)
next
  case (fr_reject shared en bad ip)
  let ?en = "en\<lparr>en_fw := fst (reject bad ip (en_fw en))\<rparr>"
  have "chain_ok shared ?en = chain_ok shared en" by (rule chain_ok_cong) (simp_all add: cold_steps_chain)
  with fr_reject.IH show ?case by (simp add: same_but_ours_def cold_steps_chain)
next
  case (fr_allow shared en bad ip)
  let ?en = "en\<lparr>en_fw := fst (allow_again bad ip (en_fw en))\<rparr>"
  have "chain_ok shared ?en = chain_ok shared en" by (rule chain_ok_cong) (simp_all add: cold_steps_chain)
  with fr_allow.IH show ?case by (simp add: same_but_ours_def cold_steps_chain)
qed

section \<open>The rules a node starts with\<close>

lemma run_all_append:
  "run_all (ss @ ss') fw = (fw', Inr u) \<longleftrightarrow> (\<exists>fw1. run_all ss fw = (fw1, Inr ()) \<and> run_all ss' fw1 = (fw', Inr u))"
  by (induction ss arbitrary: fw) (auto split: prod.splits sum.splits)

lemma run_all_single [simp]: "run_all [s] fw = (fw', Inr u) \<longleftrightarrow> s fw = (fw', Inr u)"
  by (auto split: prod.splits sum.splits)

text \<open>Rules that are not there yet are put on top, in their order.\<close>

lemma ensure_fresh:
  assumes "run_all (map (\<lambda>(k, r). ensure_rule bad what c (k + 1) r) (List.enumerate (length pre) rs)) fw = (fw', Inr u)"
    and "fw_chains fw c = Some (pre @ others)" "distinct (pre @ rs)" "set rs \<inter> set others = {}"
  shows "fw_chains fw' = (fw_chains fw)(c \<mapsto> pre @ rs @ others)"
  using assms
proof (induction rs arbitrary: pre fw)
  case (Cons r rs)
  have "\<not> has_rule c r fw" using Cons.prems(2-4) by (auto simp: has_rule_def)
  then have "ensure_rule bad what c (length pre + 1) r fw = run_fw bad what (on_chain c (insert_rule (length pre + 1) r)) fw"
    by (simp add: ensure_rule_def)
  with Cons.prems(1) obtain fw1 where
    s: "run_fw bad what (on_chain c (insert_rule (length pre + 1) r)) fw = (fw1, Inr ())"
      "run_all (map (\<lambda>(k, r). ensure_rule bad what c (k + 1) r) (List.enumerate (length (pre @ [r])) rs)) fw1 = (fw', Inr u)"
    by (auto split: prod.splits sum.splits)
  then have fw1: "fw_chains fw1 = (fw_chains fw)(c \<mapsto> pre @ r # others)"
    using Cons.prems(2) by (auto simp: run_fw_Inr on_chain_def insert_rule_def)
  have "fw_chains fw' = (fw_chains fw1)(c \<mapsto> (pre @ [r]) @ rs @ others)"
    by (rule Cons.IH [OF s(2)]) (use Cons.prems fw1 in auto)
  then show ?case by (simp add: fw1)
qed (auto simp: fun_upd_idem)

lemma ensure_there:
  "set rs \<subseteq> set chain \<Longrightarrow> fw_chains fw c = Some chain \<Longrightarrow> run_all (ensure_all bad what c rs) fw = (fw, Inr ())"
proof -
  have "run_all (map (\<lambda>(k, r). ensure_rule bad what c (k + 1) r) (List.enumerate n rs)) fw = (fw, Inr ())"
    if "set rs \<subseteq> set chain" "fw_chains fw c = Some chain" for n
    using that by (induction rs arbitrary: n) (auto simp: ensure_rule_def has_rule_def)
  then show "set rs \<subseteq> set chain \<Longrightarrow> fw_chains fw c = Some chain \<Longrightarrow> run_all (ensure_all bad what c rs) fw = (fw, Inr ())"
    by (simp add: ensure_all_def)
qed

lemma ensure_other:
  "run_all (ensure_all bad what c rs) fw = (fw', Inr u) \<Longrightarrow> d \<noteq> c \<Longrightarrow> fw_chains fw' d = fw_chains fw d"
proof -
  have "fw_chains fw' d = fw_chains fw d"
    if "run_all (map (\<lambda>(k, r). ensure_rule bad what c (k + 1) r) (List.enumerate n rs)) fw = (fw', Inr u)" "d \<noteq> c" for n
    using that
    by (induction rs arbitrary: n fw)
      (auto simp: ensure_rule_def run_fw_def on_chain_def bind_eq_Some_conv split: prod.splits sum.splits if_splits option.splits)
  then show "run_all (ensure_all bad what c rs) fw = (fw', Inr u) \<Longrightarrow> d \<noteq> c \<Longrightarrow> fw_chains fw' d = fw_chains fw d"
    by (simp add: ensure_all_def)
qed

lemma clear_chain_effect:
  "run_all (clear_chain bad c) fw = (fw', Inr u) \<Longrightarrow> fw_chains fw' = (fw_chains fw)(c \<mapsto> [])"
  by (auto simp: clear_chain_def run_fw_Inr on_chain_def new_chain_def bind_eq_Some_conv
      split: prod.splits sum.splits if_splits)

lemma append_all_effect:
  "run_all (append_all bad what c rs) fw = (fw', Inr u) \<Longrightarrow> fw_chains fw c = Some old
     \<Longrightarrow> fw_chains fw' = (fw_chains fw)(c \<mapsto> old @ rs)"
proof (induction rs arbitrary: fw old)
  case (Cons r rs)
  have "append_all bad what c (r # rs) = run_fw bad what (on_chain c (append_rule r)) # append_all bad what c rs"
    by (simp add: append_all_def)
  with Cons.prems(1) obtain fw1 where r: "run_fw bad what (on_chain c (append_rule r)) fw = (fw1, Inr ())"
    and s: "run_all (append_all bad what c rs) fw1 = (fw', Inr u)"
    by (auto split: prod.splits sum.splits)
  have "fw_chains fw1 = (fw_chains fw)(c \<mapsto> old @ [r])"
    using r Cons.prems(2) by (auto simp: run_fw_Inr on_chain_def append_rule_def)
  with Cons.IH [OF s] show ?case by (auto simp: fun_eq_iff)
qed (auto simp: append_all_def fun_upd_idem)

lemma cold_chain_other:
  assumes "run_all (cold_chain_steps bad) fw = (fw', Inr u)" "c \<noteq> COLD_CHAIN" "c \<noteq> ''OUTPUT''"
  shows "fw_chains fw' c = fw_chains fw c"
proof -
  obtain fw1 fw2 where s1: "(if fw_chains fw COLD_CHAIN \<noteq> None then (fw, Inr ())
      else run_fw bad ''creating the cold chain'' (new_chain COLD_CHAIN) fw) = (fw1, Inr ())"
    and s: "ensure_rule bad ''jumping to the cold chain'' ''OUTPUT'' 1 (plain_rule None None (Jump COLD_CHAIN)) fw1 = (fw2, Inr ())"
    "fw' = fst (run_fw bad ''clearing the cold chain'' (on_chain COLD_CHAIN (\<lambda>_. Some [])) fw2)"
    using assms(1) by (auto simp: cold_chain_steps_def split: prod.splits sum.splits)
  have "fw_chains fw1 c = fw_chains fw c"
    using s1 assms(2) by (auto simp: run_fw_Inr new_chain_def split: if_splits)
  moreover have "fw_chains fw2 c = fw_chains fw1 c"
    using s(1) assms(3) run_on_chain_other [of c "''OUTPUT''" bad]
    by (auto simp: ensure_rule_def split: if_splits) (metis fst_conv)
  ultimately show ?thesis using s(2) assms(2) by (simp add: run_on_chain_other)
qed

lemma masquerade_chains: "ensure_masquerade bad subnet fw = (fw', Inr u) \<Longrightarrow> fw_chains fw' = fw_chains fw"
  by (auto simp: ensure_masquerade_def run_fw_Inr split: if_splits)

lemma distinct_forward: "distinct (forward_rules subnet)"
  by (simp add: forward_rules_def plain_rule_def)

definition public_rules :: "fw_rule list" where
  "public_rules = private_rules @ [plain_rule None None Accept]"

lemma install_chains:
  assumes "install_rules bad subnet fw = (fw', Inr u)" "fw_chains fw ''FORWARD'' = Some rs"
  shows "fw_chains fw' EGRESS_CHAIN = Some []" "fw_chains fw' PUBLIC_CHAIN = Some public_rules"
    "set rs \<inter> set (forward_rules subnet) = {} \<Longrightarrow> fw_chains fw' ''FORWARD'' = Some (forward_rules subnet @ rs)"
    "set (forward_rules subnet) \<subseteq> set rs \<Longrightarrow> fw_chains fw' ''FORWARD'' = Some rs"
proof -
  obtain f1 f2 f3 f4 f5 f6 f7 f8 where
    s: "run_all (ensure_all bad ''installing an INPUT rule'' ''INPUT'' (input_rules subnet)) fw = (f1, Inr ())"
      "run_all (clear_chain bad EGRESS_CHAIN) f1 = (f2, Inr ())" "run_all (clear_chain bad PUBLIC_CHAIN) f2 = (f3, Inr ())"
      "run_all (append_all bad ''keeping private addresses out of the internet'' PUBLIC_CHAIN private_rules) f3 = (f4, Inr ())"
      "run_all (append_all bad ''accepting the internet'' PUBLIC_CHAIN [plain_rule None None Accept]) f4 = (f5, Inr ())"
      "run_all (ensure_all bad ''installing a FORWARD rule'' ''FORWARD'' (forward_rules subnet)) f5 = (f6, Inr ())"
      "ensure_masquerade bad subnet f6 = (f7, Inr ())" "run_all (cold_chain_steps bad) f7 = (f8, Inr ())"
      "fw' = f8\<lparr>fw_unreachable := List.insert subnet (fw_unreachable f8)\<rparr>"
    using assms(1) unfolding install_rules_def run_all_append run_all_single run_fw_Inr by auto
  have f3: "fw_chains f3 = (fw_chains f1)(EGRESS_CHAIN \<mapsto> [], PUBLIC_CHAIN \<mapsto> [])"
    using clear_chain_effect [OF s(2)] clear_chain_effect [OF s(3)] by simp
  have f5: "fw_chains f5 = (fw_chains f1)(EGRESS_CHAIN \<mapsto> [], PUBLIC_CHAIN \<mapsto> public_rules)"
    using append_all_effect [OF s(4), of "[]"] append_all_effect [OF s(5), of private_rules] f3
    by (simp add: public_rules_def)
  have fwd: "fw_chains f5 ''FORWARD'' = Some rs"
    using f5 ensure_other [OF s(1)] assms(2) by simp
  have out: "fw_chains fw' c = fw_chains f6 c" if "c \<noteq> COLD_CHAIN" "c \<noteq> ''OUTPUT''" for c
    using s(9) cold_chain_other [OF s(8) that] masquerade_chains [OF s(7)] by simp
  have kept: "fw_chains f6 c = fw_chains f5 c" if "c \<noteq> ''FORWARD''" for c
    by (rule ensure_other [OF s(6) that])
  show "fw_chains fw' EGRESS_CHAIN = Some []" "fw_chains fw' PUBLIC_CHAIN = Some public_rules"
    using out kept f5 by (simp_all add: chain_names [symmetric])
  show "fw_chains fw' ''FORWARD'' = Some (forward_rules subnet @ rs)" if "set rs \<inter> set (forward_rules subnet) = {}"
    using ensure_fresh [of bad "''installing a FORWARD rule''" "''FORWARD''" "[]" "forward_rules subnet" f5 f6 "()" rs]
      s(6) fwd that distinct_forward out by (simp add: ensure_all_def Int_commute)
  show "fw_chains fw' ''FORWARD'' = Some rs" if "set (forward_rules subnet) \<subseteq> set rs"
    using ensure_there [OF that fwd] s(6) fwd out by simp
qed

section \<open>Policies\<close>

text \<open>
  What a policy allows: \<open>allow\<close> wins over \<open>deny\<close>, which wins over the internet, and the
  internet is every address but the private ones.
\<close>

definition named_by :: "string list \<Rightarrow> u32 \<Rightarrow> bool" where
  "named_by cidrs a \<longleftrightarrow> list_ex (\<lambda>c. cidr_match c a) cidrs"

definition permits :: "egress \<Rightarrow> u32 \<Rightarrow> bool" where
  "permits e a \<longleftrightarrow> named_by (allow e) a \<or> internet e \<and> \<not> named_by (deny e) a \<and> \<not> named_by NOT_PUBLIC a"

lemma walk_public:
  "walk ch n public_rules p = (if named_by NOT_PUBLIC (pk_dst p) then None else Some Accept)"
proof -
  have "walk ch n (map (\<lambda>c. plain_rule None (Some c) Return) NOT_PUBLIC @ [plain_rule None None Accept]) p =
      (if named_by NOT_PUBLIC (pk_dst p) then None else Some Accept)"
    by (subst walk_hits) (simp_all add: named_by_def matches_def plain_rule_def)
  then show ?thesis by (simp add: public_rules_def private_rules_def)
qed

lemma walk_exceptions:
  assumes "ch PUBLIC_CHAIN = Some public_rules"
  shows "walk ch (Suc n) (egress_rules (pk_src p) e) p =
    (if permits e (pk_dst p) then Some Accept
     else if internet e \<and> named_by (deny e) (pk_dst p) then Some Drop else None)"
proof -
  let ?src = "Some (host_cidr (pk_src p))"
  have jump: "walk ch (Suc n) [plain_rule ?src None (Jump PUBLIC_CHAIN)] p =
      (if named_by NOT_PUBLIC (pk_dst p) then None else Some Accept)"
    by (simp add: matches_def plain_rule_def assms walk_public)
  have "walk ch (Suc n) (if internet e then map (\<lambda>c. plain_rule ?src (Some c) Drop) (deny e) @
      [plain_rule ?src None (Jump PUBLIC_CHAIN)] else []) p =
    (if internet e then if named_by (deny e) (pk_dst p) then Some Drop
       else if named_by NOT_PUBLIC (pk_dst p) then None else Some Accept else None)"
    by (cases "internet e") (simp_all add: walk_hits jump named_by_def del: walk.simps(2))
  then show ?thesis
    unfolding egress_rules_def by (subst walk_hits) (auto simp: permits_def named_by_def)
qed

lemma walk_egress:
  assumes "chain_ok shared en" "fw_chains (en_fw en) EGRESS_CHAIN = Some rs" "fw_chains (en_fw en) PUBLIC_CHAIN = Some public_rules"
    and "pk_src p \<notin> shared"
  shows "walk (fw_chains (en_fw en)) (Suc n) rs p = Some Accept \<longleftrightarrow> (\<exists>e. holds_addr en (pk_src p) e \<and> permits e (pk_dst p))"
    and "walk (fw_chains (en_fw en)) (Suc n) rs p \<in> {None, Some Accept, Some Drop}"
proof -
  let ?w = "\<lambda>rs. walk (fw_chains (en_fw en)) (Suc n) rs p"
  note ok = chain_okD [OF assms(1,2)]
  have "from_addr (pk_src p) r" if r: "r \<in> set rs" "matches r p" for r
  proof -
    obtain a e where "r \<in> set (egress_rules a e)" using ok(1) [OF r(1)] by blast
    with r(2) show ?thesis
      by (auto simp: egress_rules_def from_addr_def plain_rule_def matches_def split: if_splits)
  qed
  then have w: "?w rs = ?w (filter (from_addr (pk_src p)) rs)" by (simp add: walk_filter)
  have "(?w rs = Some Accept \<longleftrightarrow> (\<exists>e. holds_addr en (pk_src p) e \<and> permits e (pk_dst p))) \<and> ?w rs \<in> {None, Some Accept, Some Drop}"
  proof (cases "\<exists>e. holds_addr en (pk_src p) e")
    case True
    then obtain i e where i: "en_installed en i = Some (pk_src p, e)" by (auto simp: holds_addr_def)
    then have "holds_addr en (pk_src p) e' \<longleftrightarrow> e' = e" for e'
      using ok(3) [OF i _ assms(4)] by (auto simp: holds_addr_def)
    moreover have "?w rs = ?w (egress_rules (pk_src p) e)" using w ok(2) [OF i assms(4)] by simp
    ultimately show ?thesis by (simp add: walk_exceptions [where ch = "fw_chains (en_fw en)", OF assms(3)])
  next
    case False
    have "filter (from_addr (pk_src p)) rs = []"
      using chain_ok_rule [OF assms(1,2) _ _ assms(4)] False by (auto simp: filter_empty_conv)
    with w False show ?thesis by simp
  qed
  then show "?w rs = Some Accept \<longleftrightarrow> (\<exists>e. holds_addr en (pk_src p) e \<and> permits e (pk_dst p))"
    "?w rs \<in> {None, Some Accept, Some Drop}" by blast+
qed

text \<open>What a packet from a sandbox meets in the whole filter.\<close>

lemma forwarded_from_sandbox:
  assumes "fw_chains (en_fw en) ''FORWARD'' = Some (forward_rules subnet @ others)"
    and "fw_chains (en_fw en) EGRESS_CHAIN = Some rs" "cidr_match subnet (pk_src p)"
  shows "forwarded (en_fw en) p =
    (if pk_established p \<and> cidr_match subnet (pk_dst p) then Some Accept
     else case walk (fw_chains (en_fw en)) 2 rs p of Some v \<Rightarrow> Some v | None \<Rightarrow> Some Reject)"
  using assms
  by (auto simp: forwarded_def forward_rules_def plain_rule_def matches_def numeral_3_eq_3 numeral_2_eq_2 split: option.split)

lemma filter_in_place:
  assumes "install_rules bad subnet fw = (fw0, Inr ())" "fw_chains fw ''FORWARD'' = Some others"
    and "set others \<inter> set (forward_rules subnet) = {}" "filter_reach fw0 shared en"
  obtains rs where "chain_ok shared en" "fw_chains (en_fw en) ''FORWARD'' = Some (forward_rules subnet @ others)"
    "fw_chains (en_fw en) PUBLIC_CHAIN = Some public_rules" "fw_chains (en_fw en) EGRESS_CHAIN = Some rs"
proof -
  note base = install_chains [OF assms(1,2)]
  note reach = filter_reach_ok [OF assms(4) base(1)]
  obtain rs where "fw_chains (en_fw en) EGRESS_CHAIN = Some rs" using reach by (auto simp: chain_ok_def)
  then show ?thesis using that [of rs] reach base(2,3) assms(3) by (simp add: same_but_ours_def)
qed


text \<open>
  Clearing may fail after the sandbox is gone, and is not tried again. Its exceptions stay, and the next
  sandbox on the address has them: with a closed policy, which writes no rule, it may send whatever the
  one before it could.
\<close>

theorem exceptions_are_inherited:
  assumes "install_rules bad subnet fw = (fw0, Inr ())" "fw_chains fw ''FORWARD'' = Some others"
    and "set others \<inter> set (forward_rules subnet) = {}" "filter_reach fw0 shared en"
    and "en_installed en i = Some (ip, e)" "ip \<notin> shared" "cidr_match subnet ip"
    and "bad' ''installing egress rules''" "en_installed en j = None" "pk_src p = ip" "permits e (pk_dst p)"
  shows "\<exists>x. snd (egress_clear bad' i en) = Inl x" and
    "egress_set bad'' j ip default_egress_policy (fst (egress_clear bad' i en)) = (en, Inr ())" and
    "forwarded (en_fw en) p = Some Accept"
proof -
  have "restore bad' s (en_fw en) = (en_fw en, Inl ''installing egress rules'')" for s
    using assms(8) by (simp add: restore_def run_fw_def)
  then have c: "egress_clear bad' i en = (en, Inl ''installing egress rules'')" using assms(5) by (simp add: egress_clear_def)
  then show "\<exists>x. snd (egress_clear bad' i en) = Inl x" by simp
  show "egress_set bad'' j ip default_egress_policy (fst (egress_clear bad' i en)) = (en, Inr ())"
    using c assms(9) by (simp add: egress_set_def installed_rules_def fun_upd_idem)
  have "holds_addr en (pk_src p) e" using assms(5,10) by (auto simp: holds_addr_def)
  moreover obtain rs where p: "chain_ok shared en" "fw_chains (en_fw en) ''FORWARD'' = Some (forward_rules subnet @ others)"
    "fw_chains (en_fw en) PUBLIC_CHAIN = Some public_rules" "fw_chains (en_fw en) EGRESS_CHAIN = Some rs"
    using filter_in_place [OF assms(1-4)] by blast
  ultimately have "walk (fw_chains (en_fw en)) 2 rs p = Some Accept"
    using walk_egress(1) [OF p(1,4,3), of p 1] assms(6,10,11) by (auto simp: numeral_2_eq_2)
  then show "forwarded (en_fw en) p = Some Accept"
    using forwarded_from_sandbox [OF p(2,4)] assms(7,10) by simp
qed

text \<open>What is sent to a sandbox from elsewhere, and answers nothing it sent, is dropped.\<close>

theorem sandboxes_sealed:
  assumes "install_rules bad subnet fw = (fw0, Inr ())" "fw_chains fw ''FORWARD'' = Some others"
    and "set others \<inter> set (forward_rules subnet) = {}" "filter_reach fw0 shared en"
    and "\<not> cidr_match subnet (pk_src p)" "cidr_match subnet (pk_dst p)" "\<not> pk_established p"
  shows "forwarded (en_fw en) p = Some Drop"
proof -
  note base = install_chains [OF assms(1,2)]
  have "fw_chains (en_fw en) ''FORWARD'' = Some (forward_rules subnet @ others)"
    using filter_reach_ok [OF assms(4) base(1)] base(3) assms(3) by (simp add: same_but_ours_def)
  with assms(5-7) show ?thesis by (simp add: forwarded_def forward_rules_def plain_rule_def matches_def)
qed

text \<open>
  A node that restarts forgets every exception: the rules put in place again, over whatever it
  had come to, are those it first started with, and no sandbox may send anything until told again.
\<close>

theorem restart_closes:
  assumes "install_rules bad subnet fw = (fw0, Inr ())" "fw_chains fw ''FORWARD'' = Some others"
    and "set others \<inter> set (forward_rules subnet) = {}" "filter_reach fw0 shared en"
    and "install_rules bad' subnet (en_fw en) = (fw1, Inr ())"
    and "cidr_match subnet (pk_src p)" "\<not> pk_established p"
  shows "fw_chains fw1 EGRESS_CHAIN = fw_chains fw0 EGRESS_CHAIN \<and> fw_chains fw1 PUBLIC_CHAIN = fw_chains fw0 PUBLIC_CHAIN \<and>
    fw_chains fw1 ''FORWARD'' = fw_chains fw0 ''FORWARD'' \<and> forwarded fw1 p = Some Reject"
proof -
  note base = install_chains [OF assms(1,2)]
  have fwd: "fw_chains (en_fw en) ''FORWARD'' = Some (forward_rules subnet @ others)"
    using filter_reach_ok [OF assms(4) base(1)] base(3) assms(3) by (simp add: same_but_ours_def)
  note again = install_chains [OF assms(5) fwd]
  have "fw_chains fw1 ''FORWARD'' = Some (forward_rules subnet @ others)" by (rule again(4)) simp
  moreover from this again(1) assms(6,7) have "forwarded fw1 p = Some Reject"
    by (simp add: forwarded_def forward_rules_def plain_rule_def matches_def numeral_3_eq_3)
  ultimately show ?thesis using again(1,2) base(1-3) assms(3) by simp
qed

text \<open>The loop that lets connections through again takes every copy of the rule, and no other.\<close>

lemma allow_loop_all: "allow_loop r rs = filter (\<lambda>x. x \<noteq> r) rs"
proof (induction r rs rule: allow_loop.induct)
  case (1 r rs)
  have "filter (\<lambda>x. x \<noteq> r) (remove1 r xs) = filter (\<lambda>x. x \<noteq> r) xs" for xs by (induction xs) auto
  with 1 show ?case by (subst allow_loop.simps) (auto intro!: filter_True [symmetric])
qed

section \<open>Starting\<close>

text \<open>On a host with the built-in chains every command of the start finds what it needs.\<close>

definition chains_kept :: "firewall \<Rightarrow> firewall \<Rightarrow> bool" where
  "chains_kept fw fw' \<longleftrightarrow> (\<forall>c. fw_chains fw c \<noteq> None \<longrightarrow> fw_chains fw' c \<noteq> None)"

definition works_on :: "string list \<Rightarrow> fw_step list \<Rightarrow> bool" where
  "works_on cs ss \<longleftrightarrow> (\<forall>fw. (\<forall>c \<in> set cs. fw_chains fw c \<noteq> None) \<longrightarrow>
     (\<exists>fw'. run_all ss fw = (fw', Inr ()) \<and> chains_kept fw fw'))"

lemma works_append: "works_on cs ss \<Longrightarrow> works_on cs ss' \<Longrightarrow> works_on cs (ss @ ss')"
  unfolding works_on_def run_all_append chains_kept_def by meson

lemma works_mono: "works_on cs ss \<Longrightarrow> set cs \<subseteq> set ds \<Longrightarrow> works_on ds ss"
  unfolding works_on_def by (meson subsetD)

lemma works_makes:
  assumes "works_on cs ss" "\<And>fw fw' :: firewall. run_all ss fw = (fw', Inr ()) \<Longrightarrow> fw_chains fw' c \<noteq> None" "works_on (c # cs) ss'"
  shows "works_on cs (ss @ ss')"
  unfolding works_on_def
proof (intro allI impI)
  fix fw :: firewall assume cs: "\<forall>c \<in> set cs. fw_chains fw c \<noteq> None"
  then obtain fw1 where 1: "run_all ss fw = (fw1, Inr ())" "chains_kept fw fw1"
    using assms(1) unfolding works_on_def by blast
  with cs assms(2) have "\<forall>c \<in> set (c # cs). fw_chains fw1 c \<noteq> None" by (simp add: chains_kept_def)
  with assms(3) obtain fw2 where "run_all ss' fw1 = (fw2, Inr ())" "chains_kept fw1 fw2"
    unfolding works_on_def by meson
  with 1 show "\<exists>fw'. run_all (ss @ ss') fw = (fw', Inr ()) \<and> chains_kept fw fw'"
    unfolding run_all_append by (auto simp: chains_kept_def)
qed

lemma works_ensure: "distinct rs \<Longrightarrow> works_on [c] (ensure_all (\<lambda>_. False) what c rs)"
proof -
  have step: "\<exists>fw'. run_all (map (\<lambda>(k, r). ensure_rule (\<lambda>_. False) what c (k + 1) r) (List.enumerate (length pre) rs)) fw = (fw', Inr ())
      \<and> chains_kept fw fw'"
    if "fw_chains fw c = Some xs" "set pre \<subseteq> set xs" "distinct (pre @ rs)" for pre xs fw
    using that
  proof (induction rs arbitrary: pre xs fw)
    case (Cons r rs)
    have len: "length pre \<le> length xs"
      using Cons.prems(2,3) by (metis card_length card_mono distinct_append distinct_card finite_set le_trans)
    obtain fw1 ys where s: "ensure_rule (\<lambda>_. False) what c (length pre + 1) r fw = (fw1, Inr ())"
      "fw_chains fw1 = (fw_chains fw)(c \<mapsto> ys)" "set (pre @ [r]) \<subseteq> set ys"
    proof (cases "has_rule c r fw")
      case True
      with Cons.prems show ?thesis by (intro that [of fw xs]) (auto simp: ensure_rule_def has_rule_def fun_upd_idem)
    next
      case False
      let ?ys = "take (length pre) xs @ r # drop (length pre) xs"
      have "set (take (length pre) xs) \<union> set (drop (length pre) xs) = set xs"
        by (metis append_take_drop_id set_append)
      with Cons.prems(2) have "set (pre @ [r]) \<subseteq> set ?ys" by auto
      with False len Cons.prems(1) show ?thesis
        by (intro that [of "fw\<lparr>fw_chains := (fw_chains fw)(c \<mapsto> ?ys)\<rparr>" ?ys])
          (simp_all add: ensure_rule_def run_fw_def on_chain_def insert_rule_def)
    qed
    have "\<exists>fw'. run_all (map (\<lambda>(k, r). ensure_rule (\<lambda>_. False) what c (k + 1) r) (List.enumerate (length (pre @ [r])) rs)) fw1 = (fw', Inr ())
      \<and> chains_kept fw1 fw'"
      by (rule Cons.IH [of _ ys]) (use s Cons.prems in auto)
    with s show ?case by (auto simp: chains_kept_def)
  qed (simp add: chains_kept_def)
  show "distinct rs \<Longrightarrow> works_on [c] (ensure_all (\<lambda>_. False) what c rs)"
    unfolding works_on_def ensure_all_def using step [of _ _ "[]"] by auto
qed

lemma works_clear: "works_on [] (clear_chain (\<lambda>_. False) c)"
  by (auto simp: works_on_def clear_chain_def run_fw_def on_chain_def new_chain_def chains_kept_def)

lemma works_append_all: "works_on [c] (append_all (\<lambda>_. False) what c rs)"
proof -
  have "\<exists>fw'. run_all (append_all (\<lambda>_. False) what c rs) fw = (fw', Inr ()) \<and> chains_kept fw fw'" if "fw_chains fw c = Some xs" for fw xs
    using that
  proof (induction rs arbitrary: fw xs)
    case (Cons r rs)
    let ?fw = "fw\<lparr>fw_chains := (fw_chains fw)(c \<mapsto> xs @ [r])\<rparr>"
    have "run_fw (\<lambda>_. False) what (on_chain c (append_rule r)) fw = (?fw, Inr ())"
      using Cons.prems by (simp add: run_fw_def on_chain_def append_rule_def)
    with Cons.IH [of ?fw "xs @ [r]"] show ?case by (auto simp: append_all_def chains_kept_def)
  qed (simp add: append_all_def chains_kept_def)
  then show ?thesis by (auto simp: works_on_def)
qed

lemma works_cold: "works_on [''OUTPUT''] (cold_chain_steps (\<lambda>_. False))"
proof -
  have "works_on [''OUTPUT''] [\<lambda>fw. if fw_chains fw COLD_CHAIN \<noteq> None then (fw, Inr ()) else run_fw (\<lambda>_. False) ''creating the cold chain'' (new_chain COLD_CHAIN) fw]"
    by (auto simp: works_on_def run_fw_def new_chain_def chains_kept_def)
  moreover have "works_on [''OUTPUT''] [ensure_rule (\<lambda>_. False) ''jumping to the cold chain'' ''OUTPUT'' 1 (plain_rule None None (Jump COLD_CHAIN))]"
    using works_ensure [of "[plain_rule None None (Jump COLD_CHAIN)]"] by (simp add: ensure_all_def)
  moreover have "works_on [''OUTPUT''] [\<lambda>fw. (fst (run_fw (\<lambda>_. False) ''clearing the cold chain'' (on_chain COLD_CHAIN (\<lambda>_. Some [])) fw), Inr ())]"
    by (auto simp: works_on_def run_fw_def on_chain_def chains_kept_def split: option.split bind_split)
  ultimately show ?thesis
    using works_append [of _ "[_]" "[_, _]"] works_append [of _ "[_]" "[_]"] unfolding cold_chain_steps_def by fastforce
qed

lemma install_works: "works_on [''INPUT'', ''FORWARD'', ''OUTPUT''] [install_rules (\<lambda>_. False) subnet]"
proof -
  let ?b = "\<lambda>_. False"
  let ?cs = "[''INPUT'', ''FORWARD'', ''OUTPUT'']"
  have pub: "works_on (PUBLIC_CHAIN # ?cs)
      (append_all ?b ''keeping private addresses out of the internet'' PUBLIC_CHAIN private_rules @
       append_all ?b ''accepting the internet'' PUBLIC_CHAIN [plain_rule None None Accept] @
       ensure_all ?b ''installing a FORWARD rule'' ''FORWARD'' (forward_rules subnet) @
       [ensure_masquerade ?b subnet] @ cold_chain_steps ?b @
       [run_fw ?b ''installing the unreachable floor'' (\<lambda>fw. Some (fw\<lparr>fw_unreachable := List.insert subnet (fw_unreachable fw)\<rparr>))])"
  proof (intro works_append)
    show "works_on (PUBLIC_CHAIN # ?cs) [ensure_masquerade ?b subnet]"
      by (auto simp: works_on_def ensure_masquerade_def run_fw_def chains_kept_def)
    show "works_on (PUBLIC_CHAIN # ?cs)
        [run_fw ?b ''installing the unreachable floor'' (\<lambda>fw. Some (fw\<lparr>fw_unreachable := List.insert subnet (fw_unreachable fw)\<rparr>))]"
      by (auto simp: works_on_def run_fw_def chains_kept_def)
  qed (auto intro: works_mono [OF works_append_all] works_mono [OF works_ensure [OF distinct_forward]] works_mono [OF works_cold])
  have "works_on ?cs (clear_chain ?b PUBLIC_CHAIN @
      append_all ?b ''keeping private addresses out of the internet'' PUBLIC_CHAIN private_rules @
       append_all ?b ''accepting the internet'' PUBLIC_CHAIN [plain_rule None None Accept] @
       ensure_all ?b ''installing a FORWARD rule'' ''FORWARD'' (forward_rules subnet) @
       [ensure_masquerade ?b subnet] @ cold_chain_steps ?b @
       [run_fw ?b ''installing the unreachable floor'' (\<lambda>fw. Some (fw\<lparr>fw_unreachable := List.insert subnet (fw_unreachable fw)\<rparr>))])"
    by (rule works_makes [OF works_mono [OF works_clear] _ pub]) (auto dest: clear_chain_effect)
  moreover have "works_on ?cs (ensure_all ?b ''installing an INPUT rule'' ''INPUT'' (input_rules subnet))"
    by (rule works_mono [OF works_ensure]) (auto simp: input_rules_def plain_rule_def)
  moreover have "works_on ?cs (clear_chain ?b EGRESS_CHAIN)" by (rule works_mono [OF works_clear]) simp
  ultimately have "works_on ?cs (ensure_all ?b ''installing an INPUT rule'' ''INPUT'' (input_rules subnet) @ clear_chain ?b EGRESS_CHAIN @
      clear_chain ?b PUBLIC_CHAIN @
      append_all ?b ''keeping private addresses out of the internet'' PUBLIC_CHAIN private_rules @
       append_all ?b ''accepting the internet'' PUBLIC_CHAIN [plain_rule None None Accept] @
       ensure_all ?b ''installing a FORWARD rule'' ''FORWARD'' (forward_rules subnet) @
       [ensure_masquerade ?b subnet] @ cold_chain_steps ?b @
       [run_fw ?b ''installing the unreachable floor'' (\<lambda>fw. Some (fw\<lparr>fw_unreachable := List.insert subnet (fw_unreachable fw)\<rparr>))])"
    by (intro works_append [of ?cs "ensure_all _ _ _ _"] works_append [of ?cs "clear_chain _ EGRESS_CHAIN"])
  then show ?thesis unfolding works_on_def install_rules_def run_all_single by simp
qed

text \<open>
  A node whose host has the built-in chains starts, whatever rules are in them, and starts again.
\<close>

lemma install_succeeds:
  assumes "fw_chains fw ''INPUT'' \<noteq> None" "fw_chains fw ''FORWARD'' \<noteq> None" "fw_chains fw ''OUTPUT'' \<noteq> None"
  obtains fw' where "install_rules (\<lambda>_. False) subnet fw = (fw', Inr ())" "chains_kept fw fw'"
  using install_works [of subnet] assms unfolding works_on_def run_all_single by auto

section \<open>Witnesses\<close>

definition bare_host :: firewall where
  "bare_host = \<lparr>fw_chains = [''INPUT'' \<mapsto> [], ''FORWARD'' \<mapsto> [], ''OUTPUT'' \<mapsto> []], fw_masquerade = [],
     fw_forwarding = False, fw_unreachable = []\<rparr>"

definition subnet_16 :: string where "subnet_16 = show_ipv4 (addr_of_octets 10 86 0 0) @ ''/'' @ dec 16"

definition one_open :: egress where
  "one_open = \<lparr>internet = False, allow = [''8.8.8.8/32''], deny = []\<rparr>"

definition to_resolver :: packet where
  "to_resolver = \<lparr>pk_src = addr_of_octets 10 86 0 2, pk_dst = addr_of_octets 8 8 8 8, pk_established = False, pk_tcp = False\<rparr>"

lemma bare_installed:
  "\<exists>fw. install_rules (\<lambda>_. False) subnet_16 bare_host = (fw, Inr ()) \<and> chains_kept bare_host fw"
  by (rule install_succeeds [of bare_host subnet_16]) (auto simp: bare_host_def)

lemma resolver_in: "cidr_match subnet_16 (pk_src to_resolver)" "\<not> pk_established to_resolver"
proof -
  have "split_once (CHR ''/'') subnet_16 = Some (show_ipv4 (addr_of_octets 10 86 0 0), dec 16)"
    using split_once_append [of "CHR ''/''" "show_ipv4 (addr_of_octets 10 86 0 0)" "dec 16"] by (simp add: subnet_16_def)
  then show "cidr_match subnet_16 (pk_src to_resolver)"
    by (simp add: cidr_match_def parse_u32_dec to_resolver_def addr_of_octets_def prefix_mask_def mask_eq_exp_minus_1)
qed (simp add: to_resolver_def)

definition after_start :: egress_node where
  "after_start = \<lparr>en_fw = fst (install_rules (\<lambda>_. False) subnet_16 bare_host), en_installed = Map.empty\<rparr>"

definition after_open :: egress_node where
  "after_open = fst (egress_set (\<lambda>_. False) ''a'' (addr_of_octets 10 86 0 2) one_open after_start)"

lemma after_open_reach: "filter_reach (fst (install_rules (\<lambda>_. False) subnet_16 bare_host)) {} after_open"
  unfolding after_open_def after_start_def
  using fr_set [OF fr_start, of _ "''a''" "addr_of_octets 10 86 0 2" one_open] by (simp add: shares_def free_for_def)

lemma bare_step: "install_rules (\<lambda>_. False) subnet_16 bare_host = (fst (install_rules (\<lambda>_. False) subnet_16 bare_host), Inr ())"
  using bare_installed by auto

lemma bare_forward: "fw_chains bare_host ''FORWARD'' = Some []"
  by (simp add: bare_host_def)


theorem restart_closes_witness:
  "forwarded (fst (install_rules (\<lambda>_. False) subnet_16 (fst (install_rules (\<lambda>_. False) subnet_16 bare_host)))) to_resolver = Some Reject"
proof -
  let ?fw = "fst (install_rules (\<lambda>_. False) subnet_16 bare_host)"
  have "chains_kept bare_host ?fw" using bare_installed by auto
  then have "fw_chains ?fw ''INPUT'' \<noteq> None" "fw_chains ?fw ''FORWARD'' \<noteq> None" "fw_chains ?fw ''OUTPUT'' \<noteq> None"
    by (auto simp: chains_kept_def bare_host_def)
  then obtain fw' where "install_rules (\<lambda>_. False) subnet_16 ?fw = (fw', Inr ())"
    by (rule install_succeeds [of ?fw subnet_16])
  then have again: "install_rules (\<lambda>_. False) subnet_16 (en_fw after_start) = (fst (install_rules (\<lambda>_. False) subnet_16 ?fw), Inr ())"
    by (simp add: after_start_def)
  have "filter_reach ?fw {} after_start" unfolding after_start_def by (rule fr_start)
  from restart_closes [OF bare_step bare_forward _ this again resolver_in] show ?thesis by simp
qed

end
