(* ===== verification/NetPlan.thy ===== *)
theory NetPlan
  imports Egress
begin

text \<open>
  The address plan of a node and its pool of network namespaces (\<^verbatim>\<open>node/net.rs\<close>). Sums of 32-bit
  words wrap, as in a release build, and a shift takes its distance modulo the width. \<open>digest\<close> is
  SHA-256 in hexadecimal. The kernel's own work on namespaces and interfaces is left out, but for
  whether it succeeds; the pool's filler is the steps it takes between one look at its state and the next.
\<close>

section \<open>Slots\<close>

record net_config =
  nc_base :: u32
  nc_prefix :: nat

definition default_net_config :: net_config where
  "default_net_config = \<lparr>nc_base = addr_of_octets 10 86 0 0, nc_prefix = 16\<rparr>"

record slot =
  sl_index :: u32
  sl_host_ip :: u32
  sl_sandbox_ip :: u32
  sl_netns :: string
  sl_host_if :: string
  sl_sandbox_if :: string

definition net_subnet :: "net_config \<Rightarrow> string" where
  "net_subnet c = show_ipv4 (nc_base c) @ ''/'' @ dec (nc_prefix c)"

definition if_tag :: "(string \<Rightarrow> string) \<Rightarrow> string \<Rightarrow> string" where
  "if_tag digest i = take 10 (digest i)"

definition shl_one :: "nat \<Rightarrow> u32" where
  "shl_one n = push_bit (n mod 32) 1"

definition reserved_index :: "net_config \<Rightarrow> u32" where
  "reserved_index c = shl_one (32 - min (nc_prefix c) 30) div 4 - 1"

definition checked_mul4 :: "u32 \<Rightarrow> u32 option" where
  "checked_mul4 i = (if 4 * unat i < 2 ^ 32 then Some (4 * i) else None)"

definition slot_offset :: "net_config \<Rightarrow> u32 \<Rightarrow> u32 option" where
  "slot_offset c i =
     Option.bind (checked_mul4 i) (\<lambda>off. if off + 4 \<le> shl_one (32 - nc_prefix c) then Some off else None)"

definition net_slot :: "(string \<Rightarrow> string) \<Rightarrow> net_config \<Rightarrow> string \<Rightarrow> u32 \<Rightarrow> slot option" where
  "net_slot digest c i ix =
     map_option (\<lambda>off. \<lparr>sl_index = ix, sl_host_ip = nc_base c + off + 1, sl_sandbox_ip = nc_base c + off + 2,
         sl_netns = ''sandstorm-'' @ i, sl_host_if = ''sst'' @ if_tag digest i @ ''h'',
         sl_sandbox_if = ''sst'' @ if_tag digest i @ ''s''\<rparr>)
       (slot_offset c ix)"

text \<open>The veths on record for a namespace; a pooled one keeps its own names.\<close>

definition named_slot :: "(string \<Rightarrow> (string \<times> string) option) \<Rightarrow> slot \<Rightarrow> slot" where
  "named_slot names s =
     (case names (sl_netns s) of
        Some (h, b) \<Rightarrow> s\<lparr>sl_host_if := h, sl_sandbox_if := b\<rparr> | None \<Rightarrow> s)"

text \<open>Interfaces of others that hold this slot's address: the second word of each line of \<^verbatim>\<open>ip addr\<close>.\<close>

definition ends_with :: "string \<Rightarrow> string \<Rightarrow> bool" where
  "ends_with s p \<longleftrightarrow> suffix p s"

definition stale_holders :: "string list list \<Rightarrow> string \<Rightarrow> string list" where
  "stale_holders lines ours =
     filter (\<lambda>n. starts_with n ''sst'' \<and> ends_with n ''h'' \<and> n \<noteq> ours)
       (List.map_filter (\<lambda>ws. case ws of _ # n # _ \<Rightarrow> Some (before_char (CHR ''@'') n) | _ \<Rightarrow> None) lines)"

section \<open>The pool of namespaces\<close>

record blank =
  bk_netns :: string
  bk_host_if :: string
  bk_sandbox_if :: string

record pool =
  po_target :: nat
  po_tag :: string
  po_ready :: "blank list"
  po_next :: nat
  po_last_take :: "instant option"
  po_retired :: "blank list"

definition REFILL_QUIET :: millis where "REFILL_QUIET = 250"
definition MAX_RETIRED :: nat where "MAX_RETIRED = 64"
definition REFILL_RECHECK :: millis where "REFILL_RECHECK = 10"

definition netns_prefix :: "pool \<Rightarrow> string" where
  "netns_prefix p = ''sstpool-'' @ po_tag p @ ''-''"

definition dead_prefix :: "pool \<Rightarrow> string" where
  "dead_prefix p = ''sstdead-'' @ po_tag p @ ''-''"

definition low_24 :: "nat \<Rightarrow> nat" where
  "low_24 n = n mod 2 ^ 24"

definition next_number :: "pool \<Rightarrow> pool \<times> nat" where
  "next_number p = (p\<lparr>po_next := (po_next p + 1) mod 2 ^ 64\<rparr>, (po_next p + 1) mod 2 ^ 64)"

text \<open>\<open>hex6\<close> is six hexadecimal digits.\<close>

definition hex_digit :: "nat \<Rightarrow> char" where
  "hex_digit d = (if d < 10 then digit_char d else char_of (87 + d))"

definition hex6 :: "nat \<Rightarrow> string" where
  "hex6 n = map (\<lambda>k. hex_digit (n div 16 ^ k mod 16)) [5, 4, 3, 2, 1, 0]"

definition blank_of :: "pool \<Rightarrow> nat \<Rightarrow> blank" where
  "blank_of p n = \<lparr>bk_netns = netns_prefix p @ dec (low_24 n),
     bk_host_if = ''sp'' @ po_tag p @ hex6 (low_24 n) @ ''h'', bk_sandbox_if = ''sp'' @ po_tag p @ hex6 (low_24 n) @ ''s''\<rparr>"

definition pool_take :: "instant \<Rightarrow> pool \<Rightarrow> pool \<times> blank option" where
  "pool_take t p =
     (let p1 = p\<lparr>po_last_take := Some t\<rparr>
      in if po_ready p = [] then (p1, None)
         else (p1\<lparr>po_ready := butlast (po_ready p)\<rparr>, Some (List.last (po_ready p))))"

text \<open>\<open>renamed\<close> is whether the namespace could be renamed out of the way.\<close>

definition pool_retire :: "bool \<Rightarrow> slot \<Rightarrow> pool \<Rightarrow> pool \<times> bool" where
  "pool_retire renamed s p =
     (let (p1, n) = next_number p
      in if renamed
         then (p1\<lparr>po_retired := po_retired p1 @ [\<lparr>bk_netns = dead_prefix p @ dec (low_24 n), bk_host_if = sl_host_if s, bk_sandbox_if = sl_sandbox_if s\<rparr>]\<rparr>, True)
         else (p1, False))"

definition quiet_left :: "instant \<Rightarrow> pool \<Rightarrow> millis option" where
  "quiet_left t p =
     (case po_last_take p of
        None \<Rightarrow> None
      | Some since \<Rightarrow> if t - since < REFILL_QUIET then Some (REFILL_QUIET - (t - since)) else None)"

definition pressed :: "pool \<Rightarrow> bool \<times> bool" where
  "pressed p =
     (let low = length (po_ready p) < max (po_target p div 4) 2;
          reuse = length (po_ready p) < po_target p \<and> po_retired p \<noteq> []
      in (low, low \<or> reuse \<or> length (po_retired p) > MAX_RETIRED))"

definition reusable :: "pool \<Rightarrow> bool" where
  "reusable p \<longleftrightarrow> length (po_ready p) < po_target p \<and> po_retired p \<noteq> []"

text \<open>
  The filler: where it is, and what it holds. \<^verbatim>\<open>Waits\<close> is waiting for quiet. Each step is one look
  at the state; \<open>ok\<close> is whether the scrub and rename, or the build, succeed.
\<close>

datatype filler = Looks | Recycles blank | Waits | Builds blank

definition fill_look :: "pool \<Rightarrow> (pool \<times> filler) option" where
  "fill_look p =
     (if length (po_ready p) \<ge> po_target p \<and> po_retired p = [] then None
      else if length (po_ready p) < po_target p \<and> po_retired p \<noteq> []
        then Some (p\<lparr>po_retired := butlast (po_retired p)\<rparr>, Recycles (List.last (po_retired p)))
      else Some (p, Waits))"

definition recycle_done :: "bool \<Rightarrow> blank \<Rightarrow> pool \<Rightarrow> pool" where
  "recycle_done ok dead p =
     (if ok then let (p1, n) = next_number p
        in p1\<lparr>po_ready := po_ready p1 @ [dead\<lparr>bk_netns := netns_prefix p @ dec (low_24 n)\<rparr>]\<rparr>
      else p)"

definition fill_waits :: "instant \<Rightarrow> pool \<Rightarrow> pool \<times> filler" where
  "fill_waits t p =
     (let (low, press) = pressed p
      in if quiet_left t p \<noteq> None \<and> \<not> press then (p, Waits)
         else if reusable p then (p, Looks)
         else if \<not> low \<and> po_retired p \<noteq> [] then (p\<lparr>po_retired := butlast (po_retired p)\<rparr>, Looks)
         else if length (po_ready p) \<ge> po_target p then (p, Looks)
         else let (p1, n) = next_number p in (p1, Builds (blank_of p n)))"

definition build_done :: "bool \<Rightarrow> blank \<Rightarrow> pool \<Rightarrow> pool" where
  "build_done ok b p = (if ok then p\<lparr>po_ready := po_ready p @ [b]\<rparr> else p)"

text \<open>The filler and the node beside it: every order of their steps.\<close>

inductive pool_reach :: "pool \<Rightarrow> pool \<Rightarrow> filler \<Rightarrow> bool" for p0 where
  pr_start: "pool_reach p0 p0 Looks"
| pr_take: "pool_reach p0 p w \<Longrightarrow> pool_reach p0 (fst (pool_take t p)) w"
| pr_retire: "pool_reach p0 p w \<Longrightarrow> pool_reach p0 (fst (pool_retire renamed s p)) w"
| pr_look: "pool_reach p0 p Looks \<Longrightarrow> fill_look p = Some (p', w) \<Longrightarrow> pool_reach p0 p' w"
| pr_recycled: "pool_reach p0 p (Recycles dead) \<Longrightarrow> pool_reach p0 (recycle_done ok dead p) Looks"
| pr_waits: "pool_reach p0 p Waits \<Longrightarrow> fill_waits t p = (p', w) \<Longrightarrow> pool_reach p0 p' w"
| pr_built: "pool_reach p0 p (Builds b) \<Longrightarrow> pool_reach p0 (build_done ok b p) Looks"

section \<open>Properties\<close>

lemma shl_one_unat: "p \<le> 32 \<Longrightarrow> 0 < p \<Longrightarrow> unat (shl_one (32 - p)) = 2 ^ (32 - p)"
proof -
  assume p: "p \<le> 32" "0 < p"
  then have "unat (shl_one (32 - p)) = 2 ^ (32 - p) mod 2 ^ 32"
    unfolding shl_one_def unsigned_push_bit_eq by (simp add: take_bit_eq_mod push_bit_eq_mult)
  moreover have "(2::nat) ^ (32 - p) < 2 ^ 32" using p by (intro power_strict_increasing) simp_all
  ultimately show ?thesis by simp
qed

text \<open>
  The plan gives a node exactly the /30s of its range, but for one index: a slot's two addresses
  are inside the range, no two slots share one, and past the range there is none.
\<close>

theorem slots_partition_the_range:
  assumes "0 < nc_prefix c" "nc_prefix c \<le> 30" "unat (nc_base c) + 2 ^ (32 - nc_prefix c) \<le> 2 ^ 32" "unat i \<noteq> 2 ^ 30 - 1"
  shows "case net_slot digest c name i of
      None \<Rightarrow> 2 ^ (32 - nc_prefix c) < 4 * unat i + 4
    | Some s \<Rightarrow> 4 * unat i + 4 \<le> 2 ^ (32 - nc_prefix c) \<and>
        unat (sl_host_ip s) = unat (nc_base c) + 4 * unat i + 1 \<and>
        unat (sl_sandbox_ip s) = unat (nc_base c) + 4 * unat i + 2"
proof -
  let ?span = "2 ^ (32 - nc_prefix c) :: nat"
  have span: "unat (shl_one (32 - nc_prefix c)) = ?span" by (rule shl_one_unat) (use assms in simp_all)
  have i: "unat i < 2 ^ 32" using unsigned_less [of i] by simp
  have "(2::nat) ^ 2 \<le> ?span" using assms(2) by (intro power_increasing) simp_all
  then have four: "4 \<le> ?span" by simp
  show ?thesis
  proof (cases "4 * unat i < 2 ^ 32")
    case False
    have "?span \<le> 2 ^ 32" by (intro power_increasing) simp_all
    with False show ?thesis by (simp add: net_slot_def slot_offset_def checked_mul4_def)
  next
    case True
    with assms(4) have lt: "4 * unat i + 4 < 2 ^ 32" by simp
    then have off: "unat (4 * i) = 4 * unat i" "unat (4 * i + 4) = 4 * unat i + 4"
      by (simp_all add: unat_word_ariths)
    then have le: "4 * i + 4 \<le> shl_one (32 - nc_prefix c) \<longleftrightarrow> 4 * unat i + 4 \<le> ?span"
      by (simp add: word_le_nat_alt span)
    show ?thesis
    proof (cases "4 * unat i + 4 \<le> ?span")
      case fits: True
      then have "unat (nc_base c) + 4 * unat i + 4 \<le> 2 ^ 32" using assms(3) by simp
      then have "unat (nc_base c + 4 * i + 1) = unat (nc_base c) + 4 * unat i + 1"
        "unat (nc_base c + 4 * i + 2) = unat (nc_base c) + 4 * unat i + 2"
        using off(1) by (simp_all add: unat_word_ariths)
      with True fits le show ?thesis by (simp add: net_slot_def slot_offset_def checked_mul4_def)
    next
      case no: False
      with True le show ?thesis by (simp add: net_slot_def slot_offset_def checked_mul4_def)
    qed
  qed
qed

text \<open>The one index: the end of its /30 wraps to zero, which is within any range.\<close>

lemma last_index_wraps:
  "net_slot digest default_net_config name 0x3FFFFFFF \<noteq> None"
  by (simp add: net_slot_def slot_offset_def checked_mul4_def word_le_nat_alt)

definition pool_room :: "pool \<Rightarrow> filler \<Rightarrow> bool" where
  "pool_room p w \<longleftrightarrow> length (po_ready p) + (case w of Recycles _ \<Rightarrow> 1 | Builds _ \<Rightarrow> 1 | _ \<Rightarrow> 0) \<le> po_target p"

text \<open>
  The pool never keeps more namespaces ready than it was asked to, however creates, destroys
  and the filler's own steps interleave; at most one is being made beside them.
\<close>

theorem pool_within_target:
  assumes "pool_reach p0 p w" "po_ready p0 = []"
  shows "length (po_ready p) \<le> po_target p0 \<and> po_target p = po_target p0"
proof -
  have "pool_room p w \<and> po_target p = po_target p0"
    using assms(1)
  proof (induction rule: pool_reach.induct)
    case pr_start
    then show ?case using assms(2) by (simp add: pool_room_def)
  next
    case (pr_take p w t)
    then show ?case by (auto simp: pool_room_def pool_take_def Let_def split: filler.splits)
  next
    case (pr_retire p w renamed s)
    then show ?case by (auto simp: pool_room_def pool_retire_def next_number_def Let_def split: filler.splits)
  next
    case (pr_look p p' w)
    then show ?case by (auto simp: pool_room_def fill_look_def split: if_splits filler.splits)
  next
    case (pr_recycled p dead ok)
    then show ?case by (auto simp: pool_room_def recycle_done_def next_number_def Let_def)
  next
    case (pr_waits p t p' w)
    then show ?case
      by (auto simp: pool_room_def fill_waits_def next_number_def Let_def split: if_splits prod.splits filler.splits)
  next
    case (pr_built p b ok)
    then show ?case by (auto simp: pool_room_def build_done_def)
  qed
  then show ?thesis by (auto simp: pool_room_def)
qed

definition small_pool :: pool where
  "small_pool = \<lparr>po_target = 1, po_tag = ''abcdef'', po_ready = [], po_next = 5, po_last_take = None, po_retired = []\<rparr>"

theorem pool_within_target_witness:
  "pool_reach small_pool (build_done True (blank_of small_pool 6) (small_pool\<lparr>po_next := 6\<rparr>)) Looks \<and>
   length (po_ready (build_done True (blank_of small_pool 6) (small_pool\<lparr>po_next := 6\<rparr>))) \<le> 1"
proof -
  have "fill_look small_pool = Some (small_pool, Waits)" by (simp add: fill_look_def small_pool_def)
  with pr_start have "pool_reach small_pool small_pool Waits" by (rule pr_look)
  moreover have "fill_waits 0 small_pool = (small_pool\<lparr>po_next := 6\<rparr>, Builds (blank_of small_pool 6))"
    by (simp add: fill_waits_def pressed_def quiet_left_def reusable_def next_number_def small_pool_def)
  ultimately have "pool_reach small_pool (small_pool\<lparr>po_next := 6\<rparr>) (Builds (blank_of small_pool 6))" by (rule pr_waits)
  then have r: "pool_reach small_pool (build_done True (blank_of small_pool 6) (small_pool\<lparr>po_next := 6\<rparr>)) Looks"
    by (rule pr_built)
  with pool_within_target [OF r] show ?thesis by (simp add: small_pool_def)
qed

theorem slots_partition_the_range_witness:
  "case net_slot (\<lambda>_. ''0123456789abcdef'') default_net_config ''a'' 3 of
     None \<Rightarrow> False | Some s \<Rightarrow> unat (sl_host_ip s) = unat (nc_base default_net_config) + 13"
proof -
  have u: "unat (3 :: u32) = 3" "unat (nc_base default_net_config) = 173408256" "nc_prefix default_net_config = 16"
    by (simp_all add: default_net_config_def addr_of_octets_def)
  from slots_partition_the_range [of default_net_config 3 "\<lambda>_. ''0123456789abcdef''" "''a''"] show ?thesis
    by (simp add: u split: option.splits)
qed

end
