(* ===== verification/Unpack.thy ===== *)
theory Unpack
  imports Prelude
begin

text \<open>
  Unpacking the layers of an image (\<^verbatim>\<open>node/images.rs\<close>): resolving a path inside the root, laying
  the entries of a layer over it, and the deletions that wait for the layer's end. A path is its
  components, normal ones and \<^verbatim>\<open>..\<close>, from the host's root; a file system maps paths to what is
  there, without contents, owners and modes. What the kernel makes of a path is the same walk from
  the host's root; errors of the disk itself are left out.
\<close>

section \<open>Paths and links\<close>

type_synonym path = "string list"

datatype fnode = FDir | FFile | FLink bool path

type_synonym fs = "path \<Rightarrow> fnode option"

definition MAX_LINKS :: nat where "MAX_LINKS = 40"

definition dotdot :: string where "dotdot = ''..''"

text \<open>
  The loop of \<^verbatim>\<open>inside\<close>: the components still to take, and where it is. A link is its target
  and whether that is absolute.
\<close>

function resolve :: "(path \<Rightarrow> fnode option) \<Rightarrow> bool \<Rightarrow> nat \<Rightarrow> path \<Rightarrow> path \<Rightarrow> path option" where
  "resolve look follow links [] here = Some here"
| "resolve look follow links (part # todo) here =
     (if part = dotdot then resolve look follow links todo (butlast here)
      else case look (here @ [part]) of
             Some (FLink absolute tgt) \<Rightarrow>
               if todo \<noteq> [] \<or> follow then
                 (if links + 1 > MAX_LINKS then None
                  else resolve look follow (links + 1) (tgt @ todo) (if absolute then [] else here))
               else resolve look follow links todo (here @ [part])
           | _ \<Rightarrow> resolve look follow links todo (here @ [part]))"
  by pat_completeness auto
termination
  by (relation "measures [\<lambda>(look, follow, links, todo, here). MAX_LINKS - links, \<lambda>(look, follow, links, todo, here). length todo]")
    auto

declare resolve.simps(2) [simp del]

text \<open>Where the kernel finds a path, its last component not followed, and what is there.\<close>

definition real :: "fs \<Rightarrow> path \<Rightarrow> path option" where
  "real fs p = resolve fs False 0 p []"

definition lstat :: "fs \<Rightarrow> path \<Rightarrow> fnode option" where
  "lstat fs p = Option.bind (real fs p) fs"

definition inside :: "fs \<Rightarrow> path \<Rightarrow> path \<Rightarrow> bool \<Rightarrow> path option" where
  "inside fs root p follow = map_option (\<lambda>at. root @ at) (resolve (\<lambda>q. lstat fs (root @ q)) follow 0 p [])"

section \<open>Changes\<close>

definition remove_at :: "path \<Rightarrow> fs \<Rightarrow> fs" where
  "remove_at p fs =
     (case real fs p of None \<Rightarrow> fs | Some q \<Rightarrow> (\<lambda>x. if prefix q x then None else fs x))"

definition put_at :: "path \<Rightarrow> fnode \<Rightarrow> fs \<Rightarrow> fs" where
  "put_at p n fs = (case real fs p of None \<Rightarrow> fs | Some q \<Rightarrow> fs(q \<mapsto> n))"

text \<open>\<^verbatim>\<open>create_dir_all\<close> of a path that has no link on it.\<close>

definition make_dirs :: "path \<Rightarrow> fs \<Rightarrow> fs option" where
  "make_dirs p fs =
     (if list_ex (\<lambda>n. fs (take n p) \<notin> {None, Some FDir}) [0..<Suc (length p)] then None
      else Some (\<lambda>x. if prefix x p \<and> fs x = None then Some FDir else fs x))"

section \<open>Layers\<close>

datatype entry_kind = KDir | KSymlink "(bool \<times> path) option" | KHard "path option" | KFile | KOther

record tar_entry =
  te_path :: path
  te_kind :: entry_kind

record unpacking =
  un_fs :: fs
  un_written :: "path list"
  un_gone :: "path list"
  un_emptied :: "path list"

definition WHITEOUT :: string where "WHITEOUT = ''.wh.''"
definition OPAQUE :: string where "OPAQUE = ''.wh..wh..opq''"

definition file_name :: "path \<Rightarrow> string option" where
  "file_name p = (if p = [] \<or> List.last p = dotdot then None else Some (List.last p))"

definition join_name :: "path \<Rightarrow> string \<Rightarrow> path" where
  "join_name p n = (if n = [] \<or> n = ''.'' then p else p @ [n])"

text \<open>An entry at the path it replaces; \<^verbatim>\<open>None\<close> is an error, which ends the layer.\<close>

definition place_entry :: "path \<Rightarrow> path \<Rightarrow> entry_kind \<Rightarrow> fs \<Rightarrow> fs option" where
  "place_entry root dest kind fs =
     (case kind of
        KDir \<Rightarrow> Some (if lstat fs dest = Some FDir then fs else put_at dest FDir (remove_at dest fs))
      | KSymlink (Some (absolute, tgt)) \<Rightarrow> Some (put_at dest (FLink absolute tgt) (remove_at dest fs))
      | KSymlink None \<Rightarrow> None
      | KHard (Some tgt) \<Rightarrow>
          Option.bind (inside fs root tgt False)
            (\<lambda>source. let fs1 = remove_at dest fs
               in case lstat fs1 source of
                    None \<Rightarrow> None
                  | Some n \<Rightarrow> if n = FDir then None else Some (put_at dest n fs1))
      | KHard None \<Rightarrow> None
      | KFile \<Rightarrow> Some (put_at dest FFile (remove_at dest fs))
      | KOther \<Rightarrow> Some fs)"

definition write_entry :: "path \<Rightarrow> tar_entry \<Rightarrow> unpacking \<Rightarrow> unpacking option" where
  "write_entry root en u =
     Option.bind (inside (un_fs u) root (te_path en) (te_kind en = KDir))
       (\<lambda>dest. if dest = root then Some u
          else Option.bind (make_dirs (butlast dest) (un_fs u))
            (\<lambda>fs1. Option.bind (place_entry root dest (te_kind en) fs1)
               (\<lambda>fs2. Some (if te_kind en = KOther then u\<lparr>un_fs := fs2\<rparr>
                  else u\<lparr>un_fs := fs2, un_written := dest # un_written u\<rparr>))))"

definition apply_entry :: "path \<Rightarrow> tar_entry \<Rightarrow> unpacking \<Rightarrow> unpacking option" where
  "apply_entry root en u =
     (case file_name (te_path en) of
        None \<Rightarrow> write_entry root en u
      | Some n \<Rightarrow>
          if n = OPAQUE then
            map_option (\<lambda>d. u\<lparr>un_emptied := un_emptied u @ [d]\<rparr>) (inside (un_fs u) root (butlast (te_path en)) True)
          else if starts_with n WHITEOUT then
            map_option (\<lambda>d. u\<lparr>un_gone := un_gone u @ [join_name d (drop (length WHITEOUT) n)]\<rparr>)
              (inside (un_fs u) root (butlast (te_path en)) True)
          else write_entry root en u)"

primrec apply_entries :: "path \<Rightarrow> tar_entry list \<Rightarrow> unpacking \<Rightarrow> unpacking option" where
  "apply_entries root [] u = Some u"
| "apply_entries root (en # ens) u = Option.bind (apply_entry root en u) (apply_entries root ens)"

text \<open>The children of a directory that the layer emptied, but for what it wrote itself.\<close>

definition empty_dir :: "path list \<Rightarrow> path \<Rightarrow> fs \<Rightarrow> fs" where
  "empty_dir written dir fs =
     (case resolve fs True 0 dir [] of
        None \<Rightarrow> fs
      | Some rd \<Rightarrow>
          if fs rd \<noteq> Some FDir then fs
          else (\<lambda>x. if strict_prefix rd x \<and> \<not> list_ex (prefix (dir @ [x ! length rd])) written then None else fs x))"

definition drop_gone :: "path list \<Rightarrow> path \<Rightarrow> fs \<Rightarrow> fs" where
  "drop_gone written p fs = (if p \<in> set written then fs else remove_at p fs)"

definition finish_layer :: "unpacking \<Rightarrow> fs" where
  "finish_layer u = fold (drop_gone (un_written u)) (un_gone u) (fold (empty_dir (un_written u)) (un_emptied u) (un_fs u))"

definition apply_layer :: "path \<Rightarrow> tar_entry list \<Rightarrow> fs \<Rightarrow> fs option" where
  "apply_layer root ens fs =
     map_option finish_layer (apply_entries root ens \<lparr>un_fs = fs, un_written = [], un_gone = [], un_emptied = []\<rparr>)"

primrec apply_layers :: "path \<Rightarrow> tar_entry list list \<Rightarrow> fs \<Rightarrow> fs option" where
  "apply_layers root [] fs = Some fs"
| "apply_layers root (l # ls) fs = Option.bind (apply_layer root l fs) (apply_layers root ls)"

text \<open>\<^verbatim>\<open>check_bootable\<close>: a shell and a Python are files of the image, links followed inside it.\<close>

definition has_file :: "fs \<Rightarrow> path \<Rightarrow> path \<Rightarrow> bool" where
  "has_file fs root p = (case inside fs root p True of Some q \<Rightarrow> lstat fs q = Some FFile | None \<Rightarrow> False)"

definition check_bootable :: "fs \<Rightarrow> path \<Rightarrow> bool" where
  "check_bootable fs root \<longleftrightarrow>
     (has_file fs root [''bin'', ''bash''] \<or> has_file fs root [''usr'', ''bin'', ''bash'']) \<and>
     list_ex (has_file fs root) [[''usr'', ''local'', ''bin'', ''python3''], [''usr'', ''bin'', ''python3''],
       [''usr'', ''local'', ''bin'', ''python''], [''usr'', ''bin'', ''python'']]"

section \<open>What resolving gives\<close>

definition is_link :: "fnode option \<Rightarrow> bool" where
  "is_link n = (case n of Some (FLink _ _) \<Rightarrow> True | _ \<Rightarrow> False)"

text \<open>No link on a path short of its end, and nothing that goes up.\<close>

definition direct :: "(path \<Rightarrow> fnode option) \<Rightarrow> path \<Rightarrow> bool" where
  "direct look p \<longleftrightarrow> dotdot \<notin> set p \<and> (\<forall>n < length p. 0 < n \<longrightarrow> \<not> is_link (look (take n p)))"

lemma directD: "direct look p \<Longrightarrow> 0 < n \<Longrightarrow> n < length p \<Longrightarrow> \<not> is_link (look (take n p))"
  by (simp add: direct_def)

lemma direct_nil [simp]: "direct look []"
  by (simp add: direct_def)

lemma direct_snoc: "direct look (p @ [c]) \<longleftrightarrow> direct look p \<and> c \<noteq> dotdot \<and> (p = [] \<or> \<not> is_link (look p))"
  by (auto simp: direct_def less_Suc_eq)

lemma direct_butlast: "direct look p \<Longrightarrow> direct look (butlast p)"
  by (cases p rule: rev_cases) (auto simp: direct_snoc)

lemma resolve_direct:
  assumes "resolve look follow links todo here = Some r" "direct look here" "here = [] \<or> \<not> is_link (look here)"
  shows "direct look r \<and> (follow \<longrightarrow> r = [] \<or> \<not> is_link (look r))"
  using assms
proof (induction look follow links todo here rule: resolve.induct)
  case (2 look follow links part todo here)
  have up: "direct look (butlast here) \<and> (butlast here = [] \<or> \<not> is_link (look (butlast here)))"
    using "2.prems"(2,3) by (cases here rule: rev_cases) (auto simp: direct_snoc)
  show ?case
  proof (cases "part = dotdot")
    case True
    with 2 up show ?thesis by (simp add: resolve.simps(2))
  next
    case False
    have next_direct: "direct look (here @ [part])" using False "2.prems"(2,3) by (simp add: direct_snoc)
    show ?thesis
    proof (cases "is_link (look (here @ [part]))")
      case True
      then obtain ab tgt where l: "look (here @ [part]) = Some (FLink ab tgt)"
        by (auto simp: is_link_def split: option.splits fnode.splits)
      show ?thesis
      proof (cases "todo \<noteq> [] \<or> follow")
        case go: True
        then have s: "links + 1 \<le> MAX_LINKS"
          "resolve look follow (links + 1) (tgt @ todo) (if ab then [] else here) = Some r"
          using "2.prems"(1) False l by (auto simp: resolve.simps(2) split: if_splits)
        show ?thesis
          by (rule "2.IH"(5) [OF False l refl go _ s(2)]) (use s(1) "2.prems"(2,3) in auto)
      next
        case stop: False
        with "2.prems"(1) False l have "r = here @ [part]" by (simp add: resolve.simps(2))
        with next_direct stop show ?thesis by simp
      qed
    next
      case no: False
      with "2.prems"(1) False have "resolve look follow links todo (here @ [part]) = Some r"
        by (auto simp: resolve.simps(2) is_link_def split: option.splits fnode.splits)
      then show ?thesis
        using "2.IH" False next_direct no
        by (cases "look (here @ [part])") (auto simp: is_link_def split: fnode.splits)
    qed
  qed
qed simp

lemma resolve_straight:
  "direct look (here @ todo) \<Longrightarrow> resolve look False links todo here = Some (here @ todo)"
proof (induction todo arbitrary: here)
  case (Cons part todo)
  have part: "part \<noteq> dotdot" using Cons.prems(1) by (auto simp: direct_def)
  have "todo = [] \<or> \<not> is_link (look (here @ [part]))"
  proof (cases todo)
    case (Cons c cs)
    have "direct look ((here @ [part]) @ c # cs)" using Cons.prems(1) Cons by simp
    from directD [OF this, of "Suc (length here)"] show ?thesis by simp
  qed simp
  moreover have "resolve look False links todo (here @ [part]) = Some ((here @ [part]) @ todo)"
    by (rule Cons.IH) (use Cons.prems(1) in simp_all)
  ultimately show ?case
    using part by (auto simp: resolve.simps(2) is_link_def split: option.split fnode.split)
qed simp

lemma real_direct: "direct fs p \<Longrightarrow> real fs p = Some p"
  unfolding real_def using resolve_straight [of fs "[]" p 0] by simp

section \<open>Inside the root\<close>

text \<open>The root is a directory, on a path of directories that no link is on.\<close>

definition root_ok :: "path \<Rightarrow> fs \<Rightarrow> bool" where
  "root_ok root fs \<longleftrightarrow> dotdot \<notin> set root \<and> (\<forall>n \<le> length root. fs (take n root) = Some FDir)"

lemma root_ok_direct:
  assumes "root_ok root fs" "dotdot \<notin> set q"
    and "\<And>n. 0 < n \<Longrightarrow> n < length q \<Longrightarrow> \<not> is_link (fs (root @ take n q))"
  shows "direct fs (root @ q)"
  unfolding direct_def
proof (intro conjI allI impI)
  show "dotdot \<notin> set (root @ q)" using assms(1,2) by (simp add: root_ok_def)
next
  fix n assume n: "n < length (root @ q)" "0 < n"
  show "\<not> is_link (fs (take n (root @ q)))"
  proof (cases "n \<le> length root")
    case True
    with assms(1) show ?thesis by (simp add: root_ok_def is_link_def)
  next
    case False
    with n assms(3) [of "n - length root"] show ?thesis by simp
  qed
qed

text \<open>What is looked at while resolving inside the root is what is there.\<close>

lemma root_ok_direct_take:
  assumes "root_ok root fs" "dotdot \<notin> set q" "\<And>k. 0 < k \<Longrightarrow> k < m \<Longrightarrow> \<not> is_link (fs (root @ take k q))"
  shows "direct fs (root @ take m q)"
proof (rule root_ok_direct [OF assms(1)])
  show "dotdot \<notin> set (take m q)" using assms(2) by (auto dest: in_set_takeD)
  fix k assume "0 < k" "k < length (take m q)"
  then have "0 < k" "k < m" by simp_all
  then show "\<not> is_link (fs (root @ take k (take m q)))" using assms(3) [of k] by (simp add: min_absorb1)
qed

lemma look_direct:
  assumes "root_ok root fs" "direct (\<lambda>q. lstat fs (root @ q)) p"
  shows "direct fs (root @ p)"
proof -
  have up: "dotdot \<notin> set p" using assms(2) by (simp add: direct_def)
  have "\<not> is_link (fs (root @ take m p))" if "0 < m" "m < length p" for m
    using that
  proof (induction m rule: less_induct)
    case (less m)
    have "direct fs (root @ take m p)"
      by (rule root_ok_direct_take [OF assms(1) up]) (use less in simp)
    then have "lstat fs (root @ take m p) = fs (root @ take m p)" by (simp add: lstat_def real_direct)
    with directD [OF assms(2) less.prems] show ?case by simp
  qed
  then have "direct fs (root @ take (length p) p)"
    by (intro root_ok_direct_take [OF assms(1) up]) simp
  then show ?thesis by simp
qed

lemma inside_direct:
  assumes "root_ok root fs" "inside fs root p follow = Some d"
  obtains at where "d = root @ at" "direct fs d" "real fs d = Some d" "follow \<Longrightarrow> \<not> is_link (fs d)"
proof -
  obtain at where a: "d = root @ at" "resolve (\<lambda>q. lstat fs (root @ q)) follow 0 p [] = Some at"
    using assms(2) by (auto simp: inside_def)
  note r = resolve_direct [OF a(2)]
  then have dir: "direct fs d" using look_direct [OF assms(1)] a(1) by simp
  moreover have "\<not> is_link (fs d)" if follow
    using r that a(1) real_direct [OF dir] assms(1)
    by (cases "at = []") (auto simp: lstat_def root_ok_def is_link_def)
  ultimately show thesis using that a(1) real_direct [OF dir] by blast
qed

text \<open>
  C19. Resolving inside the root stays inside it: whatever the path and the links an image put
  there, the result is the root followed by components none of which goes up, it has no link on its
  way, and the kernel finds that very path.
\<close>

theorem inside_stays_inside:
  assumes "root_ok root fs" "inside fs root p follow = Some d"
  shows "prefix root d \<and> dotdot \<notin> set d \<and> real fs d = Some d \<and> direct fs d"
  using inside_direct [OF assms] by (metis direct_def prefixI)

section \<open>Laying down entries\<close>

text \<open>Two file systems that differ strictly below the root only.\<close>

definition same_outside :: "path \<Rightarrow> fs \<Rightarrow> fs \<Rightarrow> bool" where
  "same_outside root fs fs' \<longleftrightarrow> (\<forall>x. \<not> strict_prefix root x \<longrightarrow> fs' x = fs x)"

lemma same_outside_trans: "same_outside root a b \<Longrightarrow> same_outside root b c \<Longrightarrow> same_outside root a c"
  by (simp add: same_outside_def)

lemma same_outside_refl [simp]: "same_outside root fs fs"
  by (simp add: same_outside_def)

lemma same_outside_root: "same_outside root fs fs' \<Longrightarrow> root_ok root fs \<Longrightarrow> root_ok root fs'"
  unfolding same_outside_def root_ok_def
  by (metis prefix_order.less_le_not_le take_is_prefix)

lemma direct_below:
  assumes "direct fs (root @ at)" "at \<noteq> []"
  shows "same_outside root fs (remove_at (root @ at) fs)" "same_outside root fs (put_at (root @ at) n fs)"
proof -
  have below: "strict_prefix root (root @ at)" using assms(2) by (simp add: strict_prefix_def)
  then have "strict_prefix root x" if "prefix (root @ at) x" for x
    using that by (meson prefix_order.less_le_trans)
  then show "same_outside root fs (remove_at (root @ at) fs)"
    by (auto simp: remove_at_def same_outside_def real_direct [OF assms(1)])
  show "same_outside root fs (put_at (root @ at) n fs)"
    using below by (auto simp: put_at_def same_outside_def real_direct [OF assms(1)])
qed

lemma direct_after:
  assumes "direct fs p"
  shows "direct (remove_at p fs) p"
  using assms by (auto simp: direct_def remove_at_def real_direct [OF assms] dest: prefix_length_le)

lemma make_dirs_below:
  assumes "root_ok root fs" "direct fs (root @ at)" "at \<noteq> []" "make_dirs (butlast (root @ at)) fs = Some fs'"
  shows "same_outside root fs fs'" "direct fs' (root @ at)"
proof -
  let ?p = "butlast (root @ at)"
  have fs': "fs' = (\<lambda>x. if prefix x ?p \<and> fs x = None then Some FDir else fs x)"
    using assms(4) by (auto simp: make_dirs_def split: if_splits)
  have above: "strict_prefix root x" if x: "prefix x ?p" "fs x = None" for x
  proof -
    have "?p = root @ butlast at" using assms(3) by (simp add: butlast_append)
    with x have "prefix x (root @ butlast at)" by simp
    then consider "prefix x root" | "prefix root x" using prefix_same_cases prefixI by metis
    then show ?thesis
    proof cases
      case 1
      then have "fs x = Some FDir"
        using assms(1) by (metis root_ok_def append_eq_conv_conj prefixE prefix_length_le)
      with x show ?thesis by simp
    next
      case 2
      moreover have "x \<noteq> root" using x assms(1) by (auto simp: root_ok_def)
      ultimately show ?thesis by (simp add: strict_prefix_def)
    qed
  qed
  then show "same_outside root fs fs'" by (auto simp: fs' same_outside_def)
  show "direct fs' (root @ at)" using assms(2) by (auto simp: fs' direct_def is_link_def)
qed

lemma replaced_below:
  assumes "direct fs (root @ at)" "at \<noteq> []"
  shows "same_outside root fs (put_at (root @ at) n (remove_at (root @ at) fs))"
  using direct_below [OF assms] direct_below(2) [OF direct_after [OF assms(1)] assms(2)] same_outside_trans by blast

lemma place_entry_below:
  assumes "direct fs (root @ at)" "at \<noteq> []" "place_entry root (root @ at) kind fs = Some fs'"
  shows "same_outside root fs fs'"
  using assms(3) replaced_below [OF assms(1,2)]
  by (auto simp: place_entry_def Let_def bind_eq_Some_conv split: entry_kind.splits option.splits prod.splits if_splits)

lemma write_entry_below:
  assumes "root_ok root (un_fs u)" "write_entry root en u = Some u'"
  shows "same_outside root (un_fs u) (un_fs u')"
proof -
  obtain d where d: "inside (un_fs u) root (te_path en) (te_kind en = KDir) = Some d"
    using assms(2) by (auto simp: write_entry_def bind_eq_Some_conv)
  obtain at where at: "d = root @ at" "direct (un_fs u) d" by (rule inside_direct [OF assms(1) d])
  show ?thesis
  proof (cases "at = []")
    case True
    with assms(2) d at(1) show ?thesis by (simp add: write_entry_def)
  next
    case False
    with at(1) have "d \<noteq> root" by simp
    with assms(2) d obtain fs1 fs2 where s: "make_dirs (butlast d) (un_fs u) = Some fs1"
      "place_entry root d (te_kind en) fs1 = Some fs2" "un_fs u' = fs2"
      by (auto simp: write_entry_def bind_eq_Some_conv split: if_splits)
    note dirs = make_dirs_below [OF assms(1) at(2) [unfolded at(1)] False s(1) [unfolded at(1)]]
    have "same_outside root fs1 fs2"
      using place_entry_below [OF dirs(2) False] s(2) at(1) by simp
    with dirs(1) s(3) show ?thesis using same_outside_trans by blast
  qed
qed

lemma apply_entry_below:
  "root_ok root (un_fs u) \<Longrightarrow> apply_entry root en u = Some u' \<Longrightarrow> same_outside root (un_fs u) (un_fs u')"
  using write_entry_below [of root u en u']
  by (auto simp: apply_entry_def split: option.splits if_splits)

text \<open>
  C20. Laying down the entries of a layer changes nothing outside the root, whatever the entries
  are, in whatever order, and wherever the links among them point.
\<close>

theorem entries_stay_inside:
  assumes "root_ok root (un_fs u)" "apply_entries root ens u = Some u'"
  shows "\<forall>x. un_fs u' x = un_fs u x \<or> strict_prefix root x"
proof -
  have "same_outside root (un_fs u) (un_fs u')"
    using assms
  proof (induction ens arbitrary: u)
    case (Cons en ens)
    then obtain u1 where s: "apply_entry root en u = Some u1" "apply_entries root ens u1 = Some u'"
      by (auto simp: bind_eq_Some_conv)
    have one: "same_outside root (un_fs u) (un_fs u1)" by (rule apply_entry_below [OF Cons.prems(1) s(1)])
    from Cons.IH [OF same_outside_root [OF one Cons.prems(1)] s(2)] one same_outside_trans show ?case by blast
  qed simp
  then show ?thesis by (auto simp: same_outside_def)
qed

section \<open>Deletions\<close>

lemma resolve_dirs:
  assumes "dotdot \<notin> set p" "\<And>n. 0 < n \<Longrightarrow> n \<le> length p \<Longrightarrow> \<not> is_link (look (here @ take n p))"
  shows "resolve look follow links (p @ todo) here = resolve look follow links todo (here @ p)"
  using assms
proof (induction p arbitrary: here)
  case (Cons c p)
  have "\<not> is_link (look (here @ [c]))" using Cons.prems(2) [of 1] by simp
  moreover have "resolve look follow links (p @ todo) (here @ [c]) = resolve look follow links todo ((here @ [c]) @ p)"
  proof (rule Cons.IH)
    fix n assume "0 < n" "n \<le> length p"
    with Cons.prems(2) [of "Suc n"] show "\<not> is_link (look ((here @ [c]) @ take n p))" by simp
  qed (use Cons.prems(1) in simp)
  ultimately show ?case
    using Cons.prems(1) by (auto simp: resolve.simps(2) is_link_def split: option.split fnode.split)
qed simp

lemma through_link:
  assumes "root_ok root fs" "fs (root @ [d]) = Some (FLink True dir)" "d \<noteq> dotdot" "direct fs (dir @ [f])"
  shows "real fs (root @ [d, f]) = Some (dir @ [f])"
proof -
  have "resolve fs False 0 (root @ [d, f]) [] = resolve fs False 0 [d, f] root"
    using resolve_dirs [of root fs "[]" False 0 "[d, f]"] assms(1) by (simp add: root_ok_def is_link_def)
  also have "\<dots> = resolve fs False 1 (dir @ [f]) []"
    using assms(2,3) by (simp add: resolve.simps(2) MAX_LINKS_def)
  also have "\<dots> = Some (dir @ [f])" using resolve_straight [of fs "[]" "dir @ [f]" 1] assms(4) by simp
  finally show ?thesis by (simp add: real_def)
qed

text \<open>
  Deletions do leave it: they are resolved when read and made at the end, when a later entry may
  have put a link there. A whiteout of a name in a directory the layer then replaces by a link to any
  directory of the host deletes that name there, on the node.
\<close>

theorem whiteout_leaves_the_root:
  assumes "root_ok root fs" "root_ok dir fs" "fs (dir @ [f]) = Some FFile"
    and "\<And>q. fs (root @ d # q) = None" "d \<noteq> dotdot" "\<not> starts_with d WHITEOUT" "f \<notin> {[], ''.'', dotdot, ''.wh..opq''}"
  shows "\<exists>fs'. apply_layer root [\<lparr>te_path = [d, WHITEOUT @ f], te_kind = KFile\<rparr>,
      \<lparr>te_path = [d], te_kind = KSymlink (Some (True, dir))\<rparr>] fs = Some fs' \<and> fs' (dir @ [f]) = None"
proof -
  let ?fs = "fs(root @ [d] \<mapsto> FLink True dir)"
  have up: "dotdot \<notin> set root" "dotdot \<notin> set dir" using assms(1,2) by (simp_all add: root_ok_def)
  have links: "\<not> is_link (fs (take n root))" "\<not> is_link (fs (take n dir))" for n
    using assms(1,2) by (cases "n \<le> length root"; cases "n \<le> length dir"; force simp: root_ok_def is_link_def)+
  have dest: "direct fs (root @ [d])"
    using root_ok_direct [OF assms(1), of "[d]"] assms(5) by simp
  then have look: "lstat fs (root @ [d]) = None" by (simp add: lstat_def real_direct assms(4) [of "[]"])
  have ins: "inside fs root [d] x = Some (root @ [d])" for x
    using look assms(5) by (simp add: inside_def resolve.simps(2))
  have n: "WHITEOUT @ f \<noteq> OPAQUE" "WHITEOUT @ f \<noteq> dotdot" "starts_with (WHITEOUT @ f) WHITEOUT" "d \<noteq> OPAQUE"
    using assms(6,7) by (auto simp: WHITEOUT_def OPAQUE_def dotdot_def starts_with_def)
  let ?u1 = "\<lparr>un_fs = fs, un_written = [], un_gone = [root @ [d, f]], un_emptied = []\<rparr>"
  have first: "apply_entry root \<lparr>te_path = [d, WHITEOUT @ f], te_kind = KFile\<rparr>
      \<lparr>un_fs = fs, un_written = [], un_gone = [], un_emptied = []\<rparr> = Some ?u1"
    using n assms(7) by (simp add: apply_entry_def file_name_def ins join_name_def)
  have "fs x \<noteq> None" if "prefix x root" for x
    using that assms(1) by (metis append_eq_conv_conj option.distinct(1) prefixE prefix_length_le root_ok_def)
  moreover have "\<not> list_ex (\<lambda>n. fs (take n root) \<notin> {None, Some FDir}) [0..<Suc (length root)]"
    using assms(1) by (auto simp: list_ex_iff root_ok_def simp del: upt_Suc)
  ultimately have dirs: "make_dirs root fs = Some fs" unfolding make_dirs_def by (auto simp: fun_eq_iff)
  have removed: "remove_at (root @ [d]) fs = fs"
    using assms(4) by (auto simp: remove_at_def real_direct [OF dest] fun_eq_iff prefix_def)
  have "place_entry root (root @ [d]) (KSymlink (Some (True, dir))) fs = Some ?fs"
    by (simp add: place_entry_def removed put_at_def real_direct [OF dest])
  then have second: "apply_entry root \<lparr>te_path = [d], te_kind = KSymlink (Some (True, dir))\<rparr> ?u1 =
      Some (?u1\<lparr>un_fs := ?fs, un_written := [root @ [d]]\<rparr>)"
    using assms(5,6) n(4) by (simp add: apply_entry_def file_name_def write_entry_def ins dirs)
  have other: "take n dir \<noteq> root @ [d]" "dir @ [f] \<noteq> root @ [d]" for n
    using assms(2,3) assms(4) [of "[]"] by (cases "n \<le> length dir"; force simp: root_ok_def)+
  have up_f: "f \<noteq> dotdot" using assms(7) by simp
  have "direct ?fs (dir @ [f])"
    using root_ok_direct [OF assms(2), of "[f]"] up_f other(1) by (auto simp: direct_def)
  moreover have "root_ok root ?fs"
    using assms(1) by (auto simp: root_ok_def dest: arg_cong [where f = length])
  ultimately have "real ?fs (root @ [d, f]) = Some (dir @ [f])"
    using through_link [of root ?fs d dir f] assms(5) by simp
  then have "drop_gone [root @ [d]] (root @ [d, f]) ?fs (dir @ [f]) = None"
    by (simp add: drop_gone_def remove_at_def)
  then show ?thesis by (simp add: apply_layer_def first second finish_layer_def del: fun_upd_apply)
qed

section \<open>Witnesses\<close>

definition small_host :: fs where
  "small_host = [[] \<mapsto> FDir, [''w''] \<mapsto> FDir, [''etc''] \<mapsto> FDir, [''etc'', ''passwd''] \<mapsto> FFile]"

lemma small_host_ok: "root_ok [''w''] small_host" "root_ok [''etc''] small_host"
  by (auto simp: root_ok_def small_host_def dotdot_def le_Suc_eq)

theorem whiteout_leaves_the_root_witness:
  "\<exists>fs'. apply_layer [''w''] [\<lparr>te_path = [''d'', WHITEOUT @ ''passwd''], te_kind = KFile\<rparr>,
      \<lparr>te_path = [''d''], te_kind = KSymlink (Some (True, [''etc'']))\<rparr>] small_host = Some fs' \<and> fs' [''etc'', ''passwd''] = None"
  using whiteout_leaves_the_root [OF small_host_ok, of "''passwd''" "''d''"]
  by (simp add: small_host_def dotdot_def WHITEOUT_def starts_with_def)

theorem inside_stays_inside_witness:
  "inside small_host [''w''] [dotdot, ''etc''] True = Some [''w'', ''etc''] \<and> prefix [''w''] [''w'', ''etc'']"
proof -
  have i: "inside small_host [''w''] [dotdot, ''etc''] True = Some [''w'', ''etc'']"
    by (simp add: inside_def resolve.simps(2) dotdot_def lstat_def real_def small_host_def)
  from inside_stays_inside [OF small_host_ok(1) i] i show ?thesis by simp
qed

theorem entries_stay_inside_witness:
  "\<exists>u'. apply_entries [''w''] [\<lparr>te_path = [''a''], te_kind = KFile\<rparr>]
      \<lparr>un_fs = small_host, un_written = [], un_gone = [], un_emptied = []\<rparr> = Some u' \<and>
     un_fs u' [''etc'', ''passwd''] = Some FFile"
proof -
  let ?u = "\<lparr>un_fs = small_host, un_written = [], un_gone = [], un_emptied = []\<rparr>"
  have "apply_entries [''w''] [\<lparr>te_path = [''a''], te_kind = KFile\<rparr>] ?u \<noteq> None"
    by (simp add: apply_entry_def file_name_def OPAQUE_def WHITEOUT_def starts_with_def write_entry_def inside_def
        resolve.simps(2) dotdot_def lstat_def real_def small_host_def make_dirs_def place_entry_def)
  then obtain u' where u': "apply_entries [''w''] [\<lparr>te_path = [''a''], te_kind = KFile\<rparr>] ?u = Some u'" by blast
  have "\<forall>x. un_fs u' x = un_fs ?u x \<or> strict_prefix [''w''] x"
    by (rule entries_stay_inside [OF _ u']) (simp add: small_host_ok)
  then have "un_fs u' [''etc'', ''passwd''] = small_host [''etc'', ''passwd'']"
    by (auto dest!: spec [of _ "[''etc'', ''passwd'']"])
  with u' show ?thesis by (simp add: small_host_def)
qed

end
