(* ===== verification/Images.thy ===== *)
theory Images
  imports Unpack Templates
begin

text \<open>
  Image references, registries and pulls (\<^verbatim>\<open>node/images.rs\<close>). White space and control
  characters of a reference are the ASCII ones. A request to a registry is an argument, a function of
  how often it was tried: dropped by the network, or answered. \<open>sha\<close> is SHA-256 in hexadecimal,
  \<open>arch\<close> the architecture as registries name it. The files a pull writes, but for its root, are
  left out.
\<close>

section \<open>References\<close>

record image_ref =
  rf_registry :: string
  rf_repository :: string
  rf_reference :: string

definition is_control :: "char \<Rightarrow> bool" where
  "is_control c \<longleftrightarrow> (let n = of_char c :: nat in n < 32 \<or> n = 127)"

definition DOCKER :: string where "DOCKER = ''registry-1.docker.io''"

definition not_a_reference :: "string \<Rightarrow> bool" where
  "not_a_reference img \<longleftrightarrow>
     img = [] \<or> 512 < length img \<or> list_ex (\<lambda>c. is_space c \<or> is_control c) img \<or> contains_str img ''..''"

definition registry_and_path :: "string \<Rightarrow> string \<times> string" where
  "registry_and_path img =
     (let (first, rest) = (case split_once (CHR ''/'') img of Some fr \<Rightarrow> fr | None \<Rightarrow> ([], img));
          (registry, path) = (if CHR ''.'' \<in> set first \<or> CHR '':'' \<in> set first \<or> first = ''localhost''
             then (first, rest) else (DOCKER, img))
      in (if registry = ''docker.io'' then DOCKER else registry, path))"

definition repository_and_tag :: "string \<Rightarrow> string \<times> string" where
  "repository_and_tag path =
     (case split_once (CHR ''@'') path of
        Some (r, d) \<Rightarrow> (before_char (CHR '':'') r, d)
      | None \<Rightarrow>
          (case rsplit_once (CHR '':'') path of
             Some (r, t) \<Rightarrow> if CHR ''/'' \<notin> set t then (r, t) else (path, ''latest'')
           | None \<Rightarrow> (path, ''latest'')))"

definition parse_ref :: "string \<Rightarrow> image_ref option" where
  "parse_ref text =
     (let img = trim text
      in if not_a_reference img then None
         else let (registry, path) = registry_and_path img;
                  (repository, reference) = repository_and_tag path
              in if repository = [] \<or> reference = [] then None
                 else Some \<lparr>rf_registry = registry,
                   rf_repository = (if registry = DOCKER \<and> CHR ''/'' \<notin> set repository then ''library/'' @ repository else repository),
                   rf_reference = reference\<rparr>)"

definition base_url :: "image_ref \<Rightarrow> string" where
  "base_url r =
     (let host = before_char (CHR '':'') (rf_registry r);
          local = (host = ''localhost'' \<or> host = ''127.0.0.1'')
      in (if local then ''http'' else ''https'') @ ''://'' @ rf_registry r @ ''/v2/'' @ rf_repository r)"

section \<open>What an image says\<close>

record image_file_config =
  fc_entrypoint :: "string list option"
  fc_cmd :: "string list option"
  fc_env :: "string list option"
  fc_working_dir :: "string option"
  fc_exposed_ports :: "string list option"

definition or_empty :: "string list option \<Rightarrow> string list" where
  "or_empty x = (case x of Some l \<Rightarrow> l | None \<Rightarrow> [])"

definition exposed :: "image_file_config \<Rightarrow> u16 list" where
  "exposed c = sort (List.map_filter (\<lambda>p. parse_u16 (before_char (CHR ''/'') p)) (or_empty (fc_exposed_ports c)))"

definition image_config_of :: "image_file_config \<Rightarrow> image_config" where
  "image_config_of c = \<lparr>ic_args = or_empty (fc_entrypoint c) @ or_empty (fc_cmd c), ic_env = or_empty (fc_env c),
     ic_cwd = (case fc_working_dir c of Some d \<Rightarrow> if d = [] then None else Some d | None \<Rightarrow> None),
     ic_port = (case exposed c of [] \<Rightarrow> None | p # _ \<Rightarrow> Some p)\<rparr>"

section \<open>Asking a registry\<close>

datatype 'a asked = Dropped string | Refused string | Gave 'a

definition TRIES :: nat where "TRIES = 5"
definition RETRY_PAUSE :: millis where "RETRY_PAUSE = from_secs 1"
definition MAX_IMAGE_BYTES :: nat where "MAX_IMAGE_BYTES = 32 * 2 ^ 30"

text \<open>
  The loop of \<^verbatim>\<open>manifest\<close> and \<^verbatim>\<open>blob\<close>: the tries left before the last one, the number of the
  next, and what was waited so far.
\<close>

primrec retry_loop :: "nat \<Rightarrow> (nat \<Rightarrow> 'a asked) \<Rightarrow> nat \<Rightarrow> millis \<Rightarrow> millis \<Rightarrow> 'a asked \<times> nat \<times> millis" where
  "retry_loop 0 ask k pause waited = (ask k, Suc k, waited)"
| "retry_loop (Suc n) ask k pause waited =
     (case ask k of
        Dropped _ \<Rightarrow> retry_loop n ask (Suc k) (pause * 2) (waited + pause)
      | out \<Rightarrow> (out, Suc k, waited))"

definition with_retries :: "(nat \<Rightarrow> 'a asked) \<Rightarrow> 'a asked \<times> nat \<times> millis" where
  "with_retries ask = retry_loop (TRIES - 1) ask 0 RETRY_PAUSE 0"

record blob =
  bl_digest :: string
  bl_size :: nat
  bl_media_type :: string

record manifest =
  mf_manifests :: "(string \<times> (string \<times> string) option) list"
  mf_config :: "blob option"
  mf_layers :: "blob list"

text \<open>\<open>fetch\<close> is a manifest by its tag or digest; a variant's platform is its system and architecture.\<close>

definition manifest_once :: "string \<Rightarrow> (string \<Rightarrow> manifest asked) \<Rightarrow> string \<Rightarrow> manifest asked" where
  "manifest_once arch fetch reference =
     (case fetch reference of
        Gave m \<Rightarrow>
          if mf_manifests m = [] then Gave m
          else (case find (\<lambda>(_, p). p = Some (''linux'', arch)) (mf_manifests m) of
                  None \<Rightarrow> Refused ''the image has no variant for this machine''
                | Some (digest, _) \<Rightarrow> fetch digest)
      | out \<Rightarrow> out)"

text \<open>
  \<^verbatim>\<open>blob_once\<close>, from the chunks the registry sent: the bytes so far, and the end of the stream,
  which may be a drop.
\<close>

fun blob_chunks :: "string list \<Rightarrow> string \<Rightarrow> string asked" where
  "blob_chunks [] got = Gave got"
| "blob_chunks (c # cs) got =
     (if length got + length c > MAX_IMAGE_BYTES then Refused ''larger than the limit''
      else blob_chunks cs (got @ c))"

definition blob_once :: "(string \<Rightarrow> string) \<Rightarrow> (string \<Rightarrow> string list asked) \<Rightarrow> string \<Rightarrow> string asked" where
  "blob_once sha fetch digest =
     (if \<not> starts_with digest ''sha256:'' then Refused ''unsupported digest''
      else case fetch digest of
             Dropped e \<Rightarrow> Dropped e
           | Refused e \<Rightarrow> Refused e
           | Gave chunks \<Rightarrow>
               (case blob_chunks chunks [] of
                  Gave got \<Rightarrow> if sha got = drop 7 digest then Gave got else Refused ''did not match what was downloaded''
                | out \<Rightarrow> out))"

section \<open>Pulling\<close>

text \<open>
  \<^verbatim>\<open>pull\<close>: what is fetched and laid out, in order. \<open>layer_of\<close> reads a layer's entries from its
  bytes, \<open>config_of\<close> the image's config; both fail on what they cannot read. A total of the sizes a
  manifest gives wraps at 64 bits. The result is the root as it is when it is renamed into place.
\<close>

definition gave :: "'a asked \<Rightarrow> string + 'a" where
  "gave a = (case a of Gave x \<Rightarrow> Inr x | Refused e \<Rightarrow> Inl e | Dropped e \<Rightarrow> Inl e)"

fun pull_layers ::
  "(string \<Rightarrow> string asked) \<Rightarrow> (string \<Rightarrow> string \<Rightarrow> tar_entry list option) \<Rightarrow> path \<Rightarrow> blob list \<Rightarrow> fs \<Rightarrow> string + fs" where
  "pull_layers get_blob layer_of rdir [] fs = Inr fs"
| "pull_layers get_blob layer_of rdir (l # ls) fs =
     (case gave (get_blob (bl_digest l)) of
        Inl e \<Rightarrow> Inl e
      | Inr bytes \<Rightarrow>
          (case Option.bind (layer_of (bl_media_type l) bytes) (\<lambda>ens. apply_layer rdir ens fs) of
             None \<Rightarrow> Inl ''unpacking a layer''
           | Some fs1 \<Rightarrow> pull_layers get_blob layer_of rdir ls fs1))"

definition mount_points :: "path \<Rightarrow> fs \<Rightarrow> fs option" where
  "mount_points rdir fs =
     fold (\<lambda>d acc. Option.bind acc (\<lambda>fs. Option.bind (inside fs rdir [d] True) (\<lambda>p. make_dirs p fs)))
       [''proc'', ''dev'', ''sys'', ''tmp''] (Some fs)"

definition pull ::
  "(string \<Rightarrow> manifest asked) \<Rightarrow> (string \<Rightarrow> string asked) \<Rightarrow> (string \<Rightarrow> image_file_config option)
     \<Rightarrow> (string \<Rightarrow> string \<Rightarrow> tar_entry list option) \<Rightarrow> bool \<Rightarrow> string \<Rightarrow> path \<Rightarrow> fs \<Rightarrow> string + image_config \<times> fs" where
  "pull get_manifest get_blob config_of layer_of ext4 img rdir fs =
     (case parse_ref img of
        None \<Rightarrow> Inl ''not an image reference''
      | Some r \<Rightarrow>
          (case gave (get_manifest (rf_reference r)) of
             Inl e \<Rightarrow> Inl e
           | Inr m \<Rightarrow>
               (case mf_config m of
                  None \<Rightarrow> Inl ''the image has no config''
                | Some c \<Rightarrow>
                    if sum_list (map bl_size (mf_layers m)) mod 2 ^ 64 > MAX_IMAGE_BYTES then Inl ''over the limit''
                    else (case gave (get_blob (bl_digest c)) of
                            Inl e \<Rightarrow> Inl e
                          | Inr bytes \<Rightarrow>
                              (case config_of bytes of
                                 None \<Rightarrow> Inl ''reading the config''
                               | Some fc \<Rightarrow>
                                   (case pull_layers get_blob layer_of rdir (mf_layers m) fs of
                                      Inl e \<Rightarrow> Inl e
                                    | Inr fs1 \<Rightarrow>
                                        (case mount_points rdir fs1 of
                                           None \<Rightarrow> Inl ''making a directory''
                                         | Some fs2 \<Rightarrow>
                                             if ext4 \<and> \<not> check_bootable fs2 rdir then Inl ''Firecracker cannot boot it''
                                             else Inr (image_config_of fc, fs2))))))))"

section \<open>The pulls of a node\<close>

text \<open>
  The table of pulls. \<open>saved\<close> is the config beside a template that is there; the flag is whether a
  pull was started.
\<close>

type_synonym pull_table = "(string, template_pull) book"

definition ensure_pull :: "image_config option \<Rightarrow> string \<Rightarrow> string \<Rightarrow> nat \<Rightarrow> pull_table \<Rightarrow> pull_table \<times> bool" where
  "ensure_pull saved name img attempt b =
     (let go = (case saved of
            Some c \<Rightarrow> (put name (pull_done name img attempt c) b, False)
          | None \<Rightarrow> (put name (pull_running name img attempt) b, True))
      in case map_of b name of
           Some p \<Rightarrow> if tp_attempt p = attempt \<and> tp_image p = img then (b, False) else go
         | None \<Rightarrow> go)"

definition pull_ended :: "string \<Rightarrow> string \<Rightarrow> nat \<Rightarrow> string + image_config \<Rightarrow> pull_table \<Rightarrow> pull_table" where
  "pull_ended name img attempt out b =
     put name (case out of Inr c \<Rightarrow> pull_done name img attempt c | Inl e \<Rightarrow> pull_failed name img attempt e) b"

definition refuse_pull :: "string \<Rightarrow> string \<Rightarrow> nat \<Rightarrow> string \<Rightarrow> pull_table \<Rightarrow> pull_table" where
  "refuse_pull name img attempt why b = put name (pull_failed name img attempt why) b"

definition pulls_busy :: "pull_table \<Rightarrow> bool" where
  "pulls_busy b \<longleftrightarrow> list_ex (\<lambda>(_, p). \<not> tp_done p) b"

definition report_pulls :: "pull_table \<Rightarrow> template_pull list" where
  "report_pulls b = map snd b"

section \<open>Properties\<close>

definition was_dropped :: "'a asked \<Rightarrow> bool" where
  "was_dropped a = (case a of Dropped _ \<Rightarrow> True | _ \<Rightarrow> False)"

lemma retry_loop_spec:
  assumes "retry_loop n ask k pause waited = (out, tries, wtotal)"
  shows "k < tries \<and> tries \<le> k + Suc n \<and> out = ask (tries - 1) \<and> list_all (\<lambda>j. was_dropped (ask j)) [k..<tries - 1] \<and>
    (was_dropped out \<longrightarrow> tries = k + Suc n) \<and> wtotal + pause = waited + pause * 2 ^ (tries - Suc k)"
  using assms
proof (induction n arbitrary: k pause waited)
  case 0
  then show ?case by auto
next
  case (Suc n)
  show ?case
  proof (cases "was_dropped (ask k)")
    case True
    then have "retry_loop n ask (Suc k) (pause * 2) (waited + pause) = (out, tries, wtotal)"
      using Suc.prems by (simp add: was_dropped_def split: asked.splits)
    from Suc.IH [OF this] have IH: "Suc k < tries" "tries \<le> Suc k + Suc n" "out = ask (tries - 1)"
      "list_all (\<lambda>j. was_dropped (ask j)) [Suc k..<tries - 1]" "was_dropped out \<longrightarrow> tries = Suc k + Suc n"
      "wtotal + pause * 2 = waited + pause + pause * 2 * 2 ^ (tries - Suc (Suc k))" by blast+
    have up: "[k..<tries - 1] = k # [Suc k..<tries - 1]" by (rule upt_conv_Cons) (use IH(1) in arith)
    have "tries - Suc k = Suc (tries - Suc (Suc k))" using IH(1) by simp
    then have "pause * 2 ^ (tries - Suc k) = pause * 2 * 2 ^ (tries - Suc (Suc k))" by (simp only: power_Suc mult.assoc)
    with IH(6) have "wtotal + pause = waited + pause * 2 ^ (tries - Suc k)" by linarith
    moreover have "list_all (\<lambda>j. was_dropped (ask j)) [k..<tries - 1]" unfolding up using IH(4) True by simp
    moreover have "k < tries" "tries \<le> k + Suc (Suc n)" using IH(1,2) by linarith+
    moreover have "was_dropped out \<longrightarrow> tries = k + Suc (Suc n)" using IH(5) by simp
    ultimately show ?thesis using IH(3) by blast
  next
    case False
    then have "retry_loop (Suc n) ask k pause waited = (ask k, Suc k, waited)"
      by (cases "ask k") (simp_all add: was_dropped_def)
    with Suc.prems have "out = ask k" "tries = Suc k" "wtotal = waited" by simp_all
    with False show ?thesis by simp
  qed
qed

text \<open>
  A request to a registry is tried again only while the network drops it, at most five times
  and with at most fifteen seconds of waiting in all; what the registry itself answers, a refusal too,
  is the outcome at once.
\<close>

theorem retries_bounded:
  "case with_retries ask of (out, tries, waited) \<Rightarrow>
     tries \<le> 5 \<and> waited \<le> 15000 \<and> out = ask (tries - 1) \<and>
     list_all (\<lambda>j. was_dropped (ask j)) [0..<tries - 1] \<and> (if was_dropped out then tries = 5 else True)"
proof (cases "with_retries ask")
  case (fields out tries waited)
  note spec = retry_loop_spec [OF fields [unfolded with_retries_def]]
  have n: "0 + Suc (TRIES - 1) = 5" "RETRY_PAUSE = 1000" by (simp_all add: TRIES_def RETRY_PAUSE_def from_secs_def)
  from spec have "tries \<le> 0 + Suc (TRIES - 1)" "was_dropped out \<longrightarrow> tries = 0 + Suc (TRIES - 1)"
    "waited + RETRY_PAUSE = 0 + RETRY_PAUSE * 2 ^ (tries - Suc 0)"
    and s: "out = ask (tries - 1)" "list_all (\<lambda>j. was_dropped (ask j)) [0..<tries - 1]" by blast+
  then have le: "tries \<le> 5" and five: "was_dropped out \<longrightarrow> tries = 5" and w: "waited + 1000 = 1000 * 2 ^ (tries - 1)"
    unfolding n by (simp_all only: add_0 One_nat_def)
  have "(2::nat) ^ (tries - 1) \<le> 2 ^ 4" using le by (intro power_increasing) simp_all
  then have "(2::nat) ^ (tries - 1) \<le> 16" by simp
  with w have "waited \<le> 15000" by linarith
  moreover have "if was_dropped out then tries = 5 else True" using five by (cases "was_dropped out") (simp_all only: if_True if_False simp_thms)
  ultimately show ?thesis unfolding fields prod.case using s le by blast
qed

text \<open>
  Two attempts at one template under way on a node: the end of the older replaces what the table says
  of the newer, which its next command starts a third time.
\<close>

lemma older_attempt_overwrites:
  assumes "ensure_pull None name img 1 b = (b1, True)" "ensure_pull None name img 2 b1 = (b2, True)"
  shows "ensure_pull None name img 2 (pull_ended name img 1 (Inl why) (pull_ended name img 2 (Inr c) b2)) =
    (put name (pull_running name img 2) (pull_ended name img 1 (Inl why) (pull_ended name img 2 (Inr c) b2)), True)"
  by (simp add: ensure_pull_def pull_ended_def pull_failed_def pull_running_def)

text \<open>A blob that is taken is within the limit and is what its digest says.\<close>

lemma blob_chunks_gave: "blob_chunks cs got = Gave x \<Longrightarrow> x = got @ concat cs \<and> (cs = [] \<or> length x \<le> MAX_IMAGE_BYTES)"
  by (induction cs arbitrary: got) (fastforce split: if_splits)+

lemma blob_is_its_digest: "blob_once sha fetch digest = Gave got \<Longrightarrow> digest = ''sha256:'' @ sha got"
  by (auto simp: blob_once_def starts_with_def prefix_def split: if_splits asked.splits)

end
