(* ===== verification/StoreKeys.thy ===== *)
theory StoreKeys
  imports StoreSandboxes StoreNodes StoreCatalog
begin

text \<open>
  The databases a master can come to: from an empty one, any sequence of the operations of
  \<^verbatim>\<open>state.rs\<close> that write. Their primary keys hold, the type invariant of the tables: an insert or an
  upsert never relies on sqlite to refuse it, but for the three that hand the refusal on.
\<close>

inductive store_reach :: "store \<Rightarrow> bool" where
  sr_empty: "store_reach empty_store"
| sr_insert_sandbox: "store_reach st \<Longrightarrow> insert_sandbox s st = Inr st' \<Longrightarrow> store_reach st'"
| sr_delete_sandbox: "store_reach st \<Longrightarrow> store_reach (delete_sandbox i st)"
| sr_error: "store_reach st \<Longrightarrow> store_reach (set_sandbox_error i e a st)"
| sr_clear: "store_reach st \<Longrightarrow> store_reach (clear_sandbox_error i st)"
| sr_ip: "store_reach st \<Longrightarrow> store_reach (set_sandbox_ip i ip st)"
| sr_tier: "store_reach st \<Longrightarrow> store_reach (set_tier i t st)"
| sr_touch: "store_reach st \<Longrightarrow> store_reach (touch now i st)"
| sr_egress: "store_reach st \<Longrightarrow> store_reach (fst (set_sandbox_egress i g st))"
| sr_default_egress: "store_reach st \<Longrightarrow> store_reach (set_default_egress g st)"
| sr_upsert_node: "store_reach st \<Longrightarrow> store_reach (upsert_node now n st)"
| sr_remove_node: "store_reach st \<Longrightarrow> store_reach (remove_node i st)"
| sr_note_pool: "store_reach st \<Longrightarrow> store_reach (note_pool now i p st)"
| sr_backfill: "store_reach st \<Longrightarrow> store_reach (backfill_pools st)"
| sr_refingerprint: "store_reach st \<Longrightarrow> store_reach (fst (refingerprint_node now i fp st))"
| sr_disconnected: "store_reach st \<Longrightarrow> store_reach (fst (mark_all_nodes_disconnected st))"
| sr_agent: "store_reach st \<Longrightarrow> store_reach (set_node_agent i a c s st)"
| sr_connected: "store_reach st \<Longrightarrow> store_reach (set_node_connected now i b st)"
| sr_host: "store_reach st \<Longrightarrow> store_reach (set_node_host i h st)"
| sr_cert: "store_reach st \<Longrightarrow> store_reach (set_node_cert i c st)"
| sr_revoke: "store_reach st \<Longrightarrow> store_reach (fst (revoke_node i st))"
| sr_health: "store_reach st \<Longrightarrow> store_reach (set_node_health now i free psi st)"
| sr_token: "store_reach st \<Longrightarrow> create_node_token now tok p ttl st = Inr st' \<Longrightarrow> store_reach st'"
| sr_redeem: "store_reach st \<Longrightarrow> store_reach (fst (redeem_node_token now tok i st))"
| sr_snapshot: "store_reach st \<Longrightarrow> store_reach (put_snapshot s st)"
| sr_delete_snapshot: "store_reach st \<Longrightarrow> store_reach (fst (delete_snapshot tag st))"
| sr_fingerprint: "store_reach st \<Longrightarrow> store_reach (set_snapshot_fingerprint tag fp st)"
| sr_template: "store_reach st \<Longrightarrow> store_reach (put_template now name rootfs spec st)"
| sr_image_template: "store_reach st \<Longrightarrow> store_reach (fst (put_image_template now name img spec st))"
| sr_spec: "store_reach st \<Longrightarrow> store_reach (set_template_spec name spec st)"
| sr_pull: "store_reach st \<Longrightarrow> store_reach (record_pull name i attempt finished e st)"
| sr_e2b: "store_reach st \<Longrightarrow> insert_e2b r st = Inr st' \<Longrightarrow> store_reach st'"
| sr_end_at: "store_reach st \<Longrightarrow> store_reach (set_e2b_end_at i t st)"
| sr_version: "store_reach st \<Longrightarrow> store_reach (set_e2b_envd_version i v st)"

section \<open>Keys\<close>

lemma distinct_del_where: "distinct (map key rows) \<Longrightarrow> distinct (map key (del_where P rows))"
  unfolding del_where_def by (rule distinct_map_filter)

lemma upd_node_keys: "(\<And>n. nd_id (f n) = nd_id n) \<Longrightarrow> map nd_id (nodes (upd_node i f st)) = map nd_id (nodes st)"
  by (simp add: upd_node_def map_key_upd_where)

text \<open>Changes of rows that leave the keys of a table alone.\<close>

definition same_keys :: "store \<Rightarrow> store \<Rightarrow> bool" where
  "same_keys st st' \<longleftrightarrow>
     map nd_id (nodes st') = map nd_id (nodes st) \<and> map sb_id (sandboxes st') = map sb_id (sandboxes st) \<and>
     map st_tag (snapshots st') = map st_tag (snapshots st) \<and> map tm_name (templates st') = map tm_name (templates st) \<and>
     map tk_token (node_tokens st') = map tk_token (node_tokens st) \<and>
     map e2_id (e2b_sandboxes st') = map e2_id (e2b_sandboxes st) \<and>
     map (\<lambda>p. (pl_template p, pl_node_id p)) (template_pulls st') = map (\<lambda>p. (pl_template p, pl_node_id p)) (template_pulls st)"

lemma same_keys_ok: "same_keys st st' \<Longrightarrow> keys_ok st \<Longrightarrow> keys_ok st'"
  by (simp add: same_keys_def keys_ok_def)

lemma same_keys_refl [simp]: "same_keys st st"
  by (simp add: same_keys_def)

lemma same_keys_trans: "same_keys a b \<Longrightarrow> same_keys b c \<Longrightarrow> same_keys a c"
  by (simp add: same_keys_def)

lemma same_keys_sandbox: "(\<And>s. sb_id (f s) = sb_id s) \<Longrightarrow> same_keys st (upd_sandbox i f st)"
  by (simp add: same_keys_def upd_sandbox_def map_key_upd_where)

lemma same_keys_node: "(\<And>n. nd_id (f n) = nd_id n) \<Longrightarrow> same_keys st (upd_node i f st)"
  by (simp add: same_keys_def upd_node_def map_key_upd_where)

lemma same_keys_e2b: "(\<And>e. e2_id (f e) = e2_id e) \<Longrightarrow> same_keys st (upd_e2b i f st)"
  by (simp add: same_keys_def upd_e2b_def map_key_upd_where)

lemma same_keys_template: "(\<And>t. tm_name (f t) = tm_name t) \<Longrightarrow> same_keys st (upd_template n f st)"
  by (simp add: same_keys_def upd_template_def map_key_upd_where)

lemma same_keys_note_pool: "same_keys st (note_pool now i p st)"
  by (simp add: same_keys_def note_pool_def)

lemma same_keys_rejoin: "same_keys st (rejoin now derived base st)"
proof -
  have "same_keys st (fold (\<lambda>n s. note_pool now n base (upd_node n (\<lambda>r. r\<lparr>nd_pool := base\<rparr>) s)) ns st)" for ns
  proof (induction ns arbitrary: st)
    case (Cons n ns)
    have "same_keys st (note_pool now n base (upd_node n (\<lambda>r. r\<lparr>nd_pool := base\<rparr>) st))"
      by (rule same_keys_trans [OF same_keys_node same_keys_note_pool]) simp
    with Cons show ?case by (auto intro: same_keys_trans)
  qed simp
  then show ?thesis
    by (rule same_keys_trans) (simp add: rejoin_def Let_def same_keys_def map_key_upd_where)
qed

lemma same_keys_refingerprint: "same_keys st (fst (refingerprint_node now i fp st))"
proof (cases "node_of st i")
  case (Some n)
  show ?thesis
  proof (cases "nd_fingerprint n = fp")
    case False
    define target where "target = (if list_all (\<lambda>f. f = fp) (other_fingerprints st (base_of (nd_pool n)) i) then base_of (nd_pool n) else derived_pool (base_of (nd_pool n)) fp)"
    let ?st1 = "upd_node i (\<lambda>r. r\<lparr>nd_fingerprint := fp, nd_pool := target\<rparr>) st"
    let ?st2 = "?st1\<lparr>sandboxes := upd_where (\<lambda>s. sb_node_id s = i) (\<lambda>s. s\<lparr>sb_pool := target\<rparr>) (sandboxes ?st1)\<rparr>"
    let ?st3 = "note_pool now i target ?st2"
    have "same_keys st ?st1" by (rule same_keys_node) simp
    moreover have "same_keys ?st1 ?st2" by (simp add: same_keys_def map_key_upd_where)
    ultimately have three: "same_keys st ?st3" using same_keys_note_pool same_keys_trans by blast
    have "fst (refingerprint_node now i fp st) \<in> {?st3, rejoin now (derived_pool (base_of (nd_pool n)) fp) (base_of (nd_pool n)) ?st3}"
      using Some False by (simp add: refingerprint_node_def Let_def target_def)
    moreover have "same_keys st (rejoin now (derived_pool (base_of (nd_pool n)) fp) (base_of (nd_pool n)) ?st3)"
      by (rule same_keys_trans [OF three same_keys_rejoin])
    ultimately show ?thesis using three by (elim insertE) simp_all
  qed (simp add: refingerprint_node_def Some)
qed (simp add: refingerprint_node_def)

text \<open>Each operation that adds or removes rows.\<close>

lemma keys_insert_sandbox: "keys_ok st \<Longrightarrow> insert_sandbox s st = Inr st' \<Longrightarrow> keys_ok st'"
  by (auto simp: insert_sandbox_def keys_ok_def split: if_splits)

lemma keys_delete_sandbox: "keys_ok st \<Longrightarrow> keys_ok (delete_sandbox i st)"
  by (simp add: delete_sandbox_def keys_ok_def distinct_del_where)

lemma keys_upsert_node:
  assumes "keys_ok st"
  shows "keys_ok (upsert_node now n st)"
proof (cases "node_of st (nd_id n)")
  case None
  then have "nd_id n \<notin> nd_id ` set (nodes st)" by (simp add: node_of_def row_of_None)
  with assms have "keys_ok (st\<lparr>nodes := nodes st @ [new_node_row n]\<rparr>)" by (auto simp: keys_ok_def new_node_row_def)
  with None show ?thesis by (simp add: upsert_node_def same_keys_ok [OF same_keys_note_pool])
next
  case (Some r)
  with assms show ?thesis
    by (simp add: upsert_node_def same_keys_ok [OF same_keys_note_pool] same_keys_ok [OF same_keys_node])
qed

lemma keys_remove_node: "keys_ok st \<Longrightarrow> keys_ok (remove_node i st)"
  by (simp add: remove_node_def keys_ok_def distinct_del_where)

lemma keys_token: "keys_ok st \<Longrightarrow> create_node_token now tok p ttl st = Inr st' \<Longrightarrow> keys_ok st'"
  by (auto simp: create_node_token_def keys_ok_def split: if_splits)

lemma keys_redeem: "keys_ok st \<Longrightarrow> keys_ok (fst (redeem_node_token now tok i st))"
  by (auto simp: redeem_node_token_def keys_ok_def map_key_upd_where Let_def split: option.split)

lemma keys_snapshot: "keys_ok st \<Longrightarrow> keys_ok (put_snapshot s st)"
proof -
  assume "keys_ok st"
  moreover have "st_tag (snapshot_tag.extend s m) = st_tag s" for m :: "\<lparr>st_fingerprint :: string option\<rparr>"
    by (simp add: snapshot_tag.extend_def)
  ultimately show ?thesis by (auto simp: put_snapshot_def keys_ok_def upd_snapshot_def map_key_upd_where)
qed

lemma keys_delete_snapshot: "keys_ok st \<Longrightarrow> keys_ok (fst (delete_snapshot tag st))"
  by (simp add: delete_snapshot_def keys_ok_def distinct_del_where)

lemma keys_template: "keys_ok st \<Longrightarrow> keys_ok (put_template now name rootfs spec st)"
  by (auto simp: put_template_def template_row_of_def row_of_None keys_ok_def upd_template_def map_key_upd_where split: option.split)

lemma keys_image_template: "keys_ok st \<Longrightarrow> keys_ok (fst (put_image_template now name img spec st))"
  by (auto simp: put_image_template_def template_row_of_def row_of_None keys_ok_def upd_template_def map_key_upd_where
      distinct_del_where Let_def split: option.split)

lemma keys_pull: "keys_ok st \<Longrightarrow> keys_ok (record_pull name i attempt finished e st)"
  by (auto simp: record_pull_def keys_ok_def map_key_upd_where list_ex_iff Let_def)

lemma keys_e2b: "keys_ok st \<Longrightarrow> insert_e2b r st = Inr st' \<Longrightarrow> keys_ok st'"
  by (auto simp: insert_e2b_def keys_ok_def split: if_splits)

lemmas keys_of_rows = keys_delete_sandbox keys_upsert_node keys_remove_node keys_redeem
  keys_snapshot keys_delete_snapshot keys_template keys_image_template keys_pull

text \<open>Each operation that only changes rows.\<close>

lemma same_keys_fingerprint: "same_keys st (set_snapshot_fingerprint tag fp st)"
  by (simp add: set_snapshot_fingerprint_def upd_snapshot_def same_keys_def map_key_upd_where)

lemma same_keys_disconnected: "same_keys st (fst (mark_all_nodes_disconnected st))"
  by (simp add: mark_all_nodes_disconnected_def same_keys_def map_key_upd_where)

lemma same_keys_default_egress: "same_keys st (set_default_egress g st)"
  by (simp add: set_default_egress_def same_keys_def)

lemma same_keys_backfill: "same_keys st (backfill_pools st)"
  by (simp add: backfill_pools_def same_keys_def)

lemmas row_changes = set_sandbox_ip_upd set_sandbox_egress_def set_sandbox_error_def clear_sandbox_error_def set_tier_def touch_def
  set_node_agent_def set_node_connected_def set_node_host_def set_node_cert_def set_node_health_def revoke_node_def
  set_template_spec_def set_e2b_end_at_def set_e2b_envd_version_def

lemmas same_keys_kept = same_keys_sandbox [THEN same_keys_ok] same_keys_node [THEN same_keys_ok] same_keys_e2b [THEN same_keys_ok]
  same_keys_template [THEN same_keys_ok] same_keys_note_pool [THEN same_keys_ok] same_keys_refingerprint [THEN same_keys_ok]
  same_keys_fingerprint [THEN same_keys_ok] same_keys_disconnected [THEN same_keys_ok] same_keys_backfill [THEN same_keys_ok]
  same_keys_default_egress [THEN same_keys_ok]

text \<open>
  In every database the operations of the store can make, the primary keys of all seven tables
  hold: no two nodes, sandboxes, snapshots, templates, tokens or E2B sandboxes have one id, and no
  two pull rows are for one template on one node.
\<close>

theorem store_keys_hold:
  assumes "store_reach st"
  shows "keys_ok st"
  using assms
proof (induction rule: store_reach.induct)
  case sr_empty
  show ?case by (simp add: keys_ok_def empty_store_def)
next
  case (sr_insert_sandbox st s st')
  from sr_insert_sandbox.IH sr_insert_sandbox.hyps(2) show ?case by (rule keys_insert_sandbox)
next
  case (sr_token st now tok p ttl st')
  from sr_token.IH sr_token.hyps(2) show ?case by (rule keys_token)
next
  case (sr_e2b st r st')
  from sr_e2b.IH sr_e2b.hyps(2) show ?case by (rule keys_e2b)
qed (simp_all add: keys_of_rows same_keys_kept row_changes)

theorem store_keys_hold_witness:
  "keys_ok (set_tier ''a'' Frozen (empty_store\<lparr>sandboxes := [blank_sandbox\<lparr>sb_last_error := None, sb_error_attempts := 0, sb_ip := None\<rparr>]\<rparr>))"
proof -
  have "insert_sandbox blank_sandbox empty_store = Inr (empty_store\<lparr>sandboxes := [blank_sandbox\<lparr>sb_last_error := None, sb_error_attempts := 0, sb_ip := None\<rparr>]\<rparr>)"
    by (simp add: insert_sandbox_def empty_store_def)
  from store_keys_hold [OF sr_tier [OF sr_insert_sandbox [OF sr_empty this]]] show ?thesis .
qed

end
