(* ===== verification/Proxy.thy ===== *)
theory Proxy
  imports Egress
begin

text \<open>
  \<^verbatim>\<open>proxy.rs\<close>: what the node gateway and the front door share to pass one HTTP request through. A
  header map is the list of its lines in order, names in lower case as the http crate keeps them;
  values are their bytes. Two methods of that crate are arguments: \<open>txt\<close> is
  \<^verbatim>\<open>HeaderValue::to_str\<close>, \<open>hname\<close> is \<^verbatim>\<open>HeaderName::from_bytes\<close>. A connection attempt is what
  the kernel answers and how long it takes.
\<close>

section \<open>Header maps\<close>

type_synonym headers = "(string \<times> string) list"

definition h_get :: "string \<Rightarrow> headers \<Rightarrow> string option" where
  "h_get n h = map_of h n"

definition h_all :: "string \<Rightarrow> headers \<Rightarrow> string list" where
  "h_all n h = map snd (filter (\<lambda>(k, _). k = n) h)"

definition h_has :: "string \<Rightarrow> headers \<Rightarrow> bool" where
  "h_has n h \<longleftrightarrow> h_get n h \<noteq> None"

definition h_remove :: "string \<Rightarrow> headers \<Rightarrow> headers" where
  "h_remove n h = filter (\<lambda>(k, _). k \<noteq> n) h"

definition h_insert :: "string \<Rightarrow> string \<Rightarrow> headers \<Rightarrow> headers" where
  "h_insert n v h = h_remove n h @ [(n, v)]"

lemma h_get_remove [simp]: "h_get n (h_remove m h) = (if n = m then None else h_get n h)"
  by (induction h) (auto simp: h_get_def h_remove_def)

lemma h_get_append: "h_get n (h @ h') = (case h_get n h of Some v \<Rightarrow> Some v | None \<Rightarrow> h_get n h')"
  by (simp add: h_get_def map_add_def split: option.split)

lemma h_get_one: "h_get n [(m, v)] = (if n = m then Some v else None)"
  by (simp add: h_get_def)

lemma h_get_insert [simp]: "h_get n (h_insert m v h) = (if n = m then Some v else h_get n h)"
  by (simp add: h_insert_def h_get_append h_get_one split: option.split)

lemma h_has_remove [simp]: "h_has n (h_remove m h) \<longleftrightarrow> n \<noteq> m \<and> h_has n h"
  by (simp add: h_has_def)

lemma h_has_insert [simp]: "h_has n (h_insert m v h) \<longleftrightarrow> n = m \<or> h_has n h"
  by (simp add: h_has_def)

lemma h_all_remove [simp]: "n \<noteq> m \<Longrightarrow> h_all n (h_remove m h) = h_all n h"
  by (auto simp: h_all_def h_remove_def filter_filter intro!: arg_cong [where f = "map snd"] filter_cong)

lemma h_all_insert [simp]: "n \<noteq> m \<Longrightarrow> h_all n (h_insert m v h) = h_all n h"
  using h_all_remove [of n m h] by (simp add: h_insert_def h_all_def)

lemma h_get_None: "h_get n h = None \<longleftrightarrow> n \<notin> fst ` set h"
  by (simp add: h_get_def map_of_eq_None_iff)

lemma h_get_filter: "(\<And>v. P (n, v)) \<Longrightarrow> h_get n (filter P h) = h_get n h"
  by (induction h) (auto simp: h_get_def)

section \<open>Connecting\<close>

datatype io_err = Refused | HostUnreachable | NetUnreachable | TimedOut | InUse | OtherIo string

record attempt =
  tr_answer :: "io_err option"
  tr_took :: millis

text \<open>\<^verbatim>\<open>connect\<close>: how it ends (no error is a connection) and how long that takes.\<close>

definition connect :: "attempt \<Rightarrow> millis \<Rightarrow> io_err option \<times> millis" where
  "connect try timeout =
     (if tr_took try \<le> timeout then (tr_answer try, tr_took try) else (Some TimedOut, timeout))"

definition is_refused :: "io_err \<Rightarrow> bool" where
  "is_refused e \<longleftrightarrow> e = Refused"

definition is_cold :: "io_err \<Rightarrow> bool" where
  "is_cold e \<longleftrightarrow> is_refused e \<or> e = HostUnreachable \<or> e = NetUnreachable"

lemma connect_bounded: "snd (connect try timeout) \<le> timeout"
  by (simp add: connect_def)

section \<open>Passing a request through\<close>

definition HOP_BY_HOP :: "string list" where
  "HOP_BY_HOP = [''connection'', ''keep-alive'', ''proxy-connection'', ''proxy-authenticate'',
     ''proxy-authorization'', ''te'', ''trailer'', ''transfer-encoding'', ''upgrade'']"

definition wants_upgrade :: "(string \<Rightarrow> string option) \<Rightarrow> headers \<Rightarrow> bool" where
  "wants_upgrade txt h \<longleftrightarrow>
     h_has ''upgrade'' h \<and>
     list_ex (\<lambda>v. case txt v of
        None \<Rightarrow> False
      | Some s \<Rightarrow> list_ex (\<lambda>t. map ascii_lower (trim t) = ''upgrade'') (split_on (CHR '','') s)) (h_all ''connection'' h)"

definition named_in_connection :: "(string \<Rightarrow> string option) \<Rightarrow> (string \<Rightarrow> string option) \<Rightarrow> headers \<Rightarrow> string list" where
  "named_in_connection txt hname h =
     List.map_filter (\<lambda>t. hname (trim t))
       (concat (map (split_on (CHR '','')) (List.map_filter txt (h_all ''connection'' h))))"

definition kept_for_upgrade :: "bool \<Rightarrow> string \<Rightarrow> bool" where
  "kept_for_upgrade upgrading n \<longleftrightarrow> upgrading \<and> (n = ''connection'' \<or> n = ''upgrade'')"

definition drop_names :: "bool \<Rightarrow> string list \<Rightarrow> headers \<Rightarrow> headers" where
  "drop_names upgrading ns h =
     fold (\<lambda>n h. if kept_for_upgrade upgrading n then h else h_remove n h) ns h"

definition strip_hop_by_hop :: "(string \<Rightarrow> string option) \<Rightarrow> (string \<Rightarrow> string option) \<Rightarrow> bool \<Rightarrow> headers \<Rightarrow> headers" where
  "strip_hop_by_hop txt hname upgrading h =
     (let named = named_in_connection txt hname h
      in drop_names upgrading HOP_BY_HOP (drop_names upgrading named h))"

text \<open>A request: the authority and the path and query its URI has, where it has them.\<close>

record request =
  rq_authority :: "string option"
  rq_path :: "string option"
  rq_headers :: headers
  rq_body :: string

record response =
  rs_status :: nat
  rs_headers :: headers
  rs_body :: string

text \<open>
  \<^verbatim>\<open>send\<close>: what goes to the other side, what comes back, and whether the two connections are
  spliced from then on. \<open>exchange\<close> is the HTTP connection; the other side may never answer.
\<close>

definition sent_request :: "(string \<Rightarrow> string option) \<Rightarrow> (string \<Rightarrow> string option) \<Rightarrow> request \<Rightarrow> request" where
  "sent_request txt hname req =
     req\<lparr>rq_headers := strip_hop_by_hop txt hname (wants_upgrade txt (rq_headers req)) (rq_headers req)\<rparr>"

definition send_req :: "(string \<Rightarrow> string option) \<Rightarrow> (string \<Rightarrow> string option)
    \<Rightarrow> (request \<Rightarrow> (string + response) option) \<Rightarrow> request \<Rightarrow> (string + response \<times> bool) option" where
  "send_req txt hname exchange req =
     (case exchange (sent_request txt hname req) of
        None \<Rightarrow> None
      | Some (Inl e) \<Rightarrow> Some (Inl e)
      | Some (Inr res) \<Rightarrow>
          (let switched = (rs_status res = 101)
           in Some (Inr (res\<lparr>rs_headers := strip_hop_by_hop txt hname switched (rs_headers res)\<rparr>,
                         switched \<and> wants_upgrade txt (rq_headers req)))))"

section \<open>What is stripped\<close>

lemma drop_names_filter:
  "drop_names up ns h = filter (\<lambda>(k, _). k \<notin> set ns \<or> kept_for_upgrade up k) h"
proof (induction ns arbitrary: h)
  case Nil
  show ?case by (simp add: drop_names_def filter_True split_beta)
next
  case (Cons n ns)
  have "drop_names up (n # ns) h = drop_names up ns (if kept_for_upgrade up n then h else h_remove n h)"
    by (simp add: drop_names_def)
  also have "\<dots> = filter (\<lambda>(k, _). k \<notin> set (n # ns) \<or> kept_for_upgrade up k) h"
    unfolding Cons.IH h_remove_def by (auto simp: filter_filter intro!: filter_cong)
  finally show ?case .
qed

definition hop_header :: "(string \<Rightarrow> string option) \<Rightarrow> (string \<Rightarrow> string option) \<Rightarrow> headers \<Rightarrow> string \<Rightarrow> bool" where
  "hop_header txt hname h n \<longleftrightarrow> n \<in> set HOP_BY_HOP \<or> n \<in> set (named_in_connection txt hname h)"

text \<open>
  Exactly the lines that belong to the hop are gone, those of an upgrade kept, and what is left is in
  its order.
\<close>

lemma strip_hop_by_hop_exact:
  "strip_hop_by_hop txt hname up h =
     filter (\<lambda>(k, _). \<not> hop_header txt hname h k \<or> kept_for_upgrade up k) h"
  unfolding strip_hop_by_hop_def Let_def drop_names_filter hop_header_def
  by (auto simp: filter_filter intro!: filter_cong)

lemma h_get_strip:
  "h_get n (strip_hop_by_hop txt hname up h) =
     (if hop_header txt hname h n \<and> \<not> kept_for_upgrade up n then None else h_get n h)"
proof (cases "hop_header txt hname h n \<and> \<not> kept_for_upgrade up n")
  case True
  then have "n \<notin> fst ` set (strip_hop_by_hop txt hname up h)" by (auto simp: strip_hop_by_hop_exact)
  with True show ?thesis by (simp add: h_get_None [symmetric])
next
  case False
  then show ?thesis unfolding strip_hop_by_hop_exact by (subst h_get_filter) auto
qed

end
