(* ===== verification/Gateway.thy ===== *)
theory Gateway
  imports Proxy Wake Auth
begin

text \<open>
  \<^verbatim>\<open>node/gateway.rs\<close>: the listeners of a node's sandboxes, and what a listener does with one
  request. The listening socket is what \<^verbatim>\<open>bind\<close> answers, attempt by attempt; a connection to the
  sandbox likewise; the wake of \<^verbatim>\<open>wake.rs\<close> is its outcome. What a request does to the node's
  \<open>wakeups\<close> is the list of its calls on them, since other requests come between. The body of
  an answer of the gateway's own is the text of its error, less what the operating system calls an
  error of its own.
\<close>

section \<open>Listeners\<close>

record exposed_sandbox =
  ex_id :: string
  ex_gateway_port :: u16
  ex_ip :: string
  ex_port :: u16
  ex_token :: string

definition binding_of :: "exposed_sandbox \<Rightarrow> u16 \<times> string \<times> u16" where
  "binding_of e = (ex_gateway_port e, ex_ip e, ex_port e)"

record target =
  tg_id :: string
  tg_ip :: string
  tg_port :: u16
  tg_token :: string
  tg_wakes :: bool

record live =
  lv_exposed :: exposed_sandbox
  lv_target :: target

record gateway =
  gw_running :: "(string, live) book"
  gw_wakes :: bool

definition new_gateway :: gateway where "new_gateway = \<lparr>gw_running = [], gw_wakes = False\<rparr>"
definition waking_gateway :: gateway where "waking_gateway = \<lparr>gw_running = [], gw_wakes = True\<rparr>"

definition BIND_TRIES :: nat where "BIND_TRIES = 20"
definition BIND_PAUSE :: millis where "BIND_PAUSE = 5"

text \<open>\<^verbatim>\<open>bind_soon\<close>: how the binding ends and what was slept for it.\<close>

primrec bind_loop :: "nat \<Rightarrow> (nat \<Rightarrow> io_err option) \<Rightarrow> nat \<Rightarrow> millis \<Rightarrow> io_err option \<times> millis" where
  "bind_loop 0 net k slept = (net k, slept)"
| "bind_loop (Suc n) net k slept =
     (if net k = Some InUse then bind_loop n net (Suc k) (slept + BIND_PAUSE) else (net k, slept))"

definition bind_soon :: "(nat \<Rightarrow> io_err option) \<Rightarrow> io_err option \<times> millis" where
  "bind_soon net = bind_loop (BIND_TRIES - 1) net 0 0"

definition spawn_one :: "(u16 \<Rightarrow> nat \<Rightarrow> io_err option) \<Rightarrow> exposed_sandbox \<Rightarrow> bool \<Rightarrow> target option" where
  "spawn_one net e wakes =
     (case fst (bind_soon (net (ex_gateway_port e))) of
        Some _ \<Rightarrow> None
      | None \<Rightarrow> Some \<lparr>tg_id = ex_id e, tg_ip = ex_ip e, tg_port = ex_port e, tg_token = ex_token e, tg_wakes = wakes\<rparr>)"

definition start_listener :: "(u16 \<Rightarrow> nat \<Rightarrow> io_err option) \<Rightarrow> exposed_sandbox \<Rightarrow> gateway \<Rightarrow> gateway" where
  "start_listener net e g =
     (case spawn_one net e (gw_wakes g) of
        Some tg \<Rightarrow> g\<lparr>gw_running := put (ex_id e) \<lparr>lv_exposed = e, lv_target = tg\<rparr> (gw_running g)\<rparr>
      | None \<Rightarrow> g)"

text \<open>
  \<^verbatim>\<open>reconcile\<close>. \<open>finished\<close> says whose serving task has ended; \<open>wanted\<close> is a hash
  map, so of two entries of one id the later counts.
\<close>

definition wanted_for :: "exposed_sandbox list \<Rightarrow> string \<Rightarrow> exposed_sandbox option" where
  "wanted_for want i = map_of (rev (map (\<lambda>e. (ex_id e, e)) want)) i"

definition is_stale :: "exposed_sandbox list \<Rightarrow> (string \<Rightarrow> bool) \<Rightarrow> string \<Rightarrow> live \<Rightarrow> bool" where
  "is_stale want finished i l \<longleftrightarrow>
     finished i \<or>
     (case wanted_for want i of
        None \<Rightarrow> True
      | Some w \<Rightarrow> binding_of w \<noteq> binding_of (lv_exposed l))"

definition rotate_token :: "exposed_sandbox \<Rightarrow> live \<Rightarrow> live" where
  "rotate_token e l =
     (if ex_token (lv_exposed l) \<noteq> ex_token e
      then l\<lparr>lv_target := (lv_target l)\<lparr>tg_token := ex_token e\<rparr>, lv_exposed := e\<rparr> else l)"

definition open_one :: "(u16 \<Rightarrow> nat \<Rightarrow> io_err option) \<Rightarrow> exposed_sandbox \<Rightarrow> gateway \<Rightarrow> gateway" where
  "open_one net e g =
     (case map_of (gw_running g) (ex_id e) of
        Some l \<Rightarrow> g\<lparr>gw_running := put (ex_id e) (rotate_token e l) (gw_running g)\<rparr>
      | None \<Rightarrow>
          if list_ex (\<lambda>(_, l). ex_gateway_port (lv_exposed l) = ex_gateway_port e) (gw_running g) then g
          else start_listener net e g)"

definition reconcile :: "(u16 \<Rightarrow> nat \<Rightarrow> io_err option) \<Rightarrow> (string \<Rightarrow> bool) \<Rightarrow> exposed_sandbox list \<Rightarrow> gateway \<Rightarrow> gateway" where
  "reconcile net finished want g =
     fold (open_one net) want (g\<lparr>gw_running := keep (\<lambda>i l. \<not> is_stale want finished i l) (gw_running g)\<rparr>)"

definition expose :: "(u16 \<Rightarrow> nat \<Rightarrow> io_err option) \<Rightarrow> exposed_sandbox \<Rightarrow> gateway \<Rightarrow> gateway" where
  "expose net e g =
     (if map_of (gw_running g) (ex_id e) \<noteq> None then g
      else start_listener net e
             (g\<lparr>gw_running := keep (\<lambda>_ l. ex_gateway_port (lv_exposed l) \<noteq> ex_gateway_port e) (gw_running g)\<rparr>))"

definition exposed_count :: "gateway \<Rightarrow> nat" where
  "exposed_count g = length (gw_running g)"

section \<open>Reaching the sandbox\<close>

definition BOOT_WAIT :: millis where "BOOT_WAIT = from_secs 10"
definition BOOT_POLL_MAX :: millis where "BOOT_POLL_MAX = 50"
definition CONNECT_TIMEOUT :: millis where "CONNECT_TIMEOUT = from_secs 5"
definition CONNECT_ATTEMPT :: millis where "CONNECT_ATTEMPT = 50"

text \<open>
  \<^verbatim>\<open>connect_upstream\<close>, with the rounds left to it: how it ended, the number of the next attempt
  and the time. \<open>None\<close> is that the rounds ran out.
\<close>

primrec connect_loop :: "nat \<Rightarrow> (nat \<Rightarrow> attempt) \<Rightarrow> nat \<Rightarrow> instant \<Rightarrow> instant
    \<Rightarrow> (io_err option \<times> nat \<times> instant) option" where
  "connect_loop 0 net k t deadline = None"
| "connect_loop (Suc n) net k t deadline =
     (let (r, took) = connect (net k) CONNECT_ATTEMPT; t' = t + took
      in if r = Some TimedOut \<and> t' < deadline then connect_loop n net (Suc k) t' deadline
         else Some (r, Suc k, t'))"

definition CONNECT_ROUNDS :: nat where "CONNECT_ROUNDS = 100"

definition connect_upstream :: "(nat \<Rightarrow> attempt) \<Rightarrow> nat \<Rightarrow> instant \<Rightarrow> (io_err option \<times> nat \<times> instant) option" where
  "connect_upstream net k t = connect_loop CONNECT_ROUNDS net k t (t + CONNECT_TIMEOUT)"

definition cold_answer :: "io_err option \<Rightarrow> bool" where
  "cold_answer r \<longleftrightarrow> (case r of Some e \<Rightarrow> is_cold e | None \<Rightarrow> False)"

text \<open>The wait for a program that is still starting, in the same way.\<close>

primrec boot_loop :: "nat \<Rightarrow> (nat \<Rightarrow> attempt) \<Rightarrow> nat \<Rightarrow> instant \<Rightarrow> millis \<Rightarrow> instant \<Rightarrow> io_err option
    \<Rightarrow> (io_err option \<times> nat \<times> instant) option" where
  "boot_loop 0 net k t pause deadline r = None"
| "boot_loop (Suc n) net k t pause deadline r =
     (if cold_answer r \<and> t < deadline then
        (case connect_upstream net k (t + pause) of
           None \<Rightarrow> None
         | Some (r', k', t') \<Rightarrow> boot_loop n net k' t' (min (pause * 2) BOOT_POLL_MAX) deadline r')
      else Some (r, k, t))"

definition BOOT_ROUNDS :: nat where "BOOT_ROUNDS = 204"

datatype reached = WakeFailed string instant | Reached "io_err option" "millis option" instant

text \<open>
  How a wake ends, and the time until it has ended: that includes the wait for a free restore, which
  the time a successful wake gives as its own does not.
\<close>

type_synonym wake_end = "(string + millis) \<times> millis"

definition reach :: "bool \<Rightarrow> (nat \<Rightarrow> attempt) \<Rightarrow> wake_end \<Rightarrow> instant \<Rightarrow> reached option" where
  "reach wakes net woke t =
     (case connect_upstream net 0 t of
        None \<Rightarrow> None
      | Some (r, k, t1) \<Rightarrow>
          if cold_answer r \<and> wakes then
            (case fst woke of
               Inl e \<Rightarrow> Some (WakeFailed e (t1 + snd woke))
             | Inr took \<Rightarrow>
                 (case connect_upstream net k (t1 + snd woke) of
                    None \<Rightarrow> None
                  | Some (r', k', t') \<Rightarrow>
                      (case boot_loop BOOT_ROUNDS net k' t' 5 (t' + BOOT_WAIT) r' of
                         None \<Rightarrow> None
                       | Some (r'', _, t'') \<Rightarrow> Some (Reached r'' (Some took) t''))))
          else Some (Reached r None t1))"

section \<open>One request\<close>

definition SANDBOX_TOKEN_HEADER :: string where "SANDBOX_TOKEN_HEADER = ''x-sandstorm-sandbox-token''"
definition PORT_HEADER :: string where "PORT_HEADER = ''x-sandstorm-port''"
definition WAKE_HEADER :: string where "WAKE_HEADER = ''x-sandstorm-woke-ms''"

definition presented_token_matches :: "(string \<Rightarrow> string option) \<Rightarrow> headers \<Rightarrow> string \<Rightarrow> bool" where
  "presented_token_matches txt h expected =
     secrets_match (case Option.bind (h_get SANDBOX_TOKEN_HEADER h) txt of Some s \<Rightarrow> s | None \<Rightarrow> []) expected"

definition requested_port :: "(string \<Rightarrow> string option) \<Rightarrow> headers \<Rightarrow> unit + u16 option" where
  "requested_port txt h =
     (case h_get PORT_HEADER h of
        None \<Rightarrow> Inr None
      | Some v \<Rightarrow>
          (case Option.bind (txt v) (\<lambda>s. parse_u16 (trim s)) of
             Some p \<Rightarrow> if 0 < p then Inr (Some p) else Inl ()
           | None \<Rightarrow> Inl ()))"

definition socket_addr :: "string \<Rightarrow> u16 \<Rightarrow> string" where
  "socket_addr ip port = ip @ '':'' @ dec (unat port)"

definition own_answer :: "nat \<Rightarrow> string \<Rightarrow> response" where
  "own_answer status why = \<lparr>rs_status = status, rs_headers = [(''content-type'', ''application/json'')], rs_body = why\<rparr>"

text \<open>The calls one request makes on the node's \<open>wakeups\<close>, in order.\<close>

datatype traffic = Saw | Held | InUse_again | Let_go

definition apply_traffic_step :: "string \<Rightarrow> instant \<Rightarrow> traffic \<Rightarrow> wakeups \<Rightarrow> wakeups" where
  "apply_traffic_step i now s w =
     (case s of Saw \<Rightarrow> saw_at i now w | Held \<Rightarrow> hold i w | InUse_again \<Rightarrow> in_use i now w | Let_go \<Rightarrow> release i w)"

text \<open>
  What becomes of a request: the answer, which is none if the request reached a sandbox that never
  answers it; what was passed on; when the gateway had an answer of its own or passed the request on;
  and its calls on the node's \<open>wakeups\<close>.
\<close>

record gw_answer =
  ga_response :: "response option"
  ga_at :: instant
  ga_sent :: "(u16 \<times> request) option"
  ga_traffic :: "traffic list"

definition forwarded :: "string \<Rightarrow> request \<Rightarrow> request" where
  "forwarded upstream req =
     (let h = h_remove PORT_HEADER (h_remove SANDBOX_TOKEN_HEADER (rq_headers req))
      in \<lparr>rq_authority = (if rq_path req = None then rq_authority req else None), rq_path = rq_path req,
          rq_headers = (if h_has ''host'' h then h else h_insert ''host'' upstream h), rq_body = rq_body req\<rparr>)"

text \<open>Why there is no connection, as the caller is told.\<close>

definition unreachable :: "target \<Rightarrow> u16 \<Rightarrow> io_err \<Rightarrow> millis option \<Rightarrow> response" where
  "unreachable tg port e woke =
     (if is_cold e \<and> woke \<noteq> None then
        own_answer 502 (''sandbox '' @ tg_id tg @ '' was woken but nothing is listening on port '' @ dec (unat port) @ '' inside it'')
      else if is_cold e \<and> tg_wakes tg then
        own_answer 502 (''nothing is listening on port '' @ dec (unat port) @ '' inside sandbox '' @ tg_id tg)
      else if is_cold e then
        own_answer 503 (''sandbox '' @ tg_id tg @ '' is not serving: it is frozen, snapshotted or detached. Promote it with POST /v1/sandboxes/'' @ tg_id tg @ ''/touch and retry.'')
      else if e = TimedOut then
        \<lparr>rs_status = 504, rs_headers = [], rs_body = ''sandbox '' @ tg_id tg @ '' did not accept a connection''\<rparr>
      else \<lparr>rs_status = 502, rs_headers = [], rs_body = (case e of OtherIo why \<Rightarrow> why | _ \<Rightarrow> [])\<rparr>)"

text \<open>
  \<^verbatim>\<open>proxy\<close>. \<open>net\<close> answers the connections, \<open>woke\<close> is how a wake ends, \<open>exchange\<close> is
  the sandbox's answer to the request that reaches it: nothing bounds the wait for it, so there may
  be none, and then the sandbox is held until the caller goes away.
\<close>

definition gw_proxy :: "(string \<Rightarrow> string option) \<Rightarrow> (string \<Rightarrow> string option) \<Rightarrow> target \<Rightarrow> (nat \<Rightarrow> attempt)
    \<Rightarrow> wake_end \<Rightarrow> (request \<Rightarrow> (string + response) option) \<Rightarrow> request \<Rightarrow> instant \<Rightarrow> gw_answer option" where
  "gw_proxy txt hname tg net woke exchange req t =
     (if \<not> presented_token_matches txt (rq_headers req) (tg_token tg) then
        Some \<lparr>ga_response = Some (own_answer 401 (''this sandbox requires its own access token in the '' @ SANDBOX_TOKEN_HEADER @
                '' header; it is the `token` field of the response that created the sandbox'')),
              ga_at = t, ga_sent = None, ga_traffic = []\<rparr>
      else case requested_port txt (rq_headers req) of
        Inl _ \<Rightarrow> Some \<lparr>ga_response = Some (own_answer 400 (PORT_HEADER @ '' must be a port number, 1-65535'')),
                     ga_at = t, ga_sent = None, ga_traffic = []\<rparr>
      | Inr p \<Rightarrow>
          (let port = (case p of Some p \<Rightarrow> p | None \<Rightarrow> tg_port tg);
               before = (if tg_wakes tg then [Saw, Held] else []);
               let_go = (if tg_wakes tg then [Let_go] else [])
           in case reach (tg_wakes tg) net woke t of
                None \<Rightarrow> None
              | Some (WakeFailed e t') \<Rightarrow>
                  Some \<lparr>ga_response = Some ((own_answer 503 (''sandbox '' @ tg_id tg @ '' is cold and could not be woken: '' @ e))
                          \<lparr>rs_headers := [(''content-type'', ''application/json''), (''retry-after'', ''5'')]\<rparr>),
                        ga_at = t', ga_sent = None, ga_traffic = before @ let_go\<rparr>
              | Some (Reached (Some e) took t') \<Rightarrow>
                  Some \<lparr>ga_response = Some (unreachable tg port e took), ga_at = t', ga_sent = None, ga_traffic = before @ let_go\<rparr>
              | Some (Reached None took t') \<Rightarrow>
                  (let out = forwarded (socket_addr (tg_ip tg) port) req;
                       sent = Some (port, sent_request txt hname out)
                   in case send_req txt hname exchange out of
                        None \<Rightarrow> Some \<lparr>ga_response = None, ga_at = t', ga_sent = sent, ga_traffic = before\<rparr>
                      | Some (Inl e) \<Rightarrow> Some \<lparr>ga_response = Some \<lparr>rs_status = 502, rs_headers = [], rs_body = e\<rparr>,
                                       ga_at = t', ga_sent = sent, ga_traffic = before @ let_go\<rparr>
                      | Some (Inr (res, _)) \<Rightarrow>
                          Some \<lparr>ga_response = Some (case took of
                                   None \<Rightarrow> res
                                 | Some ms \<Rightarrow> res\<lparr>rs_headers := h_insert WAKE_HEADER (dec ms) (rs_headers res)\<rparr>),
                                ga_at = t', ga_sent = sent,
                                ga_traffic = before @ (if tg_wakes tg then [InUse_again, InUse_again, Let_go] else [])\<rparr>)))"

end
