(* ===== verification/GatewayLaws.thy ===== *)
theory GatewayLaws
  imports Gateway
begin

text \<open>
  The gateway answers every request in bounded time; what it passes on is exactly the caller's
  request less the credential and the hop; and its listeners follow what the node reports.
\<close>

section \<open>Waiting ends\<close>

text \<open>The kernel gives up on a connection later than the gateway does (its first resend is after a second).\<close>

definition patient :: "(nat \<Rightarrow> attempt) \<Rightarrow> bool" where
  "patient net \<longleftrightarrow> (\<forall>k. tr_answer (net k) = Some TimedOut \<longrightarrow> CONNECT_ATTEMPT \<le> tr_took (net k))"

lemma connect_times_out:
  assumes "patient net" "connect (net k) CONNECT_ATTEMPT = (Some TimedOut, d)"
  shows "d = CONNECT_ATTEMPT"
  using assms by (auto simp: connect_def patient_def split: if_splits)

lemma connect_loop_ends:
  assumes p: "patient net"
  shows "0 < n \<Longrightarrow> deadline \<le> t + n * CONNECT_ATTEMPT \<Longrightarrow>
    \<exists>r k' t'. connect_loop n net k t deadline = Some (r, k', t') \<and> t' \<le> max t deadline + CONNECT_ATTEMPT"
proof (induction n arbitrary: k t)
  case (Suc n)
  obtain r d where c: "connect (net k) CONNECT_ATTEMPT = (r, d)" by fastforce
  have d: "d \<le> CONNECT_ATTEMPT" using connect_bounded [of "net k" CONNECT_ATTEMPT] c by simp
  show ?case
  proof (cases "r = Some TimedOut \<and> t + d < deadline")
    case True
    then have d50: "d = CONNECT_ATTEMPT" using connect_times_out [OF p] c by blast
    have "0 < n" using True Suc.prems d50 by (cases n) auto
    moreover have "deadline \<le> t + d + n * CONNECT_ATTEMPT" using Suc.prems d50 by simp
    ultimately obtain r' k' t' where "connect_loop n net (Suc k) (t + d) deadline = Some (r', k', t')"
      and "t' \<le> max (t + d) deadline + CONNECT_ATTEMPT"
      using Suc.IH by blast
    then show ?thesis using True c by auto
  next
    case False
    then show ?thesis using c d by (auto simp: max_def)
  qed
qed simp

lemma connect_upstream_ends:
  assumes "patient net"
  obtains r k' t' where "connect_upstream net k t = Some (r, k', t')" "t' \<le> t + 5050"
proof -
  have "t + CONNECT_TIMEOUT \<le> t + CONNECT_ROUNDS * CONNECT_ATTEMPT" and "0 < CONNECT_ROUNDS"
    by (simp_all add: CONNECT_TIMEOUT_def CONNECT_ROUNDS_def CONNECT_ATTEMPT_def from_secs_def)
  from connect_loop_ends [OF assms this(2) this(1), of k] that show ?thesis
    by (auto simp: connect_upstream_def CONNECT_TIMEOUT_def CONNECT_ATTEMPT_def from_secs_def)
qed

text \<open>Every round of the wait for the program sleeps at least its pause.\<close>

lemma connect_loop_later: "connect_loop n net k t d = Some (r, k', t') \<Longrightarrow> t \<le> t'"
proof (induction n arbitrary: k t)
  case (Suc n)
  obtain a b where c: "connect (net k) CONNECT_ATTEMPT = (a, b)" by fastforce
  show ?case using Suc.prems Suc.IH [of "Suc k" "t + b"] c by (auto simp: Let_def split: if_splits)
qed simp

lemma connect_upstream_later: "connect_upstream net k t = Some (r, k', t') \<Longrightarrow> t \<le> t'"
  unfolding connect_upstream_def by (rule connect_loop_later)

lemma boot_loop_step:
  assumes p: "patient net" and r: "cold_answer r" and t: "t < deadline"
    and next_round: "\<And>r' k' t'. t + pause \<le> t' \<Longrightarrow> t' \<le> deadline + pause + 5050 \<Longrightarrow>
      \<exists>x. boot_loop n net k' t' (min (pause * 2) BOOT_POLL_MAX) deadline r' = Some x \<and> snd (snd x) \<le> b"
  shows "\<exists>x. boot_loop (Suc n) net k t pause deadline r = Some x \<and> snd (snd x) \<le> b"
proof -
  obtain r' k' t' where c: "connect_upstream net k (t + pause) = Some (r', k', t')" "t' \<le> t + pause + 5050"
    by (rule connect_upstream_ends [OF p])
  have "t + pause \<le> t'" by (rule connect_upstream_later [OF c(1)])
  moreover have "t' \<le> deadline + pause + 5050" using c(2) t by linarith
  ultimately obtain x where "boot_loop n net k' t' (min (pause * 2) BOOT_POLL_MAX) deadline r' = Some x" "snd (snd x) \<le> b"
    using next_round by blast
  then show ?thesis using c(1) r t by simp
qed

lemma boot_loop_steady:
  assumes p: "patient net"
  shows "deadline \<le> t + n * 50 \<Longrightarrow> t \<le> deadline + 5100 \<Longrightarrow>
    \<exists>x. boot_loop (Suc n) net k t 50 deadline r = Some x \<and> snd (snd x) \<le> deadline + 5100"
proof (induction n arbitrary: k t r)
  case 0
  then show ?case by auto
next
  case (Suc n)
  show ?case
  proof (cases "cold_answer r \<and> t < deadline")
    case True
    show ?thesis
    proof (rule boot_loop_step [OF p conjunct1 [OF True] conjunct2 [OF True]])
      fix r' k' t' assume t': "t + 50 \<le> t'" "t' \<le> deadline + 50 + 5050"
      have "deadline \<le> t' + n * 50" using Suc.prems(1) t'(1) by simp
      then show "\<exists>x. boot_loop (Suc n) net k' t' (min (50 * 2) BOOT_POLL_MAX) deadline r' = Some x \<and>
          snd (snd x) \<le> deadline + 5100"
        using Suc.IH [of t' k' r'] t'(2) by (simp add: BOOT_POLL_MAX_def)
    qed
  next
    case False
    then show ?thesis using Suc.prems by auto
  qed
qed

lemma boot_loop_ends:
  assumes p: "patient net"
  shows "\<exists>x. boot_loop BOOT_ROUNDS net k t 5 (t + BOOT_WAIT) r = Some x \<and> snd (snd x) \<le> t + 15100"
proof -
  define d where "d = t + (10000 :: nat)"
  let ?P = "\<lambda>n k t' pause r. \<exists>x. boot_loop n net k t' pause d r = Some x \<and> snd (snd x) \<le> d + 5100"
  have steady: "?P 200 k t' 50 r" if "d \<le> t' + 9950" "t' \<le> d + 5100" for k t' r
  proof -
    have "\<exists>x. boot_loop (Suc 199) net k t' 50 d r = Some x \<and> snd (snd x) \<le> d + 5100"
      by (rule boot_loop_steady [OF p]) (use that in simp_all)
    moreover have "Suc 199 = (200 :: nat)" by simp
    ultimately show ?thesis by metis
  qed
  have step: "?P (Suc n) k t' pause r"
    if "t' \<le> d + 5100" "pause \<le> 50"
      "\<And>k' u r'. t' + pause \<le> u \<Longrightarrow> u \<le> d + 5100 \<Longrightarrow> ?P n k' u (min (pause * 2) BOOT_POLL_MAX) r'"
    for n k t' pause r
  proof (cases "cold_answer r \<and> t' < d")
    case True
    show ?thesis
    proof (rule boot_loop_step [OF p conjunct1 [OF True] conjunct2 [OF True]])
      fix r' k' u assume "t' + pause \<le> u" "u \<le> d + pause + 5050"
      then show "?P n k' u (min (pause * 2) BOOT_POLL_MAX) r'" using that(2) that(3) [of u k' r'] by simp
    qed
  next
    case False
    then show ?thesis using that(1) by auto
  qed
  have d_at: "d = t + 10000" by (rule d_def)
  have r1: "?P 201 k t' 40 r" if lo: "t + 35 \<le> t'" "t' \<le> d + 5100" for k t' r
  proof -
    have "?P (Suc 200) k t' 40 r"
    proof (rule step [OF lo(2)])
      fix k' u r' assume "t' + 40 \<le> u" "u \<le> d + 5100"
      then show "?P 200 k' u (min (40 * 2) BOOT_POLL_MAX) r'"
        using steady [of u k' r'] lo(1) by (simp add: BOOT_POLL_MAX_def d_at)
    qed simp
    then show ?thesis by simp
  qed
  have r2: "?P 202 k t' 20 r" if lo: "t + 15 \<le> t'" "t' \<le> d + 5100" for k t' r
  proof -
    have "?P (Suc 201) k t' 20 r"
    proof (rule step [OF lo(2)])
      fix k' u r' assume "t' + 20 \<le> u" "u \<le> d + 5100"
      then show "?P 201 k' u (min (20 * 2) BOOT_POLL_MAX) r'"
        using r1 [of u k' r'] lo(1) by (simp add: BOOT_POLL_MAX_def d_at)
    qed simp
    then show ?thesis by simp
  qed
  have r3: "?P 203 k t' 10 r" if lo: "t + 5 \<le> t'" "t' \<le> d + 5100" for k t' r
  proof -
    have "?P (Suc 202) k t' 10 r"
    proof (rule step [OF lo(2)])
      fix k' u r' assume "t' + 10 \<le> u" "u \<le> d + 5100"
      then show "?P 202 k' u (min (10 * 2) BOOT_POLL_MAX) r'"
        using r2 [of u k' r'] lo(1) by (simp add: BOOT_POLL_MAX_def d_at)
    qed simp
    then show ?thesis by simp
  qed
  have "?P (Suc 203) k t 5 r"
  proof (rule step)
    fix k' u r' assume "t + 5 \<le> u" "u \<le> d + 5100"
    then show "?P 203 k' u (min (5 * 2) BOOT_POLL_MAX) r'" using r3 [of u k' r'] by (simp add: BOOT_POLL_MAX_def)
  qed (simp_all add: d_at)
  then show ?thesis by (simp add: BOOT_ROUNDS_def BOOT_WAIT_def from_secs_def d_def add.commute)
qed

definition reached_at :: "reached \<Rightarrow> instant" where
  "reached_at x = (case x of WakeFailed _ t \<Rightarrow> t | Reached _ _ t \<Rightarrow> t)"

lemma reach_ends:
  assumes p: "patient net"
  shows "\<exists>x. reach wakes net woke t = Some x \<and> reached_at x \<le> t + snd woke + 25200"
proof -
  obtain r k t1 where c1: "connect_upstream net 0 t = Some (r, k, t1)" "t1 \<le> t + 5050"
    by (rule connect_upstream_ends [OF p])
  show ?thesis
  proof (cases "cold_answer r \<and> wakes")
    case True
    show ?thesis
    proof (cases "fst woke")
      case (Inl e)
      then show ?thesis using c1 True by (simp add: reach_def reached_at_def)
    next
      case (Inr ms)
      obtain r' k' t' where c2: "connect_upstream net k (t1 + snd woke) = Some (r', k', t')" "t' \<le> t1 + snd woke + 5050"
        by (rule connect_upstream_ends [OF p])
      obtain r2 k2 t2 where c3: "boot_loop BOOT_ROUNDS net k' t' 5 (t' + BOOT_WAIT) r' = Some (r2, k2, t2)" "t2 \<le> t' + 15100"
        using boot_loop_ends [OF p, of k' t' r'] by auto
      have "t2 \<le> t + snd woke + 25200" using c1(2) c2(2) c3(2) by linarith
      then show ?thesis using c1(1) c2(1) c3(1) True Inr by (simp add: reach_def reached_at_def)
    qed
  next
    case False
    then show ?thesis using c1 by (auto simp: reach_def reached_at_def)
  qed
qed

lemma send_req_ends:
  "send_req txt hname exchange out = None \<longleftrightarrow> exchange (sent_request txt hname out) = None"
  by (auto simp: send_req_def Let_def split: option.split sum.split)

lemma gw_proxy_ends:
  assumes "reach (tg_wakes tg) net woke t = Some x" and "reached_at x \<le> b" and "t \<le> b"
  shows "\<exists>a. gw_proxy txt hname tg net woke exchange req t = Some a \<and> ga_at a \<le> b \<and>
    (ga_response a = None \<longleftrightarrow> (\<exists>port out. ga_sent a = Some (port, out) \<and> exchange out = None)) \<and>
    (Let_go \<in> set (ga_traffic a) \<longleftrightarrow> Held \<in> set (ga_traffic a) \<and> ga_response a \<noteq> None)"
    (is "\<exists>a. ?g = Some a \<and> ?P a")
proof (cases "requested_port txt (rq_headers req)")
  case (Inl u)
  then show ?thesis using assms(3) by (simp add: gw_proxy_def)
next
  case port: (Inr p)
  note path = gw_proxy_def port assms(1)
  show ?thesis
  proof (cases "presented_token_matches txt (rq_headers req) (tg_token tg)")
    case True
    show ?thesis
    proof (cases x)
      case (WakeFailed e t')
      then show ?thesis using True assms(2) by (simp add: path reached_at_def)
    next
      case (Reached r took t')
      show ?thesis
      proof (cases r)
        case None
        define out where "out = forwarded (socket_addr (tg_ip tg) (case p of None \<Rightarrow> tg_port tg | Some p \<Rightarrow> p)) req"
        show ?thesis
        proof (cases "send_req txt hname exchange out")
          case n: None
          then have "exchange (sent_request txt hname out) = None" by (simp add: send_req_ends)
          then show ?thesis using True n Reached None assms(2) by (simp add: path reached_at_def Let_def flip: out_def)
        next
          case (Some y)
          then obtain z where "exchange (sent_request txt hname out) = Some z"
            using send_req_ends [of "txt" hname exchange out] by auto
          then show ?thesis using True Some Reached None assms(2)
            by (cases y) (auto simp add: path reached_at_def Let_def simp flip: out_def)
        qed
      qed (use True Reached assms(2) in \<open>simp add: path reached_at_def\<close>)
    qed
  qed (use assms(3) in \<open>simp add: gw_proxy_def\<close>)
qed

text \<open>
  C28. Within twenty-six seconds and the time until the wake has ended, however it ends, the gateway has an
  answer of its own for a request or has passed it to the sandbox: its attempts to connect, before and after
  the wake and while the program starts, are over by then whatever the sandbox's network does, as long
  as the kernel does not give up on a connection sooner than the gateway does. What has been passed on has
  no bound: a caller is left without an answer exactly if its request reached the sandbox and the
  sandbox never answers, and such a sandbox stays held and is not put away to make room.
\<close>

theorem gateway_bounds_its_waits:
  assumes "patient net"
  shows "\<exists>a. gw_proxy txt hname tg net woke exchange req t = Some a \<and> ga_at a \<le> t + snd woke + 25200 \<and>
    (ga_response a = None \<longleftrightarrow> (\<exists>port out. ga_sent a = Some (port, out) \<and> exchange out = None)) \<and>
    (Let_go \<in> set (ga_traffic a) \<longleftrightarrow> Held \<in> set (ga_traffic a) \<and> ga_response a \<noteq> None)"
proof -
  obtain x where x: "reach (tg_wakes tg) net woke t = Some x" "reached_at x \<le> t + snd woke + 25200"
    using reach_ends [OF assms] by blast
  then show ?thesis by (rule gw_proxy_ends) simp
qed

definition small_target :: target where
  "small_target = \<lparr>tg_id = ''sb-1'', tg_ip = ''10.86.0.2'', tg_port = 8080, tg_token = ''secret'', tg_wakes = True\<rparr>"

definition refusing_net :: "nat \<Rightarrow> attempt" where
  "refusing_net k = \<lparr>tr_answer = Some Refused, tr_took = 1\<rparr>"

lemma gateway_bounds_its_waits_witness:
  "\<exists>a. gw_proxy Some Some small_target refusing_net (Inl ''no room'', 300) (\<lambda>_. None)
       \<lparr>rq_authority = None, rq_path = None, rq_headers = [(SANDBOX_TOKEN_HEADER, ''secret'')], rq_body = []\<rparr> 0 = Some a \<and>
     ga_at a \<le> 25500"
proof -
  have "patient refusing_net" by (simp add: patient_def refusing_net_def)
  from gateway_bounds_its_waits [OF this, of Some Some small_target "(Inl ''no room'', 300)" "\<lambda>_. None"
      "\<lparr>rq_authority = None, rq_path = None, rq_headers = [(SANDBOX_TOKEN_HEADER, ''secret'')], rq_body = []\<rparr>" 0]
  show ?thesis by auto
qed

section \<open>What is passed on\<close>

lemma h_get_forwarded:
  "h_get n (rq_headers (forwarded upstream req)) =
     (if n = PORT_HEADER \<or> n = SANDBOX_TOKEN_HEADER then None
      else if n = ''host'' \<and> \<not> h_has ''host'' (rq_headers req) then Some upstream
      else h_get n (rq_headers req))"
  by (auto simp: forwarded_def Let_def h_has_def PORT_HEADER_def SANDBOX_TOKEN_HEADER_def)

lemma h_all_forwarded:
  assumes "n \<noteq> PORT_HEADER" "n \<noteq> SANDBOX_TOKEN_HEADER" "n \<noteq> ''host''"
  shows "h_all n (rq_headers (forwarded upstream req)) = h_all n (rq_headers req)"
  using assms by (simp add: forwarded_def Let_def)

lemma connection_forwarded:
  "h_all ''connection'' (rq_headers (forwarded upstream req)) = h_all ''connection'' (rq_headers req)"
  by (rule h_all_forwarded) (simp_all add: PORT_HEADER_def SANDBOX_TOKEN_HEADER_def)

lemma hop_header_forwarded:
  "hop_header txt hname (rq_headers (forwarded upstream req)) n = hop_header txt hname (rq_headers req) n"
  by (simp add: hop_header_def named_in_connection_def connection_forwarded)

lemma wants_upgrade_forwarded:
  "wants_upgrade txt (rq_headers (forwarded upstream req)) = wants_upgrade txt (rq_headers req)"
proof -
  have "h_has ''upgrade'' (rq_headers (forwarded upstream req)) = h_has ''upgrade'' (rq_headers req)"
    by (simp add: h_has_def h_get_forwarded PORT_HEADER_def SANDBOX_TOKEN_HEADER_def)
  then show ?thesis by (simp add: wants_upgrade_def connection_forwarded)
qed

lemma unauthorised_sends_nothing:
  "\<not> presented_token_matches txt (rq_headers req) (tg_token tg) \<Longrightarrow>
   \<exists>a. gw_proxy txt hname tg net woke exchange req t = Some a \<and> map_option rs_status (ga_response a) = Some 401 \<and>
     ga_sent a = None \<and> ga_traffic a = []"
  by (simp add: gw_proxy_def own_answer_def)

lemma sent_by_proxy:
  assumes "gw_proxy txt hname tg net woke exchange req t = Some a" and "ga_sent a = Some (port, out)"
  obtains p where "presented_token_matches txt (rq_headers req) (tg_token tg)"
    and "requested_port txt (rq_headers req) = Inr p" and "port = (case p of Some p \<Rightarrow> p | None \<Rightarrow> tg_port tg)"
    and "out = sent_request txt hname (forwarded (socket_addr (tg_ip tg) port) req)"
  using assms
  by (auto simp: gw_proxy_def Let_def split: if_splits sum.splits option.splits reached.splits)

lemma requested_port_given:
  "requested_port txt h = Inr p \<Longrightarrow> h_has PORT_HEADER h \<longleftrightarrow> p \<noteq> None"
  by (cases p) (auto simp: requested_port_def h_has_def split: option.splits if_splits)

text \<open>
  C13. A request reaches a sandbox only with that sandbox's own token, at the port it names or else at
  the sandbox's own. What reaches it has the caller's path and body, and of the caller's headers
  exactly those that are neither the credential, nor the port header, nor of the hop; if the caller
  sent no Host it has the sandbox's address for one.
\<close>

theorem gateway_passes_exactly:
  assumes "gw_proxy txt hname tg net woke exchange req t = Some a"
    and "ga_sent a = Some (port, out)" and "tg_token tg \<noteq> []"
  shows "Option.bind (h_get SANDBOX_TOKEN_HEADER (rq_headers req)) txt = Some (tg_token tg) \<and>
    requested_port txt (rq_headers req) = Inr (if h_has PORT_HEADER (rq_headers req) then Some port else None) \<and>
    (h_has PORT_HEADER (rq_headers req) \<or> port = tg_port tg) \<and>
    rq_path out = rq_path req \<and> rq_body out = rq_body req \<and>
    (\<forall>n. h_get n (rq_headers out) =
       (if n = PORT_HEADER \<or> n = SANDBOX_TOKEN_HEADER then None
        else if hop_header txt hname (rq_headers req) n \<and> \<not> kept_for_upgrade (wants_upgrade txt (rq_headers req)) n then None
        else if n = ''host'' \<and> \<not> h_has ''host'' (rq_headers req) then Some (socket_addr (tg_ip tg) port)
        else h_get n (rq_headers req)))"
proof -
  obtain p where p: "presented_token_matches txt (rq_headers req) (tg_token tg)"
      "requested_port txt (rq_headers req) = Inr p" "port = (case p of Some p \<Rightarrow> p | None \<Rightarrow> tg_port tg)"
      "out = sent_request txt hname (forwarded (socket_addr (tg_ip tg) port) req)"
    by (rule sent_by_proxy [OF assms(1,2)])
  have "Option.bind (h_get SANDBOX_TOKEN_HEADER (rq_headers req)) txt = Some (tg_token tg)"
    using p(1) assms(3) by (simp add: presented_token_matches_def secrets_match_def split: option.splits)
  moreover have "requested_port txt (rq_headers req) = Inr (if h_has PORT_HEADER (rq_headers req) then Some port else None)"
    and "h_has PORT_HEADER (rq_headers req) \<or> port = tg_port tg"
    using requested_port_given [OF p(2)] p(2,3) by (auto split: option.splits)
  moreover have "rq_path out = rq_path req" and "rq_body out = rq_body req"
    by (simp_all add: p(4) sent_request_def forwarded_def Let_def)
  moreover have "h_get n (rq_headers out) =
       (if n = PORT_HEADER \<or> n = SANDBOX_TOKEN_HEADER then None
        else if hop_header txt hname (rq_headers req) n \<and> \<not> kept_for_upgrade (wants_upgrade txt (rq_headers req)) n then None
        else if n = ''host'' \<and> \<not> h_has ''host'' (rq_headers req) then Some (socket_addr (tg_ip tg) port)
        else h_get n (rq_headers req))" for n
    by (simp add: p(4) sent_request_def h_get_strip hop_header_forwarded wants_upgrade_forwarded h_get_forwarded)
  ultimately show ?thesis by simp
qed

definition small_request :: request where
  "small_request = \<lparr>rq_authority = None, rq_path = Some ''/health'',
     rq_headers = [(SANDBOX_TOKEN_HEADER, ''secret''), (PORT_HEADER, ''3000'')], rq_body = []\<rparr>"

definition open_net :: "nat \<Rightarrow> attempt" where
  "open_net k = \<lparr>tr_answer = None, tr_took = 0\<rparr>"

lemma connect_open_net: "connect_upstream open_net k t = Some (None, Suc k, t)"
proof -
  have "connect_loop (Suc n) open_net k t d = Some (None, Suc k, t)" for n d
    by (simp add: connect_def open_net_def)
  moreover have "CONNECT_ROUNDS = Suc 99" by (simp add: CONNECT_ROUNDS_def)
  ultimately show ?thesis unfolding connect_upstream_def by metis
qed

lemma small_request_sent:
  "gw_proxy Some Some small_target open_net (Inr 0, 0) (\<lambda>_. Some (Inl [])) small_request 0 =
     Some \<lparr>ga_response = Some \<lparr>rs_status = 502, rs_headers = [], rs_body = []\<rparr>, ga_at = 0,
       ga_sent = Some (3000, sent_request Some Some (forwarded (socket_addr ''10.86.0.2'' 3000) small_request)),
       ga_traffic = [Saw, Held, Let_go]\<rparr>"
proof -
  have "requested_port Some (rq_headers small_request) = Inr (Some 3000)"
    by (simp add: requested_port_def small_request_def h_get_def PORT_HEADER_def SANDBOX_TOKEN_HEADER_def
        trim_def is_space_def parse_u16_def parse_u32_def is_digit_def dec_value_def digit_val_def)
  moreover have "presented_token_matches Some (rq_headers small_request) (tg_token small_target)"
    by (simp add: presented_token_matches_def secrets_match_def small_request_def small_target_def h_get_def)
  ultimately show ?thesis
    by (simp add: gw_proxy_def reach_def connect_open_net cold_answer_def send_req_def small_target_def)
qed

lemma gateway_passes_exactly_witness:
  "h_get ''host'' (rq_headers (sent_request Some Some (forwarded (socket_addr ''10.86.0.2'' 3000) small_request))) =
     Some (socket_addr ''10.86.0.2'' 3000)"
proof -
  have "\<not> hop_header Some Some (rq_headers small_request) ''host''"
    and "\<not> h_has ''host'' (rq_headers small_request)"
    by (simp_all add: hop_header_def named_in_connection_def HOP_BY_HOP_def small_request_def h_all_def h_has_def
        h_get_def PORT_HEADER_def SANDBOX_TOKEN_HEADER_def List.map_filter_def)
  then show ?thesis
    using gateway_passes_exactly [OF small_request_sent, of 3000
        "sent_request Some Some (forwarded (socket_addr ''10.86.0.2'' 3000) small_request)"]
    by (simp add: small_target_def PORT_HEADER_def SANDBOX_TOKEN_HEADER_def)
qed

end
