(* ===== verification/Listeners.thy ===== *)
theory Listeners
  imports GatewayLaws
begin

text \<open>
  The listeners of a node follow what it reports: no two on one port, each in front of the sandbox it
  is named after and checking that sandbox's token, and after a reconcile exactly the sandboxes that
  should be reachable are.
\<close>

definition listening :: "string \<Rightarrow> live \<Rightarrow> bool" where
  "listening i l \<longleftrightarrow>
     (let e = lv_exposed l; tg = lv_target l
      in ex_id e = i \<and> tg_id tg = i \<and> tg_ip tg = ex_ip e \<and> tg_port tg = ex_port e \<and> tg_token tg = ex_token e)"

abbreviation at_port :: "live \<Rightarrow> u16" where
  "at_port l \<equiv> ex_gateway_port (lv_exposed l)"

definition gateway_ok :: "gateway \<Rightarrow> bool" where
  "gateway_ok g \<longleftrightarrow>
     book_ok (gw_running g) \<and>
     (\<forall>i l. map_of (gw_running g) i = Some l \<longrightarrow> listening i l) \<and>
     (\<forall>i j l m. map_of (gw_running g) i = Some l \<longrightarrow> map_of (gw_running g) j = Some m \<longrightarrow>
        at_port l = at_port m \<longrightarrow> i = j)"

lemma gateway_ok_keep: "gateway_ok g \<Longrightarrow> gateway_ok (g\<lparr>gw_running := keep P (gw_running g)\<rparr>)"
  by (auto simp: gateway_ok_def map_of_keep split: option.splits if_splits)

lemma gateway_ok_put:
  assumes "gateway_ok g" "listening i l"
    and "\<And>j m. map_of (gw_running g) j = Some m \<Longrightarrow> j \<noteq> i \<Longrightarrow> at_port m \<noteq> at_port l"
  shows "gateway_ok (g\<lparr>gw_running := put i l (gw_running g)\<rparr>)"
  using assms unfolding gateway_ok_def by (auto split: if_splits) metis+

lemma start_listener_cases:
  obtains (failed) "fst (bind_soon (net (ex_gateway_port e))) \<noteq> None" "start_listener net e g = g"
  | (bound) l where "fst (bind_soon (net (ex_gateway_port e))) = None" "lv_exposed l = e" "listening (ex_id e) l"
      "start_listener net e g = g\<lparr>gw_running := put (ex_id e) l (gw_running g)\<rparr>"
proof (cases "fst (bind_soon (net (ex_gateway_port e)))")
  case None
  then show ?thesis
    by (intro bound [of "\<lparr>lv_exposed = e, lv_target = \<lparr>tg_id = ex_id e, tg_ip = ex_ip e, tg_port = ex_port e,
          tg_token = ex_token e, tg_wakes = gw_wakes g\<rparr>\<rparr>"])
      (simp_all add: start_listener_def spawn_one_def listening_def)
next
  case (Some x)
  then show ?thesis by (intro failed) (simp_all add: start_listener_def spawn_one_def)
qed

lemma gateway_ok_start:
  assumes "gateway_ok g" "\<And>j m. map_of (gw_running g) j = Some m \<Longrightarrow> at_port m \<noteq> ex_gateway_port e"
  shows "gateway_ok (start_listener net e g)"
  using assms by (cases net e g rule: start_listener_cases) (auto intro!: gateway_ok_put)

lemma list_ex_book: "book_ok b \<Longrightarrow> list_ex (\<lambda>(_, v). P v) b \<longleftrightarrow> (\<exists>i v. map_of b i = Some v \<and> P v)"
  by (auto simp: list_ex_iff book_ok_def)

text \<open>\<^verbatim>\<open>expose\<close> first stops whoever holds the port.\<close>

lemma gateway_ok_expose:
  assumes ok: "gateway_ok g"
  shows "gateway_ok (expose net e g)"
proof (cases "map_of (gw_running g) (ex_id e)")
  case None
  let ?g = "g\<lparr>gw_running := keep (\<lambda>_ l. at_port l \<noteq> ex_gateway_port e) (gw_running g)\<rparr>"
  have "gateway_ok (start_listener net e ?g)"
  proof (rule gateway_ok_start [OF gateway_ok_keep [OF ok]])
    fix j m assume "map_of (gw_running ?g) j = Some m"
    then show "at_port m \<noteq> ex_gateway_port e"
      using ok by (auto simp: gateway_ok_def map_of_keep split: option.splits if_splits)
  qed
  with None show ?thesis by (simp add: expose_def)
qed (simp add: expose_def ok)

section \<open>One pass over what is wanted\<close>

text \<open>What holds between the steps: a listener is of an entry seen, or still has the binding of one to come.\<close>

definition in_line :: "exposed_sandbox list \<Rightarrow> exposed_sandbox list \<Rightarrow> gateway \<Rightarrow> bool" where
  "in_line seen todo g \<longleftrightarrow>
     gateway_ok g \<and>
     (\<forall>i l. map_of (gw_running g) i = Some l \<longrightarrow>
        lv_exposed l \<in> set seen \<or> (\<exists>e\<in>set todo. ex_id e = i \<and> binding_of e = binding_of (lv_exposed l)))"

lemma rotate_token_exposed:
  assumes "ex_id (lv_exposed l) = ex_id e" "binding_of e = binding_of (lv_exposed l)"
  shows "lv_exposed (rotate_token e l) = e"
  using assms by (cases "lv_exposed l"; cases e) (auto simp: rotate_token_def binding_of_def)

lemma rotate_token_listening:
  assumes "listening (ex_id e) l" "binding_of e = binding_of (lv_exposed l)"
  shows "listening (ex_id e) (rotate_token e l)"
  using assms by (cases l; cases "lv_exposed l"; cases e) (auto simp: rotate_token_def binding_of_def listening_def Let_def)

lemma in_line_id: "in_line seen todo g \<Longrightarrow> map_of (gw_running g) i = Some l \<Longrightarrow> ex_id (lv_exposed l) = i"
  by (auto simp: in_line_def gateway_ok_def listening_def Let_def)

lemma open_one_in_line:
  assumes line: "in_line seen (e # todo) g" and new: "ex_id e \<notin> ex_id ` set seen" and d: "ex_id e \<notin> ex_id ` set todo"
  shows "in_line (e # seen) todo (open_one net e g)"
proof (cases "map_of (gw_running g) (ex_id e)")
  case (Some l)
  have i: "ex_id (lv_exposed l) = ex_id e" by (rule in_line_id [OF line Some])
  have b: "binding_of e = binding_of (lv_exposed l)"
  proof -
    have "lv_exposed l \<in> set seen \<or> (\<exists>e'\<in>set (e # todo). ex_id e' = ex_id e \<and> binding_of e' = binding_of (lv_exposed l))"
      using line Some unfolding in_line_def by blast
    moreover have "lv_exposed l \<notin> set seen" using new i by (metis image_eqI)
    ultimately obtain e' where "e' \<in> set (e # todo)" "ex_id e' = ex_id e" "binding_of e' = binding_of (lv_exposed l)"
      by blast
    moreover from this d have "e' = e" by (metis image_eqI set_ConsD)
    ultimately show ?thesis by simp
  qed
  have r: "lv_exposed (rotate_token e l) = e" by (rule rotate_token_exposed [OF i b])
  have "listening (ex_id e) l" using line Some by (auto simp: in_line_def gateway_ok_def)
  then have "listening (ex_id e) (rotate_token e l)" using b by (rule rotate_token_listening)
  moreover have "at_port (rotate_token e l) = at_port l" using b r by (simp add: binding_of_def)
  ultimately have "gateway_ok (g\<lparr>gw_running := put (ex_id e) (rotate_token e l) (gw_running g)\<rparr>)"
    using line Some by (intro gateway_ok_put) (auto simp: in_line_def gateway_ok_def)
  then show ?thesis using line Some r new unfolding in_line_def open_one_def
    by (auto split: if_splits)
next
  case None
  show ?thesis
  proof (cases "list_ex (\<lambda>(_, l). at_port l = ex_gateway_port e) (gw_running g)")
    case True
    then show ?thesis using line None unfolding in_line_def open_one_def
      by (auto split: if_splits) (metis option.distinct(1))
  next
    case False
    have ok: "gateway_ok g" using line by (simp add: in_line_def)
    have free: "at_port m \<noteq> ex_gateway_port e" if "map_of (gw_running g) j = Some m" for j m
      using False that ok by (auto simp: gateway_ok_def list_ex_book)
    have "gateway_ok (start_listener net e g)" by (rule gateway_ok_start [OF ok free])
    then show ?thesis using line None False unfolding in_line_def open_one_def
      by (cases net e g rule: start_listener_cases) (auto split: if_splits, (metis option.distinct(1))+)
  qed
qed

lemma fold_in_line:
  "in_line seen todo g \<Longrightarrow> distinct (map ex_id todo) \<Longrightarrow> ex_id ` set seen \<inter> ex_id ` set todo = {} \<Longrightarrow>
   in_line (rev todo @ seen) [] (fold (open_one net) todo g)"
proof (induction todo arbitrary: seen g)
  case (Cons e todo)
  have "in_line (e # seen) todo (open_one net e g)"
    by (rule open_one_in_line [OF Cons.prems(1)]) (use Cons.prems in auto)
  then show ?case using Cons.IH [of "e # seen"] Cons.prems by auto
qed simp

section \<open>A reconcile\<close>

lemma wanted_for_iff:
  "distinct (map ex_id want) \<Longrightarrow> wanted_for want i = Some e \<longleftrightarrow> e \<in> set want \<and> ex_id e = i"
proof -
  assume "distinct (map ex_id want)"
  then have "distinct (map fst (rev (map (\<lambda>e. (ex_id e, e)) want)))" by (simp add: rev_map [symmetric] comp_def)
  then show ?thesis by (auto simp: wanted_for_def)
qed

lemma stale_out_in_line:
  assumes "gateway_ok g" "distinct (map ex_id want)"
  shows "in_line [] want (g\<lparr>gw_running := keep (\<lambda>i l. \<not> is_stale want finished i l) (gw_running g)\<rparr>)"
  unfolding in_line_def
proof (intro conjI allI impI)
  fix i l assume "map_of (gw_running (g\<lparr>gw_running := keep (\<lambda>i l. \<not> is_stale want finished i l) (gw_running g)\<rparr>)) i = Some l"
  then have "\<not> is_stale want finished i l"
    using assms(1) by (auto simp: gateway_ok_def map_of_keep split: option.splits if_splits)
  then show "lv_exposed l \<in> set [] \<or> (\<exists>e\<in>set want. ex_id e = i \<and> binding_of e = binding_of (lv_exposed l))"
    using wanted_for_iff [OF assms(2)] by (auto simp: is_stale_def split: option.splits)
qed (rule gateway_ok_keep [OF assms(1)])

lemma reconcile_in_line:
  "gateway_ok g \<Longrightarrow> distinct (map ex_id want) \<Longrightarrow> in_line (rev want) [] (reconcile net finished want g)"
  using fold_in_line [OF stale_out_in_line] by (simp add: reconcile_def)

inductive gateway_reach :: "gateway \<Rightarrow> bool" where
  gr_new: "gateway_reach new_gateway"
| gr_waking: "gateway_reach waking_gateway"
| gr_expose: "gateway_reach g \<Longrightarrow> gateway_reach (expose net e g)"
| gr_reconcile: "gateway_reach g \<Longrightarrow> distinct (map ex_id want) \<Longrightarrow> gateway_reach (reconcile net finished want g)"

lemma gateway_reach_ok: "gateway_reach g \<Longrightarrow> gateway_ok g"
proof (induction rule: gateway_reach.induct)
  case gr_new
  show ?case by (simp add: gateway_ok_def new_gateway_def)
next
  case gr_waking
  show ?case by (simp add: gateway_ok_def waking_gateway_def)
next
  case (gr_expose g net e)
  show ?case by (rule gateway_ok_expose [OF gr_expose.IH])
next
  case (gr_reconcile g want net finished)
  show ?case using reconcile_in_line [OF gr_reconcile.IH gr_reconcile.hyps(2)] by (simp add: in_line_def)
qed

lemma open_one_opens:
  assumes line: "in_line seen (e # todo) g" and new: "ex_id e \<notin> ex_id ` set seen" and d: "ex_id e \<notin> ex_id ` set todo"
    and ports: "ex_gateway_port e \<notin> ex_gateway_port ` (set seen \<union> set todo)"
    and bind: "fst (bind_soon (net (ex_gateway_port e))) = None"
  shows "map_option lv_exposed (map_of (gw_running (open_one net e g)) (ex_id e)) = Some e"
proof (cases "map_of (gw_running g) (ex_id e)")
  case (Some l)
  have "in_line (e # seen) todo (open_one net e g)" by (rule open_one_in_line [OF line new d])
  moreover obtain l' where l': "map_of (gw_running (open_one net e g)) (ex_id e) = Some l'"
    using Some by (simp add: open_one_def)
  moreover have "ex_id (lv_exposed l') = ex_id e"
    using in_line_id [OF \<open>in_line (e # seen) todo (open_one net e g)\<close> l'] .
  ultimately have "lv_exposed l' = e" using new d unfolding in_line_def by (metis image_eqI set_ConsD)
  with l' show ?thesis by simp
next
  case None
  have "at_port m \<noteq> ex_gateway_port e" if "map_of (gw_running g) j = Some m" for j m
  proof -
    have "lv_exposed m \<in> set seen \<or> (\<exists>e'\<in>set (e # todo). ex_id e' = j \<and> binding_of e' = binding_of (lv_exposed m))"
      using line that unfolding in_line_def by blast
    moreover have "j \<noteq> ex_id e" using None that by auto
    ultimately obtain e' where "e' \<in> set seen \<union> set todo" "ex_gateway_port e' = at_port m"
      unfolding binding_of_def by (metis Pair_inject UnI1 UnI2 set_ConsD)
    then have "at_port m \<in> ex_gateway_port ` (set seen \<union> set todo)" by (metis image_eqI)
    with ports show ?thesis by metis
  qed
  then have "\<not> list_ex (\<lambda>(_, l). at_port l = ex_gateway_port e) (gw_running g)"
    using line by (auto simp: in_line_def gateway_ok_def list_ex_book)
  then show ?thesis using None bind
    by (cases net e g rule: start_listener_cases) (simp_all add: open_one_def)
qed

lemma open_one_other: "i \<noteq> ex_id e \<Longrightarrow> map_of (gw_running (open_one net e g)) i = map_of (gw_running g) i"
  by (cases net e g rule: start_listener_cases) (simp_all add: open_one_def split: option.split)

lemma fold_open_other:
  "i \<notin> ex_id ` set todo \<Longrightarrow> map_of (gw_running (fold (open_one net) todo g)) i = map_of (gw_running g) i"
  by (induction todo arbitrary: g) (auto simp: open_one_other)

lemma fold_opens:
  "in_line seen todo g \<Longrightarrow> distinct (map ex_id (seen @ todo)) \<Longrightarrow> distinct (map ex_gateway_port (seen @ todo)) \<Longrightarrow>
   (\<forall>e\<in>set todo. fst (bind_soon (net (ex_gateway_port e))) = None) \<Longrightarrow> e \<in> set todo \<Longrightarrow>
   map_option lv_exposed (map_of (gw_running (fold (open_one net) todo g)) (ex_id e)) = Some e"
proof (induction todo arbitrary: seen g)
  case (Cons a todo)
  have line: "in_line (a # seen) todo (open_one net a g)"
    by (rule open_one_in_line [OF Cons.prems(1)]) (use Cons.prems(2) in auto)
  show ?case
  proof (cases "e = a")
    case True
    have "map_option lv_exposed (map_of (gw_running (open_one net a g)) (ex_id a)) = Some a"
      by (rule open_one_opens [OF Cons.prems(1)]) (use Cons.prems(2-4) in auto)
    then show ?thesis using True Cons.prems(2) by (simp add: fold_open_other)
  next
    case False
    then show ?thesis using Cons.IH [OF line] Cons.prems(2-5) by auto
  qed
qed simp

text \<open>
  C14. Whatever a node has opened and closed before, a reconcile leaves listeners that are each on a
  port of its own, in front of the sandbox it is named after and checking that sandbox's token; each is
  as the node reports it; and if no two reported sandboxes share a port and the ports can be bound, every
  reported sandbox has one.
\<close>

theorem listeners_follow_the_node:
  assumes "gateway_reach g" and "distinct (map ex_id want)"
  shows "gateway_ok (reconcile net finished want g) \<and>
    (\<forall>i l. map_of (gw_running (reconcile net finished want g)) i = Some l \<longrightarrow> lv_exposed l \<in> set want) \<and>
    (distinct (map ex_gateway_port want) \<and> (\<forall>e\<in>set want. fst (bind_soon (net (ex_gateway_port e))) = None) \<longrightarrow>
      (\<forall>e\<in>set want. map_option lv_exposed (map_of (gw_running (reconcile net finished want g)) (ex_id e)) = Some e))"
  using reconcile_in_line [OF gateway_reach_ok [OF assms(1)] assms(2), of net finished]
    fold_opens [OF stale_out_in_line [OF gateway_reach_ok [OF assms(1)] assms(2), of finished]] assms(2)
  by (auto simp: in_line_def reconcile_def)

definition small_exposed :: exposed_sandbox where
  "small_exposed = \<lparr>ex_id = ''sb-1'', ex_gateway_port = 20000, ex_ip = ''10.86.0.2'', ex_port = 8080, ex_token = ''secret''\<rparr>"

lemma listeners_follow_the_node_witness:
  "map_option lv_exposed (map_of (gw_running (reconcile (\<lambda>_ _. None) (\<lambda>_. False) [small_exposed] waking_gateway)) ''sb-1'')
     = Some small_exposed"
proof -
  have "fst (bind_soon (\<lambda>_. None)) = None" by (simp add: bind_soon_def BIND_TRIES_def eval_nat_numeral)
  moreover have "ex_id small_exposed = ''sb-1''" by (simp add: small_exposed_def)
  ultimately show ?thesis
    using listeners_follow_the_node [OF gr_waking, of "[small_exposed]" "\<lambda>_ _. None" "\<lambda>_. False"] by simp
qed

text \<open>A bind is tried twenty times at most, over less than a tenth of a second.\<close>

lemma bind_loop_bounded: "snd (bind_loop n net k slept) \<le> slept + n * BIND_PAUSE"
proof (induction n arbitrary: k slept)
  case (Suc n)
  show ?case using Suc.IH [of "Suc k" "slept + BIND_PAUSE"] by simp
qed simp

lemma bind_soon_bounded: "snd (bind_soon net) \<le> 95"
  using bind_loop_bounded [of 19 net 0 0] by (simp add: bind_soon_def BIND_TRIES_def BIND_PAUSE_def)

end
