(* ===== verification/Front.thy ===== *)
theory Front
  imports E2b GatewayLaws
begin

text \<open>
  \<^verbatim>\<open>master/front.rs\<close>: the front door. It reads from the Host, the path or two headers which
  sandbox and port a request is for, looks the sandbox up, and passes the request to the gateway of its
  node with the sandbox's token. \<open>txt\<close> and \<open>hname\<close> are those of \<open>Proxy\<close>, \<open>is_value\<close>
  says what is a header value, \<open>try\<close> is the one connection attempt and \<open>exchange\<close> the
  gateway's answer. The path of a URI the server has parsed parses again.
\<close>

section \<open>What a request is for\<close>

definition trim_end_char :: "char \<Rightarrow> string \<Rightarrow> string" where
  "trim_end_char c s = rev (dropWhile (\<lambda>x. x = c) (rev s))"

text \<open>\<^verbatim>\<open>E2b::new\<close>.\<close>

definition new_front_state :: "master \<Rightarrow> string \<Rightarrow> e2b" where
  "new_front_state ms domain =
     \<lparr>eb_master = ms, eb_domain = map ascii_lower (trim_end_char (CHR ''.'') domain), eb_routes = Map.empty\<rparr>"

datatype dest = To_api | To_sandbox string u16 "string option"

definition host_of :: "(string \<Rightarrow> string option) \<Rightarrow> request \<Rightarrow> string option" where
  "host_of txt req =
     map_option (\<lambda>h0. let h = map ascii_lower (trim h0)
        in case h of
             c # v6 \<Rightarrow> if c = CHR ''['' then before_char (CHR '']'') v6 else before_char (CHR '':'') h
           | [] \<Rightarrow> [])
       (case Option.bind (h_get ''host'' (rq_headers req)) txt of Some v \<Rightarrow> Some v | None \<Rightarrow> rq_authority req)"

definition split_label :: "string \<Rightarrow> (u16 \<times> string) option" where
  "split_label label =
     (case split_once (CHR ''-'') label of
        None \<Rightarrow> None
      | Some (port, i) \<Rightarrow>
          (case parse_u16 port of
             None \<Rightarrow> None
           | Some p \<Rightarrow> if p = 0 \<or> i = [] then None else Some (p, i)))"

definition strip_suffix :: "string \<Rightarrow> string \<Rightarrow> string option" where
  "strip_suffix s p = (if suffix p s then Some (take (length s - length p) s) else None)"

definition classify_host :: "string \<Rightarrow> string option \<Rightarrow> dest option" where
  "classify_host domain host =
     (case host of
        None \<Rightarrow> None
      | Some h \<Rightarrow>
          if h = ''api.'' @ domain then Some To_api
          else case strip_suffix h (''.'' @ domain) of
                 None \<Rightarrow> None
               | Some label \<Rightarrow>
                   if contains_char label (CHR ''.'') then None
                   else map_option (\<lambda>(port, i). To_sandbox i port None) (split_label label))"

definition classify_path :: "string \<Rightarrow> dest option" where
  "classify_path pq =
     (if \<not> starts_with pq ''/sandbox/'' then None
      else case split_once (CHR ''/'') (drop 9 pq) of
             None \<Rightarrow> None
           | Some (i, r) \<Rightarrow>
               (let (seg, tail) = (case split_once (CHR ''/'') r of Some (s, t) \<Rightarrow> (s, t) | None \<Rightarrow> (r, []));
                    (port, query) = (case split_once (CHR ''?'') seg of Some (p, q) \<Rightarrow> (p, Some q) | None \<Rightarrow> (seg, None))
                in case parse_u16 port of
                     None \<Rightarrow> None
                   | Some p \<Rightarrow>
                       if i \<noteq> [] \<and> 0 < p
                       then Some (To_sandbox i p (Some (case query of Some q \<Rightarrow> ''/?'' @ q | None \<Rightarrow> ''/'' @ tail)))
                       else None))"

definition classify_headers :: "(string \<Rightarrow> string option) \<Rightarrow> headers \<Rightarrow> dest option" where
  "classify_headers txt h =
     (let hv = (\<lambda>n. map_option trim (Option.bind (h_get n h) txt))
      in case (hv ''e2b-sandbox-id'', hv ''e2b-sandbox-port'') of
           (Some i, Some port) \<Rightarrow>
             (case parse_u16 port of
                Some p \<Rightarrow> if i \<noteq> [] \<and> 0 < p then Some (To_sandbox i p None) else None
              | None \<Rightarrow> None)
         | _ \<Rightarrow> None)"

definition classify :: "(string \<Rightarrow> string option) \<Rightarrow> string \<Rightarrow> string option \<Rightarrow> headers \<Rightarrow> string \<Rightarrow> dest" where
  "classify txt domain host h pq =
     (case classify_host domain host of
        Some d \<Rightarrow> d
      | None \<Rightarrow>
          (case classify_path pq of
             Some d \<Rightarrow> d
           | None \<Rightarrow> (case classify_headers txt h of Some d \<Rightarrow> d | None \<Rightarrow> To_api)))"

section \<open>Passing it on\<close>

definition FRONT_CONNECT_TIMEOUT :: millis where "FRONT_CONNECT_TIMEOUT = from_secs 5"

definition strip_inbound :: "headers \<Rightarrow> headers" where
  "strip_inbound h = h_remove PORT_HEADER (h_remove SANDBOX_TOKEN_HEADER h)"

definition front_request :: "route \<Rightarrow> u16 \<Rightarrow> string option \<Rightarrow> request \<Rightarrow> request" where
  "front_request r port path req =
     \<lparr>rq_authority = None,
      rq_path = Some (case path of Some p \<Rightarrow> p | None \<Rightarrow> (case rq_path req of Some p \<Rightarrow> p | None \<Rightarrow> ''/'')),
      rq_headers = h_insert PORT_HEADER (dec (unat port))
        (h_insert SANDBOX_TOKEN_HEADER (ro_token r) (strip_inbound (rq_headers req))),
      rq_body = rq_body req\<rparr>"

record front_answer =
  fa_result :: "(api_err + response) option"
  fa_sent :: "((string \<times> u16) \<times> request) option"

definition front_forward :: "(string \<Rightarrow> string option) \<Rightarrow> (string \<Rightarrow> string option) \<Rightarrow> (string \<Rightarrow> bool)
    \<Rightarrow> (string \<Rightarrow> string option) \<Rightarrow> instant \<Rightarrow> string \<Rightarrow> u16 \<Rightarrow> string option \<Rightarrow> attempt
    \<Rightarrow> (request \<Rightarrow> (string + response) option) \<Rightarrow> request \<Rightarrow> e2b \<Rightarrow> e2b \<times> front_answer" where
  "front_forward txt hname is_value parse t i port path try exchange req e =
     (case route_for parse t i e of
        (e1, None) \<Rightarrow> (e1, \<lparr>fa_result = Some (Inl (err 502 (''The sandbox '' @ i @ '' was not found''))), fa_sent = None\<rparr>)
      | (e1, Some r) \<Rightarrow>
          (case fst (connect try FRONT_CONNECT_TIMEOUT) of
             Some x \<Rightarrow>
               (forget_route i e1,
                \<lparr>fa_result = Some (Inl (if is_refused x
                   then err 502 (''sandbox '' @ i @ '' is paused or not serving; connect to it to resume it'')
                   else err 502 (''the node holding sandbox '' @ i @ '' is unreachable''))), fa_sent = None\<rparr>)
           | None \<Rightarrow>
               if \<not> is_value (ro_token r)
               then (e1, \<lparr>fa_result = Some (Inl (err 500 ''sandbox token is not a header value'')), fa_sent = None\<rparr>)
               else
                 (let out = front_request r port path req; sent = Some (ro_gateway r, sent_request txt hname out)
                  in case send_req txt hname exchange out of
                       None \<Rightarrow> (e1, \<lparr>fa_result = None, fa_sent = sent\<rparr>)
                     | Some (Inr (res, _)) \<Rightarrow> (e1, \<lparr>fa_result = Some (Inr res), fa_sent = sent\<rparr>)
                     | Some (Inl x) \<Rightarrow> (forget_route i e1,
                         \<lparr>fa_result = Some (Inl (err 502 (''forwarding to sandbox '' @ i @ '': '' @ x))), fa_sent = sent\<rparr>))))"

text \<open>\<open>api\<close> is the E2B API behind the same door.\<close>

definition front_dispatch :: "(string \<Rightarrow> string option) \<Rightarrow> (string \<Rightarrow> string option) \<Rightarrow> (string \<Rightarrow> bool)
    \<Rightarrow> (string \<Rightarrow> string option) \<Rightarrow> instant \<Rightarrow> attempt \<Rightarrow> (request \<Rightarrow> (string + response) option)
    \<Rightarrow> (request \<Rightarrow> e2b \<Rightarrow> e2b \<times> response) \<Rightarrow> request \<Rightarrow> e2b \<Rightarrow> e2b \<times> front_answer" where
  "front_dispatch txt hname is_value parse t try exchange api req e =
     (case classify txt (eb_domain e) (host_of txt req) (rq_headers req)
             (case rq_path req of Some p \<Rightarrow> p | None \<Rightarrow> ''/'') of
        To_api \<Rightarrow> (let (e1, res) = api req e in (e1, \<lparr>fa_result = Some (Inr res), fa_sent = None\<rparr>))
      | To_sandbox i port path \<Rightarrow> front_forward txt hname is_value parse t i port path try exchange req e)"

section \<open>Names read back\<close>

lemma dec_plain: "list_all (\<lambda>c. \<not> is_space c) (dec n)"
  using dec_mem [of _ n] by (auto simp: list_all_iff)

lemma trim_dec [simp]: "trim (dec n) = dec n"
  by (rule trim_id [OF dec_plain])

lemma parse_u16_dec [simp]: "parse_u16 (dec (unat (p :: u16))) = Some p"
proof -
  have "unat p < 2 ^ 16" using unsigned_less [of p] by simp
  then show ?thesis by (simp add: parse_u16_def parse_u32_dec)
qed

lemma split_once_none: "c \<notin> set s \<Longrightarrow> split_once c s = None"
proof -
  assume "c \<notin> set s"
  then have none: "dropWhile (\<lambda>x. x \<noteq> c) s = []" by (subst dropWhile_eq_Nil_conv) metis
  show ?thesis by (simp only: split_once_def none list.case)
qed

lemma split_label_dec:
  "p \<noteq> 0 \<Longrightarrow> i \<noteq> [] \<Longrightarrow> split_label (dec (unat p) @ ''-'' @ i) = Some (p, i)"
  by (simp add: split_label_def split_once_append is_digit_def)

definition sandbox_host :: "u16 \<Rightarrow> string \<Rightarrow> string \<Rightarrow> string" where
  "sandbox_host p i domain = dec (unat p) @ ''-'' @ i @ ''.'' @ domain"

lemma hd_dec_host: "\<exists>c s. sandbox_host p i domain = c # s \<and> is_digit c"
proof -
  obtain c s where "dec (unat p) = c # s" by (cases "dec (unat p)") auto
  then show ?thesis using dec_mem [of c "unat p"] by (simp add: sandbox_host_def)
qed

lemma classify_own_host:
  assumes "p \<noteq> 0" "i \<noteq> []" "CHR ''.'' \<notin> set i"
  shows "classify_host domain (Some (sandbox_host p i domain)) = Some (To_sandbox i p None)"
proof -
  obtain c s where "sandbox_host p i domain = c # s" "is_digit c" using hd_dec_host by blast
  then have api: "sandbox_host p i domain \<noteq> ''api.'' @ domain" by (auto simp: is_digit_def)
  have "sandbox_host p i domain = (dec (unat p) @ ''-'' @ i) @ ''.'' @ domain" by (simp add: sandbox_host_def)
  then have "strip_suffix (sandbox_host p i domain) (''.'' @ domain) = Some (dec (unat p) @ ''-'' @ i)"
    by (auto simp: strip_suffix_def suffix_def)
  moreover have "\<not> contains_char (dec (unat p) @ ''-'' @ i) (CHR ''.'')"
    using assms(3) by (simp add: contains_char_def is_digit_def)
  ultimately show ?thesis using api split_label_dec [OF assms(1,2)] by (simp add: classify_host_def)
qed

lemma classify_own_path:
  assumes "p \<noteq> 0" "i \<noteq> []" "CHR ''/'' \<notin> set i"
  shows "classify_path (''/sandbox/'' @ i @ ''/'' @ dec (unat p) @ ''/'' @ tail) = Some (To_sandbox i p (Some (''/'' @ tail)))"
proof -
  have "starts_with (''/sandbox/'' @ i @ ''/'' @ dec (unat p) @ ''/'' @ tail) ''/sandbox/''"
    by (simp add: starts_with_def)
  moreover have "split_once (CHR ''?'') (dec (unat p)) = None" by (rule split_once_none) (simp add: is_digit_def)
  moreover have "0 < p" using assms(1) by (simp add: word_neq_0_conv)
  ultimately show ?thesis using assms
    by (simp add: classify_path_def split_once_append is_digit_def)
qed

lemma host_of_text:
  assumes "h_get ''host'' (rq_headers req) = Some v" "txt v = Some v"
    and "v = h @ rest" "rest = [] \<or> (\<exists>r. rest = CHR '':'' # r)"
    and "h \<noteq> []" "hd h \<noteq> CHR ''[''" "map ascii_lower h = h"
    and "list_all (\<lambda>c. \<not> is_space c) v" "CHR '':'' \<notin> set h"
  shows "host_of txt req = Some h"
proof -
  have t: "trim v = v" by (rule trim_id [OF assms(8)])
  obtain c s where cs: "h = c # s" using assms(5) by (cases h) auto
  have low: "map ascii_lower v = h @ map ascii_lower rest" using assms(3,7) by simp
  have "before_char (CHR '':'') (h @ map ascii_lower rest) = h"
    using assms(4) before_char_append [OF assms(9)] before_char_id [OF assms(9)] by (auto simp: ascii_lower_def)
  then show ?thesis using assms(1,2,6) t low cs by (simp add: host_of_def Let_def)
qed

text \<open>The characters of which \<^verbatim>\<open>HeaderValue::to_str\<close> makes a string.\<close>

definition is_visible :: "char \<Rightarrow> bool" where
  "is_visible c \<longleftrightarrow> 32 \<le> (of_char c :: nat) \<and> (of_char c :: nat) < 127 \<or> c = CHR 0x09"

definition plain_name :: "string \<Rightarrow> bool" where
  "plain_name s \<longleftrightarrow> map ascii_lower s = s \<and> list_all (\<lambda>c. is_visible c \<and> \<not> is_space c \<and> c \<noteq> CHR '':'') s"

lemma is_visible_digit: "is_digit c \<Longrightarrow> is_visible c"
  by (auto simp: is_visible_def is_digit_def)

lemma visible_dec: "list_all is_visible (dec n)"
  using dec_mem [of _ n] is_visible_digit by (auto simp: list_all_iff)

lemma plain_visible: "plain_name s \<Longrightarrow> list_all is_visible s"
  by (auto simp: plain_name_def list_all_iff)

lemma plain_name_append [simp]: "plain_name (a @ b) \<longleftrightarrow> plain_name a \<and> plain_name b"
  by (auto simp: plain_name_def)

lemma plain_name_dec [simp]: "plain_name (dec n)"
proof -
  have "ascii_lower c = c" if "is_digit c" for c using that by (simp add: ascii_lower_def is_digit_def)
  then have "map ascii_lower (dec n) = dec n" using dec_mem [of _ n] by (auto intro!: map_idI)
  moreover have "c \<noteq> CHR '':''" if "c \<in> set (dec n)" for c using dec_mem [OF that] by (auto simp: is_digit_def)
  ultimately show ?thesis using dec_plain [of n] visible_dec [of n] by (auto simp: plain_name_def list_all_iff)
qed

lemma plain_name_Cons [simp]:
  "plain_name (c # s) \<longleftrightarrow> ascii_lower c = c \<and> is_visible c \<and> \<not> is_space c \<and> c \<noteq> CHR '':'' \<and> plain_name s"
  by (auto simp: plain_name_def)

lemma plain_sandbox_host: "plain_name i \<Longrightarrow> plain_name domain \<Longrightarrow> plain_name (sandbox_host p i domain)"
  by (simp add: sandbox_host_def ascii_lower_def is_space_def is_visible_def)

lemma plain_name_Nil: "plain_name []" by (simp add: plain_name_def)

lemma host_of_own:
  assumes plain: "plain_name (sandbox_host p i domain)"
  shows "h_get ''host'' (rq_headers req) = Some (sandbox_host p i domain) \<Longrightarrow>
      txt (sandbox_host p i domain) = Some (sandbox_host p i domain) \<Longrightarrow> host_of txt req = Some (sandbox_host p i domain)"
    and "h_get ''host'' (rq_headers req) = Some (sandbox_host p i domain @ '':'' @ dec n) \<Longrightarrow>
      txt (sandbox_host p i domain @ '':'' @ dec n) = Some (sandbox_host p i domain @ '':'' @ dec n) \<Longrightarrow>
      host_of txt req = Some (sandbox_host p i domain)"
proof -
  let ?h = "sandbox_host p i domain"
  obtain c s where cs: "?h = c # s" "is_digit c" using hd_dec_host by blast
  have c: "c \<noteq> CHR ''[''" using cs(2) by (auto simp: is_digit_def)
  have low: "map ascii_lower ?h = ?h" and colon: "CHR '':'' \<notin> set ?h" and space: "list_all (\<lambda>c. \<not> is_space c) ?h"
    using plain by (auto simp: plain_name_def list_all_iff)
  have tail: "list_all (\<lambda>c. \<not> is_space c) (?h @ '':'' @ dec n)"
    using space dec_plain [of n] by (simp add: is_space_def)
  show "host_of txt req = Some ?h" if "h_get ''host'' (rq_headers req) = Some ?h" "txt ?h = Some ?h"
    using host_of_text [of req "?h" "txt" "?h" "[]"] that low space colon by (simp add: cs(1) c)
  show "host_of txt req = Some ?h" if "h_get ''host'' (rq_headers req) = Some (?h @ '':'' @ dec n)"
      "txt (?h @ '':'' @ dec n) = Some (?h @ '':'' @ dec n)"
    using host_of_text [of req "?h @ '':'' @ dec n" "txt" "?h" "'':'' @ dec n"] that low tail colon by (simp add: cs(1) c)
qed

text \<open>
  C29. The two ways to name a sandbox to the front door are read back: a request whose Host is
  \<^verbatim>\<open>{port}-{id}.{domain}\<close>, with or without the port of the door, is for that port of that
  sandbox whatever its path and its other headers say, and a path \<^verbatim>\<open>/sandbox/{id}/{port}/..\<close>
  under a Host that names no sandbox is for that port and the rest of the path. The id and the domain are
  of visible ASCII without blanks, colons or capitals (a Host is folded to lower case, so an id with capitals
  is not read back from it), the id without dots and slashes; of \<^verbatim>\<open>to_str\<close> it is used
  that it reads visible ASCII as it is.
\<close>

theorem front_reads_its_names:
  assumes "p \<noteq> 0" and "i \<noteq> []" and "plain_name i" and "plain_name domain"
    and "CHR ''.'' \<notin> set i" and "CHR ''/'' \<notin> set i" and "\<And>s. list_all is_visible s \<Longrightarrow> txt s = Some s"
  shows "(h_get ''host'' (rq_headers req) = Some (sandbox_host p i domain) \<longrightarrow>
      classify txt domain (host_of txt req) (rq_headers req) pq = To_sandbox i p None) \<and>
    (h_get ''host'' (rq_headers req) = Some v \<and> v = sandbox_host p i domain @ '':'' @ dec n \<longrightarrow>
      classify txt domain (host_of txt req) (rq_headers req) pq = To_sandbox i p None) \<and>
    (classify_host domain (host_of txt req) = None \<longrightarrow>
      classify txt domain (host_of txt req) (rq_headers req) (''/sandbox/'' @ i @ ''/'' @ dec (unat p) @ ''/'' @ tail) =
        To_sandbox i p (Some (''/'' @ tail)))"
proof (intro conjI impI)
  let ?h = "sandbox_host p i domain"
  have plain: "plain_name ?h" by (rule plain_sandbox_host [OF assms(3,4)])
  note host = host_of_own [OF plain]
  have own: "classify txt domain (Some ?h) (rq_headers req) pq = To_sandbox i p None"
    using classify_own_host [OF assms(1,2,5)] by (simp add: classify_def)
  show "classify txt domain (host_of txt req) (rq_headers req) pq = To_sandbox i p None"
    if h: "h_get ''host'' (rq_headers req) = Some ?h"
    using host(1) [of req "txt"] h assms(7) [OF plain_visible [OF plain]] own by simp
  show "classify txt domain (host_of txt req) (rq_headers req) pq = To_sandbox i p None"
    if h: "h_get ''host'' (rq_headers req) = Some v \<and> v = ?h @ '':'' @ dec n"
  proof -
    have "txt (?h @ '':'' @ dec n) = Some (?h @ '':'' @ dec n)"
      by (rule assms(7)) (use plain_visible [OF plain] visible_dec [of n] in \<open>simp add: is_visible_def\<close>)
    then show ?thesis using host(2) [of req n "txt"] h own by auto
  qed
  show "classify txt domain (host_of txt req) (rq_headers req) (''/sandbox/'' @ i @ ''/'' @ dec (unat p) @ ''/'' @ tail) =
        To_sandbox i p (Some (''/'' @ tail))"
    if "classify_host domain (host_of txt req) = None"
    using that classify_own_path [OF assms(1,2,6), of tail] by (simp add: classify_def)
qed

lemma front_reads_its_names_witness:
  "classify Some ''e2b.local'' (host_of Some
     \<lparr>rq_authority = None, rq_path = None, rq_headers = [(''host'', sandbox_host 3000 ''sb-1'' ''e2b.local'')], rq_body = []\<rparr>)
     [(''host'', sandbox_host 3000 ''sb-1'' ''e2b.local'')] ''/'' = To_sandbox ''sb-1'' 3000 None"
proof -
  let ?r = "\<lparr>rq_authority = None, rq_path = None, rq_headers = [(''host'', sandbox_host 3000 ''sb-1'' ''e2b.local'')], rq_body = []\<rparr>"
  have plain: "plain_name ''sb-1''" "plain_name ''e2b.local''" by (simp_all add: ascii_lower_def is_space_def is_visible_def plain_name_Nil)
  have get: "h_get ''host'' (rq_headers ?r) = Some (sandbox_host 3000 ''sb-1'' ''e2b.local'')" by (simp add: h_get_def)
  have "classify Some ''e2b.local'' (host_of Some ?r) (rq_headers ?r) ''/'' = To_sandbox ''sb-1'' 3000 None"
    by (rule front_reads_its_names [THEN conjunct1, THEN mp, OF _ _ plain _ _ _ get]) simp_all
  then show ?thesis by simp
qed

text \<open>A query with a slash in it is cut there, and what follows is lost.\<close>

lemma query_with_slash_is_cut:
  "classify_path ''/sandbox/sb-1/3000?next=/home'' = Some (To_sandbox ''sb-1'' 3000 (Some ''/?next=''))"
proof -
  have "split_once (CHR ''?'') ''3000?next='' = Some (dec 3000, ''next='')"
    by (simp add: split_once_def before_char_def dec.simps digit_char_def)
  moreover have "parse_u16 (dec 3000) = Some 3000" using parse_u16_dec [of 3000] by simp
  ultimately show ?thesis by (simp add: classify_path_def starts_with_def split_once_def before_char_def)
qed

section \<open>The door and the gateway\<close>

lemma h_get_front_request:
  "h_get n (rq_headers (front_request r port path req)) =
     (if n = PORT_HEADER then Some (dec (unat port)) else if n = SANDBOX_TOKEN_HEADER then Some (ro_token r)
      else h_get n (rq_headers req))"
  by (simp add: front_request_def strip_inbound_def)

lemma sent_by_front:
  assumes "front_forward txt hname is_value parse t i port path try exchange req e = (e', a)"
    and "fa_sent a = Some (gw, out)"
  obtains r where "snd (route_for parse t i e) = Some r" "gw = ro_gateway r"
    "out = sent_request txt hname (front_request r port path req)"
  using assms by (auto simp: front_forward_def Let_def split: prod.splits option.splits if_splits sum.splits)

lemma connection_front:
  "h_all ''connection'' (rq_headers (front_request r port path req)) = h_all ''connection'' (rq_headers req)"
  by (simp add: front_request_def strip_inbound_def PORT_HEADER_def SANDBOX_TOKEN_HEADER_def)

lemma hop_header_front:
  "hop_header txt hname (rq_headers (front_request r port path req)) n = hop_header txt hname (rq_headers req) n"
  by (simp add: hop_header_def named_in_connection_def connection_front)

lemma no_upgrade_name: "\<not> kept_for_upgrade u SANDBOX_TOKEN_HEADER" "\<not> kept_for_upgrade u PORT_HEADER"
  by (simp_all add: kept_for_upgrade_def PORT_HEADER_def SANDBOX_TOKEN_HEADER_def)

text \<open>
  C15. What the front door passes on goes to the gateway of the sandbox it is for, with that sandbox's token
  and the port named and with nothing a caller put in those two headers. The one thing a caller can do is
  to name either of them in its own \<^verbatim>\<open>Connection\<close>: then the door's header is stripped as
  one of the hop (\<open>hop_header\<close>), and the request comes without. So a gateway accepts the token exactly if its
  sandbox has that token and it was not stripped, and the port it reads is the one named, or none. Every other gateway,
  which may have been handed the port of a sandbox since deleted, answers 401 and passes nothing on.
  (Tokens are visible ASCII, and \<^verbatim>\<open>to_str\<close> reads visible ASCII as it is.)
\<close>

theorem front_door_speaks_for_the_sandbox:
  assumes "front_forward txt hname is_value parse t i port path try exchange req e = (e', a)"
    and "fa_sent a = Some (gw, out)" and "port \<noteq> 0"
    and "\<And>s. list_all is_visible s \<Longrightarrow> txt s = Some s" "\<And>r. snd (route_for parse t i e) = Some r \<Longrightarrow> list_all is_visible (ro_token r)"
  shows "\<exists>r. snd (route_for parse t i e) = Some r \<and> gw = ro_gateway r \<and>
    requested_port txt (rq_headers out) =
      Inr (if hop_header txt hname (rq_headers req) PORT_HEADER then None else Some port) \<and>
    (\<forall>tg. let carried = (if hop_header txt hname (rq_headers req) SANDBOX_TOKEN_HEADER then [] else ro_token r)
       in presented_token_matches txt (rq_headers out) (tg_token tg) = (tg_token tg = carried) \<and>
          (tg_token tg \<noteq> carried \<longrightarrow>
             (\<exists>g. gw_proxy txt hname tg net woke inner out t' = Some g \<and> map_option rs_status (ga_response g) = Some 401 \<and> ga_sent g = None)))"
proof -
  let ?hop = "hop_header txt hname (rq_headers req)"
  obtain r where r: "snd (route_for parse t i e) = Some r" "gw = ro_gateway r"
      "out = sent_request txt hname (front_request r port path req)"
    by (rule sent_by_front [OF assms(1,2)])
  let ?carried = "if ?hop SANDBOX_TOKEN_HEADER then [] else ro_token r"
  have tok: "h_get SANDBOX_TOKEN_HEADER (rq_headers out) = (if ?hop SANDBOX_TOKEN_HEADER then None else Some (ro_token r))"
    by (simp add: r(3) sent_request_def h_get_strip hop_header_front h_get_front_request no_upgrade_name)
      (simp add: PORT_HEADER_def SANDBOX_TOKEN_HEADER_def)
  have prt: "h_get PORT_HEADER (rq_headers out) = (if ?hop PORT_HEADER then None else Some (dec (unat port)))"
    by (simp add: r(3) sent_request_def h_get_strip hop_header_front h_get_front_request no_upgrade_name)
  have matches: "presented_token_matches txt (rq_headers out) x \<longleftrightarrow> x = ?carried" for x
    using tok assms(4) [OF assms(5) [OF r(1)]] by (auto simp: presented_token_matches_def secrets_match_def)
  moreover have "requested_port txt (rq_headers out) = Inr (if ?hop PORT_HEADER then None else Some port)"
    using prt assms(3) assms(4) [OF visible_dec] by (simp add: requested_port_def word_neq_0_conv)
  moreover have "\<exists>g. gw_proxy txt hname tg net woke inner out t' = Some g \<and> map_option rs_status (ga_response g) = Some 401 \<and> ga_sent g = None"
    if "tg_token tg \<noteq> ?carried" for tg
  proof -
    have "\<not> presented_token_matches txt (rq_headers out) (tg_token tg)" using that matches by simp
    then show ?thesis by (rule unauthorised_sends_nothing [THEN exE]) blast
  qed
  ultimately show ?thesis using r(1,2) by (auto simp: Let_def)
qed

definition small_route :: route where
  "small_route = \<lparr>ro_gateway = (''10.0.0.1'', 20000), ro_token = ''secret''\<rparr>"

lemma route_cached: "eb_routes e i = Some (r, t) \<Longrightarrow> route_for parse t i e = (e, Some r)"
  by (simp add: route_for_def ROUTE_TTL_def from_secs_def)

lemma front_door_speaks_for_the_sandbox_witness:
  "let e = (new_front_state (default_options empty_store) [])\<lparr>eb_routes := [''sb-1'' \<mapsto> (small_route, 0)]\<rparr>;
       req = \<lparr>rq_authority = None, rq_path = None,
         rq_headers = [(SANDBOX_TOKEN_HEADER, ''forged''), (''connection'', PORT_HEADER)], rq_body = []\<rparr>;
       out = sent_request Some Some (front_request small_route 3000 None req)
   in presented_token_matches Some (rq_headers out) ''secret'' \<and> requested_port Some (rq_headers out) = Inr None"
proof -
  let ?e = "(new_front_state (default_options empty_store) [])\<lparr>eb_routes := [''sb-1'' \<mapsto> (small_route, 0)]\<rparr>"
  let ?req = "\<lparr>rq_authority = None, rq_path = None,
    rq_headers = [(SANDBOX_TOKEN_HEADER, ''forged''), (''connection'', PORT_HEADER)], rq_body = []\<rparr>"
  let ?out = "sent_request Some Some (front_request small_route 3000 None ?req)"
  have route: "route_for parse 0 ''sb-1'' ?e = (?e, Some small_route)" for parse by (rule route_cached) simp
  have named: "named_in_connection Some Some (rq_headers ?req) = [PORT_HEADER]"
    by (simp add: named_in_connection_def h_all_def List.map_filter_def PORT_HEADER_def SANDBOX_TOKEN_HEADER_def split_on_plain trim_id is_space_def)
  have hop: "\<not> hop_header Some Some (rq_headers ?req) SANDBOX_TOKEN_HEADER" "hop_header Some Some (rq_headers ?req) PORT_HEADER"
    unfolding hop_header_def named by (simp_all add: HOP_BY_HOP_def PORT_HEADER_def SANDBOX_TOKEN_HEADER_def)
  have sent: "front_forward Some Some (\<lambda>_. True) Some 0 ''sb-1'' 3000 None \<lparr>tr_answer = None, tr_took = 0\<rparr> (\<lambda>_. Some (Inl [])) ?req ?e =
      (forget_route ''sb-1'' ?e, \<lparr>fa_result = Some (Inl (err 502 (''forwarding to sandbox '' @ ''sb-1'' @ '': '' @ []))),
         fa_sent = Some (ro_gateway small_route, ?out)\<rparr>)"
    by (simp add: front_forward_def route connect_def send_req_def)
  have visible: "list_all is_visible (ro_token r)" if "snd (route_for Some 0 ''sb-1'' ?e) = Some r" for r
  proof -
    have "r = small_route" using that by (simp add: route)
    then show ?thesis by (simp add: small_route_def is_visible_def)
  qed
  from front_door_speaks_for_the_sandbox [OF sent _ _ _ visible, of "ro_gateway small_route" ?out open_net "(Inr 0, 0)" "\<lambda>_. Some (Inl [])" 0]
  obtain r where "snd (route_for Some 0 ''sb-1'' ?e) = Some r" "requested_port Some (rq_headers ?out) = Inr None"
    "presented_token_matches Some (rq_headers ?out) (tg_token small_target) = (tg_token small_target = ro_token r)"
    using hop by (auto simp: Let_def)
  moreover from this(1) have "ro_token r = ''secret''" by (simp add: route) (auto simp: small_route_def)
  moreover have "tg_token small_target = ''secret''" by (simp add: small_target_def)
  ultimately have "presented_token_matches Some (rq_headers ?out) ''secret'' \<and> requested_port Some (rq_headers ?out) = Inr None"
    by metis
  then show ?thesis by (simp add: Let_def)
qed

end
