(* ===== verification/NodeTags.thy ===== *)
theory NodeTags
  imports Proxy Tag E2bText Proto "HOL-Library.List_Lexorder" "HOL-Library.Char_ord"
begin

text \<open>
  \<^verbatim>\<open>node/tags.rs\<close>: the images of tags a node holds, how it serves them to another node and how
  it fetches one. The tag root is a book from names to what is there, a directory a book from names to
  files; reading a directory gives its entries in the order of the book. Failures of the local disk
  are not modelled. The HTTP exchange with the other node is an argument: what it answers to the
  request for the manifest and, file by file, the chunks that arrive. MAC and hex codec are those
  of \<open>Tag\<close>, \<open>txt\<close> is \<^verbatim>\<open>HeaderValue::to_str\<close>.
\<close>

section \<open>The tag root\<close>

record disk_file =
  df_plain :: bool
  df_bytes :: string

record tag_entry =
  te_is_dir :: bool
  te_files :: "(string, disk_file) book"
  te_modified :: nat

type_synonym tag_root = "(string, tag_entry) book"

definition is_dir_at :: "tag_root \<Rightarrow> string \<Rightarrow> bool" where
  "is_dir_at d n \<longleftrightarrow> (case map_of d n of Some e \<Rightarrow> te_is_dir e | None \<Rightarrow> False)"

definition FOR_NODE :: string where "FOR_NODE = ''x-sandstorm-fetch-for''"
definition EXPIRES :: string where "EXPIRES = ''x-sandstorm-fetch-expires''"
definition TOKEN :: string where "TOKEN = ''x-sandstorm-fetch-token''"
definition REPORT_MIN_AGE :: nat where "REPORT_MIN_AGE = 300"
definition PARTIAL :: string where "PARTIAL = ''.fetch-''"

record manifest_file =
  mf_name :: string
  mf_size :: nat

section \<open>Serving\<close>

datatype refusal = Refusal nat string

definition authorised :: "(string \<Rightarrow> string option) \<Rightarrow> (string \<Rightarrow> string \<Rightarrow> string) \<Rightarrow> (string \<Rightarrow> string option)
    \<Rightarrow> string \<Rightarrow> int \<Rightarrow> string \<Rightarrow> headers \<Rightarrow> refusal + unit" where
  "authorised txt hmac hdec secret now tag h =
     (let get = (\<lambda>k. case Option.bind (h_get k h) txt of Some v \<Rightarrow> v | None \<Rightarrow> []);
          expires = (case parse_i64 (get EXPIRES) of Some i \<Rightarrow> i | None \<Rightarrow> 0)
      in if fetch_token_valid hmac hdec secret tag (get FOR_NODE) expires (get TOKEN) now then Inr ()
         else Inl (Refusal 401 ''fetching a tag needs a token for this tag, this node and a time that has not passed''))"

definition tag_dir :: "tag_root \<Rightarrow> string \<Rightarrow> refusal + (string, disk_file) book" where
  "tag_dir d tag =
     (if \<not> is_safe tag then Inl (Refusal 400 ''not a plain tag name'')
      else case map_of d tag of
             Some e \<Rightarrow> if te_is_dir e then Inr (te_files e)
                       else Inl (Refusal 404 (''tag '' @ tag @ '' is not on this node''))
           | None \<Rightarrow> Inl (Refusal 404 (''tag '' @ tag @ '' is not on this node'')))"

fun list_files :: "(string, disk_file) book \<Rightarrow> string + manifest_file list" where
  "list_files [] = Inr []"
| "list_files ((n, f) # es) =
     (if starts_with n ''.'' then list_files es
      else if \<not> df_plain f then Inl (n @ '', which is not a plain file'')
      else case list_files es of
             Inl e \<Rightarrow> Inl e
           | Inr l \<Rightarrow> Inr (\<lparr>mf_name = n, mf_size = length (df_bytes f)\<rparr> # l))"

definition list_image :: "(string, disk_file) book \<Rightarrow> string + manifest_file list" where
  "list_image dir = (case list_files dir of Inl e \<Rightarrow> Inl e | Inr l \<Rightarrow> Inr (sort_key mf_name l))"

definition serve_manifest :: "(string \<Rightarrow> string option) \<Rightarrow> (string \<Rightarrow> string \<Rightarrow> string) \<Rightarrow> (string \<Rightarrow> string option)
    \<Rightarrow> string \<Rightarrow> int \<Rightarrow> tag_root \<Rightarrow> string \<Rightarrow> headers \<Rightarrow> refusal + manifest_file list" where
  "serve_manifest txt hmac hdec secret now d tag h =
     and_then (authorised txt hmac hdec secret now tag h) (\<lambda>_.
     and_then (tag_dir d tag) (\<lambda>dir.
       case list_image dir of Inl e \<Rightarrow> Inl (Refusal 500 e) | Inr l \<Rightarrow> Inr l))"

definition serve_file :: "(string \<Rightarrow> string option) \<Rightarrow> (string \<Rightarrow> string \<Rightarrow> string) \<Rightarrow> (string \<Rightarrow> string option)
    \<Rightarrow> string \<Rightarrow> int \<Rightarrow> tag_root \<Rightarrow> string \<Rightarrow> string \<Rightarrow> headers \<Rightarrow> refusal + string" where
  "serve_file txt hmac hdec secret now d tag name h =
     and_then (authorised txt hmac hdec secret now tag h) (\<lambda>_.
     and_then (tag_dir d tag) (\<lambda>dir.
       if \<not> is_safe name then Inl (Refusal 400 ''not a plain file name'')
       else case map_of dir name of
              None \<Rightarrow> Inl (Refusal 404 (tag @ '' has no '' @ name))
            | Some f \<Rightarrow> if df_plain f then Inr (df_bytes f)
                        else Inl (Refusal 404 (tag @ '' has no file '' @ name))))"

section \<open>Fetching\<close>

text \<open>The table of fetches, and what \<^verbatim>\<open>ensure\<close> answers; \<open>True\<close> beside it is that a task is started.\<close>

datatype fetch_entry = Running | Failed string
datatype fetch_status = Ready | Pending | Gave_up string

definition ensure_fetch :: "bool \<Rightarrow> tag_root \<Rightarrow> string \<Rightarrow> (string \<rightharpoonup> fetch_entry)
    \<Rightarrow> (string \<rightharpoonup> fetch_entry) \<times> fetch_status \<times> bool" where
  "ensure_fetch runtime d tag st =
     (if is_dir_at d tag then (st, Ready, False)
      else case st tag of
             Some Running \<Rightarrow> (st, Pending, False)
           | Some (Failed e) \<Rightarrow> (st(tag := None), Gave_up e, False)
           | None \<Rightarrow>
               if \<not> runtime then (st, Gave_up ''no async runtime to fetch on'', False)
               else (st(tag \<mapsto> Running), Pending, True))"

definition fetch_ended :: "string \<Rightarrow> string \<Rightarrow> string + nat \<Rightarrow> (string \<rightharpoonup> fetch_entry) \<Rightarrow> (string \<rightharpoonup> fetch_entry)" where
  "fetch_ended tag from_node out st =
     (case out of
        Inr _ \<Rightarrow> st(tag := None)
      | Inl e \<Rightarrow> st(tag \<mapsto> Failed (''fetching tag '' @ tag @ '' from '' @ from_node @ '': '' @ e)))"

text \<open>The headers of a fetch.\<close>

definition fetch_headers :: "fetch_from \<Rightarrow> headers" where
  "fetch_headers from = [(FOR_NODE, ff_for_node from), (EXPIRES, dec_int (ff_expires from)), (TOKEN, ff_token from)]"

text \<open>One file: its chunks written into the unfinished directory, if all of it came.\<close>

definition fetch_one :: "string \<Rightarrow> (string \<Rightarrow> string + string list) \<Rightarrow> manifest_file
    \<Rightarrow> (string, disk_file) book \<Rightarrow> (string, disk_file) book \<times> (string + nat)" where
  "fetch_one address ask f tmp =
     (if \<not> is_safe (mf_name f) then (tmp, Inl (address @ '' named a file '' @ mf_name f))
      else case ask (mf_name f) of
             Inl e \<Rightarrow> (tmp, Inl e)
           | Inr chunks \<Rightarrow>
               (let bytes = concat chunks; tmp1 = put (mf_name f) \<lparr>df_plain = True, df_bytes = bytes\<rparr> tmp
                in if length bytes \<noteq> mf_size f
                   then (tmp1, Inl (mf_name f @ '' arrived as '' @ dec (length bytes) @ '' bytes; the manifest said '' @ dec (mf_size f)))
                   else (tmp1, Inr (length bytes))))"

fun fetch_files :: "string \<Rightarrow> (string \<Rightarrow> string + string list) \<Rightarrow> manifest_file list
    \<Rightarrow> nat \<Rightarrow> (string, disk_file) book \<Rightarrow> (string, disk_file) book \<times> (string + nat)" where
  "fetch_files address ask [] got tmp = (tmp, Inr got)"
| "fetch_files address ask (f # fs) got tmp =
     (case fetch_one address ask f tmp of
        (tmp1, Inl e) \<Rightarrow> (tmp1, Inl e)
      | (tmp1, Inr n) \<Rightarrow> fetch_files address ask fs (got + n) tmp1)"

text \<open>\<^verbatim>\<open>rename\<close> of a directory: over nothing or an empty directory.\<close>

definition rename_dir :: "string \<Rightarrow> string \<Rightarrow> tag_root \<Rightarrow> tag_root option" where
  "rename_dir a b d =
     (case map_of d a of
        None \<Rightarrow> None
      | Some e \<Rightarrow>
          if (case map_of d b of None \<Rightarrow> True | Some o' \<Rightarrow> te_is_dir o' \<and> te_files o' = [])
          then Some (put b e (del a d)) else None)"

definition partial_name :: "string \<Rightarrow> string \<Rightarrow> string" where
  "partial_name tag tok = PARTIAL @ tag @ ''-'' @ tok"

text \<open>The part after the downloads, on the tag root as it then is.\<close>

definition fetch_finish :: "string \<Rightarrow> string \<Rightarrow> string + nat \<Rightarrow> tag_root \<Rightarrow> tag_root \<times> (string + nat)" where
  "fetch_finish tmp tag out d =
     (case out of
        Inl e \<Rightarrow> (del tmp d, Inl e)
      | Inr got \<Rightarrow>
          (case rename_dir tmp tag d of
             Some d1 \<Rightarrow> (d1, Inr got)
           | None \<Rightarrow> if is_dir_at d tag then (del tmp d, Inr got)
                     else (del tmp d, Inl (''moving '' @ tag @ '' into place''))))"

definition fetch :: "string \<Rightarrow> nat \<Rightarrow> (string + manifest_file list) \<Rightarrow> (string \<Rightarrow> string + string list)
    \<Rightarrow> string \<Rightarrow> fetch_from \<Rightarrow> tag_root \<Rightarrow> tag_root \<times> (string + nat)" where
  "fetch tok now manifest ask tag from d =
     (if \<not> is_safe tag then (d, Inl (''tag '' @ tag @ '' is not a plain name''))
      else case manifest of
             Inl e \<Rightarrow> (d, Inl e)
           | Inr [] \<Rightarrow> (d, Inl (ff_address from @ '' lists no files for '' @ tag))
           | Inr (f # fs) \<Rightarrow>
               (let tmp = partial_name tag tok;
                    (files, out) = fetch_files (ff_address from) ask (f # fs) 0 []
                in fetch_finish tmp tag out (put tmp \<lparr>te_is_dir = True, te_files = files, te_modified = now\<rparr> d)))"

section \<open>What is held\<close>

definition held :: "nat \<Rightarrow> nat \<Rightarrow> tag_root \<Rightarrow> string list" where
  "held now min_age d =
     sort (map fst (filter (\<lambda>(n, e). te_is_dir e \<and> is_safe n \<and> now - te_modified e \<ge> min_age) d))"

definition clear_partial :: "tag_root \<Rightarrow> tag_root" where
  "clear_partial d = filter (\<lambda>(n, _). \<not> starts_with n PARTIAL) d"

end
