(* ===== verification/TagLaws.thy ===== *)
theory TagLaws
  imports NodeTags
begin

text \<open>
  A fetch puts the whole image in place or nothing; a node that fetches from another over the routes
  gets that node's image byte for byte; and of one tag at most one fetch runs at a time.
\<close>

section \<open>All or nothing\<close>

lemma partial_is_unsafe: "\<not> is_safe (partial_name tag tok)"
  by (simp add: is_safe_def partial_name_def PARTIAL_def starts_with_def)

lemma safe_not_partial [simp]: "is_safe n \<Longrightarrow> n \<noteq> partial_name tag tok"
  using partial_is_unsafe by metis

lemma keys_put: "fst ` set (put k v b) = insert k (fst ` set b)"
  by (force simp: put_def)

lemma fetch_files_names:
  "fetch_files a ask fs s tmp = (files, Inr got) \<Longrightarrow>
     fst ` set files = fst ` set tmp \<union> mf_name ` set fs \<and> (\<forall>f\<in>set fs. is_safe (mf_name f)) \<and>
     got = s + sum_list (map mf_size fs)"
proof (induction fs arbitrary: s tmp)
  case (Cons f fs)
  then obtain tmp1 n where one: "fetch_one a ask f tmp = (tmp1, Inr n)"
    and rest: "fetch_files a ask fs (s + n) tmp1 = (files, Inr got)"
    by (auto split: prod.splits sum.splits)
  then obtain v where one: "is_safe (mf_name f)" "n = mf_size f" "tmp1 = put (mf_name f) v tmp"
    by (auto simp: fetch_one_def Let_def split: if_splits sum.splits)
  then show ?case using Cons.IH [OF rest] by (simp add: keys_put)
qed simp

lemma fetch_files_keeps:
  "fetch_files a ask fs s tmp = (files, Inr got) \<Longrightarrow> n \<notin> mf_name ` set fs \<Longrightarrow> map_of files n = map_of tmp n"
proof (induction fs arbitrary: s tmp)
  case (Cons f fs)
  then obtain tmp1 k where one: "fetch_one a ask f tmp = (tmp1, Inr k)"
    and rest: "fetch_files a ask fs (s + k) tmp1 = (files, Inr got)"
    by (auto split: prod.splits sum.splits)
  have "map_of tmp1 n = map_of tmp n"
    using one Cons.prems(2) by (auto simp: fetch_one_def Let_def split: if_splits sum.splits)
  then show ?case using Cons.IH [OF rest] Cons.prems(2) by simp
qed simp

lemma fetch_files_content:
  "fetch_files a ask fs s tmp = (files, Inr got) \<Longrightarrow> f \<in> set fs \<Longrightarrow> distinct (map mf_name fs) \<Longrightarrow>
     \<exists>chunks. ask (mf_name f) = Inr chunks \<and> length (concat chunks) = mf_size f \<and>
       map_of files (mf_name f) = Some \<lparr>df_plain = True, df_bytes = concat chunks\<rparr>"
proof (induction fs arbitrary: s tmp)
  case (Cons g fs)
  then obtain tmp1 k where one: "fetch_one a ask g tmp = (tmp1, Inr k)"
    and rest: "fetch_files a ask fs (s + k) tmp1 = (files, Inr got)"
    by (auto split: prod.splits sum.splits)
  show ?case
  proof (cases "f = g")
    case True
    have "mf_name g \<notin> mf_name ` set fs" using Cons.prems(3) by simp
    from fetch_files_keeps [OF rest this] show ?thesis
      using one True by (auto simp: fetch_one_def Let_def split: if_splits sum.splits)
  next
    case False
    then show ?thesis using Cons.IH [OF rest] Cons.prems by simp
  qed
qed simp

lemma rename_dir_other: "rename_dir a b d = Some d' \<Longrightarrow> n \<noteq> a \<Longrightarrow> n \<noteq> b \<Longrightarrow> map_of d' n = map_of d n"
  by (auto simp: rename_dir_def split: option.splits if_splits)

lemma fetch_finish_other:
  "n \<noteq> tmp \<Longrightarrow> n \<noteq> tag \<Longrightarrow> map_of (fst (fetch_finish tmp tag out d)) n = map_of d n"
  by (auto simp: fetch_finish_def rename_dir_other split: sum.splits option.splits)

lemma fetch_finish_tmp: "tmp \<noteq> tag \<Longrightarrow> map_of (fst (fetch_finish tmp tag out d)) tmp = None"
  by (auto simp: fetch_finish_def rename_dir_def split: sum.splits option.splits if_splits)

lemma fetch_finish_failed:
  "snd (fetch_finish tmp tag out d) = Inl e \<Longrightarrow> n \<noteq> tmp \<Longrightarrow> map_of (fst (fetch_finish tmp tag out d)) n = map_of d n"
  by (auto simp: fetch_finish_def split: sum.splits option.splits if_splits)

text \<open>
  C30. Whatever the other node answers, a fetch leaves every other tag of the node as it was and no
  unfinished directory of its own. If it fails, the tag is as it was too; if it succeeds, the tag is
  here, and where it was not before it holds exactly the files the manifest names, each of the size it
  gives.
\<close>

theorem fetch_is_all_or_nothing:
  assumes "fetch tok now manifest ask tag from d = (d', out)" and "is_safe tag"
    and "map_of d (partial_name tag tok) = None"
  shows "map_of d' (partial_name tag tok) = None \<and>
    (\<forall>n. is_safe n \<longrightarrow> n \<noteq> tag \<or> (\<exists>e. out = Inl e) \<longrightarrow> map_of d' n = map_of d n) \<and>
    (\<forall>got. out = Inr got \<longrightarrow> is_dir_at d' tag \<and>
      (\<forall>l. manifest = Inr l \<longrightarrow> distinct (map mf_name l) \<longrightarrow> map_of d tag = None \<longrightarrow>
        (\<exists>e. map_of d' tag = Some e \<and> fst ` set (te_files e) = mf_name ` set l \<and> got = sum_list (map mf_size l) \<and>
          (\<forall>f\<in>set l. \<exists>b. map_of (te_files e) (mf_name f) = Some \<lparr>df_plain = True, df_bytes = b\<rparr> \<and> length b = mf_size f))))"
proof (cases "\<exists>f fs. manifest = Inr (f # fs)")
  case False
  then have "d' = d \<and> (\<exists>e. out = Inl e)"
    using assms(1,2) by (auto simp: fetch_def split: sum.splits list.splits)
  then show ?thesis using assms(3) by auto
next
  case True
  then obtain f fs where man: "manifest = Inr (f # fs)" by blast
  let ?tmp = "partial_name tag tok"
  obtain files res where ff: "fetch_files (ff_address from) ask (f # fs) 0 [] = (files, res)" by fastforce
  let ?d = "put ?tmp \<lparr>te_is_dir = True, te_files = files, te_modified = now\<rparr> d"
  have fin: "fetch_finish ?tmp tag res ?d = (d', out)"
    using assms(1,2) man ff by (simp add: fetch_def Let_def)
  have tmp: "?tmp \<noteq> tag" using safe_not_partial [OF assms(2), of tag tok] by simp
  have gone: "map_of d' ?tmp = None" using fetch_finish_tmp [OF tmp, of res ?d] fin by simp
  have frame: "map_of d' n = map_of d n" if "is_safe n" "n \<noteq> tag \<or> (\<exists>e. out = Inl e)" for n
    using fetch_finish_other [of n ?tmp tag res ?d] fetch_finish_failed [of ?tmp tag res ?d _ n] fin that
    by (auto simp del: fetch_files.simps)
  have here: "is_dir_at d' tag" if "out = Inr got" for got
    using fin that tmp by (auto simp: fetch_finish_def rename_dir_def is_dir_at_def split: sum.splits option.splits if_splits)
  have whole: "\<exists>e. map_of d' tag = Some e \<and> te_files e = files \<and> res = Inr got"
    if "out = Inr got" "map_of d tag = None" for got
    using fin that tmp by (auto simp: fetch_finish_def rename_dir_def is_dir_at_def split: sum.splits option.splits if_splits)
  have image: "\<exists>e. map_of d' tag = Some e \<and> fst ` set (te_files e) = mf_name ` set l \<and> got = sum_list (map mf_size l) \<and>
      (\<forall>f\<in>set l. \<exists>b. map_of (te_files e) (mf_name f) = Some \<lparr>df_plain = True, df_bytes = b\<rparr> \<and> length b = mf_size f)"
    if o: "out = Inr got" and l: "manifest = Inr l" "distinct (map mf_name l)" and new: "map_of d tag = None" for got l
  proof -
    obtain e where e: "map_of d' tag = Some e" "te_files e = files" "res = Inr got" using whole [OF o new] by blast
    have run: "fetch_files (ff_address from) ask l 0 [] = (files, Inr got)" using ff e(3) man l(1) by simp
    show ?thesis
      using e(1,2) fetch_files_names [OF run] fetch_files_content [OF run _ l(2)] by fastforce
  qed
  show ?thesis using gone frame here image by blast
qed

definition small_from :: fetch_from where
  "small_from = \<lparr>ff_node_id = ''n1'', ff_address = ''10.0.0.1:8443'', ff_cert_sha256 = ''c'', ff_for_node = ''n2'',
     ff_expires = 900, ff_token = ''t''\<rparr>"

lemma fetch_is_all_or_nothing_witness:
  "\<exists>e. fetch ''x'' 5 (Inr [\<lparr>mf_name = ''pages'', mf_size = 3\<rparr>]) (\<lambda>_. Inr [''ab'', ''c'']) ''py'' small_from [] =
       ([(''py'', e)], Inr 3) \<and>
     (\<exists>b. map_of (te_files e) ''pages'' = Some \<lparr>df_plain = True, df_bytes = b\<rparr> \<and> length b = 3)"
proof -
  let ?m = "[\<lparr>mf_name = ''pages'', mf_size = 3\<rparr>]"
  have safe: "is_safe ''py''" "is_safe ''pages''" by code_simp+
  let ?e = "\<lparr>te_is_dir = True, te_files = [(''pages'', \<lparr>df_plain = True, df_bytes = ''abc''\<rparr>)], te_modified = 5\<rparr>"
  have run: "fetch ''x'' 5 (Inr ?m) (\<lambda>_. Inr [''ab'', ''c'']) ''py'' small_from [] = ([(''py'', ?e)], Inr 3)"
    using safe by (simp add: fetch_def fetch_one_def fetch_finish_def rename_dir_def put_def del_def partial_name_def PARTIAL_def)
  show ?thesis
    using run fetch_is_all_or_nothing [OF run safe(1)] by simp
qed

section \<open>Between two nodes\<close>

lemma list_files_plain:
  "list_all (\<lambda>(n, f). starts_with n ''.'' \<or> df_plain f) es \<Longrightarrow>
   list_files es = Inr (map (\<lambda>(n, f). \<lparr>mf_name = n, mf_size = length (df_bytes f)\<rparr>)
     (filter (\<lambda>(n, f). \<not> starts_with n ''.'') es))"
  by (induction es rule: list_files.induct) auto

lemma fetch_files_good:
  "\<forall>f\<in>set fs. is_safe (mf_name f) \<and> (\<exists>ch. ask (mf_name f) = Inr ch \<and> length (concat ch) = mf_size f) \<Longrightarrow>
   \<exists>files. fetch_files a ask fs s tmp = (files, Inr (s + sum_list (map mf_size fs)))"
proof (induction fs arbitrary: s tmp)
  case (Cons f fs)
  then obtain ch where ch: "is_safe (mf_name f)" "ask (mf_name f) = Inr ch" "length (concat ch) = mf_size f" by auto
  let ?t = "put (mf_name f) \<lparr>df_plain = True, df_bytes = concat ch\<rparr> tmp"
  have "fetch_files a ask (f # fs) s tmp = fetch_files a ask fs (s + mf_size f) ?t"
    using ch by (simp add: fetch_one_def Let_def)
  moreover obtain files where "fetch_files a ask fs (s + mf_size f) ?t = (files, Inr (s + mf_size f + sum_list (map mf_size fs)))"
    using Cons by fastforce
  ultimately show ?case by (simp add: add.assoc)
qed simp

text \<open>What the other node answers over its routes, its files cut into chunks in some way.\<close>

definition manifest_from :: "(string \<Rightarrow> string option) \<Rightarrow> (string \<Rightarrow> string \<Rightarrow> string) \<Rightarrow> (string \<Rightarrow> string option)
    \<Rightarrow> string \<Rightarrow> int \<Rightarrow> tag_root \<Rightarrow> string \<Rightarrow> fetch_from \<Rightarrow> string + manifest_file list" where
  "manifest_from txt hmac hdec secret now server tag from =
     (case serve_manifest txt hmac hdec secret now server tag (fetch_headers from) of
        Inr l \<Rightarrow> Inr l | Inl (Refusal _ e) \<Rightarrow> Inl e)"

definition file_from :: "(string \<Rightarrow> string list) \<Rightarrow> (string \<Rightarrow> string option) \<Rightarrow> (string \<Rightarrow> string \<Rightarrow> string) \<Rightarrow> (string \<Rightarrow> string option)
    \<Rightarrow> string \<Rightarrow> int \<Rightarrow> tag_root \<Rightarrow> string \<Rightarrow> fetch_from \<Rightarrow> string \<Rightarrow> string + string list" where
  "file_from pieces txt hmac hdec secret now server tag from name =
     (case serve_file txt hmac hdec secret now server tag name (fetch_headers from) of
        Inr b \<Rightarrow> Inr (pieces b) | Inl (Refusal _ e) \<Rightarrow> Inl e)"

lemma authorised_headers:
  assumes "txt (ff_for_node from) = Some (ff_for_node from)" "txt (dec_int (ff_expires from)) = Some (dec_int (ff_expires from))"
    "txt (ff_token from) = Some (ff_token from)" "i64_range (ff_expires from)"
  shows "authorised txt hmac hdec secret now tag (fetch_headers from) = Inr () \<longleftrightarrow>
    fetch_token_valid hmac hdec secret tag (ff_for_node from) (ff_expires from) (ff_token from) now"
  using assms
  by (simp add: authorised_def fetch_headers_def h_get_def FOR_NODE_def EXPIRES_def TOKEN_def parse_i64_dec_int)

definition image_ok :: "(string, disk_file) book \<Rightarrow> bool" where
  "image_ok dir \<longleftrightarrow> book_ok dir \<and> list_all (\<lambda>(n, f). starts_with n ''.'' \<or> df_plain f \<and> is_safe n) dir \<and>
     list_ex (\<lambda>(n, _). \<not> starts_with n ''.'') dir"

definition listed :: "(string, disk_file) book \<Rightarrow> manifest_file list" where
  "listed dir = map (\<lambda>(n, f). \<lparr>mf_name = n, mf_size = length (df_bytes f)\<rparr>) (filter (\<lambda>(n, f). \<not> starts_with n ''.'') dir)"

lemma listed_mem:
  "g \<in> set (listed dir) \<longleftrightarrow> (\<exists>f. (mf_name g, f) \<in> set dir \<and> \<not> starts_with (mf_name g) ''.'' \<and> mf_size g = length (df_bytes f))"
proof (induction dir)
  case (Cons e dir)
  obtain n f where e: "e = (n, f)" by (cases e)
  have eq: "g = \<lparr>mf_name = n, mf_size = k\<rparr> \<longleftrightarrow> mf_name g = n \<and> mf_size g = k" for k by (cases g) simp
  have "set (listed (e # dir)) =
      (if starts_with n ''.'' then set (listed dir) else insert \<lparr>mf_name = n, mf_size = length (df_bytes f)\<rparr> (set (listed dir)))"
    by (simp add: listed_def e)
  then show ?case using Cons.IH e eq by auto
qed (simp add: listed_def)

lemma listed_names: "map mf_name (listed dir) = map fst (filter (\<lambda>(n, f). \<not> starts_with n ''.'') dir)"
  by (induction dir) (auto simp: listed_def)

lemma listed_distinct: "book_ok dir \<Longrightarrow> distinct (map mf_name (sort_key mf_name (listed dir)))"
proof -
  assume "book_ok dir"
  then have d: "distinct (map mf_name (listed dir))" by (simp add: listed_names book_ok_def distinct_map_filter)
  have "distinct (sort_key mf_name (listed dir))" using d by (simp add: distinct_map)
  moreover have "inj_on mf_name (set (sort_key mf_name (listed dir)))" using d by (simp add: distinct_map)
  ultimately show ?thesis by (simp add: distinct_map)
qed

lemma image_ok_manifest:
  assumes "image_ok dir"
  shows "list_image dir = Inr (sort_key mf_name (listed dir))" and "sort_key mf_name (listed dir) \<noteq> []"
    and "g \<in> set (listed dir) \<longleftrightarrow> (\<exists>f. map_of dir (mf_name g) = Some f \<and> \<not> starts_with (mf_name g) ''.'' \<and>
       df_plain f \<and> is_safe (mf_name g) \<and> mf_size g = length (df_bytes f))"
proof -
  have all: "\<forall>(n, f)\<in>set dir. starts_with n ''.'' \<or> df_plain f \<and> is_safe n"
    using assms by (simp add: image_ok_def list_all_iff)
  then have "list_all (\<lambda>(n, f). starts_with n ''.'' \<or> df_plain f) dir" by (auto simp: list_all_iff)
  then show "list_image dir = Inr (sort_key mf_name (listed dir))"
    by (simp add: list_image_def list_files_plain listed_def)
  have "listed dir \<noteq> []" using assms by (auto simp: image_ok_def list_ex_iff filter_empty_conv listed_def)
  then show "sort_key mf_name (listed dir) \<noteq> []" by (metis length_0_conv length_sort)
  have "(mf_name g, f) \<in> set dir \<longleftrightarrow> map_of dir (mf_name g) = Some f" for f
    using assms by (simp add: image_ok_def book_ok_def)
  then show "g \<in> set (listed dir) \<longleftrightarrow> (\<exists>f. map_of dir (mf_name g) = Some f \<and> \<not> starts_with (mf_name g) ''.'' \<and>
       df_plain f \<and> is_safe (mf_name g) \<and> mf_size g = length (df_bytes f))"
    using all unfolding listed_mem by blast
qed

text \<open>The files of a good image come over, whatever is listed beside them.\<close>

lemma image_comes_over:
  assumes img: "image_ok dir" and p: "\<And>b. concat (pieces b) = b"
    and ask: "\<And>n f. is_safe n \<Longrightarrow> map_of dir n = Some f \<Longrightarrow> df_plain f \<Longrightarrow> ask n = Inr (pieces (df_bytes f))"
  shows "\<exists>files got. fetch_files a ask (sort_key mf_name (listed dir)) 0 [] = (files, Inr got) \<and>
    (\<forall>n. map_of files n = (if starts_with n ''.'' then None else map_of dir n))"
proof -
  let ?l = "sort_key mf_name (listed dir)"
  note mem = image_ok_manifest(3) [OF img]
  have good: "\<forall>f\<in>set ?l. is_safe (mf_name f) \<and> (\<exists>ch. ask (mf_name f) = Inr ch \<and> length (concat ch) = mf_size f)"
  proof
    fix f assume "f \<in> set ?l"
    then obtain x where x: "map_of dir (mf_name f) = Some x" "df_plain x" "is_safe (mf_name f)" "mf_size f = length (df_bytes x)"
      using mem [of f] by auto
    then show "is_safe (mf_name f) \<and> (\<exists>ch. ask (mf_name f) = Inr ch \<and> length (concat ch) = mf_size f)"
      using ask [OF x(3,1,2)] p [of "df_bytes x"] by auto
  qed
  obtain files where run: "fetch_files a ask ?l 0 [] = (files, Inr (0 + sum_list (map mf_size ?l)))"
    using fetch_files_good [OF good, of a 0 "[]"] by blast
  have d: "distinct (map mf_name ?l)" using img by (intro listed_distinct) (simp add: image_ok_def)
  have "map_of files n = (if starts_with n ''.'' then None else map_of dir n)" for n
  proof (cases "n \<in> mf_name ` set ?l")
    case True
    then obtain f where f: "f \<in> set ?l" "mf_name f = n" by blast
    obtain chunks where ch: "ask n = Inr chunks" "map_of files n = Some \<lparr>df_plain = True, df_bytes = concat chunks\<rparr>"
      using fetch_files_content [OF run f(1) d] f(2) by auto
    obtain x where x: "map_of dir n = Some x" "\<not> starts_with n ''.''" "df_plain x" "is_safe n"
      using f mem [of f] by auto
    have "chunks = pieces (df_bytes x)" using ask [OF x(4,1,3)] ch(1) by simp
    then show ?thesis using ch(2) x(1,2,3) p [of "df_bytes x"] by (cases x) simp
  next
    case False
    have "map_of files n = None" using fetch_files_keeps [OF run False] by simp
    moreover have "map_of dir n = None" if dot: "\<not> starts_with n ''.''"
    proof (rule ccontr)
      assume "map_of dir n \<noteq> None"
      then obtain x where x: "map_of dir n = Some x" by auto
      have "df_plain x \<and> is_safe n"
        using img dot map_of_SomeD [OF x] unfolding image_ok_def list_all_iff by auto
      then have "\<lparr>mf_name = n, mf_size = length (df_bytes x)\<rparr> \<in> set (listed dir)"
        using x dot mem [of "\<lparr>mf_name = n, mf_size = length (df_bytes x)\<rparr>"] by simp
      then have "n \<in> mf_name ` set ?l" by (metis image_eqI manifest_file.select_convs(1) set_sort)
      with False show False by simp
    qed
    ultimately show ?thesis by simp
  qed
  with run show ?thesis by blast
qed

text \<open>
  C31. A node that fetches a tag from a node that holds it, with a token that node accepts, ends with
  that node's image: the same plain files with the same bytes, however the transfers are cut into
  chunks, and without what the other node keeps beside them in files whose name starts with a dot.
\<close>

theorem fetch_copies_the_image:
  assumes "\<And>b. concat (pieces b) = b"
    and "map_of server tag = Some \<lparr>te_is_dir = True, te_files = dir, te_modified = m\<rparr>" and "image_ok dir" and "is_safe tag"
    and "fetch_token_valid hmac hdec secret tag (ff_for_node from) (ff_expires from) (ff_token from) now"
    and "i64_range (ff_expires from)"
    and "\<And>s. s \<in> {ff_for_node from, dec_int (ff_expires from), ff_token from} \<Longrightarrow> txt s = Some s"
    and "map_of d tag = None" and "map_of d (partial_name tag tok) = None"
  shows "\<exists>d' got e. fetch tok t (manifest_from txt hmac hdec secret now server tag from)
      (file_from pieces txt hmac hdec secret now server tag from) tag from d = (d', Inr got) \<and>
    map_of d' tag = Some e \<and> te_is_dir e \<and>
    (\<forall>n. map_of (te_files e) n = (if starts_with n ''.'' then None else map_of dir n))"
proof -
  let ?ask = "file_from pieces txt hmac hdec secret now server tag from"
  let ?l = "sort_key mf_name (listed dir)"
  let ?tmp = "partial_name tag tok"
  have auth: "authorised txt hmac hdec secret now tag (fetch_headers from) = Inr ()"
    using authorised_headers [of "txt" "from" hmac hdec secret now tag] assms(5,6,7) by simp
  have dir: "tag_dir server tag = Inr dir" using assms(2,4) by (simp add: tag_dir_def)
  have man: "manifest_from txt hmac hdec secret now server tag from = Inr ?l"
    using auth dir image_ok_manifest(1) [OF assms(3)] by (simp add: manifest_from_def serve_manifest_def and_then_def)
  have ask: "?ask n = Inr (pieces (df_bytes f))" if "is_safe n" "map_of dir n = Some f" "df_plain f" for n f
    using that auth dir by (simp add: file_from_def serve_file_def and_then_def)
  obtain files got where run: "fetch_files (ff_address from) ?ask ?l 0 [] = (files, Inr got)"
    and files: "\<forall>n. map_of files n = (if starts_with n ''.'' then None else map_of dir n)"
    using image_comes_over [where pieces = pieces and ask = ?ask and a = "ff_address from", OF assms(3,1) ask] by blast
  let ?e = "\<lparr>te_is_dir = True, te_files = files, te_modified = t\<rparr>"
  have tmp: "?tmp \<noteq> tag" using safe_not_partial [OF assms(4), of tag tok] by simp
  obtain f fs where ffs: "?l = f # fs" using image_ok_manifest(2) [OF assms(3)] by (cases ?l) auto
  have "fetch tok t (Inr ?l) ?ask tag from d = fetch_finish ?tmp tag (Inr got) (put ?tmp ?e d)"
    using run assms(4) unfolding ffs by (simp add: fetch_def Let_def del: fetch_files.simps)
  also have "\<dots> = (put tag ?e (del ?tmp (put ?tmp ?e d)), Inr got)"
    using assms(8) tmp by (simp add: fetch_finish_def rename_dir_def)
  finally have "fetch tok t (manifest_from txt hmac hdec secret now server tag from) ?ask tag from d =
      (put tag ?e (del ?tmp (put ?tmp ?e d)), Inr got)" by (simp only: man)
  moreover have "map_of (put tag ?e (del ?tmp (put ?tmp ?e d))) tag = Some ?e" by simp
  ultimately show ?thesis using files by (metis tag_entry.select_convs(1,2))
qed

definition held_image :: "(string, disk_file) book" where
  "held_image = [(''pages'', \<lparr>df_plain = True, df_bytes = ''abc''\<rparr>), (''.cache'', \<lparr>df_plain = False, df_bytes = []\<rparr>)]"

definition signed_from :: fetch_from where
  "signed_from = small_from\<lparr>ff_token := fetch_msg ''py'' ''n2'' 900\<rparr>"

lemma fetch_copies_the_image_witness:
  "\<exists>d' got e. fetch ''x'' 5 (manifest_from Some (\<lambda>k m. m) Some ''s'' 800 [(''py'', \<lparr>te_is_dir = True, te_files = held_image, te_modified = 0\<rparr>)] ''py'' signed_from)
      (file_from (\<lambda>b. [b]) Some (\<lambda>k m. m) Some ''s'' 800 [(''py'', \<lparr>te_is_dir = True, te_files = held_image, te_modified = 0\<rparr>)] ''py'' signed_from)
      ''py'' signed_from [] = (d', Inr got) \<and>
    map_of d' ''py'' = Some e \<and> te_is_dir e \<and>
    (\<forall>n. map_of (te_files e) n = (if starts_with n ''.'' then None else map_of held_image n))"
proof -
  have safe: "is_safe ''py''" "is_safe ''pages''" by code_simp+
  have img: "image_ok held_image"
    using safe(2) by (simp add: image_ok_def held_image_def book_ok_def starts_with_def)
  show ?thesis
    by (rule fetch_copies_the_image [OF _ _ img safe(1)])
      (simp_all add: signed_from_def small_from_def fetch_token_valid_def fetch_mac_def i64_range_def)
qed

section \<open>The table of fetches\<close>

text \<open>A node asking for tags, its tasks ending, and whatever else happens to the tag root meanwhile.\<close>

inductive fetch_reach :: "(string \<rightharpoonup> fetch_entry) \<Rightarrow> string list \<Rightarrow> bool" where
  fr_start: "fetch_reach Map.empty []"
| fr_ensure: "fetch_reach st ts \<Longrightarrow> ensure_fetch runtime d tag st = (st', s, started) \<Longrightarrow>
    fetch_reach st' (if started then tag # ts else ts)"
| fr_ended: "fetch_reach st ts \<Longrightarrow> tag \<in> set ts \<Longrightarrow> fetch_reach (fetch_ended tag node out st) (remove1 tag ts)"

lemma ensure_fetch_started:
  "ensure_fetch runtime d tag st = (st', s, True) \<Longrightarrow> st tag = None \<and> st' = st(tag \<mapsto> Running)"
  by (simp add: ensure_fetch_def split: if_splits option.splits fetch_entry.splits)

lemma ensure_fetch_not_started:
  "ensure_fetch runtime d tag st = (st', s, False) \<Longrightarrow> st' = st \<or> st tag \<noteq> Some Running \<and> st' = st(tag := None)"
  by (auto simp: ensure_fetch_def split: if_splits option.splits fetch_entry.splits)

lemma fetch_ended_running:
  "fetch_ended tag node out st x = Some Running \<longleftrightarrow> x \<noteq> tag \<and> st x = Some Running"
  by (simp add: fetch_ended_def split: sum.split)

lemma fetches_run_once: "fetch_reach st ts \<Longrightarrow> distinct ts \<and> (\<forall>tag. tag \<in> set ts \<longleftrightarrow> st tag = Some Running)"
proof (induction rule: fetch_reach.induct)
  case fr_start
  show ?case by simp
next
  case (fr_ensure st ts runtime d tag st' s started)
  show ?case
  proof (cases started)
    case True
    then have "st tag = None \<and> st' = st(tag \<mapsto> Running)"
      using fr_ensure.hyps(2) by (intro ensure_fetch_started) simp
    with fr_ensure.IH True show ?thesis by simp
  next
    case False
    then have "st' = st \<or> st tag \<noteq> Some Running \<and> st' = st(tag := None)"
      using fr_ensure.hyps(2) by (intro ensure_fetch_not_started) simp
    then show ?thesis
    proof
      assume "st' = st"
      with fr_ensure.IH False show ?thesis by simp
    next
      assume "st tag \<noteq> Some Running \<and> st' = st(tag := None)"
      with fr_ensure.IH False show ?thesis by simp
    qed
  qed
next
  case (fr_ended st ts tag node out)
  then show ?case by (auto simp: fetch_ended_running)
qed

text \<open>A failure is told once, and asking again starts afresh.\<close>

lemma failure_told_once:
  assumes "st tag = Some (Failed e)" "\<not> is_dir_at d tag"
  shows "ensure_fetch True d tag st = (st(tag := None), Gave_up e, False)"
    and "ensure_fetch True d tag (st(tag := None)) = (st(tag \<mapsto> Running), Pending, True)"
  using assms by (simp_all add: ensure_fetch_def)

section \<open>What is held\<close>

text \<open>An unfinished fetch is never reported, and clearing those of an earlier run touches no tag.\<close>

lemma held_is_safe: "n \<in> set (held now age d) \<Longrightarrow> is_safe n"
  by (auto simp: held_def)

lemma clear_partial_keeps: "is_safe n \<Longrightarrow> map_of (clear_partial d) n = map_of d n"
proof -
  assume "is_safe n"
  then have "\<not> starts_with n PARTIAL" by (cases n) (auto simp: is_safe_def starts_with_def PARTIAL_def)
  then show ?thesis by (induction d) (auto simp: clear_partial_def)
qed

end
