(* ===== verification/Firecracker.thy ===== *)
theory Firecracker
  imports Prelude
begin

text \<open>
  \<^verbatim>\<open>node/firecracker.rs\<close>: how the Firecracker backend keeps a guest's memory. A memory file is a
  list of pages in which \<open>None\<close> is a hole; a directory of memory files is a book from their
  names to them, and the disk and the vmstate that lie beside them are fields of the image. Hard links
  and reflinks make values: no memory file is written again once it has its name in an image.
  Firecracker and the kernel are what their documentation says: a full snapshot holds every page, a
  diff those written since the last snapshot of the VM, the soft-dirty bits mark the pages written
  since they were cleared. What may fail is an answer.
\<close>

section \<open>Memory files\<close>

type_synonym page = nat
type_synonym memfile = "page option list"
type_synonym memdir = "(string, memfile) book"

definition MAX_CHAIN :: nat where "MAX_CHAIN = 8"
definition CMDLINE_MAX :: nat where "CMDLINE_MAX = 2048"

definition mem_name :: "nat \<Rightarrow> string" where
  "mem_name i = ''mem.'' @ dec i"

definition parse_usize :: "string \<Rightarrow> nat option" where
  "parse_usize s =
     (let t = (case s of [] \<Rightarrow> [] | c # r \<Rightarrow> if c = CHR ''+'' then r else s)
      in if t \<noteq> [] \<and> list_all is_digit t \<and> dec_value t < 2 ^ 64 then Some (dec_value t) else None)"

definition mem_index :: "string \<Rightarrow> nat option" where
  "mem_index n = (if starts_with n ''mem.'' then parse_usize (drop 4 n) else None)"

definition chain_of :: "memdir \<Rightarrow> string + string list" where
  "chain_of d =
     (let idx = sort (List.map_filter mem_index (map fst d))
      in if idx = [] then Inl ''no memory image''
         else if list_ex (\<lambda>(i, n). i \<noteq> n) (zip [0..<length idx] idx) then Inl ''a gap in its memory chain''
         else Inr (map mem_name idx))"

text \<open>\<^verbatim>\<open>link_chain\<close>: \<open>None\<close> where a file of the chain is not there to be linked.\<close>

definition link_one :: "memdir \<Rightarrow> string \<Rightarrow> memdir option \<Rightarrow> memdir option" where
  "link_one src f d =
     (case (d, map_of src f) of (Some d, Some x) \<Rightarrow> Some (put f x d) | _ \<Rightarrow> None)"

definition link_chain :: "memdir \<Rightarrow> string list \<Rightarrow> memdir \<Rightarrow> memdir option" where
  "link_chain src chain d =
     fold (link_one src) chain (Some (keep (\<lambda>n _. \<not> starts_with n ''mem.'') d))"

definition apply_diff :: "memfile \<Rightarrow> memfile \<Rightarrow> memfile option" where
  "apply_diff diff base =
     (if length base \<noteq> length diff then None
      else Some (map2 (\<lambda>x b. case x of Some p \<Rightarrow> Some p | None \<Rightarrow> b) diff base))"

definition ASSEMBLED :: string where "ASSEMBLED = ''.mem.assembled''"

text \<open>\<^verbatim>\<open>assemble\<close>: the file to load, and the directory with the cache it may leave.\<close>

fun apply_all :: "memdir \<Rightarrow> string list \<Rightarrow> memfile \<Rightarrow> memfile option" where
  "apply_all d [] m = Some m"
| "apply_all d (f # fs) m =
     (case map_of d f of
        None \<Rightarrow> None
      | Some x \<Rightarrow> (case apply_diff x m of None \<Rightarrow> None | Some m' \<Rightarrow> apply_all d fs m'))"

definition assemble :: "memdir \<Rightarrow> string list \<Rightarrow> (memdir \<times> memfile) option" where
  "assemble d chain =
     (case chain of
        [] \<Rightarrow> None
      | [f] \<Rightarrow> map_option (\<lambda>m. (d, m)) (map_of d f)
      | f # fs \<Rightarrow>
          (case map_of d ASSEMBLED of
             Some m \<Rightarrow> Some (d, m)
           | None \<Rightarrow>
               (case Option.bind (map_of d f) (apply_all d fs) of
                  None \<Rightarrow> None
                | Some m \<Rightarrow> Some (put ASSEMBLED m d, m))))"

text \<open>What the guest reads: a hole is zeros.\<close>

definition read_pages :: "memfile \<Rightarrow> page list" where
  "read_pages m = map (\<lambda>x. case x of Some p \<Rightarrow> p | None \<Rightarrow> 0) m"

section \<open>A VM\<close>

datatype vm_state = Absent | Vm_paused | Vm_running

record image =
  im_mem :: memdir
  im_disk :: nat
  im_vmstate :: bool

record vm =
  vm_state :: vm_state
  vm_mem :: "page list"
  vm_disk :: nat
  vm_kvm :: "nat set"
  vm_soft :: "nat set"
  vm_marker :: bool
  vm_base :: memdir

text \<open>The guest writes a page.\<close>

definition guest_write :: "nat \<Rightarrow> page \<Rightarrow> vm \<Rightarrow> vm" where
  "guest_write i p s =
     (if vm_state s = Vm_running \<and> i < length (vm_mem s)
      then s\<lparr>vm_mem := (vm_mem s)[i := p], vm_kvm := insert i (vm_kvm s), vm_soft := insert i (vm_soft s)\<rparr> else s)"

definition disk_write :: "nat \<Rightarrow> vm \<Rightarrow> vm" where
  "disk_write v s = (if vm_state s = Vm_running then s\<lparr>vm_disk := v\<rparr> else s)"

definition fc_stop :: "vm \<Rightarrow> vm" where
  "fc_stop s = s\<lparr>vm_state := Absent\<rparr>"

text \<open>\<^verbatim>\<open>boot\<close>: from a cold start, \<open>started\<close> saying whether every call was answered.\<close>

definition fc_boot :: "bool \<Rightarrow> page list \<Rightarrow> vm \<Rightarrow> vm \<times> bool" where
  "fc_boot started mem s =
     (let s1 = s\<lparr>vm_base := [], vm_marker := False\<rparr>
      in if started then (s1\<lparr>vm_state := Vm_running, vm_mem := mem, vm_kvm := {}, vm_soft := {}\<rparr>, True)
         else (fc_stop s1, False))"

definition validate :: "image \<Rightarrow> bool" where
  "validate img \<longleftrightarrow> im_vmstate img \<and> (case chain_of (im_mem img) of Inr _ \<Rightarrow> True | Inl _ \<Rightarrow> False)"

text \<open>\<^verbatim>\<open>restore\<close>, of a VM that is not there; the image may gain the assembled file.\<close>

definition fc_restore :: "bool \<Rightarrow> image \<Rightarrow> vm \<Rightarrow> vm \<times> image \<times> bool" where
  "fc_restore loaded img s =
     (let s1 = s\<lparr>vm_disk := im_disk img\<rparr>
      in case chain_of (im_mem img) of
           Inl _ \<Rightarrow> (s1, img, False)
         | Inr chain \<Rightarrow>
             (case assemble (im_mem img) chain of
                None \<Rightarrow> (s1, img, False)
              | Some (d, m) \<Rightarrow>
                  (let img1 = img\<lparr>im_mem := d\<rparr>
                   in case link_chain d chain (vm_base s1) of
                        None \<Rightarrow> (s1, img1, False)
                      | Some base \<Rightarrow>
                          (let s2 = s1\<lparr>vm_base := base, vm_marker := False\<rparr>
                           in if loaded
                              then (s2\<lparr>vm_state := Vm_running, vm_mem := read_pages m, vm_kvm := {}, vm_soft := {},
                                      vm_marker := True\<rparr>, img1, True)
                              else (fc_stop s2, img1, False)))))"

section \<open>Checkpoints\<close>

datatype snapshot_kind = Full | Diff

definition write_dirty :: "vm \<Rightarrow> nat \<Rightarrow> memfile option" where
  "write_dirty s len =
     (if list_ex (\<lambda>i. i \<in> vm_soft s \<and> len \<le> i) [0..<length (vm_mem s)] then None
      else Some (map (\<lambda>i. if i \<in> vm_soft s \<and> i < length (vm_mem s) then Some (vm_mem s ! i) else None) [0..<len]))"

text \<open>\<^verbatim>\<open>/snapshot/create\<close> of Firecracker.\<close>

definition snapshot_create :: "snapshot_kind \<Rightarrow> vm \<Rightarrow> vm \<times> memfile" where
  "snapshot_create kind s =
     (s\<lparr>vm_kvm := {}\<rparr>,
      case kind of
        Full \<Rightarrow> map Some (vm_mem s)
      | Diff \<Rightarrow> map (\<lambda>i. if i \<in> vm_kvm s then Some (vm_mem s ! i) else None) [0..<length (vm_mem s)])"

text \<open>Which calls of a checkpoint are answered.\<close>

record fc_answers =
  fa_paused :: bool
  fa_vmstate :: bool
  fa_created :: bool
  fa_reflinked :: bool

definition next_kind :: "string list \<Rightarrow> snapshot_kind \<times> nat" where
  "next_kind have_chain =
     (if have_chain \<noteq> [] \<and> length have_chain < MAX_CHAIN then (Diff, length have_chain) else (Full, 0))"

text \<open>The part of \<^verbatim>\<open>checkpoint\<close> between the pause and what is done about a failure, into an empty directory.\<close>

definition checkpoint_body :: "fc_answers \<Rightarrow> vm \<Rightarrow> vm \<times> image option" where
  "checkpoint_body a s =
     (let have_chain = (case chain_of (vm_base s) of Inr c \<Rightarrow> c | Inl _ \<Rightarrow> []);
          (kind, n) = next_kind have_chain
      in case (if kind = Diff then link_chain (vm_base s) have_chain [] else Some []) of
           None \<Rightarrow> (s, None)
         | Some dir \<Rightarrow>
             (let (s1, written) =
                (if vm_marker s \<and> kind = Diff then
                   (if \<not> fa_vmstate a then (s, None)
                    else (s, Option.bind (map_of (vm_base s) (mem_name 0)) (\<lambda>f. write_dirty s (length f))))
                 else if \<not> fa_created a then (s, None)
                 else (let (s', m) = snapshot_create kind s in (s', Some m)))
              in case written of
                   None \<Rightarrow> (s1, None)
                 | Some m \<Rightarrow>
                     if \<not> fa_reflinked a then (s1, None)
                     else (s1, Some \<lparr>im_mem = put (mem_name n) m dir, im_disk = vm_disk s1, im_vmstate = True\<rparr>)))"

definition fc_checkpoint :: "fc_answers \<Rightarrow> vm \<Rightarrow> vm \<times> image option" where
  "fc_checkpoint a s =
     (if \<not> fa_paused a then (s, None)
      else case checkpoint_body a (s\<lparr>vm_state := Vm_paused\<rparr>) of
             (s1, Some img) \<Rightarrow> (s1, Some img)
           | (s1, None) \<Rightarrow> (s1\<lparr>vm_state := Vm_running\<rparr>, None))"

text \<open>\<^verbatim>\<open>resume_after_checkpoint\<close>.\<close>

definition fc_resume_after :: "bool \<Rightarrow> image \<Rightarrow> vm \<Rightarrow> vm \<times> bool" where
  "fc_resume_after resumed img s =
     (case chain_of (im_mem img) of
        Inl _ \<Rightarrow> (s, False)
      | Inr chain \<Rightarrow>
          (case link_chain (im_mem img) chain (vm_base s) of
             None \<Rightarrow> (s, False)
           | Some base \<Rightarrow>
               (let s1 = s\<lparr>vm_base := base, vm_soft := (if vm_marker s then {} else vm_soft s)\<rparr>
                in if resumed then (s1\<lparr>vm_state := Vm_running\<rparr>, True) else (s1, False))))"

section \<open>The kernel command line\<close>

text \<open>\<open>app\<close> is the hex of the program's JSON.\<close>

definition boot_args :: "string \<Rightarrow> bool \<Rightarrow> bool \<Rightarrow> string option" where
  "boot_args app net serial =
     (let s = (if serial then ''console=ttyS0 '' else ''no_timer_check noreplace-smp audit=0 raid=noautodetect '') @
          ''quiet reboot=k panic=1 pci=off clocksource=kvm-clock '' @
          ''i8042.noaux i8042.nomux i8042.nopnp i8042.dumbkbd init=/sandstorm-init.sh'' @
          (if net then '' ip=10.42.0.2::10.42.0.1:255.255.255.252::eth0:off'' else []) @ '' sandstorm.app='' @ app
      in if length s \<ge> CMDLINE_MAX then None else Some s)"

end
