(* ===== verification/FirecrackerLaws.thy ===== *)
theory FirecrackerLaws
  imports Firecracker
begin

text \<open>
  An image of a Firecracker VM holds its memory: whatever chain of diffs it is kept as, loading it gives
  the pages and the disk the guest had when it was paused, after any history of boots, loads, writes,
  branches and failed checkpoints in which no diff was lost.
\<close>

section \<open>Directories that hold a chain\<close>

definition dir_holds :: "memdir \<Rightarrow> memfile list \<Rightarrow> bool" where
  "dir_holds d fs \<longleftrightarrow>
     book_ok d \<and> (\<forall>n m. starts_with n ''mem.'' \<longrightarrow> (map_of d n = Some m \<longleftrightarrow> (\<exists>i<length fs. n = mem_name i \<and> m = fs ! i)))"

lemma mem_name_prefix [simp]: "starts_with (mem_name i) ''mem.''"
  by (simp add: starts_with_def mem_name_def)

lemma mem_name_inj [simp]: "mem_name i = mem_name j \<longleftrightarrow> i = j"
  by (simp add: mem_name_def dec_inj)

lemma assembled_apart [simp]: "\<not> starts_with ASSEMBLED ''mem.''" "mem_name i \<noteq> ASSEMBLED" "ASSEMBLED \<noteq> mem_name i"
  by (simp_all add: starts_with_def ASSEMBLED_def mem_name_def)

lemma mem_index_name: "i < 2 ^ 64 \<Longrightarrow> mem_index (mem_name i) = Some i"
proof -
  assume i: "i < 2 ^ 64"
  obtain c r where c: "dec i = c # r" by (cases "dec i") auto
  have "c \<noteq> CHR ''+''" using dec_mem [of c i] c by (auto simp: is_digit_def)
  then have "(case dec i of [] \<Rightarrow> [] | c # r \<Rightarrow> if c = CHR ''+'' then r else dec i) = dec i" by (simp add: c)
  then have "parse_usize (dec i) = Some i" using i dec_digits [of i] by (simp add: parse_usize_def Let_def)
  then show ?thesis by (simp add: mem_index_def) (simp add: mem_name_def)
qed

lemma mem_index_prefix: "mem_index n = Some i \<Longrightarrow> starts_with n ''mem.''"
  by (simp add: mem_index_def split: if_splits)

lemma holds_name:
  assumes d: "dir_holds d fs" and small: "length fs \<le> MAX_CHAIN" and n: "n \<in> fst ` set d"
  shows "mem_index n = Some i \<longleftrightarrow> i < length fs \<and> n = mem_name i"
proof
  assume a: "mem_index n = Some i"
  obtain m where m: "map_of d n = Some m" using n by (metis map_of_eq_None_iff option.exhaust)
  obtain j where j: "j < length fs" "n = mem_name j"
    using d mem_index_prefix [OF a] m unfolding dir_holds_def by blast
  have "j < 2 ^ 64" using j(1) small by (simp add: MAX_CHAIN_def)
  from mem_index_name [OF this] show "i < length fs \<and> n = mem_name i" using a j by simp
next
  assume a: "i < length fs \<and> n = mem_name i"
  then have "i < 2 ^ 64" using small by (simp add: MAX_CHAIN_def)
  from mem_index_name [OF this] show "mem_index n = Some i" using a by simp
qed

lemma holds_key: "dir_holds d fs \<Longrightarrow> i < length fs \<Longrightarrow> mem_name i \<in> fst ` set d"
proof -
  assume "dir_holds d fs" "i < length fs"
  then have "map_of d (mem_name i) = Some (fs ! i)" by (auto simp: dir_holds_def)
  then show ?thesis by (metis map_of_eq_None_iff option.distinct(1))
qed

lemma map_filter_set: "set (List.map_filter f xs) = {y. \<exists>x\<in>set xs. f x = Some y}"
  by (induction xs) (auto simp: List.map_filter_def)

lemma map_filter_distinct:
  "distinct xs \<Longrightarrow> (\<And>x y z. x \<in> set xs \<Longrightarrow> y \<in> set xs \<Longrightarrow> f x = Some z \<Longrightarrow> f y = Some z \<Longrightarrow> x = y) \<Longrightarrow>
   distinct (List.map_filter f xs)"
proof (induction xs)
  case (Cons x xs)
  have d: "distinct (List.map_filter f xs)" by (rule Cons.IH) (use Cons.prems in auto)
  show ?case
  proof (cases "f x")
    case (Some y)
    have "y \<notin> set (List.map_filter f xs)"
    proof
      assume "y \<in> set (List.map_filter f xs)"
      then obtain x' where "x' \<in> set xs" "f x' = Some y" by (auto simp: map_filter_set)
      then have "x' = x" using Cons.prems(2) [of x' x y] Some by simp
      with \<open>x' \<in> set xs\<close> Cons.prems(1) show False by simp
    qed
    with d Some show ?thesis by (simp add: List.map_filter_def)
  qed (use d in \<open>simp add: List.map_filter_def\<close>)
qed (simp add: List.map_filter_def)

lemma chain_indices:
  assumes d: "dir_holds d fs" and small: "length fs \<le> MAX_CHAIN"
  shows "sort (List.map_filter mem_index (map fst d)) = [0..<length fs]"
proof (rule sorted_distinct_set_unique)
  have "distinct (map fst d)" using d by (simp add: dir_holds_def book_ok_def)
  then have "distinct (List.map_filter mem_index (map fst d))"
  proof (rule map_filter_distinct)
    fix x y z assume "x \<in> set (map fst d)" "y \<in> set (map fst d)" "mem_index x = Some z" "mem_index y = Some z"
    then have "x = mem_name z" "y = mem_name z" using holds_name [OF d small] by (simp_all only: set_map)
    then show "x = y" by simp
  qed
  then show "distinct (sort (List.map_filter mem_index (map fst d)))" by simp
  have "i \<in> set (List.map_filter mem_index (map fst d)) \<longleftrightarrow> i < length fs" for i
  proof
    assume "i \<in> set (List.map_filter mem_index (map fst d))"
    then obtain n where n: "n \<in> fst ` set d" "mem_index n = Some i" by (auto simp: map_filter_set)
    with holds_name [OF d small n(1), of i] show "i < length fs" by simp
  next
    assume i: "i < length fs"
    have k: "mem_name i \<in> fst ` set d" by (rule holds_key [OF d i])
    then have "mem_index (mem_name i) = Some i" using holds_name [OF d small k, of i] i by simp
    with k show "i \<in> set (List.map_filter mem_index (map fst d))"
      unfolding map_filter_set set_map by blast
  qed
  then show "set (sort (List.map_filter mem_index (map fst d))) = set [0..<length fs]"
    by (simp only: set_sort set_upt atLeastLessThan_iff set_eq_iff) simp
qed simp_all

lemma chain_of_holds:
  assumes "dir_holds d fs" "length fs \<le> MAX_CHAIN"
  shows "chain_of d = (if fs = [] then Inl ''no memory image'' else Inr (map mem_name [0..<length fs]))"
proof -
  have "\<not> list_ex (\<lambda>(i, n). i \<noteq> n) (zip [0..<k] [0..<k])" for k :: nat
    by (auto simp: list_ex_iff set_zip)
  then show ?thesis using chain_indices [OF assms] by (simp add: chain_of_def Let_def)
qed

lemma dir_holds_get: "dir_holds d fs \<Longrightarrow> i < length fs \<Longrightarrow> map_of d (mem_name i) = Some (fs ! i)"
  by (auto simp: dir_holds_def)

lemma dir_holds_put: "dir_holds d fs \<Longrightarrow> dir_holds (put (mem_name (length fs)) m d) (fs @ [m])"
  unfolding dir_holds_def by (auto simp: nth_append less_Suc_eq)

lemma dir_holds_put_other: "dir_holds d fs \<Longrightarrow> \<not> starts_with n ''mem.'' \<Longrightarrow> dir_holds (put n m d) fs"
  unfolding dir_holds_def by auto

lemma dir_holds_empty: "dir_holds [] []"
  by (simp add: dir_holds_def)

text \<open>Linking a chain makes a directory that holds it and leaves what is not memory.\<close>

lemma link_fold:
  assumes src: "dir_holds src fs"
  shows "k \<le> length fs \<Longrightarrow> dir_holds d (take j fs) \<Longrightarrow> j \<le> k \<Longrightarrow>
    \<exists>d'. fold (link_one src) (map mem_name [j..<k]) (Some d) = Some d' \<and> dir_holds d' (take k fs) \<and>
      (\<forall>n. \<not> starts_with n ''mem.'' \<longrightarrow> map_of d' n = map_of d n)"
proof (induction "k - j" arbitrary: j d)
  case 0
  then show ?case by auto
next
  case (Suc x)
  then have j: "j < k" "j < length fs" and x: "x = k - Suc j" by simp_all
  let ?d = "put (mem_name j) (fs ! j) d"
  have "dir_holds ?d (take j fs @ [fs ! j])" using dir_holds_put [OF Suc.prems(2), of "fs ! j"] j by simp
  then have d: "dir_holds ?d (take (Suc j) fs)" using j by (simp add: take_Suc_conv_app_nth)
  have "link_one src (mem_name j) (Some d) = Some ?d"
    using dir_holds_get [OF src j(2)] by (simp add: link_one_def)
  moreover have "[j..<k] = j # [Suc j..<k]" using j by (simp add: upt_conv_Cons)
  moreover obtain d' where "fold (link_one src) (map mem_name [Suc j..<k]) (Some ?d) = Some d'"
      "dir_holds d' (take k fs)" "\<forall>n. \<not> starts_with n ''mem.'' \<longrightarrow> map_of d' n = map_of ?d n"
    using Suc.hyps(1) [OF x Suc.prems(1) d] j(1) by (meson Suc_leI)
  moreover have "map_of ?d n = map_of d n" if "\<not> starts_with n ''mem.''" for n using that by auto
  ultimately show ?case by auto
qed

lemma link_chain_holds:
  assumes "dir_holds src fs" "book_ok d"
  obtains d' where "link_chain src (map mem_name [0..<length fs]) d = Some d'" "dir_holds d' fs"
    "\<And>n. \<not> starts_with n ''mem.'' \<Longrightarrow> map_of d' n = map_of d n"
proof -
  let ?d = "keep (\<lambda>n _. \<not> starts_with n ''mem.'') d"
  have "dir_holds ?d (take 0 fs)"
    using assms(2) by (auto simp: dir_holds_def map_of_keep split: option.splits)
  from link_fold [OF assms(1) _ this, of "length fs"] obtain d' where
    d': "fold (link_one src) (map mem_name [0..<length fs]) (Some ?d) = Some d'" "dir_holds d' fs"
      "\<forall>n. \<not> starts_with n ''mem.'' \<longrightarrow> map_of d' n = map_of ?d n" by auto
  have "map_of ?d n = map_of d n" if "\<not> starts_with n ''mem.''" for n
    using that assms(2) by (simp add: map_of_keep split: option.split)
  with d' show ?thesis by (intro that [of d']) (simp_all add: link_chain_def)
qed

section \<open>What a chain reads as\<close>

definition over :: "memfile \<Rightarrow> memfile \<Rightarrow> memfile" where
  "over diff base = map2 (\<lambda>x b. case x of Some p \<Rightarrow> Some p | None \<Rightarrow> b) diff base"

definition overlay :: "memfile list \<Rightarrow> memfile" where
  "overlay fs = fold over (tl fs) (hd fs)"

lemma overlay_snoc: "fs \<noteq> [] \<Longrightarrow> overlay (fs @ [m]) = over m (overlay fs)"
  by (simp add: overlay_def)

lemma length_over [simp]: "length (over x b) = min (length x) (length b)"
  by (simp add: over_def)

lemma length_overlay: "fs \<noteq> [] \<Longrightarrow> \<forall>m\<in>set fs. length m = k \<Longrightarrow> length (overlay fs) = k"
proof (induction fs rule: rev_induct)
  case (snoc m fs)
  then show ?case by (cases "fs = []") (simp_all add: overlay_snoc, simp add: overlay_def)
qed simp

lemma apply_all_fold:
  "(\<And>i. i < length fs \<Longrightarrow> map_of d (names ! i) = Some (fs ! i)) \<Longrightarrow> length names = length fs \<Longrightarrow>
   \<forall>m\<in>set fs. length m = length b \<Longrightarrow> apply_all d names b = Some (fold over fs b)"
proof (induction fs arbitrary: names b)
  case (Cons m fs)
  obtain n ns where ns: "names = n # ns" using Cons.prems(2) by (cases names) auto
  have "map_of d n = Some m" using Cons.prems(1) [of 0] ns by simp
  moreover have "apply_diff m b = Some (over m b)" using Cons.prems(3) by (simp add: apply_diff_def over_def)
  moreover have "apply_all d ns (over m b) = Some (fold over fs (over m b))"
  proof (rule Cons.IH)
    show "map_of d (ns ! i) = Some (fs ! i)" if "i < length fs" for i
      using Cons.prems(1) [of "Suc i"] ns that by simp
  qed (use Cons.prems ns in simp_all)
  ultimately show ?case by (simp add: ns)
qed simp

definition cache_right :: "memdir \<Rightarrow> memfile list \<Rightarrow> bool" where
  "cache_right d fs \<longleftrightarrow> (\<forall>m. map_of d ASSEMBLED = Some m \<longrightarrow> m = overlay fs)"

lemma assemble_holds:
  assumes d: "dir_holds d fs" and ne: "fs \<noteq> []" and len: "\<forall>m\<in>set fs. length m = k" and cache: "cache_right d fs"
  obtains d' where "assemble d (map mem_name [0..<length fs]) = Some (d', overlay fs)" "dir_holds d' fs" "cache_right d' fs"
proof (cases "length fs = 1")
  case True
  then obtain m where m: "fs = [m]" by (cases fs) auto
  have "map_of d (mem_name 0) = Some m" using dir_holds_get [OF d, of 0] m by simp
  then show ?thesis using that [of d] d cache m by (simp add: assemble_def overlay_def)
next
  case False
  then obtain m x fs' where fs: "fs = m # x # fs'" using ne by (cases fs; cases "tl fs") auto
  have split: "[0..<n] = 0 # 1 # [2..<n]" "[1..<n] = 1 # [2..<n]" if "2 \<le> n" for n :: nat
    using that by (simp_all add: upt_conv_Cons numeral_2_eq_2)
  have two: "2 \<le> length fs" using fs by simp
  have upt: "map mem_name [0..<length fs] = mem_name 0 # mem_name 1 # map mem_name [2..<length fs]"
    by (simp only: split(1) [OF two] list.map)
  show ?thesis
  proof (cases "map_of d ASSEMBLED")
    case (Some c)
    then show ?thesis using that [of d] d cache upt by (simp add: assemble_def cache_right_def)
  next
    case None
    have "apply_all d (map mem_name [1..<length fs]) m = Some (fold over (x # fs') m)"
    proof (rule apply_all_fold)
      fix i assume i: "i < length (x # fs')"
      then have l: "Suc i < length fs" using fs by simp
      then have "map mem_name [1..<length fs] ! i = mem_name (Suc i)" by simp
      moreover have "fs ! Suc i = (x # fs') ! i" using fs by simp
      ultimately show "map_of d (map mem_name [1..<length fs] ! i) = Some ((x # fs') ! i)"
        using dir_holds_get [OF d l] by simp
    qed (use fs len in \<open>auto simp: Suc_le_eq\<close>)
    moreover have "map mem_name [1..<length fs] = mem_name 1 # map mem_name [2..<length fs]"
      by (simp only: split(2) [OF two] list.map)
    moreover have "map_of d (mem_name 0) = Some m" using dir_holds_get [OF d, of 0] fs by simp
    ultimately have "assemble d (map mem_name [0..<length fs]) = Some (put ASSEMBLED (overlay fs) d, overlay fs)"
      using None upt by (simp add: assemble_def overlay_def fs)
    then show ?thesis
      using that dir_holds_put_other [OF d assembled_apart(1)] by (simp add: cache_right_def)
  qed
qed

section \<open>Images and VMs\<close>

definition image_holds :: "image \<Rightarrow> page list \<Rightarrow> bool" where
  "image_holds img mem \<longleftrightarrow>
     (\<exists>fs. dir_holds (im_mem img) fs \<and> fs \<noteq> [] \<and> length fs \<le> MAX_CHAIN \<and> (\<forall>m\<in>set fs. length m = length mem) \<and>
        cache_right (im_mem img) fs \<and> read_pages (overlay fs) = mem)"

definition written :: "vm \<Rightarrow> nat set" where
  "written s = (if vm_marker s then vm_soft s else vm_kvm s)"

text \<open>The base is a chain, and every page that is not as the chain has it is known to be written.\<close>

definition base_right :: "vm \<Rightarrow> bool" where
  "base_right s \<longleftrightarrow>
     (\<exists>fs. dir_holds (vm_base s) fs \<and> length fs \<le> MAX_CHAIN \<and>
        (fs \<noteq> [] \<longrightarrow> (\<forall>m\<in>set fs. length m = length (vm_mem s)) \<and>
          (\<forall>i<length (vm_mem s). read_pages (overlay fs) ! i \<noteq> vm_mem s ! i \<longrightarrow> i \<in> written s)))"

lemma image_holds_loaded:
  assumes "image_holds img mem" and "book_ok (vm_base s)"
  shows "\<exists>s' img'. fc_restore loaded img s = (s', img', loaded) \<and> image_holds img' mem \<and> book_ok (vm_base s') \<and>
    (loaded \<longrightarrow> vm_mem s' = mem \<and> vm_disk s' = im_disk img \<and> vm_state s' = Vm_running \<and> base_right s') \<and>
    (\<not> loaded \<longrightarrow> vm_state s' = Absent)"
proof -
  obtain fs where fs: "dir_holds (im_mem img) fs" "fs \<noteq> []" "length fs \<le> MAX_CHAIN" "\<forall>m\<in>set fs. length m = length mem"
      "cache_right (im_mem img) fs" "read_pages (overlay fs) = mem"
    using assms(1) unfolding image_holds_def by blast
  let ?c = "map mem_name [0..<length fs]"
  have chain: "chain_of (im_mem img) = Inr ?c" using chain_of_holds [OF fs(1,3)] fs(2) by simp
  obtain d where d: "assemble (im_mem img) ?c = Some (d, overlay fs)" "dir_holds d fs" "cache_right d fs"
    by (rule assemble_holds [OF fs(1,2,4,5)])
  obtain base where b: "link_chain d ?c (vm_base s) = Some base" "dir_holds base fs"
    using link_chain_holds [OF d(2) assms(2)] by metis
  have good: "image_holds (img\<lparr>im_mem := d\<rparr>) mem"
    using fs d unfolding image_holds_def by auto
  have "book_ok base" using b(2) by (simp add: dir_holds_def)
  show ?thesis
  proof (cases loaded)
    case True
    have "base_right (s\<lparr>vm_disk := im_disk img, vm_base := base, vm_state := Vm_running,
        vm_mem := mem, vm_kvm := {}, vm_soft := {}, vm_marker := True\<rparr>)"
      unfolding base_right_def using b(2) fs(3,4,6) by (intro exI [of _ fs]) (simp add: written_def)
    then show ?thesis using True chain d(1) b(1) good \<open>book_ok base\<close> fs(6) by (simp add: fc_restore_def Let_def)
  next
    case False
    then show ?thesis using chain d(1) b(1) good \<open>book_ok base\<close> by (simp add: fc_restore_def Let_def fc_stop_def)
  qed
qed

text \<open>A diff over the base is the memory.\<close>

lemma read_over:
  assumes "length x = n" "length b = n" "i < n"
  shows "read_pages (over x b) ! i = (case x ! i of Some p \<Rightarrow> p | None \<Rightarrow> read_pages b ! i)"
  using assms by (simp add: read_pages_def over_def split: option.split)

lemma diff_reads:
  assumes fs: "fs \<noteq> []" "\<forall>m\<in>set fs. length m = length mem"
    and stale: "\<forall>i<length mem. read_pages (overlay fs) ! i \<noteq> mem ! i \<longrightarrow> i \<in> W"
  shows "read_pages (overlay (fs @ [map (\<lambda>i. if i \<in> W then Some (mem ! i) else None) [0..<length mem]])) = mem"
    (is "read_pages (overlay (fs @ [?x])) = mem")
proof (rule nth_equalityI)
  have len: "length (overlay fs) = length mem" by (rule length_overlay [OF fs])
  show "length (read_pages (overlay (fs @ [?x]))) = length mem"
    using len fs(1) by (simp add: overlay_snoc read_pages_def)
  fix i assume "i < length (read_pages (overlay (fs @ [?x])))"
  then have i: "i < length mem" using len fs(1) by (simp add: overlay_snoc read_pages_def)
  have "read_pages (overlay (fs @ [?x])) ! i = (case ?x ! i of Some p \<Rightarrow> p | None \<Rightarrow> read_pages (overlay fs) ! i)"
    using read_over [of ?x "length mem" "overlay fs" i] len i fs(1) by (simp add: overlay_snoc)
  then show "read_pages (overlay (fs @ [?x])) ! i = mem ! i" using i stale by auto
qed

lemma full_reads: "read_pages (overlay [map Some mem]) = mem"
  by (rule nth_equalityI) (simp_all add: overlay_def read_pages_def)

section \<open>Checkpoints\<close>

lemma base_chain:
  assumes "base_right s"
  obtains fs where "dir_holds (vm_base s) fs" "length fs \<le> MAX_CHAIN"
    "(case chain_of (vm_base s) of Inr c \<Rightarrow> c | Inl _ \<Rightarrow> []) = map mem_name [0..<length fs]"
    "fs \<noteq> [] \<Longrightarrow> \<forall>m\<in>set fs. length m = length (vm_mem s)"
    "fs \<noteq> [] \<Longrightarrow> \<forall>i<length (vm_mem s). read_pages (overlay fs) ! i \<noteq> vm_mem s ! i \<longrightarrow> i \<in> written s"
proof -
  obtain fs where fs: "dir_holds (vm_base s) fs" "length fs \<le> MAX_CHAIN"
    "fs \<noteq> [] \<longrightarrow> (\<forall>m\<in>set fs. length m = length (vm_mem s)) \<and>
       (\<forall>i<length (vm_mem s). read_pages (overlay fs) ! i \<noteq> vm_mem s ! i \<longrightarrow> i \<in> written s)"
    using assms unfolding base_right_def by blast
  have "(case chain_of (vm_base s) of Inr c \<Rightarrow> c | Inl _ \<Rightarrow> []) = map mem_name [0..<length fs]"
    using chain_of_holds [OF fs(1,2)] by simp
  with fs that show ?thesis by blast
qed

text \<open>A full snapshot, and a diff on a chain that has room.\<close>

lemma full_image: "image_holds \<lparr>im_mem = put (mem_name 0) (map Some mem) [], im_disk = v, im_vmstate = True\<rparr> mem"
proof -
  have "dir_holds (put (mem_name 0) (map Some mem) []) [map Some mem]"
    using dir_holds_put [OF dir_holds_empty, of "map Some mem"] by simp
  then show ?thesis unfolding image_holds_def
    by (intro exI [of _ "[map Some mem]"]) (simp add: MAX_CHAIN_def cache_right_def full_reads)
qed

lemma diff_image:
  assumes dir: "dir_holds d fs" "\<And>n. \<not> starts_with n ''mem.'' \<Longrightarrow> map_of d n = None" and ne: "fs \<noteq> []" and room: "length fs < MAX_CHAIN"
    and len: "\<forall>m\<in>set fs. length m = length mem"
    and stale: "\<forall>i<length mem. read_pages (overlay fs) ! i \<noteq> mem ! i \<longrightarrow> i \<in> W"
    and m: "m = map (\<lambda>i. if i \<in> W then Some (mem ! i) else None) [0..<length mem]"
  shows "image_holds \<lparr>im_mem = put (mem_name (length fs)) m d, im_disk = v, im_vmstate = True\<rparr> mem"
  unfolding image_holds_def
proof (intro exI [of _ "fs @ [m]"] conjI)
  show "dir_holds (im_mem \<lparr>im_mem = put (mem_name (length fs)) m d, im_disk = v, im_vmstate = True\<rparr>) (fs @ [m])"
    using dir_holds_put [OF dir(1), of m] by simp
  show "cache_right (im_mem \<lparr>im_mem = put (mem_name (length fs)) m d, im_disk = v, im_vmstate = True\<rparr>) (fs @ [m])"
    using dir(2) [of ASSEMBLED] assembled_apart(2) [of "length fs"] by (simp add: cache_right_def)
  show "read_pages (overlay (fs @ [m])) = mem" unfolding m by (rule diff_reads [OF ne len stale])
qed (use room len m in auto)

lemma write_dirty_is_diff:
  "write_dirty s (length (vm_mem s)) =
     Some (map (\<lambda>i. if i \<in> vm_soft s then Some (vm_mem s ! i) else None) [0..<length (vm_mem s)])"
  by (auto simp: write_dirty_def list_ex_iff)

lemma checkpoint_holds:
  assumes right: "base_right s" and c: "fc_checkpoint a s = (s1, Some img)"
  shows "image_holds img (vm_mem s) \<and> im_disk img = vm_disk s \<and> vm_mem s1 = vm_mem s \<and> vm_base s1 = vm_base s"
proof -
  let ?p = "s\<lparr>vm_state := Vm_paused\<rparr>"
  obtain fs where fs: "dir_holds (vm_base s) fs" "length fs \<le> MAX_CHAIN"
      "(case chain_of (vm_base s) of Inr c \<Rightarrow> c | Inl _ \<Rightarrow> []) = map mem_name [0..<length fs]"
      "fs \<noteq> [] \<Longrightarrow> \<forall>m\<in>set fs. length m = length (vm_mem s)"
      "fs \<noteq> [] \<Longrightarrow> \<forall>i<length (vm_mem s). read_pages (overlay fs) ! i \<noteq> vm_mem s ! i \<longrightarrow> i \<in> written s"
    by (rule base_chain [OF right]) blast
  have body: "checkpoint_body a ?p = (s1, Some img)"
    using c by (simp add: fc_checkpoint_def split: if_splits prod.splits option.splits)
  show ?thesis
  proof (cases "fs \<noteq> [] \<and> length fs < MAX_CHAIN")
    case False
    then have kind: "next_kind (map mem_name [0..<length fs]) = (Full, 0)" by (auto simp: next_kind_def)
    have "img = \<lparr>im_mem = put (mem_name 0) (map Some (vm_mem s)) [], im_disk = vm_disk s, im_vmstate = True\<rparr>"
      and "s1 = ?p\<lparr>vm_kvm := {}\<rparr>"
      using body fs(3) kind by (auto simp: checkpoint_body_def snapshot_create_def Let_def split: if_splits)
    then show ?thesis using full_image by simp
  next
    case True
    then have kind: "next_kind (map mem_name [0..<length fs]) = (Diff, length fs)" by (simp add: next_kind_def)
    obtain d where d: "link_chain (vm_base s) (map mem_name [0..<length fs]) [] = Some d" "dir_holds d fs"
        "\<And>n. \<not> starts_with n ''mem.'' \<Longrightarrow> map_of d n = map_of [] n"
      using link_chain_holds [OF fs(1), of "[]"] by auto
    have zero: "map_of (vm_base s) (mem_name 0) = Some (fs ! 0)" "length (fs ! 0) = length (vm_mem s)"
      using dir_holds_get [OF fs(1), of 0] True fs(4) by auto
    have w: "write_dirty ?p (length (vm_mem s)) =
        Some (map (\<lambda>i. if i \<in> vm_soft s then Some (vm_mem s ! i) else None) [0..<length (vm_mem s)])"
      using write_dirty_is_diff [of ?p] by simp
    have img: "img = \<lparr>im_mem = put (mem_name (length fs))
          (map (\<lambda>i. if i \<in> written s then Some (vm_mem s ! i) else None) [0..<length (vm_mem s)]) d,
        im_disk = vm_disk s, im_vmstate = True\<rparr>" and s1: "vm_mem s1 = vm_mem s" "vm_base s1 = vm_base s"
      using body fs(3) kind d(1) zero w
      by (auto simp: checkpoint_body_def snapshot_create_def written_def Let_def split: if_splits cong: if_cong)
    have none: "map_of d n = None" if "\<not> starts_with n ''mem.''" for n using d(3) [OF that] by simp
    show ?thesis
      using img s1 True diff_image [OF d(2) none _ _ fs(4) fs(5), where v = "vm_disk s"] by simp
  qed
qed

lemma resumed_right:
  assumes img: "image_holds img (vm_mem s)" and b: "book_ok (vm_base s)"
  shows "\<exists>s'. fc_resume_after r img s = (s', r) \<and> base_right s' \<and> book_ok (vm_base s')"
proof -
  obtain fs where fs: "dir_holds (im_mem img) fs" "fs \<noteq> []" "length fs \<le> MAX_CHAIN" "\<forall>m\<in>set fs. length m = length (vm_mem s)"
      "read_pages (overlay fs) = vm_mem s"
    using img unfolding image_holds_def by blast
  have chain: "chain_of (im_mem img) = Inr (map mem_name [0..<length fs])" using chain_of_holds [OF fs(1,3)] fs(2) by simp
  obtain d where d: "link_chain (im_mem img) (map mem_name [0..<length fs]) (vm_base s) = Some d" "dir_holds d fs"
    using link_chain_holds [OF fs(1) b] by metis
  let ?s = "s\<lparr>vm_base := d, vm_soft := (if vm_marker s then {} else vm_soft s)\<rparr>"
  have "base_right ?s" "base_right (?s\<lparr>vm_state := Vm_running\<rparr>)"
    unfolding base_right_def using d(2) fs(3,4,5) by (auto intro!: exI [of _ fs])
  moreover have "book_ok d" using d(2) by (simp add: dir_holds_def)
  ultimately show ?thesis using chain d(1) by (simp add: fc_resume_after_def Let_def)
qed

section \<open>Histories\<close>

text \<open>
  What can happen to a VM. The flag says that since it was last booted, restored or stopped, a checkpoint
  of it failed after Firecracker had been asked for the pages KVM saw written: KVM has forgotten them then,
  and no image has them.
\<close>

inductive fc_reach :: "bool \<Rightarrow> vm \<Rightarrow> bool" where
  fc_none: "fc_reach False \<lparr>vm_state = Absent, vm_mem = [], vm_disk = v, vm_kvm = {}, vm_soft = {}, vm_marker = False, vm_base = []\<rparr>"
| fc_booted: "fc_reach lost s \<Longrightarrow> fc_reach False (fst (fc_boot started mem s))"
| fc_wrote: "fc_reach lost s \<Longrightarrow> fc_reach lost (guest_write i p s)"
| fc_wrote_disk: "fc_reach lost s \<Longrightarrow> fc_reach lost (disk_write v s)"
| fc_loaded: "fc_reach lost s \<Longrightarrow> image_holds img mem \<Longrightarrow> fc_reach False (fst (fc_restore loaded img s))"
| fc_branched: "fc_reach lost s \<Longrightarrow> vm_state s = Vm_running \<Longrightarrow> fc_checkpoint a s = (s1, Some img) \<Longrightarrow>
    fc_reach lost (fst (fc_resume_after resumed img s1))"
| fc_put_away: "fc_reach lost s \<Longrightarrow> vm_state s = Vm_running \<Longrightarrow> fc_checkpoint a s = (s1, Some img) \<Longrightarrow> fc_reach False (fc_stop s1)"
| fc_failed: "fc_reach lost s \<Longrightarrow> vm_state s = Vm_running \<Longrightarrow> fc_checkpoint a s = (s1, None) \<Longrightarrow>
    fc_reach (lost \<or> \<not> vm_marker s \<and> fa_paused a \<and> fa_created a) s1"

lemma link_fold_book:
  "fold (link_one src) names d = Some d1 \<Longrightarrow> (\<And>x. d = Some x \<Longrightarrow> book_ok x) \<Longrightarrow> book_ok d1"
proof (induction names arbitrary: d)
  case (Cons f names)
  from Cons.prems(1) have f: "fold (link_one src) names (link_one src f d) = Some d1" by simp
  show ?case
    by (rule Cons.IH [OF f]) (use Cons.prems(2) in \<open>auto simp: link_one_def split: option.splits\<close>)
qed simp

lemma link_chain_book: "link_chain src names d = Some d1 \<Longrightarrow> book_ok d \<Longrightarrow> book_ok d1"
  unfolding link_chain_def by (rule link_fold_book) (auto simp: keep_def book_ok_filter)

lemma resume_book: "book_ok (vm_base s) \<Longrightarrow> book_ok (vm_base (fst (fc_resume_after r img s)))"
  by (auto simp: fc_resume_after_def Let_def link_chain_book split: sum.splits option.splits)

lemma checkpoint_base: "fc_checkpoint a s = (s1, i) \<Longrightarrow> vm_base s1 = vm_base s"
  by (auto simp: fc_checkpoint_def checkpoint_body_def snapshot_create_def Let_def split: if_splits option.splits prod.splits)

definition vm_ok :: "bool \<Rightarrow> vm \<Rightarrow> bool" where
  "vm_ok lost s \<longleftrightarrow> book_ok (vm_base s) \<and> (\<not> lost \<longrightarrow> vm_state s \<noteq> Absent \<longrightarrow> base_right s)"

lemma base_right_write:
  assumes "base_right s"
  shows "base_right (guest_write i p s)"
proof (cases "vm_state s = Vm_running \<and> i < length (vm_mem s)")
  case True
  obtain fs where "dir_holds (vm_base s) fs" "length fs \<le> MAX_CHAIN"
    "fs \<noteq> [] \<longrightarrow> (\<forall>m\<in>set fs. length m = length (vm_mem s)) \<and>
       (\<forall>i<length (vm_mem s). read_pages (overlay fs) ! i \<noteq> vm_mem s ! i \<longrightarrow> i \<in> written s)"
    using assms unfolding base_right_def by auto
  then show ?thesis
    using True unfolding base_right_def
    by (intro exI [of _ fs]) (auto simp: guest_write_def written_def nth_list_update)
qed (use assms in \<open>auto simp: guest_write_def\<close>)

lemma fc_failed_base:
  assumes "fc_checkpoint a s = (s1, None)" "vm_marker s \<or> \<not> fa_paused a \<or> \<not> fa_created a" "base_right s" "vm_state s = Vm_running"
  shows "base_right s1"
proof (cases "fa_paused a")
  case True
  let ?p = "s\<lparr>vm_state := Vm_paused\<rparr>"
  obtain s2 where s2: "checkpoint_body a ?p = (s2, None)" "s1 = s2\<lparr>vm_state := Vm_running\<rparr>"
    using assms(1) True by (auto simp: fc_checkpoint_def split: prod.splits option.splits)
  have "s2 = ?p \<or> vm_marker s \<and> s2 = ?p\<lparr>vm_kvm := {}\<rparr>"
    using s2(1) assms(2) True
    by (auto simp: checkpoint_body_def snapshot_create_def Let_def split: if_splits option.splits prod.splits)
  with s2(2) assms(3) show ?thesis by (auto simp: base_right_def written_def)
qed (use assms in \<open>simp add: fc_checkpoint_def\<close>)

lemma fc_reach_ok: "fc_reach lost s \<Longrightarrow> vm_ok lost s"
proof (induction rule: fc_reach.induct)
  case (fc_none v)
  show ?case by (simp add: vm_ok_def)
next
  case (fc_booted lost s started mem)
  have "base_right (fst (fc_boot True mem s))"
    unfolding base_right_def by (intro exI [of _ "[]"]) (simp add: fc_boot_def dir_holds_empty)
  then show ?case by (cases started) (auto simp: vm_ok_def fc_boot_def fc_stop_def Let_def)
next
  case (fc_wrote lost s i p)
  then show ?case by (auto simp: vm_ok_def base_right_write) (simp_all add: guest_write_def split: if_splits)
next
  case (fc_wrote_disk lost s v)
  then show ?case by (auto simp: vm_ok_def disk_write_def base_right_def written_def)
next
  case (fc_loaded lost s img mem loaded)
  obtain s' img' where r: "fc_restore loaded img s = (s', img', loaded)" "book_ok (vm_base s')"
      "loaded \<longrightarrow> base_right s'" "\<not> loaded \<longrightarrow> vm_state s' = Absent"
    using image_holds_loaded [OF fc_loaded.hyps(2), of s loaded] fc_loaded.IH by (auto simp: vm_ok_def)
  with r show ?case by (auto simp: vm_ok_def)
next
  case (fc_branched lost s a s1 img resumed)
  have b: "book_ok (vm_base s1)" using checkpoint_base [OF fc_branched.hyps(3)] fc_branched.IH by (simp add: vm_ok_def)
  have "base_right (fst (fc_resume_after resumed img s1))" if "\<not> lost"
  proof -
    have "image_holds img (vm_mem s1)" using checkpoint_holds [of s a s1 img] fc_branched that by (auto simp: vm_ok_def)
    from resumed_right [OF this b, of resumed] show ?thesis by auto
  qed
  with resume_book [OF b] show ?case by (simp add: vm_ok_def)
next
  case (fc_put_away lost s a s1 img)
  then show ?case using checkpoint_base [of a s s1] by (simp add: vm_ok_def fc_stop_def)
next
  case (fc_failed lost s a s1)
  then show ?case using fc_failed_base [of a s s1] checkpoint_base [of a s s1] by (auto simp: vm_ok_def)
qed

section \<open>An engine that keeps images\<close>

text \<open>
  What the node relies on: a checkpoint that succeeds is an image of the content, and loading an image
  gives the content back and leaves the image good for the next. The runtime loads one image into as
  many sandboxes as are forked from it, one after another.
\<close>

fun load_all :: "('i \<Rightarrow> 's \<Rightarrow> 's \<times> 'i) \<Rightarrow> 'i \<Rightarrow> 's list \<Rightarrow> 's list \<times> 'i" where
  "load_all load i [] = ([], i)"
| "load_all load i (s # ss) =
     (let (s1, i1) = load i s; (ss1, i2) = load_all load i1 ss in (s1 # ss1, i2))"

locale checkpointed =
  fixes good :: "'s \<Rightarrow> bool"
    and ready :: "'s \<Rightarrow> bool"
    and content :: "'s \<Rightarrow> 'c"
    and holds_content :: "'i \<Rightarrow> 'c \<Rightarrow> bool"
    and snap :: "'a \<Rightarrow> 's \<Rightarrow> 's \<times> 'i option"
    and load :: "'i \<Rightarrow> 's \<Rightarrow> 's \<times> 'i"
  assumes snap_holds: "good s \<Longrightarrow> snap a s = (s1, Some i) \<Longrightarrow> holds_content i (content s)"
    and load_good: "holds_content i c \<Longrightarrow> ready s \<Longrightarrow> good (fst (load i s))"
    and load_content: "holds_content i c \<Longrightarrow> ready s \<Longrightarrow> content (fst (load i s)) = c"
    and load_keeps: "holds_content i c \<Longrightarrow> ready s \<Longrightarrow> holds_content (snd (load i s)) c"
begin

lemma load_all_holds:
  "holds_content i c \<Longrightarrow> \<forall>s\<in>set ss. ready s \<Longrightarrow>
     length (fst (load_all load i ss)) = length ss \<and> holds_content (snd (load_all load i ss)) c \<and>
     (\<forall>s1\<in>set (fst (load_all load i ss)). good s1 \<and> content s1 = c)"
proof (induction ss arbitrary: i)
  case (Cons s ss)
  then show ?case
    using load_good [OF Cons.prems(1), of s] load_content [OF Cons.prems(1), of s] load_keeps [OF Cons.prems(1), of s]
    by (simp add: case_prod_beta)
qed simp

lemma forks:
  assumes "good s" "snap a s = (s1, Some i)" "\<forall>t\<in>set ts. ready t" "t \<in> set (fst (load_all load i ts))"
  shows "good t \<and> content t = content s"
  using load_all_holds [OF snap_holds [OF assms(1,2)] assms(3)] assms(4) by blast

lemma forks_of_forks:
  assumes "good s" "snap a s = (s1, Some i)" "\<forall>t\<in>set ts. ready t" "t \<in> set (fst (load_all load i ts))"
    and "snap b t = (t1, Some j)" "\<forall>u\<in>set us. ready u" "u \<in> set (fst (load_all load j us))"
  shows "content u = content s"
  using forks [OF assms(1-4)] forks [OF _ assms(5-7)] by simp

end

definition fc_load :: "image \<Rightarrow> vm \<Rightarrow> vm \<times> image" where
  "fc_load img s = (let (s1, img1, _) = fc_restore True img s in (s1, img1))"

lemma fc_load_holds:
  assumes "image_holds img mem \<and> im_disk img = v" and "book_ok (vm_base s)"
  shows "base_right (fst (fc_load img s)) \<and> vm_state (fst (fc_load img s)) = Vm_running \<and>
    vm_mem (fst (fc_load img s)) = mem \<and> vm_disk (fst (fc_load img s)) = v \<and>
    image_holds (snd (fc_load img s)) mem \<and> im_disk (snd (fc_load img s)) = v"
proof -
  obtain s1 img1 where r: "fc_restore True img s = (s1, img1, True)" "image_holds img1 mem" "vm_mem s1 = mem"
      "vm_disk s1 = im_disk img" "vm_state s1 = Vm_running" "base_right s1"
    using image_holds_loaded [OF conjunct1 [OF assms(1)] assms(2), of True] by auto
  moreover have "im_disk img1 = im_disk img"
    using r(1) by (auto simp: fc_restore_def Let_def split: sum.splits option.splits prod.splits)
  ultimately show ?thesis using assms(1) by (simp add: fc_load_def)
qed

interpretation fc: checkpointed
  "\<lambda>s. base_right s \<and> vm_state s = Vm_running" "\<lambda>s. book_ok (vm_base s)" "\<lambda>s. (vm_mem s, vm_disk s)"
  "\<lambda>img (mem, v). image_holds img mem \<and> im_disk img = v" fc_checkpoint fc_load
  by unfold_locales (use checkpoint_holds fc_load_holds in \<open>force simp: case_prod_beta\<close>)+

text \<open>
  C3. Whatever has been written to a VM, and however often it has been booted, restored, checkpointed or
  put away, a checkpoint of it is an image of at most eight memory files, and loading that image into any
  number of sandboxes, one after another, leaves each of them running with the memory and the disk the
  guest had when it was paused. The one history left out is that since it was last booted or restored a
  checkpoint of it failed after the pages KVM saw written had been asked for; \<open>lost_diff_loses_pages\<close>
  is what the code does after that.
\<close>

theorem checkpoint_restores_memory:
  assumes "fc_reach False s" and "vm_state s = Vm_running" and "fc_checkpoint a s = (s1, Some img)"
    and "\<forall>t\<in>set ts. book_ok (vm_base t)"
  shows "(\<exists>c. chain_of (im_mem img) = Inr c \<and> length c \<le> MAX_CHAIN) \<and>
    length (fst (load_all fc_load img ts)) = length ts \<and>
    (\<forall>t\<in>set (fst (load_all fc_load img ts)). vm_state t = Vm_running \<and> vm_mem t = vm_mem s \<and> vm_disk t = vm_disk s)"
proof (intro conjI)
  have right: "base_right s \<and> vm_state s = Vm_running" using fc_reach_ok [OF assms(1)] assms(2) by (simp add: vm_ok_def)
  note img = checkpoint_holds [OF conjunct1 [OF right] assms(3)]
  obtain fs where fs: "dir_holds (im_mem img) fs" "fs \<noteq> []" "length fs \<le> MAX_CHAIN"
    using img unfolding image_holds_def by blast
  then show "\<exists>c. chain_of (im_mem img) = Inr c \<and> length c \<le> MAX_CHAIN" using chain_of_holds [OF fs(1,3)] by simp
  show "length (fst (load_all fc_load img ts)) = length ts"
    by (rule fc.load_all_holds [OF fc.snap_holds [OF right assms(3)] assms(4), THEN conjunct1])
  show "\<forall>t\<in>set (fst (load_all fc_load img ts)). vm_state t = Vm_running \<and> vm_mem t = vm_mem s \<and> vm_disk t = vm_disk s"
    using fc.forks [OF right assms(3,4)] by auto
qed

definition all_answered :: fc_answers where
  "all_answered = \<lparr>fa_paused = True, fa_vmstate = True, fa_created = True, fa_reflinked = True\<rparr>"

definition booted_vm :: vm where
  "booted_vm = \<lparr>vm_state = Vm_running, vm_mem = [1, 2], vm_disk = 7, vm_kvm = {}, vm_soft = {}, vm_marker = False, vm_base = []\<rparr>"

lemma booted_vm_reach: "fc_reach False booted_vm"
proof -
  have eq: "booted_vm = fst (fc_boot True [1, 2]
      \<lparr>vm_state = Absent, vm_mem = [], vm_disk = 7, vm_kvm = {}, vm_soft = {}, vm_marker = False, vm_base = []\<rparr>)"
    by (simp add: booted_vm_def fc_boot_def)
  show ?thesis by (subst eq) (rule fc_booted [OF fc_none])
qed

lemma map_all_same: "length xs = n \<Longrightarrow> \<forall>x\<in>set xs. f x = v \<Longrightarrow> map f xs = replicate n v"
  by (induction xs arbitrary: n) auto

text \<open>A VM that is written, branched and written again: its next image is a full one and a diff.\<close>

definition first_link :: memdir where
  "first_link = put (mem_name 0) [Some 9, Some 2] []"

definition branched_vm :: vm where
  "branched_vm = \<lparr>vm_state = Vm_running, vm_mem = [9, 5], vm_disk = 7, vm_kvm = {1}, vm_soft = {0, 1}, vm_marker = False,
     vm_base = first_link\<rparr>"

definition two_links :: image where
  "two_links = \<lparr>im_mem = put (mem_name 1) [None, Some 5] first_link, im_disk = 7, im_vmstate = True\<rparr>"

lemma first_link_holds: "dir_holds first_link [[Some 9, Some 2]]"
  using dir_holds_put [OF dir_holds_empty, of "[Some 9, Some 2]"] by (simp add: first_link_def)

lemma first_link_chain [simp]: "chain_of first_link = Inr [mem_name 0]"
  using chain_of_holds [OF first_link_holds] by (simp add: MAX_CHAIN_def)

lemma first_link_linked [simp]: "link_chain first_link [mem_name 0] [] = Some first_link"
  by (simp add: link_chain_def link_one_def first_link_def put_def keep_def)

lemma branched_vm_reach: "fc_reach False branched_vm"
proof -
  let ?s = "guest_write 0 9 booted_vm"
  let ?p = "?s\<lparr>vm_state := Vm_paused, vm_kvm := {}\<rparr>"
  let ?img = "\<lparr>im_mem = first_link, im_disk = 7, im_vmstate = True\<rparr>"
  have "fc_reach False ?s" by (rule fc_wrote [OF booted_vm_reach])
  moreover have "vm_state ?s = Vm_running" by (simp add: booted_vm_def guest_write_def)
  moreover have "fc_checkpoint all_answered ?s = (?p, Some ?img)"
    by (simp add: fc_checkpoint_def checkpoint_body_def all_answered_def booted_vm_def guest_write_def chain_of_def
        List.map_filter_def next_kind_def snapshot_create_def first_link_def)
  ultimately have "fc_reach False (fst (fc_resume_after True ?img ?p))" by (rule fc_branched)
  from fc_wrote [OF this, of 1 5] have "fc_reach False (guest_write 1 5 (fst (fc_resume_after True ?img ?p)))" .
  moreover have "guest_write 1 5 (fst (fc_resume_after True ?img ?p)) = branched_vm"
    by (simp add: fc_resume_after_def booted_vm_def guest_write_def branched_vm_def insert_commute)
  ultimately show ?thesis by simp
qed

lemma branched_vm_checkpoint:
  "fc_checkpoint all_answered branched_vm = (branched_vm\<lparr>vm_state := Vm_paused, vm_kvm := {}\<rparr>, Some two_links)"
  by (simp add: fc_checkpoint_def checkpoint_body_def all_answered_def branched_vm_def next_kind_def snapshot_create_def
      two_links_def MAX_CHAIN_def)

lemma checkpoint_restores_memory_witness:
  "fc_checkpoint all_answered branched_vm = (branched_vm\<lparr>vm_state := Vm_paused, vm_kvm := {}\<rparr>, Some two_links) \<and>
   map vm_mem (fst (load_all fc_load two_links [booted_vm, branched_vm])) = [[9, 5], [9, 5]]"
proof -
  let ?ts = "fst (load_all fc_load two_links [booted_vm, branched_vm])"
  have run: "vm_state branched_vm = Vm_running" and ok: "\<forall>t\<in>set [booted_vm, branched_vm]. book_ok (vm_base t)"
    by (simp_all add: booted_vm_def branched_vm_def first_link_def)
  note all = checkpoint_restores_memory [OF branched_vm_reach run branched_vm_checkpoint ok]
  have "map vm_mem ?ts = replicate (length [booted_vm, branched_vm]) (vm_mem branched_vm)"
    by (rule map_all_same) (use all in blast)+
  also have "\<dots> = [[9, 5], [9, 5]]" by (simp add: branched_vm_def)
  finally show ?thesis using branched_vm_checkpoint by simp
qed

section \<open>A diff that is taken and lost\<close>

text \<open>
  Taking a diff of a VM that KVM tracks clears what KVM remembers. When the disk cannot be reflinked
  after that, the image is given up and the VM goes on over its old base: the next checkpoint succeeds
  and holds the memory of that base, not the guest's.
\<close>

lemma lost_diff_loses_pages:
  assumes d: "dir_holds (vm_base s) fs" and ne: "fs \<noteq> []" and room: "length fs < MAX_CHAIN"
    and len: "\<forall>m\<in>set fs. length m = length (vm_mem s)" and kvm: "\<not> vm_marker s" and ok: "book_ok (vm_base s)"
  shows "\<exists>s1 s2 img. fc_checkpoint (all_answered\<lparr>fa_reflinked := False\<rparr>) s = (s1, None) \<and> vm_state s1 = Vm_running \<and>
    vm_mem s1 = vm_mem s \<and> fc_checkpoint all_answered s1 = (s2, Some img) \<and> image_holds img (read_pages (overlay fs))"
proof -
  have chain: "(case chain_of (vm_base s) of Inr c \<Rightarrow> c | Inl _ \<Rightarrow> []) = map mem_name [0..<length fs]"
    using chain_of_holds [OF d] ne room by simp
  have kind: "next_kind (map mem_name [0..<length fs]) = (Diff, length fs)" using ne room by (simp add: next_kind_def)
  obtain dir where dir: "link_chain (vm_base s) (map mem_name [0..<length fs]) [] = Some dir" "dir_holds dir fs"
      "\<And>n. \<not> starts_with n ''mem.'' \<Longrightarrow> map_of dir n = map_of [] n"
    using link_chain_holds [OF d, of "[]"] by auto
  let ?s1 = "s\<lparr>vm_state := Vm_running, vm_kvm := {}\<rparr>"
  let ?m = "map (\<lambda>i. if i \<in> ({} :: nat set) then Some (read_pages (overlay fs) ! i) else None) [0..<length (read_pages (overlay fs))]"
  have l: "length (read_pages (overlay fs)) = length (vm_mem s)"
    using length_overlay [OF ne len] by (simp add: read_pages_def)
  have none: "map_of dir n = None" if "\<not> starts_with n ''mem.''" for n using dir(3) [OF that] by simp
  have "fc_checkpoint (all_answered\<lparr>fa_reflinked := False\<rparr>) s = (?s1, None)"
    using chain kind dir(1) kvm
    by (simp add: fc_checkpoint_def checkpoint_body_def all_answered_def snapshot_create_def)
  moreover have "fc_checkpoint all_answered ?s1 = (s\<lparr>vm_state := Vm_paused, vm_kvm := {}\<rparr>,
      Some \<lparr>im_mem = put (mem_name (length fs)) ?m dir, im_disk = vm_disk s, im_vmstate = True\<rparr>)"
    using chain kind dir(1) kvm l
    by (simp add: fc_checkpoint_def checkpoint_body_def all_answered_def snapshot_create_def)
  moreover have "image_holds \<lparr>im_mem = put (mem_name (length fs)) ?m dir, im_disk = vm_disk s, im_vmstate = True\<rparr>
      (read_pages (overlay fs))"
    by (rule diff_image [OF dir(2) none ne room, where W = "{}"]) (use len l in simp_all)
  ultimately show ?thesis by fastforce
qed

text \<open>The command line of a guest fits what the kernel reads.\<close>

lemma boot_args_fit: "boot_args app net serial = Some s \<Longrightarrow> length s < CMDLINE_MAX"
  by (auto simp: boot_args_def Let_def split: if_splits)

end
