(* ===== verification/Listen.thy ===== *)
theory Listen
  imports System Handlers
begin

text \<open>
  A node that listens: \<^verbatim>\<open>master/drive.rs\<close>, the task of the master that drives it, and
  \<^verbatim>\<open>node/agent.rs\<close>, the node's answers, with the pinning of certificates from \<^verbatim>\<open>tls.rs\<close>.
  Making keys and certificates, the fingerprint of a PEM file and the text of a status are
  parameters. A turn of the driver ends in a wait or in the next batch; the wait ends when the node's
  waker fires or the time is over, which is for the environment to say. Properties: a driven node gets
  what a polling one would and does with it what a polling one would, and a pairing code is kept and
  opens its own node only.
\<close>

section \<open>The driver\<close>

definition REFRESH :: millis where "REFRESH = from_secs 5"
definition SYNC_BASE :: millis where "SYNC_BASE = from_secs 60"
definition DRIVE_BACKOFF_MIN :: millis where "DRIVE_BACKOFF_MIN = 250"
definition DRIVE_BACKOFF_MAX :: millis where "DRIVE_BACKOFF_MAX = from_secs 15"

definition sync_timeout :: "command list option \<Rightarrow> millis" where
  "sync_timeout batch =
     SYNC_BASE + from_secs (sum_list (map (\<lambda>c. case c of Exec _ _ _ secs \<Rightarrow> secs | _ \<Rightarrow> 0)
       (case batch of None \<Rightarrow> [] | Some cs \<Rightarrow> cs)))"

record sync_response =
  sr_report :: poll_request
  sr_results :: "command_result list"
  sr_retry_in_ms :: "nat option"

record driver =
  dv_batch :: "command list option"
  dv_backoff :: millis
  dv_up :: bool

definition new_driver :: driver where
  "new_driver = \<lparr>dv_batch = None, dv_backoff = DRIVE_BACKOFF_MIN, dv_up = False\<rparr>"

definition next_batch :: "codec \<Rightarrow> crypto \<Rightarrow> secs \<Rightarrow> poll_request \<Rightarrow> master \<Rightarrow> master \<times> command list" where
  "next_batch cj cr now report ms =
     (let (ms1, cmds) = diff cj cr now report ms;
          (ms2, execs) = take_execs (pr_node_id report) ms1
      in (ms2, cmds @ execs))"

definition same_batch :: "command list \<Rightarrow> command list \<Rightarrow> bool" where
  "same_batch a b \<longleftrightarrow> length a = length b \<and> a = b"

definition batch_of :: "command list \<Rightarrow> command list option" where
  "batch_of cs = (if cs = [] then None else Some cs)"

text \<open>A sync that failed: the node is down, the batch is gone, and the driver sleeps.\<close>

definition drive_lost :: "secs \<Rightarrow> string \<Rightarrow> driver \<Rightarrow> master \<Rightarrow> master \<times> driver \<times> millis" where
  "drive_lost now n dv ms =
     (on_store (set_node_connected now n False) ms,
      \<lparr>dv_batch = None, dv_backoff = min (dv_backoff dv * 2) DRIVE_BACKOFF_MAX, dv_up = False\<rparr>, dv_backoff dv)"

datatype turn = SendNow driver | WaitThen millis driver

text \<open>
  A sync that was answered, up to the wait. The batch of a driver that waits is what it would have sent
  otherwise: \<open>drive_waited\<close> replaces it.
\<close>

definition drive_answered :: "codec \<Rightarrow> crypto \<Rightarrow> secs \<Rightarrow> instant \<Rightarrow> string \<Rightarrow> sync_response \<Rightarrow> driver \<Rightarrow> master \<Rightarrow> master \<times> turn" where
  "drive_answered cj cr now t n resp dv ms =
     (let ms1 = fold (\<lambda>r m. fst (deliver_result r m)) (sr_results resp) ms;
          report = (sr_report resp)\<lparr>pr_node_id := n\<rparr>;
          ms2 = on_store (record_failures report) ms1;
          ms3 = apply_traffic now t report ms2;
          ms4 = on_store (apply_evictions report) ms3;
          (ms5, cmds) = next_batch cj cr now report ms4;
          nothing_new = (cmds = [] \<or> (case dv_batch dv of None \<Rightarrow> False | Some s \<Rightarrow> same_batch s cmds));
          dv' = \<lparr>dv_batch = batch_of cmds, dv_backoff = DRIVE_BACKOFF_MIN, dv_up = True\<rparr>
      in (ms5, if nothing_new
               then WaitThen (case sr_retry_in_ms resp of None \<Rightarrow> REFRESH | Some d \<Rightarrow> min d REFRESH) dv'
               else SendNow dv'))"

text \<open>After the wait the difference is taken again, from the same report.\<close>

definition drive_waited :: "codec \<Rightarrow> crypto \<Rightarrow> secs \<Rightarrow> string \<Rightarrow> sync_response \<Rightarrow> driver \<Rightarrow> master \<Rightarrow> master \<times> driver" where
  "drive_waited cj cr now n resp dv ms =
     (let (ms1, cmds) = next_batch cj cr now ((sr_report resp)\<lparr>pr_node_id := n\<rparr>) ms
      in (ms1, dv\<lparr>dv_batch := batch_of cmds\<rparr>))"

text \<open>First contact: what the answer to \<^verbatim>\<open>/v1/agent/hello\<close> is read as.\<close>

definition hello_reads :: "(nat \<Rightarrow> string) \<Rightarrow> string \<Rightarrow> string + nat \<times> string \<times> agent_hello option \<Rightarrow> string + agent_hello" where
  "hello_reads status_text address ans =
     (case ans of
        Inl e \<Rightarrow> Inl (''connecting to https://'' @ address @ '': '' @ e)
      | Inr (status, body, about) \<Rightarrow>
          if status = 401 then Inl ''the node refused the secret: this pairing code is not this node's''
          else if \<not> (200 \<le> status \<and> status < 300) then Inl (''the node answered '' @ status_text status @ '': '' @ body)
          else case about of None \<Rightarrow> Inl ''error decoding response body'' | Some a \<Rightarrow> Inr a)"

section \<open>The node's answers\<close>

definition agent_authorised :: "string \<Rightarrow> string option \<Rightarrow> bool" where
  "agent_authorised secret header =
     (let got = (case header of None \<Rightarrow> [] | Some h \<Rightarrow> strip_prefix_or_empty ''Bearer '' h)
      in length got = length secret \<and> ct_eq got secret)"

text \<open>What \<^verbatim>\<open>bearer_auth\<close> of the HTTP client sends.\<close>

definition bearer_auth :: "string \<Rightarrow> string" where
  "bearer_auth s = ''Bearer '' @ s"

definition agent_unauthorised :: api_err where
  "agent_unauthorised = err 401 ''this node needs the secret half of its pairing code''"

definition agent_hello_for :: "string \<Rightarrow> agent_hello \<Rightarrow> string option \<Rightarrow> api_err + agent_hello" where
  "agent_hello_for secret about header = (if agent_authorised secret header then Inr about else Inl agent_unauthorised)"

definition sooner :: "millis option \<Rightarrow> millis \<Rightarrow> millis option" where
  "sooner a b = Some (case a of None \<Rightarrow> b | Some x \<Rightarrow> min x b)"

fun sync_steps :: "step_result list \<Rightarrow> millis option \<Rightarrow> millis option \<times> command_result list" where
  "sync_steps [] soonest = (soonest, [])"
| "sync_steps (StepDone # ss) soonest = sync_steps ss soonest"
| "sync_steps (StepLater wait # ss) soonest = sync_steps ss (sooner soonest wait)"
| "sync_steps (StepAnswered r # ss) soonest = map_prod id (Cons r) (sync_steps ss soonest)"

fun sync_groups :: "node_cfg \<Rightarrow> (nat \<Rightarrow> nat \<Rightarrow> ('d, 'm) world) \<Rightarrow> instant \<Rightarrow> nat \<Rightarrow> command list list \<Rightarrow> millis option
    \<Rightarrow> ('d, 'm) node_state \<Rightarrow> ('d, 'm) node_state \<times> millis option \<times> command_result list" where
  "sync_groups cfg ws now n [] soonest ns = (ns, soonest, [])"
| "sync_groups cfg ws now n (g # gs) soonest ns =
     (let (ns1, ss) = run_group cfg (ws n) now 0 g ns;
          (soonest1, rs) = sync_steps ss soonest;
          (ns2, soonest2, rs') = sync_groups cfg ws now (Suc n) gs soonest1 ns1
      in (ns2, soonest2, rs @ rs'))"

text \<open>The part of \<^verbatim>\<open>sync\<close> before its report.\<close>

definition sync_batch :: "node_cfg \<Rightarrow> (nat \<Rightarrow> nat \<Rightarrow> ('d, 'm) world) \<Rightarrow> instant \<Rightarrow> command list option \<Rightarrow> ('d, 'm) node_state
    \<Rightarrow> ('d, 'm) node_state \<times> millis option \<times> command_result list" where
  "sync_batch cfg ws now batch ns =
     (case batch of
        Some cs \<Rightarrow>
          (let (ns1, soonest, rs) = sync_groups cfg ws now 0 (groups cs) None ns
           in (ns1\<lparr>ns_failing := keep (\<lambda>i _. i \<in> command_id ` set cs) (ns_failing ns1)\<rparr>, soonest, rs))
      | None \<Rightarrow>
          (ns, fold (\<lambda>(_, f) s. if fl_retry_at f > now then sooner s (fl_retry_at f - now) else s) (ns_failing ns) None, []))"

text \<open>\<^verbatim>\<open>report\<close>: what the host says of itself is \<open>host_says\<close>, the listeners are in \<open>Listeners\<close>.\<close>

record host_says =
  hs_node_id :: string
  hs_free_mib :: nat
  hs_psi :: real
  hs_features :: "string list"
  hs_tags :: "string list"
  hs_host :: host_info
  hs_fingerprint :: string
  hs_templates :: "string list"
  hs_pulls :: "template_pull list"

definition node_report :: "(node_error \<Rightarrow> string) \<Rightarrow> ('d, 'm) world \<Rightarrow> host_says \<Rightarrow> nat option \<Rightarrow> ('d, 'm) node_state
    \<Rightarrow> ('d, 'm) node_state \<times> poll_request" where
  "node_report says w hs holding ns =
     (let ns1 = settle_all w (reap_all w ns);
          observed = observe ns1;
          (wk1, seen) = take_traffic (w_t w) (ns_wake ns1);
          (wk2, gone) = recently_evicted (w_t w) wk1
      in (ns1\<lparr>ns_wake := wk2\<rparr>,
          \<lparr>pr_node_id = hs_node_id hs, pr_observed = observed, free_memory_mib = hs_free_mib hs,
           pressure_some_avg10 = hs_psi hs, hold_ms = holding, failures = failures_of says ns1, pr_deferred = [],
           traffic = seen, evicted = gone, features = hs_features hs, pr_tags = hs_tags hs,
           pr_host = Some (hs_host hs), pr_fingerprint = Some (hs_fingerprint hs),
           pr_templates = Some (hs_templates hs), pulls = hs_pulls hs\<rparr>))"

text \<open>One turn of \<^verbatim>\<open>report_wakes\<close>: the use told at once, of a node that polls.\<close>

definition early_report :: "('d, 'm) world \<Rightarrow> host_says \<Rightarrow> ('d, 'm) node_state \<Rightarrow> ('d, 'm) node_state \<times> poll_request" where
  "early_report w hs ns =
     (let (wk1, seen) = take_traffic (w_t w) (ns_wake ns);
          (wk2, gone) = recently_evicted (w_t w) wk1
      in (ns\<lparr>ns_wake := wk2\<rparr>,
          \<lparr>pr_node_id = hs_node_id hs, pr_observed = observe ns, free_memory_mib = hs_free_mib hs,
           pressure_some_avg10 = hs_psi hs, hold_ms = None, failures = [], pr_deferred = [],
           traffic = seen, evicted = gone, features = [], pr_tags = [], pr_host = None,
           pr_fingerprint = None, pr_templates = None, pulls = []\<rparr>))"

definition agent_sync :: "string \<Rightarrow> node_cfg \<Rightarrow> (nat \<Rightarrow> nat \<Rightarrow> ('d, 'm) world) \<Rightarrow> instant \<Rightarrow> (node_error \<Rightarrow> string) \<Rightarrow> ('d, 'm) world
    \<Rightarrow> host_says \<Rightarrow> string option \<Rightarrow> command list option \<Rightarrow> ('d, 'm) node_state \<Rightarrow> ('d, 'm) node_state \<times> (api_err + sync_response)" where
  "agent_sync secret cfg ws now says w hs header batch ns =
     (if \<not> agent_authorised secret header then (ns, Inl agent_unauthorised)
      else let (ns1, soonest, rs) = sync_batch cfg ws now batch ns;
               (ns2, report) = node_report says w hs None ns1
           in (ns2, Inr \<lparr>sr_report = report, sr_results = rs, sr_retry_in_ms = soonest\<rparr>))"

section \<open>Driven like polled\<close>

lemma next_batch_is_answer: "pr_deferred report = [] \<Longrightarrow> next_batch cj cr now report ms = answer cj cr now report 0 ms"
  by (simp add: next_batch_def answer_def leave_out_deferred_def split: prod.split)

lemma drive_answered_is_poll:
  assumes "sr_results resp = []" "pr_deferred (sr_report resp) = []" "authorises who n"
    and "drive_answered cj cr now t n resp dv ms = (ms', tn)"
  shows "\<exists>cmds. poll cj cr who None now t ((sr_report resp)\<lparr>pr_node_id := n\<rparr>) ms =
      (ms', Inr (if cmds \<noteq> [] then Answer cmds else Park (min (case hold_ms (sr_report resp) of Some h \<Rightarrow> h | None \<Rightarrow> 25000) 55000))) \<and>
    dv_batch (case tn of SendNow d \<Rightarrow> d | WaitThen _ d \<Rightarrow> d) = batch_of cmds"
proof -
  let ?r = "(sr_report resp)\<lparr>pr_node_id := n\<rparr>"
  let ?ms = "on_store (apply_evictions ?r) (apply_traffic now t ?r (on_store (record_failures ?r) ms))"
  obtain ms5 cmds where d: "next_batch cj cr now ?r ?ms = (ms5, cmds)" by fastforce
  then have a: "answer cj cr now ?r 0 ?ms = (ms5, cmds)" using next_batch_is_answer [of ?r] assms(2) by simp
  have "poll cj cr who None now t ?r ms =
      (ms5, Inr (if cmds \<noteq> [] then Answer cmds else Park (min (case hold_ms (sr_report resp) of Some h \<Rightarrow> h | None \<Rightarrow> 25000) 55000)))"
    using assms(3) by (simp add: poll_def Let_def a)
  moreover have "ms' = ms5" "dv_batch (case tn of SendNow d \<Rightarrow> d | WaitThen _ d \<Rightarrow> d) = batch_of cmds"
    using assms(4) unfolding drive_answered_def Let_def assms(1) fold.simps id_apply d prod.case by auto
  ultimately show ?thesis by blast
qed

lemma drive_answered_never_repeats:
  assumes "drive_answered cj cr now t n resp dv ms = (ms', SendNow dv')"
  shows "dv_batch dv' \<noteq> None \<and> dv_batch dv' \<noteq> dv_batch dv"
  using assms by (auto simp: drive_answered_def Let_def batch_of_def same_batch_def split: prod.splits if_splits option.splits)

lemma drive_wait_bounded:
  assumes "drive_answered cj cr now t n resp dv ms = (ms', WaitThen d dv')"
  shows "d \<le> REFRESH"
  using assms by (auto simp: drive_answered_def Let_def split: prod.splits if_splits option.splits)

lemma drive_backoff:
  "dv_backoff (((\<lambda>dv. fst (snd (drive_lost now n dv ms))) ^^ k) new_driver) = min (DRIVE_BACKOFF_MIN * 2 ^ k) DRIVE_BACKOFF_MAX"
  by (induction k) (auto simp: drive_lost_def new_driver_def DRIVE_BACKOFF_MIN_def DRIVE_BACKOFF_MAX_def from_secs_def)

section \<open>The node's side of it\<close>

definition with_deferred :: "(string, instant) book \<Rightarrow> ('d, 'm) node_state \<Rightarrow> ('d, 'm) node_state" where
  "with_deferred d ns = ns\<lparr>ns_deferred := d\<rparr>"

lemma with_deferred_sel [simp]:
  "ns_sandboxes (with_deferred d ns) = ns_sandboxes ns" "ns_egress (with_deferred d ns) = ns_egress ns"
  "ns_wake (with_deferred d ns) = ns_wake ns" "ns_starting (with_deferred d ns) = ns_starting ns"
  "ns_failing (with_deferred d ns) = ns_failing ns" "ns_destroying (with_deferred d ns) = ns_destroying ns"
  "ns_jobs (with_deferred d ns) = ns_jobs ns" "ns_tags (with_deferred d ns) = ns_tags ns"
  "ns_pulls (with_deferred d ns) = ns_pulls ns" "ns_switching (with_deferred d ns) = ns_switching ns"
  "at_node (with_deferred d ns) i = at_node ns i" "ns_deferred (with_deferred d ns) = d"
  by (simp_all add: with_deferred_def at_node_def)

lemma observe_deferred [simp]: "observe (with_deferred d ns) = observe ns"
  by (simp add: observe_def cong: if_cong)

lemma map_prod_apfst: "map_prod id g (apfst f p) = apfst f (map_prod id g p)"
  by (cases p) simp

lemma with_deferred_upd [simp]:
  "put_node i l (with_deferred d ns) = with_deferred d (put_node i l ns)"
  "on_wake f (with_deferred d ns) = with_deferred d (on_wake f ns)"
  "run_active i (with_deferred d ns) = with_deferred d (run_active i ns)"
  "apply_destroy i n k (with_deferred d ns) = with_deferred d (apply_destroy i n k ns)"
  "(with_deferred d ns)\<lparr>ns_wake := wk\<rparr> = with_deferred d (ns\<lparr>ns_wake := wk\<rparr>)"
  "(with_deferred d ns)\<lparr>ns_starting := s\<rparr> = with_deferred d (ns\<lparr>ns_starting := s\<rparr>)"
  "(with_deferred d ns)\<lparr>ns_egress := e\<rparr> = with_deferred d (ns\<lparr>ns_egress := e\<rparr>)"
  "(with_deferred d ns)\<lparr>ns_failing := b\<rparr> = with_deferred d (ns\<lparr>ns_failing := b\<rparr>)"
  "(with_deferred d ns)\<lparr>ns_tags := ts\<rparr> = with_deferred d (ns\<lparr>ns_tags := ts\<rparr>)"
  "(with_deferred d ns)\<lparr>ns_pulls := ps\<rparr> = with_deferred d (ns\<lparr>ns_pulls := ps\<rparr>)"
  "(with_deferred d ns)\<lparr>ns_switching := b'\<rparr> = with_deferred d (ns\<lparr>ns_switching := b'\<rparr>)"
  "with_deferred d (with_deferred d' ns) = with_deferred d ns"
  by (simp_all add: with_deferred_def put_node_def on_wake_def run_active_def apply_destroy_def)

lemma try_victims_deferred:
  "try_victims w vs (with_deferred d ns) = apfst (with_deferred d) (try_victims w vs ns)"
  by (induction vs arbitrary: ns) (auto simp: Let_def split: prod.split sum.split)

lemma set_tier_at_deferred:
  "set_tier_at w i t (with_deferred d ns) = apfst (with_deferred d) (set_tier_at w i t ns)"
  by (auto simp: set_tier_at_def split: prod.split sum.split)

lemma promote_loop_deferred:
  "promote_loop mf mp w i dl k now gone (with_deferred d ns) = apfst (with_deferred d) (promote_loop mf mp w i dl k now gone ns)"
proof (induction mf mp w i dl k now gone ns rule: promote_loop.induct)
  case (1 mf mp w i dl k now gone ns)
  have ev: "evict_one w i (with_deferred d ns) = apfst (with_deferred d) (evict_one w i ns)"
    by (simp add: evict_one_def try_victims_deferred)
  show ?case
  proof (cases "holding_back_at mf mp (SetTier i Hot) (w_reading w k)")
    case None
    then show ?thesis
      by (subst (1 2) promote_loop.simps) (auto simp: set_tier_at_deferred Let_def split: prod.split)
  next
    case (Some why)
    define under where "under = (short_of mf (w_reading w k) \<noteq> None)"
    obtain ns1 made where e: "(if under \<and> gone < MAX_EVICTIONS then evict_one w i ns else (ns, False)) = (ns1, made)" by fastforce
    then have e': "(if under \<and> gone < MAX_EVICTIONS then evict_one w i (with_deferred d ns) else (with_deferred d ns, False)) =
        (with_deferred d ns1, made)" by (auto simp: ev split: if_splits)
    note ih = 1 [OF refl Some under_def e [symmetric] refl]
    show ?thesis
      unfolding promote_loop.simps [of mf mp w i dl k now gone] Let_def Some option.case under_def [symmetric] e e' prod.case
      using ih by simp
  qed
qed

lemma promote_deferred:
  "promote mf mp w i p (with_deferred d ns) = apfst (with_deferred d) (promote mf mp w i p ns)"
  by (auto simp: promote_def promote_loop_deferred set_tier_at_deferred split: prod.split)

lemma apply_locked_deferred:
  "apply_locked cfg w c l (with_deferred d ns) = apfst (with_deferred d) (apply_locked cfg w c l ns)"
proof -
  have create: "apply_create w k (with_deferred d ns) = apfst (with_deferred d) (apply_create w k ns)" for k ns
    by (auto simp: apply_create_def split: image_status.split prod.split sum.split)
  have egress: "set_egress_at w i e (with_deferred d ns) = apfst (with_deferred d) (set_egress_at w i e ns)" for i e ns
    by (auto simp: set_egress_at_def)
  show ?thesis
    by (auto simp: apply_locked_def create egress promote_deferred set_tier_at_deferred Let_def
        map_prod_apfst split: command.split tier.split prod.split option.split)
qed

lemma run_locked_deferred:
  "run_locked cfg w now c (with_deferred d ns) = apfst (with_deferred d) (run_locked cfg w now c ns)"
proof -
  have ok: "note_success w c (with_deferred d ns) = with_deferred d (note_success w c ns)" for ns
    by (auto simp: note_success_def Let_def split: command.split)
  have no: "note_failure i now e (with_deferred d ns) = apfst (with_deferred d) (note_failure i now e ns)" for i e ns
    by (auto simp: note_failure_def Let_def)
  have off: "put_off w c (with_deferred d ns) = put_off w c ns" for ns by (cases c) (simp_all add: put_off_def)
  show ?thesis
    by (auto simp: run_locked_def off apply_locked_deferred ok no Let_def split: prod.split option.split outcome.split command.split)
qed

lemma run_one_deferred:
  "run_one cfg w now c (with_deferred d ns) = apfst (with_deferred d) (run_one cfg w now c ns)"
proof -
  have sw: "switch_backend cfg w b (with_deferred d ns) = apfst (with_deferred d) (switch_backend cfg w b ns)" for b
    by (auto simp: switch_backend_def prepare_switch_def bundles_def split: sum.split)
  show ?thesis
    by (auto simp: run_one_def run_locked_deferred sw Let_def split: option.split command.split prod.split sum.split)
qed

lemma run_group_deferred:
  "run_group cfg ws now k cs (with_deferred d ns) = apfst (with_deferred d) (run_group cfg ws now k cs ns)"
  by (induction cs arbitrary: k ns) (auto simp: run_one_deferred split: prod.split)

lemma run_group_length: "run_group cfg ws now k cs ns = (ns', ss) \<Longrightarrow> length ss = length cs"
  by (induction cs arbitrary: k ns ss) (auto split: prod.splits)

lemma note_steps_deferred:
  fixes ns :: "('d, 'm) node_state"
  shows "length ss = length cs \<Longrightarrow>
   \<exists>d. fst (note_steps now (zip cs ss) ns) = with_deferred d ns \<and> fst ` set d \<subseteq> fst ` set (ns_deferred ns) \<union> command_id ` set cs"
proof (induction cs ss arbitrary: ns rule: list_induct2')
  case 1
  then show ?case by (intro exI [of _ "ns_deferred ns"]) (simp add: with_deferred_def)
next
  case (4 c cs s ss)
  then have ih: "\<exists>d. fst (note_steps now (zip cs ss) ns) = with_deferred d ns \<and> fst ` set d \<subseteq> fst ` set (ns_deferred ns) \<union> command_id ` set cs"
    for ns :: "('d, 'm) node_state"
    by simp
  show ?case
  proof (cases s)
    case (StepLater wait)
    let ?ns = "ns\<lparr>ns_deferred := put (command_id c) (now + wait) (ns_deferred ns)\<rparr>"
    obtain d where "fst (note_steps now (zip cs ss) ?ns) = with_deferred d ?ns"
        "fst ` set d \<subseteq> fst ` set (ns_deferred ?ns) \<union> command_id ` set cs"
      using ih [of ?ns] by blast
    then show ?thesis using StepLater by (intro exI [of _ d]) (auto simp: with_deferred_def put_def)
  next
    case StepDone
    then show ?thesis using ih [of ns] by (simp add: image_Un) blast
  next
    case (StepAnswered r)
    then show ?thesis using ih [of ns] by (simp add: image_Un) blast
  qed
qed simp_all

lemma answers_alike:
  "length ss = length cs \<Longrightarrow> snd (note_steps now (zip cs ss) ns) = snd (sync_steps ss soonest)"
proof (induction cs ss arbitrary: ns soonest rule: list_induct2')
  case (4 c cs s ss)
  then show ?case by (cases s) simp_all
qed simp_all

lemma sync_groups_like_run_groups:
  assumes "run_groups cfg ws now n gs (with_deferred d ns) = (a, rs)" "sync_groups cfg ws now n gs soonest ns = (b, soonest', rs')"
  shows "rs' = rs \<and> (\<exists>d'. a = with_deferred d' b \<and> fst ` set d' \<subseteq> fst ` set d \<union> command_id ` set (concat gs)) \<and> ns_deferred b = ns_deferred ns"
  using assms
proof (induction gs arbitrary: n d ns soonest rs rs')
  case Nil
  then show ?case by auto
next
  case (Cons g gs)
  obtain ns1 ss where g: "run_group cfg (ws n) now 0 g ns = (ns1, ss)" by fastforce
  have len: "length ss = length g" by (rule run_group_length [OF g])
  have kept: "with_deferred (ns_deferred ns) ns1 = ns1"
    using run_group_deferred [of cfg "ws n" now 0 g "ns_deferred ns" ns] g by (simp add: with_deferred_def)
  have ns1: "ns_deferred ns1 = ns_deferred ns" using arg_cong [OF kept, of ns_deferred] by simp
  obtain d1 where d1: "fst (note_steps now (zip g ss) (with_deferred d ns1)) = with_deferred d1 ns1"
      "fst ` set d1 \<subseteq> fst ` set d \<union> command_id ` set g"
    using note_steps_deferred [OF len, of now "with_deferred d ns1"] by auto
  let ?r = "snd (note_steps now (zip g ss) (with_deferred d ns1))"
  have n: "note_steps now (zip g ss) (with_deferred d ns1) = (with_deferred d1 ns1, ?r)"
    using d1(1) by (simp add: prod_eq_iff)
  have s: "sync_steps ss soonest = (fst (sync_steps ss soonest), ?r)"
    using answers_alike [OF len, of now "with_deferred d ns1" soonest] by (simp add: prod_eq_iff)
  obtain rs1 where r: "run_groups cfg ws now (Suc n) gs (with_deferred d1 ns1) = (a, rs1)" "rs = ?r @ rs1"
    using Cons.prems(1) by (subst (asm) run_groups.simps, subst (asm) run_group_deferred, simp add: g, subst (asm) n, auto split: prod.splits)
  obtain rs2 where r': "sync_groups cfg ws now (Suc n) gs (fst (sync_steps ss soonest)) ns1 = (b, soonest', rs2)" "rs' = ?r @ rs2"
    using Cons.prems(2) by (subst (asm) sync_groups.simps, simp add: g, subst (asm) s, auto split: prod.splits)
  obtain d' where d': "rs2 = rs1" "a = with_deferred d' b" "fst ` set d' \<subseteq> fst ` set d1 \<union> command_id ` set (concat gs)"
      "ns_deferred b = ns_deferred ns1"
    using Cons.IH [OF r(1) r'(1)] by blast
  have "fst ` set d' \<subseteq> fst ` set d \<union> command_id ` set (concat (g # gs))" using d'(3) d1(2) by (simp add: image_Un) blast
  then show ?case using d' r(2) r'(2) ns1 by (intro conjI exI [of _ d']) simp_all
qed

lemma sync_batch_like_take_answer:
  assumes "ns_deferred ns = []" "take_answer cfg ws now cs ns = (a, rs)" "sync_batch cfg ws now (Some cs) ns = (b, soonest, rs')"
  shows "rs' = rs \<and> b = with_deferred [] a"
proof -
  have ns: "with_deferred [] ns = ns" using assms(1) by (simp add: with_deferred_def)
  obtain a0 where a0: "run_groups cfg ws now 0 (groups cs) (with_deferred [] ns) = (a0, rs)"
      "a = a0\<lparr>ns_failing := keep (\<lambda>i _. i \<in> command_id ` set cs \<or> map_of (ns_deferred a0) i \<noteq> None) (ns_failing a0)\<rparr>"
    using assms(2) by (auto simp: take_answer_def ns split: prod.splits)
  obtain b0 where b0: "sync_groups cfg ws now 0 (groups cs) None ns = (b0, soonest, rs')"
      "b = b0\<lparr>ns_failing := keep (\<lambda>i _. i \<in> command_id ` set cs) (ns_failing b0)\<rparr>"
    using assms(3) by (auto simp: sync_batch_def split: prod.splits)
  obtain d' where d: "rs' = rs" "a0 = with_deferred d' b0" "fst ` set d' \<subseteq> command_id ` set cs" "ns_deferred b0 = []"
    using sync_groups_like_run_groups [OF a0(1) b0(1)] assms(1) by (auto simp: concat_groups)
  have "map_of d' i \<noteq> None \<longrightarrow> i \<in> command_id ` set cs" for i using d(3) map_of_eq_None_iff [of d' i] by auto
  then have keep: "keep (\<lambda>i _. i \<in> command_id ` set cs \<or> map_of d' i \<noteq> None) fb = keep (\<lambda>i _. i \<in> command_id ` set cs) fb" for fb :: "(string, failing) book"
    by (metis)
  have "ns_deferred a0 = d'" by (simp add: d(2) with_deferred_def)
  then show ?thesis unfolding a0(2) b0(2) using d keep by (simp add: with_deferred_def)
qed

text \<open>
  C32. A node that listens and one that polls cannot drift apart. What the driver makes of a node's answer
  is what a poll with that report, under the node's own name whatever the report says, does to the
  master and gives to the node; and the node does with a batch it is sent what it would with the same
  answer to a poll: the same state, but for the book of waits a polling node keeps, and the same results.
\<close>

theorem driven_like_polled:
  assumes "drive_answered cj cr now t n resp dv ms = (ms', tn)" "pr_deferred (sr_report resp) = []" "authorises who n"
    and "ns_deferred ns = []"
  shows "\<exists>cmds. poll cj cr who None now t ((sr_report resp)\<lparr>pr_node_id := n\<rparr>) (fold (\<lambda>r m. fst (deliver_result r m)) (sr_results resp) ms) =
        (ms', Inr (if cmds \<noteq> [] then Answer cmds else Park (min (case hold_ms (sr_report resp) of Some h \<Rightarrow> h | None \<Rightarrow> 25000) 55000))) \<and>
      dv_batch (case tn of SendNow d \<Rightarrow> d | WaitThen _ d \<Rightarrow> d) = batch_of cmds \<and>
      (\<forall>a rs b soonest rs'. take_answer cfg ws t' cmds ns = (a, rs) \<longrightarrow> sync_batch cfg ws t' (Some cmds) ns = (b, soonest, rs') \<longrightarrow>
         rs' = rs \<and> b = with_deferred [] a)"
proof -
  let ?ms = "fold (\<lambda>r m. fst (deliver_result r m)) (sr_results resp) ms"
  have "drive_answered cj cr now t n (resp\<lparr>sr_results := []\<rparr>) dv ?ms = (ms', tn)"
    using assms(1) by (simp add: drive_answered_def cong: if_cong)
  from drive_answered_is_poll [OF _ _ assms(3) this] assms(2) sync_batch_like_take_answer [OF assms(4), of cfg ws t']
  show ?thesis by auto
qed

section \<open>Use that is told once\<close>

lemma unreported_kept:
  fixes ns :: "('d, 'm) node_state"
  assumes none: "wk_unreported (ns_wake ns) = []"
  shows "wk_unreported (ns_wake (reap_all w ns)) = [] \<and> wk_unreported (ns_wake (settle_all w ns)) = []"
proof -
  have on: "wk_unreported (fst (lock i wk)) = wk_unreported wk" for i wk by (simp add: lock_def split: option.split)
  have reap: "wk_unreported (ns_wake (fold (\<lambda>(i, l) ns.
     if starts_with i WARM_SEED_PREFIX \<or> \<not> dead DEAD_AFTER (w_t w) l then ns
     else let ns1 = on_wake (fst \<circ> lock i) ns
          in if \<not> w_lock_free w i then ns1
             else on_wake (forget i) (put_node i (fst (destroy_with_net (w_answers w 0) None (at_node ns1 i))) ns1)) b ns)) = []"
    if "wk_unreported (ns_wake ns) = []" for b :: "(string \<times> ('d, 'm) local) list" and ns :: "('d, 'm) node_state"
    using that by (induction b arbitrary: ns) (auto simp: on_wake_def put_node_def forget_def on Let_def)
  have settle: "wk_unreported (ns_wake (fold (\<lambda>(i, _) ns.
     if w_lock_free w i then put_node i (settle_restore (w_t w) (at_node ns i)) ns else ns) b ns)) = []"
    if "wk_unreported (ns_wake ns) = []" for b :: "(string \<times> ('d, 'm) local) list" and ns :: "('d, 'm) node_state"
    using that by (induction b arbitrary: ns) (auto simp: put_node_def)
  show ?thesis using reap [OF none] settle [OF none] by (simp add: reap_all_def settle_all_def)
qed

text \<open>
  An early report takes the use it tells out of the book, so if it is lost on the way the next poll's
  report does not have it, unless the sandbox is used again.
\<close>

theorem lost_early_report_is_not_told_again:
  assumes "early_report w hs ns = (ns1, req)"
  shows "traffic (snd (node_report says w' hs' h ns1)) = []"
proof -
  have "wk_unreported (ns_wake ns1) = []"
    using assms by (auto simp: early_report_def take_traffic_def recently_evicted_def Let_def)
  then have "wk_unreported (ns_wake (settle_all w' (reap_all w' ns1))) = []" using unreported_kept by blast
  then show ?thesis by (simp add: node_report_def take_traffic_def recently_evicted_def Let_def)
qed

section \<open>Pairing\<close>

record identity =
  id_cert_pem :: string
  id_key_pem :: string
  id_secret :: string
  id_fingerprint :: string

definition AGENT_CERT :: string where "AGENT_CERT = ''agent.pem''"
definition AGENT_KEY :: string where "AGENT_KEY = ''agent-key.pem''"
definition AGENT_SECRET :: string where "AGENT_SECRET = ''pairing-secret''"

text \<open>\<open>made\<close> is a certificate and key just generated, \<open>token\<close> a random token.\<close>

definition fill_in :: "string \<times> string \<Rightarrow> string \<Rightarrow> (string \<rightharpoonup> string) \<Rightarrow> (string \<rightharpoonup> string)" where
  "fill_in made token files =
     (let f1 = (if files AGENT_CERT = None \<or> files AGENT_KEY = None
                then files(AGENT_KEY \<mapsto> snd made, AGENT_CERT \<mapsto> fst made) else files)
      in if f1 AGENT_SECRET = None then f1(AGENT_SECRET \<mapsto> token) else f1)"

definition load_or_create :: "string \<times> string \<Rightarrow> string \<Rightarrow> (string \<Rightarrow> string + string) \<Rightarrow> (string \<rightharpoonup> string)
    \<Rightarrow> (string \<rightharpoonup> string) \<times> (string + identity)" where
  "load_or_create made token fp_of_pem files =
     (let f = fill_in made token files;
          cert = the (f AGENT_CERT); key = the (f AGENT_KEY); secret = trim (the (f AGENT_SECRET))
      in (f, if secret = [] then Inl (AGENT_SECRET @ '' is empty; delete it and restart to generate a new pairing code'')
             else case fp_of_pem cert of
                    Inl e \<Rightarrow> Inl e
                  | Inr fp \<Rightarrow> Inr \<lparr>id_cert_pem = cert, id_key_pem = key, id_secret = secret, id_fingerprint = fp\<rparr>))"

definition pairing_code :: "identity \<Rightarrow> string" where
  "pairing_code i = join_token (id_fingerprint i) (id_secret i)"

lemma agent_files: "AGENT_CERT \<noteq> AGENT_KEY" "AGENT_CERT \<noteq> AGENT_SECRET" "AGENT_KEY \<noteq> AGENT_SECRET"
  by (simp_all add: AGENT_CERT_def AGENT_KEY_def AGENT_SECRET_def)

lemma filled_in: "fill_in made' token' (fill_in made token files) = fill_in made token files"
  using agent_files by (auto simp: fill_in_def Let_def)

lemma pairing_code_is_kept:
  "load_or_create made' token' fp_of_pem (fst (load_or_create made token fp_of_pem files)) = load_or_create made token fp_of_pem files"
  by (simp add: load_or_create_def Let_def filled_in)

text \<open>\<^verbatim>\<open>PinnedLeaf\<close>: the certificate at the other end is the one pinned, whoever issued it.\<close>

definition pinned_leaf :: "string \<Rightarrow> string \<Rightarrow> bool" where
  "pinned_leaf want presented \<longleftrightarrow> presented = map ascii_lower want"

text \<open>What first contact with a listening node comes to, from the master's side.\<close>

definition contact :: "(nat \<Rightarrow> string) \<Rightarrow> identity \<Rightarrow> agent_hello \<Rightarrow> string \<Rightarrow> string \<Rightarrow> string \<Rightarrow> string + agent_hello" where
  "contact status_text i about address pin secret =
     hello_reads status_text address
       (if \<not> pinned_leaf pin (id_fingerprint i) then Inl ''this node presented another certificate than the pairing code pins''
        else case agent_hello_for (id_secret i) about (Some (bearer_auth secret)) of
               Inl e \<Rightarrow> Inr (ae_status e, ae_reason e, None)
             | Inr a \<Rightarrow> Inr (200, [], Some a))"

lemma agent_authorised_exact: "agent_authorised secret (Some (bearer_auth s)) \<longleftrightarrow> s = secret"
  by (auto simp: bearer_auth_def agent_authorised_def strip_prefix_or_empty_def starts_with_def)

lemma contact_exact:
  "contact st i about address pin secret = Inr a \<longleftrightarrow>
     map ascii_lower pin = id_fingerprint i \<and> secret = id_secret i \<and> a = about"
proof -
  have "contact st i about address pin secret =
      (if map ascii_lower pin \<noteq> id_fingerprint i then hello_reads st address (Inl ''this node presented another certificate than the pairing code pins'')
       else if secret = id_secret i then Inr about
       else hello_reads st address (Inr (401, ae_reason agent_unauthorised, None)))"
    by (auto simp: contact_def pinned_leaf_def agent_hello_for_def agent_authorised_exact agent_unauthorised_def err_def hello_reads_def)
  then show ?thesis by (auto simp: hello_reads_def)
qed

lemma ascii_lower_idem: "ascii_lower (ascii_lower c) = ascii_lower c"
  by (cases "65 \<le> (of_char c :: nat) \<and> (of_char c :: nat) \<le> 90") (auto simp: ascii_lower_def)

lemma split_token_Some: "split_token x = (Some p, s) \<Longrightarrow> x = p @ TOKEN_SEP # s"
  by (auto simp: split_token_def split_once_def before_char_def dropWhile_eq_Cons_conv split: option.splits list.splits if_splits)

text \<open>
  C33. A pairing code opens its own node and nothing else opens it. Whatever is given for a code, if a
  node is added at the address of one that listens, then what was given is its fingerprint, in either
  case of letters, and its secret; and its own code, as it is written and kept, never fails at first
  contact: the node is added as if no secret were asked.
\<close>

theorem pairing_code_opens_its_node:
  assumes "length (id_fingerprint i) = 64" "list_all is_hex_digit (id_fingerprint i)" "map ascii_lower (id_fingerprint i) = id_fingerprint i"
    and "id_secret i \<noteq> []" "trim (pairing_code i) = pairing_code i"
  shows "(\<forall>r. snd (add_node (contact st i about) now req ms) = Inr r \<longrightarrow>
      (\<exists>p. trim (ad_pairing_code req) = p @ TOKEN_SEP # id_secret i \<and> map ascii_lower p = id_fingerprint i)) \<and>
    (trim (ad_pairing_code req) = pairing_code i \<longrightarrow>
      add_node (contact st i about) now req ms = add_node (\<lambda>_ _ _. Inr about) now req ms)"
proof -
  let ?code = "trim (ad_pairing_code req)"
  have contact: "contact st i about address (id_fingerprint i) (id_secret i) = Inr about" for address
    using assms(3) by (simp add: contact_exact)
  have own: "split_token (pairing_code i) = (Some (id_fingerprint i), id_secret i)"
  proof -
    have "TOKEN_SEP \<notin> set (id_fingerprint i)"
      using assms(2) by (auto simp: list_all_iff TOKEN_SEP_def is_hex_digit_def is_digit_def)
    from split_once_append [OF this]
    show ?thesis using assms(1,4) by (simp add: split_token_def pairing_code_def join_token_def)
  qed
  have only: "\<exists>p. ?code = p @ TOKEN_SEP # id_secret i \<and> map ascii_lower p = id_fingerprint i"
    if added: "snd (add_node (contact st i about) now req ms) = Inr r" for r
  proof -
    obtain a s where split: "split_token ?code = (a, s)" by fastforce
    have "a \<noteq> None"
    proof
      assume "a = None"
      then show False using added split by (simp add: add_node_def)
    qed
    then obtain p where a: "a = Some p" by blast
    note code = split [unfolded a]
    obtain address a where "contact st i about address (map ascii_lower p) s = Inr a"
      using added code by (auto simp: add_node_def Let_def split: if_splits sum.splits)
    then have "map ascii_lower p = id_fingerprint i" "s = id_secret i"
      unfolding contact_exact by (simp_all add: ascii_lower_idem comp_def)
    moreover have "?code = p @ TOKEN_SEP # s" by (rule split_token_Some [OF code])
    ultimately show ?thesis by blast
  qed
  moreover have "add_node (contact st i about) now req ms = add_node (\<lambda>_ _ _. Inr about) now req ms" if "?code = pairing_code i"
    by (cases "normalise_address (ad_address req)") (simp_all add: add_node_def that own contact assms(3) Let_def)
  ultimately show ?thesis by blast
qed

section \<open>Witnesses\<close>

definition paired :: identity where
  "paired = \<lparr>id_cert_pem = ''c'', id_key_pem = ''k'', id_secret = ''5ec7e7'', id_fingerprint = replicate 64 (CHR ''a'')\<rparr>"

definition says_of_itself :: agent_hello where
  "says_of_itself = \<lparr>ah_node_id = ''n1'', ah_fingerprint = ''v1'', ah_max_sandboxes = 0, ah_host = None\<rparr>"

definition added_with :: "string \<Rightarrow> add_node_request" where
  "added_with code = \<lparr>ad_address = ''10.0.0.1'', ad_pairing_code = code, ad_node_id = None, ad_pool = ''p''\<rparr>"

lemma pairing_code_opens_its_node_witness:
  "add_node (contact (\<lambda>_. []) paired says_of_itself) 5 (added_with (pairing_code paired)) (default_options empty_store) =
   add_node (\<lambda>_ _ _. Inr says_of_itself) 5 (added_with (pairing_code paired)) (default_options empty_store)"
proof -
  have "trim (pairing_code paired) = pairing_code paired" by code_simp
  moreover have "list_all is_hex_digit (id_fingerprint paired)" by code_simp
  moreover have "map ascii_lower (id_fingerprint paired) = id_fingerprint paired" by code_simp
  ultimately show ?thesis
    using pairing_code_opens_its_node [of paired "\<lambda>_. []" says_of_itself 5 "added_with (pairing_code paired)" "default_options empty_store"]
    by (simp add: added_with_def paired_def)
qed

definition answered :: sync_response where
  "answered = \<lparr>sr_report = reported, sr_results = [], sr_retry_in_ms = None\<rparr>"

lemma driven_like_polled_witness:
  "\<exists>cmds. poll (toy_codec JNull) toy_crypto Untrusted None 5 100000 reported (one_wanted Snapshot) =
      (fst (drive_answered (toy_codec JNull) toy_crypto 5 100000 ''n1'' answered new_driver (one_wanted Snapshot)),
       Inr (if cmds \<noteq> [] then Answer cmds else Park 25000)) \<and>
     fst (sync_batch sample_cfg (\<lambda>_ _. sample_world calm) 100000 (Some cmds) (sample_node [(''a'', sample Hot)])) =
     with_deferred [] (fst (take_answer sample_cfg (\<lambda>_ _. sample_world calm) 100000 cmds (sample_node [(''a'', sample Hot)])))"
proof -
  let ?ns = "sample_node [(''a'', sample Hot)]" and ?ws = "\<lambda>_ _. sample_world calm"
  have "(sr_report answered)\<lparr>pr_node_id := ''n1''\<rparr> = reported" "hold_ms (sr_report answered) = None"
      "pr_deferred (sr_report answered) = []" "sr_results answered = []"
    by (simp_all add: answered_def reported_def empty_report_def)
  moreover have "ns_deferred ?ns = []" by (simp add: sample_node_def)
  moreover obtain ms' tn where d: "drive_answered (toy_codec JNull) toy_crypto 5 100000 ''n1'' answered new_driver (one_wanted Snapshot) = (ms', tn)"
    by fastforce
  ultimately obtain cmds where cmds:
    "poll (toy_codec JNull) toy_crypto Untrusted None 5 100000 reported (one_wanted Snapshot) = (ms', Inr (if cmds \<noteq> [] then Answer cmds else Park 25000))"
    "\<And>a rs b soonest rs'. take_answer sample_cfg ?ws 100000 cmds ?ns = (a, rs) \<Longrightarrow>
       sync_batch sample_cfg ?ws 100000 (Some cmds) ?ns = (b, soonest, rs') \<Longrightarrow> b = with_deferred [] a"
    using driven_like_polled [OF d, of Untrusted ?ns sample_cfg ?ws 100000] by (auto cong: if_cong)
  obtain a rs where a: "take_answer sample_cfg ?ws 100000 cmds ?ns = (a, rs)" by fastforce
  obtain b s rs' where b: "sync_batch sample_cfg ?ws 100000 (Some cmds) ?ns = (b, s, rs')" by (metis prod_cases3)
  show ?thesis using cmds(1) cmds(2) [OF a b] a b d by (intro exI [of _ cmds]) simp
qed

end
