(* ===== verification/Trust.thy ===== *)
theory Trust
  imports Listen
begin

text \<open>
  \<^verbatim>\<open>identity.rs\<close> and \<^verbatim>\<open>tls.rs\<close>: the CA of a deployment, the certificates it issues, and
  how a node that has none of them yet knows its master. What the crypto libraries do is a parameter
  (\<open>pki\<close>): parsing, signing, the SHA-256 of a certificate, and the verification of a chain against
  one root. A directory is a map from names to contents.
\<close>

section \<open>The CA\<close>

record x509 =
  xc_self_issued :: bool
  xc_self_signed :: bool
  xc_public_key :: string
  xc_is_ca :: bool
  xc_usages :: "string list"

record pki =
  pk_key :: "string \<Rightarrow> string option"
  pk_pem :: "string \<Rightarrow> (string \<times> string \<times> string) option"
  pk_x509 :: "string \<Rightarrow> (string \<times> x509) option"
  pk_generate :: "string + string \<times> string"
  pk_issue :: "string \<Rightarrow> string list \<Rightarrow> bool \<Rightarrow> string + string \<times> string"

definition KEY_CERT_SIGN :: string where "KEY_CERT_SIGN = ''keyCertSign''"
definition CA_PEM :: string where "CA_PEM = ''ca.pem''"
definition CA_KEY :: string where "CA_KEY = ''ca-key.pem''"

definition is_ascii_whitespace :: "char \<Rightarrow> bool" where
  "is_ascii_whitespace c \<longleftrightarrow> of_char c \<in> {9, 10, 12, 13, 32 :: nat}"

text \<open>The checks of a CA read from disk.\<close>

definition check_ca :: "pki \<Rightarrow> string \<Rightarrow> string \<Rightarrow> string + unit" where
  "check_ca p cert_pem key_pem =
     (case pk_key p key_pem of
        None \<Rightarrow> Inl ''parsing ca key''
      | Some public \<Rightarrow>
          (case pk_pem p cert_pem of
             None \<Rightarrow> Inl ''parsing ca PEM''
           | Some (remaining, label, contents) \<Rightarrow>
               if \<not> (label = ''CERTIFICATE'' \<and> list_all is_ascii_whitespace remaining)
               then Inl ''ca.pem must contain exactly one certificate''
               else (case pk_x509 p contents of
                       None \<Rightarrow> Inl ''parsing ca certificate''
                     | Some (trailing, x) \<Rightarrow>
                         if trailing \<noteq> [] then Inl ''trailing data in ca certificate''
                         else if \<not> xc_self_issued x then Inl ''CA must be self-issued''
                         else if \<not> xc_self_signed x then Inl ''verifying ca self-signature''
                         else if xc_public_key x \<noteq> public then Inl ''ca certificate and key do not match''
                         else if \<not> xc_is_ca x then Inl ''certificate is not a CA''
                         else if \<not> (xc_usages x = [] \<or> KEY_CERT_SIGN \<in> set (xc_usages x))
                         then Inl ''CA certificate does not permit certificate signing''
                         else Inr ())))"

text \<open>\<open>others\<close> are the other entries of the directory; the CA is the text of its certificate and key.\<close>

definition open_or_create :: "pki \<Rightarrow> string list \<Rightarrow> (string \<rightharpoonup> string) \<Rightarrow> (string \<rightharpoonup> string) \<times> (string + string \<times> string)" where
  "open_or_create p others files =
     (if (files CA_PEM = None) \<noteq> (files CA_KEY = None)
      then (files, Inl ''incomplete CA: ca.pem and ca-key.pem must both exist'')
      else case (files CA_PEM, files CA_KEY) of
             (Some cert_pem, Some key_pem) \<Rightarrow>
               (case check_ca p cert_pem key_pem of
                  Inl e \<Rightarrow> (files, Inl e)
                | Inr _ \<Rightarrow> (files, Inr (cert_pem, key_pem)))
           | _ \<Rightarrow>
               if \<not> list_all (\<lambda>n. n = ''api-token'' \<or> n = ''node'') others
               then (files, Inl ''CA files are missing from an existing PKI directory'')
               else (case pk_generate p of
                       Inl e \<Rightarrow> (files, Inl e)
                     | Inr (cert_pem, key_pem) \<Rightarrow> (files(CA_KEY \<mapsto> key_pem, CA_PEM \<mapsto> cert_pem), Inr (cert_pem, key_pem))))"

text \<open>\<^verbatim>\<open>issue\<close>: the files a certificate and its key are written to.\<close>

definition issue_cert :: "pki \<Rightarrow> string \<Rightarrow> string \<Rightarrow> string list \<Rightarrow> bool \<Rightarrow> (string \<rightharpoonup> string) \<Rightarrow> (string \<rightharpoonup> string) \<times> (string + string \<times> string)" where
  "issue_cert p stem cn sans client files =
     (case pk_issue p cn sans client of
        Inl e \<Rightarrow> (files, Inl (''signing cert for '' @ cn @ '': '' @ e))
      | Inr (cert, key) \<Rightarrow>
          (files(stem @ ''.pem'' \<mapsto> cert, stem @ ''-key.pem'' \<mapsto> key), Inr (stem @ ''.pem'', stem @ ''-key.pem'')))"

definition issue_master :: "pki \<Rightarrow> string list \<Rightarrow> (string \<rightharpoonup> string) \<Rightarrow> (string \<rightharpoonup> string) \<times> (string + string \<times> string)" where
  "issue_master p sans = issue_cert p ''master'' ''sandstorm master'' sans False"

definition issue_front :: "pki \<Rightarrow> string \<Rightarrow> (string \<rightharpoonup> string) \<Rightarrow> (string \<rightharpoonup> string) \<times> (string + string \<times> string)" where
  "issue_front p domain = issue_cert p ''e2b-front'' (''*.'' @ domain) [''*.'' @ domain, domain] False"

definition issue_node :: "pki \<Rightarrow> string \<Rightarrow> (string \<rightharpoonup> string) \<Rightarrow> (string \<rightharpoonup> string) \<times> (string + string \<times> string)" where
  "issue_node p i = issue_cert p (''node-'' @ i) i [] True"

section \<open>First contact\<close>

text \<open>
  A chain is a list of certificates; \<open>fp\<close> is the fingerprint and \<open>verify root leaf rest\<close> what the
  library says of a leaf under one root.
\<close>

datatype chain_verdict = ChainOk | OtherName | ChainBad string

text \<open>\<^verbatim>\<open>server_config\<close>: the CA's certificates sent after the leaf's own.\<close>

definition chain_sent :: "'c list \<Rightarrow> 'c list \<Rightarrow> 'c list" where
  "chain_sent leaf ca = fold (\<lambda>c ch. if c \<in> set ch then ch else ch @ [c]) ca leaf"

text \<open>\<^verbatim>\<open>PinnedCa\<close>.\<close>

definition pinned_ca :: "('c \<Rightarrow> string) \<Rightarrow> ('c \<Rightarrow> 'c \<Rightarrow> 'c list \<Rightarrow> chain_verdict) \<Rightarrow> string \<Rightarrow> 'c list \<Rightarrow> string + unit" where
  "pinned_ca fp verify want chain =
     (case chain of
        [] \<Rightarrow> Inl ''no certificate''
      | leaf # rest \<Rightarrow>
          (case find (\<lambda>c. fp c = want) rest of
             None \<Rightarrow> Inl ''the master did not present the CA this token pins''
           | Some ca \<Rightarrow>
               (case verify ca leaf rest of
                  ChainOk \<Rightarrow> Inr ()
                | OtherName \<Rightarrow> Inr ()
                | ChainBad e \<Rightarrow> Inl e)))"

text \<open>The node's first request, which carries the token: sent, with the secret, or not.\<close>

definition first_contact :: "('c \<Rightarrow> string) \<Rightarrow> ('c \<Rightarrow> 'c \<Rightarrow> 'c list \<Rightarrow> chain_verdict) \<Rightarrow> string \<Rightarrow> 'c list \<Rightarrow> string + string" where
  "first_contact fp verify token chain =
     (case fst (split_token token) of
        None \<Rightarrow> Inr token
      | Some pin \<Rightarrow>
          (case pinned_ca fp verify (map ascii_lower pin) chain of
             Inl e \<Rightarrow> Inl e
           | Inr _ \<Rightarrow> Inr token))"

section \<open>Properties\<close>

lemma ca_names: "CA_PEM \<noteq> CA_KEY"
  by (simp add: CA_PEM_def CA_KEY_def)

text \<open>
  A CA is never replaced: whatever the directory holds, opening it leaves the files of a CA that is
  there as they were, and makes one only where there is none and nothing speaks of one having been.
\<close>

lemma ca_is_never_replaced:
  assumes "open_or_create p others files = (files', r)"
  shows "(files CA_PEM \<noteq> None \<or> files CA_KEY \<noteq> None \<longrightarrow> files' = files) \<and>
    (files' \<noteq> files \<longrightarrow> list_all (\<lambda>n. n = ''api-token'' \<or> n = ''node'') others) \<and>
    (\<forall>cert key. r = Inr (cert, key) \<longrightarrow> files' CA_PEM = Some cert \<and> files' CA_KEY = Some key)"
  using assms ca_names by (auto simp: open_or_create_def split: option.splits if_splits sum.splits)

lemma ca_is_kept:
  assumes "open_or_create p others files = (files', Inr ca)" "\<And>cert key. pk_generate p = Inr (cert, key) \<Longrightarrow> check_ca p cert key = Inr ()"
  shows "open_or_create p others' files' = (files', Inr ca)"
  using assms ca_names by (auto simp: open_or_create_def split: option.splits if_splits sum.splits)

lemma chain_sent_leaf: "leaf \<noteq> [] \<Longrightarrow> \<exists>rest. chain_sent leaf ca = leaf @ rest \<and> set ca \<subseteq> set leaf \<union> set rest"
proof (induction ca arbitrary: leaf)
  case (Cons c ca)
  let ?leaf = "if c \<in> set leaf then leaf else leaf @ [c]"
  have "?leaf \<noteq> []" using Cons.prems by simp
  then obtain rest where r: "chain_sent ?leaf ca = ?leaf @ rest" "set ca \<subseteq> set ?leaf \<union> set rest"
    using Cons.IH by blast
  have "chain_sent leaf (c # ca) = chain_sent ?leaf ca" by (simp add: chain_sent_def)
  then show ?case using r by (cases "c \<in> set leaf") auto
qed (simp add: chain_sent_def)

text \<open>
  A registration token goes to the master that minted it and to nobody else. If a fingerprint names
  one certificate, a node given a token of a CA sends it on first contact only to an end whose leaf the
  library verifies under that CA; and it does send it to a master with a certificate of that CA, the way
  \<^verbatim>\<open>server_config\<close> lines its chain up.
\<close>

theorem token_goes_to_its_master:
  assumes "inj fp" "length (fp ca) = 64" "TOKEN_SEP \<notin> set (fp ca)" "map ascii_lower (fp ca) = fp ca" "secret \<noteq> []"
  shows "(first_contact fp verify (join_token (fp ca) secret) chain = Inr sent \<longrightarrow>
      (\<exists>leaf rest. chain = leaf # rest \<and> ca \<in> set rest \<and> verify ca leaf rest \<in> {ChainOk, OtherName})) \<and>
    (leaf \<noteq> ca \<longrightarrow> verify ca leaf (tl (chain_sent [leaf] [ca])) \<in> {ChainOk, OtherName} \<longrightarrow>
      first_contact fp verify (join_token (fp ca) secret) (chain_sent [leaf] [ca]) = Inr (join_token (fp ca) secret))"
proof -
  let ?token = "join_token (fp ca) secret"
  have split: "split_token ?token = (Some (fp ca), secret)"
    using assms(2,5) split_once_append [OF assms(3)] by (simp add: split_token_def join_token_def)
  have found: "c = ca" if "find (\<lambda>c. fp c = fp ca) rest = Some c" for c rest
    using that injD [OF assms(1)] by (auto simp: find_Some_iff)
  have there: "ca \<in> set rest" if "find (\<lambda>c. fp c = fp ca) rest = Some c" for c rest
    using that found [OF that] by (auto simp: find_Some_iff)
  show ?thesis
    using found there by (auto simp: first_contact_def split assms(4) pinned_ca_def chain_sent_def split: list.splits option.splits chain_verdict.splits)
qed

lemma token_goes_to_its_master_witness:
  "first_contact id (\<lambda>ca leaf rest. OtherName) (join_token (replicate 64 (CHR ''a'')) ''s'') (chain_sent [''leaf''] [replicate 64 (CHR ''a'')]) =
     Inr (join_token (replicate 64 (CHR ''a'')) ''s'')"
proof -
  have "map ascii_lower (replicate 64 (CHR ''a'')) = replicate 64 (CHR ''a'')" by (simp add: ascii_lower_def)
  moreover have "TOKEN_SEP \<notin> set (replicate 64 (CHR ''a''))" by (simp add: TOKEN_SEP_def)
  moreover have "''leaf'' \<noteq> replicate 64 (CHR ''a'')"
  proof
    assume "''leaf'' = replicate 64 (CHR ''a'')"
    then have "length ''leaf'' = length (replicate 64 (CHR ''a''))" by (rule arg_cong)
    then show False by simp
  qed
  ultimately show ?thesis
    using token_goes_to_its_master [of id "replicate 64 (CHR ''a'')" "''s''" "\<lambda>ca leaf rest. OtherName" "[]" "[]" "''leaf''"] by simp
qed

end
