(* ===== verification/Reclaim.thy ===== *)
theory Reclaim
  imports Proto Egress
begin

text \<open>
  \<^verbatim>\<open>node/reclaim.rs\<close>: squeezing the cold pages of hot sandboxes. The share asked for is a
  64-bit float in the code and a real here. A pass is a function of what it reads: the host's
  pressure, whether swap is short, what the node holds and the two counters of each sandbox's cgroup.
\<close>

section \<open>One sandbox\<close>

definition STALL_BUDGET_US :: nat where "STALL_BUDGET_US = 6000"
definition STEP_MIN :: real where "STEP_MIN = 2 / 1000"
definition STEP_MAX :: real where "STEP_MAX = 2 / 100"
definition PSI_HEADROOM :: real where "PSI_HEADROOM = 1 / 2"
definition ASK_MIN_BYTES :: nat where "ASK_MIN_BYTES = 2 ^ 20"

record probe =
  pb_stall :: nat
  pb_step :: real

definition decide :: "probe option \<Rightarrow> nat \<Rightarrow> nat \<Rightarrow> nat \<times> probe" where
  "decide prev stall current =
     (case prev of
        None \<Rightarrow> (0, \<lparr>pb_stall = stall, pb_step = STEP_MIN\<rparr>)
      | Some p \<Rightarrow>
          if stall - pb_stall p > STALL_BUDGET_US then (0, \<lparr>pb_stall = stall, pb_step = STEP_MIN\<rparr>)
          else (let ask = nat \<lfloor>real current * pb_step p\<rfloor>;
                    next_probe = \<lparr>pb_stall = stall, pb_step = min (pb_step p * 2) STEP_MAX\<rparr>
                in if ask < ASK_MIN_BYTES then (0, next_probe) else (ask, next_probe)))"

text \<open>The counter of \<^verbatim>\<open>memory.pressure\<close>.\<close>

definition split_whitespace :: "string \<Rightarrow> string list" where
  "split_whitespace s = filter (\<lambda>w. w \<noteq> []) (foldr (\<lambda>c ws. if is_space c then [] # ws else case ws of w # r \<Rightarrow> (c # w) # r | [] \<Rightarrow> [[c]]) s [[]])"

definition parse_u64 :: "string \<Rightarrow> nat option" where
  "parse_u64 s =
     (let t = (case s of [] \<Rightarrow> [] | c # r \<Rightarrow> if c = CHR ''+'' then r else s)
      in if t \<noteq> [] \<and> list_all is_digit t \<and> dec_value t < 2 ^ 64 then Some (dec_value t) else None)"

definition first_some :: "('a \<Rightarrow> 'b option) \<Rightarrow> 'a list \<Rightarrow> 'b option" where
  "first_some f xs = (case List.map_filter f xs of [] \<Rightarrow> None | y # _ \<Rightarrow> Some y)"

definition stall_total_us :: "string \<Rightarrow> nat option" where
  "stall_total_us s =
     Option.bind (find (\<lambda>l. starts_with l ''some'') (split_on (CHR 0x0A) s))
       (\<lambda>l. first_some (\<lambda>f. if starts_with f ''total='' then parse_u64 (drop 6 f) else None) (split_whitespace l))"

definition cgroup_current :: "string \<Rightarrow> nat option" where
  "cgroup_current s = parse_u64 (trim s)"

section \<open>One pass\<close>

text \<open>What a pass reads, and what it writes to the cgroups.\<close>

record pass_world =
  pw_psi :: real
  pw_swap_short :: bool
  pw_observed :: "observed_sandbox list option"
  pw_pressure :: "string \<Rightarrow> string option"
  pw_current :: "string \<Rightarrow> string option"
  pw_taken :: "string \<Rightarrow> bool"

datatype reclaim_call = RouteReclaim string bool | AskReclaim string nat

definition stall_of :: "pass_world \<Rightarrow> string \<Rightarrow> nat option" where
  "stall_of w i = Option.bind (pw_pressure w i) stall_total_us"

definition current_of :: "pass_world \<Rightarrow> string \<Rightarrow> nat option" where
  "current_of w i = Option.bind (pw_current w i) cgroup_current"

definition reset_steps :: "(string, probe) book \<Rightarrow> (string, probe) book" where
  "reset_steps ps = map (\<lambda>(i, p). (i, p\<lparr>pb_step := STEP_MIN\<rparr>)) ps"

definition squeeze_one :: "bool \<Rightarrow> pass_world \<Rightarrow> string \<Rightarrow> (string, probe) book \<times> reclaim_call list
    \<Rightarrow> (string, probe) book \<times> reclaim_call list" where
  "squeeze_one pins w i st =
     (let (ps, calls) = st
      in case (stall_of w i, current_of w i) of
           (Some stall, Some cur) \<Rightarrow>
             (let calls = (if map_of ps i = None then calls @ [RouteReclaim i pins] else calls);
                  (ask, next_probe) = decide (map_of ps i) stall cur
              in (put i next_probe ps, if 0 < ask \<and> pw_taken w i then calls @ [AskReclaim i ask] else calls))
         | _ \<Rightarrow> (ps, calls))"

definition reclaim_pass :: "bool \<Rightarrow> real \<Rightarrow> pass_world \<Rightarrow> (string, probe) book \<Rightarrow> (string, probe) book \<times> reclaim_call list" where
  "reclaim_pass pins admit_max_psi w ps =
     (if pw_psi w > admit_max_psi * PSI_HEADROOM then (reset_steps ps, [])
      else if pw_swap_short w then (reset_steps ps, [])
      else case pw_observed w of
             None \<Rightarrow> (ps, [])
           | Some os \<Rightarrow>
               (let hot = map ob_id (filter (\<lambda>o'. ob_tier o' = Hot) os)
                in fold (squeeze_one pins w) hot (keep (\<lambda>i _. i \<in> set hot) ps, [])))"

section \<open>It is gentle\<close>

definition steps_ok :: "(string, probe) book \<Rightarrow> bool" where
  "steps_ok ps \<longleftrightarrow> (\<forall>(i, p)\<in>set ps. STEP_MIN \<le> pb_step p \<and> pb_step p \<le> STEP_MAX)"

lemma step_consts: "0 < STEP_MIN" "STEP_MIN \<le> STEP_MAX"
  by (simp_all add: STEP_MIN_def STEP_MAX_def)

lemma decide_step:
  assumes "decide prev stall cur = (ask, p)" "\<And>q. prev = Some q \<Longrightarrow> STEP_MIN \<le> pb_step q"
  shows "STEP_MIN \<le> pb_step p \<and> pb_step p \<le> STEP_MAX"
proof (cases prev)
  case None
  then show ?thesis using assms(1) step_consts by (auto simp: decide_def)
next
  case (Some q)
  have "STEP_MIN \<le> pb_step q * 2" using assms(2) [OF Some] step_consts by linarith
  then show ?thesis using assms(1) Some step_consts
    by (auto simp: decide_def Let_def min_def split: if_splits)
qed

lemma decide_ask:
  assumes "decide prev stall cur = (ask, p)" "0 < ask" "\<And>q. prev = Some q \<Longrightarrow> 0 \<le> pb_step q \<and> pb_step q \<le> STEP_MAX"
  shows "\<exists>q. prev = Some q \<and> stall - pb_stall q \<le> STALL_BUDGET_US \<and> real ask \<le> real cur * STEP_MAX \<and> ASK_MIN_BYTES \<le> ask"
proof (cases prev)
  case None
  then show ?thesis using assms(1,2) by (simp add: decide_def)
next
  case (Some q)
  then have ask: "stall - pb_stall q \<le> STALL_BUDGET_US" "ask = nat \<lfloor>real cur * pb_step q\<rfloor>" "ASK_MIN_BYTES \<le> ask"
    using assms(1,2) by (auto simp: decide_def Let_def split: if_splits)
  have "0 \<le> real cur * pb_step q" and "real cur * pb_step q \<le> real cur * STEP_MAX"
    using assms(3) [OF Some] by (simp_all add: mult_left_mono)
  moreover have "real (nat \<lfloor>real cur * pb_step q\<rfloor>) \<le> real cur * pb_step q"
    using \<open>0 \<le> real cur * pb_step q\<close> by (simp add: of_nat_nat)
  ultimately show ?thesis using Some ask by simp
qed

definition gentle :: "pass_world \<Rightarrow> (string, probe) book \<Rightarrow> reclaim_call \<Rightarrow> bool" where
  "gentle w ps e \<longleftrightarrow>
     (case e of
        RouteReclaim i _ \<Rightarrow> map_of ps i = None
      | AskReclaim i ask \<Rightarrow>
          (\<exists>q stall cur. stall_of w i = Some stall \<and> current_of w i = Some cur \<and>
             map_of ps i = Some q \<and> stall - pb_stall q \<le> STALL_BUDGET_US \<and>
             real ask \<le> real cur * STEP_MAX \<and> ASK_MIN_BYTES \<le> ask))"

lemma steps_ok_put: "steps_ok ps \<Longrightarrow> STEP_MIN \<le> pb_step p \<and> pb_step p \<le> STEP_MAX \<Longrightarrow> steps_ok (put i p ps)"
  by (auto simp: steps_ok_def put_def)

lemma steps_ok_get: "steps_ok ps \<Longrightarrow> map_of ps i = Some q \<Longrightarrow> STEP_MIN \<le> pb_step q \<and> pb_step q \<le> STEP_MAX"
  using map_of_SomeD by (fastforce simp: steps_ok_def)

lemma squeeze_step:
  assumes "squeeze_one pins w i (ps, calls) = (ps', calls')" "steps_ok ps" "map_of ps i = map_of ps0 i"
    and "\<forall>e\<in>set calls. gentle w ps0 e"
  shows "steps_ok ps' \<and> (\<forall>e\<in>set calls'. gentle w ps0 e) \<and> (\<forall>j. j \<noteq> i \<longrightarrow> map_of ps' j = map_of ps j)"
proof (cases "\<exists>stall cur. stall_of w i = Some stall \<and> current_of w i = Some cur")
  case True
  then obtain stall cur where r: "stall_of w i = Some stall" "current_of w i = Some cur" by blast
  obtain ask p where d: "decide (map_of ps i) stall cur = (ask, p)" by fastforce
  have out: "ps' = put i p ps" "set calls' \<subseteq> set calls \<union> (if map_of ps0 i = None then {RouteReclaim i pins} else {}) \<union>
      (if 0 < ask then {AskReclaim i ask} else {})"
    using assms(1,3) r d by (auto simp: squeeze_one_def Let_def split: if_splits)
  have "STEP_MIN \<le> pb_step p \<and> pb_step p \<le> STEP_MAX"
    using decide_step [OF d] steps_ok_get [OF assms(2)] by blast
  moreover have "gentle w ps0 (AskReclaim i ask)" if "0 < ask"
  proof -
    have "0 \<le> pb_step q \<and> pb_step q \<le> STEP_MAX" if "map_of ps i = Some q" for q
      using steps_ok_get [OF assms(2) that] step_consts by linarith
    from decide_ask [OF d \<open>0 < ask\<close> this] show ?thesis using r assms(3) by (auto simp: gentle_def)
  qed
  moreover have "gentle w ps0 (RouteReclaim i pins)" if "map_of ps0 i = None" using that by (simp add: gentle_def)
  ultimately show ?thesis using out steps_ok_put [OF assms(2)] assms(4) by (auto split: if_splits)
next
  case False
  then have "ps' = ps \<and> calls' = calls" using assms(1) by (auto simp: squeeze_one_def split: option.splits)
  then show ?thesis using assms(2,4) by simp
qed

lemma squeeze_all:
  assumes "fold (squeeze_one pins w) hot (ps, calls) = (ps', calls')" "distinct hot" "steps_ok ps"
    and "\<And>i. i \<in> set hot \<Longrightarrow> map_of ps i = map_of ps0 i" "\<forall>e\<in>set calls. gentle w ps0 e"
  shows "steps_ok ps' \<and> (\<forall>e\<in>set calls'. gentle w ps0 e)"
  using assms
proof (induction hot arbitrary: ps calls)
  case (Cons i hot)
  obtain ps1 calls1 where one: "squeeze_one pins w i (ps, calls) = (ps1, calls1)" by fastforce
  have step: "steps_ok ps1 \<and> (\<forall>e\<in>set calls1. gentle w ps0 e) \<and> (\<forall>j. j \<noteq> i \<longrightarrow> map_of ps1 j = map_of ps j)"
    using squeeze_step [OF one Cons.prems(3) _ Cons.prems(5)] Cons.prems(4) [of i] by simp
  have rest: "fold (squeeze_one pins w) hot (ps1, calls1) = (ps', calls')" using Cons.prems(1) one by simp
  have "map_of ps1 j = map_of ps0 j" if "j \<in> set hot" for j
    using step Cons.prems(2) Cons.prems(4) [of j] that by auto
  then show ?case using Cons.IH [OF rest] Cons.prems(2) step by simp
qed simp

lemma pass_is_gentle:
  assumes "steps_ok ps" and "reclaim_pass pins max_psi w ps = (ps', calls)" and "book_ok ps"
    and "\<And>os. pw_observed w = Some os \<Longrightarrow> distinct (map ob_id os)"
  shows "steps_ok ps' \<and> (\<forall>e\<in>set calls. gentle w ps e) \<and>
    (pw_psi w > max_psi * PSI_HEADROOM \<or> pw_swap_short w \<longrightarrow> calls = [])"
proof (cases "pw_psi w > max_psi * PSI_HEADROOM \<or> pw_swap_short w")
  case True
  then have "ps' = reset_steps ps" "calls = []" using assms(2) by (auto simp: reclaim_pass_def split: if_splits)
  then show ?thesis using assms(1) step_consts by (auto simp: steps_ok_def reset_steps_def)
next
  case False
  show ?thesis
  proof (cases "pw_observed w")
    case None
    then show ?thesis using False assms(1,2) by (auto simp: reclaim_pass_def)
  next
    case (Some os)
    let ?hot = "map ob_id (filter (\<lambda>o'. ob_tier o' = Hot) os)"
    let ?ps = "keep (\<lambda>i _. i \<in> set ?hot) ps"
    have "fold (squeeze_one pins w) ?hot (?ps, []) = (ps', calls)"
      using False Some assms(2) by (simp add: reclaim_pass_def Let_def)
    moreover have "distinct ?hot" using assms(4) [OF Some] by (rule distinct_map_filter)
    moreover have "steps_ok ?ps" using assms(1) by (auto simp: steps_ok_def keep_def)
    moreover have "map_of ?ps i = map_of ps i" if "i \<in> set ?hot" for i
      using assms(3) that by (simp add: map_of_keep split: option.split)
    ultimately have "steps_ok ps' \<and> (\<forall>e\<in>set calls. gentle w ps e)" by (rule squeeze_all) simp_all
    then show ?thesis using False by blast
  qed
qed

lemma pass_book_ok: "book_ok ps \<Longrightarrow> book_ok (fst (reclaim_pass pins max_psi w ps))"
proof -
  assume ok: "book_ok ps"
  have "book_ok (fst (fold (squeeze_one pins w) hot (ps, calls)))" if "book_ok ps" for hot ps calls
    using that by (induction hot arbitrary: ps calls) (auto simp: squeeze_one_def Let_def split: option.split prod.split)
  moreover have "book_ok (reset_steps ps)" using ok by (simp add: reset_steps_def book_ok_def comp_def case_prod_unfold)
  ultimately show ?thesis using ok by (simp add: reclaim_pass_def Let_def split: option.split)
qed

text \<open>What a run of passes knows, from nothing.\<close>

definition reclaim_passes :: "bool \<Rightarrow> real \<Rightarrow> pass_world list \<Rightarrow> (string, probe) book" where
  "reclaim_passes pins max_psi ws = fold (\<lambda>w ps. fst (reclaim_pass pins max_psi w ps)) ws []"

definition names_each_once :: "pass_world \<Rightarrow> bool" where
  "names_each_once w \<longleftrightarrow> (case pw_observed w of Some os \<Rightarrow> distinct (map ob_id os) | None \<Rightarrow> True)"

lemma passes_keep:
  assumes "\<forall>w \<in> set ws. names_each_once w"
  shows "steps_ok (reclaim_passes pins max_psi ws) \<and> book_ok (reclaim_passes pins max_psi ws)"
  using assms
proof (induction ws rule: rev_induct)
  case (snoc w ws)
  let ?ps = "reclaim_passes pins max_psi ws"
  obtain ps' calls where pass: "reclaim_pass pins max_psi w ?ps = (ps', calls)" by fastforce
  have "names_each_once w" using snoc.prems by simp
  then have ids: "distinct (map ob_id os)" if "pw_observed w = Some os" for os using that by (simp add: names_each_once_def)
  have "steps_ok ?ps" "book_ok ?ps" using snoc by simp_all
  from pass_is_gentle [OF this(1) pass this(2) ids] pass_book_ok [OF this(2), of pins max_psi w] pass show ?case
    by (simp add: reclaim_passes_def)
qed (simp add: reclaim_passes_def steps_ok_def)

text \<open>
  C40. Hot reclaim is gentle. After any passes before it, one pass asks a sandbox for at most two percent of
  what it holds, and at least a mebibyte, and only if it was looked at before and has stalled six
  milliseconds at most since; reclaim is routed to compressed memory only at first sight; and nobody is
  touched while the host's pressure is above half the ceiling of admission or swap is short. (The node
  lists each of its sandboxes once.)
\<close>

theorem reclaim_is_gentle:
  assumes "\<forall>w \<in> set (ws @ [w]). names_each_once w"
    and "ps = reclaim_passes pins max_psi ws" and "reclaim_pass pins max_psi w ps = (ps', calls)"
  shows "(\<forall>e\<in>set calls. gentle w ps e) \<and> (pw_psi w > max_psi * PSI_HEADROOM \<or> pw_swap_short w \<longrightarrow> calls = [])"
proof -
  have ok: "steps_ok ps" "book_ok ps" using passes_keep [of ws pins max_psi] assms(1,2) by simp_all
  have "names_each_once w" using assms(1) by simp
  then have ids: "distinct (map ob_id os)" if "pw_observed w = Some os" for os using that by (simp add: names_each_once_def)
  from pass_is_gentle [OF ok(1) assms(3) ok(2) ids] show ?thesis by blast
qed

definition calm_world :: pass_world where
  "calm_world = \<lparr>pw_psi = 0, pw_swap_short = False, pw_observed = Some [\<lparr>ob_id = ''sb-1'', ob_tier = Hot, ob_serving = True, ob_ip = None, ob_net_index = None, ob_egress = None\<rparr>],
     pw_pressure = (\<lambda>_. Some ''some avg10=0.00 total=9''), pw_current = (\<lambda>_. Some ''524288000''), pw_taken = (\<lambda>_. True)\<rparr>"

lemma calm_world_reads: "stall_of calm_world ''sb-1'' = Some 9" "current_of calm_world ''sb-1'' = Some 524288000"
  subgoal
    by (simp add: stall_of_def calm_world_def stall_total_us_def split_whitespace_def first_some_def List.map_filter_def
        starts_with_def parse_u64_def is_space_def dec_value_def digit_val_def is_digit_def)
  subgoal by (simp add: current_of_def calm_world_def cgroup_current_def parse_u64_def trim_def is_space_def dec_value_def digit_val_def is_digit_def)
  done

lemma calm_pass: "reclaim_pass True 20 calm_world ps = squeeze_one True calm_world ''sb-1'' (keep (\<lambda>i _. i = ''sb-1'') ps, [])"
  by (simp add: reclaim_pass_def calm_world_def PSI_HEADROOM_def)

lemma calm_world_seen: "reclaim_passes True 20 [calm_world] = [(''sb-1'', \<lparr>pb_stall = 9, pb_step = STEP_MIN\<rparr>)]"
  by (simp add: reclaim_passes_def calm_pass squeeze_one_def calm_world_reads decide_def keep_def put_def)

lemma calm_world_asks:
  "\<exists>ps'. reclaim_pass True 20 calm_world (reclaim_passes True 20 [calm_world]) = (ps', [AskReclaim ''sb-1'' 1048576])"
proof -
  have "nat \<lfloor>real 524288000 * STEP_MIN\<rfloor> = 1048576" by (simp add: STEP_MIN_def)
  then have "decide (Some \<lparr>pb_stall = 9, pb_step = STEP_MIN\<rparr>) 9 524288000 = (1048576, \<lparr>pb_stall = 9, pb_step = min (STEP_MIN * 2) STEP_MAX\<rparr>)"
    by (simp add: decide_def ASK_MIN_BYTES_def)
  moreover have "pw_taken calm_world ''sb-1''" by (simp add: calm_world_def)
  ultimately show ?thesis by (simp add: calm_pass calm_world_seen squeeze_one_def calm_world_reads keep_def)
qed

lemma reclaim_is_gentle_witness:
  "gentle calm_world (reclaim_passes True 20 [calm_world]) (AskReclaim ''sb-1'' 1048576)"
proof -
  obtain ps' where pass: "reclaim_pass True 20 calm_world (reclaim_passes True 20 [calm_world]) = (ps', [AskReclaim ''sb-1'' 1048576])"
    using calm_world_asks by blast
  have "\<forall>w \<in> set ([calm_world] @ [calm_world]). names_each_once w" by (simp add: names_each_once_def calm_world_def)
  from reclaim_is_gentle [OF this refl pass] show ?thesis by simp
qed

end
