(* ===== verification/Levers.thy ===== *)
theory Levers
  imports Reclaim
begin

text \<open>
  \<^verbatim>\<open>node/host.rs\<close>: what a node finds out about its machine at start, and what it sets up so
  that reclaimed pages have compressed memory to go to. Files of \<^verbatim>\<open>/proc\<close> and \<^verbatim>\<open>/sys\<close> are
  their contents, a probe or a command is its answer, and what is done to the host is a list of steps.
  The reading of the disk's speed is an argument.
\<close>

datatype lever = LeverAuto | LeverOn | LeverOff

definition lever_from_str :: "string \<Rightarrow> string + lever" where
  "lever_from_str s =
     (if s = ''auto'' then Inr LeverAuto else if s = ''on'' then Inr LeverOn else if s = ''off'' then Inr LeverOff
      else Inl (s @ '': expected auto, on or off''))"

section \<open>Compressed swap\<close>

definition swap_devices :: "string \<Rightarrow> string list" where
  "swap_devices s =
     List.map_filter (\<lambda>l. case split_whitespace l of [] \<Rightarrow> None | w # _ \<Rightarrow> Some w) (drop 1 (split_on (CHR 0x0A) s))"

definition zswap_enabled :: "string option \<Rightarrow> bool" where
  "zswap_enabled f = (case f of None \<Rightarrow> False | Some s \<Rightarrow> trim s = ''Y'' \<or> trim s = ''1'')"

definition has_zram :: "string list \<Rightarrow> bool" where
  "has_zram ds \<longleftrightarrow> list_ex (\<lambda>d. starts_with d ''/dev/zram'') ds"

definition compressed_swap :: "string option \<Rightarrow> string option \<Rightarrow> string option" where
  "compressed_swap swaps zswap =
     (case swaps of
        None \<Rightarrow> None
      | Some s \<Rightarrow>
          if swap_devices s = [] then None
          else if has_zram (swap_devices s) then Some ''zram''
          else if zswap_enabled zswap then Some ''zswap'' else None)"

definition pin_in_zswap :: "string option \<Rightarrow> string option \<Rightarrow> bool" where
  "pin_in_zswap swaps zswap \<longleftrightarrow> compressed_swap swaps zswap = Some ''zswap''"

definition mem_total_bytes :: "string option \<Rightarrow> nat option" where
  "mem_total_bytes meminfo =
     Option.bind meminfo (\<lambda>s.
       Option.bind (find (\<lambda>l. starts_with l ''MemTotal:'') (split_on (CHR 0x0A) s)) (\<lambda>l.
         Option.bind (case split_whitespace l of _ # w # _ \<Rightarrow> Some w | _ \<Rightarrow> None) (\<lambda>w.
           map_option (\<lambda>kb. kb * 1024 mod 2 ^ 64) (parse_u64 w))))"

definition netns_pool_for :: "nat \<Rightarrow> nat" where
  "netns_pool_for ram = min (max (ram div 2 ^ 30 * 4) 32) 256"

definition default_netns_pool :: "string option \<Rightarrow> nat" where
  "default_netns_pool meminfo = netns_pool_for (case mem_total_bytes meminfo of None \<Rightarrow> 0 | Some b \<Rightarrow> b)"

text \<open>Adding a zram device: its answers, in the order they are asked for, and the steps taken.\<close>

record zram_answers =
  za_control :: bool
  za_control_after :: bool
  za_hot_add :: "string option"
  za_algorithms :: string
  za_meminfo :: "string option"
  za_disksize_ok :: bool
  za_mkswap_ok :: bool
  za_swapon_ok :: bool

datatype host_step =
    ZswapOn
  | Modprobe
  | HotAdd string
  | WriteBlock string string
  | Mkswap
  | Swapon
  | HotRemove

definition strip_brackets :: "string \<Rightarrow> string" where
  "strip_brackets s =
     (let P = (\<lambda>c. c = CHR ''['' \<or> c = CHR '']'') in rev (dropWhile P (rev (dropWhile P s))))"

definition pick_algorithm :: "string \<Rightarrow> string" where
  "pick_algorithm offered =
     (case find (\<lambda>c. c \<in> set (map strip_brackets (split_whitespace offered))) [''zstd'', ''lz4'', ''lzo-rle'', ''lzo''] of
        Some c \<Rightarrow> c | None \<Rightarrow> ''lzo'')"

text \<open>What is done with the device once it is there: its steps, and whether it is in use.\<close>

definition set_up_zram :: "zram_answers \<Rightarrow> host_step list \<times> (string + string)" where
  "set_up_zram a =
     (let comp = pick_algorithm (za_algorithms a); algo = WriteBlock ''comp_algorithm'' comp
      in case mem_total_bytes (za_meminfo a) of
           None \<Rightarrow> ([algo], Inl ''reading MemTotal'')
         | Some ram \<Rightarrow>
             (let size = [algo, WriteBlock ''disksize'' (dec ram)]
              in if \<not> za_disksize_ok a then (size, Inl ''sizing zram'')
                 else let limit = size @ [WriteBlock ''mem_limit'' (dec (ram div 4)), Mkswap]
                      in if \<not> za_mkswap_ok a then (limit, Inl ''mkswap failed'')
                         else if \<not> za_swapon_ok a then (limit @ [Swapon], Inl ''swapon failed'')
                         else (limit @ [Swapon], Inr (comp @ '', '' @ dec (ram div 2 ^ 20) @ '' MiB logical, using at most '' @
                                dec (ram div 4 div 2 ^ 20) @ '' MiB of RAM''))))"

definition parse_u32_nat :: "string \<Rightarrow> nat option" where
  "parse_u32_nat s = Option.bind (parse_u64 s) (\<lambda>n. if n < 2 ^ 32 then Some n else None)"

definition make_zram :: "zram_answers \<Rightarrow> host_step list \<times> (string + string)" where
  "make_zram a =
     (let first = (if za_control a then [] else [Modprobe])
      in if \<not> za_control a \<and> \<not> za_control_after a then (first, Inl ''no zram in this kernel, or no permission to load it'')
         else case za_hot_add a of
                None \<Rightarrow> (first, Inl ''adding a zram device'')
              | Some text \<Rightarrow>
                  (case parse_u32_nat (trim text) of
                     None \<Rightarrow> (first @ [HotAdd text], Inl ''reading the new zram device number'')
                   | Some n \<Rightarrow>
                       (case set_up_zram a of
                          (steps, Inr what) \<Rightarrow> (first @ HotAdd text # steps, Inr (''made /dev/zram'' @ dec n @ '': '' @ what))
                        | (steps, Inl e) \<Rightarrow> (first @ HotAdd text # steps @ [HotRemove], Inl e))))"

text \<open>\<open>knob\<close> is what writing the switch of zswap answered, \<open>after\<close> what it then reads.\<close>

definition bootstrap_compressed_swap ::
  "lever \<Rightarrow> string option \<Rightarrow> string option \<Rightarrow> string + unit \<Rightarrow> string option \<Rightarrow> zram_answers \<Rightarrow> host_step list \<times> bool \<times> string" where
  "bootstrap_compressed_swap lv swaps zswap knob after a =
     (if lv = LeverOff then ([], False, ''turned off'')
      else let ds = swap_devices (case swaps of None \<Rightarrow> [] | Some s \<Rightarrow> s)
           in if has_zram ds then ([], False, ''zram swap already in use'')
              else if ds \<noteq> [] then
                (if zswap_enabled zswap then ([], False, ''zswap already on in front of '' @ hd ds)
                 else case knob of
                        Inr _ \<Rightarrow> if zswap_enabled after then ([ZswapOn], True, ''turned zswap on in front of '' @ hd ds)
                                 else ([ZswapOn], False, ''zswap would not turn on; reclaim stays off'')
                      | Inl e \<Rightarrow> ([], False, ''could not turn zswap on ('' @ e @ ''); reclaim stays off''))
              else (case make_zram a of
                      (steps, Inr what) \<Rightarrow> (steps, True, what)
                    | (steps, Inl e) \<Rightarrow> (steps, False, e @ ''; reclaim stays off'')))"

definition decide_reclaim :: "lever \<Rightarrow> string option \<Rightarrow> bool \<times> string" where
  "decide_reclaim lv compressed =
     (case (lv, compressed) of
        (LeverOff, _) \<Rightarrow> (False, ''turned off'')
      | (LeverOn, Some kind) \<Rightarrow> (True, ''forced on; swap is '' @ kind)
      | (LeverOn, None) \<Rightarrow> (True, ''forced on, but no compressed swap: frozen pages will go to disk'')
      | (LeverAuto, Some kind) \<Rightarrow> (True, ''swap is '' @ kind)
      | (LeverAuto, None) \<Rightarrow> (False, ''no zswap or zram; reclaiming to disk swap would thaw slower than a snapshot restores''))"

section \<open>Compressing snapshots\<close>

definition COMPRESS_BELOW_MBPS :: real where "COMPRESS_BELOW_MBPS = 500"
definition COMPRESS_HYSTERESIS_MBPS :: real where "COMPRESS_HYSTERESIS_MBPS = 100"

definition compress_given :: "real \<Rightarrow> bool option \<Rightarrow> bool" where
  "compress_given mbps before =
     (case before of
        Some True \<Rightarrow> mbps < COMPRESS_BELOW_MBPS + COMPRESS_HYSTERESIS_MBPS
      | Some False \<Rightarrow> mbps < COMPRESS_BELOW_MBPS - COMPRESS_HYSTERESIS_MBPS
      | None \<Rightarrow> mbps < COMPRESS_BELOW_MBPS)"

definition read_memo :: "string option \<Rightarrow> bool option" where
  "read_memo memo =
     Option.bind memo (\<lambda>s. case split_whitespace s of
        w # _ \<Rightarrow> if w = ''on'' then Some True else if w = ''off'' then Some False else None
      | [] \<Rightarrow> None)"

definition write_memo :: "bool \<Rightarrow> string" where
  "write_memo on = (if on then ''on'' else ''off'') @ [CHR 0x0A]"

text \<open>The decision and what the memo holds after it; \<open>wrote\<close> is whether it could be written.\<close>

definition decide_compression :: "lever \<Rightarrow> string + real \<Rightarrow> bool \<Rightarrow> string option \<Rightarrow> bool \<times> string option" where
  "decide_compression lv disk wrote memo =
     (let on = (case lv of
                  LeverOff \<Rightarrow> False
                | LeverOn \<Rightarrow> True
                | LeverAuto \<Rightarrow> (case disk of Inr mbps \<Rightarrow> compress_given mbps (read_memo memo) | Inl _ \<Rightarrow> False))
      in (on, if wrote then Some (write_memo on) else memo))"

section \<open>Never half-done\<close>

text \<open>Whatever fails, a device that was added is taken away again, unless its number could not be read.\<close>

lemma zram_all_or_nothing:
  assumes "make_zram a = (steps, r)" "\<And>t. za_hot_add a = Some t \<Longrightarrow> parse_u32_nat (trim t) \<noteq> None"
  shows "case r of
      Inr _ \<Rightarrow> last steps = Swapon \<and> HotRemove \<notin> set steps
    | Inl _ \<Rightarrow> (\<forall>t. HotAdd t \<notin> set steps) \<or> last steps = HotRemove"
proof -
  have "HotRemove \<notin> set (fst (set_up_zram a)) \<and> (\<forall>w. snd (set_up_zram a) = Inr w \<longrightarrow> last (fst (set_up_zram a)) = Swapon \<and> fst (set_up_zram a) \<noteq> [])"
    by (auto simp: set_up_zram_def Let_def split: option.split)
  then show ?thesis
    using assms by (cases "set_up_zram a") (auto simp: make_zram_def Let_def split: option.splits sum.splits if_splits)
qed

text \<open>Reclaim that decides for itself never sends pages to a disk.\<close>

lemma auto_reclaim_compressed:
  "fst (decide_reclaim LeverAuto (compressed_swap swaps zswap)) \<longleftrightarrow>
     (\<exists>s. swaps = Some s \<and> swap_devices s \<noteq> [] \<and> (has_zram (swap_devices s) \<or> zswap_enabled zswap))"
  by (auto simp: decide_reclaim_def compressed_swap_def split: option.split)

section \<open>No flapping\<close>

lemma read_write_memo: "read_memo (Some (write_memo on)) = Some on"
  by (cases on) (simp_all add: read_memo_def write_memo_def split_whitespace_def is_space_def)

text \<open>The decisions of one start after another.\<close>

fun starts :: "(string + real) list \<Rightarrow> string option \<Rightarrow> bool list" where
  "starts [] memo = []"
| "starts (d # ds) memo = (case decide_compression LeverAuto d True memo of (on, memo') \<Rightarrow> on # starts ds memo')"

lemma starts_length [simp]: "length (starts ds memo) = length ds"
  by (induction ds arbitrary: memo) (auto split: prod.split)

text \<open>
  A node does not flap between formats. Over any run of starts, with the levers to be found out,
  a start decides otherwise than the one before only if the disk could not be read or its reading is
  clearly on the other side: from compressing to not only at 600 MB/s and more, the other way only
  below 400.
\<close>

theorem compression_does_not_flap:
  assumes "Suc k < length ds" "ds ! Suc k = Inr mbps" "starts ds memo ! Suc k \<noteq> starts ds memo ! k"
  shows "if starts ds memo ! k then 600 \<le> mbps else mbps < 400"
  using assms
proof (induction ds arbitrary: k memo)
  case (Cons d ds)
  obtain on memo' where d: "decide_compression LeverAuto d True memo = (on, memo')" by fastforce
  then have memo': "memo' = Some (write_memo on)" by (auto simp: decide_compression_def Let_def)
  show ?case
  proof (cases k)
    case 0
    then obtain ds' where ds: "ds = Inr mbps # ds'" using Cons.prems(1,2) by (cases ds) auto
    have "starts (d # ds) memo ! 0 = on" "starts (d # ds) memo ! Suc 0 = compress_given mbps (Some on)"
      using d by (simp_all add: ds memo') (simp_all add: decide_compression_def Let_def read_write_memo)
    then show ?thesis
      using Cons.prems(3) 0 by (cases on) (auto simp: compress_given_def COMPRESS_BELOW_MBPS_def COMPRESS_HYSTERESIS_MBPS_def)
  next
    case (Suc j)
    then show ?thesis using Cons.IH [of j memo'] Cons.prems by (simp add: d)
  qed
qed simp

lemma compression_does_not_flap_witness:
  "starts [Inr 498, Inr 645, Inr 498] None = [True, False, False] \<and> (600 :: real) \<le> 645"
proof -
  have "decide_compression LeverAuto (Inr x) True None = (x < 500, Some (write_memo (x < 500)))"
      "decide_compression LeverAuto (Inr x) True (Some (write_memo b)) =
        (if b then x < 600 else x < 400, Some (write_memo (if b then x < 600 else x < 400)))" for x b
    by (cases b; simp add: decide_compression_def Let_def read_write_memo compress_given_def COMPRESS_BELOW_MBPS_def
        COMPRESS_HYSTERESIS_MBPS_def; simp add: read_memo_def)+
  then have starts: "starts [Inr 498, Inr 645, Inr 498] None = [True, False, False]" by simp
  then show ?thesis using compression_does_not_flap [of 0 "[Inr 498, Inr 645, Inr 498]" 645 None] by simp
qed

end
