(* ===== verification/Runsc.thy ===== *)
theory Runsc
  imports Egress
begin

text \<open>
  \<^verbatim>\<open>node/backend.rs\<close>: gVisor as an engine. A child process is when it exits and with what
  (\<open>exited now\<close>, nothing while it runs); a call of \<^verbatim>\<open>runsc\<close> is its arguments; an image is the
  contents of its files. Properties: every call ends, a layout check accepts exactly the layout it
  describes, and the files two calls share.
\<close>

section \<open>Waiting for a child\<close>

definition RUNSC_TIMEOUT :: nat where "RUNSC_TIMEOUT = 20000"
definition RUNSC_SNAPSHOT_TIMEOUT :: nat where "RUNSC_SNAPSHOT_TIMEOUT = 120000"
definition CHILD_POLL :: nat where "CHILD_POLL = 2"

text \<open>The loop over \<^verbatim>\<open>try_wait\<close>, and the time it ends: at the status, or killed at the deadline.\<close>

function wait_child :: "(nat \<Rightarrow> 's option) \<Rightarrow> nat \<Rightarrow> nat \<Rightarrow> 's option \<times> nat" where
  "wait_child exited deadline now =
     (case exited now of
        Some s \<Rightarrow> (Some s, now)
      | None \<Rightarrow> if now \<ge> deadline then (None, now) else wait_child exited deadline (now + CHILD_POLL))"
  by pat_completeness auto
termination by (relation "measure (\<lambda>(_, deadline, now). deadline - now)") (auto simp: CHILD_POLL_def)

declare wait_child.simps [simp del]

text \<open>An exit status: a code, or nothing where a signal ended it.\<close>

type_synonym exit_status = "int option"

definition success :: "exit_status \<Rightarrow> bool" where
  "success s \<longleftrightarrow> s = Some 0"

text \<open>\<^verbatim>\<open>spawn\<close>: \<open>log\<close> is whether the log could be opened, \<open>child\<close> what starting it answered.\<close>

definition runsc_spawn :: "bool \<Rightarrow> string + (nat \<Rightarrow> exit_status option) \<Rightarrow> nat \<Rightarrow> string + unit" where
  "runsc_spawn log child now =
     (if \<not> log then Inl ''opening the log''
      else case child of
        Inl e \<Rightarrow> Inl (''running runsc: '' @ e)
      | Inr exited \<Rightarrow>
          (case fst (wait_child exited (now + RUNSC_SNAPSHOT_TIMEOUT) now) of
             None \<Rightarrow> Inl ''did not finish''
           | Some s \<Rightarrow> if success s then Inr () else Inl ''exited with an error; see its log''))"

definition runsc_version :: "string option \<Rightarrow> string" where
  "runsc_version out = (case out of None \<Rightarrow> [] | Some s \<Rightarrow> hd (split_on (CHR 0x0A) s))"

section \<open>Starting, restoring, removing\<close>

datatype runsc_call =
    RsCreate string string
  | RsStart string
  | RsRestore string string string
  | RsCheckpoint string string bool
  | RsDelete string
  | RsKill string

text \<open>\<open>create\<close> and \<open>start\<close> are what the two spawns answered.\<close>

definition runsc_boot :: "string + unit \<Rightarrow> string + unit \<Rightarrow> string \<Rightarrow> string \<Rightarrow> runsc_call list \<times> (string + unit)" where
  "runsc_boot created started i bundle =
     (case created of
        Inl e \<Rightarrow> ([RsCreate i bundle, RsDelete i], Inl (''runsc create '' @ i @ '': '' @ e))
      | Inr _ \<Rightarrow>
          (case started of
             Inl e \<Rightarrow> ([RsCreate i bundle, RsStart i, RsDelete i], Inl (''runsc start '' @ i @ '': '' @ e))
           | Inr _ \<Rightarrow> ([RsCreate i bundle, RsStart i], Inr ())))"

definition runsc_restore :: "string + unit \<Rightarrow> string \<Rightarrow> string \<Rightarrow> string \<Rightarrow> runsc_call list \<times> (string + unit)" where
  "runsc_restore restored i bundle img =
     (case restored of
        Inl e \<Rightarrow> ([RsRestore i bundle img, RsDelete i], Inl e)
      | Inr _ \<Rightarrow> ([RsRestore i bundle img], Inr ()))"

definition runsc_checkpoint :: "string + string \<Rightarrow> string \<Rightarrow> string \<Rightarrow> bool \<Rightarrow> runsc_call list \<times> (string + unit)" where
  "runsc_checkpoint answered i img compress =
     ([RsCheckpoint i img compress], case answered of Inl e \<Rightarrow> Inl e | Inr _ \<Rightarrow> Inr ())"

definition runsc_exec :: "string list \<Rightarrow> (nat \<Rightarrow> exit_status option) \<Rightarrow> nat \<Rightarrow> nat \<Rightarrow> string \<Rightarrow> string \<Rightarrow> string + string \<times> string \<times> int" where
  "runsc_exec args exited timeout now out msgs =
     (if args = [] then Inl ''exec needs a command to run''
      else case fst (wait_child exited (now + timeout) now) of
             None \<Rightarrow> Inr (out, msgs @ CHR 0x0A # ''sandstorm: killed after '' @ dec (timeout div 1000) @ ''s'' @ [CHR 0x0A], 124)
           | Some s \<Rightarrow> Inr (out, msgs, case s of None \<Rightarrow> -1 | Some c \<Rightarrow> c))"

section \<open>The layout of an image\<close>

definition be_value :: "string \<Rightarrow> nat" where
  "be_value s = foldl (\<lambda>v c. 256 * v + of_char c) 0 s"

definition MAGIC :: string where "MAGIC = ''gVisorSF''"

definition runsc_validate :: "(string \<rightharpoonup> string) \<Rightarrow> string + unit" where
  "runsc_validate img =
     (case img ''checkpoint.img'' of
        None \<Rightarrow> Inl ''no checkpoint.img''
      | Some f \<Rightarrow>
          if length f < 16 then Inl ''checkpoint.img is shorter than its header''
          else if take 8 f \<noteq> MAGIC then Inl ''checkpoint.img is not a gVisor statefile''
          else let meta = be_value (take 8 (drop 8 f))
               in if meta > 16 * 2 ^ 20 \<or> length f \<le> 16 + meta then Inl ''checkpoint.img is truncated''
                  else (case (map_option length (img ''pages_meta.img''), map_option length (img ''pages.img'')) of
                          (Some m, Some _) \<Rightarrow> if 0 < m then Inr () else Inl ''checkpoint pages files are incomplete''
                        | (None, None) \<Rightarrow> Inr ()
                        | _ \<Rightarrow> Inl ''checkpoint pages files are incomplete''))"

text \<open>The layout the comment describes, and its big-endian number.\<close>

fun be_bytes :: "nat \<Rightarrow> nat \<Rightarrow> string" where
  "be_bytes 0 v = []"
| "be_bytes (Suc n) v = be_bytes n (v div 256) @ [char_of v]"

definition whole_image :: "(string \<rightharpoonup> string) \<Rightarrow> bool" where
  "whole_image img \<longleftrightarrow>
     (\<exists>meta rest. img ''checkpoint.img'' = Some (MAGIC @ be_bytes 8 (length meta) @ meta @ rest) \<and>
        rest \<noteq> [] \<and> length meta \<le> 16 * 2 ^ 20) \<and>
     (img ''pages_meta.img'' = None \<and> img ''pages.img'' = None \<or>
      (\<exists>m p. img ''pages_meta.img'' = Some m \<and> m \<noteq> [] \<and> img ''pages.img'' = Some p))"

lemma be_bytes_length [simp]: "length (be_bytes n v) = n"
  by (induction n arbitrary: v) auto

lemma be_value_snoc: "be_value (s @ [c]) = 256 * be_value s + of_char c"
  by (simp add: be_value_def)

lemma be_value_bytes: "v < 256 ^ n \<Longrightarrow> be_value (be_bytes n v) = v"
proof (induction n arbitrary: v)
  case (Suc n)
  then have "v div 256 < 256 ^ n" by (simp add: less_mult_imp_div_less mult.commute)
  then show ?case by (simp add: be_value_snoc Suc.IH)
qed (simp add: be_value_def)

lemma be_bytes_value: "be_bytes (length s) (be_value s) = s"
proof (induction s rule: rev_induct)
  case (snoc c s)
  have "(of_char c :: nat) < 256" by simp
  then have "(256 * be_value s + of_char c) div 256 = be_value s" by simp
  moreover have "char_of (256 * be_value s + of_char c :: nat) = c"
    using char_of_mod_256 [of "256 * be_value s + of_char c :: nat"] by simp
  ultimately show ?case using snoc by (simp add: be_value_snoc)
qed simp

section \<open>Properties\<close>

lemma statefile_shape:
  assumes "16 \<le> length f" "take 8 f = MAGIC" "be_value (take 8 (drop 8 f)) = n" "16 + n < length f"
  shows "f = MAGIC @ be_bytes 8 (length (take n (drop 16 f))) @ take n (drop 16 f) @ drop n (drop 16 f)" "drop n (drop 16 f) \<noteq> []"
proof -
  have "length (take n (drop 16 f)) = n" using assms(4) by simp
  moreover have "be_bytes 8 n = take 8 (drop 8 f)"
    using be_bytes_value [of "take 8 (drop 8 f)"] assms(1,3) by simp
  moreover have "f = take 8 f @ take 8 (drop 8 f) @ drop 16 f"
    using append_take_drop_id [of 8 f] append_take_drop_id [of 8 "drop 8 f"] by simp
  ultimately show "f = MAGIC @ be_bytes 8 (length (take n (drop 16 f))) @ take n (drop 16 f) @ drop n (drop 16 f)"
    using assms(2) append_take_drop_id [of n "drop 16 f"] by (metis append_assoc)
  show "drop n (drop 16 f) \<noteq> []" using assms(4) by simp
qed

text \<open>
  C34. The layout check accepts exactly whole images: the magic, the length of the metadata as eight
  bytes, the metadata itself of at most 16 MiB and some state after it, with both files of pages or
  neither, the first not empty. So an image cut off anywhere up to its metadata's end is refused.
\<close>

theorem runsc_validate_exact: "runsc_validate img = Inr () \<longleftrightarrow> whole_image img"
proof
  assume ok: "runsc_validate img = Inr ()"
  then obtain f where f: "img ''checkpoint.img'' = Some f" by (auto simp: runsc_validate_def split: option.splits)
  let ?n = "be_value (take 8 (drop 8 f))"
  have len: "16 \<le> length f" "take 8 f = MAGIC" "?n \<le> 16 * 2 ^ 20" "16 + ?n < length f"
    using ok f by (auto simp: runsc_validate_def Let_def split: if_splits)
  have "img ''pages_meta.img'' = None \<and> img ''pages.img'' = None \<or>
      (\<exists>m p. img ''pages_meta.img'' = Some m \<and> m \<noteq> [] \<and> img ''pages.img'' = Some p)"
    using ok f len by (auto simp: runsc_validate_def Let_def split: option.splits if_splits)
  moreover note shape = statefile_shape [OF len(1,2) refl len(4)]
  moreover have "length (take ?n (drop 16 f)) \<le> 16 * 2 ^ 20" using len(3) by simp
  ultimately show "whole_image img" unfolding whole_image_def f
    by (intro conjI exI [of _ "take ?n (drop 16 f)"] exI [of _ "drop ?n (drop 16 f)"]) (simp_all del: take_drop)
next
  assume "whole_image img"
  then obtain meta rest where f: "img ''checkpoint.img'' = Some (MAGIC @ be_bytes 8 (length meta) @ meta @ rest)"
      "rest \<noteq> []" "length meta \<le> 16 * 2 ^ 20"
    and pages: "img ''pages_meta.img'' = None \<and> img ''pages.img'' = None \<or>
      (\<exists>m p. img ''pages_meta.img'' = Some m \<and> m \<noteq> [] \<and> img ''pages.img'' = Some p)"
    by (auto simp: whole_image_def)
  have magic: "length MAGIC = 8" by (simp add: MAGIC_def)
  have "length meta < 256 ^ 8" using f(3) by simp
  then have "be_value (be_bytes 8 (length meta)) = length meta" by (rule be_value_bytes)
  then show "runsc_validate img = Inr ()"
    using pages f(2,3) by (auto simp: runsc_validate_def f(1) magic Let_def)
qed

text \<open>No call blocks without bound: the wait ends by the deadline and one poll more, and what has exited by then is told.\<close>

lemma wait_child_ends:
  "snd (wait_child exited deadline now) \<le> max now (deadline + 1) \<and>
   (fst (wait_child exited deadline now) = None \<longrightarrow> deadline \<le> snd (wait_child exited deadline now))"
proof (induction exited deadline now rule: wait_child.induct)
  case (1 exited deadline now)
  show ?case
    using 1 by (subst (1 2 3) wait_child.simps) (auto simp: CHILD_POLL_def split: option.split)
qed

text \<open>A container is left behind only by a start that worked.\<close>

definition leaves :: "runsc_call list \<Rightarrow> string \<Rightarrow> bool" where
  "leaves calls i \<longleftrightarrow> (\<exists>c \<in> set calls. (\<exists>b. c = RsCreate i b) \<or> (\<exists>b g. c = RsRestore i b g)) \<and> RsDelete i \<notin> set calls"

lemma failed_start_leaves_nothing:
  "leaves (fst (runsc_boot created started i bundle)) i \<longleftrightarrow> snd (runsc_boot created started i bundle) = Inr ()"
  "leaves (fst (runsc_restore restored i bundle img)) i \<longleftrightarrow> snd (runsc_restore restored i bundle img) = Inr ()"
  by (auto simp: runsc_boot_def runsc_restore_def leaves_def split: sum.split)

section \<open>Two calls at once\<close>

text \<open>
  \<^verbatim>\<open>run\<close> in its two steps over the directory of its output files: they are named after the
  process, so every call of a node has the same two. A child writes over what its file holds.
\<close>

record run_files =
  rf_out :: "string option"
  rf_err :: "string option"

definition run_begin :: "run_files \<Rightarrow> run_files" where
  "run_begin f = \<lparr>rf_out = Some [], rf_err = Some []\<rparr>"

definition child_says :: "string \<Rightarrow> run_files \<Rightarrow> run_files" where
  "child_says msg f = f\<lparr>rf_err := map_option (\<lambda>old. msg @ drop (length msg) old) (rf_err f)\<rparr>"

definition run_end :: "bool \<Rightarrow> run_files \<Rightarrow> run_files \<times> (string + string)" where
  "run_end ok f =
     (\<lparr>rf_out = None, rf_err = None\<rparr>,
      let out = (case rf_out f of Some s \<Rightarrow> s | None \<Rightarrow> []); msgs = (case rf_err f of Some s \<Rightarrow> s | None \<Rightarrow> [])
      in if ok then Inr out else Inl (''failed: '' @ trim msgs))"

text \<open>
  With two calls at once the error of one is told of the other, and its own says nothing: a call that
  fails with \<open>a\<close> and one that fails in silence, ended in the other order.
\<close>

lemma errors_change_places:
  "let f = child_says a (run_begin (run_begin \<lparr>rf_out = None, rf_err = None\<rparr>)); (f1, second) = run_end False f; (f2, first) = run_end False f1
   in second = Inl (''failed: '' @ trim a) \<and> first = Inl ''failed: ''"
  by (simp add: run_begin_def child_says_def run_end_def trim_def)

end
