(* ===== verification/History.thy ===== *)
theory History
  imports Prelude "HOL-Library.List_Lexorder" "HOL-Library.Char_ord" "HOL-Library.Product_Lexorder" "HOL-Library.Signed_Division"
    Complex_Main
begin

text \<open>
  \<^verbatim>\<open>master/series.rs\<close>: the history the console draws. The two tables are lists of rows in the
  order of their rowids. A 64-bit float is a real, or \<open>None\<close> where it is not finite. sqlite's
  \<^verbatim>\<open>LIKE .. ESCAPE\<close> is a matcher over its pattern, blind to the case of ASCII letters, and reads
  pattern and text up to the first NUL in them; its division of integers truncates. Its errors are not
  modelled, such as its refusal of a pattern of more than 50,000 bytes.
\<close>

section \<open>The tables\<close>

record sample =
  sm_ts :: int
  sm_metric :: string
  sm_key :: string
  sm_value :: real

record event =
  ev_ts :: int
  ev_kind :: string
  ev_subject :: string
  ev_detail :: string

record series =
  samples :: "sample list"
  events :: "event list"

definition KEEP :: int where "KEEP = 2 * 24 * 3600"

definition record_samples :: "int \<Rightarrow> (string \<times> string \<times> real option) list \<Rightarrow> series \<Rightarrow> series" where
  "record_samples ts rows s =
     s\<lparr>samples := samples s @ List.map_filter (\<lambda>(m, k, v). map_option (\<lambda>x. \<lparr>sm_ts = ts, sm_metric = m, sm_key = k, sm_value = x\<rparr>) v) rows\<rparr>"

definition add_event :: "int \<Rightarrow> string \<Rightarrow> string \<Rightarrow> string \<Rightarrow> series \<Rightarrow> series" where
  "add_event ts kind subject detail s =
     s\<lparr>events := events s @ [\<lparr>ev_ts = ts, ev_kind = kind, ev_subject = subject, ev_detail = detail\<rparr>]\<rparr>"

definition prune :: "int \<Rightarrow> series \<Rightarrow> series \<times> nat" where
  "prune before s =
     (s\<lparr>samples := filter (\<lambda>r. \<not> sm_ts r < before) (samples s), events := filter (\<lambda>r. \<not> ev_ts r < before) (events s)\<rparr>,
      length (filter (\<lambda>r. sm_ts r < before) (samples s)))"

section \<open>Lines\<close>

record line =
  ln_metric :: string
  ln_key :: string
  ln_points :: "(int \<times> real) list"

definition bucket :: "int \<Rightarrow> int \<Rightarrow> int" where
  "bucket step ts = ts sdiv step * step"

definition average :: "real list \<Rightarrow> real" where
  "average xs = sum_list xs / real (length xs)"

definition series_lines :: "int \<Rightarrow> int \<Rightarrow> series \<Rightarrow> line list" where
  "series_lines since step0 s =
     (let step = max step0 1;
          rows = filter (\<lambda>r. sm_ts r \<ge> since) (samples s);
          keys = sort (remdups (map (\<lambda>r. (sm_metric r, sm_key r)) rows))
      in map (\<lambda>(m, k).
            (let mine = filter (\<lambda>r. sm_metric r = m \<and> sm_key r = k) rows;
                 buckets = sort (remdups (map (\<lambda>r. bucket step (sm_ts r)) mine))
             in \<lparr>ln_metric = m, ln_key = k,
                 ln_points = map (\<lambda>b. (b, average (map sm_value (filter (\<lambda>r. bucket step (sm_ts r) = b) mine)))) buckets\<rparr>)) keys)"

section \<open>Events\<close>

text \<open>\<^verbatim>\<open>LIKE\<close> with a backslash for its escape.\<close>

function like :: "string \<Rightarrow> string \<Rightarrow> bool" where
  "like [] s \<longleftrightarrow> s = []"
| "like (c # p) s \<longleftrightarrow>
     (if c = CHR ''%'' then like p s \<or> (case s of [] \<Rightarrow> False | _ # s' \<Rightarrow> like (c # p) s')
      else if c = CHR 0x5C then
        (case p of [] \<Rightarrow> False | e # p' \<Rightarrow> (case s of [] \<Rightarrow> False | x # s' \<Rightarrow> ascii_lower x = ascii_lower e \<and> like p' s'))
      else case s of
             [] \<Rightarrow> False
           | x # s' \<Rightarrow> (c = CHR ''_'' \<or> ascii_lower x = ascii_lower c) \<and> like p s')"
  by pat_completeness auto
termination by (relation "measure (\<lambda>(p, s). length p + length s)") auto

definition before_nul :: "string \<Rightarrow> string" where
  "before_nul = takeWhile (\<lambda>c. c \<noteq> CHR 0x00)"

definition sql_like :: "string \<Rightarrow> string \<Rightarrow> bool" where
  "sql_like p s = like (before_nul p) (before_nul s)"

definition replace_one :: "char \<Rightarrow> string \<Rightarrow> string" where
  "replace_one c s = concat (map (\<lambda>x. if x = c then [CHR 0x5C, c] else [x]) s)"

definition search_pattern :: "string \<Rightarrow> string" where
  "search_pattern q =
     ''%'' @ replace_one (CHR ''_'') (replace_one (CHR ''%'') (replace_one (CHR 0x5C) q)) @ ''%''"

definition event_asked :: "int \<Rightarrow> string list \<Rightarrow> string \<Rightarrow> event \<Rightarrow> bool" where
  "event_asked since kinds q e \<longleftrightarrow>
     ev_ts e \<ge> since \<and> (kinds = [] \<or> ev_kind e \<in> set kinds) \<and>
     (q = [] \<or> sql_like (search_pattern q) (ev_subject e) \<or> sql_like (search_pattern q) (ev_detail e))"

definition events_page :: "int \<Rightarrow> string list \<Rightarrow> string \<Rightarrow> nat \<Rightarrow> nat \<Rightarrow> series \<Rightarrow> event list \<times> nat" where
  "events_page since kinds q limit offset s =
     (let found = filter (event_asked since kinds q) (events s)
      in (take limit (drop offset (sort_key (\<lambda>e. - ev_ts e) (rev found))), length found))"

definition recent_events :: "int \<Rightarrow> nat \<Rightarrow> series \<Rightarrow> event list" where
  "recent_events since limit s = fst (events_page since [] [] limit 0 s)"

section \<open>A search is for the text\<close>

lemma replace_one_Nil [simp]: "replace_one c [] = []"
  by (simp add: replace_one_def)

lemma replace_one_Cons [simp]: "replace_one c (x # s) = (if x = c then [CHR 0x5C, c] else [x]) @ replace_one c s"
  by (simp add: replace_one_def)

definition escaped :: "string \<Rightarrow> string" where
  "escaped q = replace_one (CHR ''_'') (replace_one (CHR ''%'') (replace_one (CHR 0x5C) q))"

lemma escaped_Nil [simp]: "escaped [] = []"
  by (simp add: escaped_def)

lemma escaped_Cons [simp]:
  "escaped (c # q) = (if c = CHR 0x5C \<or> c = CHR ''%'' \<or> c = CHR ''_'' then [CHR 0x5C, c] else [c]) @ escaped q"
  by (simp add: escaped_def)

declare like.simps [simp del]

lemma like_Nil [simp]: "like [] s \<longleftrightarrow> s = []"
  by (simp add: like.simps)

lemma like_any: "like (CHR ''%'' # p) s \<longleftrightarrow> (\<exists>a b. s = a @ b \<and> like p b)"
proof (induction s)
  case Nil
  then show ?case by (simp add: like.simps(2))
next
  case (Cons x s)
  have "like (CHR ''%'' # p) (x # s) \<longleftrightarrow> like p (x # s) \<or> like (CHR ''%'' # p) s"
    by (subst like.simps(2)) simp
  then show ?case unfolding Cons.IH by (auto simp: Cons_eq_append_conv)
qed

lemma like_escaped:
  "like (escaped q @ p) s \<longleftrightarrow> (\<exists>a b. s = a @ b \<and> map ascii_lower a = map ascii_lower q \<and> like p b)"
proof (induction q arbitrary: s)
  case (Cons c q)
  have step: "like (escaped (c # q) @ p) s \<longleftrightarrow>
      (case s of [] \<Rightarrow> False | x # s' \<Rightarrow> ascii_lower x = ascii_lower c \<and> like (escaped q @ p) s')"
    by (auto simp: like.simps(2) split: list.splits)
  show ?case
  proof
    assume "like (escaped (c # q) @ p) s"
    then obtain x s' a b where "s = x # s'" "ascii_lower x = ascii_lower c" "s' = a @ b"
        "map ascii_lower a = map ascii_lower q" "like p b"
      unfolding step Cons.IH by (auto split: list.splits)
    then show "\<exists>a b. s = a @ b \<and> map ascii_lower a = map ascii_lower (c # q) \<and> like p b"
      by (intro exI [of _ "x # a"] exI [of _ b]) simp
  next
    assume "\<exists>a b. s = a @ b \<and> map ascii_lower a = map ascii_lower (c # q) \<and> like p b"
    then show "like (escaped (c # q) @ p) s" unfolding step Cons.IH by (fastforce simp: map_eq_Cons_conv)
  qed
qed simp

lemma contains_lower:
  "contains_str (map ascii_lower s) (map ascii_lower q) \<longleftrightarrow>
     (\<exists>a b c. s = a @ b @ c \<and> map ascii_lower b = map ascii_lower q)"
proof
  assume "contains_str (map ascii_lower s) (map ascii_lower q)"
  then obtain u v where "map ascii_lower s = u @ map ascii_lower q @ v" by (auto simp: contains_str_def sublist_def)
  then obtain a r where a: "s = a @ r" "map ascii_lower q @ v = map ascii_lower r" by (auto simp: map_eq_append_conv)
  obtain b c where "r = b @ c" "map ascii_lower b = map ascii_lower q"
    using a(2) [symmetric] by (auto simp: map_eq_append_conv)
  then show "\<exists>a b c. s = a @ b @ c \<and> map ascii_lower b = map ascii_lower q" using a(1) by blast
next
  assume "\<exists>a b c. s = a @ b @ c \<and> map ascii_lower b = map ascii_lower q"
  then show "contains_str (map ascii_lower s) (map ascii_lower q)" by (auto simp: contains_str_def)
qed

lemma escaped_plain: "CHR 0x00 \<in> set (escaped q) \<longleftrightarrow> CHR 0x00 \<in> set q"
  by (induction q) auto

lemma before_nul_Cons: "before_nul (c # s) = (if c = CHR 0x00 then [] else c # before_nul s)"
  by (simp add: before_nul_def)

lemma before_nul_id: "CHR 0x00 \<notin> set s \<Longrightarrow> before_nul s = s"
  by (simp add: before_nul_def takeWhile_eq_all_conv) blast

lemma before_nul_escaped: "CHR 0x00 \<in> set q \<Longrightarrow> before_nul (escaped q @ p) = escaped (before_nul q)"
proof (induction q)
  case (Cons c q)
  then show ?case by (cases "c = CHR 0x00") (auto simp: before_nul_Cons)
qed simp

lemma ends_lower:
  "suffix (map ascii_lower q) (map ascii_lower s) \<longleftrightarrow> (\<exists>a b. s = a @ b \<and> map ascii_lower b = map ascii_lower q)"
  by (simp add: suffix_def map_eq_append_conv) metis

text \<open>What a search for a text finds another text by.\<close>

definition found_in :: "string \<Rightarrow> string \<Rightarrow> bool" where
  "found_in q s =
     (if CHR 0x00 \<in> set q then suffix (map ascii_lower (before_nul q)) (map ascii_lower (before_nul s))
      else contains_str (map ascii_lower (before_nul s)) (map ascii_lower q))"

lemma search_is_literal: "sql_like (search_pattern q) s \<longleftrightarrow> found_in q s"
proof -
  have p: "search_pattern q = CHR ''%'' # escaped q @ [CHR ''%'']" by (simp add: search_pattern_def escaped_def)
  show ?thesis
  proof (cases "CHR 0x00 \<in> set q")
    case True
    have "like (escaped (before_nul q)) t \<longleftrightarrow> map ascii_lower t = map ascii_lower (before_nul q)" for t
      using like_escaped [of "before_nul q" "[]" t] by auto
    with True show ?thesis
      unfolding p sql_like_def by (simp add: before_nul_Cons before_nul_escaped like_any found_in_def ends_lower)
  next
    case False
    then have "before_nul (escaped q @ [CHR ''%'']) = escaped q @ [CHR ''%'']"
      by (intro before_nul_id) (simp add: escaped_plain)
    moreover have "like [CHR ''%''] b" for b by (auto simp: like_any)
    ultimately show ?thesis using False
      unfolding p sql_like_def by (simp add: before_nul_Cons like_any like_escaped found_in_def contains_lower) auto
  qed
qed

lemma pages_cover:
  "0 < limit \<Longrightarrow> k * limit \<ge> length (filter (event_asked since kinds q) (events s)) \<Longrightarrow>
   concat (map (\<lambda>i. fst (events_page since kinds q limit (i * limit) s)) [0..<k]) =
   sort_key (\<lambda>e. - ev_ts e) (rev (filter (event_asked since kinds q) (events s)))"
proof -
  assume "k * limit \<ge> length (filter (event_asked since kinds q) (events s))"
  moreover have "concat (map (\<lambda>i. take limit (drop (i * limit) xs)) [0..<k]) = take (k * limit) xs" for xs :: "event list"
  proof (induction k)
    case (Suc k)
    then show ?case using take_add [of "k * limit" limit xs] by (simp add: add.commute)
  qed simp
  ultimately show ?thesis by (simp add: events_page_def Let_def)
qed

text \<open>
  C36. The pages of the console's events are exactly what was searched for. Pages of one table read with
  one start hold the events since that start, of the kinds asked for, whose subject or detail
  contains the text asked for, whatever the case of its letters and though the text has characters that
  mean something in a pattern; each once, newest first, and the total told with every page is their number. NUL is the
  exception: a subject or detail is searched up to its first NUL, and of a text with a NUL in it the part before
  that is searched for, at the end only. (Between two requests of the console the table may
  grow, \<open>new_event_repeats_a_row\<close>, and the start, counted back from now, moves on.)
\<close>

theorem event_pages_are_the_search:
  assumes "0 < limit" and "snd (events_page since kinds q limit 0 s) \<le> k * limit"
  shows "let found = concat (map (\<lambda>i. fst (events_page since kinds q limit (i * limit) s)) [0..<k]) in
    sorted (map (\<lambda>e. - ev_ts e) found) \<and>
    length found = snd (events_page since kinds q limit 0 s) \<and>
    (\<forall>e. count_list found e = (if ev_ts e \<ge> since \<and> (kinds = [] \<or> ev_kind e \<in> set kinds) \<and>
         (q = [] \<or> found_in q (ev_subject e) \<or> found_in q (ev_detail e))
       then count_list (events s) e else 0))"
proof -
  let ?f = "filter (event_asked since kinds q) (events s)"
  have all: "concat (map (\<lambda>i. fst (events_page since kinds q limit (i * limit) s)) [0..<k]) =
      sort_key (\<lambda>e. - ev_ts e) (rev ?f)"
    by (rule pages_cover [OF assms(1)]) (use assms(2) in \<open>simp add: events_page_def Let_def\<close>)
  have count: "count_list (sort_key f xs) e = count_list xs e" for f :: "event \<Rightarrow> int" and xs e
    by (metis count_list_eq_length_filter filter_sort length_sort)
  have "count_list (rev xs) e = count_list xs e" for xs :: "event list" and e by (simp add: count_list_rev)
  moreover have "count_list (filter P xs) e = (if P e then count_list xs e else 0)" for P and xs :: "event list" and e
    by (induction xs) auto
  ultimately show ?thesis
    unfolding all Let_def by (simp add: count event_asked_def search_is_literal) (simp add: events_page_def Let_def)
qed

definition one_event :: event where
  "one_event = \<lparr>ev_ts = 7, ev_kind = ''n'', ev_subject = ''a'', ev_detail = ''at 50% now''\<rparr>"

definition three_events :: series where
  "three_events = \<lparr>samples = [], events = [one_event, one_event\<lparr>ev_ts := 4\<rparr>, one_event\<lparr>ev_detail := ''at 50 now''\<rparr>]\<rparr>"

lemma event_pages_are_the_search_witness:
  "count_list (concat (map (\<lambda>i. fst (events_page 5 [] ''50%'' 1 (i * 1) three_events)) [0..<3])) one_event = 1"
proof -
  have "snd (events_page 5 [] ''50%'' 1 0 three_events) \<le> 3 * 1" 
    by (simp add: events_page_def Let_def three_events_def)
  from event_pages_are_the_search [OF zero_less_one this]
  have "count_list (concat (map (\<lambda>i. fst (events_page 5 [] ''50%'' 1 (i * 1) three_events)) [0..<3])) one_event =
    (if found_in ''50%'' ''a'' \<or> found_in ''50%'' ''at 50% now''
     then count_list (events three_events) one_event else 0)"
    by (simp add: Let_def one_event_def)
  moreover have "found_in ''50%'' ''at 50% now''" by code_simp
  moreover have "count_list (events three_events) one_event = 1" by (simp add: three_events_def one_event_def)
  ultimately show ?thesis by simp
qed

text \<open>
  A page is found by how many rows come before it, so an event that arrives between two pages pushes the
  last row of the one onto the next.
\<close>

theorem new_event_repeats_a_row:
  assumes "event_asked since kinds q \<lparr>ev_ts = ts, ev_kind = kd, ev_subject = sb, ev_detail = dt\<rparr>"
    and "\<forall>e \<in> set (events s). ev_ts e \<le> ts" and "0 < limit" and "limit \<le> snd (events_page since kinds q limit 0 s)"
  shows "hd (fst (events_page since kinds q limit limit (add_event ts kd sb dt s))) = last (fst (events_page since kinds q limit 0 s))"
proof -
  let ?e = "\<lparr>ev_ts = ts, ev_kind = kd, ev_subject = sb, ev_detail = dt\<rparr>"
  let ?f = "filter (event_asked since kinds q) (events s)"
  let ?l = "sort_key (\<lambda>e. - ev_ts e) (rev ?f)"
  have new: "sort_key (\<lambda>e. - ev_ts e) (?e # rev ?f) = ?e # ?l"
    by (simp add: insort_is_Cons assms(2))
  have len: "limit \<le> length ?l" using assms(4) by (simp add: events_page_def Let_def)
  obtain n where n: "limit = Suc n" using assms(3) by (cases limit) auto
  have "hd (take limit (drop n ?l)) = ?l ! n" using len n by (simp add: hd_drop_conv_nth)
  moreover have "last (take limit ?l) = ?l ! n" using len n by (simp add: take_Suc_conv_app_nth)
  ultimately show ?thesis using assms(1) new n by (simp add: events_page_def Let_def add_event_def)
qed

text \<open>What is pruned is what is old, and nothing else.\<close>

lemma prune_keeps_the_recent:
  "samples (fst (prune before s)) = filter (\<lambda>r. before \<le> sm_ts r) (samples s)"
  "events (fst (prune before s)) = filter (\<lambda>r. before \<le> ev_ts r) (events s)"
  by (simp_all add: prune_def not_less)

end
