(* ===== verification/Metrics.thy ===== *)
theory Metrics
  imports Tier Complex_Main
begin

text \<open>
  \<^verbatim>\<open>master/metrics.rs\<close>: what the master counts about itself, without the text a scraper is given.
  The counters are natural numbers, an event a billion times a second being six centuries from
  2^64; a \<^verbatim>\<open>Duration\<close> is a number of nanoseconds, and a 64-bit float a real. The property at
  the end is what a quantile of such a histogram says of the durations it was made from.
\<close>

section \<open>Histograms\<close>

definition BUCKETS :: "real list" where
  "BUCKETS = [5 / 10000, 1 / 1000, 25 / 10000, 5 / 1000, 1 / 100, 25 / 1000, 5 / 100, 1 / 10, 25 / 100, 5 / 10, 1, 25 / 10, 5, 10]"

record histogram =
  hg_buckets :: "nat list"
  hg_sum_nanos :: nat
  hg_count :: nat

definition new_histogram :: histogram where
  "new_histogram = \<lparr>hg_buckets = replicate (length BUCKETS) 0, hg_sum_nanos = 0, hg_count = 0\<rparr>"

definition as_secs_f64 :: "nat \<Rightarrow> real" where
  "as_secs_f64 d = real d / 10 ^ 9"

text \<open>\<^verbatim>\<open>partition_point\<close> of an ascending slice.\<close>

definition bucket_of :: "real \<Rightarrow> nat" where
  "bucket_of s = length (takeWhile (\<lambda>b. b < s) BUCKETS)"

definition observe_duration :: "nat \<Rightarrow> histogram \<Rightarrow> histogram" where
  "observe_duration d h =
     (let i = bucket_of (as_secs_f64 d);
          bs = (if i < length BUCKETS then (hg_buckets h)[i := hg_buckets h ! i + 1] else hg_buckets h)
      in h\<lparr>hg_buckets := bs, hg_sum_nanos := hg_sum_nanos h + d, hg_count := hg_count h + 1\<rparr>)"

record hist_snap =
  sn_buckets :: "nat list"
  sn_count :: nat

definition no_snap :: hist_snap where
  "no_snap = \<lparr>sn_buckets = replicate (length BUCKETS) 0, sn_count = 0\<rparr>"

definition hist_snap_of :: "histogram \<Rightarrow> hist_snap" where
  "hist_snap_of h = \<lparr>sn_buckets = hg_buckets h, sn_count = hg_count h\<rparr>"

definition snap_add :: "hist_snap \<Rightarrow> hist_snap \<Rightarrow> hist_snap" where
  "snap_add a b = \<lparr>sn_buckets = map2 (+) (sn_buckets a) (sn_buckets b), sn_count = sn_count a + sn_count b\<rparr>"

definition snap_since :: "hist_snap \<Rightarrow> hist_snap \<Rightarrow> hist_snap" where
  "snap_since a earlier = \<lparr>sn_buckets = map2 (-) (sn_buckets a) (sn_buckets earlier), sn_count = sn_count a - sn_count earlier\<rparr>"

fun find_quantile :: "real \<Rightarrow> nat \<Rightarrow> real \<Rightarrow> (nat \<times> real) list \<Rightarrow> real option" where
  "find_quantile want acc lo [] = None"
| "find_quantile want acc lo ((n, edge) # r) =
     (if 0 < n \<and> real (acc + n) \<ge> want
      then Some (lo + (edge - lo) * max 0 (min 1 ((want - real acc) / real n)))
      else find_quantile want (acc + n) edge r)"

definition quantile :: "real \<Rightarrow> hist_snap \<Rightarrow> real option" where
  "quantile q s =
     (if sn_count s = 0 then None
      else case find_quantile (max 0 (min 1 q) * real (sn_count s)) 0 0 (zip (sn_buckets s) BUCKETS) of
             None \<Rightarrow> Some (last BUCKETS)
           | Some v \<Rightarrow> Some v)"

section \<open>The counters of the master\<close>

record route_stats =
  rt_latency :: histogram
  rt_ok :: nat
  rt_client_err :: nat
  rt_server_err :: nat

record metrics =
  mt_creates_placed :: nat
  mt_creates_refused :: nat
  mt_deletes :: nat
  mt_woken :: nat
  mt_woken_from :: "nat list"
  mt_evicted :: nat
  mt_demotions :: "nat list"
  mt_store_wait :: histogram
  mt_http :: "(string \<times> string, route_stats) book"

definition new_route_stats :: route_stats where
  "new_route_stats = \<lparr>rt_latency = new_histogram, rt_ok = 0, rt_client_err = 0, rt_server_err = 0\<rparr>"

definition new_metrics :: metrics where
  "new_metrics = \<lparr>mt_creates_placed = 0, mt_creates_refused = 0, mt_deletes = 0, mt_woken = 0,
     mt_woken_from = replicate 4 0, mt_evicted = 0, mt_demotions = replicate 4 0,
     mt_store_wait = new_histogram, mt_http = []\<rparr>"

definition observe_http :: "string \<Rightarrow> string \<Rightarrow> nat \<Rightarrow> nat \<Rightarrow> metrics \<Rightarrow> metrics" where
  "observe_http meth route status took m =
     (let s = (case map_of (mt_http m) (meth, route) of Some s \<Rightarrow> s | None \<Rightarrow> new_route_stats);
          s1 = s\<lparr>rt_latency := observe_duration took (rt_latency s)\<rparr>;
          s2 = (if 500 \<le> status \<and> status \<le> 599 then s1\<lparr>rt_server_err := rt_server_err s1 + 1\<rparr>
                else if 400 \<le> status \<and> status \<le> 499 then s1\<lparr>rt_client_err := rt_client_err s1 + 1\<rparr>
                else s1\<lparr>rt_ok := rt_ok s1 + 1\<rparr>)
      in m\<lparr>mt_http := put (meth, route) s2 (mt_http m)\<rparr>)"

definition tier_position :: "tier \<Rightarrow> nat option" where
  "tier_position t = (let i = length (takeWhile (\<lambda>x. x \<noteq> t) ORDER) in if i < length ORDER then Some i else None)"

definition count_at :: "nat \<Rightarrow> nat list \<Rightarrow> nat list" where
  "count_at i xs = xs[i := xs ! i + 1]"

definition demoted :: "tier \<Rightarrow> metrics \<Rightarrow> metrics" where
  "demoted t m = (case tier_position t of None \<Rightarrow> m | Some i \<Rightarrow> m\<lparr>mt_demotions := count_at i (mt_demotions m)\<rparr>)"

definition woke :: "tier \<Rightarrow> metrics \<Rightarrow> metrics" where
  "woke t m =
     (let m1 = m\<lparr>mt_woken := mt_woken m + 1\<rparr>
      in case tier_position t of None \<Rightarrow> m1 | Some i \<Rightarrow> m1\<lparr>mt_woken_from := count_at i (mt_woken_from m1)\<rparr>)"

definition api_snap :: "metrics \<Rightarrow> hist_snap \<times> nat" where
  "api_snap m =
     fold (\<lambda>((_, route), s) (all, errors).
         if starts_with route ''/v1/node/'' then (all, errors)
         else (snap_add all (hist_snap_of (rt_latency s)), errors + rt_server_err s)) (mt_http m) (no_snap, 0)"

definition route_snap :: "string \<Rightarrow> string \<Rightarrow> metrics \<Rightarrow> hist_snap option" where
  "route_snap meth route m = map_option (\<lambda>s. hist_snap_of (rt_latency s)) (map_of (mt_http m) (meth, route))"

section \<open>The buckets of what was observed\<close>

lemma length_BUCKETS [simp]: "length BUCKETS = 14"
  by (simp add: BUCKETS_def)

lemma BUCKETS_ascend: "sorted BUCKETS"
  by (simp add: BUCKETS_def)

lemma last_BUCKETS: "last BUCKETS = 10" "BUCKETS ! 13 = 10"
  by (simp_all add: BUCKETS_def)

lemma takeWhile_mono: "(\<And>x. P x \<Longrightarrow> Q x) \<Longrightarrow> length (takeWhile P xs) \<le> length (takeWhile Q xs)"
  by (induction xs) auto

lemma bucket_of_mono: "a \<le> b \<Longrightarrow> bucket_of a \<le> bucket_of b"
  unfolding bucket_of_def by (rule takeWhile_mono) simp

lemma bucket_of_above: "bucket_of s < 14 \<Longrightarrow> s \<le> BUCKETS ! bucket_of s"
  using nth_length_takeWhile [of "\<lambda>b. b < s" BUCKETS] by (simp add: bucket_of_def)

lemma bucket_of_below: "i < bucket_of s \<Longrightarrow> BUCKETS ! i < s"
  using nth_mem [of i "takeWhile (\<lambda>b. b < s) BUCKETS"] takeWhile_nth [of i "\<lambda>b. b < s" BUCKETS]
    set_takeWhileD [of "BUCKETS ! i" "\<lambda>b. b < s" BUCKETS]
  by (simp add: bucket_of_def)

lemma bucket_of_le: "bucket_of s \<le> 14"
  using length_takeWhile_le [of "\<lambda>b. b < s" BUCKETS] by (simp add: bucket_of_def)

definition hist_ok :: "histogram \<Rightarrow> bool" where
  "hist_ok h \<longleftrightarrow> length (hg_buckets h) = length BUCKETS"

definition counted :: "nat list \<Rightarrow> nat \<Rightarrow> nat" where
  "counted ds i = length (filter (\<lambda>d. bucket_of (as_secs_f64 d) = i) ds)"

lemma observed_all:
  assumes "hist_ok h"
  shows "hist_ok (fold observe_duration ds h) \<and> hg_count (fold observe_duration ds h) = hg_count h + length ds \<and>
    (\<forall>i<14. hg_buckets (fold observe_duration ds h) ! i = hg_buckets h ! i + counted ds i)"
  using assms
proof (induction ds arbitrary: h)
  case (Cons d ds)
  let ?h = "observe_duration d h"
  have ok: "hist_ok ?h" using Cons.prems by (simp add: hist_ok_def observe_duration_def Let_def)
  have "hg_buckets ?h ! i = hg_buckets h ! i + (if bucket_of (as_secs_f64 d) = i then 1 else 0)" if "i < 14" for i
    using that Cons.prems by (simp add: observe_duration_def Let_def hist_ok_def nth_list_update)
  then show ?case using Cons.IH [OF ok] by (simp add: counted_def observe_duration_def Let_def)
qed (simp add: counted_def)

lemma since_counts:
  assumes "hist_ok h"
  shows "snap_since (hist_snap_of (fold observe_duration ds h)) (hist_snap_of h) =
    \<lparr>sn_buckets = map (counted ds) [0..<14], sn_count = length ds\<rparr>"
  using observed_all [OF assms, of ds] assms
  by (auto simp: snap_since_def hist_snap_of_def hist_ok_def intro!: nth_equalityI)

section \<open>A quantile is in the bucket of the duration it stands for\<close>

lemma find_quantile_some:
  assumes "find_quantile want acc lo (zip ns es) = Some v" "length ns = length es" "sorted (lo # es)"
  shows "\<exists>i<length ns. 0 < ns ! i \<and> want \<le> real (acc + sum_list (take (Suc i) ns)) \<and> (lo # es) ! i \<le> v \<and> v \<le> es ! i \<and>
    (\<forall>j<i. ns ! j = 0 \<or> real (acc + sum_list (take (Suc j) ns)) < want)"
  using assms
proof (induction ns arbitrary: es acc lo)
  case (Cons n ns)
  obtain e es' where es: "es = e # es'" using Cons.prems(2) by (cases es) auto
  show ?case
  proof (cases "0 < n \<and> real (acc + n) \<ge> want")
    case True
    define fr where "fr = max 0 (min 1 ((want - real acc) / real n))"
    have v: "v = lo + (e - lo) * fr" using Cons.prems(1) True by (simp add: es fr_def)
    have "0 \<le> fr" "fr \<le> 1" "lo \<le> e" using Cons.prems(3) by (auto simp: fr_def es)
    then have "lo \<le> v" "v \<le> e" using mult_left_mono [of fr 1 "e - lo"] unfolding v by auto
    then show ?thesis using True by (intro exI [of _ 0]) (simp add: es)
  next
    case False
    then have "find_quantile want (acc + n) e (zip ns es') = Some v" using Cons.prems(1) by (auto simp: es split: if_splits)
    from Cons.IH [OF this] Cons.prems(2,3) obtain i where i: "i < length ns" "0 < ns ! i"
        "want \<le> real (acc + n + sum_list (take (Suc i) ns))" "(e # es') ! i \<le> v" "v \<le> es' ! i"
        "\<forall>j<i. ns ! j = 0 \<or> real (acc + n + sum_list (take (Suc j) ns)) < want"
      by (auto simp: es)
    have "(n # ns) ! j = 0 \<or> real (acc + sum_list (take (Suc j) (n # ns))) < want" if "j < Suc i" for j
      using that i(6) False by (cases j) (auto simp: add.assoc)
    then show ?thesis using i by (intro exI [of _ "Suc i"]) (simp add: es add.assoc)
  qed
qed simp

lemma find_quantile_none:
  "find_quantile want acc lo (zip ns es) = None \<Longrightarrow> length ns = length es \<Longrightarrow> j < length ns \<Longrightarrow>
   ns ! j = 0 \<or> real (acc + sum_list (take (Suc j) ns)) < want"
proof (induction ns arbitrary: es acc lo j)
  case (Cons n ns)
  then obtain e es' where es: "es = e # es'" by (cases es) auto
  have "find_quantile want (acc + n) e (zip ns es') = None" "\<not> (0 < n \<and> real (acc + n) \<ge> want)"
    using Cons.prems(1) by (auto simp: es split: if_splits)
  then show ?case using Cons.IH [of "acc + n" e es' "j - 1"] Cons.prems(2,3) by (cases j) (auto simp: es add.assoc)
qed simp

lemma counted_upto:
  "k \<le> 14 \<Longrightarrow> sum_list (take k (map (counted ds) [0..<14])) = length (filter (\<lambda>d. bucket_of (as_secs_f64 d) < k) ds)"
proof (induction k)
  case (Suc k)
  have "length (filter (\<lambda>d. bucket_of (as_secs_f64 d) < Suc k) xs) =
      length (filter (\<lambda>d. bucket_of (as_secs_f64 d) < k) xs) + counted xs k" for xs
    by (induction xs) (auto simp: counted_def)
  then show ?case using Suc by (simp add: take_Suc_conv_app_nth)
qed simp

lemma sorted_rank:
  "sorted zs \<Longrightarrow> r < length zs \<Longrightarrow> zs ! r < k \<longleftrightarrow> r < length (filter (\<lambda>z. z < k) zs)" for k :: nat
proof (induction zs arbitrary: r)
  case (Cons z zs)
  show ?case
  proof (cases "z < k")
    case False
    then have "\<forall>x\<in>set (z # zs). \<not> x < k" using Cons.prems(1) by auto
    then show ?thesis using Cons.prems(2) by (metis filter_False length_0_conv not_less_zero nth_mem)
  next
    case True
    then show ?thesis using Cons by (cases r) auto
  qed
qed simp

text \<open>The duration a quantile stands for: the one with that share of all at or before it.\<close>

definition rank :: "real \<Rightarrow> nat \<Rightarrow> nat" where
  "rank q n = nat \<lceil>q * real n\<rceil> - 1"

definition true_quantile :: "real \<Rightarrow> nat list \<Rightarrow> real" where
  "true_quantile q ds = as_secs_f64 (sort ds ! rank q (length ds))"

lemma bucket_of_rank:
  assumes "r < length ds"
  shows "bucket_of (as_secs_f64 (sort ds ! r)) < k \<longleftrightarrow> r < length (filter (\<lambda>d. bucket_of (as_secs_f64 d) < k) ds)"
proof -
  let ?b = "\<lambda>d. bucket_of (as_secs_f64 d)"
  have "mono ?b" by (intro monoI bucket_of_mono) (simp add: as_secs_f64_def divide_right_mono)
  then have "?b x \<le> ?b y" if "x \<le> y" for x y using that by (rule monoD)
  then have "sorted (map ?b (sort ds))" unfolding sorted_map by (intro sorted_wrt_mono_rel [OF _ sorted_sort]) simp
  from sorted_rank [OF this, of r k] assms have "?b (sort ds ! r) < k \<longleftrightarrow> r < length (filter (\<lambda>z. z < k) (map ?b (sort ds)))"
    by simp
  also have "length (filter (\<lambda>z. z < k) (map ?b (sort ds))) = length (filter (\<lambda>d. ?b d < k) ds)"
    by (simp add: filter_map comp_def filter_sort)
  finally show ?thesis .
qed

lemma quantile_bucket:
  assumes "ds \<noteq> []" "0 \<le> q" "q \<le> 1"
  shows "\<exists>v. quantile q \<lparr>sn_buckets = map (counted ds) [0..<14], sn_count = length ds\<rparr> = Some v \<and>
    (let i = bucket_of (true_quantile q ds) in if i < 14 then (0 # BUCKETS) ! i \<le> v \<and> v \<le> BUCKETS ! i else v = last BUCKETS)"
proof -
  define want where "want = q * real (length ds)"
  define r where "r = rank q (length ds)"
  let ?ns = "map (counted ds) [0..<14]"
  let ?upto = "\<lambda>k. length (filter (\<lambda>d. bucket_of (as_secs_f64 d) < k) ds)"
  have w: "0 \<le> want" "want \<le> real (length ds)" using assms(2,3) by (simp_all add: want_def mult_left_le_one_le)
  have rank: "r = nat \<lceil>want\<rceil> - 1" by (simp add: r_def rank_def want_def)
  have r_less: "r < length ds" using w length_greater_0_conv [THEN iffD2, OF assms(1)] unfolding rank by linarith
  have in_bucket: "bucket_of (true_quantile q ds) < k \<longleftrightarrow> r < ?upto k" for k
    using bucket_of_rank [OF r_less] by (simp add: true_quantile_def r_def)
  have reached: "r < n" if "want \<le> real n" "0 < n" for n using that w unfolding rank by linarith
  have missed: "n \<le> r" if "real n < want" for n using that w unfolding rank by linarith
  have prefix: "sum_list (take k ?ns) = ?upto k" if "k \<le> 14" for k by (rule counted_upto [OF that])
  have before: "?upto j \<le> r" if "j \<le> i" "i \<le> 14" "\<forall>j<i. ?ns ! j = 0 \<or> real (0 + sum_list (take (Suc j) ?ns)) < want" for i j
    using that(1)
  proof (induction j)
    case (Suc j)
    have "?ns ! j = 0 \<or> real (?upto (Suc j)) < want" 
      using that(3) [rule_format, of j] Suc.prems prefix [of "Suc j"] that(2) by simp
    moreover have "?upto (Suc j) = ?upto j + ?ns ! j"
      using prefix [of "Suc j"] prefix [of j] Suc.prems that(2) by (simp add: take_Suc_conv_app_nth)
    ultimately show ?case using Suc missed by auto
  qed simp
  have q: "quantile q \<lparr>sn_buckets = ?ns, sn_count = length ds\<rparr> =
      (case find_quantile want 0 0 (zip ?ns BUCKETS) of None \<Rightarrow> Some (last BUCKETS) | Some v \<Rightarrow> Some v)"
    using assms by (simp add: quantile_def want_def)
  show ?thesis
  proof (cases "find_quantile want 0 0 (zip ?ns BUCKETS)")
    case None
    have "?upto 14 \<le> r" by (rule before [of 14 14]) (use find_quantile_none [OF None] in auto)
    then have "\<not> bucket_of (true_quantile q ds) < 14" using in_bucket by simp
    then show ?thesis unfolding q None by (simp add: Let_def)
  next
    case (Some v)
    have "sorted (0 # BUCKETS)" by (simp add: BUCKETS_def)
    from find_quantile_some [OF Some _ this] obtain i where i: "i < 14" "0 < ?ns ! i"
        "want \<le> real (0 + sum_list (take (Suc i) ?ns))" "(0 # BUCKETS) ! i \<le> v" "v \<le> BUCKETS ! i"
        "\<forall>j<i. ?ns ! j = 0 \<or> real (0 + sum_list (take (Suc j) ?ns)) < want"
      by auto
    have "?upto i \<le> r" by (rule before [OF _ _ i(6)]) (use i(1) in simp_all)
    moreover have "?upto (Suc i) = ?upto i + ?ns ! i"
      using prefix [of "Suc i"] prefix [of i] i(1) by (simp add: take_Suc_conv_app_nth)
    moreover have "want \<le> real (?upto (Suc i))" using i(3) prefix [of "Suc i"] i(1) by simp
    then have "0 < ?upto (Suc i) \<Longrightarrow> r < ?upto (Suc i)" by (rule reached)
    ultimately have "bucket_of (true_quantile q ds) = i"
      using in_bucket [of i] in_bucket [of "Suc i"] i(2) by linarith
    then show ?thesis unfolding q Some using i by (simp add: Let_def)
  qed
qed

text \<open>
  C35. A latency told of an interval is good to its bucket. For any durations observed between two
  snapshots of a histogram, whatever was in it before, the quantile computed from their difference is
  in the bucket of the duration it stands for: if that is ten seconds at most, both are between the
  same two neighbouring edges, and if it is more, the last edge is told.
\<close>

theorem quantile_is_within_a_bucket:
  assumes "hist_ok h" "ds \<noteq> []" "0 \<le> q" "q \<le> 1"
  shows "\<exists>v. quantile q (snap_since (hist_snap_of (fold observe_duration ds h)) (hist_snap_of h)) = Some v \<and>
    (if true_quantile q ds \<le> 10
     then \<exists>i<14. (0 # BUCKETS) ! i \<le> v \<and> v \<le> BUCKETS ! i \<and>
            (0 # BUCKETS) ! i \<le> true_quantile q ds \<and> true_quantile q ds \<le> BUCKETS ! i
     else v = 10)"
proof -
  let ?x = "true_quantile q ds"
  obtain v where v: "quantile q \<lparr>sn_buckets = map (counted ds) [0..<14], sn_count = length ds\<rparr> = Some v"
      "let i = bucket_of ?x in if i < 14 then (0 # BUCKETS) ! i \<le> v \<and> v \<le> BUCKETS ! i else v = last BUCKETS"
    using quantile_bucket [OF assms(2-4)] by blast
  have "(0 # BUCKETS) ! bucket_of ?x \<le> ?x"
    using bucket_of_below [of "bucket_of ?x - 1" ?x] by (cases "bucket_of ?x") (simp_all add: true_quantile_def as_secs_f64_def)
  moreover have "bucket_of ?x < 14 \<longleftrightarrow> ?x \<le> 10"
  proof
    assume i: "bucket_of ?x < 14"
    have "BUCKETS ! bucket_of ?x \<le> BUCKETS ! 13" using BUCKETS_ascend i by (simp add: sorted_iff_nth_mono)
    then show "?x \<le> 10" using bucket_of_above [OF i] by (simp add: last_BUCKETS)
  next
    assume "?x \<le> 10"
    then show "bucket_of ?x < 14" using bucket_of_below [of 13 ?x] by (cases "13 < bucket_of ?x") (auto simp: last_BUCKETS)
  qed
  ultimately show ?thesis
    using v bucket_of_above [of ?x] unfolding since_counts [OF assms(1)]
    by (intro exI [of _ v]) (auto simp: Let_def last_BUCKETS)
qed

lemma quantile_is_within_a_bucket_witness:
  "\<exists>v. quantile (99 / 100) (snap_since (hist_snap_of (fold observe_duration [300000, 2000000, 300000] new_histogram))
      (hist_snap_of new_histogram)) = Some v \<and> 1 / 1000 \<le> v \<and> v \<le> 25 / 10000"
proof -
  let ?ds = "[300000, 2000000, 300000] :: nat list"
  have "rank (99 / 100) (length ?ds) = 2" by (simp add: rank_def)
  then have x: "true_quantile (99 / 100) ?ds = 2 / 1000" by (simp add: true_quantile_def as_secs_f64_def)
  have "hist_ok new_histogram" by (simp add: hist_ok_def new_histogram_def)
  from quantile_is_within_a_bucket [OF this, of ?ds "99 / 100"] obtain v i where
    v: "quantile (99 / 100) (snap_since (hist_snap_of (fold observe_duration ?ds new_histogram)) (hist_snap_of new_histogram)) = Some v"
      "i < 14" "(0 # BUCKETS) ! i \<le> v" "v \<le> BUCKETS ! i" "(0 # BUCKETS) ! i \<le> 2 / 1000" "2 / 1000 \<le> BUCKETS ! i"
    unfolding x by auto
  have "i = 2"
    using v(2,5,6) by (simp add: BUCKETS_def nth_Cons' split: if_splits)
  then show ?thesis using v(1,3,4) by (simp add: BUCKETS_def)
qed

end
