(* ===== verification/Feed.thy ===== *)
theory Feed
  imports History Metrics MasterState
begin

text \<open>
  The sampler of \<^verbatim>\<open>master/series.rs\<close>: what it writes of the fleet every five seconds, which it
  reads from the store and the counters, and what it remembers from one sample to the next. A row's value
  is \<open>None\<close> where a float of the code would not be finite, which none here is. Properties: the
  feed of a node's ups and downs, and what is left after an hour's pruning.
\<close>

record previous =
  pv_at :: "instant option"
  pv_placed :: nat
  pv_refused :: nat
  pv_deletes :: nat
  pv_woken :: nat
  pv_woken_from :: "nat list"
  pv_demotions :: "nat list"
  pv_api :: hist_snap
  pv_api_errors :: nat
  pv_create :: hist_snap
  pv_store_wait :: hist_snap
  pv_up :: "string \<rightharpoonup> bool"
  pv_failing :: "string set"

definition no_previous :: previous where
  "no_previous = \<lparr>pv_at = None, pv_placed = 0, pv_refused = 0, pv_deletes = 0, pv_woken = 0,
     pv_woken_from = replicate 4 0, pv_demotions = replicate 4 0, pv_api = no_snap, pv_api_errors = 0,
     pv_create = no_snap, pv_store_wait = no_snap, pv_up = Map.empty, pv_failing = {}\<rparr>"

type_synonym sample_row = "string \<times> string \<times> real option"
type_synonym feed_line = "string \<times> string \<times> string"

definition sample_row :: "string \<Rightarrow> string \<Rightarrow> real \<Rightarrow> sample_row" where
  "sample_row m k v = (m, k, Some v)"

section \<open>What the fleet holds\<close>

definition node_total :: "store \<Rightarrow> string \<Rightarrow> nat" where
  "node_total st n = sum_list (map (count_sandboxes_by_node_tier st n) ORDER)"

definition fleet_rows :: "store \<Rightarrow> sample_row list" where
  "fleet_rows st =
     map (\<lambda>t. sample_row ''fleet.sandboxes'' (as_str t) (real (count_sandboxes_by_tier st t))) ORDER @
     (let (snaps, bytes) = snapshot_totals st;
          up = length (filter nd_connected (list_nodes st))
      in [sample_row ''fleet.failed'' [] (real (count_failed_sandboxes st)),
          sample_row ''fleet.snapshots'' [] (real snaps),
          sample_row ''fleet.snapshot_bytes'' [] (real bytes),
          sample_row ''fleet.nodes'' ''up'' (real up),
          sample_row ''fleet.nodes'' ''down'' (real (length (list_nodes st) - up))])"

definition node_rows :: "store \<Rightarrow> node \<Rightarrow> sample_row list" where
  "node_rows st n =
     (let count = (\<lambda>t. real (count_sandboxes_by_node_tier st (nd_id n) t))
      in [sample_row ''node.free_mib'' (nd_id n) (real (nd_free_mib n)),
          sample_row ''node.psi'' (nd_id n) (nd_psi_some_avg10 n),
          sample_row ''node.sandboxes'' (nd_id n) (real (node_total st (nd_id n))),
          sample_row ''node.hot'' (nd_id n) (count Hot),
          sample_row ''node.frozen'' (nd_id n) (count Frozen),
          sample_row ''node.snapshot'' (nd_id n) (count Snapshot),
          sample_row ''node.detached'' (nd_id n) (count Detached),
          sample_row ''node.up'' (nd_id n) (if nd_connected n then 1 else 0)])"

definition node_events :: "store \<Rightarrow> node \<Rightarrow> (string \<rightharpoonup> bool) \<Rightarrow> feed_line list" where
  "node_events st n was =
     (case was (nd_id n) of
        None \<Rightarrow> []
      | Some b \<Rightarrow>
          if b = nd_connected n then []
          else if nd_connected n
          then [(''node_up'', nd_id n, nd_id n @ '' is back, '' @ dec (nd_free_mib n) @ '' MiB free'')]
          else [(''node_down'', nd_id n, nd_id n @ '' stopped answering; '' @ dec (node_total st (nd_id n)) @ '' sandboxes on it'')])"

definition sample_node :: "store \<Rightarrow> node \<Rightarrow> sample_row list \<times> feed_line list \<times> (string \<rightharpoonup> bool)
    \<Rightarrow> sample_row list \<times> feed_line list \<times> (string \<rightharpoonup> bool)" where
  "sample_node st n acc =
     (let (rows, evs, was) = acc
      in (rows @ node_rows st n, evs @ node_events st n was, was(nd_id n \<mapsto> nd_connected n)))"

section \<open>What happened since the last sample\<close>

definition tier_rates :: "string \<Rightarrow> (nat \<Rightarrow> nat \<Rightarrow> real) \<Rightarrow> nat list \<Rightarrow> nat list \<Rightarrow> sample_row list" where
  "tier_rates metric rate now prev =
     map (\<lambda>(i, t). sample_row metric (as_str t) (rate (now ! i) (prev ! i)))
       (filter (\<lambda>(_, t). t \<noteq> Hot) (enumerate 0 ORDER))"

definition quantile_row :: "string \<Rightarrow> string \<Rightarrow> real \<Rightarrow> hist_snap \<Rightarrow> sample_row list" where
  "quantile_row metric name q s = (case quantile q s of None \<Rightarrow> [] | Some v \<Rightarrow> [sample_row metric name (v * 1000)])"

definition since_rows :: "real \<Rightarrow> metrics \<Rightarrow> previous \<Rightarrow> sample_row list" where
  "since_rows secs m prev =
     (let rate = (\<lambda>now before. real (now - before) / secs);
          (api, api_errors) = api_snap m;
          create = (case route_snap ''POST'' ''/v1/sandboxes'' m of None \<Rightarrow> no_snap | Some s \<Rightarrow> s);
          api_d = snap_since api (pv_api prev)
      in [sample_row ''rate.creates'' ''placed'' (rate (mt_creates_placed m) (pv_placed prev)),
          sample_row ''rate.creates'' ''refused'' (rate (mt_creates_refused m) (pv_refused prev)),
          sample_row ''rate.deletes'' [] (rate (mt_deletes m) (pv_deletes prev)),
          sample_row ''rate.wakes'' [] (rate (mt_woken m) (pv_woken prev))] @
         tier_rates ''rate.wakes'' rate (mt_woken_from m) (pv_woken_from prev) @
         tier_rates ''rate.demotions'' rate (mt_demotions m) (pv_demotions prev) @
         [sample_row ''rate.api'' ''requests'' (real (sn_count api_d) / secs),
          sample_row ''rate.api'' ''errors'' (rate api_errors (pv_api_errors prev))] @
         concat (map (\<lambda>(q, name). quantile_row ''latency.api'' name q api_d @
                                   quantile_row ''latency.create'' name q (snap_since create (pv_create prev)))
           [(1 / 2, ''p50''), (99 / 100, ''p99'')]) @
         quantile_row ''latency.store_wait'' ''p99'' (99 / 100) (snap_since (hist_snap_of (mt_store_wait m)) (pv_store_wait prev)))"

definition since_events :: "metrics \<Rightarrow> previous \<Rightarrow> feed_line list" where
  "since_events m prev =
     (let refused_now = mt_creates_refused m - pv_refused prev;
          woke_now = mt_woken m - pv_woken prev;
          to_disk = mt_demotions m ! 2 - pv_demotions prev ! 2
      in (if 0 < refused_now
          then [(''refused'', ''fleet'', dec refused_now @ '' creates refused: no node had room'')] else []) @
         (if 0 < woke_now
          then [(''woken'', ''fleet'', dec woke_now @ '' '' @ (if woke_now = 1 then ''sandbox'' else ''sandboxes'') @
                 '' woken by a request'')] else []) @
         (if 0 < to_disk
          then [(''to_disk'', ''fleet'', dec to_disk @ '' idle sandboxes checkpointed to disk'')] else []))"

definition failing_events :: "store \<Rightarrow> previous \<Rightarrow> feed_line list" where
  "failing_events st prev =
     map (\<lambda>(i, n, e, attempts).
         (if attempts \<ge> MAX_FAILURES then ''quarantined'' else ''failing'', i, ''on '' @ n @ '': '' @ e))
       (filter (\<lambda>(i, _). i \<notin> pv_failing prev \<and> pv_at prev \<noteq> None) (failing_sandboxes st 50))"

text \<open>\<^verbatim>\<open>take\<close>, at \<open>t\<close> milliseconds.\<close>

definition take_sample :: "instant \<Rightarrow> store \<Rightarrow> metrics \<Rightarrow> previous \<Rightarrow> sample_row list \<times> feed_line list \<times> previous" where
  "take_sample t st m prev =
     (let (nrows, nevents, up) = fold (sample_node st) (list_nodes st) ([], [], pv_up prev);
          (srows, sevents) =
            (case pv_at prev of
               None \<Rightarrow> ([], [])
             | Some before \<Rightarrow> (since_rows (max (real (t - before) / 1000) (1 / 1000)) m prev, since_events m prev))
      in (fleet_rows st @ nrows @ srows, nevents @ sevents @ failing_events st prev,
          \<lparr>pv_at = Some t, pv_placed = mt_creates_placed m, pv_refused = mt_creates_refused m,
           pv_deletes = mt_deletes m, pv_woken = mt_woken m, pv_woken_from = mt_woken_from m,
           pv_demotions = mt_demotions m, pv_api = fst (api_snap m), pv_api_errors = snd (api_snap m),
           pv_create = (case route_snap ''POST'' ''/v1/sandboxes'' m of None \<Rightarrow> no_snap | Some s \<Rightarrow> s),
           pv_store_wait = hist_snap_of (mt_store_wait m), pv_up = up,
           pv_failing = set (map fst (failing_sandboxes st 50))\<rparr>))"

text \<open>One turn of \<^verbatim>\<open>sample_loop\<close>: \<open>pruned\<close> is when it pruned last.\<close>

definition write_sample :: "int \<Rightarrow> sample_row list \<Rightarrow> feed_line list \<Rightarrow> int \<times> series \<Rightarrow> int \<times> series" where
  "write_sample now rows evs st =
     (let (pruned, s) = st;
          prune_now = now - pruned > 3600;
          s1 = record_samples now rows s;
          s2 = fold (\<lambda>(kind, subject, detail). add_event now kind subject detail) evs s1
      in (if prune_now then now else pruned, if prune_now then fst (prune (now - KEEP) s2) else s2))"

section \<open>The feed of a node\<close>

fun edges :: "'a list \<Rightarrow> 'a list" where
  "edges (x # y # r) = (if x = y then [] else [y]) @ edges (y # r)"
| "edges _ = []"

definition ups_and_downs :: "string \<Rightarrow> feed_line list \<Rightarrow> bool list" where
  "ups_and_downs i evs =
     map (\<lambda>(kind, _). kind = ''node_up'') (filter (\<lambda>(kind, subject, _). subject = i \<and> (kind = ''node_up'' \<or> kind = ''node_down'')) evs)"

fun feed_of :: "(instant \<times> store \<times> metrics) list \<Rightarrow> previous \<Rightarrow> feed_line list" where
  "feed_of [] prev = []"
| "feed_of ((t, st, m) # r) prev = (let (_, evs, prev') = take_sample t st m prev in evs @ feed_of r prev')"

definition seen_up :: "string \<Rightarrow> (instant \<times> store \<times> metrics) list \<Rightarrow> bool list" where
  "seen_up i ss = concat (map (\<lambda>(_, st, _). map nd_connected (filter (\<lambda>n. nd_id n = i) (list_nodes st))) ss)"

lemma ups_append: "ups_and_downs i (a @ b) = ups_and_downs i a @ ups_and_downs i b"
  by (simp add: ups_and_downs_def)

lemma ups_others: "ups_and_downs i (since_events m prev) = []" "ups_and_downs i (failing_events st prev) = []"
proof -
  show "ups_and_downs i (since_events m prev) = []"
    by (simp add: ups_and_downs_def since_events_def Let_def)
  have "kind \<noteq> ''node_up'' \<and> kind \<noteq> ''node_down''" if "(kind, r) \<in> set (failing_events st prev)" for kind r
    using that by (auto simp: failing_events_def split: if_splits)
  then show "ups_and_downs i (failing_events st prev) = []"
    by (auto simp: ups_and_downs_def filter_empty_conv)
qed

lemma edges_snoc: "edges (xs @ [y]) = edges xs @ (if xs = [] \<or> last xs = y then [] else [y])"
  by (induction xs rule: edges.induct) auto

definition last_seen :: "bool list \<Rightarrow> bool option" where
  "last_seen xs = (if xs = [] then None else Some (last xs))"

lemma sample_nodes:
  assumes "fold (sample_node st) ns (rows, evs, was) = (rows', evs', was')" "was i = last_seen seen"
    and "edges seen0 @ ups_and_downs i evs = edges seen"
  shows "was' i = last_seen (seen @ map nd_connected (filter (\<lambda>n. nd_id n = i) ns)) \<and>
    edges seen0 @ ups_and_downs i evs' = edges (seen @ map nd_connected (filter (\<lambda>n. nd_id n = i) ns))"
  using assms
proof (induction ns arbitrary: rows evs was seen)
  case (Cons n ns)
  have rest: "fold (sample_node st) ns (rows @ node_rows st n, evs @ node_events st n was, was(nd_id n \<mapsto> nd_connected n)) = (rows', evs', was')"
    using Cons.prems(1) sample_node_def [of st n "(rows, evs, was)"] by simp
  show ?case
  proof (cases "nd_id n = i")
    case True
    have "ups_and_downs i (node_events st n was) = (if seen = [] \<or> last seen = nd_connected n then [] else [nd_connected n])"
      using Cons.prems(2) True by (auto simp: node_events_def ups_and_downs_def last_seen_def)
    then have "edges seen0 @ ups_and_downs i (evs @ node_events st n was) = edges (seen @ [nd_connected n])"
      using Cons.prems(3) by (simp add: ups_append edges_snoc flip: append_assoc)
    from Cons.IH [OF rest _ this] True show ?thesis by (simp add: last_seen_def)
  next
    case False
    then have "ups_and_downs i (node_events st n was) = []"
      by (auto simp: node_events_def ups_and_downs_def split: option.splits)
    then have "edges seen0 @ ups_and_downs i (evs @ node_events st n was) = edges seen"
      by (simp add: ups_append Cons.prems(3))
    from Cons.IH [OF rest _ this] False Cons.prems(2) show ?thesis by simp
  qed
qed simp

lemma take_sample_ups:
  assumes "take_sample t st m prev = (rows, evs, prev')" "pv_up prev i = last_seen seen"
  shows "pv_up prev' i = last_seen (seen @ map nd_connected (filter (\<lambda>n. nd_id n = i) (list_nodes st))) \<and>
    edges seen @ ups_and_downs i evs = edges (seen @ map nd_connected (filter (\<lambda>n. nd_id n = i) (list_nodes st)))"
proof -
  obtain nrows nevs up where f: "fold (sample_node st) (list_nodes st) ([], [], pv_up prev) = (nrows, nevs, up)"
    by (cases "fold (sample_node st) (list_nodes st) ([], [], pv_up prev)") auto
  have none: "ups_and_downs i [] = []" by (simp add: ups_and_downs_def)
  have "pv_up prev' = up" "ups_and_downs i evs = ups_and_downs i nevs"
    using assms(1) f by (auto simp: take_sample_def Let_def ups_append ups_others none split: option.splits)
  then show ?thesis using sample_nodes [OF f assms(2), of seen] by (simp add: none)
qed

lemma feed_edges:
  assumes "pv_up prev i = last_seen seen"
  shows "edges seen @ ups_and_downs i (feed_of ss prev) = edges (seen @ seen_up i ss)"
  using assms
proof (induction ss arbitrary: prev seen)
  case Nil
  then show ?case by (simp add: seen_up_def ups_and_downs_def)
next
  case (Cons s ss)
  obtain t st m where s: "s = (t, st, m)" by (cases s) auto
  obtain rows evs prev' where one: "take_sample t st m prev = (rows, evs, prev')" by (cases "take_sample t st m prev") auto
  let ?now = "map nd_connected (filter (\<lambda>n. nd_id n = i) (list_nodes st))"
  have "edges seen @ ups_and_downs i (feed_of (s # ss) prev) = edges (seen @ ?now) @ ups_and_downs i (feed_of ss prev')"
    using take_sample_ups [OF one Cons.prems] by (simp add: s one ups_append flip: append_assoc)
  also have "\<dots> = edges ((seen @ ?now) @ seen_up i ss)"
    by (rule Cons.IH) (use take_sample_ups [OF one Cons.prems] in simp)
  also have "\<dots> = edges (seen @ seen_up i (s # ss))" by (simp add: seen_up_def s)
  finally show ?case .
qed

text \<open>
  C37. The console's feed of a node is what the samples saw. Whatever else happened between them, the
  ups and downs written of a node since the master started are the changes of its being connected from one
  sample to the next, in order and each once; so they alternate, and the last tells how it is.
\<close>

theorem feed_tells_each_change:
  "ups_and_downs i (feed_of ss no_previous) = edges (seen_up i ss)"
  using feed_edges [of no_previous i "[]" ss] by (simp add: no_previous_def last_seen_def)

lemma edges_alternate: "Suc k < length (edges xs) \<Longrightarrow> edges xs ! k \<noteq> edges xs ! Suc k"
proof (induction xs arbitrary: k rule: edges.induct)
  case (1 x y r)
  have first: "edges (y # r) \<noteq> [] \<Longrightarrow> edges (y # r) ! 0 \<noteq> y"
    by (induction "y # r" arbitrary: y r rule: edges.induct) (auto simp: nth_append)
  show ?case using 1 first by (cases k) (auto split: if_splits)
qed auto

section \<open>What pruning leaves\<close>

lemma events_after:
  "samples (fold (\<lambda>(kind, subject, detail). add_event now kind subject detail) evs s) = samples s"
  "set (events (fold (\<lambda>(kind, subject, detail). add_event now kind subject detail) evs s)) =
     set (events s) \<union> (\<lambda>(kind, subject, detail). \<lparr>ev_ts = now, ev_kind = kind, ev_subject = subject, ev_detail = detail\<rparr>) ` set evs"
  by (induction evs arbitrary: s) (auto simp: add_event_def)

definition kept_since :: "int \<Rightarrow> series \<Rightarrow> bool" where
  "kept_since ts s \<longleftrightarrow> (\<forall>r\<in>set (samples s). ts \<le> sm_ts r) \<and> (\<forall>e\<in>set (events s). ts \<le> ev_ts e)"

text \<open>However long it runs, the history goes back an hour more than is kept, and no further.\<close>

lemma history_is_bounded:
  assumes "write_sample now rows evs (pruned, s) = (pruned', s')" "kept_since (pruned - KEEP) s" "pruned \<le> now"
  shows "kept_since (pruned' - KEEP) s' \<and> pruned' \<le> now \<and> now - pruned' \<le> 3600"
proof -
  define s2 where "s2 = fold (\<lambda>(kind, subject, detail). add_event now kind subject detail) evs (record_samples now rows s)"
  have "pruned - KEEP \<le> now" using assms(3) by (simp add: KEEP_def)
  then have all: "kept_since (pruned - KEEP) s2"
    using assms(2) unfolding kept_since_def s2_def events_after
    by (auto simp: record_samples_def List.map_filter_def)
  show ?thesis
    using assms(1,3) all by (auto simp: write_sample_def Let_def s2_def [symmetric] kept_since_def prune_def split: if_splits)
qed

end
