(* ===== verification/AuditLog.thy ===== *)
theory AuditLog
  imports Prelude
begin

text \<open>
  \<^verbatim>\<open>audit.rs\<close>: the log of requests and its rotation from outside. A file is an inode with its
  bytes; a path names one or none. What the file system answers is an argument of each step, the time of
  day is text (\<^verbatim>\<open>now_rfc3339\<close>), and \<open>js\<close> is the JSON of a line as serde_json prints it, in the
  pieces it is printed in. The writer is the standard library's \<^verbatim>\<open>BufWriter\<close>.
\<close>

section \<open>The buffered writer\<close>

text \<open>
  A \<^verbatim>\<open>BufWriter\<close> on a file: what the file holds and what waits. An attempt to write to the file gets
  so many bytes in before an error; if those are all there were, there is none.
\<close>

record buffered =
  bw_file :: string
  bw_buf :: string

definition BUF_CAPACITY :: nat where "BUF_CAPACITY = 8192"

definition flush_buf :: "nat \<Rightarrow> buffered \<Rightarrow> buffered \<times> bool" where
  "flush_buf d w = (\<lparr>bw_file = bw_file w @ take d (bw_buf w), bw_buf = drop d (bw_buf w)\<rparr>, length (bw_buf w) \<le> d)"

definition write_all :: "nat \<times> nat \<Rightarrow> string \<Rightarrow> buffered \<Rightarrow> buffered \<times> bool" where
  "write_all d p w =
     (let spare = BUF_CAPACITY - length (bw_buf w)
      in if length p < spare then (w\<lparr>bw_buf := bw_buf w @ p\<rparr>, True)
         else let (w1, ok) = (if length p > spare then flush_buf (fst d) w else (w, True))
              in if \<not> ok then (w1, False)
                 else if BUF_CAPACITY \<le> length p then (w1\<lparr>bw_file := bw_file w1 @ take (snd d) p\<rparr>, length p \<le> snd d)
                 else (w1\<lparr>bw_buf := bw_buf w1 @ p\<rparr>, True))"

text \<open>\<^verbatim>\<open>writeln!\<close>: piece after piece, up to the first that fails.\<close>

fun write_pieces :: "(nat \<Rightarrow> nat \<times> nat) \<Rightarrow> string list \<Rightarrow> buffered \<Rightarrow> buffered \<times> bool" where
  "write_pieces d [] w = (w, True)"
| "write_pieces d (p # ps) w =
     (let (w1, ok) = write_all (d 0) p w in if ok then write_pieces (\<lambda>k. d (Suc k)) ps w1 else (w1, False))"

section \<open>The sink\<close>

record audit_line =
  al_ts :: string
  al_method :: string
  al_path :: string
  al_status :: nat
  al_latency_us :: nat
  al_ua :: string

datatype audit_entry = Request audit_line | LogReopened string

fun is_request :: "audit_entry \<Rightarrow> bool" where
  "is_request (Request _) \<longleftrightarrow> True"
| "is_request (LogReopened _) \<longleftrightarrow> False"

type_synonym printer = "audit_entry \<Rightarrow> string list"

definition printed :: "printer \<Rightarrow> audit_entry \<Rightarrow> string list" where
  "printed js e = js e @ [[CHR 0x0A]]"

record audit =
  au_files :: "nat \<Rightarrow> string"
  au_next :: nat
  au_named :: "nat option"
  au_writer :: nat
  au_buffer :: string

text \<open>\<^verbatim>\<open>OpenOptions::create(true).append(true)\<close> at the configured path.\<close>

definition open_path :: "audit \<Rightarrow> audit \<times> nat" where
  "open_path a =
     (case au_named a of
        Some n \<Rightarrow> (a, n)
      | None \<Rightarrow> (a\<lparr>au_named := Some (au_next a), au_next := Suc (au_next a)\<rparr>, au_next a))"

definition audit_open :: "string option \<Rightarrow> audit" where
  "audit_open before =
     \<lparr>au_files = (\<lambda>n. if n = 0 then (case before of None \<Rightarrow> [] | Some bs \<Rightarrow> bs) else []), au_next = 1, au_named = Some 0,
      au_writer = 0, au_buffer = []\<rparr>"

definition writer_of :: "audit \<Rightarrow> buffered" where
  "writer_of a = \<lparr>bw_file = au_files a (au_writer a), bw_buf = au_buffer a\<rparr>"

definition with_writer :: "buffered \<Rightarrow> audit \<Rightarrow> audit" where
  "with_writer w a = a\<lparr>au_files := (au_files a)(au_writer a := bw_file w), au_buffer := bw_buf w\<rparr>"

text \<open>\<^verbatim>\<open>write\<close>, and whether the line was taken: its flush may fail all the same.\<close>

definition audit_write :: "printer \<Rightarrow> (nat \<Rightarrow> nat \<times> nat) \<Rightarrow> nat \<Rightarrow> audit_entry \<Rightarrow> audit \<Rightarrow> audit \<times> bool" where
  "audit_write js d fl e a =
     (let (w, ok) = write_pieces d (printed js e) (writer_of a)
      in if \<not> ok then (with_writer w a, False) else (with_writer (fst (flush_buf fl w)) a, True))"

text \<open>The middleware's line, once the handler has answered.\<close>

definition audit_layer :: "printer \<Rightarrow> string \<Rightarrow> string \<Rightarrow> string \<Rightarrow> string option \<Rightarrow> nat \<Rightarrow> nat
    \<Rightarrow> (nat \<Rightarrow> nat \<times> nat) \<Rightarrow> nat \<Rightarrow> audit \<Rightarrow> audit \<times> bool" where
  "audit_layer js ts meth path ua status took d fl =
     audit_write js d fl (Request \<lparr>al_ts = ts, al_method = meth, al_path = path, al_status = status, al_latency_us = took,
       al_ua = (case ua of None \<Rightarrow> [] | Some u \<Rightarrow> u)\<rparr>)"

text \<open>
  \<^verbatim>\<open>reopen\<close>. A replacement that is given up is dropped, and dropping it tries once more to flush
  it; the writer it replaces has nothing left to flush.
\<close>

definition audit_reopen :: "printer \<Rightarrow> nat \<Rightarrow> bool \<Rightarrow> (nat \<Rightarrow> nat \<times> nat) \<Rightarrow> nat \<Rightarrow> nat \<Rightarrow> string \<Rightarrow> audit
    \<Rightarrow> audit \<times> (string + unit)" where
  "audit_reopen js fl opened d fl2 dropped ts a =
     (let (w, ok) = flush_buf fl (writer_of a); a1 = with_writer w a
      in if \<not> ok then (a1, Inl ''flush audit log'')
         else if \<not> opened then (a1, Inl ''reopen audit log'')
         else let (a2, n) = open_path a1;
                  (r, wrote) = write_pieces d (printed js (LogReopened ts)) \<lparr>bw_file = au_files a2 n, bw_buf = []\<rparr>;
                  give_up = (\<lambda>r. a2\<lparr>au_files := (au_files a2)(n := bw_file (fst (flush_buf dropped r)))\<rparr>)
              in if \<not> wrote then (give_up r, Inl ''write reopen event'')
                 else let (r2, flushed) = flush_buf fl2 r
                      in if \<not> flushed then (give_up r2, Inl ''flush reopened audit log'')
                         else (a2\<lparr>au_files := (au_files a2)(n := bw_file r2), au_writer := n, au_buffer := bw_buf r2\<rparr>, Inr ()))"

text \<open>Whoever rotates the log renames the file away.\<close>

definition rotated :: "audit \<Rightarrow> audit" where
  "rotated a = a\<lparr>au_named := None\<rparr>"

section \<open>What a writer keeps\<close>

definition all_of :: "buffered \<Rightarrow> string" where
  "all_of w = bw_file w @ bw_buf w"

lemma flush_all: "all_of (fst (flush_buf d w)) = all_of w"
  by (simp add: flush_buf_def all_of_def)

lemma flush_done: "flush_buf d w = (w', True) \<Longrightarrow> bw_buf w' = [] \<and> bw_file w' = all_of w"
  by (auto simp: flush_buf_def all_of_def)

lemma write_all_all:
  "\<exists>q. all_of (fst (write_all d p w)) = all_of w @ q \<and> prefix q p \<and> (snd (write_all d p w) \<longleftrightarrow> q = p)"
proof -
  let ?spare = "BUF_CAPACITY - length (bw_buf w)"
  have cap: "0 < BUF_CAPACITY" by (simp add: BUF_CAPACITY_def)
  consider "length p < ?spare"
    | "length p > ?spare" "snd (flush_buf (fst d) w) = False"
    | "length p > ?spare" "snd (flush_buf (fst d) w)" | "length p = ?spare" by fastforce
  then show ?thesis
  proof cases
    case 2
    then have p: "p \<noteq> []" by auto
    obtain w1 where w1: "flush_buf (fst d) w = (w1, False)" using 2(2) by (cases "flush_buf (fst d) w") simp
    with p 2(1) flush_all [of "fst d" w] show ?thesis
      by (intro exI [of _ "[]"]) (simp add: write_all_def Let_def)
  next
    case 3
    obtain w1 where w1: "flush_buf (fst d) w = (w1, True)" using 3(2) by (cases "flush_buf (fst d) w") simp
    with flush_done [OF w1] 3(1) show ?thesis
      by (intro exI [of _ "if BUF_CAPACITY \<le> length p then take (snd d) p else p"])
        (auto simp: write_all_def Let_def all_of_def take_is_prefix)
  next
    case 4
    then have "bw_buf w = []" if "BUF_CAPACITY \<le> length p" using that cap by (cases "bw_buf w") auto
    with 4 show ?thesis
      by (intro exI [of _ "if BUF_CAPACITY \<le> length p then take (snd d) p else p"])
        (auto simp: write_all_def Let_def all_of_def take_is_prefix)
  qed (simp add: write_all_def Let_def all_of_def)
qed

lemma write_pieces_all:
  "\<exists>q. all_of (fst (write_pieces d ps w)) = all_of w @ q \<and> prefix q (concat ps) \<and>
     (snd (write_pieces d ps w) \<longrightarrow> q = concat ps)"
proof (induction ps arbitrary: d w)
  case (Cons p ps)
  obtain w1 ok where w1: "write_all (d 0) p w = (w1, ok)" by fastforce
  obtain q where q: "all_of w1 = all_of w @ q" "prefix q p" "ok \<longleftrightarrow> q = p" using write_all_all [of "d 0" p w] w1 by auto
  show ?case
  proof (cases ok)
    case True
    obtain r where "all_of (fst (write_pieces (\<lambda>k. d (Suc k)) ps w1)) = all_of w1 @ r" "prefix r (concat ps)"
        "snd (write_pieces (\<lambda>k. d (Suc k)) ps w1) \<longrightarrow> r = concat ps" using Cons.IH by blast
    with True w1 q show ?thesis by (intro exI [of _ "p @ r"]) simp
  next
    case False
    with w1 q show ?thesis by (intro exI [of _ q]) (simp add: prefix_prefix)
  qed
qed simp

lemma flush_grows: "prefix (bw_file w) (bw_file (fst (flush_buf d w)))"
  by (simp add: flush_buf_def)

lemma write_all_grows: "prefix (bw_file w) (bw_file (fst (write_all d p w)))"
  using flush_grows [of w "fst d"] by (auto simp: write_all_def Let_def split: prod.split)

lemma write_pieces_grows: "prefix (bw_file w) (bw_file (fst (write_pieces d ps w)))"
proof (induction ps arbitrary: d w)
  case (Cons p ps)
  obtain w1 ok where w1: "write_all (d 0) p w = (w1, ok)" by fastforce
  then have "prefix (bw_file w) (bw_file w1)" using write_all_grows [of w "d 0" p] by simp
  with Cons.IH [of w1 "\<lambda>k. d (Suc k)"] w1 show ?case by (auto intro: prefix_order.trans)
qed simp

text \<open>A writer given up has got a part of what it was given into its file.\<close>

lemma dropped_part:
  assumes "prefix f (bw_file w)" "all_of w = f @ q"
  shows "\<exists>q'. bw_file (fst (flush_buf d w)) = f @ q' \<and> prefix q' q"
proof -
  have "prefix f (bw_file (fst (flush_buf d w)))" using assms(1) flush_grows prefix_order.trans by blast
  then obtain q' where q': "bw_file (fst (flush_buf d w)) = f @ q'" by (auto simp: prefix_def)
  have "prefix (bw_file (fst (flush_buf d w))) (f @ q)"
    using flush_all [of d w] assms(2) by (metis all_of_def prefixI)
  with q' show ?thesis by simp
qed

section \<open>What the log holds\<close>

datatype audit_step =
    Wrote "nat \<Rightarrow> nat \<times> nat" nat audit_line
  | Reopened nat bool "nat \<Rightarrow> nat \<times> nat" nat nat string
  | Rotated

text \<open>
  One step, and the entry it was about, with the file that was written to and whether it was taken. A
  reopening that does not come to writing its event has none.
\<close>

type_synonym audit_trace = "(nat \<times> audit_entry \<times> bool) list"

fun audit_do :: "printer \<Rightarrow> audit_step \<Rightarrow> audit \<Rightarrow> audit \<times> audit_trace" where
  "audit_do js (Wrote d fl l) a =
     (let (a', ok) = audit_write js d fl (Request l) a in (a', [(au_writer a, Request l, ok)]))"
| "audit_do js (Reopened fl opened d fl2 dropped ts) a =
     (let (a', r) = audit_reopen js fl opened d fl2 dropped ts a
      in (a', if length (au_buffer a) \<le> fl \<and> opened then [(snd (open_path a), LogReopened ts, r = Inr ())] else []))"
| "audit_do js Rotated a = (rotated a, [])"

fun audit_run :: "printer \<Rightarrow> audit_step list \<Rightarrow> audit \<Rightarrow> audit \<times> audit_trace" where
  "audit_run js [] a = (a, [])"
| "audit_run js (s # ss) a = (let (a1, t1) = audit_do js s a; (a2, t2) = audit_run js ss a1 in (a2, t1 @ t2))"

text \<open>What a file has, and what is going there.\<close>

definition log_of :: "audit \<Rightarrow> nat \<Rightarrow> string" where
  "log_of a n = au_files a n @ (if n = au_writer a then au_buffer a else [])"

definition part_of :: "printer \<Rightarrow> nat \<times> audit_entry \<times> bool \<Rightarrow> nat \<times> string \<Rightarrow> bool" where
  "part_of js = (\<lambda>(n, e, ok) (m, part). m = n \<and> prefix part (concat (printed js e)) \<and> (ok \<longrightarrow> part = concat (printed js e)))"

definition parts_in :: "nat \<Rightarrow> (nat \<times> string) list \<Rightarrow> string" where
  "parts_in n ps = concat (map snd (filter (\<lambda>(m, _). m = n) ps))"

definition audit_ok :: "audit \<Rightarrow> bool" where
  "audit_ok a \<longleftrightarrow> au_writer a < au_next a \<and> (\<forall>n \<ge> au_next a. au_files a n = []) \<and>
     (case au_named a of None \<Rightarrow> True | Some n \<Rightarrow> au_writer a \<le> n \<and> n < au_next a)"

definition kept_by :: "printer \<Rightarrow> audit \<Rightarrow> audit \<Rightarrow> audit_trace \<Rightarrow> bool" where
  "kept_by js a a' t \<longleftrightarrow> audit_ok a' \<and> au_writer a \<le> au_writer a' \<and>
     (\<exists>ps. list_all2 (part_of js) t ps \<and> (\<forall>n. log_of a' n = log_of a n @ parts_in n ps))"

lemma parts_in_simps [simp]: "parts_in n [] = []" "parts_in n ((m, q) # ps) = (if m = n then q else []) @ parts_in n ps"
    "parts_in n (ps @ ps') = parts_in n ps @ parts_in n ps'"
  by (simp_all add: parts_in_def)

lemma writer_of_all: "all_of (writer_of a) = log_of a (au_writer a)"
  by (simp add: all_of_def writer_of_def log_of_def)

lemma log_with_writer: "log_of (with_writer w a) n = (if n = au_writer a then all_of w else log_of a n)"
  by (simp add: log_of_def with_writer_def all_of_def)

lemma ok_with_writer: "audit_ok a \<Longrightarrow> audit_ok (with_writer w a)"
  by (cases "au_named a") (auto simp: audit_ok_def with_writer_def)

lemma with_writer_fields [simp]: "au_writer (with_writer w a) = au_writer a" "au_named (with_writer w a) = au_named a"
    "au_next (with_writer w a) = au_next a" "au_buffer (with_writer w a) = bw_buf w"
  by (simp_all add: with_writer_def)

lemma write_kept:
  assumes "audit_ok a" "audit_write js d fl e a = (a', ok)"
  shows "kept_by js a a' [(au_writer a, e, ok)]"
proof -
  obtain w taken where w: "write_pieces d (printed js e) (writer_of a) = (w, taken)" by fastforce
  obtain q where q: "all_of w = log_of a (au_writer a) @ q" "prefix q (concat (printed js e))"
      "taken \<longrightarrow> q = concat (printed js e)"
    using write_pieces_all [of d "printed js e" "writer_of a"] w by (auto simp: writer_of_all)
  obtain w' where w': "a' = with_writer w' a" "all_of w' = all_of w" "ok = taken"
    using assms(2) w flush_all [of fl w] by (auto simp: audit_write_def split: if_splits)
  have "list_all2 (part_of js) [(au_writer a, e, ok)] [(au_writer a, q)]" using q(2,3) w'(3) by (simp add: part_of_def)
  moreover have "log_of a' n = log_of a n @ parts_in n [(au_writer a, q)]" for n
    using q(1) w' by (simp add: log_with_writer)
  ultimately show ?thesis using ok_with_writer [OF assms(1)] w'(1) by (auto simp: kept_by_def)
qed

lemma kept_refl: "audit_ok a \<Longrightarrow> (\<And>n. log_of a' n = log_of a n) \<Longrightarrow> audit_ok a' \<Longrightarrow> au_writer a' = au_writer a \<Longrightarrow> kept_by js a a' []"
  by (auto simp: kept_by_def)

lemma open_path_keeps:
  assumes "audit_ok a" "open_path a = (a2, n)"
  shows "audit_ok a2" "au_writer a2 = au_writer a" "au_buffer a2 = au_buffer a" "au_files a2 = au_files a"
    "au_named a2 = Some n" "au_writer a \<le> n" "n < au_next a2"
  using assms by (auto simp: open_path_def audit_ok_def split: option.splits)

lemma replacement_kept:
  assumes "audit_ok a" "au_writer a2 = au_writer a" "au_next a2 \<ge> au_next a" "audit_ok a2" "au_named a2 = Some n"
    and "\<And>m. log_of a m = au_files a2 m" and "prefix q (concat (printed js e))" "ok \<longrightarrow> q = concat (printed js e)"
    and "a' = a2\<lparr>au_files := (au_files a2)(n := au_files a2 n @ q), au_writer := (if ok then n else au_writer a2), au_buffer := []\<rparr>"
  shows "kept_by js a a' [(n, e, ok)]"
proof -
  have "audit_ok a'" "au_writer a \<le> au_writer a'" using assms(2,4,5,9) by (auto simp: audit_ok_def)
  moreover have "log_of a' m = log_of a m @ parts_in m [(n, q)]" for m
  proof -
    have "log_of a' m = au_files a' m" by (simp add: assms(9) log_of_def)
    then show ?thesis by (simp add: assms(6) assms(9))
  qed
  moreover have "list_all2 (part_of js) [(n, e, ok)] [(n, q)]" using assms(7,8) by (simp add: part_of_def)
  ultimately show ?thesis unfolding kept_by_def by blast
qed

lemma reopen_kept:
  assumes "audit_ok a" "audit_reopen js fl opened d fl2 dropped ts a = (a', r)"
  shows "kept_by js a a' (if length (au_buffer a) \<le> fl \<and> opened then [(snd (open_path a), LogReopened ts, r = Inr ())] else [])"
proof -
  obtain w ok where w: "flush_buf fl (writer_of a) = (w, ok)" by fastforce
  have ok: "ok \<longleftrightarrow> length (au_buffer a) \<le> fl" using w by (auto simp: flush_buf_def writer_of_def)
  let ?a1 = "with_writer w a"
  have same: "log_of ?a1 m = log_of a m" for m
    using flush_all [of fl "writer_of a"] w by (simp add: log_with_writer writer_of_all)
  show ?thesis
  proof (cases "ok \<and> opened")
    case False
    then have "a' = ?a1" using assms(2) w by (auto simp: audit_reopen_def Let_def split: if_splits)
    with False ok same ok_with_writer [OF assms(1), of w] show ?thesis by (auto intro!: kept_refl assms(1))
  next
    case True
    obtain a2 n where o: "open_path ?a1 = (a2, n)" by fastforce
    note a2 = open_path_keeps [OF ok_with_writer [OF assms(1)] o]
    have n: "snd (open_path a) = n" and next_a2: "au_next a \<le> au_next a2" using o by (auto simp: open_path_def split: option.splits)
    have empty: "bw_buf w = []" using flush_done [of fl "writer_of a" w] w True by simp
    then have buf: "au_buffer a2 = []" using a2(3) by simp
    have "log_of ?a1 m = au_files ?a1 m" for m using empty by (simp add: log_of_def)
    then have logs: "log_of a m = au_files a2 m" for m using same [of m] a2(4) by simp
    note settle = replacement_kept [OF assms(1) _ next_a2 a2(1,5) logs]
    let ?start = "\<lparr>bw_file = au_files a2 n, bw_buf = []\<rparr>" and ?line = "concat (printed js (LogReopened ts))"
    obtain u wrote where u: "write_pieces d (printed js (LogReopened ts)) ?start = (u, wrote)" by fastforce
    obtain q where q: "all_of u = au_files a2 n @ q" "prefix q ?line" "wrote \<longrightarrow> q = ?line"
      using write_pieces_all [of d "printed js (LogReopened ts)" ?start] u by (auto simp: all_of_def)
    have u_grows: "prefix (au_files a2 n) (bw_file u)" using write_pieces_grows [of ?start] u by (metis buffered.select_convs(1) fst_conv)
    obtain u2 flushed where u2: "flush_buf fl2 u = (u2, flushed)" by fastforce
    show ?thesis
    proof (cases "wrote \<and> flushed")
      case success: True
      then have "bw_file u2 = au_files a2 n @ q" "bw_buf u2 = []" using flush_done [of fl2 u u2] u2 q(1) by simp_all
      then have a': "a' = a2\<lparr>au_files := (au_files a2)(n := au_files a2 n @ q), au_writer := n, au_buffer := []\<rparr>" "r = Inr ()"
        using assms(2) w True o u u2 success by (auto simp: audit_reopen_def)
      with settle [of q js "LogReopened ts" True a'] q(2,3) success a2(2) True ok n show ?thesis by simp
    next
      case given_up: False
      define v where "v = (if wrote then u2 else u)"
      have v: "prefix (au_files a2 n) (bw_file v)" "all_of v = au_files a2 n @ q"
        using u_grows flush_grows [of u fl2] flush_all [of fl2 u] u2 q(1) by (auto simp: v_def intro: prefix_order.trans)
      obtain q' where q': "bw_file (fst (flush_buf dropped v)) = au_files a2 n @ q'" "prefix q' q"
        using dropped_part [OF v] by blast
      have "a' = a2\<lparr>au_files := (au_files a2)(n := au_files a2 n @ q')\<rparr> \<and> r \<noteq> Inr ()"
        using assms(2) w True o u u2 given_up q'(1) by (auto simp: audit_reopen_def v_def split: if_splits)
      then have a': "a' = a2\<lparr>au_files := (au_files a2)(n := au_files a2 n @ q'), au_writer := au_writer a2, au_buffer := []\<rparr>" "r \<noteq> Inr ()"
        using buf by simp_all
      have "prefix q' ?line" using q'(2) q(2) by (rule prefix_order.trans)
      with settle [of q' js "LogReopened ts" False a'] a' a2(2) True ok n show ?thesis by simp
    qed
  qed
qed

lemma do_kept: "audit_ok a \<Longrightarrow> audit_do js s a = (a', t) \<Longrightarrow> kept_by js a a' t"
proof (induction js s a rule: audit_do.induct)
  case (1 js d fl l a)
  then show ?case using write_kept by (auto split: prod.splits)
next
  case (2 js fl opened d fl2 dropped ts a)
  then obtain r where "audit_reopen js fl opened d fl2 dropped ts a = (a', r)"
    "t = (if length (au_buffer a) \<le> fl \<and> opened then [(snd (open_path a), LogReopened ts, r = Inr ())] else [])"
    by (auto split: prod.splits)
  with reopen_kept [OF 2(1)] show ?case by simp
next
  case (3 js a)
  then show ?case by (auto simp: rotated_def audit_ok_def log_of_def intro!: kept_refl)
qed

lemma kept_trans:
  assumes "kept_by js a a1 t1" "kept_by js a1 a2 t2"
  shows "kept_by js a a2 (t1 @ t2)"
proof -
  obtain p1 where p1: "list_all2 (part_of js) t1 p1" "\<And>n. log_of a1 n = log_of a n @ parts_in n p1"
    using assms(1) by (auto simp: kept_by_def)
  obtain p2 where p2: "list_all2 (part_of js) t2 p2" "\<And>n. log_of a2 n = log_of a1 n @ parts_in n p2"
    using assms(2) by (auto simp: kept_by_def)
  have "list_all2 (part_of js) (t1 @ t2) (p1 @ p2)" using p1(1) p2(1) by (rule list_all2_appendI)
  moreover have "log_of a2 n = log_of a n @ parts_in n (p1 @ p2)" for n by (simp add: p1(2) p2(2))
  ultimately show ?thesis using assms by (auto simp: kept_by_def)
qed

lemma run_kept: "audit_ok a \<Longrightarrow> audit_run js ss a = (a', t) \<Longrightarrow> kept_by js a a' t"
proof (induction ss arbitrary: a t)
  case (Cons s ss)
  obtain a1 t1 where 1: "audit_do js s a = (a1, t1)" by fastforce
  obtain t2 where 2: "audit_run js ss a1 = (a', t2)" "t = t1 @ t2" using Cons.prems(2) 1 by (auto split: prod.splits)
  have k: "kept_by js a a1 t1" by (rule do_kept [OF Cons.prems(1) 1])
  then have "audit_ok a1" by (simp add: kept_by_def)
  from kept_trans [OF k Cons.IH [OF this 2(1)]] 2(2) show ?case by simp
qed (auto intro: kept_refl)

text \<open>Where the requests went.\<close>

definition request_files :: "audit_trace \<Rightarrow> nat list" where
  "request_files t = map fst (filter (\<lambda>(_, e, _). is_request e) t)"

lemma request_files_do:
  "audit_do js s a = (a', t) \<Longrightarrow> set (request_files t) \<subseteq> {au_writer a} \<and> sorted (request_files t)"
  by (induction js s a rule: audit_do.induct) (auto simp: request_files_def split: prod.splits if_splits)

lemma request_files_run:
  "audit_ok a \<Longrightarrow> audit_run js ss a = (a', t) \<Longrightarrow> sorted (request_files t) \<and> (\<forall>n \<in> set (request_files t). au_writer a \<le> n)"
proof (induction ss arbitrary: a t)
  case (Cons s ss)
  obtain a1 t1 where 1: "audit_do js s a = (a1, t1)" by fastforce
  obtain t2 where 2: "audit_run js ss a1 = (a', t2)" "t = t1 @ t2" using Cons.prems(2) 1 by (auto split: prod.splits)
  have k: "audit_ok a1" "au_writer a \<le> au_writer a1" using do_kept [OF Cons.prems(1) 1] by (auto simp: kept_by_def)
  have "request_files t = request_files t1 @ request_files t2" by (simp add: 2(2) request_files_def)
  with Cons.IH [OF k(1) 2(1)] k(2) request_files_do [OF 1] show ?case by (force simp: sorted_append)
qed (simp add: request_files_def)

text \<open>
  C38. Rotation loses no request. Whatever is written, rotated away and reopened, and wherever the file
  system refuses or cuts short a write: each file the log has had, with what its writer still holds back, is
  what it was found with and then, once each and in order, a part of every entry written to it, with nothing
  else between. The part is the whole line where the line was taken (where \<^verbatim>\<open>writeln!\<close> succeeded, though
  flushing it may not have, and where the reopening succeeded), and the beginning of one elsewhere. Requests
  go to the files in the order these were made, and none to two of them. (What is held back when the process
  ends is not followed further.)
\<close>

theorem rotation_loses_nothing:
  assumes "audit_run js ss (audit_open before) = (a, t)"
  shows "(\<exists>ps. list_all2 (part_of js) t ps \<and>
      (\<forall>n. log_of a n = (case before of Some bs \<Rightarrow> if n = 0 then bs else [] | None \<Rightarrow> []) @ parts_in n ps)) \<and>
    [l. (_, Request l, _) \<leftarrow> t] = [l. Wrote _ _ l \<leftarrow> ss] \<and> sorted (request_files t)"
proof -
  have ok: "audit_ok (audit_open before)" by (simp add: audit_ok_def audit_open_def)
  have start: "log_of (audit_open before) n = (case before of Some bs \<Rightarrow> if n = 0 then bs else [] | None \<Rightarrow> [])" for n
    by (simp add: log_of_def audit_open_def split: option.split)
  have one: "[l. (_, Request l, _) \<leftarrow> t] = [l. Wrote _ _ l \<leftarrow> [s]]" if "audit_do js s a = (a', t)" for js s a a' t
    using that by (induction js s a rule: audit_do.induct) (auto split: prod.splits if_splits)
  have "[l. (_, Request l, _) \<leftarrow> t] = [l. Wrote _ _ l \<leftarrow> ss]" if "audit_run js ss a = (a', t)" for ss a a' t
    using that
  proof (induction ss arbitrary: a t)
    case (Cons s ss)
    obtain a1 t1 where 1: "audit_do js s a = (a1, t1)" by fastforce
    obtain t2 where 2: "audit_run js ss a1 = (a', t2)" "t = t1 @ t2" using Cons.prems 1 by (auto split: prod.splits)
    show ?case using one [OF 1] Cons.IH [OF 2(1)] 2(2) by simp
  qed simp
  from this [OF assms] run_kept [OF ok assms] request_files_run [OF ok assms] show ?thesis
    by (simp add: kept_by_def start)
qed

text \<open>A log rotated while its file took nothing, reopened at the second attempt.\<close>

definition plain_js :: printer where
  "plain_js e = (case e of Request l \<Rightarrow> [al_path l] | LogReopened t \<Rightarrow> [''again '', t])"

definition line_for :: "string \<Rightarrow> audit_line" where
  "line_for p = \<lparr>al_ts = [], al_method = ''GET'', al_path = p, al_status = 200, al_latency_us = 1, al_ua = []\<rparr>"

definition full_disk :: "audit_step list" where
  "full_disk = [Wrote (\<lambda>_. (0, 0)) 0 (line_for ''/a''), Rotated, Reopened 1 True (\<lambda>_. (0, 0)) 0 0 ''t'',
     Reopened 9 True (\<lambda>_. (9, 9)) 9 9 ''u'', Wrote (\<lambda>_. (9, 9)) 9 (line_for ''/b'')]"

lemma full_disk_run:
  "snd (audit_run plain_js full_disk (audit_open None)) =
     [(0, Request (line_for ''/a''), True), (1, LogReopened ''u'', True), (1, Request (line_for ''/b''), True)]"
  by (simp add: full_disk_def audit_write_def audit_reopen_def write_all_def flush_buf_def printed_def plain_js_def
      line_for_def audit_open_def writer_of_def with_writer_def rotated_def open_path_def BUF_CAPACITY_def Let_def)

lemma rotation_loses_nothing_witness:
  "\<exists>a t. audit_run plain_js full_disk (audit_open None) = (a, t) \<and> log_of a 0 = ''/a'' @ [CHR 0x0A] \<and>
     log_of a 1 = ''again u'' @ [CHR 0x0A] @ ''/b'' @ [CHR 0x0A]"
proof -
  obtain a t where run: "audit_run plain_js full_disk (audit_open None) = (a, t)" by fastforce
  then have t: "t = [(0, Request (line_for ''/a''), True), (1, LogReopened ''u'', True), (1, Request (line_for ''/b''), True)]"
    using full_disk_run by simp
  from rotation_loses_nothing [OF run] obtain ps where ps: "list_all2 (part_of plain_js) t ps" "\<And>n. log_of a n = parts_in n ps"
    by auto
  then have "ps = [(0, ''/a'' @ [CHR 0x0A]), (1, ''again u'' @ [CHR 0x0A]), (1, ''/b'' @ [CHR 0x0A])]"
    unfolding t by (auto simp: list_all2_Cons1 part_of_def printed_def plain_js_def line_for_def)
  then show ?thesis using run ps(2) by auto
qed

end
