(* ===== verification/Spec2Isabelle.thy ===== *)
theory Spec2Isabelle
  imports PoolHistory Tag Auth Bundle Leftover E2bLaws FirewallLaws NetPlan Images StoreKeys Listeners Front TagLaws FirecrackerLaws
    Trust Levers Runsc Feed AuditLog
begin

text \<open>
  \<^bold>\<open>Sandstorm: a verification library for sandstorm-core.\<close>

  Sandstorm runs sandboxes on a fleet of nodes. One \<^emph>\<open>master\<close> keeps the fleet in a sqlite database and
  answers an HTTP API; each \<^emph>\<open>node\<close> reports what it holds, is told what it should hold, and moves its
  sandboxes between four tiers of decreasing cost (hot, frozen, snapshot, detached). Requests for
  a sandbox do not pass through the master: they come to a gateway on its node, which wakes a cold
  sandbox, either directly or through the E2B front door, which only looks up where the gateway is.
  All paths below are under \<^verbatim>\<open>src/crates/sandstorm-core/src\<close>.

  \<^bold>\<open>How the parts interact.\<close> A create (\<open>Placement\<close>) picks a node and writes rows to the store
  (\<open>StoreSandboxes\<close>). A node's report (\<open>Reconcile\<close>) changes the rows and is answered with the
  difference between the rows and what the node holds, a list of commands (\<open>Proto\<close>). The node's loop
  (\<open>NodeLoop\<close>) admits them against its memory (\<open>NodeAdmission\<close>), groups the creates and runs each
  over the sandbox's runtime (\<open>Lifecycle\<close>), whose engine keeps images (\<open>Firecracker\<close>), whose bundle
  is made from a template (\<open>Bundle\<close>) and whose network has a slot, filter rules and a listener
  (\<open>NetPlan\<close>, \<open>Firewall\<close>, \<open>Gateway\<close>). Traffic goes back to the master in the next
  report and keeps a sandbox hot; without it the sweep (\<open>Demote\<close>) moves it one tier colder. Tags are
  images nodes fetch from each other (\<open>NodeTags\<close>) with tokens the master signs (\<open>Tag\<close>).

  \<^bold>\<open>Theories and sources.\<close>
  \<^item> \<open>Prelude\<close>: machine types, Rust's string functions, tables (lists of rows) and books (hash maps
    that are iterated), and the contract of a keyed store (locale \<open>keyed_store\<close>, interpreted on books,
    on the node rows and on the sandbox rows).
  \<^item> \<open>Tier\<close> is \<^verbatim>\<open>tier.rs\<close>; \<open>Tag\<close> is \<^verbatim>\<open>tag.rs\<close>; \<open>Auth\<close> is \<^verbatim>\<open>auth.rs\<close>; \<open>Egress\<close> and
    \<open>Proto\<close> are \<^verbatim>\<open>proto.rs\<close>.
  \<^item> \<open>StoreTypes\<close>, \<open>StoreNodes\<close>, \<open>StoreSandboxes\<close>, \<open>StoreCatalog\<close> are \<^verbatim>\<open>state.rs\<close>, a
    definition per statement; \<open>StoreKeys\<close> is the type invariant of the tables. The two allocators of
    ports and network slots are one locale, \<open>slot_allocator\<close>, interpreted twice.
  \<^item> \<open>MasterState\<close>, \<open>Pools\<close>, \<open>Fleet\<close>, \<open>PoolHistory\<close>, \<open>Templates\<close>, \<open>Reconcile\<close>,
    \<open>Placement\<close>, \<open>Handlers\<close>, \<open>HandlerLaws\<close>, \<open>Operator\<close>, \<open>Leftover\<close> are \<^verbatim>\<open>master/api.rs\<close>:
    the state of \<^verbatim>\<open>MasterState\<close>, registration and pools, templates and pulls, \<^verbatim>\<open>poll\<close> and
    \<^verbatim>\<open>diff\<close>, \<^verbatim>\<open>create_sandbox\<close>, the routes of one sandbox, and the operator's. \<open>Demote\<close> is
    \<^verbatim>\<open>master/demote.rs\<close>.
  \<^item> \<open>E2bText\<close>, \<open>E2b\<close>, \<open>E2bApi\<close>, \<open>E2bLaws\<close> are \<^verbatim>\<open>master/e2b.rs\<close>; \<open>Front\<close> is
    \<^verbatim>\<open>master/front.rs\<close>; \<open>Proxy\<close> is \<^verbatim>\<open>proxy.rs\<close>.
  \<^item> \<open>Lifecycle\<close> and \<open>LifecycleLaws\<close> are \<^verbatim>\<open>node/runtime.rs\<close>; \<open>Bundle\<close> is
    \<^verbatim>\<open>node/bundle.rs\<close>; \<open>Wake\<close> and \<open>WakeLaws\<close> are \<^verbatim>\<open>node/wake.rs\<close>; \<open>NodeAdmission\<close>,
    \<open>NodeLoop\<close> and \<open>NodeLaws\<close> are \<^verbatim>\<open>node/mod.rs\<close>, with \<^verbatim>\<open>node/starting.rs\<close> and
    \<^verbatim>\<open>node/switch.rs\<close>; \<open>System\<close> is a master and a node together.
  \<^item> \<open>Firewall\<close>, \<open>FirewallLaws\<close>, \<open>NetPlan\<close> are \<^verbatim>\<open>node/net.rs\<close>; \<open>Unpack\<close> and
    \<open>Images\<close> are \<^verbatim>\<open>node/images.rs\<close>; \<open>Gateway\<close>, \<open>GatewayLaws\<close>, \<open>Listeners\<close> are
    \<^verbatim>\<open>node/gateway.rs\<close>; \<open>NodeTags\<close> and \<open>TagLaws\<close> are \<^verbatim>\<open>node/tags.rs\<close>; \<open>Firecracker\<close> and
    \<open>FirecrackerLaws\<close> are \<^verbatim>\<open>node/firecracker.rs\<close>; \<open>Runsc\<close> is \<^verbatim>\<open>node/backend.rs\<close>;
    \<open>Reclaim\<close> is \<^verbatim>\<open>node/reclaim.rs\<close>; \<open>Levers\<close> is \<^verbatim>\<open>node/host.rs\<close>.
  \<^item> \<open>Listen\<close> is \<^verbatim>\<open>master/drive.rs\<close> with \<^verbatim>\<open>node/agent.rs\<close>: the nodes the master calls, instead of
    being called by; \<open>Trust\<close> is \<^verbatim>\<open>identity.rs\<close> and \<^verbatim>\<open>tls.rs\<close>; \<open>Metrics\<close> is
    \<^verbatim>\<open>master/metrics.rs\<close>; \<open>History\<close> and \<open>Feed\<close> are \<^verbatim>\<open>master/series.rs\<close>, the tables and
    the sampler that fills them; \<open>AuditLog\<close> is \<^verbatim>\<open>audit.rs\<close>.

  \<^bold>\<open>How the code is read.\<close> A struct is a record, an enum a datatype, an HTTP error the record
  \<open>api_err\<close> in the left of a sum, a string its bytes. Times are explicit arguments: \<^verbatim>\<open>now_secs()\<close>
  an integer of seconds, \<^verbatim>\<open>Instant\<close> a number of milliseconds, which the timers of the code all are
  multiples of. Integers are words where the code's arithmetic may wrap, as it does in a release build;
  a 64-bit float is a real. A handler that waits for a node is two definitions, what it does before
  the wait and what with the answer; a task another task may interleave with is its steps. What is
  outside the repository is an argument: the MAC, the hex and JSON codecs, the header functions of the
  http crate, what the kernel, the engine, a tool, a registry or the other end of a connection
  answers, random tokens, and readings of the host (a record \<open>world\<close>).

  \<^bold>\<open>What the lemmas show.\<close> Of the store: keys, the lowest free slot and port, single use of a
  registration token. Of the fleet: one fingerprint per pool, and the history of pools as a chain. Of a
  create: all rows or none, unique slots, caps of the nodes, the least loaded node. Of a poll: exactly the
  commands each sandbox gets, none if and only if the node has converged, and that one round brings a
  node whose steps succeed to what is desired. Of a sandbox's moves: they end, they arrive, they keep the
  disk and, short of detached and with an engine that validates only whole images, the memory (locales
  \<open>walk_keeps\<close> and \<open>sandbox_reading\<close>, each interpreted for disk and memory), they leave no caller
  without an answer but where a finding says so; idle, it trails the policy by two sweeps at most. Of the
  node: no memory is promised twice, wakes stay within their limits and make room of what is least missed.
  Of the network: the filter lets through what the policies permit and no more after any history, for
  addresses that were not given to two sandboxes at once; slots partition the range. Of images: no path
  leaves the root, a checkpoint is the memory whatever its chain, unless one before it failed halfway (locale \<open>checkpointed\<close>, interpreted for
  the VMs of the Firecracker backend), a fetch is the whole image or nothing. Of the gateway and the front
  door: a request reaches a sandbox only with its token, listeners follow the reports, names are read back,
  and the gateway waits without bound only for the answer of a sandbox it has passed a request to. Of the two ways to a node: a node that is called answers and is answered as one that
  polls, and only the master its code names opens it; a registration token goes to the master it names, and
  a CA that is there is never replaced. Of the host: reclaim takes at most its share and only of a sandbox
  that did not stall, compression does not flap. Of what is kept: quantiles are within a bucket, the pages
  of a search are its events, each change of a node is told once, the audit log loses no line it took when rotated.

  \<^bold>\<open>Bounds and fuel.\<close> Where a loop of the code ends only because time passes, the definition has a number
  of rounds and \<open>None\<close> for running out, and a lemma shows that it never does: a tier walk has as many
  rounds as there are tiers (\<open>length ORDER\<close>, 4); making room stops after \<open>MAX_EVICTIONS\<close>, with polls
  every \<open>PRESSURE_POLL\<close> (250 ms); the wait for envd has 63 rounds since 63 of its pauses are over its
  minute; a path follows at most \<open>MAX_LINKS\<close> (40) links; a registry request is tried \<open>TRIES\<close> (5)
  times; a connection to a sandbox has 100 rounds since its attempts take 50 of its 5,000 ms each; the
  wait for a starting program has 204, four growing pauses of 75 ms in all and then 200 of 50 ms for its
  ten seconds. The depth of a walk through the filter is 3, the deepest its chains call one another.

  \<^bold>\<open>What the findings are.\<close> Where the code does not do what it means to, a theorem shows the behaviour
  of the code as it is, and the property next to it says under which condition the intended one holds.

  \<^bold>\<open>Not modelled.\<close> \<^verbatim>\<open>main.rs\<close>, \<^verbatim>\<open>lib.rs\<close> and \<^verbatim>\<open>master/mod.rs\<close> parse arguments, open sockets
  and start the tasks whose bodies are modelled. Signatures, certificates and handshakes are the work of
  libraries: the model has which certificate is shown, by whom it was signed, and what the code's own
  verifiers say of it. Of the modelled files are left out: setting up interfaces by netlink and ioctl, warm
  seeds of templates, decompression and the making of file systems, Firecracker's HTTP client and the guest
  agent, the text of the console page and of the Prometheus counters, the formats of dates. Failures of the
  local disk and of sqlite are modelled only where the code decides something on them. What remains of the
  runtime is reading back state at a start, and of the node the wiring of its threads.
\<close>

end
